(* ===== verification/Prelude.thy ===== *)
theory Prelude
  imports Main "HOL-Library.Sublist"
begin

text \<open>
  What every component theory of the development shares.

  \<^item> \<open>i64\<close>: the wrap-around of Go's \<open>int\<close> and \<open>int64\<close> on a 64-bit platform, written
    out on \<^typ>\<open>int\<close>, for the places where the code multiplies or shifts values it does not bound.
  \<^item> \<open>update_first\<close> and \<open>delete_first\<close>: the two loops that every in-memory store of the
    repository is made of (\<open>for i, x := range xs { if p(x) { xs[i] = f(x); return } }\<close> and the same
    loop with \<open>append(xs[:i], xs[i+1:]...)\<close>).
  \<^item> \<open>go_slice\<close>: the slice expression \<open>xs[lo:hi]\<close> with its bounds check, and \<open>page_of\<close>, the page
    computation which the user and the API-key store share.
  \<^item> the collections \<open>first_simps\<close> and \<open>i64_simps\<close> that the component proofs use.

  Instants (\<open>time.Time\<close>) and durations (\<open>time.Duration\<close>) are integers (nanoseconds); an operation
  that reads the clock takes the instant as an argument \<open>now\<close>. The zero instant is 0.
\<close>

named_theorems first_simps
named_theorems i64_simps

type_synonym instant = int
type_synonym duration = int

abbreviation is_ok :: "'e + 'a \<Rightarrow> bool" where
  "is_ok r \<equiv> \<not> isl r"

section \<open>Machine integers\<close>

definition i64 :: "int \<Rightarrow> int" where
  "i64 x = (x + 2 ^ 63) mod 2 ^ 64 - 2 ^ 63"

definition in_i64 :: "int \<Rightarrow> bool" where
  "in_i64 x \<longleftrightarrow> - (2 ^ 63) \<le> x \<and> x < 2 ^ 63"

lemma i64_id [i64_simps]: "in_i64 x \<Longrightarrow> i64 x = x"
  by (simp add: i64_def in_i64_def)

lemma in_i64_i64 [i64_simps]: "in_i64 (i64 x)"
  using pos_mod_bound [of "2 ^ 64" "x + 2 ^ 63"] pos_mod_sign [of "2 ^ 64" "x + 2 ^ 63"]
  unfolding i64_def in_i64_def by simp

lemma i64_i64 [simp]: "i64 (i64 x) = i64 x"
  by (simp add: i64_simps)

lemma i64_small: "- 9223372036854775808 \<le> x \<Longrightarrow> x \<le> 9223372036854775807 \<Longrightarrow> i64 x = x"
  by (rule i64_id) (simp add: in_i64_def)

section \<open>First-match loops over a slice\<close>

fun update_first :: "('a \<Rightarrow> bool) \<Rightarrow> ('a \<Rightarrow> 'a) \<Rightarrow> 'a list \<Rightarrow> 'a list" where
  "update_first p f [] = []"
| "update_first p f (x # xs) = (if p x then f x # xs else x # update_first p f xs)"

fun delete_first :: "('a \<Rightarrow> bool) \<Rightarrow> 'a list \<Rightarrow> 'a list" where
  "delete_first p [] = []"
| "delete_first p (x # xs) = (if p x then xs else x # delete_first p xs)"

lemma length_update_first [simp]: "length (update_first p f xs) = length xs"
  by (induction xs) auto

lemma update_first_none [first_simps]: "find p xs = None \<Longrightarrow> update_first p f xs = xs"
  by (induction xs) (auto split: if_splits)

lemma update_first_False [simp]: "update_first (\<lambda>_. False) f xs = xs"
  by (induction xs) auto

lemma map_update_first [first_simps]:
  "(\<And>x. x \<in> set xs \<Longrightarrow> p x \<Longrightarrow> g (f x) = g x) \<Longrightarrow> map g (update_first p f xs) = map g xs"
  by (induction xs) auto

lemma set_update_first: "set (update_first p f xs) \<subseteq> set xs \<union> f ` {x \<in> set xs. p x}"
  by (induction xs) auto

lemma in_update_first_other: "x \<in> set xs \<Longrightarrow> \<not> p x \<Longrightarrow> x \<in> set (update_first p f xs)"
  by (induction xs) auto

lemma update_first_in: "find p xs = Some x \<Longrightarrow> f x \<in> set (update_first p f xs)"
  by (induction xs) (auto split: if_splits)

lemma find_update_first_skip:
  "(\<And>y. y \<in> set xs \<Longrightarrow> p y \<Longrightarrow> \<not> q y \<and> \<not> q (f y)) \<Longrightarrow> find q (update_first p f xs) = find q xs"
  by (induction xs) auto

lemma filter_update_first:
  "(\<And>x. p x \<Longrightarrow> p (f x)) \<Longrightarrow> filter (\<lambda>x. \<not> p x) (update_first p f xs) = filter (\<lambda>x. \<not> p x) xs"
  by (induction xs) auto

lemma find_update_first_same:
  "find p xs = Some x \<Longrightarrow> p (f x) \<Longrightarrow> find p (update_first p f xs) = Some (f x)"
  by (induction xs) (auto split: if_splits)

lemma find_update_first_other:
  "(\<And>y. p y \<Longrightarrow> q y = q (f y)) \<Longrightarrow> (\<And>y. p y \<Longrightarrow> \<not> q y) \<Longrightarrow>
   find q (update_first p f xs) = find q xs"
  by (induction xs) auto

lemma find_pred_cong: "(\<And>y. y \<in> set xs \<Longrightarrow> p y = q y) \<Longrightarrow> find p xs = find q xs"
  by (induction xs) auto

lemma find_append: "find p (xs @ ys) = (case find p xs of None \<Rightarrow> find p ys | Some x \<Rightarrow> Some x)"
  by (induction xs) auto

lemma find_SomeD: "find p xs = Some x \<Longrightarrow> x \<in> set xs \<and> p x"
  by (induction xs) (auto split: if_splits)

lemma find_NoneD: "find p xs = None \<Longrightarrow> x \<in> set xs \<Longrightarrow> \<not> p x"
  by (auto simp: find_None_iff)

lemma find_unique:
  assumes "x \<in> set xs" "p x" "\<And>y. y \<in> set xs \<Longrightarrow> p y \<Longrightarrow> y = x"
  shows "find p xs = Some x"
proof (cases "find p xs")
  case None
  with assms(1,2) show ?thesis by (blast dest: find_NoneD)
next
  case (Some y)
  with assms(3) show ?thesis by (blast dest: find_SomeD)
qed

lemma delete_first_none [first_simps]: "find p xs = None \<Longrightarrow> delete_first p xs = xs"
  by (induction xs) (auto split: if_splits)

lemma subseq_delete_first: "subseq (delete_first p xs) xs"
  by (induction xs) auto

lemma subseq_map_delete_first: "subseq (map g (delete_first p xs)) (map g xs)"
  by (rule subseq_map) (rule subseq_delete_first)

lemma set_subseq: "subseq xs ys \<Longrightarrow> set xs \<subseteq> set ys"
  by (auto dest: list_emb_set)

lemma sorted_wrt_subseq: "subseq xs ys \<Longrightarrow> sorted_wrt R ys \<Longrightarrow> sorted_wrt R xs"
proof (induction rule: list_emb.induct)
  case (list_emb_Cons2 x y xs ys)
  then show ?case using set_subseq by fastforce
qed auto

lemma set_delete_first: "set (delete_first p xs) \<subseteq> set xs"
  by (induction xs) auto

lemma in_delete_first_other: "x \<in> set xs \<Longrightarrow> \<not> p x \<Longrightarrow> x \<in> set (delete_first p xs)"
  by (induction xs) auto

lemma delete_first_filter:
  "distinct (map g xs) \<Longrightarrow> delete_first (\<lambda>x. g x = k) xs = filter (\<lambda>x. g x \<noteq> k) xs"
proof (induction xs)
  case Nil
  then show ?case by simp
next
  case (Cons x xs)
  have "filter (\<lambda>y. g y \<noteq> g x) xs = xs" if "g x \<notin> g ` set xs"
    using that by (metis (mono_tags, lifting) filter_True imageI)
  with Cons show ?case by auto
qed

lemma length_delete_first:
  "find p xs = Some x \<Longrightarrow> length xs = Suc (length (delete_first p xs))"
  by (induction xs) (auto split: if_splits)

lemma distinct_map_eq: "distinct (map g xs) \<Longrightarrow> x \<in> set xs \<Longrightarrow> y \<in> set xs \<Longrightarrow> g x = g y \<Longrightarrow> x = y"
  by (auto simp: distinct_map inj_on_def)

lemma find_key: "distinct (map g xs) \<Longrightarrow> x \<in> set xs \<Longrightarrow> find (\<lambda>y. g y = g x) xs = Some x"
  by (auto intro: find_unique dest: distinct_map_eq)

section \<open>Slices and pages\<close>

text \<open>A Go panic is the value \<open>Inl Panic\<close>: no code below the slice expression runs.\<close>

datatype panic = Panic

definition go_slice :: "'a list \<Rightarrow> int \<Rightarrow> int \<Rightarrow> panic + 'a list" where
  "go_slice xs lo hi =
     (if 0 \<le> lo \<and> lo \<le> hi \<and> hi \<le> int (length xs)
      then Inr (take (nat (hi - lo)) (drop (nat lo) xs)) else Inl Panic)"

definition norm_page :: "int \<Rightarrow> int" where
  "norm_page page = (if page < 1 then 1 else page)"

definition norm_page_size :: "int \<Rightarrow> int" where
  "norm_page_size pageSize = (if pageSize < 1 \<or> pageSize > 100 then 20 else pageSize)"

definition page_of :: "'a list \<Rightarrow> int \<Rightarrow> int \<Rightarrow> panic + 'a list" where
  "page_of filtered page pageSize =
     (let p = norm_page page; sz = norm_page_size pageSize;
          start = i64 (i64 (p - 1) * sz)
      in if start \<ge> int (length filtered) then Inr []
         else let e = i64 (start + sz);
                  e' = (if e > int (length filtered) then int (length filtered) else e)
              in go_slice filtered start e')"

lemma norm_page_size_bounds: "1 \<le> norm_page_size n \<and> norm_page_size n \<le> 100"
  by (simp add: norm_page_size_def)

lemma norm_page_pos: "1 \<le> norm_page n"
  by (simp add: norm_page_def)

lemma page_of_exact:
  assumes p: "1 \<le> p" "p \<le> 2 ^ 56" and len: "int (length xs) \<le> 2 ^ 62"
  shows "page_of xs p n =
    Inr (take (nat (norm_page_size n)) (drop (nat ((p - 1) * norm_page_size n)) xs))"
proof -
  define k where "k = norm_page_size n"
  have k: "1 \<le> k" "k \<le> 100"
    using norm_page_size_bounds by (auto simp: k_def)
  have "(p - 1) * k \<le> 2 ^ 56 * 100"
    by (rule mult_mono) (use p k in auto)
  moreover have "0 \<le> (p - 1) * k"
    using p k by simp
  ultimately have s: "0 \<le> (p - 1) * k" "(p - 1) * k \<le> 7205759403792793600"
    by auto
  have "i64 (p - 1) = p - 1"
    using p by (intro i64_small) auto
  moreover have "i64 ((p - 1) * k) = (p - 1) * k" "i64 ((p - 1) * k + k) = (p - 1) * k + k"
    by (rule i64_small; use s k in linarith)+
  ultimately have i: "i64 (i64 (p - 1) * k) = (p - 1) * k" "i64 ((p - 1) * k + k) = (p - 1) * k + k"
    by simp_all
  have np: "norm_page p = p"
    using p by (simp add: norm_page_def)
  have "page_of xs p n = Inr (take (nat k) (drop (nat ((p - 1) * k)) xs))"
  proof (cases "(p - 1) * k + k \<le> int (length xs)")
    case True
    with s k show ?thesis
      by (simp add: page_of_def Let_def k_def [symmetric] np i go_slice_def)
  next
    case False
    with s k show ?thesis
      by (auto simp: page_of_def Let_def k_def [symmetric] np i go_slice_def nat_diff_distrib)
  qed
  then show ?thesis
    by (simp add: k_def)
qed

lemma concat_pages:
  "concat (map (\<lambda>i. take k (drop (i * k) xs)) [0..<m]) = take (m * k) xs"
proof (induction m)
  case 0
  then show ?case by simp
next
  case (Suc m)
  have "take (m * k) xs @ take k (drop (m * k) xs) = take (Suc m * k) xs"
    by (metis add.commute mult_Suc take_add)
  with Suc show ?case by simp
qed

text \<open>The page number at which the offset of the page computation wraps below zero.\<close>

lemma page_of_overflow: "page_of xs 9223372036854775807 20 = Inl Panic"
  by (simp add: page_of_def norm_page_def norm_page_size_def i64_def go_slice_def)

end
