(* ===== verification/IdStore.thy ===== *)
theory IdStore
  imports Prelude
begin

text \<open>
  The contract that the repository's in-memory stores share: a slice of records and a counter,
  \<open>Create\<close> increments the counter, stamps the record with it and appends
  (\<open>s.seq++; x.ID = s.seq; s.xs = append(s.xs, x)\<close>), and every other operation rewrites records in
  place or removes them, touching neither the counter nor an identifier.

  The locale states that contract over the operations of a store (\<open>create\<close> returns \<^const>\<open>None\<close> when it
  rejects its input, \<open>edit\<close> stands for all the operations that are not \<open>create\<close>, one constructor
  each) and proves once what the callers rely on: identifiers are unique, never larger than the
  counter, and an identifier that was given out is never given out again, whatever happens in
  between. The user store, the task store, the API-key store, the social-account store and the
  audit log interpret it in their own theories.

  Go's \<open>uint\<close> identifiers are \<^typ>\<open>nat\<close>: the counter would have to be incremented \<open>2^64\<close> times to wrap.
\<close>

locale id_store =
  fixes items :: "'s \<Rightarrow> 'a list"
    and seq :: "'s \<Rightarrow> nat"
    and ident :: "'a \<Rightarrow> nat"
    and create :: "'c \<Rightarrow> 's \<Rightarrow> 's option"
    and edit :: "'e \<Rightarrow> 's \<Rightarrow> 's"
  assumes create_seq: "create c s = Some s' \<Longrightarrow> seq s' = Suc (seq s)"
    and create_ids: "create c s = Some s' \<Longrightarrow> map ident (items s') = map ident (items s) @ [Suc (seq s)]"
    and edit_seq: "seq (edit e s) = seq s"
    and edit_ids: "subseq (map ident (items (edit e s))) (map ident (items s))"
begin

definition ids_ok :: "'s \<Rightarrow> bool" where
  "ids_ok s \<longleftrightarrow> sorted_wrt (<) (map ident (items s)) \<and> (\<forall>n \<in> set (map ident (items s)). n \<le> seq s)"

text \<open>One call of the store's interface, and a history of calls.\<close>

definition call :: "'c + 'e \<Rightarrow> 's \<Rightarrow> 's" where
  "call op s = (case op of Inl c \<Rightarrow> (case create c s of None \<Rightarrow> s | Some s' \<Rightarrow> s') | Inr e \<Rightarrow> edit e s)"

fun calls :: "('c + 'e) list \<Rightarrow> 's \<Rightarrow> 's" where
  "calls [] s = s"
| "calls (op # ops) s = calls ops (call op s)"

lemma create_ids_ok: "ids_ok s \<Longrightarrow> create c s = Some s' \<Longrightarrow> ids_ok s'"
  unfolding ids_ok_def
  by (frule create_ids, frule create_seq) (auto simp: sorted_wrt_append less_Suc_eq_le simp del: set_map)

lemma edit_ids_ok: "ids_ok s \<Longrightarrow> ids_ok (edit e s)"
  unfolding ids_ok_def edit_seq
  using sorted_wrt_subseq [OF edit_ids] set_subseq [OF edit_ids] by blast

lemma call_ids_ok: "ids_ok s \<Longrightarrow> ids_ok (call op s)"
  by (auto simp: call_def edit_ids_ok create_ids_ok split: sum.splits option.splits)

lemma calls_ids_ok: "ids_ok s \<Longrightarrow> ids_ok (calls ops s)"
  by (induction ops arbitrary: s) (simp_all add: call_ids_ok)

lemma ids_distinct: "ids_ok s \<Longrightarrow> distinct (map ident (items s))"
  by (simp add: ids_ok_def strict_sorted_iff flip: strict_sorted_simps)

lemma find_id:
  "ids_ok s \<Longrightarrow> x \<in> set (items s) \<Longrightarrow> find (\<lambda>y. ident y = ident x) (items s) = Some x"
  by (rule find_key) (simp_all add: ids_distinct)

lemma seq_call: "seq s \<le> seq (call op s)"
  by (auto simp: call_def edit_seq dest: create_seq split: sum.splits option.splits)

lemma seq_calls: "seq s \<le> seq (calls ops s)"
  by (induction ops arbitrary: s) (auto intro: order_trans [OF seq_call])

text \<open>
  No reuse: an identifier at most the counter that no record carries now is carried by no record
  after any history of calls.
\<close>

lemma call_no_reuse:
  "n \<le> seq s \<Longrightarrow> n \<notin> ident ` set (items s) \<Longrightarrow> n \<notin> ident ` set (items (call op s))"
proof (cases op)
  case (Inl c)
  assume n: "n \<le> seq s" "n \<notin> ident ` set (items s)"
  show ?thesis
  proof (cases "create c s")
    case (Some s')
    have "ident ` set (items s') = insert (Suc (seq s)) (ident ` set (items s))"
      using arg_cong [OF create_ids [OF Some], of set] by simp
    with n Inl Some show ?thesis by (auto simp: call_def)
  qed (use n Inl in \<open>simp add: call_def\<close>)
next
  case (Inr e)
  assume n: "n \<le> seq s" "n \<notin> ident ` set (items s)"
  have "ident ` set (items (edit e s)) \<subseteq> ident ` set (items s)"
    using set_subseq [OF edit_ids [of e s]] by simp
  with n Inr show ?thesis by (auto simp: call_def)
qed

lemma calls_no_reuse:
  "n \<le> seq s \<Longrightarrow> n \<notin> ident ` set (items s) \<Longrightarrow> n \<notin> ident ` set (items (calls ops s))"
proof (induction ops arbitrary: s)
  case Nil
  then show ?case by simp
next
  case (Cons op ops)
  have "n \<le> seq (call op s)"
    using Cons.prems(1) seq_call by (rule order_trans)
  with Cons call_no_reuse show ?case by simp
qed

lemma create_fresh: "ids_ok s \<Longrightarrow> create c s = Some s' \<Longrightarrow> Suc (seq s) \<notin> ident ` set (items s)"
  by (auto simp: ids_ok_def)

end

end
