(* ===== verification/GoStd.thy ===== *)
theory GoStd
  imports Prelude "HOL-Library.Word"
begin

text \<open>
  The functions of Go's standard library that several components call, as the source uses them:
  \<open>encoding/hex\<close>, \<open>strings.HasPrefix\<close>, \<open>strings.Split\<close>, \<open>strings.SplitN\<close>, \<open>strings.Contains\<close> and
  \<open>strconv.Atoi\<close>. A Go string is a list of characters, one per byte.
\<close>

type_synonym bytes = "8 word list"

text \<open>The conversions \<open>[]byte(s)\<close> and \<open>string(bs)\<close>.\<close>

definition str_bytes :: "string \<Rightarrow> bytes" where
  "str_bytes s = map (\<lambda>c. of_nat (of_char c)) s"

definition bytes_str :: "bytes \<Rightarrow> string" where
  "bytes_str bs = map (\<lambda>b. char_of (unat b)) bs"

lemma length_str_bytes [simp]: "length (str_bytes s) = length s" "length (bytes_str bs) = length bs"
  by (simp_all add: str_bytes_def bytes_str_def)

lemma str_bytes_append [simp]: "str_bytes (s @ t) = str_bytes s @ str_bytes t" "bytes_str (a @ b) = bytes_str a @ bytes_str b"
  by (simp_all add: str_bytes_def bytes_str_def)

lemma unat_byte_char: "unat (of_nat (of_char c) :: 8 word) = of_char c"
proof -
  have "(of_char c :: nat) < 2 ^ LENGTH(8)" by simp
  then show ?thesis by (simp add: unsigned_of_nat take_bit_nat_eq_self)
qed

lemma bytes_str_bytes [simp]: "bytes_str (str_bytes s) = s"
  by (induction s) (simp_all add: bytes_str_def str_bytes_def unat_byte_char)

lemma str_bytes_str [simp]: "str_bytes (bytes_str bs) = bs"
proof (induction bs)
  case (Cons b bs)
  have "unat b < 256" using unsigned_less [of b] by simp
  then show ?case using Cons by (simp add: bytes_str_def str_bytes_def)
qed (simp add: bytes_str_def str_bytes_def)

section \<open>encoding/hex\<close>

definition hex_digit :: "nat \<Rightarrow> char" where
  "hex_digit n = ''0123456789abcdef'' ! n"

fun hex_encode :: "8 word list \<Rightarrow> string" where
  "hex_encode [] = []"
| "hex_encode (b # bs) = hex_digit (unat b div 16) # hex_digit (unat b mod 16) # hex_encode bs"

lemma length_hex_encode [simp]: "length (hex_encode bs) = 2 * length bs"
  by (induction bs) auto

lemma hex_digit_inj: "m < 16 \<Longrightarrow> n < 16 \<Longrightarrow> hex_digit m = hex_digit n \<Longrightarrow> m = n"
  by (simp add: hex_digit_def nth_eq_iff_index_eq)

lemma hex_encode_inj: "hex_encode bs = hex_encode cs \<Longrightarrow> bs = cs"
proof (induction bs arbitrary: cs)
  case Nil
  then show ?case by (cases cs) auto
next
  case (Cons b bs)
  then obtain c cs' where cs: "cs = c # cs'"
    by (cases cs) auto
  have lt: "unat (x :: 8 word) < 256" for x
    using unsigned_less [of x] by simp
  from Cons.prems cs have "unat b div 16 = unat c div 16" "unat b mod 16 = unat c mod 16"
    using lt [of b] lt [of c] by (auto intro: hex_digit_inj)
  then have "unat b = unat c"
    by (metis div_mult_mod_eq)
  with Cons cs show ?case by (simp add: word_unat_eq_iff)
qed

text \<open>\<open>hex.DecodeString\<close>, \<^const>\<open>None\<close> where it reports an error.\<close>

definition hex_val :: "char \<Rightarrow> nat option" where
  "hex_val c = (let n = of_char c in
     if 48 \<le> n \<and> n \<le> 57 then Some (n - 48)
     else if 97 \<le> n \<and> n \<le> 102 then Some (n - 87)
     else if 65 \<le> n \<and> n \<le> 70 then Some (n - 55)
     else None)"

fun hex_decode :: "string \<Rightarrow> bytes option" where
  "hex_decode [] = Some []"
| "hex_decode [c] = None"
| "hex_decode (a # b # s) = (case (hex_val a, hex_val b) of
     (Some x, Some y) \<Rightarrow> map_option (\<lambda>bs. of_nat (16 * x + y) # bs) (hex_decode s)
   | _ \<Rightarrow> None)"

lemma hex_val_digit: "n < 16 \<Longrightarrow> hex_val (hex_digit n) = Some n"
proof -
  assume n: "n < 16"
  have "list_all (\<lambda>n. hex_val (hex_digit n) = Some n) [0..<16]" by code_simp
  with n show ?thesis by (simp add: list_all_iff)
qed

lemma hex_decode_encode [simp]: "hex_decode (hex_encode bs) = Some bs"
proof (induction bs)
  case (Cons b bs)
  have "unat b < 256" using unsigned_less [of b] by simp
  then have "hex_val (hex_digit (unat b div 16)) = Some (unat b div 16)" "hex_val (hex_digit (unat b mod 16)) = Some (unat b mod 16)"
    by (intro hex_val_digit, simp)+
  with Cons show ?case by simp
qed simp

lemma length_hex_decode: "hex_decode s = Some bs \<Longrightarrow> length s = 2 * length bs"
  by (induction s arbitrary: bs rule: hex_decode.induct) (auto split: option.splits)

section \<open>strings\<close>

definition has_prefix :: "string \<Rightarrow> string \<Rightarrow> bool" where
  "has_prefix s p \<longleftrightarrow> take (length p) s = p"

fun contains_sub :: "string \<Rightarrow> string \<Rightarrow> bool" where
  "contains_sub [] sub = (sub = [])"
| "contains_sub (c # cs) sub = (has_prefix (c # cs) sub \<or> contains_sub cs sub)"

text \<open>\<open>strings.Split(s, sep)\<close> for a separator of one byte.\<close>

fun split_on :: "char \<Rightarrow> string \<Rightarrow> string list" where
  "split_on c [] = [[]]"
| "split_on c (x # xs) =
     (if x = c then [] # split_on c xs
      else case split_on c xs of [] \<Rightarrow> [[x]] | w # ws \<Rightarrow> (x # w) # ws)"

text \<open>\<open>strings.SplitN(s, sep, 2)\<close>, likewise.\<close>

fun split_2 :: "char \<Rightarrow> string \<Rightarrow> string list" where
  "split_2 c [] = [[]]"
| "split_2 c (x # xs) =
     (if x = c then [[], xs]
      else case split_2 c xs of [] \<Rightarrow> [[x]] | w # ws \<Rightarrow> (x # w) # ws)"

text \<open>\<open>strings.ToLower\<close> and \<open>strings.ToUpper\<close> on the ASCII letters.\<close>

definition ascii_lower :: "string \<Rightarrow> string" where
  "ascii_lower s = map (\<lambda>c. if 65 \<le> (of_char c :: nat) \<and> (of_char c :: nat) \<le> 90 then char_of ((of_char c :: nat) + 32) else c) s"

definition ascii_upper :: "string \<Rightarrow> string" where
  "ascii_upper s = map (\<lambda>c. if 97 \<le> (of_char c :: nat) \<and> (of_char c :: nat) \<le> 122 then char_of ((of_char c :: nat) - 32) else c) s"

text \<open>\<open>strings.TrimSpace\<close> on ASCII text.\<close>

definition is_space :: "char \<Rightarrow> bool" where
  "is_space c \<longleftrightarrow> (of_char c :: nat) \<in> {9, 10, 11, 12, 13, 32}"

definition trim_space :: "string \<Rightarrow> string" where
  "trim_space s = rev (dropWhile is_space (rev (dropWhile is_space s)))"

lemma split_on_nonempty [simp]: "split_on c s \<noteq> []"
  by (induction s) (auto split: list.splits)

lemma has_prefix_iff: "has_prefix s p \<longleftrightarrow> (\<exists>t. s = p @ t)"
  by (auto simp: has_prefix_def) (metis append_take_drop_id)

lemma split_on_word: "c \<notin> set w \<Longrightarrow> split_on c (w @ c # s) = w # split_on c s" "c \<notin> set w \<Longrightarrow> split_on c w = [w]"
  by (induction w) auto

lemma split_2_word:
  "c \<notin> set w \<Longrightarrow> split_2 c (w @ c # s) = [w, s]"
  by (induction w) auto

lemma contains_sub_iff: "contains_sub s sub \<longleftrightarrow> (\<exists>a b. s = a @ sub @ b)"
proof (induction s)
  case Nil
  then show ?case by auto
next
  case (Cons c cs)
  show ?case
  proof
    assume "contains_sub (c # cs) sub"
    then consider "has_prefix (c # cs) sub" | "contains_sub cs sub" by auto
    then show "\<exists>a b. c # cs = a @ sub @ b"
    proof cases
      case 1
      then show ?thesis by (metis append_Nil has_prefix_iff)
    next
      case 2
      with Cons show ?thesis by (metis append_Cons)
    qed
  next
    assume "\<exists>a b. c # cs = a @ sub @ b"
    then obtain a b where ab: "c # cs = a @ sub @ b" by blast
    show "contains_sub (c # cs) sub"
    proof (cases a)
      case Nil
      with ab have "has_prefix (c # cs) sub"
        unfolding has_prefix_iff by simp
      then show ?thesis by simp
    next
      case (Cons a' as)
      with ab have "cs = as @ sub @ b" by simp
      with Cons.IH show ?thesis by auto
    qed
  qed
qed

section \<open>fmt and strconv: decimal integers\<close>

definition digit :: "nat \<Rightarrow> char" where
  "digit n = ''0123456789'' ! n"

fun digits :: "nat \<Rightarrow> string" where
  "digits n = (if n < 10 then [digit n] else digits (n div 10) @ [digit (n mod 10)])"

declare digits.simps [simp del]

definition fmt_int :: "int \<Rightarrow> string" where
  "fmt_int i = (if i < 0 then CHR ''-'' # digits (nat (- i)) else digits (nat i))"

lemma digit_inj: "m < 10 \<Longrightarrow> n < 10 \<Longrightarrow> digit m = digit n \<Longrightarrow> m = n"
  by (simp add: digit_def nth_eq_iff_index_eq)

lemma digit_in: "n < 10 \<Longrightarrow> digit n \<in> set ''0123456789''"
  by (simp only: digit_def, rule nth_mem) simp

lemma digits_set: "set (digits n) \<subseteq> set ''0123456789''"
proof (induction n rule: digits.induct)
  case (1 n)
  show ?case
  proof (cases "n < 10")
    case True
    then show ?thesis using digit_in [OF True] by (simp add: digits.simps [of n])
  next
    case False
    have "digit (n mod 10) \<in> set ''0123456789''" by (rule digit_in) simp
    with False 1 show ?thesis by (simp add: digits.simps [of n])
  qed
qed

lemma digits_nonempty [simp]: "digits n \<noteq> []" "[] \<noteq> digits n"
  by (simp_all add: digits.simps [of n])

lemma digits_no_dash: "CHR ''-'' \<notin> set (digits n)"
  using digits_set [of n] by auto

lemma digits_inj: "digits m = digits n \<Longrightarrow> m = n"
proof (induction m arbitrary: n rule: digits.induct)
  case (1 m)
  show ?case
  proof (cases "m < 10"; cases "n < 10")
    assume m: "m < 10" and n: "n < 10"
    with 1(2) show ?thesis
      by (auto simp: digits.simps [of m] digits.simps [of n] intro: digit_inj)
  next
    assume m: "\<not> m < 10" and n: "\<not> n < 10"
    with 1(2) have "digits (m div 10) = digits (n div 10)" "digit (m mod 10) = digit (n mod 10)"
      by (simp_all add: digits.simps [of m] digits.simps [of n])
    then have "m div 10 = n div 10" "m mod 10 = n mod 10"
      using 1(1) [OF m] by (auto intro: digit_inj)
    then show ?thesis by (metis div_mult_mod_eq)
  next
    assume m: "m < 10" and n: "\<not> n < 10"
    with 1(2) show ?thesis by (simp add: digits.simps [of m] digits.simps [of n])
  next
    assume m: "\<not> m < 10" and n: "n < 10"
    with 1(2) show ?thesis by (simp add: digits.simps [of m] digits.simps [of n])
  qed
qed

lemma fmt_int_inj: "fmt_int i = fmt_int j \<Longrightarrow> i = j"
proof -
  assume e: "fmt_int i = fmt_int j"
  have "CHR ''-'' # ds \<noteq> digits n" for ds n
    using digits_no_dash [of n] by (metis list.set_intros(1))
  then have "(i < 0) = (j < 0)"
    using e by (auto simp: fmt_int_def split: if_splits) metis+
  with e show ?thesis
    by (auto simp: fmt_int_def split: if_splits dest!: digits_inj)
qed

lemma append_sep_inj:
  "c \<notin> set v \<Longrightarrow> c \<notin> set w \<Longrightarrow> v @ c # x = w @ c # y \<Longrightarrow> v = w \<and> x = y"
proof (induction v arbitrary: w)
  case Nil
  then show ?case by (cases w) auto
next
  case (Cons a v)
  then show ?case by (cases w) auto
qed

text \<open>\<open>strconv.Atoi\<close>: an optional sign, at least one digit, a value of 64 bits.\<close>

definition digit_val :: "char \<Rightarrow> nat option" where
  "digit_val c = (let n = of_char c in if 48 \<le> n \<and> n \<le> 57 then Some (n - 48) else None)"

fun digits_val :: "nat \<Rightarrow> string \<Rightarrow> nat option" where
  "digits_val acc [] = Some acc"
| "digits_val acc (c # cs) = (case digit_val c of None \<Rightarrow> None | Some d \<Rightarrow> digits_val (10 * acc + d) cs)"

definition atoi :: "string \<Rightarrow> int option" where
  "atoi s =
    (let (neg, ds) = (case s of
           [] \<Rightarrow> (False, [])
         | c # cs \<Rightarrow> if c = CHR ''-'' then (True, cs) else if c = CHR ''+'' then (False, cs) else (False, s))
     in if ds = [] then None
        else case digits_val 0 ds of
          None \<Rightarrow> None
        | Some n \<Rightarrow> let v = (if neg then - int n else int n) in if in_i64 v then Some v else None)"

lemma digit_val_digit: "n < 10 \<Longrightarrow> digit_val (digit n) = Some n"
proof -
  assume n: "n < 10"
  have "list_all (\<lambda>n. digit_val (digit n) = Some n) [0..<10]" by code_simp
  with n show ?thesis by (simp add: list_all_iff)
qed

lemma digits_val_append: "digits_val acc (s @ [digit n]) = (if n < 10 then map_option (\<lambda>v. 10 * v + n) (digits_val acc s) else digits_val acc (s @ [digit n]))"
  by (induction s arbitrary: acc) (auto simp: digit_val_digit split: option.split)

lemma digits_val_digits: "digits_val 0 (digits n) = Some n"
proof (induction n rule: digits.induct)
  case (1 n)
  show ?case
  proof (cases "n < 10")
    case True
    then show ?thesis by (simp add: digits.simps [of n] digit_val_digit)
  next
    case False
    then have "digits n = digits (n div 10) @ [digit (n mod 10)]" by (simp add: digits.simps [of n])
    with 1 [OF False] show ?thesis by (simp add: digits_val_append)
  qed
qed

lemma digits_no_sign: "hd (digits n) \<noteq> CHR ''-''" "hd (digits n) \<noteq> CHR ''+''"
proof -
  have "hd (digits n) \<in> set ''0123456789''"
    using digits_set [of n] hd_in_set [OF digits_nonempty(1) [of n]] by blast
  then show "hd (digits n) \<noteq> CHR ''-''" "hd (digits n) \<noteq> CHR ''+''" by auto
qed

lemma atoi_fmt_int: "0 \<le> i \<Longrightarrow> in_i64 i \<Longrightarrow> atoi (fmt_int i) = Some i"
proof -
  assume i: "0 \<le> i" "in_i64 i"
  obtain c cs where c: "digits (nat i) = c # cs" by (cases "digits (nat i)") auto
  with digits_no_sign [of "nat i"] i digits_val_digits [of "nat i"] show ?thesis
    by (simp add: atoi_def fmt_int_def)
qed

text \<open>
  \<open>fmt.Sscanf(s, "%d", &v)\<close> for an \<open>int\<close> and for a \<open>uint\<close>: spaces are skipped (not a newline), digits are read as far as
  they go, and what follows them is left unread.
\<close>

definition skip_space :: "string \<Rightarrow> string" where
  "skip_space s = dropWhile (\<lambda>c. is_space c \<and> c \<noteq> CHR 0x0A) s"

definition scan_digits :: "string \<Rightarrow> nat option" where
  "scan_digits s = (let ds = takeWhile (\<lambda>c. digit_val c \<noteq> None) s in if ds = [] then None else digits_val 0 ds)"

definition scan_d :: "string \<Rightarrow> int option" where
  "scan_d s =
    (let (neg, s) = (case skip_space s of
           [] \<Rightarrow> (False, [])
         | c # cs \<Rightarrow> if c = CHR ''-'' then (True, cs) else if c = CHR ''+'' then (False, cs) else (False, c # cs))
     in case scan_digits s of
          None \<Rightarrow> None
        | Some n \<Rightarrow> let v = (if neg then - int n else int n) in if in_i64 v then Some v else None)"

definition scan_u :: "string \<Rightarrow> nat option" where
  "scan_u s = (case scan_digits (skip_space s) of None \<Rightarrow> None | Some n \<Rightarrow> if n < 2 ^ 64 then Some n else None)"

end
