(* ===== verification/Users.thy ===== *)
theory Users
  imports IdStore
begin

text \<open>
  The in-memory user store, \<open>internal/services/auth/store.go\<close> lines 14 to 222, with its data of
  \<open>user.go\<close>: one definition per method of \<open>InMemoryUserStore\<close>, in the order of the file.

  bcrypt is not under \<open>src/\<close>: \<open>gen\<close> (\<open>GenerateFromPassword\<close>, which salts, so every call has its own)
  and \<open>cmp\<close> (\<open>CompareHashAndPassword\<close>, \<^const>\<open>True\<close> for a nil error) are arguments of the operations
  that call them. The documented law that a hash accepts the password it was made from is a premise
  of the theorems that need it. The read and write locks make each method atomic, so a history of
  the store is a list of calls.
\<close>

section \<open>Data\<close>

datatype UserStatus = UserStatusActive | UserStatusInactive | UserStatusSuspended

record User =
  user_ID :: nat
  user_Username :: string
  user_Password :: string
  user_Nickname :: string
  user_Email :: string
  user_AvatarURL :: string
  user_Phone :: string
  user_Status :: UserStatus
  user_CreatedAt :: instant
  user_UpdatedAt :: instant
  user_DeletedAt :: "instant option"

record RegisterRequest =
  rr_Username :: string
  rr_Password :: string
  rr_Nickname :: string

record UpdateUserRequest =
  uu_Nickname :: "string option"
  uu_Email :: "string option"
  uu_AvatarURL :: "string option"
  uu_Phone :: "string option"

record InMemoryUserStore =
  us_users :: "User list"
  us_seq :: nat

datatype user_error =
    UsernameExists string
  | HashFailed
  | NoSuchUsername string
  | NoSuchUserID nat
  | UserDisabled
  | WrongPassword
  | WrongOldPassword

definition NewInMemoryUserStore :: InMemoryUserStore where
  "NewInMemoryUserStore = \<lparr>us_users = [], us_seq = 0\<rparr>"

section \<open>Operations\<close>

definition CreateUser ::
  "(string \<Rightarrow> string option) \<Rightarrow> instant \<Rightarrow> RegisterRequest \<Rightarrow> InMemoryUserStore \<Rightarrow>
   user_error + User \<times> InMemoryUserStore" where
  "CreateUser gen now req s =
     (if find (\<lambda>u. user_Username u = rr_Username req) (us_users s) \<noteq> None
      then Inl (UsernameExists (rr_Username req))
      else case gen (rr_Password req) of
             None \<Rightarrow> Inl HashFailed
           | Some hash \<Rightarrow>
               let seq = us_seq s + 1;
                   nickname = (if rr_Nickname req = [] then rr_Username req else rr_Nickname req);
                   user = \<lparr>user_ID = seq, user_Username = rr_Username req, user_Password = hash,
                           user_Nickname = nickname, user_Email = [], user_AvatarURL = [],
                           user_Phone = [], user_Status = UserStatusActive,
                           user_CreatedAt = now, user_UpdatedAt = now, user_DeletedAt = None\<rparr>
               in Inr (user, \<lparr>us_users = us_users s @ [user], us_seq = seq\<rparr>))"

definition FindByUsername :: "string \<Rightarrow> InMemoryUserStore \<Rightarrow> user_error + User" where
  "FindByUsername username s =
     (case find (\<lambda>u. user_Username u = username \<and> user_DeletedAt u = None) (us_users s) of
        Some u \<Rightarrow> Inr u
      | None \<Rightarrow> Inl (NoSuchUsername username))"

definition FindByID :: "nat \<Rightarrow> InMemoryUserStore \<Rightarrow> user_error + User" where
  "FindByID i s =
     (case find (\<lambda>u. user_ID u = i \<and> user_DeletedAt u = None) (us_users s) of
        Some u \<Rightarrow> Inr u
      | None \<Rightarrow> Inl (NoSuchUserID i))"

definition VerifyPassword ::
  "(string \<Rightarrow> string \<Rightarrow> bool) \<Rightarrow> string \<Rightarrow> string \<Rightarrow> InMemoryUserStore \<Rightarrow> user_error + User" where
  "VerifyPassword cmp username password s =
     (case FindByUsername username s of
        Inl e \<Rightarrow> Inl e
      | Inr user \<Rightarrow>
          if user_Status user \<noteq> UserStatusActive then Inl UserDisabled
          else if \<not> cmp (user_Password user) password then Inl WrongPassword
          else Inr user)"

definition list_filter :: "string \<Rightarrow> User \<Rightarrow> bool" where
  "list_filter search u \<longleftrightarrow> user_DeletedAt u = None \<and>
     (search \<noteq> [] \<longrightarrow> user_Username u = search \<or> user_Nickname u = search)"

definition ListUsers ::
  "int \<Rightarrow> int \<Rightarrow> string \<Rightarrow> InMemoryUserStore \<Rightarrow> panic + User list \<times> int" where
  "ListUsers page pageSize search s =
     (let filtered = filter (list_filter search) (us_users s);
          total = int (length filtered)
      in case page_of filtered page pageSize of
           Inl p \<Rightarrow> Inl p
         | Inr us \<Rightarrow> Inr (us, total))"

definition apply_update :: "UpdateUserRequest \<Rightarrow> instant \<Rightarrow> User \<Rightarrow> User" where
  "apply_update req now u =
     (let u1 = (case uu_Nickname req of None \<Rightarrow> u | Some v \<Rightarrow> u\<lparr>user_Nickname := v\<rparr>);
          u2 = (case uu_Email req of None \<Rightarrow> u1 | Some v \<Rightarrow> u1\<lparr>user_Email := v\<rparr>);
          u3 = (case uu_AvatarURL req of None \<Rightarrow> u2 | Some v \<Rightarrow> u2\<lparr>user_AvatarURL := v\<rparr>);
          u4 = (case uu_Phone req of None \<Rightarrow> u3 | Some v \<Rightarrow> u3\<lparr>user_Phone := v\<rparr>)
      in u4\<lparr>user_UpdatedAt := now\<rparr>)"

definition live_id :: "nat \<Rightarrow> User \<Rightarrow> bool" where
  "live_id i u \<longleftrightarrow> user_ID u = i \<and> user_DeletedAt u = None"

definition UpdateUser ::
  "instant \<Rightarrow> nat \<Rightarrow> UpdateUserRequest \<Rightarrow> InMemoryUserStore \<Rightarrow> user_error + User \<times> InMemoryUserStore" where
  "UpdateUser now i req s =
     (case find (live_id i) (us_users s) of
        None \<Rightarrow> Inl (NoSuchUserID i)
      | Some u \<Rightarrow> Inr (apply_update req now u,
                       s\<lparr>us_users := update_first (live_id i) (apply_update req now) (us_users s)\<rparr>))"

definition DeleteUser :: "instant \<Rightarrow> nat \<Rightarrow> InMemoryUserStore \<Rightarrow> user_error + InMemoryUserStore" where
  "DeleteUser now i s =
     (case find (live_id i) (us_users s) of
        None \<Rightarrow> Inl (NoSuchUserID i)
      | Some u \<Rightarrow> Inr (s\<lparr>us_users :=
                       update_first (live_id i) (\<lambda>u. u\<lparr>user_DeletedAt := Some now\<rparr>) (us_users s)\<rparr>))"

definition ChangePassword ::
  "(string \<Rightarrow> string option) \<Rightarrow> (string \<Rightarrow> string \<Rightarrow> bool) \<Rightarrow> instant \<Rightarrow> nat \<Rightarrow> string \<Rightarrow> string \<Rightarrow>
   InMemoryUserStore \<Rightarrow> user_error + InMemoryUserStore" where
  "ChangePassword gen cmp now i oldPassword newPassword s =
     (case find (live_id i) (us_users s) of
        None \<Rightarrow> Inl (NoSuchUserID i)
      | Some u \<Rightarrow>
          if \<not> cmp (user_Password u) oldPassword then Inl WrongOldPassword
          else case gen newPassword of
                 None \<Rightarrow> Inl HashFailed
               | Some hash \<Rightarrow>
                   Inr (s\<lparr>us_users := update_first (live_id i)
                       (\<lambda>u. u\<lparr>user_Password := hash, user_UpdatedAt := now\<rparr>) (us_users s)\<rparr>))"

section \<open>Histories of the store\<close>

text \<open>
  The three operations that rewrite a user in place, as the \<open>edit\<close> of the identifier contract. An
  operation that fails leaves the store as it is.
\<close>

datatype user_edit =
    EUpdate instant nat UpdateUserRequest
  | EDelete instant nat
  | EPassword "string \<Rightarrow> string option" "string \<Rightarrow> string \<Rightarrow> bool" instant nat string string

definition user_edit :: "user_edit \<Rightarrow> InMemoryUserStore \<Rightarrow> InMemoryUserStore" where
  "user_edit e s =
     (case e of
        EUpdate now i req \<Rightarrow> (case UpdateUser now i req s of Inl _ \<Rightarrow> s | Inr (_, s') \<Rightarrow> s')
      | EDelete now i \<Rightarrow> (case DeleteUser now i s of Inl _ \<Rightarrow> s | Inr s' \<Rightarrow> s')
      | EPassword gen cmp now i old new \<Rightarrow>
          (case ChangePassword gen cmp now i old new s of Inl _ \<Rightarrow> s | Inr s' \<Rightarrow> s'))"

type_synonym user_create = "(string \<Rightarrow> string option) \<times> instant \<times> RegisterRequest"

definition user_create :: "user_create \<Rightarrow> InMemoryUserStore \<Rightarrow> InMemoryUserStore option" where
  "user_create c s =
     (case c of (gen, now, req) \<Rightarrow>
        (case CreateUser gen now req s of Inl _ \<Rightarrow> None | Inr (_, s') \<Rightarrow> Some s'))"

text \<open>Every edit is a first-match rewrite that keeps the identifier and the name of the user.\<close>

definition keeps_key :: "(User \<Rightarrow> User) \<Rightarrow> bool" where
  "keeps_key f \<longleftrightarrow> (\<forall>u. user_ID (f u) = user_ID u \<and> user_Username (f u) = user_Username u \<and>
     (user_DeletedAt u \<noteq> None \<longrightarrow> user_DeletedAt (f u) \<noteq> None))"

lemma apply_update_fields [simp]:
  "user_ID (apply_update req now u) = user_ID u"
  "user_Username (apply_update req now u) = user_Username u"
  "user_Password (apply_update req now u) = user_Password u"
  "user_Status (apply_update req now u) = user_Status u"
  "user_DeletedAt (apply_update req now u) = user_DeletedAt u"
  "user_UpdatedAt (apply_update req now u) = now"
  by (auto simp: apply_update_def Let_def split: option.splits)

lemma user_edit_rewrite:
  obtains p f where "keeps_key f" "user_edit e s = s\<lparr>us_users := update_first p f (us_users s)\<rparr>"
    "\<And>u. p u \<Longrightarrow> user_DeletedAt u = None"
proof (cases "user_edit e s = s")
  case True
  show ?thesis
    by (rule that [of id "\<lambda>_. False"])
      (use True in \<open>auto simp: keeps_key_def\<close>)
next
  case False
  have live: "\<And>i u. live_id i u \<Longrightarrow> user_DeletedAt u = None"
    by (simp add: live_id_def)
  show ?thesis
  proof (cases e)
    case (EUpdate now i req)
    with False show ?thesis
      by (intro that [of "apply_update req now" "live_id i"])
        (auto simp: user_edit_def UpdateUser_def keeps_key_def live split: option.splits)
  next
    case (EDelete now i)
    with False show ?thesis
      by (intro that [of "\<lambda>u. u\<lparr>user_DeletedAt := Some now\<rparr>" "live_id i"])
        (auto simp: user_edit_def DeleteUser_def keeps_key_def live split: option.splits)
  next
    case (EPassword gen cmp now i old new)
    with False obtain hash where
      "user_edit e s = s\<lparr>us_users := update_first (live_id i)
         (\<lambda>u. u\<lparr>user_Password := hash, user_UpdatedAt := now\<rparr>) (us_users s)\<rparr>"
      by (auto simp: user_edit_def ChangePassword_def split: option.splits if_splits)
    then show ?thesis
      by (rule that [rotated]) (auto simp: keeps_key_def live)
  qed
qed

lemma user_edit_rewrite_ex:
  "\<exists>p f. keeps_key f \<and> user_edit e s = s\<lparr>us_users := update_first p f (us_users s)\<rparr> \<and>
     (\<forall>u. p u \<longrightarrow> user_DeletedAt u = None)"
  by (rule user_edit_rewrite [of e s]) auto

lemma user_edit_ids: "map user_ID (us_users (user_edit e s)) = map user_ID (us_users s)"
  by (rule user_edit_rewrite [of e s]) (auto simp: keeps_key_def intro!: map_update_first)

lemma user_edit_names: "map user_Username (us_users (user_edit e s)) = map user_Username (us_users s)"
  by (rule user_edit_rewrite [of e s]) (auto simp: keeps_key_def intro!: map_update_first)

lemma user_edit_seq: "us_seq (user_edit e s) = us_seq s"
  by (rule user_edit_rewrite [of e s]) auto

lemma user_create_Some:
  assumes "user_create (gen, now, req) s = Some s'"
  obtains u where "us_users s' = us_users s @ [u]" "us_seq s' = Suc (us_seq s)" "user_ID u = Suc (us_seq s)"
    "user_Username u = rr_Username req" "\<forall>v \<in> set (us_users s). user_Username v \<noteq> rr_Username req"
    "user_DeletedAt u = None"
  using assms by (auto simp: user_create_def CreateUser_def Let_def find_None_iff
    split: sum.splits if_splits option.splits)

interpretation us: id_store us_users us_seq user_ID user_create user_edit
proof unfold_locales
  fix c s s'
  assume c: "user_create c s = Some s'"
  obtain gen now req where "c = (gen, now, req)" by (cases c)
  with c show "us_seq s' = Suc (us_seq s)"
    and "map user_ID (us_users s') = map user_ID (us_users s) @ [Suc (us_seq s)]"
    by (auto elim: user_create_Some)
qed (simp_all add: user_edit_seq user_edit_ids)

section \<open>Invariant\<close>

text \<open>
  Well-formed: identifiers ascending and bounded by the counter, names pairwise different, deleted
  users included.
\<close>

definition users_wf :: "InMemoryUserStore \<Rightarrow> bool" where
  "users_wf s \<longleftrightarrow> us.ids_ok s \<and> distinct (map user_Username (us_users s))"

lemma users_wf_new: "users_wf NewInMemoryUserStore"
  by (simp add: users_wf_def us.ids_ok_def NewInMemoryUserStore_def)

lemma users_wf_call: "users_wf s \<Longrightarrow> users_wf (us.call op s)"
proof (cases op)
  case (Inl c)
  assume wf: "users_wf s"
  obtain gen now req where c: "c = (gen, now, req)" by (cases c)
  show ?thesis
  proof (cases "user_create c s")
    case None
    with Inl wf show ?thesis by (simp add: us.call_def)
  next
    case (Some s')
    with c obtain u where u: "us_users s' = us_users s @ [u]" "user_Username u = rr_Username req"
      "\<forall>v \<in> set (us_users s). user_Username v \<noteq> rr_Username req"
      by (auto elim: user_create_Some)
    have "distinct (map user_Username (us_users s'))"
      using wf u by (auto simp: users_wf_def)
    with wf Inl Some us.create_ids_ok [OF _ Some] show ?thesis
      by (simp add: us.call_def users_wf_def)
  qed
next
  case (Inr e)
  assume "users_wf s"
  with Inr us.edit_ids_ok [of s e] show ?thesis
    by (simp add: us.call_def users_wf_def user_edit_names)
qed

lemma users_wf_calls: "users_wf s \<Longrightarrow> users_wf (us.calls ops s)"
  by (induction ops arbitrary: s) (simp_all add: users_wf_call)

lemma find_by_username:
  assumes "users_wf s" "u \<in> set (us_users s)" "user_DeletedAt u = None"
  shows "FindByUsername (user_Username u) s = Inr u"
proof -
  have "find (\<lambda>v. user_Username v = user_Username u \<and> user_DeletedAt v = None) (us_users s) = Some u"
    by (rule find_unique) (use assms in \<open>auto simp: users_wf_def intro: distinct_map_eq\<close>)
  then show ?thesis by (simp add: FindByUsername_def)
qed

lemma live_unique:
  assumes "users_wf s" "u \<in> set (us_users s)" "live_id i u"
  shows "find (live_id i) (us_users s) = Some u"
  using assms us.ids_distinct [of s]
  by (intro find_unique) (auto simp: users_wf_def live_id_def intro: distinct_map_eq)


section \<open>Properties\<close>

lemma calls_deleted:
  assumes "u \<in> set (us_users s)" "user_DeletedAt u \<noteq> None"
  shows "\<exists>v \<in> set (us_users (us.calls ops s)).
    user_ID v = user_ID u \<and> user_Username v = user_Username u \<and> user_DeletedAt v \<noteq> None"
  using assms
proof (induction ops arbitrary: s u)
  case Nil
  then show ?case by auto
next
  case (Cons op ops)
  have "\<exists>v \<in> set (us_users (us.call op s)).
    user_ID v = user_ID u \<and> user_Username v = user_Username u \<and> user_DeletedAt v \<noteq> None"
  proof (cases op)
    case (Inl c)
    obtain gen now req where c: "c = (gen, now, req)" by (cases c)
    show ?thesis
    proof (cases "user_create c s")
      case None
      with Inl Cons.prems show ?thesis by (auto simp: us.call_def)
    next
      case (Some s')
      with c obtain w where "us_users s' = us_users s @ [w]"
        by (auto elim: user_create_Some)
      with Inl Some Cons.prems show ?thesis by (auto simp: us.call_def)
    qed
  next
    case (Inr e)
    obtain p f where "keeps_key f" and e: "user_edit e s = s\<lparr>us_users := update_first p f (us_users s)\<rparr>"
      and p: "\<forall>u. p u \<longrightarrow> user_DeletedAt u = None"
      using user_edit_rewrite_ex [of e s] by blast
    have "u \<in> set (update_first p f (us_users s))"
      by (rule in_update_first_other) (use Cons.prems p in auto)
    with Inr e Cons.prems show ?thesis by (auto simp: us.call_def)
  qed
  then obtain v where v: "v \<in> set (us_users (us.call op s))" "user_DeletedAt v \<noteq> None"
    "user_ID v = user_ID u" "user_Username v = user_Username u"
    by blast
  then show ?case
    using Cons.IH [OF v(1,2)] by simp
qed

lemma wf_deleted_hidden:
  assumes "users_wf s" "u \<in> set (us_users s)" "user_DeletedAt u \<noteq> None"
  shows "FindByUsername (user_Username u) s = Inl (NoSuchUsername (user_Username u))"
    and "FindByID (user_ID u) s = Inl (NoSuchUserID (user_ID u))"
    and "CreateUser gen now (req\<lparr>rr_Username := user_Username u\<rparr>) s = Inl (UsernameExists (user_Username u))"
proof -
  have "find (\<lambda>v. user_Username v = user_Username u \<and> user_DeletedAt v = None) (us_users s) = None"
    using assms by (auto simp: find_None_iff users_wf_def dest: distinct_map_eq)
  then show "FindByUsername (user_Username u) s = Inl (NoSuchUsername (user_Username u))"
    by (simp add: FindByUsername_def)
  have "find (\<lambda>v. user_ID v = user_ID u \<and> user_DeletedAt v = None) (us_users s) = None"
    using assms us.ids_distinct [of s] by (auto simp: find_None_iff users_wf_def dest: distinct_map_eq)
  then show "FindByID (user_ID u) s = Inl (NoSuchUserID (user_ID u))"
    by (simp add: FindByID_def)
  show "CreateUser gen now (req\<lparr>rr_Username := user_Username u\<rparr>) s = Inl (UsernameExists (user_Username u))"
    using assms by (auto simp: CreateUser_def find_None_iff)
qed

text \<open>Register, then log in. When \<open>CreateUser\<close> accepts a request on a well-formed store, the
  credentials of the request log in to exactly the new account (the account is active and not
  deleted), the account is found under its identifier, the identifier is new, and the look-up of
  every other name is what it was.\<close>

lemma register_login:
  assumes wf: "users_wf s"
    and created: "CreateUser gen now req s = Inr (u, s')"
    and bcrypt: "\<And>pw h. gen pw = Some h \<Longrightarrow> cmp h pw"
  shows "VerifyPassword cmp (rr_Username req) (rr_Password req) s' = Inr u \<and>
    FindByID (user_ID u) s' = Inr u \<and> user_ID u \<notin> user_ID ` set (us_users s) \<and> users_wf s' \<and>
    (\<forall>name. name \<noteq> rr_Username req \<longrightarrow> FindByUsername name s' = FindByUsername name s)"
proof -
  have c: "user_create (gen, now, req) s = Some s'"
    using created by (simp add: user_create_def)
  have wf': "users_wf s'"
    using users_wf_call [OF wf, of "Inl (gen, now, req)"] c by (simp add: us.call_def)
  obtain h where u: "us_users s' = us_users s @ [u]" "user_ID u = Suc (us_seq s)"
    "user_Username u = rr_Username req" "user_DeletedAt u = None" "user_Status u = UserStatusActive"
    "user_Password u = h" "gen (rr_Password req) = Some h"
    using created by (auto simp: CreateUser_def Let_def split: if_splits option.splits)
  have "FindByUsername (rr_Username req) s' = Inr u"
    using find_by_username [OF wf', of u] u by simp
  moreover have "find (\<lambda>v. user_ID v = user_ID u \<and> user_DeletedAt v = None) (us_users s') = Some u"
    using live_unique [OF wf', of u "user_ID u"] u by (simp add: live_id_def [abs_def])
  moreover have "\<forall>name. name \<noteq> rr_Username req \<longrightarrow> FindByUsername name s' = FindByUsername name s"
    using u by (simp add: FindByUsername_def find_append split: option.split)
  moreover have "user_ID u \<notin> user_ID ` set (us_users s)"
    using us.create_fresh [OF _ c] wf u by (simp add: users_wf_def)
  ultimately show ?thesis
    using u bcrypt wf' by (simp add: VerifyPassword_def FindByID_def)
qed

definition demo_gen :: "string \<Rightarrow> string option" where
  "demo_gen pw = (if length pw \<le> 72 then Some (CHR ''$'' # rev pw) else None)"

definition demo_cmp :: "string \<Rightarrow> string \<Rightarrow> bool" where
  "demo_cmp h pw \<longleftrightarrow> h = CHR ''$'' # rev pw"

definition demo_req :: RegisterRequest where
  "demo_req = \<lparr>rr_Username = ''ann'', rr_Password = ''secret'', rr_Nickname = []\<rparr>"

definition demo_ann :: User where
  "demo_ann = \<lparr>user_ID = 1, user_Username = ''ann'', user_Password = ''$terces'', user_Nickname = ''ann'',
     user_Email = [], user_AvatarURL = [], user_Phone = [], user_Status = UserStatusActive,
     user_CreatedAt = 5, user_UpdatedAt = 5, user_DeletedAt = None\<rparr>"

definition demo_store :: InMemoryUserStore where
  "demo_store = \<lparr>us_users = [demo_ann], us_seq = 1\<rparr>"

lemma demo_create: "CreateUser demo_gen 5 demo_req NewInMemoryUserStore = Inr (demo_ann, demo_store)"
  by (simp add: CreateUser_def demo_req_def NewInMemoryUserStore_def demo_gen_def Let_def
    demo_ann_def demo_store_def)

lemma demo_bcrypt: "demo_gen pw = Some h \<Longrightarrow> demo_cmp h pw"
  by (auto simp: demo_gen_def demo_cmp_def split: if_splits)

lemma demo_store_wf: "users_wf demo_store"
  by (simp add: users_wf_def us.ids_ok_def demo_store_def demo_ann_def)

lemma register_login_witness:
  "VerifyPassword demo_cmp ''ann'' ''secret'' demo_store = Inr demo_ann"
  using register_login [OF users_wf_new demo_create, of demo_cmp] demo_bcrypt
  by (simp add: demo_req_def)

text \<open>C1: Deletion is final. After \<open>DeleteUser\<close> succeeds on an account of a well-formed store, no
  history of registrations, updates, deletions and password changes lets anybody log in under the
  account's name, find the account by its identifier, or register its name again (the uniqueness
  check of \<open>CreateUser\<close> counts deleted accounts).\<close>

theorem deleted_user_stays_out:
  assumes wf: "users_wf s"
    and u: "u \<in> set (us_users s)" "user_DeletedAt u = None"
    and del: "DeleteUser now (user_ID u) s = Inr s1"
  shows "VerifyPassword cmp (user_Username u) pw (us.calls ops s1) = Inl (NoSuchUsername (user_Username u)) \<and>
    FindByID (user_ID u) (us.calls ops s1) = Inl (NoSuchUserID (user_ID u)) \<and>
    CreateUser gen now' (req\<lparr>rr_Username := user_Username u\<rparr>) (us.calls ops s1) =
      Inl (UsernameExists (user_Username u))"
proof -
  have f: "find (live_id (user_ID u)) (us_users s) = Some u"
    using live_unique [OF wf u(1)] u by (simp add: live_id_def)
  with del have s1: "user_edit (EDelete now (user_ID u)) s = s1"
    by (simp add: user_edit_def)
  define d where "d = u\<lparr>user_DeletedAt := Some now\<rparr>"
  have "d \<in> set (us_users s1)"
    using f del unfolding d_def
    by (auto simp: DeleteUser_def intro!: update_first_in)
  then obtain v where v: "v \<in> set (us_users (us.calls ops s1))" "user_DeletedAt v \<noteq> None"
    "user_ID v = user_ID u" "user_Username v = user_Username u"
    using calls_deleted [of d s1 ops] by (auto simp: d_def)
  have "users_wf (us.calls ops s1)"
    using users_wf_calls [OF wf, of "Inr (EDelete now (user_ID u)) # ops"] s1 by (simp add: us.call_def)
  from wf_deleted_hidden [OF this v(1,2)] v(3,4) show ?thesis
    by (simp add: VerifyPassword_def)
qed

lemma deleted_user_stays_out_witness:
  "VerifyPassword demo_cmp ''ann'' ''secret''
     (us.calls [Inl (demo_gen, 9, demo_req)] (demo_store\<lparr>us_users := [demo_ann\<lparr>user_DeletedAt := Some 7\<rparr>]\<rparr>)) =
   Inl (NoSuchUsername ''ann'')"
  using deleted_user_stays_out [of demo_store demo_ann 7
      "demo_store\<lparr>us_users := [demo_ann\<lparr>user_DeletedAt := Some 7\<rparr>]\<rparr>" demo_cmp "''secret''"
      "[Inl (demo_gen, 9, demo_req)]" demo_gen 0 demo_req] demo_store_wf
  by (simp add: demo_store_def demo_ann_def DeleteUser_def live_id_def)

text \<open>Changing a password. \<open>ChangePassword\<close> succeeds only for the holder of the old password;
  afterwards an active account accepts the new password, rejects every password that the new hash
  does not match (the old one too), and every other account, name and identifier is untouched.\<close>

lemma change_password_effect:
  assumes wf: "users_wf s"
    and found: "FindByUsername name s = Inr u"
    and changed: "ChangePassword gen cmp now (user_ID u) old new s = Inr s'"
    and bcrypt: "\<And>pw h. gen pw = Some h \<Longrightarrow> cmp h pw"
  shows "cmp (user_Password u) old \<and>
    (\<exists>h. gen new = Some h \<and>
      (\<forall>pw. VerifyPassword cmp name pw s' =
         (if user_Status u \<noteq> UserStatusActive then Inl UserDisabled
          else if cmp h pw then Inr (u\<lparr>user_Password := h, user_UpdatedAt := now\<rparr>)
          else Inl WrongPassword))) \<and>
    (user_Status u = UserStatusActive \<longrightarrow> (\<exists>v. VerifyPassword cmp name new s' = Inr v \<and> user_ID v = user_ID u)) \<and>
    (\<forall>other. other \<noteq> name \<longrightarrow> FindByUsername other s' = FindByUsername other s)"
proof -
  have u: "u \<in> set (us_users s)" "user_Username u = name" "user_DeletedAt u = None"
    using found by (auto simp: FindByUsername_def split: option.splits dest: find_SomeD)
  have f: "find (live_id (user_ID u)) (us_users s) = Some u"
    using live_unique [OF wf u(1)] u by (simp add: live_id_def)
  let ?f = "\<lambda>h v. v\<lparr>user_Password := h, user_UpdatedAt := now\<rparr>"
  obtain h where h: "gen new = Some h" "cmp (user_Password u) old"
    "s' = s\<lparr>us_users := update_first (live_id (user_ID u)) (?f h) (us_users s)\<rparr>"
    using changed f by (auto simp: ChangePassword_def split: if_splits option.splits)
  have e: "user_edit (EPassword gen cmp now (user_ID u) old new) s = s'"
    using changed by (simp add: user_edit_def)
  have wf': "users_wf s'"
    using users_wf_call [OF wf, of "Inr (EPassword gen cmp now (user_ID u) old new)"] e
    by (simp add: us.call_def)
  have "?f h u \<in> set (us_users s')"
    using f h(3) by (auto intro!: update_first_in)
  from find_by_username [OF wf' this] have n: "FindByUsername name s' = Inr (?f h u)"
    using u by simp
  have "FindByUsername other s' = FindByUsername other s" if "other \<noteq> name" for other
  proof -
    have eq: "live_id (user_ID u) v \<Longrightarrow> v \<in> set (us_users s) \<Longrightarrow> v = u" for v
      using us.ids_distinct [of s] wf u by (auto simp: live_id_def users_wf_def dest: distinct_map_eq)
    from that u have
      "find (\<lambda>v. user_Username v = other \<and> user_DeletedAt v = None) (us_users s') =
       find (\<lambda>v. user_Username v = other \<and> user_DeletedAt v = None) (us_users s)"
      unfolding h(3) by (auto intro!: find_update_first_skip dest: eq)
    then show ?thesis by (simp add: FindByUsername_def)
  qed
  with n h(1,2) bcrypt [OF h(1)] show ?thesis
    by (auto simp: VerifyPassword_def)
qed

lemma change_password_effect_witness:
  "VerifyPassword demo_cmp ''ann'' ''better''
     (demo_store\<lparr>us_users := [demo_ann\<lparr>user_Password := ''$retteb'', user_UpdatedAt := 8\<rparr>]\<rparr>) =
   Inr (demo_ann\<lparr>user_Password := ''$retteb'', user_UpdatedAt := 8\<rparr>)"
proof -
  let ?s = "demo_store\<lparr>us_users := [demo_ann\<lparr>user_Password := ''$retteb'', user_UpdatedAt := 8\<rparr>]\<rparr>"
  have "FindByUsername ''ann'' demo_store = Inr demo_ann"
    by (simp add: FindByUsername_def demo_store_def demo_ann_def)
  moreover have "ChangePassword demo_gen demo_cmp 8 (user_ID demo_ann) ''secret'' ''better'' demo_store = Inr ?s"
    by (simp add: ChangePassword_def demo_store_def demo_ann_def demo_gen_def demo_cmp_def live_id_def)
  ultimately show ?thesis
    using change_password_effect [OF demo_store_wf, of "''ann''" demo_ann demo_gen demo_cmp 8 "''secret''" "''better''" ?s]
      demo_bcrypt
    by (auto simp: demo_gen_def demo_cmp_def demo_ann_def)
qed

definition page_users :: "int \<Rightarrow> string \<Rightarrow> InMemoryUserStore \<Rightarrow> nat \<Rightarrow> User list" where
  "page_users pageSize search s i =
     (case ListUsers (int i + 1) pageSize search s of Inl _ \<Rightarrow> [] | Inr (us, _) \<Rightarrow> us)"

lemma ListUsers_page:
  assumes "int i < 2 ^ 56" and "int (length (filter (list_filter search) (us_users s))) \<le> 2 ^ 62"
  shows "ListUsers (int i + 1) n search s =
    Inr (take (nat (norm_page_size n)) (drop (i * nat (norm_page_size n)) (filter (list_filter search) (us_users s))),
         int (length (filter (list_filter search) (us_users s))))"
  using assms page_of_exact [of "int i + 1" "filter (list_filter search) (us_users s)" n]
  by (simp add: ListUsers_def nat_mult_distrib Let_def)

text \<open>Paging. As long as the products of the page computation stay below the word (at most \<open>2^56\<close>
  pages, \<open>2^62\<close> matching users), the pages of \<open>ListUsers\<close>, read one after the other, are exactly the
  matching users in store order, each once, and each page reports the total.\<close>

lemma list_users_pages:
  assumes pages: "int m \<le> 2 ^ 56"
    and len: "int (length (filter (list_filter search) (us_users s))) \<le> 2 ^ 62"
    and enough: "length (filter (list_filter search) (us_users s)) \<le> m * nat (norm_page_size n)"
  shows "concat (map (page_users n search s) [0..<m]) = filter (list_filter search) (us_users s) \<and>
    (\<forall>i < m. \<exists>us. ListUsers (int i + 1) n search s =
       Inr (us, int (length (filter (list_filter search) (us_users s)))) \<and>
       int (length us) \<le> norm_page_size n)"
proof -
  let ?fs = "filter (list_filter search) (us_users s)" and ?k = "nat (norm_page_size n)"
  have p: "i < m \<Longrightarrow> ListUsers (int i + 1) n search s = Inr (take ?k (drop (i * ?k) ?fs), int (length ?fs))" for i
    using pages len by (intro ListUsers_page) auto
  have "concat (map (page_users n search s) [0..<m]) = concat (map (\<lambda>i. take ?k (drop (i * ?k) ?fs)) [0..<m])"
    by (intro arg_cong [of _ _ concat] map_cong) (auto simp: page_users_def p)
  also have "\<dots> = ?fs"
    using enough by (simp add: concat_pages)
  finally show ?thesis
    using p norm_page_size_bounds [of n] by auto
qed

lemma list_users_pages_witness:
  "concat (map (page_users 0 [] demo_store) [0..<1]) = [demo_ann]"
  using list_users_pages [of 1 "[]" demo_store 0]
  by (simp add: demo_store_def demo_ann_def list_filter_def norm_page_size_def)

text \<open>
  Outside those bounds the offset wraps below zero and the slice expression panics, for every store:
  the handler passes on any page number that \<open>fmt.Sscanf\<close> reads.
\<close>

lemma list_users_overflow: "ListUsers 9223372036854775807 20 search s = Inl Panic"
  by (simp add: ListUsers_def page_of_overflow Let_def)

end
