(* ===== verification/ApiKeys.thy ===== *)
theory ApiKeys
  imports IdStore GoStd
begin

text \<open>
  API keys, \<open>internal/services/auth/apikey.go\<close>: the in-memory store (lines 16 to 166) and the service
  on top of it (lines 231 to 312), one definition per method.

  \<open>sha\<close> is \<open>crypto/sha256.Sum256\<close>, an argument of the definitions that call it; the random bytes of a
  new key are an argument of \<open>GenerateKey\<close> (\<^const>\<open>None\<close> when \<open>rand.Read\<close> fails). An update is the map from
  column names to dynamic values that \<open>Update\<close> receives: the type assertion \<open>v.(string)\<close> on a value of
  another type is the panic it is in Go, with the assignments before it kept.
\<close>

section \<open>Data\<close>

record ApiKey =
  ak_ID :: nat
  ak_Name :: string
  ak_KeyPrefix :: string
  ak_KeyHash :: string
  ak_UserID :: nat
  ak_Scopes :: string
  ak_LastUsedAt :: "instant option"
  ak_ExpiresAt :: "instant option"
  ak_Status :: string
  ak_CreatedAt :: instant
  ak_UpdatedAt :: instant
  ak_DeletedAt :: "instant option"

datatype dyn = DString string | DTime "instant option" | DOther

record InMemoryApiKeyStore =
  ks_keys :: "ApiKey list"
  ks_seq :: nat

datatype apikey_error =
    KeyNotFound
  | KeyIDNotFound nat
  | KeyDisabled
  | KeyExpired
  | RandFailed
  | KeyTypePanic

definition apiKeyPrefix :: string where
  "apiKeyPrefix = ''gbk_''"

section \<open>The store\<close>

definition NewInMemoryApiKeyStore :: InMemoryApiKeyStore where
  "NewInMemoryApiKeyStore = \<lparr>ks_keys = [], ks_seq = 0\<rparr>"

text \<open>\<open>Create\<close> also stamps the caller's record through the pointer: it returns the stamped record.\<close>

definition CreateKey :: "instant \<Rightarrow> ApiKey \<Rightarrow> InMemoryApiKeyStore \<Rightarrow> ApiKey \<times> InMemoryApiKeyStore" where
  "CreateKey now key s =
     (let seq = ks_seq s + 1;
          key' = key\<lparr>ak_ID := seq, ak_CreatedAt := now, ak_UpdatedAt := now\<rparr>
      in (key', \<lparr>ks_keys = ks_keys s @ [key'], ks_seq = seq\<rparr>))"

definition FindByHash :: "string \<Rightarrow> InMemoryApiKeyStore \<Rightarrow> apikey_error + ApiKey" where
  "FindByHash hash s =
     (case find (\<lambda>k. ak_KeyHash k = hash \<and> ak_DeletedAt k = None) (ks_keys s) of
        Some k \<Rightarrow> Inr k
      | None \<Rightarrow> Inl KeyNotFound)"

definition ListByUser :: "nat \<Rightarrow> InMemoryApiKeyStore \<Rightarrow> ApiKey list" where
  "ListByUser userID s = filter (\<lambda>k. ak_UserID k = userID \<and> ak_DeletedAt k = None) (ks_keys s)"

definition ListAll :: "int \<Rightarrow> int \<Rightarrow> InMemoryApiKeyStore \<Rightarrow> panic + ApiKey list \<times> int" where
  "ListAll page pageSize s =
     (let filtered = filter (\<lambda>k. ak_DeletedAt k = None) (ks_keys s);
          total = int (length filtered)
      in case page_of filtered page pageSize of
           Inl p \<Rightarrow> Inl p
         | Inr ks \<Rightarrow> Inr (ks, total))"

text \<open>
  The assignments of \<open>Update\<close> in the order of the code. A string column is skipped when the map has no
  entry and panics on an entry of another type; a time column ignores such an entry.
\<close>

definition set_string ::
  "(string \<rightharpoonup> dyn) \<Rightarrow> string \<Rightarrow> (string \<Rightarrow> ApiKey \<Rightarrow> ApiKey) \<Rightarrow> bool \<times> ApiKey \<Rightarrow> bool \<times> ApiKey" where
  "set_string updates col put r =
     (case r of (panicked, k) \<Rightarrow>
        if panicked then (True, k)
        else case updates col of
               None \<Rightarrow> (False, k)
             | Some (DString v) \<Rightarrow> (False, put v k)
             | Some _ \<Rightarrow> (True, k))"

definition set_time ::
  "(string \<rightharpoonup> dyn) \<Rightarrow> string \<Rightarrow> (instant option \<Rightarrow> ApiKey \<Rightarrow> ApiKey) \<Rightarrow> bool \<times> ApiKey \<Rightarrow> bool \<times> ApiKey" where
  "set_time updates col put r =
     (case r of (panicked, k) \<Rightarrow>
        if panicked then (True, k)
        else case updates col of
               Some (DTime t) \<Rightarrow> (False, put t k)
             | _ \<Rightarrow> (False, k))"

definition apply_updates :: "instant \<Rightarrow> (string \<rightharpoonup> dyn) \<Rightarrow> ApiKey \<Rightarrow> bool \<times> ApiKey" where
  "apply_updates now updates k =
     (let r1 = set_string updates ''name'' (\<lambda>v k. k\<lparr>ak_Name := v\<rparr>) (False, k);
          r2 = set_string updates ''scopes'' (\<lambda>v k. k\<lparr>ak_Scopes := v\<rparr>) r1;
          r3 = set_string updates ''status'' (\<lambda>v k. k\<lparr>ak_Status := v\<rparr>) r2;
          r4 = set_time updates ''last_used_at'' (\<lambda>t k. k\<lparr>ak_LastUsedAt := t\<rparr>) r3;
          r5 = set_time updates ''expires_at'' (\<lambda>t k. k\<lparr>ak_ExpiresAt := t\<rparr>) r4
      in if fst r5 then r5 else (False, (snd r5)\<lparr>ak_UpdatedAt := now\<rparr>))"

definition live_key :: "nat \<Rightarrow> ApiKey \<Rightarrow> bool" where
  "live_key i k \<longleftrightarrow> ak_ID k = i \<and> ak_DeletedAt k = None"

definition UpdateKey ::
  "instant \<Rightarrow> nat \<Rightarrow> (string \<rightharpoonup> dyn) \<Rightarrow> InMemoryApiKeyStore \<Rightarrow> apikey_error option \<times> InMemoryApiKeyStore" where
  "UpdateKey now i updates s =
     (case find (live_key i) (ks_keys s) of
        None \<Rightarrow> (Some (KeyIDNotFound i), s)
      | Some k \<Rightarrow>
          (if fst (apply_updates now updates k) then Some KeyTypePanic else None,
           s\<lparr>ks_keys := update_first (live_key i) (\<lambda>k. snd (apply_updates now updates k)) (ks_keys s)\<rparr>))"

definition DeleteKey :: "instant \<Rightarrow> nat \<Rightarrow> InMemoryApiKeyStore \<Rightarrow> apikey_error option \<times> InMemoryApiKeyStore" where
  "DeleteKey now i s =
     (case find (live_key i) (ks_keys s) of
        None \<Rightarrow> (Some (KeyIDNotFound i), s)
      | Some k \<Rightarrow>
          (None, s\<lparr>ks_keys := update_first (live_key i) (\<lambda>k. k\<lparr>ak_DeletedAt := Some now\<rparr>) (ks_keys s)\<rparr>))"

section \<open>The service\<close>

definition hashKey :: "(string \<Rightarrow> 8 word list) \<Rightarrow> string \<Rightarrow> string" where
  "hashKey sha rawKey = hex_encode (sha rawKey)"

definition GenerateKey ::
  "(string \<Rightarrow> 8 word list) \<Rightarrow> 8 word list option \<Rightarrow> instant \<Rightarrow> string \<Rightarrow> nat \<Rightarrow> string \<Rightarrow> instant option \<Rightarrow>
   InMemoryApiKeyStore \<Rightarrow> apikey_error + (ApiKey \<times> string) \<times> InMemoryApiKeyStore" where
  "GenerateKey sha rnd now name userID scopes expiresAt s =
     (case rnd of
        None \<Rightarrow> Inl RandFailed
      | Some raw \<Rightarrow>
          let rawKey = apiKeyPrefix @ hex_encode raw;
              key = \<lparr>ak_ID = 0, ak_Name = name, ak_KeyPrefix = take 10 rawKey,
                     ak_KeyHash = hashKey sha rawKey, ak_UserID = userID, ak_Scopes = scopes,
                     ak_LastUsedAt = None, ak_ExpiresAt = expiresAt, ak_Status = ''active'',
                     ak_CreatedAt = 0, ak_UpdatedAt = 0, ak_DeletedAt = None\<rparr>
          in case CreateKey now key s of (key', s') \<Rightarrow> Inr ((key', rawKey), s'))"

definition ValidateKey ::
  "(string \<Rightarrow> 8 word list) \<Rightarrow> instant \<Rightarrow> string \<Rightarrow> InMemoryApiKeyStore \<Rightarrow>
   (apikey_error + ApiKey) \<times> InMemoryApiKeyStore" where
  "ValidateKey sha now rawKey s =
     (case FindByHash (hashKey sha rawKey) s of
        Inl e \<Rightarrow> (Inl e, s)
      | Inr key \<Rightarrow>
          if ak_Status key \<noteq> ''active'' then (Inl KeyDisabled, s)
          else if (case ak_ExpiresAt key of None \<Rightarrow> False | Some e \<Rightarrow> e < now) then (Inl KeyExpired, s)
          else (Inr (key\<lparr>ak_LastUsedAt := Some now\<rparr>),
                snd (UpdateKey now (ak_ID key) [''last_used_at'' \<mapsto> DTime (Some now)] s)))"

section \<open>Histories\<close>

text \<open>What the service does to an existing key; a validation stamps the key it accepts.\<close>

datatype key_edit =
    KUpdate instant nat "string \<rightharpoonup> dyn"
  | KDelete instant nat
  | KValidate "string \<Rightarrow> 8 word list" instant string

definition key_edit :: "key_edit \<Rightarrow> InMemoryApiKeyStore \<Rightarrow> InMemoryApiKeyStore" where
  "key_edit e s =
     (case e of
        KUpdate now i updates \<Rightarrow> snd (UpdateKey now i updates s)
      | KDelete now i \<Rightarrow> snd (DeleteKey now i s)
      | KValidate sha now rawKey \<Rightarrow> snd (ValidateKey sha now rawKey s))"

definition key_create :: "instant \<times> ApiKey \<Rightarrow> InMemoryApiKeyStore \<Rightarrow> InMemoryApiKeyStore option" where
  "key_create c s = Some (snd (CreateKey (fst c) (snd c) s))"

lemma set_string_keeps:
  assumes "\<And>v k. g (put v k) = g k"
  shows "g (snd (set_string updates col put r)) = g (snd r)"
  using assms by (auto simp: set_string_def split: prod.splits option.splits dyn.splits)

lemma set_time_keeps:
  assumes "\<And>v k. g (put v k) = g k"
  shows "g (snd (set_time updates col put r)) = g (snd r)"
  using assms by (auto simp: set_time_def split: prod.splits option.splits dyn.splits)

lemma apply_updates_keeps [simp]:
  "ak_ID (snd (apply_updates now updates k)) = ak_ID k"
  "ak_KeyHash (snd (apply_updates now updates k)) = ak_KeyHash k"
  "ak_UserID (snd (apply_updates now updates k)) = ak_UserID k"
  "ak_DeletedAt (snd (apply_updates now updates k)) = ak_DeletedAt k"
  by (simp_all add: apply_updates_def Let_def set_string_keeps set_time_keeps)

lemma apply_last_used:
  "apply_updates now [''last_used_at'' \<mapsto> DTime t] k = (False, k\<lparr>ak_LastUsedAt := t, ak_UpdatedAt := now\<rparr>)"
  by (simp add: apply_updates_def set_string_def set_time_def Let_def)

text \<open>Every edit is a first-match rewrite of a live key that keeps its identifier, hash and owner.\<close>

definition keeps_key_id :: "(ApiKey \<Rightarrow> ApiKey) \<Rightarrow> bool" where
  "keeps_key_id f \<longleftrightarrow> (\<forall>k. ak_ID (f k) = ak_ID k \<and> ak_KeyHash (f k) = ak_KeyHash k \<and> ak_UserID (f k) = ak_UserID k)"

lemma UpdateKey_rewrite:
  "\<exists>f. keeps_key_id f \<and> snd (UpdateKey now i updates s) = s\<lparr>ks_keys := update_first (live_key i) f (ks_keys s)\<rparr>"
proof (intro exI conjI)
  show "keeps_key_id (\<lambda>k. snd (apply_updates now updates k))"
    by (simp add: keeps_key_id_def)
  show "snd (UpdateKey now i updates s) =
      s\<lparr>ks_keys := update_first (live_key i) (\<lambda>k. snd (apply_updates now updates k)) (ks_keys s)\<rparr>"
    by (auto simp: UpdateKey_def first_simps split: option.split)
qed

lemma key_edit_rewrite:
  "\<exists>i f. keeps_key_id f \<and> (key_edit e s = s \<or> key_edit e s = s\<lparr>ks_keys := update_first (live_key i) f (ks_keys s)\<rparr>)"
proof (cases e)
  case (KUpdate now i updates)
  then have "key_edit e s = snd (UpdateKey now i updates s)" by (simp add: key_edit_def)
  with UpdateKey_rewrite [of now i updates s] show ?thesis by metis
next
  case (KDelete now i)
  then show ?thesis
    by (intro exI [of _ i] exI [of _ "\<lambda>k. k\<lparr>ak_DeletedAt := Some now\<rparr>"])
      (auto simp: key_edit_def DeleteKey_def keeps_key_id_def split: option.splits)
next
  case (KValidate sha now rawKey)
  show ?thesis
  proof (cases "key_edit e s = s")
    case True
    then show ?thesis
      by (intro exI [of _ 0] exI [of _ id]) (simp add: keeps_key_id_def)
  next
    case False
    with KValidate have
      "\<exists>i. key_edit e s = snd (UpdateKey now i [''last_used_at'' \<mapsto> DTime (Some now)] s)"
      by (auto simp: key_edit_def ValidateKey_def split: sum.splits if_splits)
    with UpdateKey_rewrite show ?thesis by metis
  qed
qed

lemma key_edit_ids: "map ak_ID (ks_keys (key_edit e s)) = map ak_ID (ks_keys s)"
proof -
  obtain i f where "keeps_key_id f"
    "key_edit e s = s \<or> key_edit e s = s\<lparr>ks_keys := update_first (live_key i) f (ks_keys s)\<rparr>"
    using key_edit_rewrite by blast
  then show ?thesis by (auto simp: keeps_key_id_def intro!: map_update_first)
qed

lemma key_edit_seq: "ks_seq (key_edit e s) = ks_seq s"
proof -
  obtain i f where "key_edit e s = s \<or> key_edit e s = s\<lparr>ks_keys := update_first (live_key i) f (ks_keys s)\<rparr>"
    using key_edit_rewrite by blast
  then show ?thesis by auto
qed

interpretation ks: id_store ks_keys ks_seq ak_ID key_create key_edit
  by unfold_locales (auto simp: key_create_def CreateKey_def Let_def key_edit_seq key_edit_ids)

section \<open>Properties\<close>

lemma validate_Inr:
  assumes "ValidateKey sha now rawKey s = (Inr k, s')"
  obtains k0 where "k0 \<in> set (ks_keys s)" "ak_KeyHash k0 = hashKey sha rawKey" "ak_DeletedAt k0 = None"
    "ak_Status k0 = ''active''" "\<forall>e. ak_ExpiresAt k0 = Some e \<longrightarrow> now \<le> e"
    "k = k0\<lparr>ak_LastUsedAt := Some now\<rparr>"
  using assms
  by (auto simp: ValidateKey_def FindByHash_def split: option.splits if_splits sum.splits dest!: find_SomeD)

definition gone :: "nat \<Rightarrow> InMemoryApiKeyStore \<Rightarrow> bool" where
  "gone i s \<longleftrightarrow> i \<le> ks_seq s \<and> (\<forall>k \<in> set (ks_keys s). ak_ID k = i \<longrightarrow> ak_DeletedAt k \<noteq> None)"

lemma gone_call: "gone i s \<Longrightarrow> gone i (ks.call op s)"
proof (cases op)
  case (Inl c)
  then show "gone i s \<Longrightarrow> gone i (ks.call op s)"
    by (auto simp: ks.call_def key_create_def CreateKey_def gone_def Let_def)
next
  case (Inr e)
  assume g: "gone i s"
  obtain j f where k: "keeps_key_id f"
    and e: "key_edit e s = s \<or> key_edit e s = s\<lparr>ks_keys := update_first (live_key j) f (ks_keys s)\<rparr>"
    using key_edit_rewrite by blast
  have "ak_DeletedAt x \<noteq> None" if x: "x \<in> set (update_first (live_key j) f (ks_keys s))" "ak_ID x = i" for x
  proof -
    from x(1) set_update_first [of "live_key j" f "ks_keys s"]
    consider "x \<in> set (ks_keys s)" | y where "y \<in> set (ks_keys s)" "live_key j y" "x = f y"
      by blast
    then show ?thesis
      using g x(2) k by cases (auto simp: gone_def live_key_def keeps_key_id_def)
  qed
  with Inr g e key_edit_seq [of e s] show ?thesis
    by (auto simp: ks.call_def gone_def)
qed

lemma gone_calls: "gone i s \<Longrightarrow> gone i (ks.calls ops s)"
  by (induction ops arbitrary: s) (simp_all add: gone_call)

text \<open>A fresh key works. When the random bytes give a key whose hash no live key carries,
  \<open>GenerateKey\<close> hands out a 68-character raw key, and until the key expires that raw key validates to
  exactly the new record; every raw key with another hash validates as it did before.\<close>

lemma generate_then_validate:
  assumes gen: "GenerateKey sha (Some raw) now name uid scopes expiry s = Inr ((k, rawKey), s')"
    and bytes: "length raw = 32"
    and fresh: "\<forall>k' \<in> set (ks_keys s). ak_DeletedAt k' = None \<longrightarrow> ak_KeyHash k' \<noteq> hashKey sha rawKey"
    and time: "\<forall>e. expiry = Some e \<longrightarrow> now' \<le> e"
  shows "fst (ValidateKey sha now' rawKey s') = Inr (k\<lparr>ak_LastUsedAt := Some now'\<rparr>) \<and>
    length rawKey = 68 \<and> ak_KeyPrefix k = take 10 rawKey \<and> ak_ID k = Suc (ks_seq s) \<and> k \<in> set (ListByUser uid s') \<and>
    (\<forall>other t. hashKey sha other \<noteq> hashKey sha rawKey \<longrightarrow>
       fst (ValidateKey sha t other s') = fst (ValidateKey sha t other s))"
proof -
  have k: "ks_keys s' = ks_keys s @ [k]" "rawKey = ''gbk_'' @ hex_encode raw" "ak_KeyHash k = hashKey sha rawKey"
    "ak_DeletedAt k = None" "ak_Status k = ''active''" "ak_ExpiresAt k = expiry" "ak_UserID k = uid"
    "ak_KeyPrefix k = take 10 rawKey" "ak_ID k = Suc (ks_seq s)"
    using gen by (auto simp: GenerateKey_def CreateKey_def Let_def apiKeyPrefix_def)
  have "find (\<lambda>k'. ak_KeyHash k' = hashKey sha rawKey \<and> ak_DeletedAt k' = None) (ks_keys s) = None"
    using fresh by (auto simp: find_None_iff)
  then have "FindByHash (hashKey sha rawKey) s' = Inr k"
    using k by (simp add: FindByHash_def find_append)
  moreover have "FindByHash (hashKey sha other) s' = FindByHash (hashKey sha other) s"
    if "hashKey sha other \<noteq> hashKey sha rawKey" for other
    using that k by (simp add: FindByHash_def find_append split: option.split)
  ultimately show ?thesis
    using k bytes time
    by (auto simp: ValidateKey_def ListByUser_def split: option.splits sum.splits)
qed

definition demo_sha :: "string \<Rightarrow> 8 word list" where
  "demo_sha s = map (\<lambda>c. of_nat (of_char c)) (drop 4 s)"

lemma generate_then_validate_witness:
  "\<exists>k rawKey s'. GenerateKey demo_sha (Some (replicate 32 7)) 10 ''ci'' 3 ''*:*'' (Some 50) NewInMemoryApiKeyStore =
      Inr ((k, rawKey), s') \<and> fst (ValidateKey demo_sha 40 rawKey s') = Inr (k\<lparr>ak_LastUsedAt := Some 40\<rparr>)"
proof -
  obtain k rawKey s' where g:
    "GenerateKey demo_sha (Some (replicate 32 7)) 10 ''ci'' 3 ''*:*'' (Some 50) NewInMemoryApiKeyStore =
      Inr ((k, rawKey), s')"
    by (simp add: GenerateKey_def CreateKey_def Let_def)
  from generate_then_validate [OF this] g show ?thesis
    by (auto simp: NewInMemoryApiKeyStore_def)
qed

text \<open>C9: A revoked key stays revoked. Once a key of a well-formed store is deleted, no history of
  creations, updates, validations and deletions makes any raw key validate to it again; and a raw key
  is accepted only for a live, active, unexpired key that carries its hash.\<close>

theorem deleted_key_rejected:
  assumes wf: "ks.ids_ok s"
    and del: "DeleteKey now i s = (None, s1)"
    and valid: "ValidateKey sha now' rawKey (ks.calls ops s1) = (Inr k, s2)"
  shows "ak_ID k \<noteq> i \<and> ak_Status k = ''active'' \<and> ak_KeyHash k = hashKey sha rawKey \<and>
    ak_DeletedAt k = None \<and> (\<forall>e. ak_ExpiresAt k = Some e \<longrightarrow> now' \<le> e)"
proof -
  obtain k0 where k0: "find (live_key i) (ks_keys s) = Some k0"
    and s1: "s1 = s\<lparr>ks_keys := update_first (live_key i) (\<lambda>k. k\<lparr>ak_DeletedAt := Some now\<rparr>) (ks_keys s)\<rparr>"
    using del by (auto simp: DeleteKey_def split: option.splits)
  have i: "k0 \<in> set (ks_keys s)" "ak_ID k0 = i"
    using find_SomeD [OF k0] by (auto simp: live_key_def)
  have "ak_DeletedAt x \<noteq> None" if x: "x \<in> set (ks_keys s1)" "ak_ID x = i" for x
  proof -
    have "ids_s1": "map ak_ID (ks_keys s1) = map ak_ID (ks_keys s)"
      unfolding s1 by (simp add: map_update_first)
    have "k0\<lparr>ak_DeletedAt := Some now\<rparr> \<in> set (ks_keys s1)"
      unfolding s1 by (simp add: update_first_in [OF k0])
    moreover have "distinct (map ak_ID (ks_keys s1))"
      unfolding ids_s1 by (rule ks.ids_distinct [OF wf])
    ultimately have "x = k0\<lparr>ak_DeletedAt := Some now\<rparr>"
      using x i by (auto intro: distinct_map_eq)
    then show ?thesis by simp
  qed
  moreover have "i \<le> ks_seq s1"
    using wf i by (auto simp: ks.ids_ok_def s1)
  ultimately have "gone i (ks.calls ops s1)"
    by (intro gone_calls) (auto simp: gone_def)
  then show ?thesis
    by - (rule validate_Inr [OF valid], auto simp: gone_def)
qed

definition demo_keys :: InMemoryApiKeyStore where
  "demo_keys = snd (CreateKey 1 \<lparr>ak_ID = 0, ak_Name = ''a'', ak_KeyPrefix = ''gbk_'', ak_KeyHash = hashKey demo_sha ''gbk_a'',
     ak_UserID = 3, ak_Scopes = ''*:*'', ak_LastUsedAt = None, ak_ExpiresAt = None, ak_Status = ''active'',
     ak_CreatedAt = 0, ak_UpdatedAt = 0, ak_DeletedAt = None\<rparr> NewInMemoryApiKeyStore)"

lemma deleted_key_rejected_witness:
  "\<exists>s1 k s2. DeleteKey 5 1 demo_keys = (None, s1) \<and>
     ValidateKey demo_sha 9 ''gbk_a'' (ks.calls [Inl (6, (ks_keys demo_keys ! 0))] s1) = (Inr k, s2) \<and> ak_ID k \<noteq> 1"
proof -
  have wf: "ks.ids_ok demo_keys"
    by (simp add: ks.ids_ok_def demo_keys_def CreateKey_def NewInMemoryApiKeyStore_def Let_def)
  obtain s1 where d: "DeleteKey 5 1 demo_keys = (None, s1)"
    by (simp add: DeleteKey_def demo_keys_def CreateKey_def NewInMemoryApiKeyStore_def Let_def live_key_def)
  moreover obtain k s2 where
    "ValidateKey demo_sha 9 ''gbk_a'' (ks.calls [Inl (6, (ks_keys demo_keys ! 0))] s1) = (Inr k, s2)"
    using d by (auto simp: ValidateKey_def FindByHash_def DeleteKey_def demo_keys_def CreateKey_def
      NewInMemoryApiKeyStore_def Let_def live_key_def ks.call_def key_create_def)
  ultimately show ?thesis
    using deleted_key_rejected [OF wf] by blast
qed

end
