(* ===== verification/Rbac.thy ===== *)
theory Rbac
  imports Prelude
begin

text \<open>
  Role-based access control, \<open>internal/services/auth/rbac.go\<close> and \<open>internal/middleware/rbac.go\<close>.

  The interface \<open>RBACStore\<close> is the locale \<open>rbac_store\<close>; it is interpreted on both of its
  implementations, \<open>InMemoryRBACStore\<close> (two maps) and \<open>MySQLRBACStore\<close> (three tables; each GORM call is
  the SQL statement it stands for on lists of rows, on a database that answers every statement).
  \<open>RBACService.HasPermission\<close> is defined over the two look-ups of the interface.

  \<open>EnsureDefaultPermissions\<close> ranges over a Go map, whose order is not fixed: the order of the roles is
  an argument.
\<close>

section \<open>Data\<close>

record Permission =
  perm_ID :: nat
  perm_Name :: string
  perm_Resource :: string
  perm_Action :: string

record RolePermission =
  rp_ID :: nat
  rp_Role :: string
  rp_PermissionID :: nat

record UserRole =
  ur_ID :: nat
  ur_UserID :: nat
  ur_Role :: string

datatype rbac_error = InvalidRole string | RbacStoreError | PermissionDenied string string

definition RoleAdmin :: string where "RoleAdmin = ''admin''"
definition RoleUser :: string where "RoleUser = ''user''"

definition defaultPermissions :: "string \<Rightarrow> (string \<times> string) list" where
  "defaultPermissions role =
     (if role = ''admin'' then [(''*'', ''*'')]
      else if role = ''user'' then
        [(''task'', ''read''), (''task'', ''create''), (''task'', ''update''), (''task'', ''delete''),
         (''user'', ''read''), (''user'', ''update'')]
      else [])"

definition perm_name :: "string \<Rightarrow> string \<Rightarrow> string" where
  "perm_name res act = res @ '':'' @ act"

section \<open>The in-memory store\<close>

record InMemoryRBACStore =
  mem_permissions :: "string \<Rightarrow> Permission list"
  mem_userRoles :: "nat \<Rightarrow> string list"

definition NewInMemoryRBACStore :: InMemoryRBACStore where
  "NewInMemoryRBACStore = \<lparr>mem_permissions = (\<lambda>_. []), mem_userRoles = (\<lambda>_. [])\<rparr>"

definition mem_add_perm :: "string \<Rightarrow> string \<times> string \<Rightarrow> InMemoryRBACStore \<Rightarrow> InMemoryRBACStore" where
  "mem_add_perm role p s =
     (let perm = \<lparr>perm_ID = 0, perm_Name = perm_name (fst p) (snd p), perm_Resource = fst p, perm_Action = snd p\<rparr>
      in s\<lparr>mem_permissions := (mem_permissions s)(role := mem_permissions s role @ [perm])\<rparr>)"

definition mem_ensure :: "string list \<Rightarrow> InMemoryRBACStore \<Rightarrow> InMemoryRBACStore" where
  "mem_ensure order s = fold (\<lambda>role. fold (mem_add_perm role) (defaultPermissions role)) order s"

definition mem_assign :: "nat \<Rightarrow> string \<Rightarrow> InMemoryRBACStore \<Rightarrow> rbac_error + InMemoryRBACStore" where
  "mem_assign userID role s =
     (if role \<noteq> RoleAdmin \<and> role \<noteq> RoleUser then Inl (InvalidRole role)
      else Inr (s\<lparr>mem_userRoles := (mem_userRoles s)(userID := [role])\<rparr>))"

definition mem_roles :: "InMemoryRBACStore \<Rightarrow> nat \<Rightarrow> rbac_error + string list" where
  "mem_roles s userID =
     (let roles = mem_userRoles s userID in if roles = [] then Inr [RoleUser] else Inr roles)"

fun mem_collect :: "Permission list \<Rightarrow> Permission list \<times> string set \<Rightarrow> Permission list \<times> string set" where
  "mem_collect [] acc = acc"
| "mem_collect (p # ps) (result, seen) =
     (if perm_Name p \<notin> seen then mem_collect ps (result @ [p], insert (perm_Name p) seen)
      else mem_collect ps (result, seen))"

definition mem_perms :: "InMemoryRBACStore \<Rightarrow> string list \<Rightarrow> rbac_error + Permission list" where
  "mem_perms s roles = Inr (fst (fold (\<lambda>role. mem_collect (mem_permissions s role)) roles ([], {})))"

section \<open>The MySQL store\<close>

record RbacDB =
  db_permissions :: "Permission list"
  db_role_permissions :: "RolePermission list"
  db_user_roles :: "UserRole list"
  db_permission_seq :: nat
  db_role_permission_seq :: nat
  db_user_role_seq :: nat

definition empty_rbac_db :: RbacDB where
  "empty_rbac_db = \<lparr>db_permissions = [], db_role_permissions = [], db_user_roles = [],
     db_permission_seq = 0, db_role_permission_seq = 0, db_user_role_seq = 0\<rparr>"

text \<open>\<open>FirstOrCreate\<close> on the unique name: the row found, or the row inserted under the next identifier.\<close>

definition sql_first_or_create :: "string \<times> string \<Rightarrow> RbacDB \<Rightarrow> Permission \<times> RbacDB" where
  "sql_first_or_create p db =
     (case find (\<lambda>r. perm_Name r = perm_name (fst p) (snd p)) (db_permissions db) of
        Some r \<Rightarrow> (r, db)
      | None \<Rightarrow>
          let i = db_permission_seq db + 1;
              r = \<lparr>perm_ID = i, perm_Name = perm_name (fst p) (snd p), perm_Resource = fst p, perm_Action = snd p\<rparr>
          in (r, db\<lparr>db_permissions := db_permissions db @ [r], db_permission_seq := i\<rparr>))"

definition sql_add_perm :: "string \<Rightarrow> string \<times> string \<Rightarrow> RbacDB \<Rightarrow> RbacDB" where
  "sql_add_perm role p db =
     (case sql_first_or_create p db of (perm, db1) \<Rightarrow>
        (case find (\<lambda>rp. rp_Role rp = role \<and> rp_PermissionID rp = perm_ID perm) (db_role_permissions db1) of
           Some _ \<Rightarrow> db1
         | None \<Rightarrow>
             let i = db_role_permission_seq db1 + 1
             in db1\<lparr>db_role_permissions := db_role_permissions db1 @
                      [\<lparr>rp_ID = i, rp_Role = role, rp_PermissionID = perm_ID perm\<rparr>],
                    db_role_permission_seq := i\<rparr>))"

definition sql_ensure :: "string list \<Rightarrow> RbacDB \<Rightarrow> RbacDB" where
  "sql_ensure order db = fold (\<lambda>role. fold (sql_add_perm role) (defaultPermissions role)) order db"

definition sql_assign :: "nat \<Rightarrow> string \<Rightarrow> RbacDB \<Rightarrow> rbac_error + RbacDB" where
  "sql_assign userID role db =
     (if role \<noteq> RoleAdmin \<and> role \<noteq> RoleUser then Inl (InvalidRole role)
      else case find (\<lambda>r. ur_UserID r = userID) (db_user_roles db) of
             Some existing \<Rightarrow>
               Inr (db\<lparr>db_user_roles :=
                 map (\<lambda>r. if ur_ID r = ur_ID existing then r\<lparr>ur_Role := role\<rparr> else r) (db_user_roles db)\<rparr>)
           | None \<Rightarrow>
               let i = db_user_role_seq db + 1
               in Inr (db\<lparr>db_user_roles := db_user_roles db @ [\<lparr>ur_ID = i, ur_UserID = userID, ur_Role = role\<rparr>],
                          db_user_role_seq := i\<rparr>))"

definition sql_roles :: "RbacDB \<Rightarrow> nat \<Rightarrow> rbac_error + string list" where
  "sql_roles db userID =
     (let roles = map ur_Role (filter (\<lambda>r. ur_UserID r = userID) (db_user_roles db))
      in if roles = [] then Inr [RoleUser] else Inr roles)"

definition sql_perms :: "RbacDB \<Rightarrow> string list \<Rightarrow> rbac_error + Permission list" where
  "sql_perms db roles =
     Inr (remdups (concat (map (\<lambda>p. map (\<lambda>_. p)
       (filter (\<lambda>rp. rp_PermissionID rp = perm_ID p \<and> rp_Role rp \<in> set roles) (db_role_permissions db)))
       (db_permissions db))))"

section \<open>The service and the middleware\<close>

fun scan_perms :: "Permission list \<Rightarrow> string \<Rightarrow> string \<Rightarrow> bool" where
  "scan_perms [] resource action = False"
| "scan_perms (p # ps) resource action =
     (if perm_Resource p = ''*'' \<and> perm_Action p = ''*'' then True
      else if perm_Resource p = resource \<and> (perm_Action p = ''*'' \<or> perm_Action p = action) then True
      else scan_perms ps resource action)"

definition HasPermission ::
  "(nat \<Rightarrow> rbac_error + string list) \<Rightarrow> (string list \<Rightarrow> rbac_error + Permission list) \<Rightarrow>
   nat \<Rightarrow> string \<Rightarrow> string \<Rightarrow> bool" where
  "HasPermission getRoles getPermissions userID resource action =
     (case getRoles userID of
        Inl _ \<Rightarrow> False
      | Inr roles \<Rightarrow>
          (case getPermissions roles of
             Inl _ \<Rightarrow> False
           | Inr perms \<Rightarrow> scan_perms perms resource action))"

definition RequirePermission_svc ::
  "(nat \<Rightarrow> rbac_error + string list) \<Rightarrow> (string list \<Rightarrow> rbac_error + Permission list) \<Rightarrow>
   string \<Rightarrow> string \<Rightarrow> nat \<Rightarrow> rbac_error option" where
  "RequirePermission_svc getRoles getPermissions resource action userID =
     (if \<not> HasPermission getRoles getPermissions userID resource action
      then Some (PermissionDenied resource action) else None)"

text \<open>
  The middleware: what it found under the context key \<open>user_id\<close> (nothing, a value of another type, a
  \<open>uint\<close>) and whether the request goes on.
\<close>

datatype ctx_value = CtxUint nat | CtxOther
datatype mw_result = MwNext | MwUnauth | MwForbidden

definition RequirePermission ::
  "(nat \<Rightarrow> rbac_error + string list) \<Rightarrow> (string list \<Rightarrow> rbac_error + Permission list) \<Rightarrow>
   string \<Rightarrow> string \<Rightarrow> ctx_value option \<Rightarrow> mw_result" where
  "RequirePermission getRoles getPermissions resource action ctx =
     (case ctx of
        None \<Rightarrow> MwUnauth
      | Some CtxOther \<Rightarrow> MwUnauth
      | Some (CtxUint uid) \<Rightarrow>
          if \<not> HasPermission getRoles getPermissions uid resource action then MwForbidden else MwNext)"

section \<open>The contract of a store\<close>

definition valid_role :: "string \<Rightarrow> bool" where
  "valid_role role \<longleftrightarrow> role = ''admin'' \<or> role = ''user''"

definition allowed :: "(string \<times> string) set \<Rightarrow> string \<Rightarrow> string \<Rightarrow> bool" where
  "allowed grants resource action \<longleftrightarrow>
     (''*'', ''*'') \<in> grants \<or> (resource, ''*'') \<in> grants \<or> (resource, action) \<in> grants"

definition grants_of :: "Permission list \<Rightarrow> (string \<times> string) set" where
  "grants_of ps = (\<lambda>p. (perm_Resource p, perm_Action p)) ` set ps"

lemma scan_perms_iff: "scan_perms ps resource action \<longleftrightarrow> allowed (grants_of ps) resource action"
  by (induction ps) (auto simp: allowed_def grants_of_def)

text \<open>Calls of the store, and the specification: the last valid assignment decides.\<close>

datatype rbac_op = OEnsure "string list" | OAssign nat string

fun role_after :: "rbac_op list \<Rightarrow> nat \<Rightarrow> string \<Rightarrow> string" where
  "role_after [] u r = r"
| "role_after (OEnsure _ # ops) u r = role_after ops u r"
| "role_after (OAssign v role # ops) u r =
     role_after ops u (if v = u \<and> valid_role role then role else r)"

locale rbac_store =
  fixes roles :: "'s \<Rightarrow> nat \<Rightarrow> rbac_error + string list"
    and perms :: "'s \<Rightarrow> string list \<Rightarrow> rbac_error + Permission list"
    and assign :: "nat \<Rightarrow> string \<Rightarrow> 's \<Rightarrow> rbac_error + 's"
    and ensure :: "string list \<Rightarrow> 's \<Rightarrow> 's"
    and installed :: "'s \<Rightarrow> bool"
  assumes assign_invalid: "\<not> valid_role r \<Longrightarrow> assign u r s = Inl (InvalidRole r)"
    and assign_ok: "valid_role r \<Longrightarrow> \<exists>s'. assign u r s = Inr s'"
    and assign_installed: "installed s \<Longrightarrow> assign u r s = Inr s' \<Longrightarrow> installed s'"
    and assign_roles: "installed s \<Longrightarrow> assign u r s = Inr s' \<Longrightarrow>
      roles s' v = (if v = u then Inr [r] else roles s v)"
    and ensure_installed: "installed s \<Longrightarrow> installed (ensure order s)"
    and ensure_roles: "installed s \<Longrightarrow> roles (ensure order s) v = roles s v"
    and perms_grants: "installed s \<Longrightarrow> valid_role r \<Longrightarrow>
      \<exists>ps. perms s [r] = Inr ps \<and> grants_of ps = set (defaultPermissions r)"
begin

definition step :: "rbac_op \<Rightarrow> 's \<Rightarrow> 's" where
  "step op s = (case op of
     OEnsure order \<Rightarrow> ensure order s
   | OAssign u r \<Rightarrow> (case assign u r s of Inl _ \<Rightarrow> s | Inr s' \<Rightarrow> s'))"

fun run :: "rbac_op list \<Rightarrow> 's \<Rightarrow> 's" where
  "run [] s = s"
| "run (op # ops) s = run ops (step op s)"

lemma step_installed: "installed s \<Longrightarrow> installed (step op s)"
  by (auto simp: step_def ensure_installed assign_installed split: rbac_op.split sum.split)

lemma run_installed: "installed s \<Longrightarrow> installed (run ops s)"
  by (induction ops arbitrary: s) (simp_all add: step_installed)

lemma step_roles:
  assumes "installed s" "roles s u = Inr [r]"
  shows "roles (step op s) u = Inr [role_after [op] u r]"
proof (cases op)
  case (OEnsure order)
  with assms show ?thesis by (simp add: step_def ensure_roles)
next
  case (OAssign v role)
  show ?thesis
  proof (cases "valid_role role")
    case True
    then obtain s' where "assign v role s = Inr s'" using assign_ok by blast
    with assms OAssign True show ?thesis by (simp add: step_def assign_roles [of s v role s'])
  next
    case False
    with assms OAssign show ?thesis by (simp add: step_def assign_invalid)
  qed
qed

lemma role_after_Cons: "role_after (op # ops) u r = role_after ops u (role_after [op] u r)"
  by (cases op) auto

lemma run_roles:
  "installed s \<Longrightarrow> roles s u = Inr [r] \<Longrightarrow> roles (run ops s) u = Inr [role_after ops u r]"
proof (induction ops arbitrary: s r)
  case Nil
  then show ?case by simp
next
  case (Cons op ops)
  with step_roles [OF Cons.prems] step_installed show ?case
    by (simp add: role_after_Cons [of op ops])
qed

lemma role_after_valid: "valid_role r \<Longrightarrow> valid_role (role_after ops u r)"
  by (induction ops u r rule: role_after.induct) auto

lemma permission_after:
  assumes "installed s" "roles s u = Inr [r]" "valid_role r"
  shows "HasPermission (roles (run ops s)) (perms (run ops s)) u resource action \<longleftrightarrow>
    allowed (set (defaultPermissions (role_after ops u r))) resource action"
proof -
  have "roles (run ops s) u = Inr [role_after ops u r]"
    using run_roles assms by blast
  moreover obtain ps where "perms (run ops s) [role_after ops u r] = Inr ps"
    "grants_of ps = set (defaultPermissions (role_after ops u r))"
    using perms_grants run_installed assms role_after_valid by blast
  ultimately show ?thesis
    by (simp add: HasPermission_def scan_perms_iff)
qed

end

section \<open>The in-memory store keeps the contract\<close>

definition mk_perm :: "string \<times> string \<Rightarrow> Permission" where
  "mk_perm p = \<lparr>perm_ID = 0, perm_Name = perm_name (fst p) (snd p), perm_Resource = fst p, perm_Action = snd p\<rparr>"

definition mem_installed :: "InMemoryRBACStore \<Rightarrow> bool" where
  "mem_installed s \<longleftrightarrow> (\<forall>r. set (mem_permissions s r) = mk_perm ` set (defaultPermissions r))"

lemma mem_collect_set:
  "inj_on perm_Name (set ps \<union> set res) \<Longrightarrow> set (fst (mem_collect ps (res, perm_Name ` set res))) = set ps \<union> set res"
proof (induction ps arbitrary: res)
  case Nil
  then show ?case by simp
next
  case (Cons p ps)
  have inj: "inj_on perm_Name (insert p (set ps \<union> set res))"
    using Cons.prems by simp
  show ?case
  proof (cases "perm_Name p \<in> perm_Name ` set res")
    case True
    with inj have "p \<in> set res" by (auto dest: inj_onD)
    with True Cons.IH [of res] inj show ?thesis by (auto simp: insert_absorb intro: inj_on_subset)
  next
    case False
    have "inj_on perm_Name (set ps \<union> set (res @ [p]))"
      by (rule inj_on_subset [OF inj]) auto
    from Cons.IH [OF this] False show ?thesis by (simp add: image_Un)
  qed
qed

lemma defaults_inj: "inj_on perm_Name (mk_perm ` set (defaultPermissions r))"
proof (rule inj_on_imageI)
  have "distinct (map (perm_Name \<circ> mk_perm) (defaultPermissions r))"
    unfolding defaultPermissions_def by (simp add: mk_perm_def perm_name_def)
  then show "inj_on (perm_Name \<circ> mk_perm) (set (defaultPermissions r))"
    by (simp add: distinct_map)
qed

lemma mem_perms_role:
  assumes "mem_installed s"
  shows "\<exists>ps. mem_perms s [r] = Inr ps \<and> grants_of ps = set (defaultPermissions r)"
proof -
  have s: "set (mem_permissions s r) = mk_perm ` set (defaultPermissions r)"
    using assms by (simp add: mem_installed_def)
  have "set (fst (mem_collect (mem_permissions s r) ([], {}))) = mk_perm ` set (defaultPermissions r)"
    using mem_collect_set [of "mem_permissions s r" "[]"] defaults_inj by (simp add: s)
  then show ?thesis
    by (simp add: mem_perms_def grants_of_def image_image mk_perm_def)
qed

lemma mem_add_perms:
  "mem_permissions (fold (mem_add_perm role) ps s) r =
     (if r = role then mem_permissions s r @ map mk_perm ps else mem_permissions s r) \<and>
   mem_userRoles (fold (mem_add_perm role) ps s) = mem_userRoles s"
  by (induction ps arbitrary: s) (auto simp: mem_add_perm_def Let_def mk_perm_def)

lemma mem_ensure_user: "mem_userRoles (mem_ensure order s) = mem_userRoles s"
  unfolding mem_ensure_def by (induction order arbitrary: s) (simp_all add: mem_add_perms)

lemma mem_ensure_perms:
  "set (mem_permissions (mem_ensure order s) r) =
     set (mem_permissions s r) \<union> (if r \<in> set order then mk_perm ` set (defaultPermissions r) else {})"
  unfolding mem_ensure_def by (induction order arbitrary: s) (auto simp: mem_add_perms)

lemma mem_ensure_new:
  "{''admin'', ''user''} \<subseteq> set order \<Longrightarrow> mem_installed (mem_ensure order NewInMemoryRBACStore)"
  by (auto simp: mem_installed_def mem_ensure_perms NewInMemoryRBACStore_def defaultPermissions_def)

interpretation mem: rbac_store mem_roles mem_perms mem_assign mem_ensure mem_installed
proof unfold_locales
  fix s r order u v and s' :: InMemoryRBACStore
  show "\<not> valid_role r \<Longrightarrow> mem_assign u r s = Inl (InvalidRole r)"
    by (simp add: mem_assign_def valid_role_def RoleAdmin_def RoleUser_def)
  show "valid_role r \<Longrightarrow> \<exists>s'. mem_assign u r s = Inr s'"
    by (auto simp: mem_assign_def valid_role_def RoleAdmin_def RoleUser_def)
  show "mem_installed s \<Longrightarrow> mem_assign u r s = Inr s' \<Longrightarrow> mem_installed s'"
    by (auto simp: mem_assign_def mem_installed_def split: if_splits)
  show "mem_assign u r s = Inr s' \<Longrightarrow> mem_roles s' v = (if v = u then Inr [r] else mem_roles s v)"
    by (auto simp: mem_assign_def mem_roles_def Let_def split: if_splits)
  show "mem_installed s \<Longrightarrow> mem_installed (mem_ensure order s)"
    by (auto simp: mem_installed_def mem_ensure_perms)
  show "mem_roles (mem_ensure order s) v = mem_roles s v"
    by (simp add: mem_roles_def mem_ensure_user)
  show "mem_installed s \<Longrightarrow> \<exists>ps. mem_perms s [r] = Inr ps \<and> grants_of ps = set (defaultPermissions r)"
    by (rule mem_perms_role)
qed

section \<open>The MySQL store keeps the contract\<close>

definition has_default :: "RbacDB \<Rightarrow> string \<Rightarrow> string \<times> string \<Rightarrow> bool" where
  "has_default db role p \<longleftrightarrow>
     (case find (\<lambda>r. perm_Name r = perm_name (fst p) (snd p)) (db_permissions db) of
        None \<Rightarrow> False
      | Some r \<Rightarrow> perm_Resource r = fst p \<and> perm_Action r = snd p \<and>
          find (\<lambda>rp. rp_Role rp = role \<and> rp_PermissionID rp = perm_ID r) (db_role_permissions db) \<noteq> None)"

definition sql_installed :: "RbacDB \<Rightarrow> bool" where
  "sql_installed db \<longleftrightarrow>
     (\<forall>role \<in> {''admin'', ''user''}. \<forall>p \<in> set (defaultPermissions role). has_default db role p) \<and>
     (\<forall>rp \<in> set (db_role_permissions db). \<forall>r \<in> set (db_permissions db).
        perm_ID r = rp_PermissionID rp \<longrightarrow> (perm_Resource r, perm_Action r) \<in> set (defaultPermissions (rp_Role rp))) \<and>
     distinct (map ur_UserID (db_user_roles db)) \<and> distinct (map ur_ID (db_user_roles db)) \<and>
     (\<forall>r \<in> set (db_user_roles db). ur_ID r \<le> db_user_role_seq db)"

lemma add_default_id: "has_default db role p \<Longrightarrow> sql_add_perm role p db = db"
  by (auto simp: has_default_def sql_add_perm_def sql_first_or_create_def split: option.splits)

lemma fold_id: "(\<And>x. x \<in> set xs \<Longrightarrow> f x s = s) \<Longrightarrow> fold f xs s = s"
  by (induction xs) auto

lemma sql_ensure_id:
  assumes "sql_installed db"
  shows "sql_ensure order db = db"
  unfolding sql_ensure_def
proof (rule fold_id, rule fold_id)
  fix role p
  assume "p \<in> set (defaultPermissions role)"
  then show "sql_add_perm role p db = db"
    using assms by (intro add_default_id) (auto simp: sql_installed_def defaultPermissions_def split: if_splits)
qed

lemma sql_perms_role:
  assumes inst: "sql_installed db" and r: "valid_role r"
  shows "\<exists>ps. sql_perms db [r] = Inr ps \<and> grants_of ps = set (defaultPermissions r)"
proof -
  let ?ps = "remdups (concat (map (\<lambda>p. map (\<lambda>_. p)
       (filter (\<lambda>rp. rp_PermissionID rp = perm_ID p \<and> rp_Role rp \<in> set [r]) (db_role_permissions db)))
       (db_permissions db)))"
  have "grants_of ?ps \<subseteq> set (defaultPermissions r)"
    using inst by (auto simp: grants_of_def sql_installed_def)
  moreover have "q \<in> grants_of ?ps" if q: "q \<in> set (defaultPermissions r)" for q
  proof -
    have "has_default db r q"
      using inst r q by (auto simp: sql_installed_def valid_role_def)
    then obtain x rp where x: "x \<in> set (db_permissions db)" "(perm_Resource x, perm_Action x) = q"
      and rp: "rp \<in> set (db_role_permissions db)" "rp_Role rp = r" "rp_PermissionID rp = perm_ID x"
      by (auto simp: has_default_def split: option.splits dest!: find_SomeD)
    from x(1) rp have "x \<in> set ?ps" by auto
    with x(2) show ?thesis by (auto simp: grants_of_def simp del: set_remdups)
  qed
  ultimately have "grants_of ?ps = set (defaultPermissions r)" by blast
  then show ?thesis unfolding sql_perms_def by blast
qed

lemma filter_key_update:
  assumes "distinct (map ur_UserID rs)" "distinct (map ur_ID rs)" "e \<in> set rs" "ur_UserID e = u"
  shows "map ur_Role (filter (\<lambda>r. ur_UserID r = v) (map (\<lambda>r. if ur_ID r = ur_ID e then r\<lparr>ur_Role := role\<rparr> else r) rs)) =
    (if v = u then [role] else map ur_Role (filter (\<lambda>r. ur_UserID r = v) rs))"
proof -
  have key: "ur_ID x = ur_ID e \<longleftrightarrow> ur_UserID x = u" if "x \<in> set rs" for x
    using that assms by (auto dest: distinct_map_eq)
  have "map ur_Role (filter (\<lambda>r. ur_UserID r = v) (map (\<lambda>r. if ur_ID r = ur_ID e then r\<lparr>ur_Role := role\<rparr> else r) rs)) =
    map (\<lambda>r. if ur_UserID r = u then role else ur_Role r) (filter (\<lambda>r. ur_UserID r = v) rs)"
    using key by (induction rs) auto
  also have "\<dots> = (if v = u then [role] else map ur_Role (filter (\<lambda>r. ur_UserID r = v) rs))"
  proof (cases "v = u")
    case True
    from assms(1,3,4) have "filter (\<lambda>r. ur_UserID r = u) rs = [e]"
    proof (induction rs)
      case (Cons a rs)
      have "filter (\<lambda>r. ur_UserID r = ur_UserID a) rs = []"
        using Cons.prems(1) by (induction rs) auto
      with Cons show ?case by (cases "a = e") auto
    qed simp
    with True assms(4) show ?thesis by simp
  qed (auto simp: filter_map o_def intro!: map_cong)
  finally show ?thesis .
qed

lemma sql_assign_installed: "sql_installed db \<Longrightarrow> sql_assign u r db = Inr db' \<Longrightarrow> sql_installed db'"
proof -
  assume i: "sql_installed db" and a: "sql_assign u r db = Inr db'"
  from a have t: "db_permissions db' = db_permissions db" "db_role_permissions db' = db_role_permissions db"
    by (auto simp: sql_assign_def Let_def split: if_splits option.splits)
  have "distinct (map ur_UserID (db_user_roles db')) \<and> distinct (map ur_ID (db_user_roles db')) \<and>
     (\<forall>r \<in> set (db_user_roles db'). ur_ID r \<le> db_user_role_seq db')"
  proof (cases "find (\<lambda>r. ur_UserID r = u) (db_user_roles db)")
    case None
    let ?n = "db_user_role_seq db"
    have "\<forall>x \<in> set (db_user_roles db). ur_UserID x \<noteq> u \<and> ur_ID x \<noteq> Suc ?n \<and> ur_ID x \<le> Suc ?n"
      using find_NoneD [OF None] i by (fastforce simp: sql_installed_def)
    moreover have "db_user_roles db' = db_user_roles db @ [\<lparr>ur_ID = Suc ?n, ur_UserID = u, ur_Role = r\<rparr>]"
      "db_user_role_seq db' = Suc ?n"
      using None a by (simp_all add: sql_assign_def Let_def split: if_splits) auto
    moreover have "distinct (map ur_UserID (db_user_roles db))" "distinct (map ur_ID (db_user_roles db))"
      using i by (auto simp: sql_installed_def)
    ultimately show ?thesis by auto
  next
    case (Some e)
    let ?f = "\<lambda>x. if ur_ID x = ur_ID e then x\<lparr>ur_Role := r\<rparr> else x"
    have db: "db_user_roles db' = map ?f (db_user_roles db)" "db_user_role_seq db' = db_user_role_seq db"
      using Some a by (auto simp: sql_assign_def split: if_splits)
    have e: "map ur_UserID (map ?f xs) = map ur_UserID xs" "map ur_ID (map ?f xs) = map ur_ID xs" for xs
      by auto
    show ?thesis
      unfolding db e using i by (auto simp: sql_installed_def)
  qed
  moreover have "has_default db' = has_default db"
    by (intro ext) (simp add: has_default_def t cong: option.case_cong)
  ultimately show ?thesis using i t by (simp add: sql_installed_def)
qed

lemma sql_assign_roles:
  assumes i: "sql_installed db" and a: "sql_assign u r db = Inr db'"
  shows "sql_roles db' v = (if v = u then Inr [r] else sql_roles db v)"
proof (cases "find (\<lambda>r. ur_UserID r = u) (db_user_roles db)")
  case None
  have "filter (\<lambda>r. ur_UserID r = u) (db_user_roles db) = []"
    using find_NoneD [OF None] by (auto simp: filter_empty_conv)
  with None a show ?thesis
    by (auto simp: sql_assign_def sql_roles_def Let_def split: if_splits)
next
  case (Some e)
  have d: "distinct (map ur_UserID (db_user_roles db))" "distinct (map ur_ID (db_user_roles db))"
    using i by (auto simp: sql_installed_def)
  have "db_user_roles db' = map (\<lambda>x. if ur_ID x = ur_ID e then x\<lparr>ur_Role := r\<rparr> else x) (db_user_roles db)"
    using Some a by (auto simp: sql_assign_def split: if_splits)
  with filter_key_update [OF d, of e u v r] find_SomeD [OF Some] show ?thesis
    by (simp add: sql_roles_def Let_def del: map_is_Nil_conv)
qed

interpretation sql: rbac_store sql_roles sql_perms sql_assign sql_ensure sql_installed
proof unfold_locales
  fix s r order u v and s' :: RbacDB
  show "\<not> valid_role r \<Longrightarrow> sql_assign u r s = Inl (InvalidRole r)"
    by (simp add: sql_assign_def valid_role_def RoleAdmin_def RoleUser_def)
  show "valid_role r \<Longrightarrow> \<exists>s'. sql_assign u r s = Inr s'"
    by (auto simp: sql_assign_def valid_role_def RoleAdmin_def RoleUser_def Let_def split: option.split)
  show "sql_installed s \<Longrightarrow> sql_assign u r s = Inr s' \<Longrightarrow> sql_installed s'"
    by (rule sql_assign_installed)
  show "sql_installed s \<Longrightarrow> sql_assign u r s = Inr s' \<Longrightarrow> sql_roles s' v = (if v = u then Inr [r] else sql_roles s v)"
    by (rule sql_assign_roles)
  show "sql_installed s \<Longrightarrow> sql_installed (sql_ensure order s)"
    by (simp add: sql_ensure_id)
  show "sql_installed s \<Longrightarrow> sql_roles (sql_ensure order s) v = sql_roles s v"
    by (simp add: sql_ensure_id)
  show "sql_installed s \<Longrightarrow> valid_role r \<Longrightarrow> \<exists>ps. sql_perms s [r] = Inr ps \<and> grants_of ps = set (defaultPermissions r)"
    by (rule sql_perms_role)
qed

lemma sql_ensure_new:
  "order = [''admin'', ''user''] \<or> order = [''user'', ''admin''] \<Longrightarrow> sql_installed (sql_ensure order empty_rbac_db)"
  by (elim disjE; hypsubst; code_simp)

lemma sql_add_perm_users: "db_user_roles (sql_add_perm role p db) = db_user_roles db"
  by (simp add: sql_add_perm_def sql_first_or_create_def Let_def split: option.split prod.split)

lemma sql_ensure_roles_new: "sql_roles (sql_ensure order empty_rbac_db) u = Inr [''user'']"
proof -
  have "db_user_roles (fold (sql_add_perm role) ps db) = db_user_roles db" for role ps db
    by (induction ps arbitrary: db) (simp_all add: sql_add_perm_users)
  then have "db_user_roles (sql_ensure order db) = db_user_roles db" for db
    unfolding sql_ensure_def by (induction order arbitrary: db) simp_all
  then show ?thesis
    by (simp add: sql_roles_def empty_rbac_db_def RoleUser_def)
qed

section \<open>Properties\<close>

text \<open>C8: The two implementations of \<open>RBACStore\<close> take the same decisions. Start either store empty,
  install the defaults in any order of the map, and run any history of repeated installations and
  role assignments (invalid roles included, on any users): \<open>HasPermission\<close> answers the same over the
  maps and over the tables, and the answer is that of the last valid role assigned to the user
  (\<open>user\<close> when there was none).\<close>

theorem rbac_stores_agree:
  assumes "order = [''admin'', ''user''] \<or> order = [''user'', ''admin'']"
    and "order' = [''admin'', ''user''] \<or> order' = [''user'', ''admin'']"
  shows "(let m = mem.run ops (mem_ensure order NewInMemoryRBACStore);
              d = sql.run ops (sql_ensure order' empty_rbac_db)
          in HasPermission (mem_roles m) (mem_perms m) u resource action =
             HasPermission (sql_roles d) (sql_perms d) u resource action \<and>
             HasPermission (mem_roles m) (mem_perms m) u resource action =
             allowed (set (defaultPermissions (role_after ops u ''user''))) resource action)"
proof -
  have user: "valid_role ''user''"
    by (simp add: valid_role_def)
  have "mem_installed (mem_ensure order NewInMemoryRBACStore)"
    using assms(1) by (intro mem_ensure_new) auto
  moreover have "mem_roles (mem_ensure order NewInMemoryRBACStore) u = Inr [''user'']"
    by (simp add: mem_roles_def mem_ensure_user NewInMemoryRBACStore_def RoleUser_def)
  moreover have "sql_installed (sql_ensure order' empty_rbac_db)"
    using assms(2) by (rule sql_ensure_new)
  moreover have "sql_roles (sql_ensure order' empty_rbac_db) u = Inr [''user'']"
    by (rule sql_ensure_roles_new)
  ultimately show ?thesis
    using mem.permission_after [OF _ _ user] sql.permission_after [OF _ _ user] by (simp add: Let_def)
qed

lemma rbac_stores_agree_witness:
  "(let m = mem.run [OAssign 4 ''admin''] (mem_ensure [''admin'', ''user''] NewInMemoryRBACStore)
    in HasPermission (mem_roles m) (mem_perms m) 4 ''billing'' ''purge'')"
  using rbac_stores_agree [of "[''admin'', ''user'']" "[''user'', ''admin'']" "[OAssign 4 ''admin'']" 4
      "''billing''" "''purge''"]
  unfolding Let_def by (auto simp: allowed_def defaultPermissions_def valid_role_def simp del: mem.run.simps sql.run.simps)

text \<open>The permission middleware. It never passes a request without a numeric user in the context,
  and on an installed store it passes exactly the users whose role grants the action: administrators
  everything, everybody else the listed actions on tasks and users.\<close>

lemma require_permission_passes:
  assumes "sql_installed db" and "sql_roles db u = Inr [r]" and "valid_role r"
  shows "RequirePermission (sql_roles db) (sql_perms db) resource action None = MwUnauth \<and>
    RequirePermission (sql_roles db) (sql_perms db) resource action (Some CtxOther) = MwUnauth \<and>
    (RequirePermission (sql_roles db) (sql_perms db) resource action (Some (CtxUint u)) = MwNext \<longleftrightarrow>
       r = ''admin'' \<or>
       (resource = ''task'' \<and> action \<in> {''read'', ''create'', ''update'', ''delete''}) \<or>
       (resource = ''user'' \<and> action \<in> {''read'', ''update''})) \<and>
    RequirePermission (sql_roles db) (sql_perms db) resource action (Some (CtxUint u)) \<noteq> MwUnauth"
proof -
  have "HasPermission (sql_roles db) (sql_perms db) u resource action \<longleftrightarrow>
      allowed (set (defaultPermissions r)) resource action"
    using sql.permission_after [OF assms, of "[]"] by simp
  moreover have "allowed (set (defaultPermissions r)) resource action \<longleftrightarrow> r = ''admin'' \<or>
       (resource = ''task'' \<and> action \<in> {''read'', ''create'', ''update'', ''delete''}) \<or>
       (resource = ''user'' \<and> action \<in> {''read'', ''update''})"
  proof (cases "r = ''admin''")
    case True
    then show ?thesis by (simp add: allowed_def defaultPermissions_def)
  next
    case False
    with assms(3) have r: "r = ''user''" by (simp add: valid_role_def)
    show ?thesis by (simp add: r allowed_def defaultPermissions_def) argo
  qed
  ultimately show ?thesis by (simp add: RequirePermission_def)
qed

lemma require_permission_passes_witness:
  "RequirePermission (sql_roles (sql_ensure [''user'', ''admin''] empty_rbac_db))
     (sql_perms (sql_ensure [''user'', ''admin''] empty_rbac_db)) ''user'' ''delete'' (Some (CtxUint 3)) \<noteq> MwNext"
  using require_permission_passes [of "sql_ensure [''user'', ''admin''] empty_rbac_db" 3 "''user''" "''user''" "''delete''"]
    sql_ensure_new [of "[''user'', ''admin'']"] sql_ensure_roles_new [of "[''user'', ''admin'']" 3]
  by (simp add: valid_role_def)

end
