(* ===== verification/Tokens.thy ===== *)
theory Tokens
  imports GoStd ApiKeys
begin

text \<open>
  Tokens and their revocation: \<open>internal/services/auth/auth.go\<close> (claims, issue, validation),
  \<open>internal/services/auth/blacklist.go\<close> (the interface \<open>TokenBlacklist\<close>, here a locale, interpreted
  on \<open>InMemoryBlacklist\<close>; of the Redis implementation the command it sends), \<open>internal/middleware/auth.go\<close>
  and \<open>internal/middleware/apikey.go\<close> (who gets past the middleware), and the handler \<open>logout\<close> of
  \<open>internal/modules/auth/module.go\<close>.

  The JWT library is a parameter: \<open>sign\<close> is \<open>SignedString\<close>, \<open>numdate\<close> is \<open>jwt.NewNumericDate\<close> (which
  truncates), and \<open>parse\<close> is \<open>ParseWithClaims\<close>, which calls back the key function with the algorithm of
  the token (\<^const>\<open>True\<close> for the HMAC family) and returns the claims of a token whose signature and
  expiry it accepted. \<open>secs\<close> is the floating-point conversion of a duration to whole seconds.
\<close>

section \<open>Claims and service\<close>

record Claims =
  cl_UserID :: nat
  cl_Username :: string
  cl_TokenType :: string
  cl_Issuer :: string
  cl_IssuedAt :: instant
  cl_ExpiresAt :: instant
  cl_Subject :: string
  cl_ID :: string

definition TokenTypeAccess :: string where "TokenTypeAccess = ''access''"
definition TokenTypeRefresh :: string where "TokenTypeRefresh = ''refresh''"

record AuthService =
  as_secret :: string
  as_accessExpire :: duration
  as_refreshExpire :: duration
  as_issuer :: string

record TokenPair =
  tp_AccessToken :: string
  tp_RefreshToken :: string
  tp_ExpiresIn :: int
  tp_UserID :: nat
  tp_Username :: string

datatype token_error = SignFailed | InvalidToken | TokenTypeMismatch string string

record jwt_lib =
  jwt_sign :: "string \<Rightarrow> Claims \<Rightarrow> string option"
  jwt_numdate :: "instant \<Rightarrow> instant"
  jwt_parse :: "(bool \<Rightarrow> string option) \<Rightarrow> instant \<Rightarrow> string \<Rightarrow> Claims option"
  jwt_secs :: "duration \<Rightarrow> int"

definition NewService :: "string \<Rightarrow> duration \<Rightarrow> duration \<Rightarrow> string \<Rightarrow> AuthService" where
  "NewService secret accessExpire refreshExpire issuer =
     \<lparr>as_secret = secret,
      as_accessExpire = (if accessExpire \<le> 0 then 30 * 60 * 1000000000 else accessExpire),
      as_refreshExpire = (if refreshExpire \<le> 0 then 7 * 24 * 3600 * 1000000000 else refreshExpire),
      as_issuer = (if issuer = [] then ''go-backend-core'' else issuer)\<rparr>"

definition token_id :: "string \<Rightarrow> nat \<Rightarrow> instant \<Rightarrow> string" where
  "token_id tokenType userID now =
     tokenType @ CHR ''-'' # fmt_int (int userID) @ CHR ''-'' # fmt_int now"

definition token_claims ::
  "jwt_lib \<Rightarrow> AuthService \<Rightarrow> nat \<Rightarrow> string \<Rightarrow> string \<Rightarrow> duration \<Rightarrow> instant \<Rightarrow> Claims" where
  "token_claims J s userID username tokenType expire now =
     \<lparr>cl_UserID = userID, cl_Username = username, cl_TokenType = tokenType, cl_Issuer = as_issuer s,
      cl_IssuedAt = jwt_numdate J now, cl_ExpiresAt = jwt_numdate J (now + expire),
      cl_Subject = fmt_int (int userID), cl_ID = token_id tokenType userID now\<rparr>"

definition generateToken ::
  "jwt_lib \<Rightarrow> AuthService \<Rightarrow> nat \<Rightarrow> string \<Rightarrow> string \<Rightarrow> duration \<Rightarrow> instant \<Rightarrow> token_error + string" where
  "generateToken J s userID username tokenType expire now =
     (case jwt_sign J (as_secret s) (token_claims J s userID username tokenType expire now) of
        None \<Rightarrow> Inl SignFailed
      | Some t \<Rightarrow> Inr t)"

definition GenerateTokenPair ::
  "jwt_lib \<Rightarrow> AuthService \<Rightarrow> instant \<Rightarrow> nat \<Rightarrow> string \<Rightarrow> token_error + TokenPair" where
  "GenerateTokenPair J s now userID username =
     (case generateToken J s userID username TokenTypeAccess (as_accessExpire s) now of
        Inl e \<Rightarrow> Inl e
      | Inr accessToken \<Rightarrow>
          (case generateToken J s userID username TokenTypeRefresh (as_refreshExpire s) now of
             Inl e \<Rightarrow> Inl e
           | Inr refreshToken \<Rightarrow>
               Inr \<lparr>tp_AccessToken = accessToken, tp_RefreshToken = refreshToken,
                    tp_ExpiresIn = jwt_secs J (as_accessExpire s), tp_UserID = userID,
                    tp_Username = username\<rparr>))"

definition key_func :: "AuthService \<Rightarrow> bool \<Rightarrow> string option" where
  "key_func s hmac = (if hmac then Some (as_secret s) else None)"

definition parseToken ::
  "jwt_lib \<Rightarrow> AuthService \<Rightarrow> instant \<Rightarrow> string \<Rightarrow> string \<Rightarrow> token_error + Claims" where
  "parseToken J s now tokenStr expectedType =
     (case jwt_parse J (key_func s) now tokenStr of
        None \<Rightarrow> Inl InvalidToken
      | Some claims \<Rightarrow>
          if expectedType \<noteq> [] \<and> cl_TokenType claims \<noteq> expectedType
          then Inl (TokenTypeMismatch expectedType (cl_TokenType claims))
          else Inr claims)"

definition ValidateToken :: "jwt_lib \<Rightarrow> AuthService \<Rightarrow> instant \<Rightarrow> string \<Rightarrow> token_error + Claims" where
  "ValidateToken J s now tokenStr = parseToken J s now tokenStr []"

definition ValidateAccessToken :: "jwt_lib \<Rightarrow> AuthService \<Rightarrow> instant \<Rightarrow> string \<Rightarrow> token_error + Claims" where
  "ValidateAccessToken J s now tokenStr = parseToken J s now tokenStr TokenTypeAccess"

definition ValidateRefreshToken :: "jwt_lib \<Rightarrow> AuthService \<Rightarrow> instant \<Rightarrow> string \<Rightarrow> token_error + Claims" where
  "ValidateRefreshToken J s now tokenStr = parseToken J s now tokenStr TokenTypeRefresh"

definition RefreshAccessToken :: "jwt_lib \<Rightarrow> AuthService \<Rightarrow> instant \<Rightarrow> string \<Rightarrow> token_error + TokenPair" where
  "RefreshAccessToken J s now refreshTokenStr =
     (case ValidateRefreshToken J s now refreshTokenStr of
        Inl e \<Rightarrow> Inl e
      | Inr claims \<Rightarrow> GenerateTokenPair J s now (cl_UserID claims) (cl_Username claims))"

section \<open>Blacklists\<close>

type_synonym InMemoryBlacklist = "string \<rightharpoonup> instant"

definition NewInMemoryBlacklist :: InMemoryBlacklist where
  "NewInMemoryBlacklist = Map.empty"

definition Revoke :: "string \<Rightarrow> instant \<Rightarrow> InMemoryBlacklist \<Rightarrow> InMemoryBlacklist" where
  "Revoke jti exp b = b(jti \<mapsto> exp)"

datatype blacklist_error = BlacklistQueryFailed

definition IsRevoked ::
  "instant \<Rightarrow> string \<Rightarrow> InMemoryBlacklist \<Rightarrow> (blacklist_error + bool) \<times> InMemoryBlacklist" where
  "IsRevoked now jti b =
     (case b jti of
        None \<Rightarrow> (Inr False, b)
      | Some exp \<Rightarrow> if exp < now then (Inr False, b(jti := None)) else (Inr True, b))"

text \<open>
  The command \<open>SET key 1 ttl\<close> which the Redis implementation sends, and the key of its \<open>EXISTS\<close>: a token
  that has expired already is kept for an hour.
\<close>

definition redis_revoke_cmd :: "instant \<Rightarrow> string \<Rightarrow> instant \<Rightarrow> string \<times> string \<times> duration" where
  "redis_revoke_cmd now jti exp =
     (let ttl = exp - now; ttl' = (if ttl \<le> 0 then 3600 * 1000000000 else ttl)
      in (''blacklist:'' @ jti, ''1'', ttl'))"

section \<open>Middleware and logout\<close>

definition fold_char :: "char \<Rightarrow> char" where
  "fold_char c = (if of_char c \<ge> (65 :: nat) \<and> of_char c \<le> (90 :: nat) then char_of (of_char c + (32 :: nat)) else c)"

definition equal_fold :: "string \<Rightarrow> string \<Rightarrow> bool" where
  "equal_fold s t \<longleftrightarrow> map fold_char s = map fold_char t"

definition extractToken :: "string \<Rightarrow> string" where
  "extractToken header =
     (if header = [] then []
      else let parts = split_2 CHR '' '' header
           in if length parts \<noteq> 2 \<or> \<not> equal_fold (parts ! 0) ''Bearer'' then [] else parts ! 1)"

text \<open>The context that a handler behind the middleware sees, or the answer 401.\<close>

record auth_ctx =
  ctx_user_id :: nat
  ctx_username :: "string option"
  ctx_token :: "(string \<times> instant) option"
  ctx_api_key :: "(nat \<times> string) option"

definition AuthRequired :: "jwt_lib \<Rightarrow> AuthService \<Rightarrow> instant \<Rightarrow> string \<Rightarrow> auth_ctx option" where
  "AuthRequired J svc now header =
     (let tokenStr = extractToken header
      in if tokenStr = [] then None
         else case ValidateAccessToken J svc now tokenStr of
                Inl _ \<Rightarrow> None
              | Inr claims \<Rightarrow>
                  Some \<lparr>ctx_user_id = cl_UserID claims, ctx_username = Some (cl_Username claims),
                        ctx_token = Some (cl_ID claims, cl_ExpiresAt claims), ctx_api_key = None\<rparr>)"

definition AuthRequiredWithBlacklist ::
  "jwt_lib \<Rightarrow> AuthService \<Rightarrow> (instant \<Rightarrow> string \<Rightarrow> 'b \<Rightarrow> (blacklist_error + bool) \<times> 'b) option \<Rightarrow>
   instant \<Rightarrow> string \<Rightarrow> 'b \<Rightarrow> auth_ctx option \<times> 'b" where
  "AuthRequiredWithBlacklist J svc bl now header b =
     (let tokenStr = extractToken header
      in if tokenStr = [] then (None, b)
         else case ValidateAccessToken J svc now tokenStr of
                Inl _ \<Rightarrow> (None, b)
              | Inr claims \<Rightarrow>
                  let go = Some \<lparr>ctx_user_id = cl_UserID claims, ctx_username = Some (cl_Username claims),
                                 ctx_token = None, ctx_api_key = None\<rparr>
                  in case bl of
                       None \<Rightarrow> (go, b)
                     | Some is_revoked \<Rightarrow>
                         (case is_revoked now (cl_ID claims) b of
                            (Inr True, b') \<Rightarrow> (None, b')
                          | (_, b') \<Rightarrow> (go, b')))"

definition APIKeyAuth ::
  "(string \<Rightarrow> 8 word list) \<Rightarrow> instant \<Rightarrow> string \<Rightarrow> InMemoryApiKeyStore \<Rightarrow> auth_ctx option \<times> InMemoryApiKeyStore" where
  "APIKeyAuth sha now rawKey ks =
     (if rawKey = [] then (None, ks)
      else case ValidateKey sha now rawKey ks of
             (Inl _, ks') \<Rightarrow> (None, ks')
           | (Inr key, ks') \<Rightarrow>
               (Some \<lparr>ctx_user_id = ak_UserID key, ctx_username = None, ctx_token = None,
                      ctx_api_key = Some (ak_ID key, ak_Scopes key)\<rparr>, ks'))"

definition APIKeyOrJWT ::
  "(string \<Rightarrow> 8 word list) \<Rightarrow> jwt_lib \<Rightarrow> AuthService \<Rightarrow>
   (instant \<Rightarrow> string \<Rightarrow> 'b \<Rightarrow> (blacklist_error + bool) \<times> 'b) option \<Rightarrow>
   instant \<Rightarrow> string \<Rightarrow> string \<Rightarrow> InMemoryApiKeyStore \<times> 'b \<Rightarrow> auth_ctx option \<times> InMemoryApiKeyStore \<times> 'b" where
  "APIKeyOrJWT sha J svc bl now rawKey header st =
     (case st of (ks, b) \<Rightarrow>
        if rawKey \<noteq> [] then
          (case ValidateKey sha now rawKey ks of
             (Inl _, ks') \<Rightarrow> (None, ks', b)
           | (Inr key, ks') \<Rightarrow>
               (Some \<lparr>ctx_user_id = ak_UserID key, ctx_username = None, ctx_token = None,
                      ctx_api_key = Some (ak_ID key, ak_Scopes key)\<rparr>, ks', b))
        else case AuthRequiredWithBlacklist J svc bl now header b of (r, b') \<Rightarrow> (r, ks, b'))"

text \<open>The blacklist after the handler \<open>logout\<close>; it answers success in every case.\<close>

definition logout ::
  "jwt_lib \<Rightarrow> AuthService \<Rightarrow> (string \<Rightarrow> instant \<Rightarrow> 'b \<Rightarrow> 'b) \<Rightarrow> instant \<Rightarrow> string \<Rightarrow> 'b \<Rightarrow> 'b" where
  "logout J svc revoke now header b =
     (if length header > 7 \<and> (take 7 header = ''Bearer '' \<or> take 7 header = ''bearer '')
      then case ValidateAccessToken J svc now (drop 7 header) of
             Inl _ \<Rightarrow> b
           | Inr claims \<Rightarrow> revoke (cl_ID claims) (cl_ExpiresAt claims) b
      else b)"

section \<open>The contract of a blacklist\<close>

datatype bl_op = BRequest instant string | BLogout instant string

fun op_time :: "bl_op \<Rightarrow> instant" where
  "op_time (BRequest t h) = t"
| "op_time (BLogout t h) = t"

text \<open>
  \<open>same_exp\<close>: two accepted tokens with the same identifier expire at the same instant (the service
  signs the identifier and the expiry from the same clock reading).
\<close>

definition same_exp :: "jwt_lib \<Rightarrow> AuthService \<Rightarrow> Claims \<Rightarrow> bool" where
  "same_exp J svc c \<longleftrightarrow> (\<forall>t tok c'. jwt_parse J (key_func svc) t tok = Some c' \<longrightarrow> cl_ID c' = cl_ID c \<longrightarrow>
     cl_ExpiresAt c' = cl_ExpiresAt c)"

lemma ValidateAccessToken_Inr:
  "ValidateAccessToken J svc t tok = Inr c \<longleftrightarrow>
     jwt_parse J (key_func svc) t tok = Some c \<and> cl_TokenType c = ''access''"
  by (auto simp: ValidateAccessToken_def parseToken_def TokenTypeAccess_def split: option.splits)

locale token_blacklist =
  fixes revoke :: "string \<Rightarrow> instant \<Rightarrow> 'b \<Rightarrow> 'b"
    and is_revoked :: "instant \<Rightarrow> string \<Rightarrow> 'b \<Rightarrow> (blacklist_error + bool) \<times> 'b"
    and until :: "'b \<Rightarrow> string \<rightharpoonup> instant"
  assumes until_revoke: "until (revoke j e b) = (until b)(j \<mapsto> e)"
    and is_revoked_true: "until b j = Some e \<Longrightarrow> t \<le> e \<Longrightarrow> fst (is_revoked t j b) = Inr True"
    and is_revoked_until: "until b j = Some e \<Longrightarrow> t \<le> e \<Longrightarrow> until (snd (is_revoked t k b)) j = Some e"
begin

definition op_step :: "jwt_lib \<Rightarrow> AuthService \<Rightarrow> bl_op \<Rightarrow> 'b \<Rightarrow> 'b" where
  "op_step J svc op b =
     (case op of
        BRequest t h \<Rightarrow> snd (AuthRequiredWithBlacklist J svc (Some is_revoked) t h b)
      | BLogout t h \<Rightarrow> logout J svc revoke t h b)"

fun op_run :: "jwt_lib \<Rightarrow> AuthService \<Rightarrow> bl_op list \<Rightarrow> 'b \<Rightarrow> 'b" where
  "op_run J svc [] b = b"
| "op_run J svc (op # ops) b = op_run J svc ops (op_step J svc op b)"

lemma op_step_until:
  assumes "same_exp J svc c" "until b (cl_ID c) = Some (cl_ExpiresAt c)" "op_time op \<le> cl_ExpiresAt c"
  shows "until (op_step J svc op b) (cl_ID c) = Some (cl_ExpiresAt c)"
proof (cases op)
  case (BRequest t h)
  have "until b' (cl_ID c) = Some (cl_ExpiresAt c)" if "is_revoked t k b = (r, b')" for k r b'
    using is_revoked_until [OF assms(2), of t k] assms(3) BRequest that by simp
  with BRequest assms(2) show ?thesis
    by (auto simp: op_step_def AuthRequiredWithBlacklist_def Let_def split: sum.splits prod.splits bool.splits)
next
  case (BLogout t h)
  with assms show ?thesis
    by (auto simp: op_step_def logout_def until_revoke same_exp_def ValidateAccessToken_Inr split: sum.splits)
qed

lemma op_run_until:
  assumes "same_exp J svc c" "until b (cl_ID c) = Some (cl_ExpiresAt c)" "\<forall>op \<in> set ops. op_time op \<le> cl_ExpiresAt c"
  shows "until (op_run J svc ops b) (cl_ID c) = Some (cl_ExpiresAt c)"
  using assms(2,3)
  by (induction ops arbitrary: b) (simp_all add: op_step_until [OF assms(1)])

lemma blocked:
  assumes "until b (cl_ID c) = Some (cl_ExpiresAt c)" "t \<le> cl_ExpiresAt c"
    and "ValidateAccessToken J svc t (extractToken h) = Inr c"
  shows "fst (AuthRequiredWithBlacklist J svc (Some is_revoked) t h b) = None"
  using assms is_revoked_true [OF assms(1,2)]
  by (auto simp: AuthRequiredWithBlacklist_def Let_def split: prod.splits)

end

interpretation mem_bl: token_blacklist Revoke IsRevoked "\<lambda>b. b"
  by unfold_locales (auto simp: Revoke_def IsRevoked_def split: option.splits)

section \<open>Properties\<close>

lemma token_id_inj:
  assumes "ty \<in> {TokenTypeAccess, TokenTypeRefresh}" "ty' \<in> {TokenTypeAccess, TokenTypeRefresh}"
    and eq: "token_id ty u t = token_id ty' u' t'"
  shows "ty = ty' \<and> u = u' \<and> t = t'"
proof -
  have d: "CHR ''-'' \<notin> set (fmt_int (int n))" for n
    using digits_no_dash by (simp add: fmt_int_def)
  have "CHR ''-'' \<notin> set ty" "CHR ''-'' \<notin> set ty'"
    using assms by (auto simp: TokenTypeAccess_def TokenTypeRefresh_def)
  from append_sep_inj [OF this eq [unfolded token_id_def]] have ty: "ty = ty'"
    and rest: "fmt_int (int u) @ CHR ''-'' # fmt_int t = fmt_int (int u') @ CHR ''-'' # fmt_int t'"
    by auto
  from append_sep_inj [OF d d rest] have "fmt_int (int u) = fmt_int (int u')" "fmt_int t = fmt_int t'"
    by auto
  with ty show ?thesis by (auto dest: fmt_int_inj)
qed

lemma extract_bearer:
  "w \<in> {''Bearer'', ''bearer'', ''BEARER''} \<Longrightarrow> extractToken (w @ CHR '' '' # tok) = tok"
proof -
  assume w: "w \<in> {''Bearer'', ''bearer'', ''BEARER''}"
  have "equal_fold ''Bearer'' ''Bearer''" "equal_fold ''bearer'' ''Bearer''" "equal_fold ''BEARER'' ''Bearer''"
    by code_simp+
  with w have "equal_fold w ''Bearer''" by auto
  moreover have "CHR '' '' \<notin> set w" using w by auto
  ultimately show ?thesis by (simp add: extractToken_def Let_def split_2_word)
qed

text \<open>What the theorems use of the JWT library: a token signed with the secret is accepted with its
  claims by that secret exactly until it expires.\<close>

definition jwt_ok :: "jwt_lib \<Rightarrow> bool" where
  "jwt_ok J \<longleftrightarrow> (\<forall>secret c tok. jwt_sign J secret c = Some tok \<longrightarrow>
     (\<forall>kf t. jwt_parse J kf t tok =
        (if kf True = Some secret \<and> t < cl_ExpiresAt c then Some c else None)))"

lemma access_claims:
  assumes "jwt_ok J" "GenerateTokenPair J s now u name = Inr p"
  shows "ValidateAccessToken J s t (tp_AccessToken p) =
    (if t < jwt_numdate J (now + as_accessExpire s)
     then Inr (token_claims J s u name TokenTypeAccess (as_accessExpire s) now) else Inl InvalidToken)"
proof -
  let ?a = "token_claims J s u name TokenTypeAccess (as_accessExpire s) now"
  from assms(2) have "jwt_sign J (as_secret s) ?a = Some (tp_AccessToken p)"
    by (auto simp: GenerateTokenPair_def generateToken_def split: sum.splits option.splits)
  then have "jwt_parse J (key_func s) t (tp_AccessToken p) = (if t < cl_ExpiresAt ?a then Some ?a else None)"
    using assms(1) by (simp add: jwt_ok_def key_func_def)
  then show ?thesis by (simp add: ValidateAccessToken_def parseToken_def) (simp add: token_claims_def)
qed

text \<open>C7: The two tokens of a pair cannot stand in for each other. The access token validates as an
  access token for its user exactly until its expiry and is refused by \<open>RefreshAccessToken\<close>; the
  refresh token is refused by the middleware's check and, until its own expiry, gets a new pair for
  the same user; their identifiers differ, so revoking one does not revoke the other.\<close>

theorem token_pair_types:
  assumes lib: "jwt_ok J" and pair: "GenerateTokenPair J s now u name = Inr p"
  shows "(\<forall>t. is_ok (ValidateAccessToken J s t (tp_AccessToken p)) \<longleftrightarrow>
             t < jwt_numdate J (now + as_accessExpire s)) \<and>
    (\<forall>t c. ValidateAccessToken J s t (tp_AccessToken p) = Inr c \<longrightarrow> cl_UserID c = u \<and> cl_Username c = name \<and>
       cl_ID c = token_id TokenTypeAccess u now) \<and>
    (\<forall>t. \<not> is_ok (RefreshAccessToken J s t (tp_AccessToken p)) \<and> \<not> is_ok (ValidateAccessToken J s t (tp_RefreshToken p))) \<and>
    (\<forall>t. t < jwt_numdate J (now + as_refreshExpire s) \<longrightarrow>
       RefreshAccessToken J s t (tp_RefreshToken p) = GenerateTokenPair J s t u name) \<and>
    token_id TokenTypeAccess u now \<noteq> token_id TokenTypeRefresh u now"
proof -
  let ?a = "token_claims J s u name TokenTypeAccess (as_accessExpire s) now"
  let ?r = "token_claims J s u name TokenTypeRefresh (as_refreshExpire s) now"
  from pair have sa: "jwt_sign J (as_secret s) ?a = Some (tp_AccessToken p)"
    and sr: "jwt_sign J (as_secret s) ?r = Some (tp_RefreshToken p)"
    by (auto simp: GenerateTokenPair_def generateToken_def split: sum.splits option.splits)
  have pa: "jwt_parse J (key_func s) t (tp_AccessToken p) = (if t < cl_ExpiresAt ?a then Some ?a else None)"
    and pr: "jwt_parse J (key_func s) t (tp_RefreshToken p) = (if t < cl_ExpiresAt ?r then Some ?r else None)" for t
    using lib sa sr by (auto simp: jwt_ok_def key_func_def)
  have ne: "TokenTypeAccess \<noteq> TokenTypeRefresh" "TokenTypeAccess \<noteq> []" "TokenTypeRefresh \<noteq> []"
    by (simp_all add: TokenTypeAccess_def TokenTypeRefresh_def)
  have "token_id TokenTypeAccess u now \<noteq> token_id TokenTypeRefresh u now"
    using token_id_inj [of TokenTypeAccess TokenTypeRefresh u now u now] ne by auto
  with ne show ?thesis
    by (simp add: ValidateAccessToken_def RefreshAccessToken_def ValidateRefreshToken_def parseToken_def pa pr)
      (simp add: token_claims_def)
qed

text \<open>A library in which a token is its claims: signing writes them down behind the secret.\<close>

definition demo_claims :: Claims where
  "demo_claims = \<lparr>cl_UserID = 7, cl_Username = ''bob'', cl_TokenType = ''access'', cl_Issuer = ''go-backend-core'',
     cl_IssuedAt = 0, cl_ExpiresAt = 100, cl_Subject = ''7'', cl_ID = ''access-7-0''\<rparr>"

definition demo_refresh :: Claims where
  "demo_refresh = demo_claims\<lparr>cl_TokenType := ''refresh'', cl_ExpiresAt := 900, cl_ID := ''refresh-7-0''\<rparr>"

definition demo_svc :: AuthService where
  "demo_svc = NewService ''k'' 100 900 []"

definition demo_jwt :: jwt_lib where
  "demo_jwt = \<lparr>
     jwt_sign = (\<lambda>secret c. if secret = ''k'' \<and> c = demo_claims then Some ''tok-a''
                            else if secret = ''k'' \<and> c = demo_refresh then Some ''tok-r'' else None),
     jwt_numdate = (\<lambda>t. t),
     jwt_parse = (\<lambda>kf t tok.
       if kf True \<noteq> Some ''k'' then None
       else if tok = ''tok-a'' \<and> t < 100 then Some demo_claims
       else if tok = ''tok-r'' \<and> t < 900 then Some demo_refresh else None),
     jwt_secs = (\<lambda>d. d div 1000000000)\<rparr>"

lemma demo_jwt_ok: "jwt_ok demo_jwt"
  by (auto simp: jwt_ok_def demo_jwt_def demo_claims_def demo_refresh_def split: if_splits)

lemma demo_pair:
  "GenerateTokenPair demo_jwt demo_svc 0 7 ''bob'' =
     Inr \<lparr>tp_AccessToken = ''tok-a'', tp_RefreshToken = ''tok-r'', tp_ExpiresIn = 0, tp_UserID = 7, tp_Username = ''bob''\<rparr>"
proof -
  have f: "fmt_int 7 = ''7''" "fmt_int 0 = ''0''"
    by code_simp+
  have svc: "demo_svc = \<lparr>as_secret = ''k'', as_accessExpire = 100, as_refreshExpire = 900, as_issuer = ''go-backend-core''\<rparr>"
    by (simp add: demo_svc_def NewService_def)
  have c: "token_claims demo_jwt demo_svc 7 ''bob'' TokenTypeAccess 100 0 = demo_claims"
    "token_claims demo_jwt demo_svc 7 ''bob'' TokenTypeRefresh 900 0 = demo_refresh"
    by (simp_all add: token_claims_def token_id_def f TokenTypeAccess_def TokenTypeRefresh_def svc demo_claims_def
      demo_refresh_def, simp_all add: demo_jwt_def)
  have d: "demo_claims \<noteq> demo_refresh" by (simp add: demo_claims_def demo_refresh_def)
  have "jwt_sign demo_jwt ''k'' demo_claims = Some ''tok-a''" "jwt_sign demo_jwt ''k'' demo_refresh = Some ''tok-r''"
    "jwt_secs demo_jwt 100 = 0"
    using d by (simp_all add: demo_jwt_def)
  with c show ?thesis
    by (simp add: GenerateTokenPair_def generateToken_def svc)
qed

lemma token_pair_types_witness:
  "is_ok (ValidateAccessToken demo_jwt demo_svc 99 ''tok-a'') \<and> \<not> is_ok (ValidateAccessToken demo_jwt demo_svc 99 ''tok-r'')"
proof -
  have e: "99 < jwt_numdate demo_jwt (0 + as_accessExpire demo_svc)"
    by (simp add: demo_jwt_def demo_svc_def NewService_def)
  from token_pair_types [OF demo_jwt_ok demo_pair] have
    "is_ok (ValidateAccessToken demo_jwt demo_svc 99 (tp_AccessToken \<lparr>tp_AccessToken = ''tok-a'', tp_RefreshToken = ''tok-r'',
       tp_ExpiresIn = 0, tp_UserID = 7, tp_Username = ''bob''\<rparr>))"
    "\<not> is_ok (ValidateAccessToken demo_jwt demo_svc 99 (tp_RefreshToken \<lparr>tp_AccessToken = ''tok-a'', tp_RefreshToken = ''tok-r'',
       tp_ExpiresIn = 0, tp_UserID = 7, tp_Username = ''bob''\<rparr>))"
    using e by blast+
  then show ?thesis by simp
qed

text \<open>C6: Logging out works. After \<open>logout\<close> with a header the handler reads (\<open>Bearer\<close> or \<open>bearer\<close>) and an
  accepted token, no later request that carries the token passes \<open>AuthRequiredWithBlacklist\<close>, whatever
  requests and logouts of this and other tokens happen in between.\<close>

theorem logout_revokes:
  assumes lib: "\<And>t c'. jwt_parse J (key_func svc) t tok = Some c' \<Longrightarrow> c' = c \<and> t \<le> cl_ExpiresAt c"
    and exp: "same_exp J svc c"
    and accepted: "ValidateAccessToken J svc t0 tok = Inr c" "tok \<noteq> []"
    and header: "h0 = ''Bearer '' @ tok \<or> h0 = ''bearer '' @ tok"
    and later: "\<forall>op \<in> set ops. op_time op \<le> t"
    and carries: "extractToken h = tok"
  shows "fst (AuthRequiredWithBlacklist J svc (Some IsRevoked) t h
    (mem_bl.op_run J svc ops (logout J svc Revoke t0 h0 b))) = None"
proof (cases "ValidateAccessToken J svc t tok")
  case (Inl e)
  with carries show ?thesis by (simp add: AuthRequiredWithBlacklist_def Let_def)
next
  case (Inr c')
  with lib have c': "c' = c" "t \<le> cl_ExpiresAt c"
    by (auto simp: ValidateAccessToken_Inr)
  have "logout J svc Revoke t0 h0 b = Revoke (cl_ID c) (cl_ExpiresAt c) b"
    using header accepted by (elim disjE) (simp_all add: logout_def)
  then have "mem_bl.op_run J svc ops (logout J svc Revoke t0 h0 b) (cl_ID c) = Some (cl_ExpiresAt c)"
    using exp later c'(2) by (intro mem_bl.op_run_until) (auto simp: Revoke_def intro: order_trans)
  then show ?thesis
    using mem_bl.blocked [of _ c t J svc h] Inr c' carries by simp
qed

lemma logout_revokes_witness:
  "fst (AuthRequiredWithBlacklist demo_jwt demo_svc (Some IsRevoked) 40 ''Bearer tok-a''
     (mem_bl.op_run demo_jwt demo_svc [BRequest 30 ''Bearer tok-a''] (logout demo_jwt demo_svc Revoke 20 ''bearer tok-a'' Map.empty))) = None"
proof (rule logout_revokes)
  show "jwt_parse demo_jwt (key_func demo_svc) t ''tok-a'' = Some c' \<Longrightarrow> c' = demo_claims \<and> t \<le> cl_ExpiresAt demo_claims" for t c'
    by (auto simp: demo_jwt_def demo_claims_def split: if_splits)
  show "same_exp demo_jwt demo_svc demo_claims"
    by (auto simp: same_exp_def demo_jwt_def demo_claims_def demo_refresh_def split: if_splits)
  show "ValidateAccessToken demo_jwt demo_svc 20 ''tok-a'' = Inr demo_claims"
    by (simp add: ValidateAccessToken_Inr demo_jwt_def demo_svc_def NewService_def key_func_def demo_claims_def)
  show "extractToken ''Bearer tok-a'' = ''tok-a''"
    by (simp add: extractToken_def Let_def equal_fold_def)
qed simp_all

text \<open>
  The middleware compares the scheme without regard to case, \<open>logout\<close> knows two spellings: a client
  that sends \<open>BEARER\<close> is let in, is told that it is logged out, and is still let in.
\<close>

lemma logout_misses_uppercase:
  assumes "ValidateAccessToken J svc t tok = Inr c" "tok \<noteq> []"
  shows "logout J svc revoke t (''BEARER '' @ tok) b = b"
    and "fst (AuthRequiredWithBlacklist J svc None t (''BEARER '' @ tok) b) \<noteq> None"
  using assms extract_bearer [of "''BEARER''" tok]
  by (simp_all add: logout_def AuthRequiredWithBlacklist_def Let_def)

end
