(* ===== verification/Social.thy ===== *)
theory Social
  imports IdStore
begin

text \<open>
  src/internal/services/auth/provider.go: the accounts of third-party login services that users have bound,
  and the in-memory store of them.

  The provider itself (what a code is exchanged for, what the service says of the user) is a record of two
  functions, \<open>Exchange\<close> and \<open>GetUserInfo\<close>; \<^const>\<open>None\<close> is an error.
\<close>

record SocialUser =
  sx_OpenID :: string
  sx_UnionID :: string
  sx_Nickname :: string
  sx_AvatarURL :: string
  sx_Gender :: int
  sx_Email :: string
  sx_Phone :: string

record SocialProvider =
  sp_Name :: string
  sp_AuthURL :: "string \<Rightarrow> string"
  sp_Exchange :: "string \<Rightarrow> string option"
  sp_GetUserInfo :: "string \<Rightarrow> SocialUser option"

record SocialAccount =
  sa_ID :: nat
  sa_UserID :: nat
  sa_Provider :: string
  sa_OpenID :: string
  sa_UnionID :: string
  sa_Nickname :: string
  sa_AvatarURL :: string
  sa_CreatedAt :: instant

record InMemorySocialStore =
  ss_accounts :: "SocialAccount list"
  ss_seq :: nat

datatype social_error = AlreadyBound string | NotBound string | NoAccount string

definition NewInMemorySocialStore :: InMemorySocialStore where
  "NewInMemorySocialStore = \<lparr>ss_accounts = [], ss_seq = 0\<rparr>"

definition binding_of :: "nat \<Rightarrow> string \<Rightarrow> SocialAccount \<Rightarrow> bool" where
  "binding_of userID provider a \<longleftrightarrow> sa_UserID a = userID \<and> sa_Provider a = provider"

definition Bind ::
  "instant \<Rightarrow> nat \<Rightarrow> string \<Rightarrow> SocialUser \<Rightarrow> InMemorySocialStore \<Rightarrow> social_error + InMemorySocialStore" where
  "Bind now userID provider info s =
    (if find (binding_of userID provider) (ss_accounts s) \<noteq> None then Inl (AlreadyBound provider)
     else let seq = ss_seq s + 1
       in Inr \<lparr>ss_accounts = ss_accounts s @ [\<lparr>sa_ID = seq, sa_UserID = userID, sa_Provider = provider,
                 sa_OpenID = sx_OpenID info, sa_UnionID = sx_UnionID info, sa_Nickname = sx_Nickname info,
                 sa_AvatarURL = sx_AvatarURL info, sa_CreatedAt = now\<rparr>],
               ss_seq = seq\<rparr>)"

definition Unbind :: "nat \<Rightarrow> string \<Rightarrow> InMemorySocialStore \<Rightarrow> social_error + InMemorySocialStore" where
  "Unbind userID provider s =
    (case find (binding_of userID provider) (ss_accounts s) of
       None \<Rightarrow> Inl (NotBound provider)
     | Some a \<Rightarrow> Inr (s\<lparr>ss_accounts := delete_first (binding_of userID provider) (ss_accounts s)\<rparr>))"

definition FindByProvider :: "string \<Rightarrow> string \<Rightarrow> InMemorySocialStore \<Rightarrow> social_error + SocialAccount" where
  "FindByProvider provider openID s =
    (case find (\<lambda>a. sa_Provider a = provider \<and> sa_OpenID a = openID) (ss_accounts s) of
       None \<Rightarrow> Inl (NoAccount provider)
     | Some a \<Rightarrow> Inr a)"

definition ListAccounts :: "nat \<Rightarrow> InMemorySocialStore \<Rightarrow> SocialAccount list" where
  "ListAccounts userID s = filter (\<lambda>a. sa_UserID a = userID) (ss_accounts s)"

section \<open>The store as a store of identified records\<close>

definition social_bind :: "instant \<times> nat \<times> string \<times> SocialUser \<Rightarrow> InMemorySocialStore \<Rightarrow> InMemorySocialStore option" where
  "social_bind c s = (case c of (now, u, p, info) \<Rightarrow> (case Bind now u p info s of Inl _ \<Rightarrow> None | Inr s' \<Rightarrow> Some s'))"

definition social_unbind :: "nat \<times> string \<Rightarrow> InMemorySocialStore \<Rightarrow> InMemorySocialStore" where
  "social_unbind c s = (case Unbind (fst c) (snd c) s of Inl _ \<Rightarrow> s | Inr s' \<Rightarrow> s')"

interpretation ss: id_store ss_accounts ss_seq sa_ID social_bind social_unbind
  by unfold_locales
    (auto simp: social_bind_def social_unbind_def Bind_def Unbind_def Let_def subseq_map_delete_first
      split: prod.splits if_splits sum.splits option.splits)

section \<open>One binding for a user and a provider\<close>

definition bound_once :: "InMemorySocialStore \<Rightarrow> bool" where
  "bound_once s \<longleftrightarrow> distinct (map (\<lambda>a. (sa_UserID a, sa_Provider a)) (ss_accounts s))"

lemma bound_once_new: "bound_once NewInMemorySocialStore"
  by (simp add: bound_once_def NewInMemorySocialStore_def)

lemma bound_once_Bind: "bound_once s \<Longrightarrow> Bind now u p info s = Inr s' \<Longrightarrow> bound_once s'"
  by (auto simp: bound_once_def Bind_def Let_def binding_of_def find_None_iff split: if_splits)

lemma delete_first_in: "x \<in> set (delete_first q xs) \<Longrightarrow> x \<in> set xs"
  by (induction xs) (auto split: if_splits)

lemma distinct_delete_first: "distinct (map g xs) \<Longrightarrow> distinct (map g (delete_first q xs))"
  by (induction xs) (auto dest: delete_first_in)

lemma bound_once_Unbind:
  assumes "bound_once s" "Unbind u p s = Inr s'"
  shows "bound_once s'"
proof -
  have "ss_accounts s' = delete_first (binding_of u p) (ss_accounts s)"
    using assms(2) by (auto simp: Unbind_def split: option.splits)
  with assms(1) show ?thesis
    by (simp add: bound_once_def distinct_delete_first)
qed

text \<open>Unbinding and binding again are inverse up to the identifier and the place in the list.\<close>

lemma unbind_unbound:
  assumes "bound_once s" "Unbind u p s = Inr s'"
  shows "Unbind u p s' = Inl (NotBound p) \<and> \<not> isl (Bind now u p info s')"
proof -
  have s': "ss_accounts s' = delete_first (binding_of u p) (ss_accounts s)"
    using assms(2) by (auto simp: Unbind_def split: option.splits)
  have "\<not> binding_of u p a" if "a \<in> set (delete_first (binding_of u p) xs)"
    "distinct (map (\<lambda>a. (sa_UserID a, sa_Provider a)) xs)" for a xs
    using that by (induction xs) (auto 4 3 simp: binding_of_def image_iff split: if_splits)
  with assms(1) have "find (binding_of u p) (ss_accounts s') = None"
    by (auto simp: s' bound_once_def find_None_iff)
  then show ?thesis by (simp add: Unbind_def Bind_def Let_def)
qed

text \<open>
  What a user does to the store is invisible to the others: their bindings stay. The look-up by open
  identifier does change hands: nothing keeps two users from binding the same account, and it logs in
  to the first of them that is still bound.
\<close>

lemma Bind_others: "Bind now u p info s = Inr s' \<Longrightarrow> v \<noteq> u \<Longrightarrow> ListAccounts v s' = ListAccounts v s"
  by (auto simp: Bind_def Let_def ListAccounts_def split: if_splits)

lemma delete_first_filter_other:
  "(\<And>x. p x \<Longrightarrow> \<not> q x) \<Longrightarrow> filter q (delete_first p xs) = filter q xs"
  by (induction xs) auto

lemma Unbind_others: "Unbind u p s = Inr s' \<Longrightarrow> v \<noteq> u \<Longrightarrow> ListAccounts v s' = ListAccounts v s"
  by (auto simp: Unbind_def ListAccounts_def binding_of_def intro!: delete_first_filter_other split: option.splits)

lemma second_binder_logs_in_as_first:
  assumes "FindByProvider p (sx_OpenID info) s = Inr a" "Bind now v p info s = Inr s'"
  shows "FindByProvider p (sx_OpenID info) s' = Inr a"
  using assms by (auto simp: FindByProvider_def Bind_def Let_def find_append split: option.splits if_splits)

end
