(* ===== verification/ApiCodes.thy ===== *)
theory ApiCodes
  imports Main
begin

text \<open>
  The codes of answers, src/pkg/apierror/code.go, and the HTTP statuses that src/internal/pkg/errors/code.go gives them. A code
  that is not in the table has the status 500.
\<close>

definition CodeSuccess :: int where "CodeSuccess = 0"
definition CodeSystemErr :: int where "CodeSystemErr = 1000"
definition CodeParamErr :: int where "CodeParamErr = 1001"
definition CodeNotFound :: int where "CodeNotFound = 1002"
definition CodeUnauth :: int where "CodeUnauth = 1003"
definition CodeForbidden :: int where "CodeForbidden = 1004"
definition CodeConflict :: int where "CodeConflict = 1006"

definition CodeHTTPStatus :: "int \<Rightarrow> int" where
  "CodeHTTPStatus code =
    (case map_of [(0, 200), (- 1, 500), (1000, 500), (1001, 400), (1002, 404), (1003, 401), (1004, 403), (1005, 429),
       (1006, 409), (1007, 504), (1008, 502)] code of
       Some status \<Rightarrow> status | None \<Rightarrow> 500)"

end
