(* ===== verification/AuthModule.thy ===== *)
theory AuthModule
  imports Users Tokens Rbac Social ApiCodes
begin

text \<open>
  src/internal/modules/auth/module.go: the HTTP module that puts the user store, the token service, the
  blacklist, the roles, the API keys and the social accounts together, with the answers of
  src/internal/pkg/response; the codes are those of ApiCodes.

  The module is the one a process without databases starts: \<open>Init\<close> with all stores in memory. A handler is a
  function from the request and the module to the answer and the module; gin's part is the route, the
  body it decoded (\<^const>\<open>None\<close> when it is not JSON of the right shape) and the two middlewares in front of the handler.
  bcrypt, the JWT library, SHA-256, \<open>time.ParseDuration\<close> and the providers are parameters; the clock and
  the random bytes of a request come with it.
\<close>

section \<open>Answers\<close>

datatype reason =
    NoReason
  | BadBody
  | MissingParam
  | BadID
  | BadRole string
  | UnknownProvider string
  | BadCredentials
  | BadToken
  | SigningFailed
  | CreateFailed
  | ProviderFailed
  | OfUser user_error
  | OfToken token_error
  | OfSocial social_error
  | OfKey apikey_error

text \<open>The fields of a user that the handlers write out.\<close>

record profile =
  pf_id :: nat
  pf_username :: string
  pf_nickname :: string
  pf_email :: string
  pf_avatar_url :: string
  pf_phone :: string

definition profile_of :: "User \<Rightarrow> profile" where
  "profile_of u = \<lparr>pf_id = user_ID u, pf_username = user_Username u, pf_nickname = user_Nickname u,
     pf_email = user_Email u, pf_avatar_url = user_AvatarURL u, pf_phone = user_Phone u\<rparr>"

text \<open>JSON leaves out the password of a user and the hash of a key.\<close>

definition hide_password :: "User \<Rightarrow> User" where
  "hide_password u = u\<lparr>user_Password := []\<rparr>"

definition hide_hash :: "ApiKey \<Rightarrow> ApiKey" where
  "hide_hash k = k\<lparr>ak_KeyHash := []\<rparr>"

datatype payload =
    PPair TokenPair
  | PLink string string string
  | PMessage
  | PMe nat string string "string list"
  | PProfile profile
  | PUser profile UserStatus
  | PDetail profile UserStatus instant instant "string list"
  | PUsers "User list" int int int
  | PNewKey nat string string string string "instant option"
  | PAllKeys "ApiKey list" int int int
  | PKeys "ApiKey list"
  | PAccounts "SocialAccount list"

datatype answer = Success payload | Fail int reason | Panicked | NoRoute

section \<open>The module\<close>

record auth_env =
  ae_jwt :: jwt_lib
  ae_gen :: "string \<Rightarrow> string option"
  ae_cmp :: "string \<Rightarrow> string \<Rightarrow> bool"
  ae_sha :: "string \<Rightarrow> 8 word list"
  ae_duration :: "string \<Rightarrow> duration option"

record call_ctx =
  cx_now :: instant
  cx_header :: string
  cx_rand :: "8 word list option"

text \<open>\<open>am_bus\<close>: whether the module has an event bus; \<open>am_events\<close>: what it published, a topic and a user.\<close>

record Module =
  am_svc :: AuthService
  am_user :: InMemoryUserStore
  am_blacklist :: InMemoryBlacklist
  am_bus :: bool
  am_rbac :: InMemoryRBACStore
  am_providers :: "string \<rightharpoonup> SocialProvider"
  am_social :: InMemorySocialStore
  am_apiKeys :: InMemoryApiKeyStore
  am_events :: "(string \<times> nat) list"

record AuthConfig =
  ac_JWTSecret :: string
  ac_JWTExpire :: string
  ac_Wechat :: "SocialProvider option"
  ac_Feishu :: "SocialProvider option"
  ac_QQ :: "SocialProvider option"
  ac_Apple :: "SocialProvider option"
  ac_Huawei :: "SocialProvider option"
  ac_Honor :: "SocialProvider option"

definition RegisterProvider :: "SocialProvider \<Rightarrow> (string \<rightharpoonup> SocialProvider) \<Rightarrow> (string \<rightharpoonup> SocialProvider)" where
  "RegisterProvider p m = m(sp_Name p \<mapsto> p)"

definition registerProviders :: "AuthConfig \<Rightarrow> (string \<rightharpoonup> SocialProvider) \<Rightarrow> (string \<rightharpoonup> SocialProvider)" where
  "registerProviders cfg m =
    fold (\<lambda>x m. case x of None \<Rightarrow> m | Some p \<Rightarrow> RegisterProvider p m)
      [ac_Wechat cfg, ac_Feishu cfg, ac_QQ cfg, ac_Apple cfg, ac_Huawei cfg, ac_Honor cfg] m"

text \<open>\<open>order\<close> is the order in which the map of the default permissions is iterated.\<close>

definition Init :: "auth_env \<Rightarrow> string list \<Rightarrow> AuthConfig \<Rightarrow> Module" where
  "Init E order cfg =
    (let accessExpire = (case ae_duration E (ac_JWTExpire cfg) of None \<Rightarrow> 0 | Some d \<Rightarrow> d);
         accessExpire = (if accessExpire \<le> 0 then 30 * 60 * 1000000000 else accessExpire);
         refreshExpire = 7 * 24 * 3600 * 1000000000
     in \<lparr>am_svc = NewService (ac_JWTSecret cfg) accessExpire refreshExpire [], am_user = NewInMemoryUserStore,
         am_blacklist = NewInMemoryBlacklist, am_bus = False, am_rbac = mem_ensure order NewInMemoryRBACStore,
         am_providers = registerProviders cfg Map.empty, am_social = NewInMemorySocialStore,
         am_apiKeys = NewInMemoryApiKeyStore, am_events = []\<rparr>)"

definition publishEvent :: "string \<Rightarrow> nat \<Rightarrow> Module \<Rightarrow> Module" where
  "publishEvent topic userID m = (if \<not> am_bus m then m else m\<lparr>am_events := am_events m @ [(topic, userID)]\<rparr>)"

text \<open>The roles service: an error of the store is ignored by the module.\<close>

definition assign :: "nat \<Rightarrow> string \<Rightarrow> Module \<Rightarrow> Module" where
  "assign userID role m = (case mem_assign userID role (am_rbac m) of Inl _ \<Rightarrow> m | Inr r \<Rightarrow> m\<lparr>am_rbac := r\<rparr>)"

definition GetRoles :: "Module \<Rightarrow> nat \<Rightarrow> string list" where
  "GetRoles m userID = (case mem_roles (am_rbac m) userID of Inl _ \<Rightarrow> [] | Inr roles \<Rightarrow> roles)"

definition may_admin :: "Module \<Rightarrow> nat \<Rightarrow> bool" where
  "may_admin m userID \<longleftrightarrow> HasPermission (mem_roles (am_rbac m)) (mem_perms (am_rbac m)) userID ''user'' ''admin''"

section \<open>Handlers without a token\<close>

text \<open>The \<open>binding\<close> tags count characters; a decoded string is valid UTF-8.\<close>

definition rune_count :: "string \<Rightarrow> nat" where
  "rune_count s = length (filter (\<lambda>c. of_char c div (64 :: nat) \<noteq> 2) s)"

definition valid_register :: "RegisterRequest \<Rightarrow> bool" where
  "valid_register req \<longleftrightarrow> 3 \<le> rune_count (rr_Username req) \<and> rune_count (rr_Username req) \<le> 32 \<and>
     6 \<le> rune_count (rr_Password req) \<and> rune_count (rr_Password req) \<le> 128"

definition issue :: "auth_env \<Rightarrow> call_ctx \<Rightarrow> nat \<Rightarrow> string \<Rightarrow> string option \<Rightarrow> Module \<Rightarrow> answer \<times> Module" where
  "issue E cx userID username topic m =
    (case GenerateTokenPair (ae_jwt E) (am_svc m) (cx_now cx) userID username of
       Inl _ \<Rightarrow> (Fail CodeSystemErr SigningFailed, m)
     | Inr pair \<Rightarrow> (Success (PPair pair), case topic of None \<Rightarrow> m | Some t \<Rightarrow> publishEvent t userID m))"

definition register :: "auth_env \<Rightarrow> call_ctx \<Rightarrow> RegisterRequest option \<Rightarrow> Module \<Rightarrow> answer \<times> Module" where
  "register E cx body m =
    (case body of
       None \<Rightarrow> (Fail CodeParamErr BadBody, m)
     | Some req \<Rightarrow>
         if \<not> valid_register req then (Fail CodeParamErr BadBody, m)
         else case CreateUser (ae_gen E) (cx_now cx) req (am_user m) of
           Inl e \<Rightarrow> (Fail CodeConflict (OfUser e), m)
         | Inr (user, us) \<Rightarrow>
             issue E cx (user_ID user) (user_Username user) (Some ''user.registered'')
               (assign (user_ID user) RoleUser (m\<lparr>am_user := us\<rparr>)))"

definition login :: "auth_env \<Rightarrow> call_ctx \<Rightarrow> (string \<times> string) option \<Rightarrow> Module \<Rightarrow> answer \<times> Module" where
  "login E cx body m =
    (case body of
       None \<Rightarrow> (Fail CodeParamErr BadBody, m)
     | Some (username, password) \<Rightarrow>
         if username = [] \<or> password = [] then (Fail CodeParamErr BadBody, m)
         else case VerifyPassword (ae_cmp E) username password (am_user m) of
           Inl _ \<Rightarrow> (Fail CodeUnauth BadCredentials, m)
         | Inr user \<Rightarrow> issue E cx (user_ID user) (user_Username user) (Some ''user.login'') m)"

definition refresh :: "auth_env \<Rightarrow> call_ctx \<Rightarrow> string option \<Rightarrow> Module \<Rightarrow> answer \<times> Module" where
  "refresh E cx body m =
    (case body of
       None \<Rightarrow> (Fail CodeParamErr MissingParam, m)
     | Some refreshToken \<Rightarrow>
         if refreshToken = [] then (Fail CodeParamErr MissingParam, m)
         else case RefreshAccessToken (ae_jwt E) (am_svc m) (cx_now cx) refreshToken of
           Inl e \<Rightarrow> (Fail CodeUnauth (OfToken e), m)
         | Inr pair \<Rightarrow> (Success (PPair pair), m))"

definition authURL :: "call_ctx \<Rightarrow> SocialProvider \<Rightarrow> Module \<Rightarrow> answer \<times> Module" where
  "authURL cx p m = (let state = fmt_int (cx_now cx) in (Success (PLink (sp_Name p) (sp_AuthURL p state) state), m))"

text \<open>
  The slice \<open>userInfo.OpenID[:8]\<close> panics on a shorter identifier.
\<close>

definition callback :: "auth_env \<Rightarrow> call_ctx \<Rightarrow> SocialProvider \<Rightarrow> string \<Rightarrow> Module \<Rightarrow> answer \<times> Module" where
  "callback E cx p code m =
    (if code = [] then (Fail CodeParamErr MissingParam, m)
     else case sp_Exchange p code of
       None \<Rightarrow> (Fail CodeSystemErr ProviderFailed, m)
     | Some accessToken \<Rightarrow> (case sp_GetUserInfo p accessToken of
         None \<Rightarrow> (Fail CodeSystemErr ProviderFailed, m)
       | Some userInfo \<Rightarrow> (case FindByProvider (sp_Name p) (sx_OpenID userInfo) (am_social m) of
           Inr existing \<Rightarrow> issue E cx (sa_UserID existing) (sx_Nickname userInfo) None m
         | Inl _ \<Rightarrow>
             if length (sx_OpenID userInfo) < 8 then (Panicked, m)
             else case CreateUser (ae_gen E) (cx_now cx)
                 \<lparr>rr_Username = sp_Name p @ ''_'' @ take 8 (sx_OpenID userInfo),
                  rr_Password = ''oauth_'' @ sp_Name p @ ''_'' @ fmt_int (cx_now cx div 1000000000),
                  rr_Nickname = sx_Nickname userInfo\<rparr> (am_user m) of
               Inl _ \<Rightarrow> (Fail CodeSystemErr CreateFailed, m)
             | Inr (user, us) \<Rightarrow>
                 let m1 = m\<lparr>am_user := us\<rparr>;
                     m2 = (case Bind (cx_now cx) (user_ID user) (sp_Name p) userInfo (am_social m1) of
                             Inl _ \<Rightarrow> m1 | Inr ss \<Rightarrow> m1\<lparr>am_social := ss\<rparr>)
                 in issue E cx (user_ID user) (user_Username user) (Some ''user.registered'')
                      (assign (user_ID user) RoleUser m2))))"

section \<open>Handlers of a logged-in user\<close>

definition bind_account ::
  "call_ctx \<Rightarrow> string \<Rightarrow> string option \<Rightarrow> nat \<Rightarrow> Module \<Rightarrow> answer \<times> Module" where
  "bind_account cx name body userID m =
    (case am_providers m name of
       None \<Rightarrow> (Fail CodeParamErr (UnknownProvider name), m)
     | Some p \<Rightarrow>
         if body = None \<or> body = Some [] then (Fail CodeParamErr MissingParam, m)
         else case sp_Exchange p (the body) of
           None \<Rightarrow> (Fail CodeSystemErr ProviderFailed, m)
         | Some accessToken \<Rightarrow> (case sp_GetUserInfo p accessToken of
             None \<Rightarrow> (Fail CodeSystemErr ProviderFailed, m)
           | Some userInfo \<Rightarrow> (case Bind (cx_now cx) userID name userInfo (am_social m) of
               Inl e \<Rightarrow> (Fail CodeConflict (OfSocial e), m)
             | Inr ss \<Rightarrow> (Success PMessage, m\<lparr>am_social := ss\<rparr>))))"

definition unbind_account :: "string \<Rightarrow> nat \<Rightarrow> Module \<Rightarrow> answer \<times> Module" where
  "unbind_account name userID m =
    (case Unbind userID name (am_social m) of
       Inl e \<Rightarrow> (Fail CodeNotFound (OfSocial e), m)
     | Inr ss \<Rightarrow> (Success PMessage, m\<lparr>am_social := ss\<rparr>))"

definition log_out :: "auth_env \<Rightarrow> call_ctx \<Rightarrow> nat \<Rightarrow> Module \<Rightarrow> answer \<times> Module" where
  "log_out E cx userID m =
    (Success PMessage, publishEvent ''user.logout'' userID
       (m\<lparr>am_blacklist := logout (ae_jwt E) (am_svc m) Revoke (cx_now cx) (cx_header cx) (am_blacklist m)\<rparr>))"

definition me :: "nat \<Rightarrow> Module \<Rightarrow> answer \<times> Module" where
  "me userID m =
    (case FindByID userID (am_user m) of
       Inl _ \<Rightarrow> (Fail CodeNotFound NoReason, m)
     | Inr user \<Rightarrow> (Success (PMe (user_ID user) (user_Username user) (user_Nickname user) (GetRoles m userID)), m))"

definition updateProfile :: "call_ctx \<Rightarrow> UpdateUserRequest option \<Rightarrow> nat \<Rightarrow> Module \<Rightarrow> answer \<times> Module" where
  "updateProfile cx body userID m =
    (case body of
       None \<Rightarrow> (Fail CodeParamErr BadBody, m)
     | Some req \<Rightarrow> (case UpdateUser (cx_now cx) userID req (am_user m) of
         Inl _ \<Rightarrow> (Fail CodeNotFound NoReason, m)
       | Inr (user, us) \<Rightarrow> (Success (PProfile (profile_of user)), m\<lparr>am_user := us\<rparr>)))"

definition changePassword :: "auth_env \<Rightarrow> call_ctx \<Rightarrow> (string \<times> string) option \<Rightarrow> nat \<Rightarrow> Module \<Rightarrow> answer \<times> Module" where
  "changePassword E cx body userID m =
    (case body of
       None \<Rightarrow> (Fail CodeParamErr BadBody, m)
     | Some (old, new) \<Rightarrow>
         if old = [] \<or> \<not> (6 \<le> rune_count new \<and> rune_count new \<le> 128) then (Fail CodeParamErr BadBody, m)
         else case ChangePassword (ae_gen E) (ae_cmp E) (cx_now cx) userID old new (am_user m) of
           Inl e \<Rightarrow> (Fail CodeUnauth (OfUser e), m)
         | Inr us \<Rightarrow> (Success PMessage, m\<lparr>am_user := us\<rparr>))"

definition listAccounts :: "nat \<Rightarrow> Module \<Rightarrow> answer \<times> Module" where
  "listAccounts userID m = (Success (PAccounts (ListAccounts userID (am_social m))), m)"

section \<open>Numbers in queries and paths\<close>

definition parseInt :: "string \<Rightarrow> int \<Rightarrow> int \<times> bool" where
  "parseInt s defaultVal =
    (if s = [] then (defaultVal, True)
     else case scan_d s of
       None \<Rightarrow> (defaultVal, False)
     | Some v \<Rightarrow> (if v \<le> 0 then defaultVal else v, True))"

definition parseUint :: "string \<Rightarrow> nat option" where
  "parseUint s = scan_u s"

section \<open>API keys\<close>

definition createAPIKey :: "auth_env \<Rightarrow> call_ctx \<Rightarrow> (string \<times> string \<times> string) option \<Rightarrow> nat \<Rightarrow> Module \<Rightarrow> answer \<times> Module" where
  "createAPIKey E cx body userID m =
    (case body of
       None \<Rightarrow> (Fail CodeParamErr BadBody, m)
     | Some (name, scopes, expiresIn) \<Rightarrow>
         if name = [] then (Fail CodeParamErr BadBody, m)
         else let scopes = (if scopes = [] then ''*:*'' else scopes);
                  expiresAt = (if expiresIn = [] then None
                    else case ae_duration E expiresIn of
                      None \<Rightarrow> None | Some d \<Rightarrow> if 0 < d then Some (cx_now cx + d) else None)
           in (case GenerateKey (ae_sha E) (cx_rand cx) (cx_now cx) name userID scopes expiresAt (am_apiKeys m) of
                 Inl e \<Rightarrow> (Fail CodeSystemErr (OfKey e), m)
               | Inr ((key, rawKey), ks) \<Rightarrow>
                   (Success (PNewKey (ak_ID key) (ak_Name key) (ak_KeyPrefix key) rawKey (ak_Scopes key) (ak_ExpiresAt key)),
                    m\<lparr>am_apiKeys := ks\<rparr>)))"

definition listAPIKeys :: "string \<Rightarrow> string \<Rightarrow> nat \<Rightarrow> Module \<Rightarrow> answer \<times> Module" where
  "listAPIKeys qpage qsize userID m =
    (if may_admin m userID then
       let page = fst (parseInt qpage 1); pageSize = fst (parseInt qsize 20)
       in (case ListAll page pageSize (am_apiKeys m) of
             Inl _ \<Rightarrow> (Panicked, m)
           | Inr (keys, count) \<Rightarrow> (Success (PAllKeys (map hide_hash keys) count page pageSize), m))
     else (Success (PKeys (map hide_hash (ListByUser userID (am_apiKeys m)))), m))"

definition owns_key :: "Module \<Rightarrow> nat \<Rightarrow> nat \<Rightarrow> bool" where
  "owns_key m userID i \<longleftrightarrow> (\<exists>k \<in> set (ListByUser userID (am_apiKeys m)). ak_ID k = i)"

definition key_updates :: "string option \<Rightarrow> string option \<Rightarrow> string option \<Rightarrow> (string \<rightharpoonup> dyn)" where
  "key_updates name scopes status =
    (let put = (\<lambda>col v u. case v of None \<Rightarrow> u | Some s \<Rightarrow> u(col \<mapsto> DString s))
     in put ''status'' status (put ''scopes'' scopes (put ''name'' name Map.empty)))"

definition updateAPIKey ::
  "call_ctx \<Rightarrow> string \<Rightarrow> (string option \<times> string option \<times> string option) option \<Rightarrow> nat \<Rightarrow> Module \<Rightarrow> answer \<times> Module" where
  "updateAPIKey cx path body userID m =
    (case parseUint path of
       None \<Rightarrow> (Fail CodeParamErr BadID, m)
     | Some i \<Rightarrow>
         if \<not> may_admin m userID \<and> \<not> owns_key m userID i then (Fail CodeForbidden NoReason, m)
         else case body of
           None \<Rightarrow> (Fail CodeParamErr BadBody, m)
         | Some (name, scopes, status) \<Rightarrow>
             (case UpdateKey (cx_now cx) i (key_updates name scopes status) (am_apiKeys m) of
                (None, ks) \<Rightarrow> (Success PMessage, m\<lparr>am_apiKeys := ks\<rparr>)
              | (Some KeyTypePanic, ks) \<Rightarrow> (Panicked, m\<lparr>am_apiKeys := ks\<rparr>)
              | (Some e, ks) \<Rightarrow> (Fail CodeNotFound (OfKey e), m\<lparr>am_apiKeys := ks\<rparr>)))"

definition deleteAPIKey :: "call_ctx \<Rightarrow> string \<Rightarrow> nat \<Rightarrow> Module \<Rightarrow> answer \<times> Module" where
  "deleteAPIKey cx path userID m =
    (case parseUint path of
       None \<Rightarrow> (Fail CodeParamErr BadID, m)
     | Some i \<Rightarrow>
         if \<not> may_admin m userID \<and> \<not> owns_key m userID i then (Fail CodeForbidden NoReason, m)
         else case DeleteKey (cx_now cx) i (am_apiKeys m) of
           (None, ks) \<Rightarrow> (Success PMessage, m\<lparr>am_apiKeys := ks\<rparr>)
         | (Some e, ks) \<Rightarrow> (Fail CodeNotFound (OfKey e), m\<lparr>am_apiKeys := ks\<rparr>))"

section \<open>Handlers of an administrator\<close>

definition listUsers :: "string \<Rightarrow> string \<Rightarrow> string \<Rightarrow> Module \<Rightarrow> answer \<times> Module" where
  "listUsers qpage qsize search m =
    (let page = (case parseInt qpage 1 of (p, ok) \<Rightarrow> if ok then p else 1);
         pageSize = (case parseInt qsize 20 of (ps, ok) \<Rightarrow> if ok then ps else 20)
     in (case ListUsers page pageSize search (am_user m) of
           Inl _ \<Rightarrow> (Panicked, m)
         | Inr (users, count) \<Rightarrow> (Success (PUsers (map hide_password users) count page pageSize), m)))"

definition getUser :: "string \<Rightarrow> Module \<Rightarrow> answer \<times> Module" where
  "getUser path m =
    (case parseUint path of
       None \<Rightarrow> (Fail CodeParamErr BadID, m)
     | Some i \<Rightarrow> (case FindByID i (am_user m) of
         Inl _ \<Rightarrow> (Fail CodeNotFound NoReason, m)
       | Inr user \<Rightarrow> (Success (PDetail (profile_of user) (user_Status user) (user_CreatedAt user) (user_UpdatedAt user)
           (GetRoles m (user_ID user))), m)))"

definition updateUser :: "call_ctx \<Rightarrow> string \<Rightarrow> UpdateUserRequest option \<Rightarrow> Module \<Rightarrow> answer \<times> Module" where
  "updateUser cx path body m =
    (case parseUint path of
       None \<Rightarrow> (Fail CodeParamErr BadID, m)
     | Some i \<Rightarrow> (case body of
         None \<Rightarrow> (Fail CodeParamErr BadBody, m)
       | Some req \<Rightarrow> (case UpdateUser (cx_now cx) i req (am_user m) of
           Inl e \<Rightarrow> (Fail CodeNotFound (OfUser e), m)
         | Inr (user, us) \<Rightarrow> (Success (PUser (profile_of user) (user_Status user)), m\<lparr>am_user := us\<rparr>))))"

definition deleteUser :: "call_ctx \<Rightarrow> string \<Rightarrow> Module \<Rightarrow> answer \<times> Module" where
  "deleteUser cx path m =
    (case parseUint path of
       None \<Rightarrow> (Fail CodeParamErr BadID, m)
     | Some i \<Rightarrow> (case DeleteUser (cx_now cx) i (am_user m) of
         Inl e \<Rightarrow> (Fail CodeNotFound (OfUser e), m)
       | Inr us \<Rightarrow> (Success PMessage, publishEvent ''user.deleted'' i (m\<lparr>am_user := us\<rparr>))))"

definition assignRole :: "(nat \<times> string) option \<Rightarrow> Module \<Rightarrow> answer \<times> Module" where
  "assignRole body m =
    (case body of
       None \<Rightarrow> (Fail CodeParamErr BadBody, m)
     | Some (userID, role) \<Rightarrow>
         if userID = 0 \<or> role = [] then (Fail CodeParamErr BadBody, m)
         else if role \<noteq> RoleAdmin \<and> role \<noteq> RoleUser then (Fail CodeParamErr (BadRole role), m)
         else (Success PMessage, assign userID role m))"

section \<open>Routes\<close>

datatype request =
    ReqRegister "RegisterRequest option"
  | ReqLogin "(string \<times> string) option"
  | ReqRefresh "string option"
  | ReqAuthURL string
  | ReqCallback string string
  | ReqMe
  | ReqProfile "UpdateUserRequest option"
  | ReqPassword "(string \<times> string) option"
  | ReqLogout
  | ReqAccounts
  | ReqBind string "string option"
  | ReqUnbind string
  | ReqUsers string string string
  | ReqGetUser string
  | ReqUpdateUser string "UpdateUserRequest option"
  | ReqDeleteUser string
  | ReqAssignRole "(nat \<times> string) option"
  | ReqCreateKey "(string \<times> string \<times> string) option"
  | ReqListKeys string string
  | ReqUpdateKey string "(string option \<times> string option \<times> string option) option"
  | ReqDeleteKey string

definition authenticate :: "auth_env \<Rightarrow> call_ctx \<Rightarrow> Module \<Rightarrow> nat option \<times> Module" where
  "authenticate E cx m =
    (case AuthRequiredWithBlacklist (ae_jwt E) (am_svc m) (Some IsRevoked) (cx_now cx) (cx_header cx) (am_blacklist m) of
       (c, b) \<Rightarrow> (map_option ctx_user_id c, m\<lparr>am_blacklist := b\<rparr>))"

definition protected :: "auth_env \<Rightarrow> call_ctx \<Rightarrow> (nat \<Rightarrow> Module \<Rightarrow> answer \<times> Module) \<Rightarrow> Module \<Rightarrow> answer \<times> Module" where
  "protected E cx handler m =
    (case authenticate E cx m of
       (None, m') \<Rightarrow> (Fail CodeUnauth BadToken, m')
     | (Some userID, m') \<Rightarrow> handler userID m')"

definition admin :: "auth_env \<Rightarrow> call_ctx \<Rightarrow> (Module \<Rightarrow> answer \<times> Module) \<Rightarrow> Module \<Rightarrow> answer \<times> Module" where
  "admin E cx handler = protected E cx (\<lambda>userID m.
    case RequirePermission (mem_roles (am_rbac m)) (mem_perms (am_rbac m)) ''user'' ''admin'' (Some (CtxUint userID)) of
      MwNext \<Rightarrow> handler m
    | MwForbidden \<Rightarrow> (Fail CodeForbidden NoReason, m)
    | MwUnauth \<Rightarrow> (Fail CodeUnauth NoReason, m))"

definition with_provider :: "string \<Rightarrow> (SocialProvider \<Rightarrow> Module \<Rightarrow> answer \<times> Module) \<Rightarrow> Module \<Rightarrow> answer \<times> Module" where
  "with_provider name handler m = (case am_providers m name of None \<Rightarrow> (NoRoute, m) | Some p \<Rightarrow> handler p m)"

fun serve :: "auth_env \<Rightarrow> call_ctx \<Rightarrow> request \<Rightarrow> Module \<Rightarrow> answer \<times> Module" where
  "serve E cx (ReqRegister body) m = register E cx body m"
| "serve E cx (ReqLogin body) m = login E cx body m"
| "serve E cx (ReqRefresh body) m = refresh E cx body m"
| "serve E cx (ReqAuthURL name) m = with_provider name (authURL cx) m"
| "serve E cx (ReqCallback name code) m = with_provider name (\<lambda>p. callback E cx p code) m"
| "serve E cx ReqMe m = protected E cx me m"
| "serve E cx (ReqProfile body) m = protected E cx (updateProfile cx body) m"
| "serve E cx (ReqPassword body) m = protected E cx (changePassword E cx body) m"
| "serve E cx ReqLogout m = protected E cx (log_out E cx) m"
| "serve E cx ReqAccounts m = protected E cx listAccounts m"
| "serve E cx (ReqBind name body) m = with_provider name (\<lambda>_. protected E cx (bind_account cx name body)) m"
| "serve E cx (ReqUnbind name) m = with_provider name (\<lambda>_. protected E cx (unbind_account name)) m"
| "serve E cx (ReqUsers page sz search) m = admin E cx (listUsers page sz search) m"
| "serve E cx (ReqGetUser path) m = admin E cx (getUser path) m"
| "serve E cx (ReqUpdateUser path body) m = admin E cx (updateUser cx path body) m"
| "serve E cx (ReqDeleteUser path) m = admin E cx (deleteUser cx path) m"
| "serve E cx (ReqAssignRole body) m = admin E cx (assignRole body) m"
| "serve E cx (ReqCreateKey body) m = protected E cx (createAPIKey E cx body) m"
| "serve E cx (ReqListKeys page sz) m = protected E cx (listAPIKeys page sz) m"
| "serve E cx (ReqUpdateKey path body) m = protected E cx (updateAPIKey cx path body) m"
| "serve E cx (ReqDeleteKey path) m = protected E cx (deleteAPIKey cx path) m"

fun serve_all :: "auth_env \<Rightarrow> (call_ctx \<times> request) list \<Rightarrow> Module \<Rightarrow> Module" where
  "serve_all E [] m = m"
| "serve_all E ((cx, r) # rs) m = serve_all E rs (snd (serve E cx r m))"

end
