(* ===== verification/AuthPolicy.thy ===== *)
theory AuthPolicy
  imports AuthModule
begin

text \<open>
  What the module of \<open>AuthModule\<close> lets a request do. \<open>policy\<close> is the abstract specification: the changes that a
  request of a user may make to the stores, as a relation between two states of the module.
  \<open>serve_policy\<close> shows that every request makes at most one of them; the properties about who can change what
  are proved on the relation.
\<close>

definition stores :: "Module \<Rightarrow> InMemoryUserStore \<times> InMemoryRBACStore \<times> InMemorySocialStore \<times> InMemoryApiKeyStore" where
  "stores m = (am_user m, am_rbac m, am_social m, am_apiKeys m)"

lemma stores_simps [simp]:
  "stores (m\<lparr>am_blacklist := b\<rparr>) = stores m"
  "stores (m\<lparr>am_user := us\<rparr>) = (us, am_rbac m, am_social m, am_apiKeys m)"
  "stores (m\<lparr>am_rbac := rb\<rparr>) = (am_user m, rb, am_social m, am_apiKeys m)"
  "stores (m\<lparr>am_social := ss\<rparr>) = (am_user m, am_rbac m, ss, am_apiKeys m)"
  "stores (m\<lparr>am_apiKeys := ks\<rparr>) = (am_user m, am_rbac m, am_social m, ks)"
  "stores (publishEvent t u m) = stores m"
  by (simp_all add: stores_def publishEvent_def)

fun user_target :: "user_edit \<Rightarrow> nat" where
  "user_target (EUpdate now i req) = i"
| "user_target (EDelete now i) = i"
| "user_target (EPassword gen cmp now i old new) = i"

fun key_target :: "key_edit \<Rightarrow> nat option" where
  "key_target (KUpdate now i updates) = Some i"
| "key_target (KDelete now i) = Some i"
| "key_target (KValidate sha now rawKey) = None"

text \<open>
  \<open>policy actor m m'\<close>: the request of \<open>actor\<close> (\<^const>\<open>None\<close> without a token) may take \<open>m\<close> to \<open>m'\<close>. An account can be created by
  anybody, with the role \<open>user\<close>; accounts, keys and third-party accounts are changed by their owner;
  an administrator changes every account, key and role.
\<close>

inductive policy :: "nat option \<Rightarrow> Module \<Rightarrow> Module \<Rightarrow> bool" for actor :: "nat option" and m :: Module where
  p_none: "stores m' = stores m \<Longrightarrow> policy actor m m'"
| p_new: "CreateUser gen now req (am_user m) = Inr (u, us) \<Longrightarrow>
    ss = am_social m \<or> Bind now (user_ID u) p info (am_social m) = Inr ss \<Longrightarrow>
    mem_assign (user_ID u) RoleUser (am_rbac m) = Inr rb \<Longrightarrow>
    stores m' = (us, rb, ss, am_apiKeys m) \<Longrightarrow> policy actor m m'"
| p_user: "actor = Some i \<Longrightarrow> user_target e = i \<or> may_admin m i \<Longrightarrow>
    stores m' = (user_edit e (am_user m), am_rbac m, am_social m, am_apiKeys m) \<Longrightarrow> policy actor m m'"
| p_role: "actor = Some i \<Longrightarrow> may_admin m i \<Longrightarrow> mem_assign j r (am_rbac m) = Inr rb \<Longrightarrow>
    stores m' = (am_user m, rb, am_social m, am_apiKeys m) \<Longrightarrow> policy actor m m'"
| p_bind: "actor = Some i \<Longrightarrow> Bind now i p info (am_social m) = Inr ss \<or> Unbind i p (am_social m) = Inr ss \<Longrightarrow>
    stores m' = (am_user m, am_rbac m, ss, am_apiKeys m) \<Longrightarrow> policy actor m m'"
| p_key: "actor = Some i \<Longrightarrow> CreateKey now key (am_apiKeys m) = (key', ks) \<Longrightarrow> ak_UserID key = i \<Longrightarrow>
    stores m' = (am_user m, am_rbac m, am_social m, ks) \<Longrightarrow> policy actor m m'"
| p_edit_key: "actor = Some i \<Longrightarrow> key_target e = Some k \<Longrightarrow> owns_key m i k \<or> may_admin m i \<Longrightarrow>
    stores m' = (am_user m, am_rbac m, am_social m, key_edit e (am_apiKeys m)) \<Longrightarrow> policy actor m m'"

section \<open>Every request follows the policy\<close>

lemma assign_RoleUser: "mem_assign u RoleUser s = Inr (s\<lparr>mem_userRoles := (mem_userRoles s)(u := [RoleUser])\<rparr>)"
  by (simp add: mem_assign_def)

lemma issue_stores [simp]: "stores (snd (issue E cx u n t m)) = stores m"
  by (auto simp: issue_def split: sum.split option.split)

lemma stores_assign:
  "stores (assign u r m) = (case mem_assign u r (am_rbac m) of Inl _ \<Rightarrow> stores m | Inr rb \<Rightarrow> (am_user m, rb, am_social m, am_apiKeys m))"
  by (auto simp: assign_def stores_def split: sum.split)

lemma register_policy: "policy actor m (snd (register E cx body m))"
proof (cases "stores (snd (register E cx body m)) = stores m")
  case False
  then obtain req u us where "CreateUser (ae_gen E) (cx_now cx) req (am_user m) = Inr (u, us)"
    "stores (snd (register E cx body m)) = stores (assign (user_ID u) RoleUser (m\<lparr>am_user := us\<rparr>))"
    by (auto simp: register_def split: option.splits sum.splits if_splits)
  then show ?thesis
    by (intro p_new [where ss = "am_social m"]) (auto simp: stores_assign assign_RoleUser)
qed (rule p_none)

lemma callback_policy: "policy actor m (snd (callback E cx p code m))"
proof (cases "stores (snd (callback E cx p code m)) = stores m")
  case False
  then obtain info req u us where c: "CreateUser (ae_gen E) (cx_now cx) req (am_user m) = Inr (u, us)"
    and m': "stores (snd (callback E cx p code m)) = stores (assign (user_ID u) RoleUser
      (case Bind (cx_now cx) (user_ID u) (sp_Name p) info (am_social m) of
         Inl _ \<Rightarrow> m\<lparr>am_user := us\<rparr> | Inr ss \<Rightarrow> m\<lparr>am_user := us, am_social := ss\<rparr>))"
    by (auto simp: callback_def Let_def split: option.splits sum.splits if_splits)
  show ?thesis
  proof (cases "Bind (cx_now cx) (user_ID u) (sp_Name p) info (am_social m)")
    case (Inl e)
    with m' show ?thesis
      by (intro p_new [OF c, where ss = "am_social m"]) (auto simp: stores_assign assign_RoleUser)
  next
    case (Inr ss)
    with m' show ?thesis
      by (intro p_new [OF c, where ss = ss and p = "sp_Name p" and info = info]) (auto simp: stores_assign assign_RoleUser)
  qed
qed (rule p_none)

lemma user_edit_eqs:
  "UpdateUser now i req s = Inr (u, s') \<Longrightarrow> s' = user_edit (EUpdate now i req) s"
  "DeleteUser now i s = Inr s' \<Longrightarrow> s' = user_edit (EDelete now i) s"
  "ChangePassword gen cmp now i old new s = Inr s' \<Longrightarrow> s' = user_edit (EPassword gen cmp now i old new) s"
  by (simp_all add: user_edit_def)

lemma key_edit_eqs:
  "UpdateKey now i ups s = (r, s') \<Longrightarrow> s' = key_edit (KUpdate now i ups) s"
  "DeleteKey now i s = (r, s') \<Longrightarrow> s' = key_edit (KDelete now i) s"
  by (simp_all add: key_edit_def)

lemma p_edits:
  "policy (Some i) m (m\<lparr>am_user := user_edit (EUpdate now i req) (am_user m)\<rparr>)"
  "policy (Some i) m (m\<lparr>am_user := user_edit (EPassword gen cmp now i old new) (am_user m)\<rparr>)"
  "may_admin m i \<Longrightarrow> policy (Some i) m (m\<lparr>am_user := user_edit e (am_user m)\<rparr>)"
  "may_admin m i \<Longrightarrow> policy (Some i) m (publishEvent t k (m\<lparr>am_user := user_edit e (am_user m)\<rparr>))"
  by (rule p_user [OF refl]; simp)+

lemma p_key_edits:
  assumes "owns_key m i k \<or> may_admin m i"
  shows "policy (Some i) m (m\<lparr>am_apiKeys := key_edit (KUpdate now k ups) (am_apiKeys m)\<rparr>)"
    and "policy (Some i) m (m\<lparr>am_apiKeys := key_edit (KDelete now k) (am_apiKeys m)\<rparr>)"
  by (rule p_edit_key [OF refl _ assms]; simp)+

lemma p_assign: "may_admin m i \<Longrightarrow> policy (Some i) m (assign j r m)"
  by (cases "mem_assign j r (am_rbac m)") (auto simp: stores_assign intro: p_none p_role)

lemma p_generate:
  "GenerateKey sha rnd now name i scopes e (am_apiKeys m) = Inr (k, ks) \<Longrightarrow> policy (Some i) m (m\<lparr>am_apiKeys := ks\<rparr>)"
  by (cases k) (auto simp: GenerateKey_def Let_def intro: p_key [OF refl] split: option.splits prod.splits)

named_theorems handlers

lemma updateProfile_policy [handlers]: "policy (Some i) m (snd (updateProfile cx body i m))"
  by (auto simp: updateProfile_def dest!: user_edit_eqs intro: p_none p_edits split: option.split sum.split)

lemma changePassword_policy [handlers]: "policy (Some i) m (snd (changePassword E cx body i m))"
  by (auto simp: changePassword_def dest!: user_edit_eqs intro: p_none p_edits split: option.split sum.split)

lemma bind_policy [handlers]: "policy (Some i) m (snd (bind_account cx name body i m))"
  by (auto simp: bind_account_def intro: p_none p_bind split: option.split sum.split)

lemma unbind_policy [handlers]: "policy (Some i) m (snd (unbind_account name i m))"
  by (auto simp: unbind_account_def intro: p_none p_bind split: sum.split)

lemma reading_policy [handlers]:
  "policy (Some i) m (snd (me i m))" "policy (Some i) m (snd (listAccounts i m))"
  "policy (Some i) m (snd (log_out E cx i m))" "policy (Some i) m (snd (listAPIKeys page sz i m))"
  by (auto simp: me_def listAccounts_def log_out_def listAPIKeys_def Let_def intro!: p_none split: sum.split)

lemma createAPIKey_policy [handlers]: "policy (Some i) m (snd (createAPIKey E cx body i m))"
  by (auto simp: createAPIKey_def Let_def simp del: stores_simps intro: p_none p_generate split: option.split sum.split prod.split)

lemma updateAPIKey_policy [handlers]: "policy (Some i) m (snd (updateAPIKey cx path body i m))"
  by (auto simp: updateAPIKey_def dest!: key_edit_eqs intro: p_none p_key_edits
      split: option.split prod.split apikey_error.split)

lemma deleteAPIKey_policy [handlers]: "policy (Some i) m (snd (deleteAPIKey cx path i m))"
  by (auto simp: deleteAPIKey_def dest!: key_edit_eqs intro: p_none p_key_edits split: option.split prod.split)

lemma admin_policy [handlers]:
  assumes "may_admin m i"
  shows "policy (Some i) m (snd (listUsers page sz search m))" "policy (Some i) m (snd (getUser path m))"
    "policy (Some i) m (snd (updateUser cx path ubody m))" "policy (Some i) m (snd (deleteUser cx path m))"
    "policy (Some i) m (snd (assignRole rbody m))"
proof -
  show "policy (Some i) m (snd (listUsers page sz search m))" "policy (Some i) m (snd (getUser path m))"
    by (auto simp: listUsers_def getUser_def Let_def intro!: p_none split: prod.split option.split sum.split)
  show "policy (Some i) m (snd (updateUser cx path ubody m))" "policy (Some i) m (snd (deleteUser cx path m))"
    using assms by (auto simp: updateUser_def deleteUser_def dest!: user_edit_eqs intro: p_none p_edits
      split: option.split sum.split)
  show "policy (Some i) m (snd (assignRole rbody m))"
    using assms by (auto simp: assignRole_def intro: p_none p_assign split: option.split prod.split)
qed

text \<open>The middleware touches the blacklist only.\<close>

lemma may_admin_stores: "stores m' = stores m \<Longrightarrow> may_admin m' = may_admin m"
  by (simp add: may_admin_def stores_def fun_eq_iff)

lemma owns_key_stores: "stores m' = stores m \<Longrightarrow> owns_key m' = owns_key m"
  by (simp add: owns_key_def stores_def fun_eq_iff)

lemma policy_stores:
  assumes "stores m1 = stores m" "policy a m1 m'"
  shows "policy a m m'"
proof -
  note eqs = may_admin_stores [OF assms(1)] owns_key_stores [OF assms(1)]
  have s: "am_user m1 = am_user m" "am_rbac m1 = am_rbac m" "am_social m1 = am_social m" "am_apiKeys m1 = am_apiKeys m"
    using assms(1) by (simp_all add: stores_def)
  show ?thesis using assms(2)
  proof cases
    case p_none
    with assms(1) show ?thesis by (intro policy.p_none) simp
  next
    case p_new
    with s show ?thesis by (intro policy.p_new) simp_all
  next
    case p_user
    with s eqs show ?thesis by (intro policy.p_user) simp_all
  next
    case p_role
    with s eqs show ?thesis by (intro policy.p_role) simp_all
  next
    case p_bind
    with s show ?thesis by (intro policy.p_bind) simp_all
  next
    case p_key
    with s show ?thesis by (intro policy.p_key) simp_all
  next
    case p_edit_key
    with s eqs show ?thesis by (intro policy.p_edit_key) simp_all
  qed
qed

definition public :: "request \<Rightarrow> bool" where
  "public r = (case r of ReqRegister _ \<Rightarrow> True | ReqLogin _ \<Rightarrow> True | ReqRefresh _ \<Rightarrow> True | ReqAuthURL _ \<Rightarrow> True
     | ReqCallback _ _ \<Rightarrow> True | _ \<Rightarrow> False)"

text \<open>The user on whose behalf a request runs.\<close>

definition actor :: "auth_env \<Rightarrow> call_ctx \<Rightarrow> request \<Rightarrow> Module \<Rightarrow> nat option" where
  "actor E cx r m = (if public r then None else fst (authenticate E cx m))"

lemma authenticate_stores: "stores (snd (authenticate E cx m)) = stores m"
  by (simp add: authenticate_def split: prod.split)

lemma protected_policy:
  assumes "\<And>i m. policy (Some i) m (snd (h i m))"
  shows "policy (fst (authenticate E cx m)) m (snd (protected E cx h m))"
proof (cases "authenticate E cx m")
  case (Pair c m1)
  then have m1: "stores m1 = stores m" using authenticate_stores [of E cx m] by simp
  then show ?thesis
    using Pair policy_stores [OF m1 assms] by (cases c) (simp_all add: protected_def p_none)
qed

lemma admin_policy_route:
  assumes "\<And>i m. may_admin m i \<Longrightarrow> policy (Some i) m (snd (h m))"
  shows "policy (fst (authenticate E cx m)) m (snd (admin E cx h m))"
  unfolding admin_def
  by (rule protected_policy) (auto simp: RequirePermission_def may_admin_def intro: assms p_none split: mw_result.split)

lemma serve_policy: "policy (actor E cx r m) m (snd (serve E cx r m))"
proof (cases r)
  case (ReqRegister body)
  then show ?thesis by (simp add: register_policy)
next
  case (ReqCallback name code)
  then show ?thesis by (auto simp: with_provider_def intro: callback_policy p_none split: option.split)
next
  case (ReqLogin body)
  then show ?thesis by (auto simp: login_def intro!: p_none split: option.split sum.split)
next
  case (ReqRefresh body)
  then show ?thesis by (auto simp: refresh_def intro!: p_none split: option.split sum.split)
next
  case (ReqAuthURL name)
  then show ?thesis by (auto simp: with_provider_def authURL_def Let_def intro!: p_none split: option.split)
qed (auto simp: actor_def public_def with_provider_def
      intro!: protected_policy admin_policy_route handlers intro: p_none split: option.split)

end
