(* ===== verification/AuthSafety.thy ===== *)
theory AuthSafety
  imports AuthPolicy
begin

text \<open>
  Properties of the authentication module over histories of requests: well-formedness, what a user can do to
  another, who becomes an administrator, what deletion and logging out reach, and where third-party
  logins collide.
\<close>

section \<open>Histories\<close>

lemma CreateUser_Inr:
  assumes "CreateUser gen now req s = Inr (u, s')"
  shows "us_users s' = us_users s @ [u] \<and> us_seq s' = Suc (us_seq s) \<and> user_ID u = Suc (us_seq s) \<and>
    user_Username u = rr_Username req \<and> user_DeletedAt u = None \<and> user_Status u = UserStatusActive \<and>
    gen (rr_Password req) = Some (user_Password u)"
  using assms by (auto simp: CreateUser_def Let_def split: if_splits option.splits)

definition module_ok :: "Module \<Rightarrow> bool" where
  "module_ok m \<longleftrightarrow> users_wf (am_user m) \<and> ks.ids_ok (am_apiKeys m) \<and> mem_installed (am_rbac m)"

lemma storesD:
  assumes "stores m' = (us, rb, ss, ks)"
  shows "am_user m' = us" "am_rbac m' = rb" "am_social m' = ss" "am_apiKeys m' = ks"
  using assms by (simp_all add: stores_def)

lemma create_wf: "users_wf s \<Longrightarrow> CreateUser gen now req s = Inr (u, s') \<Longrightarrow> users_wf s'"
  using users_wf_call [of s "Inl (gen, now, req)"] by (simp add: us.call_def user_create_def)

lemma edit_wf: "users_wf s \<Longrightarrow> users_wf (user_edit e s)"
  using users_wf_call [of s "Inr e"] by (simp add: us.call_def)

lemma policy_ok:
  assumes "policy a m m'" "module_ok m"
  shows "module_ok m'"
  using assms
proof cases
  case p_none
  with assms(2) show ?thesis by (simp add: module_ok_def stores_def)
next
  case (p_new gen now req u us ss p info rb)
  note s = storesD [OF p_new(4)]
  from p_new(3) assms(2) have "mem_installed rb" by (auto simp: module_ok_def intro: mem.assign_installed)
  with p_new(1) assms(2) s show ?thesis by (auto simp: module_ok_def intro: create_wf)
next
  case (p_user i e)
  with assms(2) storesD [OF p_user(3)] show ?thesis by (simp add: module_ok_def edit_wf)
next
  case (p_role i j r rb)
  with assms(2) storesD [OF p_role(4)] show ?thesis by (auto simp: module_ok_def intro: mem.assign_installed)
next
  case (p_bind i now p info ss)
  with assms(2) storesD [OF p_bind(3)] show ?thesis by (simp add: module_ok_def)
next
  case (p_key i now key key' ks)
  then have "key_create (now, key) (am_apiKeys m) = Some ks" by (simp add: key_create_def)
  with assms(2) storesD [OF p_key(4)] show ?thesis by (auto simp: module_ok_def intro: ks.create_ids_ok)
next
  case (p_edit_key i e k)
  with assms(2) storesD [OF p_edit_key(4)] show ?thesis by (simp add: module_ok_def ks.edit_ids_ok)
qed

lemma module_ok_serve: "module_ok m \<Longrightarrow> module_ok (snd (serve E cx r m))"
  using policy_ok [OF serve_policy] .

lemma module_ok_all: "module_ok m \<Longrightarrow> module_ok (serve_all E rs m)"
  by (induction E rs m rule: serve_all.induct) (simp_all add: module_ok_serve)

lemma module_ok_Init: "{''admin'', ''user''} \<subseteq> set order \<Longrightarrow> module_ok (Init E order cfg)"
  by (simp add: module_ok_def Init_def Let_def users_wf_new mem_ensure_new ks.ids_ok_def NewInMemoryApiKeyStore_def)

text \<open>
  A history: a fresh module, then requests and appointments, the administrators whom the operator appoints in the store
  (no route of the module appoints the first one).
\<close>

datatype event = Appoint nat | Request call_ctx request

definition happen :: "auth_env \<Rightarrow> event \<Rightarrow> Module \<Rightarrow> Module" where
  "happen E e m = (case e of Appoint u \<Rightarrow> assign u RoleAdmin m | Request cx r \<Rightarrow> snd (serve E cx r m))"

definition after :: "auth_env \<Rightarrow> string list \<Rightarrow> AuthConfig \<Rightarrow> event list \<Rightarrow> Module" where
  "after E order cfg es = fold (happen E) es (Init E order cfg)"

lemma module_ok_assign: "module_ok m \<Longrightarrow> module_ok (assign u r m)"
  by (auto simp: module_ok_def assign_def split: sum.split intro: mem.assign_installed)

lemma module_ok_happen: "module_ok m \<Longrightarrow> module_ok (happen E e m)"
  by (simp add: happen_def module_ok_assign module_ok_serve split: event.split)

lemma module_ok_fold: "module_ok m \<Longrightarrow> module_ok (fold (happen E) es m)"
  by (induction es arbitrary: m) (simp_all add: module_ok_happen)

lemma history_ok: "{''admin'', ''user''} \<subseteq> set order \<Longrightarrow> module_ok (after E order cfg es)"
  unfolding after_def by (intro module_ok_fold module_ok_Init)

section \<open>What a user can do to another\<close>

text \<open>What user \<open>j\<close> has: the record, the roles, the API keys and the bound accounts.\<close>

definition belongings :: "nat \<Rightarrow> Module \<Rightarrow> User list \<times> string list \<times> ApiKey list \<times> SocialAccount list" where
  "belongings j m = (filter (\<lambda>u. user_ID u = j) (us_users (am_user m)), mem_userRoles (am_rbac m) j,
     filter (\<lambda>k. ak_UserID k = j) (ks_keys (am_apiKeys m)), ListAccounts j (am_social m))"

lemma filter_update_first_other:
  "(\<And>x. x \<in> set xs \<Longrightarrow> p x \<Longrightarrow> \<not> q x \<and> \<not> q (f x)) \<Longrightarrow> filter q (update_first p f xs) = filter q xs"
  by (induction xs) auto

lemma user_edit_other:
  assumes "user_target e \<noteq> j"
  shows "filter (\<lambda>u. user_ID u = j) (us_users (user_edit e s)) = filter (\<lambda>u. user_ID u = j) (us_users s)"
  using assms by (cases e) (auto simp: user_edit_def UpdateUser_def DeleteUser_def ChangePassword_def live_id_def
      intro!: filter_update_first_other split: option.split sum.split)

lemma key_edit_other:
  assumes "ks.ids_ok s" "key_target e = Some i" "k \<in> set (ks_keys s)" "ak_ID k = i" "ak_UserID k \<noteq> j"
  shows "filter (\<lambda>k. ak_UserID k = j) (ks_keys (key_edit e s)) = filter (\<lambda>k. ak_UserID k = j) (ks_keys s)"
proof -
  have own: "x = k" if "x \<in> set (ks_keys s)" "live_key i x" for x
    using ks.ids_distinct [OF assms(1)] that assms(3,4) by (auto simp: live_key_def dest: distinct_map_eq)
  obtain f where "keeps_key_id f" "ks_keys (key_edit e s) = update_first (live_key i) f (ks_keys s)"
  proof (cases e)
    case (KUpdate now i' updates)
    with assms(2) UpdateKey_rewrite [of now i updates s] that show ?thesis by (auto simp: key_edit_def)
  next
    case (KDelete now i')
    with assms(2) show ?thesis
      by (intro that [of "\<lambda>k. k\<lparr>ak_DeletedAt := Some now\<rparr>"])
        (auto simp: key_edit_def DeleteKey_def keeps_key_id_def first_simps split: option.split)
  qed (use assms(2) in simp)
  then show ?thesis using own assms(5) by (auto simp: keeps_key_id_def intro!: filter_update_first_other)
qed

lemma policy_others:
  assumes p: "policy a m m'" and ok: "module_ok m" and a: "\<And>i. a = Some i \<Longrightarrow> \<not> may_admin m i \<and> i \<noteq> j"
    and j: "j \<le> us_seq (am_user m)"
  shows "belongings j m' = belongings j m"
  using p
proof cases
  case p_none
  then show ?thesis by (simp add: belongings_def stores_def)
next
  case (p_new gen now req u us ss p info rb)
  note s = storesD [OF p_new(4)]
  from CreateUser_Inr [OF p_new(1)] have u: "us_users us = us_users (am_user m) @ [u]" "user_ID u = Suc (us_seq (am_user m))"
    by simp_all
  with j have new: "j \<noteq> user_ID u" by simp
  with p_new(2) have "ListAccounts j ss = ListAccounts j (am_social m)" by (auto intro: Bind_others)
  with p_new(3) s u new show ?thesis by (auto simp: belongings_def assign_RoleUser)
next
  case (p_user i e)
  with a storesD [OF p_user(3)] show ?thesis by (simp add: belongings_def user_edit_other)
next
  case (p_bind i now p info ss)
  with a storesD [OF p_bind(3)] show ?thesis by (auto simp: belongings_def dest: Bind_others Unbind_others)
next
  case (p_key i now key key' ks)
  then have "ks_keys ks = ks_keys (am_apiKeys m) @ [key']" "ak_UserID key' = i" by (auto simp: CreateKey_def Let_def)
  with a p_key(1) storesD [OF p_key(4)] show ?thesis by (simp add: belongings_def)
next
  case (p_edit_key i e k)
  with a obtain x where "x \<in> set (ks_keys (am_apiKeys m))" "ak_ID x = k" "ak_UserID x \<noteq> j"
    by (auto simp: owns_key_def ListByUser_def)
  with p_edit_key(2) ok storesD [OF p_edit_key(4)] show ?thesis
    by (simp add: belongings_def module_ok_def key_edit_other)
qed (use a in auto)

text \<open>C3: Users cannot touch each other. In every state that requests have brought about, a request that
  does not run on behalf of an administrator or of user \<open>j\<close> (without a token, or with the token of another
  user) leaves the account of \<open>j\<close>, the roles, the API keys and the bound third-party accounts of \<open>j\<close> as they are, whatever the
  request, its body and its path are.\<close>

theorem others_untouched:
  assumes "{''admin'', ''user''} \<subseteq> set order"
    and "m = after E order cfg es"
    and "\<And>i. actor E cx r m = Some i \<Longrightarrow> \<not> may_admin m i \<and> i \<noteq> j"
    and "j \<le> us_seq (am_user m)"
  shows "belongings j (snd (serve E cx r m)) = belongings j m"
  using policy_others [OF serve_policy] history_ok assms by blast

section \<open>Who becomes an administrator\<close>

definition no_admin :: "Module \<Rightarrow> bool" where
  "no_admin m \<longleftrightarrow> mem_installed (am_rbac m) \<and> (\<forall>u. mem_userRoles (am_rbac m) u \<in> {[], [RoleUser]})"

lemma no_admin_may: "no_admin m \<Longrightarrow> \<not> may_admin m u"
proof -
  assume ok: "no_admin m"
  then have "mem_roles (am_rbac m) u = Inr [RoleUser]" by (auto simp: no_admin_def mem_roles_def Let_def)
  moreover obtain ps where "mem_perms (am_rbac m) [RoleUser] = Inr ps" "grants_of ps = set (defaultPermissions RoleUser)"
    using ok mem_perms_role [of "am_rbac m" RoleUser] by (auto simp: no_admin_def)
  ultimately show ?thesis
    by (simp add: may_admin_def HasPermission_def scan_perms_iff allowed_def defaultPermissions_def RoleUser_def)
qed

lemma policy_no_admin:
  assumes p: "policy a m m'" and ok: "no_admin m"
  shows "no_admin m'"
proof -
  have same: "no_admin m'" if "am_rbac m' = am_rbac m" using that ok by (simp add: no_admin_def)
  from p show ?thesis
  proof cases
    case (p_new gen now req u us ss p info rb)
    note s = storesD [OF p_new(4)]
    from p_new(3) have "rb = (am_rbac m)\<lparr>mem_userRoles := (mem_userRoles (am_rbac m))(user_ID u := [RoleUser])\<rparr>"
      by (simp add: assign_RoleUser)
    with ok s show ?thesis by (simp add: no_admin_def mem_installed_def)
  qed (use same no_admin_may [OF ok] in \<open>auto simp: stores_def\<close>)
qed

lemma no_admin_Init: "{''admin'', ''user''} \<subseteq> set order \<Longrightarrow> no_admin (Init E order cfg)"
  by (simp add: no_admin_def Init_def Let_def mem_ensure_new mem_ensure_user) (simp add: NewInMemoryRBACStore_def)

lemma no_admin_all: "no_admin m \<Longrightarrow> no_admin (serve_all E rs m)"
  by (induction E rs m rule: serve_all.induct) (simp_all add: policy_no_admin [OF serve_policy])

definition admin_request :: "request \<Rightarrow> bool" where
  "admin_request r = (case r of ReqUsers _ _ _ \<Rightarrow> True | ReqGetUser _ \<Rightarrow> True | ReqUpdateUser _ _ \<Rightarrow> True
     | ReqDeleteUser _ \<Rightarrow> True | ReqAssignRole _ \<Rightarrow> True | _ \<Rightarrow> False)"

lemma admin_refused:
  assumes "\<And>i. \<not> may_admin m i"
  shows "fst (admin E cx h m) = Fail CodeUnauth BadToken \<or> fst (admin E cx h m) = Fail CodeForbidden NoReason"
proof (cases "authenticate E cx m")
  case (Pair c m1)
  then have "\<not> may_admin m1 i" for i
    using assms may_admin_stores [of m1 m] authenticate_stores [of E cx m] by simp
  with Pair show ?thesis
    by (cases c) (simp_all add: admin_def protected_def RequirePermission_def may_admin_def)
qed

text \<open>C4: A deployment without a database never has an administrator. Registration and third-party logins give
  the role \<open>user\<close>, the role \<open>admin\<close> is given by an administrator only, and \<open>Init\<close> creates none: after any requests nobody
  has the permission, and every request to an administration route is answered with 401 or 403.\<close>

theorem fresh_module_without_admin:
  assumes "{''admin'', ''user''} \<subseteq> set order"
  shows "\<not> may_admin (serve_all E rs (Init E order cfg)) u \<and>
    (admin_request r \<longrightarrow> fst (serve E cx r (serve_all E rs (Init E order cfg))) \<in>
       {Fail CodeUnauth BadToken, Fail CodeForbidden NoReason})"
proof -
  let ?m = "serve_all E rs (Init E order cfg)"
  have "\<not> may_admin ?m i" for i using no_admin_may [OF no_admin_all [OF no_admin_Init [OF assms]]] .
  with admin_refused [of ?m] show ?thesis by (cases r) (auto simp: admin_request_def)
qed

section \<open>What requests keep\<close>

lemma publishEvent_keeps [simp]:
  "am_svc (publishEvent t u m) = am_svc m" "am_providers (publishEvent t u m) = am_providers m"
  "am_user (publishEvent t u m) = am_user m" "am_blacklist (publishEvent t u m) = am_blacklist m"
  by (simp_all add: publishEvent_def)

definition fixed :: "Module \<Rightarrow> AuthService \<times> (string \<rightharpoonup> SocialProvider)" where
  "fixed m = (am_svc m, am_providers m)"

lemma fixed_simps [simp]:
  "fixed (m\<lparr>am_blacklist := b\<rparr>) = fixed m" "fixed (m\<lparr>am_user := us\<rparr>) = fixed m" "fixed (m\<lparr>am_social := ss\<rparr>) = fixed m"
  "fixed (m\<lparr>am_apiKeys := ks\<rparr>) = fixed m" "fixed (publishEvent t u m) = fixed m"
  by (simp_all add: fixed_def publishEvent_def)

lemma fixed_assign [simp]: "fixed (assign u r m) = fixed m"
  by (simp add: assign_def fixed_def split: sum.split)

lemma fixed_issue [simp]: "fixed (snd (issue E cx u n t m)) = fixed m"
  by (auto simp: issue_def split: sum.split option.split)

lemma fixed_protected: "(\<And>i m. fixed (snd (h i m)) = fixed m) \<Longrightarrow> fixed (snd (protected E cx h m)) = fixed m"
  by (auto simp: protected_def authenticate_def split: prod.split option.split)

lemma fixed_admin: "(\<And>m. fixed (snd (h m)) = fixed m) \<Longrightarrow> fixed (snd (admin E cx h m)) = fixed m"
  unfolding admin_def by (rule fixed_protected) (simp split: mw_result.split)

lemma fixed_public:
  "fixed (snd (register E cx body m)) = fixed m" "fixed (snd (callback E cx p code m)) = fixed m"
  "fixed (snd (login E cx lbody m)) = fixed m" "fixed (snd (refresh E cx rbody m)) = fixed m" "fixed (snd (authURL cx p m)) = fixed m"
  by (auto simp: register_def callback_def login_def refresh_def authURL_def Let_def split: option.split sum.split)

lemma fixed_user:
  "fixed (snd (me i m)) = fixed m" "fixed (snd (updateProfile cx ubody i m)) = fixed m" "fixed (snd (changePassword E cx pbody i m)) = fixed m"
  "fixed (snd (log_out E cx i m)) = fixed m" "fixed (snd (listAccounts i m)) = fixed m"
  "fixed (snd (bind_account cx name bbody i m)) = fixed m" "fixed (snd (unbind_account name i m)) = fixed m"
  by (auto simp: me_def updateProfile_def changePassword_def log_out_def listAccounts_def bind_account_def unbind_account_def
      split: option.split sum.split)

lemma fixed_keys:
  "fixed (snd (createAPIKey E cx kbody i m)) = fixed m" "fixed (snd (listAPIKeys page sz i m)) = fixed m"
  "fixed (snd (updateAPIKey cx path body i m)) = fixed m" "fixed (snd (deleteAPIKey cx path i m)) = fixed m"
  by (auto simp: createAPIKey_def listAPIKeys_def updateAPIKey_def deleteAPIKey_def Let_def
      split: option.split sum.split prod.split apikey_error.split)

lemma fixed_admins:
  "fixed (snd (listUsers page sz search m)) = fixed m" "fixed (snd (getUser path m)) = fixed m"
  "fixed (snd (updateUser cx path ubody m)) = fixed m" "fixed (snd (deleteUser cx path m)) = fixed m"
  "fixed (snd (assignRole rbody m)) = fixed m"
  by (auto simp: listUsers_def getUser_def updateUser_def deleteUser_def assignRole_def Let_def
      split: option.split sum.split prod.split)

lemma fixed_serve: "fixed (snd (serve E cx r m)) = fixed m"
  by (cases r) (auto simp: with_provider_def fixed_public fixed_user fixed_keys fixed_admins
      intro!: fixed_protected fixed_admin split: option.split)

lemma fixed_all: "fixed (serve_all E rs m) = fixed m"
  by (induction E rs m rule: serve_all.induct) (simp_all add: fixed_serve)

lemma policy_names:
  assumes "policy a m m'"
  shows "user_Username ` set (us_users (am_user m)) \<subseteq> user_Username ` set (us_users (am_user m')) \<and>
    us_seq (am_user m) \<le> us_seq (am_user m')"
  using assms
proof cases
  case (p_new gen now req u us ss p info rb)
  with CreateUser_Inr [OF p_new(1)] storesD [OF p_new(4)] show ?thesis by auto
next
  case (p_user i e)
  have "user_Username ` set (us_users (user_edit e (am_user m))) = user_Username ` set (us_users (am_user m))"
    using user_edit_names [of e "am_user m"] by (metis set_map)
  with storesD [OF p_user(3)] show ?thesis by (simp add: user_edit_seq)
qed (auto simp: stores_def)

lemma names_all:
  "user_Username ` set (us_users (am_user m)) \<subseteq> user_Username ` set (us_users (am_user (serve_all E rs m)))"
proof (induction E rs m rule: serve_all.induct)
  case (2 E cx r rs m)
  with policy_names [OF serve_policy, of m E cx r] show ?case by (simp only: serve_all.simps) (blast intro: subset_trans)
qed simp

section \<open>Third-party logins that collide\<close>

lemma issue_user: "issue E cx u n t m = (a, m') \<Longrightarrow> am_user m' = am_user m"
  using issue_stores [of E cx u n t m] by (simp add: stores_def)

lemma assign_user [simp]: "am_user (assign u r m) = am_user m"
  by (simp add: assign_def split: sum.split)

lemma callback_outcome:
  assumes "sp_Exchange p code = Some t" "sp_GetUserInfo p t = Some info" "code \<noteq> []"
    and "FindByProvider (sp_Name p) (sx_OpenID info) (am_social m) = Inl e"
  shows "length (sx_OpenID info) < 8 \<Longrightarrow> callback E cx p code m = (Panicked, m)"
    and "callback E cx p code m = (Success a, m') \<Longrightarrow>
      sp_Name p @ ''_'' @ take 8 (sx_OpenID info) \<in> user_Username ` set (us_users (am_user m'))"
    and "8 \<le> length (sx_OpenID info) \<Longrightarrow> sp_Name p @ ''_'' @ take 8 (sx_OpenID info) \<in> user_Username ` set (us_users (am_user m)) \<Longrightarrow>
      callback E cx p code m = (Fail CodeSystemErr CreateFailed, m)"
proof -
  let ?name = "sp_Name p @ ''_'' @ take 8 (sx_OpenID info)"
  show "length (sx_OpenID info) < 8 \<Longrightarrow> callback E cx p code m = (Panicked, m)"
    using assms by (simp add: callback_def)
  show "8 \<le> length (sx_OpenID info) \<Longrightarrow> ?name \<in> user_Username ` set (us_users (am_user m)) \<Longrightarrow>
      callback E cx p code m = (Fail CodeSystemErr CreateFailed, m)"
    using assms by (auto simp: callback_def CreateUser_def find_None_iff)
  assume run: "callback E cx p code m = (Success a, m')"
  with assms have "8 \<le> length (sx_OpenID info)" by (auto simp: callback_def split: if_splits)
  with run assms obtain u us pw where "CreateUser (ae_gen E) (cx_now cx)
      \<lparr>rr_Username = ?name, rr_Password = pw, rr_Nickname = sx_Nickname info\<rparr> (am_user m) = Inr (u, us)" "am_user m' = us"
    by (auto simp: callback_def Let_def dest!: issue_user split: sum.splits)
  with CreateUser_Inr show "?name \<in> user_Username ` set (us_users (am_user m'))" by fastforce
qed

text \<open>Two people whose identifiers at a provider agree in the first eight bytes cannot both log in. When a
  third-party login has created an account, every later login of the same provider with another identifier
  that starts with the same eight bytes, and that is not bound to an account, is refused with an internal error,
  whatever requests come in between (deleting the first account included); an identifier shorter than eight bytes
  makes the handler panic.\<close>

lemma social_logins_collide:
  assumes p: "am_providers m name = Some p" "sp_Name p = name"
    and first: "sp_Exchange p code = Some t" "sp_GetUserInfo p t = Some info" "code \<noteq> []"
      "FindByProvider name (sx_OpenID info) (am_social m) = Inl e"
      "serve E cx (ReqCallback name code) m = (Success a, m1)"
    and second: "sp_Exchange p code' = Some t'" "sp_GetUserInfo p t' = Some info'" "code' \<noteq> []"
      "FindByProvider name (sx_OpenID info') (am_social (serve_all E rs m1)) = Inl e'"
      "take 8 (sx_OpenID info') = take 8 (sx_OpenID info)"
  shows "serve E cx' (ReqCallback name code') (serve_all E rs m1) =
    ((if length (sx_OpenID info') < 8 then Panicked else Fail CodeSystemErr CreateFailed), serve_all E rs m1)"
proof -
  let ?m = "serve_all E rs m1"
  have run: "callback E cx p code m = (Success a, m1)" using first(5) p by (simp add: with_provider_def)
  have "fixed m1 = fixed m" using fixed_serve [of E cx "ReqCallback name code" m] first(5) by simp
  then have prov: "am_providers ?m name = Some p" using fixed_all [of E rs m1] p(1) by (simp add: fixed_def)
  have "sp_Name p @ ''_'' @ take 8 (sx_OpenID info) \<in> user_Username ` set (us_users (am_user ?m))"
    using callback_outcome(2) [OF first(1-3) _ run] first(4) names_all [of m1 E rs] p(2) by blast
  then show ?thesis
    using callback_outcome(1,3) [OF second(1-3), of ?m e' E cx'] second(4,5) p(2) prov
    by (simp add: with_provider_def)
qed

section \<open>Tokens of a deleted account\<close>

lemma authenticate_pair:
  assumes "jwt_ok (ae_jwt E)" "GenerateTokenPair (ae_jwt E) (am_svc m) now u name = Inr p"
    and "cx_header cx = ''Bearer '' @ tp_AccessToken p" "tp_AccessToken p \<noteq> []"
    and "cx_now cx < jwt_numdate (ae_jwt E) (now + as_accessExpire (am_svc m))"
    and "am_blacklist m (token_id TokenTypeAccess u now) = None"
  shows "authenticate E cx m = (Some u, m)"
proof -
  have "extractToken (cx_header cx) = tp_AccessToken p" using extract_bearer [of "''Bearer''"] assms(3) by simp
  with access_claims [OF assms(1,2), of "cx_now cx"] assms(4-6) show ?thesis
    by (simp add: authenticate_def AuthRequiredWithBlacklist_def IsRevoked_def token_claims_def)
qed

lemma delete_hides:
  assumes "users_wf s" "DeleteUser now i s = Inr s'"
  shows "FindByID i s' = Inl (NoSuchUserID i)"
proof -
  obtain u where u: "find (live_id i) (us_users s) = Some u"
    and s': "us_users s' = update_first (live_id i) (\<lambda>u. u\<lparr>user_DeletedAt := Some now\<rparr>) (us_users s)"
    using assms(2) by (auto simp: DeleteUser_def split: option.splits)
  have "s' = user_edit (EDelete now i) s" using assms(2) by (simp add: user_edit_def)
  then have "users_wf s'" using edit_wf [OF assms(1)] by simp
  moreover have "u\<lparr>user_DeletedAt := Some now\<rparr> \<in> set (us_users s')" using update_first_in [OF u] s' by simp
  ultimately have "FindByID (user_ID u) s' = Inl (NoSuchUserID (user_ID u))"
    using wf_deleted_hidden(2) by fastforce
  with find_SomeD [OF u] show ?thesis by (simp add: live_id_def)
qed

lemma deleted_by_admin:
  assumes "serve E cx (ReqDeleteUser path) m = (Success a, m')" "parseUint path = Some i" "module_ok m"
  shows "FindByID i (am_user m') = Inl (NoSuchUserID i) \<and> am_svc m' = am_svc m"
proof -
  obtain m1 us where "stores m1 = stores m" "DeleteUser (cx_now cx) i (am_user m1) = Inr us" "am_user m' = us"
    using assms(1,2) authenticate_stores [of E cx m]
    by (auto simp: admin_def protected_def deleteUser_def split: prod.splits option.splits mw_result.splits sum.splits)
  moreover from this assms(3) have "users_wf (am_user m1)" by (simp add: module_ok_def stores_def)
  moreover have "fixed m' = fixed m" using fixed_serve [of E cx "ReqDeleteUser path" m] assms(1) by simp
  ultimately show ?thesis using delete_hides by (auto simp: fixed_def)
qed

text \<open>C5: Deleting an account does not end its sessions. After an administrator has deleted user \<open>i\<close>, a refresh token of
  \<open>i\<close> still gets a new pair (\<open>refresh\<close> asks neither the user store nor the blacklist), whose access token passes the
  middleware: \<open>/me\<close> says that the user does not exist, and the same token creates an API key for \<open>i\<close> that
  is accepted without an end.\<close>

theorem deleted_user_keeps_access:
  assumes "{''admin'', ''user''} \<subseteq> set order" "m0 = after E order cfg es" "jwt_ok (ae_jwt E)"
    and deleted: "serve E cx0 (ReqDeleteUser path) m0 = (Success a, m)" "parseUint path = Some i"
    and refresh: "ValidateRefreshToken (ae_jwt E) (am_svc m0) (cx_now cx1) tok = Inr c" "cl_UserID c = i" "tok \<noteq> []"
      "GenerateTokenPair (ae_jwt E) (am_svc m0) (cx_now cx1) i (cl_Username c) = Inr pair" "tp_AccessToken pair \<noteq> []"
    and request: "cx_header cx2 = ''Bearer '' @ tp_AccessToken pair" "cx_rand cx2 = Some raw" "length raw = 32" "label \<noteq> []"
      "cx_now cx2 < jwt_numdate (ae_jwt E) (cx_now cx1 + as_accessExpire (am_svc m0))"
      "am_blacklist m (token_id TokenTypeAccess i (cx_now cx1)) = None"
    and unused: "\<forall>k \<in> set (ks_keys (am_apiKeys m)). ak_KeyHash k \<noteq> hashKey (ae_sha E) (''gbk_'' @ hex_encode raw)"
  shows "serve E cx1 (ReqRefresh (Some tok)) m = (Success (PPair pair), m) \<and>
    fst (serve E cx2 ReqMe m) = Fail CodeNotFound NoReason \<and>
    (\<exists>m' n. serve E cx2 (ReqCreateKey (Some (label, scopes, []))) m =
        (Success (PNewKey n label (take 10 (''gbk_'' @ hex_encode raw)) (''gbk_'' @ hex_encode raw)
           (if scopes = [] then ''*:*'' else scopes) None), m') \<and>
       (\<forall>t. map_sum id ak_UserID (fst (ValidateKey (ae_sha E) t (''gbk_'' @ hex_encode raw) (am_apiKeys m'))) = Inr i))"
proof -
  have ok: "module_ok m0" using history_ok assms(1,2) by blast
  note gone = deleted_by_admin [OF deleted ok]
  have auth: "authenticate E cx2 m = (Some i, m)"
    by (rule authenticate_pair [where now = "cx_now cx1" and p = pair]) (use assms(3) refresh request gone in auto)
  have "serve E cx1 (ReqRefresh (Some tok)) m = (Success (PPair pair), m)"
    using refresh gone by (simp add: refresh_def RefreshAccessToken_def)
  moreover have "fst (serve E cx2 ReqMe m) = Fail CodeNotFound NoReason"
    using gone by (simp add: protected_def auth me_def)
  moreover obtain k ks where gen: "GenerateKey (ae_sha E) (Some raw) (cx_now cx2) label i (if scopes = [] then ''*:*'' else scopes)
      None (am_apiKeys m) = Inr ((k, ''gbk_'' @ hex_encode raw), ks)" and k: "ak_Name k = label" "ak_KeyPrefix k = take 10 (''gbk_'' @ hex_encode raw)"
      "ak_Scopes k = (if scopes = [] then ''*:*'' else scopes)" "ak_ExpiresAt k = None" "ak_UserID k = i"
    by (simp add: GenerateKey_def Let_def CreateKey_def apiKeyPrefix_def)
  moreover have "map_sum id ak_UserID (fst (ValidateKey (ae_sha E) t (''gbk_'' @ hex_encode raw) ks)) = Inr i" for t
    using generate_then_validate [OF gen request(3), of t] unused k(5) by simp
  ultimately show ?thesis using request by (auto simp: protected_def auth createAPIKey_def)
qed

section \<open>A session\<close>

text \<open>Requests that run neither for user \<open>j\<close> nor for an administrator.\<close>

fun by_others :: "auth_env \<Rightarrow> nat \<Rightarrow> (call_ctx \<times> request) list \<Rightarrow> Module \<Rightarrow> bool" where
  "by_others E j [] m = True"
| "by_others E j ((cx, r) # rs) m =
    ((case actor E cx r m of None \<Rightarrow> True | Some i \<Rightarrow> \<not> may_admin m i \<and> i \<noteq> j) \<and> by_others E j rs (snd (serve E cx r m)))"

lemma belongings_all:
  "module_ok m \<Longrightarrow> j \<le> us_seq (am_user m) \<Longrightarrow> by_others E j rs m \<Longrightarrow> belongings j (serve_all E rs m) = belongings j m"
proof (induction E rs m rule: serve_all.induct)
  case (2 E cx r rs m)
  let ?m = "snd (serve E cx r m)"
  have "belongings j ?m = belongings j m"
    by (rule policy_others [OF serve_policy]) (use 2 in auto)
  moreover have "j \<le> us_seq (am_user ?m)" using policy_names [OF serve_policy, of m E cx r] 2 by simp
  ultimately show ?case using 2 module_ok_serve by simp
qed simp

lemma find_filter: "(\<And>x. p x \<Longrightarrow> q x) \<Longrightarrow> find p (filter q xs) = find p xs"
  by (induction xs) auto

lemma FindByID_belongings:
  assumes "belongings j m = belongings j m'"
  shows "FindByID j (am_user m) = FindByID j (am_user m')"
proof -
  have eq: "FindByID j s = (case find (\<lambda>u. user_ID u = j \<and> user_DeletedAt u = None) (filter (\<lambda>u. user_ID u = j) (us_users s)) of
      Some u \<Rightarrow> Inr u | None \<Rightarrow> Inl (NoSuchUserID j))" for s
    using find_filter [of "\<lambda>u. user_ID u = j \<and> user_DeletedAt u = None" "\<lambda>u. user_ID u = j" "us_users s"] by (simp add: FindByID_def)
  show ?thesis unfolding eq using assms by (simp add: belongings_def)
qed

lemma register_success:
  assumes "serve E cx (ReqRegister (Some req)) m = (Success a, m')"
  obtains u us pair where "CreateUser (ae_gen E) (cx_now cx) req (am_user m) = Inr (u, us)" "am_user m' = us"
    "mem_userRoles (am_rbac m') (user_ID u) = [RoleUser]" "a = PPair pair"
    "GenerateTokenPair (ae_jwt E) (am_svc m) (cx_now cx) (user_ID u) (rr_Username req) = Inr pair"
proof -
  from assms obtain u us where c: "CreateUser (ae_gen E) (cx_now cx) req (am_user m) = Inr (u, us)"
    and i: "issue E cx (user_ID u) (user_Username u) (Some ''user.registered'') (assign (user_ID u) RoleUser (m\<lparr>am_user := us\<rparr>)) = (Success a, m')"
    by (auto simp: register_def split: if_splits sum.splits)
  have svc: "am_svc (assign (user_ID u) RoleUser (m\<lparr>am_user := us\<rparr>)) = am_svc m" by (simp add: assign_def split: sum.split)
  from i obtain pair where "a = PPair pair" "m' = publishEvent ''user.registered'' (user_ID u) (assign (user_ID u) RoleUser (m\<lparr>am_user := us\<rparr>))"
    "GenerateTokenPair (ae_jwt E) (am_svc m) (cx_now cx) (user_ID u) (user_Username u) = Inr pair"
    by (auto simp: issue_def svc split: sum.splits)
  with c CreateUser_Inr [OF c] show ?thesis
    by (intro that) (auto simp: assign_def assign_RoleUser publishEvent_def)
qed

lemma registered_stays:
  assumes c: "CreateUser gen now req s = Inr (u, us)" "am_user m1 = us" and ok1: "module_ok m1"
    and others: "by_others E (user_ID u) rs m1" "m = serve_all E rs m1" and bcrypt: "\<And>pw h. gen pw = Some h \<Longrightarrow> cmp h pw"
  shows "belongings (user_ID u) m = belongings (user_ID u) m1" and "FindByID (user_ID u) (am_user m) = Inr u"
    and "VerifyPassword cmp (rr_Username req) (rr_Password req) (am_user m) = Inr u"
proof -
  note u = CreateUser_Inr [OF c(1)]
  show b: "belongings (user_ID u) m = belongings (user_ID u) m1"
    unfolding others(2) by (rule belongings_all) (use ok1 u c(2) others(1) in auto)
  have "find (live_id (user_ID u)) (us_users us) = Some u"
    by (rule live_unique) (use ok1 c(2) u in \<open>auto simp: module_ok_def live_id_def\<close>)
  then have "FindByID (user_ID u) (am_user m1) = Inr u" by (simp add: FindByID_def live_id_def [abs_def] c(2))
  then show find: "FindByID (user_ID u) (am_user m) = Inr u" using FindByID_belongings [OF b] by simp
  then have "u \<in> set (us_users (am_user m))" by (auto simp: FindByID_def split: option.splits dest: find_SomeD)
  then have "FindByUsername (rr_Username req) (am_user m) = Inr u"
    using find_by_username [of "am_user m" u] module_ok_all [OF ok1] others(2) u by (simp add: module_ok_def)
  then show "VerifyPassword cmp (rr_Username req) (rr_Password req) (am_user m) = Inr u"
    using u bcrypt by (simp add: VerifyPassword_def)
qed

text \<open>C2: A session lasts. Whoever has registered successfully on any state that requests have brought about stays known to the
  module whatever the others do: after any requests of other users, none of them an administrator, the access token of the
  registration gets the same account from \<open>/me\<close>, with the role \<open>user\<close>, until it expires or is revoked,
  and the name and the password of the registration log in to that account.\<close>

theorem session_lasts:
  assumes "{''admin'', ''user''} \<subseteq> set order" "m0 = after E order cfg es" "jwt_ok (ae_jwt E)"
    and bcrypt: "\<And>pw h. ae_gen E pw = Some h \<Longrightarrow> ae_cmp E h pw"
    and registered: "serve E cx (ReqRegister (Some req)) m0 = (Success (PPair p), m1)" "tp_AccessToken p \<noteq> []"
    and others: "by_others E (tp_UserID p) rs m1" "m = serve_all E rs m1"
    and request: "cx_header cx1 = ''Bearer '' @ tp_AccessToken p"
      "cx_now cx1 < jwt_numdate (ae_jwt E) (cx_now cx + as_accessExpire (am_svc m0))"
      "am_blacklist m (token_id TokenTypeAccess (tp_UserID p) (cx_now cx)) = None"
    and again: "GenerateTokenPair (ae_jwt E) (am_svc m0) (cx_now cx2) (tp_UserID p) (rr_Username req) = Inr p'"
  shows "fst (serve E cx1 ReqMe m) = Success (PMe (tp_UserID p) (rr_Username req)
      (if rr_Nickname req = [] then rr_Username req else rr_Nickname req) [RoleUser]) \<and>
    fst (serve E cx2 (ReqLogin (Some (rr_Username req, rr_Password req))) m) = Success (PPair p')"
proof -
  obtain u us where c: "CreateUser (ae_gen E) (cx_now cx) req (am_user m0) = Inr (u, us)" "am_user m1 = us"
    and role: "mem_userRoles (am_rbac m1) (user_ID u) = [RoleUser]"
    and pair: "GenerateTokenPair (ae_jwt E) (am_svc m0) (cx_now cx) (user_ID u) (rr_Username req) = Inr p"
    using registered(1) by (elim register_success) auto
  have name: "user_Username u = rr_Username req" using CreateUser_Inr [OF c(1)] by simp
  have svc: "am_svc m = am_svc m0"
    using fixed_all [of E rs m1] fixed_serve [of E cx "ReqRegister (Some req)" m0] registered(1) others(2) by (simp add: fixed_def)
  have uid: "tp_UserID p = user_ID u" using pair by (auto simp: GenerateTokenPair_def split: sum.splits)
  have ok1: "module_ok m1" using module_ok_serve [of m0 E cx "ReqRegister (Some req)"] history_ok assms(1,2) registered(1) by simp
  note stays = registered_stays [OF c this others(1) [unfolded uid] others(2) bcrypt]
  have auth: "authenticate E cx1 m = (Some (user_ID u), m)"
    by (rule authenticate_pair [where now = "cx_now cx" and p = p]) (use assms(3) pair svc registered(2) request uid in auto)
  have "mem_userRoles (am_rbac m) (user_ID u) = [RoleUser]" using stays(1) role by (simp add: belongings_def)
  then have roles: "GetRoles m (user_ID u) = [RoleUser]" by (simp add: GetRoles_def mem_roles_def)
  have req: "rr_Username req \<noteq> []" "rr_Password req \<noteq> []"
    using registered(1) by (auto simp: register_def valid_register_def rune_count_def split: if_splits)
  have nick: "user_Nickname u = (if rr_Nickname req = [] then rr_Username req else rr_Nickname req)"
    using c(1) by (auto simp: CreateUser_def Let_def split: if_splits option.splits)
  have "fst (serve E cx1 ReqMe m) = Success (PMe (user_ID u) (rr_Username req) (user_Nickname u) [RoleUser])"
    by (simp add: protected_def auth me_def stays(2) roles name)
  moreover have "fst (serve E cx2 (ReqLogin (Some (rr_Username req, rr_Password req))) m) = Success (PPair p')"
    using again name uid by (simp add: login_def stays(3) req issue_def svc)
  ultimately show ?thesis by (simp add: uid nick)
qed

section \<open>Examples\<close>

text \<open>A JWT library that knows the claims it signs: the token is their identifier.\<close>

definition table_jwt :: "Claims list \<Rightarrow> jwt_lib" where
  "table_jwt issued = \<lparr>
     jwt_sign = (\<lambda>secret c. if secret = ''k'' \<and> c \<in> set issued then Some (cl_ID c) else None),
     jwt_numdate = (\<lambda>t. t),
     jwt_parse = (\<lambda>kf t tok. if kf True \<noteq> Some ''k'' then None
       else case find (\<lambda>c. cl_ID c = tok) issued of None \<Rightarrow> None | Some c \<Rightarrow> if t < cl_ExpiresAt c then Some c else None),
     jwt_secs = (\<lambda>d. d div 1000000000)\<rparr>"

lemma table_jwt_ok: "distinct (map cl_ID issued) \<Longrightarrow> jwt_ok (table_jwt issued)"
  by (auto simp: jwt_ok_def table_jwt_def find_key split: if_splits)

definition issued_claims :: "string \<Rightarrow> nat \<Rightarrow> string \<Rightarrow> instant \<Rightarrow> Claims" where
  "issued_claims ty u name t = \<lparr>cl_UserID = u, cl_Username = name, cl_TokenType = ty, cl_Issuer = ''go-backend-core'',
     cl_IssuedAt = t, cl_ExpiresAt = t + (if ty = ''access'' then 1800000000000 else 604800000000000), cl_Subject = fmt_int (int u),
     cl_ID = token_id ty u t\<rparr>"

definition demo_issued :: "Claims list" where
  "demo_issued = concat (map (\<lambda>(u, name, t). [issued_claims ''access'' u name t, issued_claims ''refresh'' u name t])
     [(1, ''ann'', 0), (1, ''qq_00000000'', 1), (2, ''bob'', 0), (2, ''bob'', 5)])"

definition auth_demo :: auth_env where
  "auth_demo = \<lparr>ae_jwt = table_jwt demo_issued, ae_gen = demo_gen, ae_cmp = demo_cmp, ae_sha = demo_sha, ae_duration = (\<lambda>_. None)\<rparr>"

definition demo_provider :: SocialProvider where
  "demo_provider = \<lparr>sp_Name = ''qq'', sp_AuthURL = (\<lambda>s. s), sp_Exchange = Some,
     sp_GetUserInfo = (\<lambda>t. Some \<lparr>sx_OpenID = ''00000000'' @ t, sx_UnionID = [], sx_Nickname = t, sx_AvatarURL = [], sx_Gender = 0,
       sx_Email = [], sx_Phone = []\<rparr>)\<rparr>"

definition demo_config :: AuthConfig where
  "demo_config = \<lparr>ac_JWTSecret = ''k'', ac_JWTExpire = [], ac_Wechat = None, ac_Feishu = None, ac_QQ = Some demo_provider,
     ac_Apple = None, ac_Huawei = None, ac_Honor = None\<rparr>"

definition demo_cx :: "instant \<Rightarrow> string \<Rightarrow> call_ctx" where
  "demo_cx t header = \<lparr>cx_now = t, cx_header = header, cx_rand = Some (replicate 32 7)\<rparr>"

definition demo_service :: AuthService where
  "demo_service = NewService ''k'' 1800000000000 604800000000000 []"

definition demo_tokens :: "nat \<Rightarrow> string \<Rightarrow> instant \<Rightarrow> TokenPair" where
  "demo_tokens u name t = \<lparr>tp_AccessToken = token_id ''access'' u t, tp_RefreshToken = token_id ''refresh'' u t,
     tp_ExpiresIn = 1800, tp_UserID = u, tp_Username = name\<rparr>"

lemma demo_issued_ids: "map cl_ID demo_issued = [''access-1-0'', ''refresh-1-0'', ''access-1-1'', ''refresh-1-1'',
    ''access-2-0'', ''refresh-2-0'', ''access-2-5'', ''refresh-2-5'']"
  by code_simp

lemma demo_auth_ok: "jwt_ok (ae_jwt auth_demo)"
  by (simp add: auth_demo_def table_jwt_ok demo_issued_ids)

lemma auth_demo_simps [simp]:
  "ae_gen auth_demo = demo_gen" "ae_cmp auth_demo = demo_cmp" "ae_sha auth_demo = demo_sha" "ae_duration auth_demo = (\<lambda>_. None)"
  by (simp_all add: auth_demo_def)

lemma demo_service_simps [simp]:
  "as_secret demo_service = ''k''" "as_accessExpire demo_service = 1800000000000" "as_refreshExpire demo_service = 604800000000000"
  "as_issuer demo_service = ''go-backend-core''"
  by (simp_all add: demo_service_def NewService_def)

lemma demo_pairs:
  assumes "(u, name, t) \<in> {(1, ''ann'', 0), (1, ''qq_00000000'', 1), (2, ''bob'', 0), (2, ''bob'', 5)}"
  shows "GenerateTokenPair (ae_jwt auth_demo) demo_service t u name = Inr (demo_tokens u name t)"
proof -
  have num: "jwt_numdate (ae_jwt auth_demo) = (\<lambda>t. t)" "jwt_secs (ae_jwt auth_demo) 1800000000000 = 1800"
    by (simp_all add: auth_demo_def table_jwt_def)
  have claims: "token_claims (ae_jwt auth_demo) demo_service u name ''access'' 1800000000000 t = issued_claims ''access'' u name t"
    "token_claims (ae_jwt auth_demo) demo_service u name ''refresh'' 604800000000000 t = issued_claims ''refresh'' u name t"
    by (simp_all add: token_claims_def issued_claims_def num)
  have "issued_claims ty u name t \<in> set demo_issued" if "ty \<in> {''access'', ''refresh''}" for ty
    using assms that by (auto simp: demo_issued_def)
  then have "jwt_sign (ae_jwt auth_demo) ''k'' (issued_claims ty u name t) = Some (token_id ty u t)" if "ty \<in> {''access'', ''refresh''}" for ty
    using that by (simp add: auth_demo_def table_jwt_def issued_claims_def)
  with claims num show ?thesis
    by (simp add: GenerateTokenPair_def generateToken_def TokenTypeAccess_def TokenTypeRefresh_def demo_tokens_def)
qed

definition demo_req_of :: "string \<Rightarrow> RegisterRequest" where
  "demo_req_of name = \<lparr>rr_Username = name, rr_Password = ''secret'', rr_Nickname = []\<rparr>"

definition demo_user :: "nat \<Rightarrow> string \<Rightarrow> User" where
  "demo_user u name = \<lparr>user_ID = u, user_Username = name, user_Password = ''$terces'', user_Nickname = name,
     user_Email = [], user_AvatarURL = [], user_Phone = [], user_Status = UserStatusActive,
     user_CreatedAt = 0, user_UpdatedAt = 0, user_DeletedAt = None\<rparr>"

lemma demo_registers:
  assumes "am_svc m = demo_service" "am_bus m = False" "\<forall>u \<in> set (us_users (am_user m)). user_Username u \<noteq> name"
    and "(Suc (us_seq (am_user m)), name) \<in> {(1, ''ann''), (2, ''bob'')}"
  shows "serve auth_demo (demo_cx 0 []) (ReqRegister (Some (demo_req_of name))) m =
    (Success (PPair (demo_tokens (Suc (us_seq (am_user m))) name 0)), assign (Suc (us_seq (am_user m))) RoleUser
      (m\<lparr>am_user := \<lparr>us_users = us_users (am_user m) @ [demo_user (Suc (us_seq (am_user m))) name], us_seq = Suc (us_seq (am_user m))\<rparr>\<rparr>))"
proof -
  have "valid_register (demo_req_of name)" using assms(4) by (auto simp: valid_register_def demo_req_of_def rune_count_def)
  moreover have "CreateUser (ae_gen auth_demo) 0 (demo_req_of name) (am_user m) =
      Inr (demo_user (Suc (us_seq (am_user m))) name, \<lparr>us_users = us_users (am_user m) @ [demo_user (Suc (us_seq (am_user m))) name],
        us_seq = Suc (us_seq (am_user m))\<rparr>)"
    using assms(3) by (simp add: CreateUser_def demo_req_of_def auth_demo_def demo_gen_def find_None_iff demo_user_def Let_def)
  moreover have "GenerateTokenPair (ae_jwt auth_demo) demo_service 0 (Suc (us_seq (am_user m))) name =
      Inr (demo_tokens (Suc (us_seq (am_user m))) name 0)"
    by (rule demo_pairs) (use assms(4) in auto)
  ultimately show ?thesis
    using assms(1,2) by (simp add: register_def issue_def demo_cx_def demo_user_def assign_RoleUser assign_def publishEvent_def)
qed

definition demo_events :: "event list" where
  "demo_events = [Request (demo_cx 0 []) (ReqRegister (Some (demo_req_of ''ann''))), Request (demo_cx 0 []) (ReqRegister (Some (demo_req_of ''bob'')))]"

abbreviation demo_start :: Module where
  "demo_start \<equiv> Init auth_demo [''admin'', ''user''] demo_config"

lemma demo_start_simps [simp]:
  "am_svc demo_start = demo_service" "am_bus demo_start = False" "am_user demo_start = NewInMemoryUserStore" "am_blacklist demo_start = Map.empty"
  "am_social demo_start = NewInMemorySocialStore" "am_apiKeys demo_start = NewInMemoryApiKeyStore" "am_providers demo_start ''qq'' = Some demo_provider"
  by (simp_all add: Init_def Let_def auth_demo_def demo_config_def demo_service_def NewInMemoryBlacklist_def registerProviders_def RegisterProvider_def
      demo_provider_def)

definition demo_two :: Module where
  "demo_two = demo_start\<lparr>am_user := \<lparr>us_users = [demo_user 1 ''ann'', demo_user 2 ''bob''], us_seq = 2\<rparr>,
     am_rbac := (am_rbac demo_start)\<lparr>mem_userRoles := (mem_userRoles (am_rbac demo_start))(1 := [RoleUser], 2 := [RoleUser])\<rparr>\<rparr>"

lemma assign_RoleUser_module: "assign u RoleUser m = m\<lparr>am_rbac := (am_rbac m)\<lparr>mem_userRoles := (mem_userRoles (am_rbac m))(u := [RoleUser])\<rparr>\<rparr>"
  by (simp add: assign_def assign_RoleUser)

lemma demo_after: "after auth_demo [''admin'', ''user''] demo_config demo_events = demo_two"
  using demo_registers [of demo_start "''ann''"]
    demo_registers [of "assign 1 RoleUser (demo_start\<lparr>am_user := \<lparr>us_users = [demo_user 1 ''ann''], us_seq = 1\<rparr>\<rparr>)" "''bob''"]
  by (simp add: after_def demo_events_def happen_def NewInMemoryUserStore_def assign_RoleUser_module demo_two_def demo_user_def numeral_2_eq_2)

lemma demo_authenticate:
  assumes "am_svc m = demo_service" "am_blacklist m = Map.empty" "0 \<le> cx_now cx" "cx_now cx < 1800000000000"
    and "(u, name, t) \<in> {(1, ''ann'', 0), (2, ''bob'', 0), (2, ''bob'', 5)}" "cx_header cx = ''Bearer '' @ token_id ''access'' u t"
  shows "authenticate auth_demo cx m = (Some u, m)"
proof (rule authenticate_pair [where now = t and p = "demo_tokens u name t"])
  show "GenerateTokenPair (ae_jwt auth_demo) (am_svc m) t u name = Inr (demo_tokens u name t)"
    unfolding assms(1) by (rule demo_pairs) (use assms(5) in auto)
  show "cx_now cx < jwt_numdate (ae_jwt auth_demo) (t + as_accessExpire (am_svc m))"
    using assms(1,4,5) by (auto simp: auth_demo_def table_jwt_def)
qed (use assms demo_auth_ok in \<open>auto simp: demo_tokens_def token_id_def\<close>)

lemma others_untouched_witness:
  "belongings 1 (snd (serve auth_demo (demo_cx 1 (''Bearer '' @ token_id ''access'' 2 0)) (ReqCreateKey (Some (''ci'', [], []))) demo_two)) =
   belongings 1 demo_two"
proof (rule others_untouched [where order = "[''admin'', ''user'']" and es = demo_events])
  show "demo_two = after auth_demo [''admin'', ''user''] demo_config demo_events" by (simp add: demo_after)
  have "authenticate auth_demo (demo_cx 1 (''Bearer '' @ token_id ''access'' 2 0)) demo_two = (Some 2, demo_two)"
    by (rule demo_authenticate) (auto simp: demo_two_def demo_cx_def)
  moreover have "no_admin demo_two"
    using no_admin_Init [of "[''admin'', ''user'']" auth_demo demo_config]
    by (simp add: no_admin_def demo_two_def mem_installed_def)
  ultimately show "\<not> may_admin demo_two i \<and> i \<noteq> 1"
    if "actor auth_demo (demo_cx 1 (''Bearer '' @ token_id ''access'' 2 0)) (ReqCreateKey (Some (''ci'', [], []))) demo_two = Some i" for i
    using that no_admin_may by (auto simp: actor_def public_def)
  show "1 \<le> us_seq (am_user demo_two)" by (simp add: demo_two_def)
qed simp

lemma fresh_module_without_admin_witness:
  "\<not> may_admin (serve_all auth_demo [(demo_cx 0 [], ReqRegister (Some (demo_req_of ''ann'')))] demo_start) 1 \<and>
   fst (serve auth_demo (demo_cx 1 (''Bearer '' @ token_id ''access'' 1 0)) (ReqUsers [] [] [])
     (serve_all auth_demo [(demo_cx 0 [], ReqRegister (Some (demo_req_of ''ann'')))] demo_start)) \<in>
       {Fail CodeUnauth BadToken, Fail CodeForbidden NoReason}"
  using fresh_module_without_admin [of "[''admin'', ''user'']" auth_demo "[(demo_cx 0 [], ReqRegister (Some (demo_req_of ''ann'')))]" demo_config 1
      "ReqUsers [] [] []" "demo_cx 1 (''Bearer '' @ token_id ''access'' 1 0)"]
  by (simp add: admin_request_def)

lemma demo_callback:
  "\<exists>m1. serve auth_demo (demo_cx 1 []) (ReqCallback ''qq'' ''a'') demo_start = (Success (PPair (demo_tokens 1 ''qq_00000000'' 1)), m1)
     \<and> ss_accounts (am_social m1) = [\<lparr>sa_ID = 1, sa_UserID = 1, sa_Provider = ''qq'', sa_OpenID = ''00000000a'', sa_UnionID = [],
         sa_Nickname = ''a'', sa_AvatarURL = [], sa_CreatedAt = 1\<rparr>]"
proof -
  have "fmt_int 0 = ''0''" by code_simp
  moreover have "GenerateTokenPair (ae_jwt auth_demo) demo_service 1 1 ''qq_00000000'' = Inr (demo_tokens 1 ''qq_00000000'' 1)"
    by (rule demo_pairs) simp
  ultimately show ?thesis
    by (simp add: with_provider_def callback_def demo_provider_def demo_cx_def FindByProvider_def NewInMemorySocialStore_def CreateUser_def
        NewInMemoryUserStore_def demo_gen_def Let_def Bind_def issue_def assign_RoleUser_module publishEvent_def)
qed

lemma social_logins_collide_witness:
  "\<exists>m1. serve auth_demo (demo_cx 1 []) (ReqCallback ''qq'' ''a'') demo_start = (Success (PPair (demo_tokens 1 ''qq_00000000'' 1)), m1)
     \<and> serve auth_demo (demo_cx 2 []) (ReqCallback ''qq'' ''b'') m1 = (Fail CodeSystemErr CreateFailed, m1)"
proof -
  obtain m1 where m1: "serve auth_demo (demo_cx 1 []) (ReqCallback ''qq'' ''a'') demo_start = (Success (PPair (demo_tokens 1 ''qq_00000000'' 1)), m1)"
    "ss_accounts (am_social m1) = [\<lparr>sa_ID = 1, sa_UserID = 1, sa_Provider = ''qq'', sa_OpenID = ''00000000a'', sa_UnionID = [],
       sa_Nickname = ''a'', sa_AvatarURL = [], sa_CreatedAt = 1\<rparr>]"
    using demo_callback by blast
  have "serve auth_demo (demo_cx 2 []) (ReqCallback ''qq'' ''b'') (serve_all auth_demo [] m1) =
      ((if length (''00000000b'' :: string) < 8 then Panicked else Fail CodeSystemErr CreateFailed), serve_all auth_demo [] m1)"
    using social_logins_collide [where m = demo_start and name = "''qq''" and p = demo_provider and code = "''a''" and code' = "''b''" and rs = "[]" and ?cx' = "demo_cx 2 []",
        OF _ _ _ _ _ _ m1(1)] m1(2)
    by (simp add: demo_provider_def FindByProvider_def NewInMemorySocialStore_def)
  with m1(1) show ?thesis by auto
qed

lemma demo_fields [simp]:
  "cx_now (demo_cx t h) = t" "cx_header (demo_cx t h) = h" "cx_rand (demo_cx t h) = Some (replicate 32 7)"
  "tp_AccessToken (demo_tokens u name t) = token_id ''access'' u t" "tp_UserID (demo_tokens u name t) = u"
  "rr_Username (demo_req_of name) = name" "rr_Password (demo_req_of name) = ''secret''" "rr_Nickname (demo_req_of name) = []"
  "jwt_numdate (ae_jwt auth_demo) t = t" "token_id ''access'' u t \<noteq> []" "token_id ''refresh'' u t \<noteq> []"
  by (simp_all add: demo_cx_def demo_tokens_def demo_req_of_def auth_demo_def table_jwt_def token_id_def)

lemma demo_two_fields [simp]:
  "am_svc demo_two = demo_service" "am_blacklist demo_two = Map.empty" "am_bus demo_two = False"
  by (simp_all add: demo_two_def)

lemma session_lasts_witness:
  "\<exists>m1. serve auth_demo (demo_cx 0 []) (ReqRegister (Some (demo_req_of ''ann''))) demo_start = (Success (PPair (demo_tokens 1 ''ann'' 0)), m1)
     \<and> fst (serve auth_demo (demo_cx 7 (''Bearer '' @ token_id ''access'' 1 0)) ReqMe
         (serve_all auth_demo [(demo_cx 0 [], ReqRegister (Some (demo_req_of ''bob'')))] m1)) = Success (PMe 1 ''ann'' ''ann'' [RoleUser])
     \<and> fst (serve auth_demo (demo_cx 0 []) (ReqLogin (Some (''ann'', ''secret'')))
         (serve_all auth_demo [(demo_cx 0 [], ReqRegister (Some (demo_req_of ''bob'')))] m1)) = Success (PPair (demo_tokens 1 ''ann'' 0))"
proof -
  let ?m1 = "assign 1 RoleUser (demo_start\<lparr>am_user := \<lparr>us_users = [demo_user 1 ''ann''], us_seq = 1\<rparr>\<rparr>)"
  let ?rs = "[(demo_cx 0 [], ReqRegister (Some (demo_req_of ''bob'')))]"
  have run: "serve auth_demo (demo_cx 0 []) (ReqRegister (Some (demo_req_of ''ann''))) demo_start = (Success (PPair (demo_tokens 1 ''ann'' 0)), ?m1)"
    using demo_registers [of demo_start "''ann''"] by (simp add: NewInMemoryUserStore_def)
  have m2: "serve_all auth_demo ?rs ?m1 = demo_two"
    using demo_registers [of ?m1 "''bob''"] by (simp add: assign_RoleUser_module demo_two_def demo_user_def numeral_2_eq_2)
  have pair: "GenerateTokenPair (ae_jwt auth_demo) demo_service 0 1 ''ann'' = Inr (demo_tokens 1 ''ann'' 0)" by (rule demo_pairs) simp
  have law: "ae_gen auth_demo pw = Some h \<Longrightarrow> ae_cmp auth_demo h pw" for pw h by (auto simp: demo_gen_def demo_cmp_def split: if_splits)
  have "fst (serve auth_demo (demo_cx 7 (''Bearer '' @ token_id ''access'' 1 0)) ReqMe demo_two) = Success (PMe (tp_UserID (demo_tokens 1 ''ann'' 0))
        (rr_Username (demo_req_of ''ann'')) (if rr_Nickname (demo_req_of ''ann'') = [] then rr_Username (demo_req_of ''ann'') else rr_Nickname (demo_req_of ''ann'')) [RoleUser]) \<and>
      fst (serve auth_demo (demo_cx 0 []) (ReqLogin (Some (rr_Username (demo_req_of ''ann''), rr_Password (demo_req_of ''ann'')))) demo_two) =
        Success (PPair (demo_tokens 1 ''ann'' 0))"
    by (rule session_lasts [where order = "[''admin'', ''user'']" and cfg = demo_config and es = "[]" and ?m0.0 = demo_start and ?m1.0 = ?m1 and
          cx = "demo_cx 0 []" and rs = ?rs, OF _ _ demo_auth_ok law run])
      (use pair m2 in \<open>simp_all add: after_def actor_def public_def\<close>)
  with run m2 show ?thesis by auto
qed

lemma demo_refresh_valid:
  "ValidateRefreshToken (ae_jwt auth_demo) demo_service 5 (token_id ''refresh'' 2 0) = Inr (issued_claims ''refresh'' 2 ''bob'' 0)"
proof -
  have "find (\<lambda>c. cl_ID c = cl_ID (issued_claims ''refresh'' 2 ''bob'' 0)) demo_issued = Some (issued_claims ''refresh'' 2 ''bob'' 0)"
    by (rule find_key) (simp_all add: demo_issued_ids, simp add: demo_issued_def)
  then show ?thesis
    by (simp add: ValidateRefreshToken_def parseToken_def auth_demo_def table_jwt_def key_func_def issued_claims_def TokenTypeRefresh_def)
qed

lemma deleted_user_keeps_access_witness:
  "\<exists>m. serve auth_demo (demo_cx 1 (''Bearer '' @ token_id ''access'' 1 0)) (ReqDeleteUser ''2'') (assign 1 RoleAdmin demo_two) = (Success PMessage, m)
     \<and> serve auth_demo (demo_cx 5 []) (ReqRefresh (Some (token_id ''refresh'' 2 0))) m = (Success (PPair (demo_tokens 2 ''bob'' 5)), m)
     \<and> fst (serve auth_demo (demo_cx 6 (''Bearer '' @ token_id ''access'' 2 5)) ReqMe m) = Fail CodeNotFound NoReason"
proof -
  let ?m0 = "assign 1 RoleAdmin demo_two"
  have after: "?m0 = after auth_demo [''admin'', ''user''] demo_config (demo_events @ [Appoint 1])"
    using demo_after by (simp add: after_def happen_def)
  have m0: "am_svc ?m0 = demo_service" "am_blacklist ?m0 = Map.empty" "am_bus ?m0 = False"
    "am_user ?m0 = \<lparr>us_users = [demo_user 1 ''ann'', demo_user 2 ''bob''], us_seq = 2\<rparr>" "am_apiKeys ?m0 = NewInMemoryApiKeyStore"
    by (simp_all add: assign_def mem_assign_def demo_two_def)
  have rbac: "mem_installed (am_rbac ?m0)" "mem_userRoles (am_rbac ?m0) 1 = [RoleAdmin]"
    using mem_ensure_new [of "[''admin'', ''user'']"]
    by (simp_all add: assign_def mem_assign_def demo_two_def mem_installed_def Init_def Let_def)
  then obtain ps where "mem_perms (am_rbac ?m0) [RoleAdmin] = Inr ps" "grants_of ps = set (defaultPermissions RoleAdmin)"
    using mem_perms_role by blast
  with rbac have "may_admin ?m0 1"
    by (simp add: may_admin_def HasPermission_def mem_roles_def scan_perms_iff allowed_def defaultPermissions_def RoleAdmin_def)
  moreover have "authenticate auth_demo (demo_cx 1 (''Bearer '' @ token_id ''access'' 1 0)) ?m0 = (Some 1, ?m0)"
    by (rule demo_authenticate) (use m0 in auto)
  moreover have path: "parseUint ''2'' = Some 2"
    by (simp add: parseUint_def scan_u_def scan_digits_def skip_space_def is_space_def digit_val_def Let_def)
  ultimately obtain m where run: "serve auth_demo (demo_cx 1 (''Bearer '' @ token_id ''access'' 1 0)) (ReqDeleteUser ''2'') ?m0 = (Success PMessage, m)"
    and m: "am_blacklist m = Map.empty" "am_apiKeys m = NewInMemoryApiKeyStore"
    using m0 by (simp add: admin_def protected_def RequirePermission_def may_admin_def deleteUser_def DeleteUser_def live_id_def demo_user_def
      publishEvent_def)
  have "ValidateRefreshToken (ae_jwt auth_demo) demo_service 5 (token_id ''refresh'' 2 0) = Inr (issued_claims ''refresh'' 2 ''bob'' 0)"
    by (rule demo_refresh_valid)
  moreover have "GenerateTokenPair (ae_jwt auth_demo) demo_service 5 2 ''bob'' = Inr (demo_tokens 2 ''bob'' 5)" by (rule demo_pairs) simp
  moreover note deleted_user_keeps_access [where ?cx2.0 = "demo_cx 6 (''Bearer '' @ token_id ''access'' 2 5)" and label = "''ci''"
      and ?cx1.0 = "demo_cx 5 []" and tok = "token_id ''refresh'' 2 0" and c = "issued_claims ''refresh'' 2 ''bob'' 0"
      and pair = "demo_tokens 2 ''bob'' 5" and raw = "replicate 32 7" and scopes = "[]", OF _ after demo_auth_ok run path]
  ultimately show ?thesis using run m m0 by (auto simp: issued_claims_def NewInMemoryApiKeyStore_def)
qed

end
