(* ===== verification/TaskStore.thy ===== *)
theory TaskStore
  imports IdStore
begin

text \<open>
  Tasks and their in-memory store: \<open>internal/services/scheduler/task.go\<close> (the records) and
  \<open>store.go\<close> lines 223 to 376 (\<open>InMemoryStore\<close>), one definition per method. \<open>Create\<close> and \<open>Update\<close> write
  the stored record back through the caller's pointer: they return it.

  The store keeps two sequences, tasks and task logs; the identifier contract is interpreted on both.
\<close>

section \<open>Data\<close>

record Task =
  tk_ID :: nat
  tk_Name :: string
  tk_Type :: string
  tk_Expression :: string
  tk_Handler :: string
  tk_Payload :: "string option"
  tk_Status :: string
  tk_MaxRetries :: int
  tk_Timeout :: int
  tk_LastRunAt :: "instant option"
  tk_NextRunAt :: "instant option"
  tk_CreatedAt :: instant
  tk_UpdatedAt :: instant

record TaskLog =
  tl_ID :: nat
  tl_TaskID :: nat
  tl_TaskName :: string
  tl_Status :: string
  tl_StartedAt :: instant
  tl_EndedAt :: "instant option"
  tl_Result :: "string option"
  tl_Error :: string
  tl_CreatedAt :: instant

definition TaskTypeCron :: string where "TaskTypeCron = ''cron''"
definition TaskTypeOnce :: string where "TaskTypeOnce = ''once''"
definition TaskTypeInterval :: string where "TaskTypeInterval = ''interval''"
definition TaskStatusActive :: string where "TaskStatusActive = ''active''"
definition TaskStatusPaused :: string where "TaskStatusPaused = ''paused''"
definition TaskLogRunning :: string where "TaskLogRunning = ''running''"
definition TaskLogSuccess :: string where "TaskLogSuccess = ''success''"
definition TaskLogFailed :: string where "TaskLogFailed = ''failed''"

lemmas task_consts = TaskTypeCron_def TaskTypeOnce_def TaskTypeInterval_def TaskStatusActive_def
  TaskStatusPaused_def TaskLogRunning_def TaskLogSuccess_def TaskLogFailed_def

record InMemoryStore =
  ts_tasks :: "Task list"
  ts_taskLogs :: "TaskLog list"
  ts_taskSeq :: nat
  ts_logSeq :: nat

datatype task_error =
    TaskExists string
  | TaskNotFound nat
  | HandlerNotRegistered string
  | BadCron string
  | BadInterval string
  | UnknownTaskType string
  | EnqueueFailed

definition NewInMemoryStore :: InMemoryStore where
  "NewInMemoryStore = \<lparr>ts_tasks = [], ts_taskLogs = [], ts_taskSeq = 0, ts_logSeq = 0\<rparr>"

section \<open>Tasks\<close>

definition store_CreateTask :: "instant \<Rightarrow> Task \<Rightarrow> InMemoryStore \<Rightarrow> task_error + Task \<times> InMemoryStore" where
  "store_CreateTask now t s =
     (if find (\<lambda>e. tk_Name e = tk_Name t) (ts_tasks s) \<noteq> None then Inl (TaskExists (tk_Name t))
      else let seq = ts_taskSeq s + 1;
               t' = t\<lparr>tk_ID := seq,
                      tk_CreatedAt := (if tk_CreatedAt t = 0 then now else tk_CreatedAt t),
                      tk_UpdatedAt := now,
                      tk_Status := (if tk_Status t = [] then TaskStatusActive else tk_Status t),
                      tk_MaxRetries := (if tk_MaxRetries t \<le> 0 then 3 else tk_MaxRetries t),
                      tk_Timeout := (if tk_Timeout t \<le> 0 then 300 else tk_Timeout t)\<rparr>
           in Inr (t', s\<lparr>ts_tasks := ts_tasks s @ [t'], ts_taskSeq := seq\<rparr>))"

definition over_string :: "string \<Rightarrow> string \<Rightarrow> string" where
  "over_string new old = (if new \<noteq> [] then new else old)"

definition over_option :: "'a option \<Rightarrow> 'a option \<Rightarrow> 'a option" where
  "over_option new old = (if new \<noteq> None then new else old)"

definition over_pos :: "int \<Rightarrow> int \<Rightarrow> int" where
  "over_pos new old = (if new > 0 then new else old)"

text \<open>The assignments that the store's and the scheduler's \<open>UpdateTask\<close> share, field by field.\<close>

definition merge_fields :: "Task \<Rightarrow> Task \<Rightarrow> Task" where
  "merge_fields t e = e\<lparr>
     tk_Name := over_string (tk_Name t) (tk_Name e),
     tk_Type := over_string (tk_Type t) (tk_Type e),
     tk_Expression := over_string (tk_Expression t) (tk_Expression e),
     tk_Handler := over_string (tk_Handler t) (tk_Handler e),
     tk_Payload := over_option (tk_Payload t) (tk_Payload e),
     tk_Status := over_string (tk_Status t) (tk_Status e),
     tk_MaxRetries := over_pos (tk_MaxRetries t) (tk_MaxRetries e),
     tk_Timeout := over_pos (tk_Timeout t) (tk_Timeout e)\<rparr>"

definition merge_stored :: "instant \<Rightarrow> Task \<Rightarrow> Task \<Rightarrow> Task" where
  "merge_stored now t e = (merge_fields t e)\<lparr>
     tk_LastRunAt := over_option (tk_LastRunAt t) (tk_LastRunAt e),
     tk_NextRunAt := over_option (tk_NextRunAt t) (tk_NextRunAt e),
     tk_UpdatedAt := now\<rparr>"

definition store_UpdateTask :: "instant \<Rightarrow> Task \<Rightarrow> InMemoryStore \<Rightarrow> task_error + Task \<times> InMemoryStore" where
  "store_UpdateTask now t s =
     (case find (\<lambda>e. tk_ID e = tk_ID t) (ts_tasks s) of
        None \<Rightarrow> Inl (TaskNotFound (tk_ID t))
      | Some e \<Rightarrow> Inr (merge_stored now t e,
          s\<lparr>ts_tasks := update_first (\<lambda>e. tk_ID e = tk_ID t) (merge_stored now t) (ts_tasks s)\<rparr>))"

definition store_DeleteTask :: "nat \<Rightarrow> InMemoryStore \<Rightarrow> task_error + InMemoryStore" where
  "store_DeleteTask i s =
     (case find (\<lambda>t. tk_ID t = i) (ts_tasks s) of
        None \<Rightarrow> Inl (TaskNotFound i)
      | Some _ \<Rightarrow> Inr (s\<lparr>ts_tasks := delete_first (\<lambda>t. tk_ID t = i) (ts_tasks s)\<rparr>))"

definition store_GetTask :: "nat \<Rightarrow> InMemoryStore \<Rightarrow> task_error + Task" where
  "store_GetTask i s =
     (case find (\<lambda>t. tk_ID t = i) (ts_tasks s) of None \<Rightarrow> Inl (TaskNotFound i) | Some t \<Rightarrow> Inr t)"

definition store_ListTasks :: "InMemoryStore \<Rightarrow> Task list" where
  "store_ListTasks s = ts_tasks s"

definition store_ListActiveTasks :: "InMemoryStore \<Rightarrow> Task list" where
  "store_ListActiveTasks s = filter (\<lambda>t. tk_Status t = TaskStatusActive) (ts_tasks s)"

section \<open>Task logs\<close>

definition store_CreateTaskLog :: "instant \<Rightarrow> TaskLog \<Rightarrow> InMemoryStore \<Rightarrow> TaskLog \<times> InMemoryStore" where
  "store_CreateTaskLog now l s =
     (let seq = ts_logSeq s + 1;
          l' = l\<lparr>tl_ID := seq, tl_CreatedAt := (if tl_CreatedAt l = 0 then now else tl_CreatedAt l)\<rparr>
      in (l', s\<lparr>ts_taskLogs := ts_taskLogs s @ [l'], ts_logSeq := seq\<rparr>))"

definition store_UpdateTaskLog :: "TaskLog \<Rightarrow> InMemoryStore \<Rightarrow> InMemoryStore" where
  "store_UpdateTaskLog l s =
     s\<lparr>ts_taskLogs := update_first (\<lambda>e. tl_ID e = tl_ID l) (\<lambda>_. l) (ts_taskLogs s)\<rparr>"

definition store_TaskLogs :: "nat \<Rightarrow> InMemoryStore \<Rightarrow> TaskLog list" where
  "store_TaskLogs taskID s = filter (\<lambda>l. taskID = 0 \<or> tl_TaskID l = taskID) (ts_taskLogs s)"

section \<open>The identifier contract\<close>

datatype task_edit = TUpdate instant Task | TDelete nat | TNewLog instant TaskLog | TLog TaskLog

definition task_edit :: "task_edit \<Rightarrow> InMemoryStore \<Rightarrow> InMemoryStore" where
  "task_edit e s =
     (case e of
        TUpdate now t \<Rightarrow> (case store_UpdateTask now t s of Inl _ \<Rightarrow> s | Inr (_, s') \<Rightarrow> s')
      | TDelete i \<Rightarrow> (case store_DeleteTask i s of Inl _ \<Rightarrow> s | Inr s' \<Rightarrow> s')
      | TNewLog now l \<Rightarrow> snd (store_CreateTaskLog now l s)
      | TLog l \<Rightarrow> store_UpdateTaskLog l s)"

definition task_create :: "instant \<times> Task \<Rightarrow> InMemoryStore \<Rightarrow> InMemoryStore option" where
  "task_create c s = (case store_CreateTask (fst c) (snd c) s of Inl _ \<Rightarrow> None | Inr (_, s') \<Rightarrow> Some s')"

lemma merge_stored_id [simp]: "tk_ID (merge_stored now t e) = tk_ID e"
  by (simp add: merge_stored_def merge_fields_def)

interpretation tasks: id_store ts_tasks ts_taskSeq tk_ID task_create task_edit
proof unfold_locales
  fix e s
  show "subseq (map tk_ID (ts_tasks (task_edit e s))) (map tk_ID (ts_tasks s))"
    by (auto simp: task_edit_def store_UpdateTask_def store_DeleteTask_def store_CreateTaskLog_def store_UpdateTaskLog_def
      map_update_first subseq_map_delete_first Let_def split: task_edit.split option.split)
  show "ts_taskSeq (task_edit e s) = ts_taskSeq s"
    by (auto simp: task_edit_def store_UpdateTask_def store_DeleteTask_def store_CreateTaskLog_def store_UpdateTaskLog_def
      Let_def split: task_edit.split option.split)
qed (auto simp: task_create_def store_CreateTask_def Let_def split: sum.splits if_splits)

definition log_create :: "instant \<times> TaskLog \<Rightarrow> InMemoryStore \<Rightarrow> InMemoryStore option" where
  "log_create c s = Some (snd (store_CreateTaskLog (fst c) (snd c) s))"

lemma UpdateTaskLog_ids: "map tl_ID (ts_taskLogs (store_UpdateTaskLog l s)) = map tl_ID (ts_taskLogs s)"
  unfolding store_UpdateTaskLog_def by (simp, rule map_update_first) simp

interpretation logs: id_store ts_taskLogs ts_logSeq tl_ID log_create store_UpdateTaskLog
proof unfold_locales
  fix e s
  show "subseq (map tl_ID (ts_taskLogs (store_UpdateTaskLog e s))) (map tl_ID (ts_taskLogs s))"
    by (simp add: UpdateTaskLog_ids)
qed (auto simp: log_create_def store_CreateTaskLog_def store_UpdateTaskLog_def Let_def)

lemma GetTask_in: "store_GetTask i s = Inr t \<Longrightarrow> t \<in> set (ts_tasks s) \<and> tk_ID t = i"
  by (auto simp: store_GetTask_def split: option.splits dest: find_SomeD)

end
