(* ===== verification/Scheduler.thy ===== *)
theory Scheduler
  imports TaskStore
begin

text \<open>
  The task scheduler, \<open>internal/services/scheduler/scheduler.go\<close>, on the in-memory store.

  The cron library is seen through the calls the scheduler makes: \<open>AddFunc\<close> and \<open>Schedule\<close> add an entry
  and return its number, \<open>Remove\<close> takes the entry of a number away. An entry holds the task record
  that its closure captured. The pending goroutines of one-off tasks are a list of captured tasks.
  Whether a handler is registered, a cron expression parses, a duration parses, an enqueue succeeds
  and what a handler returns are arguments (record \<open>env\<close>). A method runs without interruption, except
  for a task run, which is the two steps \<open>execute_begin\<close> and \<open>execute_end\<close> around the handler.
\<close>

section \<open>State\<close>

record CronEntry =
  ce_id :: nat
  ce_task :: Task

record Cron =
  cr_entries :: "CronEntry list"
  cr_nextID :: nat
  cr_running :: bool

record Scheduler =
  sc_store :: InMemoryStore
  sc_cron :: "Cron option"
  sc_cronJobs :: "nat \<rightharpoonup> nat"
  sc_once :: "Task list"
  sc_closed :: bool
  sc_asynq :: bool
  sc_timeout :: int
  sc_maxRetries :: int

record env =
  env_handler :: "string \<Rightarrow> bool"
  env_cron_ok :: "string \<Rightarrow> bool"
  env_duration :: "string \<Rightarrow> duration option"
  env_enqueue_ok :: bool

definition NewScheduler :: "InMemoryStore \<Rightarrow> int \<Rightarrow> int \<Rightarrow> bool \<Rightarrow> Scheduler" where
  "NewScheduler store defaultTimeout defaultMaxRetries asynq =
     \<lparr>sc_store = store, sc_cron = None, sc_cronJobs = Map.empty, sc_once = [], sc_closed = False, sc_asynq = asynq,
      sc_timeout = (if defaultTimeout \<le> 0 then 300 else defaultTimeout),
      sc_maxRetries = (if defaultMaxRetries \<le> 0 then 3 else defaultMaxRetries)\<rparr>"

section \<open>Scheduling one task\<close>

definition cron_add :: "Task \<Rightarrow> Cron \<Rightarrow> nat \<times> Cron" where
  "cron_add t c =
     (let i = cr_nextID c + 1
      in (i, c\<lparr>cr_entries := cr_entries c @ [\<lparr>ce_id = i, ce_task = t\<rparr>], cr_nextID := i\<rparr>))"

definition cron_remove :: "nat \<Rightarrow> Cron \<Rightarrow> Cron" where
  "cron_remove i c = c\<lparr>cr_entries := filter (\<lambda>e. ce_id e \<noteq> i) (cr_entries c)\<rparr>"

definition add_entry :: "Task \<Rightarrow> Scheduler \<Rightarrow> Scheduler" where
  "add_entry t s =
     (case sc_cron s of
        None \<Rightarrow> s
      | Some c \<Rightarrow> (case cron_add t c of (i, c') \<Rightarrow>
          s\<lparr>sc_cron := Some c', sc_cronJobs := (sc_cronJobs s)(tk_ID t \<mapsto> i)\<rparr>))"

text \<open>
  \<open>scheduleTask\<close>, called with a cron scheduler only. The next run written into the record is one minute
  ahead for every cron expression (\<open>nextTime\<close>) and now for the other types.
\<close>

definition nextTime :: "instant \<Rightarrow> string \<Rightarrow> instant" where
  "nextTime now expr = now + 60000000000"

definition scheduleTask :: "env \<Rightarrow> instant \<Rightarrow> Task \<Rightarrow> Scheduler \<Rightarrow> task_error option \<times> Scheduler" where
  "scheduleTask E now t s =
     (if \<not> env_handler E (tk_Handler t) then (Some (HandlerNotRegistered (tk_Handler t)), s)
      else if tk_Type t = TaskTypeCron then
        (if \<not> env_cron_ok E (tk_Expression t) then (Some (BadCron (tk_Expression t)), s)
         else (None, add_entry (t\<lparr>tk_NextRunAt := Some (nextTime now (tk_Expression t))\<rparr>) s))
      else if tk_Type t = TaskTypeInterval then
        (case env_duration E (tk_Expression t) of
           None \<Rightarrow> (Some (BadInterval (tk_Expression t)), s)
         | Some d \<Rightarrow> (None, add_entry (t\<lparr>tk_NextRunAt := Some now\<rparr>) s))
      else if tk_Type t = TaskTypeOnce then
        (None, s\<lparr>sc_once := sc_once s @ [t\<lparr>tk_NextRunAt := Some now\<rparr>]\<rparr>)
      else (Some (UnknownTaskType (tk_Type t)), s))"

definition schedule_if_running :: "env \<Rightarrow> instant \<Rightarrow> Task \<Rightarrow> Scheduler \<Rightarrow> task_error option \<times> Scheduler" where
  "schedule_if_running E now t s =
     (if sc_cron s \<noteq> None then scheduleTask E now t s else (None, s))"

definition unschedule :: "nat \<Rightarrow> Scheduler \<Rightarrow> Scheduler" where
  "unschedule i s =
     (case sc_cron s of
        None \<Rightarrow> s
      | Some c \<Rightarrow>
          (case sc_cronJobs s i of
             None \<Rightarrow> s
           | Some eid \<Rightarrow> s\<lparr>sc_cron := Some (cron_remove eid c), sc_cronJobs := (sc_cronJobs s)(i := None)\<rparr>))"

section \<open>The methods\<close>

definition AddTask :: "env \<Rightarrow> instant \<Rightarrow> Task \<Rightarrow> Scheduler \<Rightarrow> task_error option \<times> Scheduler" where
  "AddTask E now t s =
     (case store_CreateTask now t (sc_store s) of
        Inl e \<Rightarrow> (Some e, s)
      | Inr (t', st) \<Rightarrow>
          let s1 = s\<lparr>sc_store := st\<rparr>
          in if tk_Status t' = TaskStatusActive then schedule_if_running E now t' s1 else (None, s1))"

definition UpdateTask :: "env \<Rightarrow> instant \<Rightarrow> Task \<Rightarrow> Scheduler \<Rightarrow> task_error option \<times> Scheduler" where
  "UpdateTask E now t s =
     (case store_GetTask (tk_ID t) (sc_store s) of
        Inl e \<Rightarrow> (Some (TaskNotFound (tk_ID t)), s)
      | Inr existing \<Rightarrow>
          let s1 = unschedule (tk_ID t) s
          in case store_UpdateTask now (merge_fields t existing) (sc_store s1) of
               Inl e \<Rightarrow> (Some e, s1)
             | Inr (existing', st) \<Rightarrow>
                 let s2 = s1\<lparr>sc_store := st\<rparr>
                 in if tk_Status existing' = TaskStatusActive then schedule_if_running E now existing' s2
                    else (None, s2))"

definition DeleteTask :: "nat \<Rightarrow> Scheduler \<Rightarrow> task_error option \<times> Scheduler" where
  "DeleteTask i s =
     (case store_DeleteTask i (sc_store s) of
        Inl e \<Rightarrow> (Some e, s)
      | Inr st \<Rightarrow> (None, unschedule i (s\<lparr>sc_store := st\<rparr>)))"

definition PauseTask :: "instant \<Rightarrow> nat \<Rightarrow> Scheduler \<Rightarrow> task_error option \<times> Scheduler" where
  "PauseTask now i s =
     (case store_GetTask i (sc_store s) of
        Inl e \<Rightarrow> (Some e, s)
      | Inr t \<Rightarrow>
          (case store_UpdateTask now (t\<lparr>tk_Status := TaskStatusPaused\<rparr>) (sc_store s) of
             Inl e \<Rightarrow> (Some e, s)
           | Inr (_, st) \<Rightarrow> (None, s\<lparr>sc_store := st\<rparr>)))"

definition ResumeTask :: "env \<Rightarrow> instant \<Rightarrow> nat \<Rightarrow> Scheduler \<Rightarrow> task_error option \<times> Scheduler" where
  "ResumeTask E now i s =
     (case store_GetTask i (sc_store s) of
        Inl e \<Rightarrow> (Some e, s)
      | Inr t \<Rightarrow>
          (case store_UpdateTask now (t\<lparr>tk_Status := TaskStatusActive\<rparr>) (sc_store s) of
             Inl e \<Rightarrow> (Some e, s)
           | Inr (t', st) \<Rightarrow> schedule_if_running E now t' (s\<lparr>sc_store := st\<rparr>)))"

definition schedule_all :: "env \<Rightarrow> instant \<Rightarrow> Task list \<Rightarrow> Scheduler \<Rightarrow> Scheduler" where
  "schedule_all E now ts s = fold (\<lambda>t s. snd (scheduleTask E now t s)) ts s"

text \<open>\<open>asynq_start\<close> is the answer of the queue server, which is asked when one is configured.\<close>

definition Start :: "env \<Rightarrow> bool \<Rightarrow> instant \<Rightarrow> Scheduler \<Rightarrow> bool \<times> Scheduler" where
  "Start E asynq_start now s =
     (if sc_asynq s \<and> \<not> asynq_start then (False, s)
      else let s1 = s\<lparr>sc_cron := Some \<lparr>cr_entries = [], cr_nextID = 0, cr_running = True\<rparr>\<rparr>
           in (True, schedule_all E now (store_ListActiveTasks (sc_store s1)) s1))"

definition Stop :: "Scheduler \<Rightarrow> Scheduler" where
  "Stop s = s\<lparr>sc_closed := True, sc_once := [],
     sc_cron := map_option (\<lambda>c. c\<lparr>cr_running := False\<rparr>) (sc_cron s), sc_cronJobs := Map.empty\<rparr>"

section \<open>Runs\<close>

text \<open>
  The two halves of a run: what \<open>executeTask\<close> does before and after \<open>handler.Execute\<close>. With a queue the
  task is handed over instead, without a handler it is dropped.
\<close>

definition execute_begin :: "env \<Rightarrow> instant \<Rightarrow> Task \<Rightarrow> Scheduler \<Rightarrow> TaskLog option \<times> Scheduler" where
  "execute_begin E now t s =
     (if sc_asynq s then (None, s)
      else if \<not> env_handler E (tk_Handler t) then (None, s)
      else case store_CreateTaskLog now
             \<lparr>tl_ID = 0, tl_TaskID = tk_ID t, tl_TaskName = tk_Name t, tl_Status = TaskLogRunning,
              tl_StartedAt = now, tl_EndedAt = None, tl_Result = None, tl_Error = [], tl_CreatedAt = 0\<rparr>
             (sc_store s) of
             (l, st) \<Rightarrow> (Some l, s\<lparr>sc_store := st\<rparr>))"

definition end_log :: "instant \<Rightarrow> string option \<Rightarrow> TaskLog \<Rightarrow> TaskLog" where
  "end_log now err l =
     (case err of
        Some e \<Rightarrow> l\<lparr>tl_EndedAt := Some now, tl_Status := TaskLogFailed, tl_Error := e\<rparr>
      | None \<Rightarrow> l\<lparr>tl_EndedAt := Some now, tl_Status := TaskLogSuccess\<rparr>)"

definition execute_end :: "instant \<Rightarrow> string option \<Rightarrow> TaskLog \<Rightarrow> Scheduler \<Rightarrow> Scheduler" where
  "execute_end now err l s = s\<lparr>sc_store := store_UpdateTaskLog (end_log now err l) (sc_store s)\<rparr>"

text \<open>\<open>RunTaskNow\<close> up to the start of its goroutine, which then is a run as above.\<close>

definition RunTaskNow :: "env \<Rightarrow> instant \<Rightarrow> nat \<Rightarrow> Scheduler \<Rightarrow> task_error option \<times> TaskLog option \<times> Scheduler" where
  "RunTaskNow E now i s =
     (case store_GetTask i (sc_store s) of
        Inl e \<Rightarrow> (Some e, None, s)
      | Inr t \<Rightarrow>
          if sc_asynq s then (if env_enqueue_ok E then None else Some EnqueueFailed, None, s)
          else if \<not> env_handler E (tk_Handler t) then (Some (HandlerNotRegistered (tk_Handler t)), None, s)
          else (None, execute_begin E now t s))"

section \<open>Histories\<close>

datatype sched_op =
    SAdd instant Task
  | SUpdate instant Task
  | SDelete nat
  | SPause instant nat
  | SResume instant nat
  | SBegin instant Task
  | SEnd instant "string option" TaskLog

definition sched_step :: "env \<times> sched_op \<Rightarrow> Scheduler \<Rightarrow> Scheduler" where
  "sched_step Eop s =
     (case Eop of (E, op) \<Rightarrow>
        (case op of
           SAdd now t \<Rightarrow> snd (AddTask E now t s)
         | SUpdate now t \<Rightarrow> snd (UpdateTask E now t s)
         | SDelete i \<Rightarrow> snd (DeleteTask i s)
         | SPause now i \<Rightarrow> snd (PauseTask now i s)
         | SResume now i \<Rightarrow> snd (ResumeTask E now i s)
         | SBegin now t \<Rightarrow> snd (execute_begin E now t s)
         | SEnd now err l \<Rightarrow> execute_end now err l s))"

fun sched_run :: "(env \<times> sched_op) list \<Rightarrow> Scheduler \<Rightarrow> Scheduler" where
  "sched_run [] s = s"
| "sched_run (op # ops) s = sched_run ops (sched_step op s)"

definition entries :: "Scheduler \<Rightarrow> CronEntry list" where
  "entries s = (case sc_cron s of None \<Rightarrow> [] | Some c \<Rightarrow> cr_entries c)"

section \<open>Invariants\<close>

text \<open>
  \<open>jobs_ok\<close>: entry numbers are distinct and at most the counter, and \<open>cronJobs\<close> maps a task to the
  number of an entry of that task. It holds in every history.

  \<open>current\<close>: moreover every entry is the one \<open>cronJobs\<close> knows for its task, and it runs the task record
  that the store holds now, which is active.
\<close>

definition jobs_ok :: "Scheduler \<Rightarrow> bool" where
  "jobs_ok s \<longleftrightarrow>
     distinct (map ce_id (entries s)) \<and>
     (\<forall>c. sc_cron s = Some c \<longrightarrow> (\<forall>e \<in> set (cr_entries c). ce_id e \<le> cr_nextID c)) \<and>
     (\<forall>i eid. sc_cronJobs s i = Some eid \<longrightarrow> (\<exists>e \<in> set (entries s). ce_id e = eid \<and> tk_ID (ce_task e) = i))"

definition stored :: "Scheduler \<Rightarrow> Task \<Rightarrow> bool" where
  "stored s t \<longleftrightarrow> (\<exists>t' \<in> set (ts_tasks (sc_store s)).
     t = t'\<lparr>tk_NextRunAt := tk_NextRunAt t\<rparr> \<and> tk_Status t' = TaskStatusActive)"

definition current :: "Scheduler \<Rightarrow> bool" where
  "current s \<longleftrightarrow> tasks.ids_ok (sc_store s) \<and> jobs_ok s \<and>
     (\<forall>e \<in> set (entries s). sc_cronJobs s (tk_ID (ce_task e)) = Some (ce_id e) \<and> stored s (ce_task e))"

definition has_entry :: "Scheduler \<Rightarrow> nat \<Rightarrow> bool" where
  "has_entry s i \<longleftrightarrow> (\<exists>e \<in> set (entries s). tk_ID (ce_task e) = i)"

lemma entries_update [simp]:
  "entries (s\<lparr>sc_store := st\<rparr>) = entries s" "entries (s\<lparr>sc_once := os\<rparr>) = entries s"
  "jobs_ok (s\<lparr>sc_store := st\<rparr>) = jobs_ok s" "jobs_ok (s\<lparr>sc_once := os\<rparr>) = jobs_ok s"
  by (simp_all add: entries_def jobs_ok_def)

lemma add_entry_entries:
  "sc_cron s = Some c \<Longrightarrow> entries (add_entry t s) = entries s @ [\<lparr>ce_id = Suc (cr_nextID c), ce_task = t\<rparr>]"
  by (simp add: entries_def add_entry_def cron_add_def Let_def)

lemma add_entry_jobs:
  assumes "jobs_ok s"
  shows "jobs_ok (add_entry t s)"
proof (cases "sc_cron s")
  case (Some c)
  have le: "\<forall>e \<in> set (cr_entries c). ce_id e \<le> cr_nextID c" "cr_entries c = entries s"
    using assms Some by (auto simp: jobs_ok_def entries_def)
  then have "Suc (cr_nextID c) \<notin> ce_id ` set (entries s)" by auto
  with assms le Some show ?thesis
    unfolding jobs_ok_def add_entry_entries [OF Some]
    by (auto simp: add_entry_def cron_add_def Let_def le_SucI split: if_splits)
qed (use assms in \<open>simp add: add_entry_def\<close>)

lemma add_entry_store [simp]: "sc_store (add_entry t s) = sc_store s"
  by (simp add: add_entry_def cron_add_def Let_def split: option.split)

lemma add_entry_current:
  assumes c: "current s" and t: "stored s t" and new: "\<not> has_entry s (tk_ID t)"
  shows "current (add_entry t s)"
proof (cases "sc_cron s")
  case None
  with c show ?thesis by (simp add: add_entry_def)
next
  case (Some cr)
  have jobs: "sc_cronJobs (add_entry t s) = (sc_cronJobs s)(tk_ID t \<mapsto> Suc (cr_nextID cr))"
    using Some by (simp add: add_entry_def cron_add_def Let_def)
  have st: "stored (add_entry t s) = stored s" by (simp add: stored_def fun_eq_iff)
  show ?thesis
    using c t new add_entry_jobs [of s t]
    unfolding current_def jobs st add_entry_entries [OF Some] by (auto simp: has_entry_def)
qed

lemma unschedule_store [simp]: "sc_store (unschedule i s) = sc_store s"
  by (simp add: unschedule_def split: option.split)

lemma unschedule_set_store: "unschedule i (s\<lparr>sc_store := st\<rparr>) = (unschedule i s)\<lparr>sc_store := st\<rparr>"
  by (simp add: unschedule_def split: option.split)

lemma unschedule_entries:
  "entries (unschedule i s) =
     (case sc_cronJobs s i of None \<Rightarrow> entries s | Some eid \<Rightarrow> filter (\<lambda>e. ce_id e \<noteq> eid) (entries s))"
  by (simp add: unschedule_def entries_def cron_remove_def split: option.split)

lemma unschedule_job_of:
  "sc_cronJobs (unschedule i s) = (if sc_cron s = None then sc_cronJobs s else (sc_cronJobs s)(i := None))"
  by (auto simp: unschedule_def fun_eq_iff split: option.split)

lemma unschedule_jobs:
  assumes "jobs_ok s"
  shows "jobs_ok (unschedule i s)"
proof (cases "sc_cronJobs s i")
  case None
  then have "unschedule i s = s" by (simp add: unschedule_def split: option.split)
  with assms show ?thesis by simp
next
  case (Some eid)
  then obtain e where e: "e \<in> set (entries s)" "ce_id e = eid" "tk_ID (ce_task e) = i"
    using assms unfolding jobs_ok_def by blast
  then obtain c where c: "sc_cron s = Some c" by (cases "sc_cron s") (auto simp: entries_def)
  have uniq: "x = e" if "ce_id x = eid" "x \<in> set (entries s)" for x
    using assms e that unfolding jobs_ok_def by (auto dest: distinct_map_eq)
  have ent: "entries (unschedule i s) = filter (\<lambda>e. ce_id e \<noteq> eid) (entries s)"
    using Some by (simp add: unschedule_entries)
  have "distinct (map ce_id (entries (unschedule i s)))"
    unfolding ent using assms by (simp add: jobs_ok_def distinct_map_filter)
  moreover have "\<forall>c'. sc_cron (unschedule i s) = Some c' \<longrightarrow> (\<forall>e \<in> set (cr_entries c'). ce_id e \<le> cr_nextID c')"
    using assms c Some by (auto simp: unschedule_def cron_remove_def jobs_ok_def)
  moreover have "\<exists>x \<in> set (entries (unschedule i s)). ce_id x = eid' \<and> tk_ID (ce_task x) = j"
    if j: "sc_cronJobs (unschedule i s) j = Some eid'" for j eid'
  proof -
    from j c have "j \<noteq> i" "sc_cronJobs s j = Some eid'"
      by (auto simp: unschedule_job_of split: if_splits)
    then obtain x where x: "x \<in> set (entries s)" "ce_id x = eid'" "tk_ID (ce_task x) = j"
      using assms unfolding jobs_ok_def by blast
    with uniq [of x] e(3) \<open>j \<noteq> i\<close> show ?thesis unfolding ent by auto
  qed
  ultimately show ?thesis unfolding jobs_ok_def by blast
qed

lemma unschedule_current:
  assumes "current s"
  shows "current (unschedule i s)" and "\<not> has_entry (unschedule i s) i"
proof -
  have st: "stored (unschedule i s) = stored s" by (simp add: stored_def fun_eq_iff)
  have d: "distinct (map ce_id (entries s))" using assms by (simp add: current_def jobs_ok_def)
  show "\<not> has_entry (unschedule i s) i"
    using assms by (auto simp: has_entry_def unschedule_entries current_def split: option.splits)
  have "sc_cronJobs (unschedule i s) (tk_ID (ce_task e)) = Some (ce_id e)" if e: "e \<in> set (entries (unschedule i s))" for e
  proof -
    have "e \<in> set (entries s)" using e by (auto simp: unschedule_entries split: option.splits)
    moreover have "tk_ID (ce_task e) \<noteq> i"
      using e \<open>\<not> has_entry (unschedule i s) i\<close> by (auto simp: has_entry_def)
    ultimately show ?thesis using assms by (auto simp: unschedule_job_of current_def)
  qed
  moreover have "set (entries (unschedule i s)) \<subseteq> set (entries s)"
    by (auto simp: unschedule_entries split: option.split)
  ultimately show "current (unschedule i s)"
    using assms unschedule_jobs [of s i] by (auto simp: current_def st)
qed

lemma set_store_current:
  assumes "current s" "tasks.ids_ok st"
    and "\<And>t. t \<in> set (ts_tasks (sc_store s)) \<Longrightarrow> has_entry s (tk_ID t) \<Longrightarrow> t \<in> set (ts_tasks st)"
  shows "current (s\<lparr>sc_store := st\<rparr>)"
proof -
  have "stored (s\<lparr>sc_store := st\<rparr>) (ce_task e)" if "e \<in> set (entries s)" for e
  proof -
    from that assms(1) obtain t' where t': "t' \<in> set (ts_tasks (sc_store s))" "tk_Status t' = TaskStatusActive"
      "ce_task e = t'\<lparr>tk_NextRunAt := tk_NextRunAt (ce_task e)\<rparr>"
      by (auto simp: current_def stored_def)
    then have "tk_ID t' = tk_ID (ce_task e)" by (metis Task.select_convs(1) Task.surjective Task.update_convs(11))
    with that t'(1) have "t' \<in> set (ts_tasks st)"
      by (intro assms(3)) (auto simp: has_entry_def)
    with t' show ?thesis by (auto simp: stored_def)
  qed
  with assms(1,2) show ?thesis by (simp add: current_def)
qed

lemma scheduleTask_current:
  assumes "current s" "t \<in> set (ts_tasks (sc_store s))" "tk_Status t = TaskStatusActive" "\<not> has_entry s (tk_ID t)"
  shows "current (snd (scheduleTask E now t s))"
proof -
  have "current (add_entry (t\<lparr>tk_NextRunAt := n\<rparr>) s)" for n
    by (rule add_entry_current) (use assms in \<open>auto simp: stored_def\<close>)
  moreover have "current (s\<lparr>sc_once := os\<rparr>)" for os
    using assms(1) by (simp add: current_def stored_def)
  ultimately show ?thesis
    using assms(1) by (auto simp: scheduleTask_def split: option.split)
qed

lemma schedule_if_running_current:
  assumes "current s" "t \<in> set (ts_tasks (sc_store s))" "tk_Status t = TaskStatusActive" "\<not> has_entry s (tk_ID t)"
  shows "current (snd (schedule_if_running E now t s))"
  using assms by (simp add: schedule_if_running_def scheduleTask_current)

text \<open>The operations that keep every entry current: all but pausing and resuming.\<close>

fun keeps_current :: "sched_op \<Rightarrow> bool" where
  "keeps_current (SPause now i) = False"
| "keeps_current (SResume now i) = False"
| "keeps_current op = True"

lemma stored_id: "stored s t \<Longrightarrow> tk_ID t \<in> tk_ID ` set (ts_tasks (sc_store s))"
  by (auto simp: stored_def) (metis Task.select_convs(1) Task.surjective Task.update_convs(11) imageI)

lemma has_entry_stored: "current s \<Longrightarrow> has_entry s i \<Longrightarrow> i \<in> tk_ID ` set (ts_tasks (sc_store s))"
  using stored_id by (auto simp: has_entry_def current_def)

lemma add_entry_has: "has_entry (add_entry t s) i \<Longrightarrow> has_entry s i \<or> i = tk_ID t"
proof (cases "sc_cron s")
  case (Some c)
  then show "has_entry (add_entry t s) i \<Longrightarrow> has_entry s i \<or> i = tk_ID t"
    by (auto simp: has_entry_def add_entry_entries)
qed (simp add: add_entry_def)

lemma scheduleTask_has: "has_entry (snd (scheduleTask E now t s)) i \<Longrightarrow> has_entry s i \<or> i = tk_ID t"
  using add_entry_has
  by (fastforce simp: scheduleTask_def has_entry_def [of "s\<lparr>sc_once := os\<rparr>" for os] has_entry_def [of s]
    split: if_splits option.splits)

lemma AddTask_current: "current s \<Longrightarrow> current (snd (AddTask E now t s))"
proof -
  assume c: "current s"
  then have ids: "tasks.ids_ok (sc_store s)" by (simp add: current_def)
  show ?thesis
  proof (cases "store_CreateTask now t (sc_store s)")
    case (Inl e)
    with c show ?thesis by (simp add: AddTask_def)
  next
    case (Inr r)
    obtain t' st where r: "r = (t', st)" by (cases r)
    with Inr have st: "task_create (now, t) (sc_store s) = Some st" and t': "ts_tasks st = ts_tasks (sc_store s) @ [t']"
      "tk_ID t' = Suc (ts_taskSeq (sc_store s))"
      by (auto simp: task_create_def store_CreateTask_def Let_def split: if_splits)
    have s1: "current (s\<lparr>sc_store := st\<rparr>)"
      using c tasks.create_ids_ok [OF ids st] t' by (intro set_store_current) auto
    have "\<not> has_entry s (tk_ID t')"
      using tasks.create_fresh [OF ids st] has_entry_stored [OF c] t'(2) by metis
    then have "\<not> has_entry (s\<lparr>sc_store := st\<rparr>) (tk_ID t')" by (simp add: has_entry_def)
    with s1 Inr r t' show ?thesis
      by (auto simp: AddTask_def Let_def intro: schedule_if_running_current)
  qed
qed

lemma UpdateTask_current: "current s \<Longrightarrow> current (snd (UpdateTask E now t s))"
proof -
  assume c: "current s"
  let ?i = "tk_ID t" and ?s1 = "unschedule (tk_ID t) s"
  show ?thesis
  proof (cases "store_GetTask ?i (sc_store s)")
    case (Inl e)
    with c show ?thesis by (simp add: UpdateTask_def)
  next
    case (Inr ex)
    note u = unschedule_current [OF c, of ?i]
    have ex: "find (\<lambda>e. tk_ID e = ?i) (ts_tasks (sc_store s)) = Some ex" "tk_ID (merge_fields t ex) = ?i"
      using Inr GetTask_in [OF Inr] by (auto simp: store_GetTask_def merge_fields_def split: option.splits)
    define ex' where "ex' = merge_stored now (merge_fields t ex) ex"
    define st where "st = (sc_store s)\<lparr>ts_tasks := update_first (\<lambda>e. tk_ID e = ?i)
      (merge_stored now (merge_fields t ex)) (ts_tasks (sc_store s))\<rparr>"
    have up: "store_UpdateTask now (merge_fields t ex) (sc_store ?s1) = Inr (ex', st)"
      using ex by (simp add: store_UpdateTask_def ex'_def st_def)
    have "task_edit (TUpdate now (merge_fields t ex)) (sc_store s) = st"
      using up by (simp add: task_edit_def)
    then have "tasks.ids_ok st"
      using tasks.edit_ids_ok c by (metis current_def)
    moreover have "x \<in> set (ts_tasks st)" if "x \<in> set (ts_tasks (sc_store ?s1))" "has_entry ?s1 (tk_ID x)" for x
    proof -
      have "tk_ID x \<noteq> ?i" using that(2) u(2) by auto
      with that(1) show ?thesis by (simp add: st_def in_update_first_other)
    qed
    ultimately have s2: "current (?s1\<lparr>sc_store := st\<rparr>)"
      by (intro set_store_current [OF u(1)]) auto
    have "ex' \<in> set (ts_tasks st)" "tk_ID ex' = ?i"
      using ex(1) GetTask_in [OF Inr] by (auto simp: ex'_def st_def intro: update_first_in)
    moreover have "\<not> has_entry (?s1\<lparr>sc_store := st\<rparr>) ?i" using u(2) by (simp add: has_entry_def)
    ultimately show ?thesis
      using Inr up s2 by (auto simp: UpdateTask_def Let_def intro: schedule_if_running_current)
  qed
qed

lemma DeleteTask_current: "current s \<Longrightarrow> current (snd (DeleteTask i s))"
proof -
  assume c: "current s"
  show ?thesis
  proof (cases "store_DeleteTask i (sc_store s)")
    case (Inl e)
    with c show ?thesis by (simp add: DeleteTask_def)
  next
    case (Inr st)
    note u = unschedule_current [OF c, of i]
    have "task_edit (TDelete i) (sc_store s) = st" using Inr by (simp add: task_edit_def)
    then have "tasks.ids_ok st" using tasks.edit_ids_ok c by (metis current_def)
    moreover have "x \<in> set (ts_tasks st)" if "x \<in> set (ts_tasks (sc_store (unschedule i s)))" "has_entry (unschedule i s) (tk_ID x)" for x
    proof -
      have "tk_ID x \<noteq> i" using that(2) u(2) by auto
      with that(1) Inr show ?thesis
        by (auto simp: store_DeleteTask_def in_delete_first_other split: option.splits)
    qed
    ultimately have "current ((unschedule i s)\<lparr>sc_store := st\<rparr>)"
      by (intro set_store_current [OF u(1)]) auto
    with Inr show ?thesis by (simp add: DeleteTask_def unschedule_set_store)
  qed
qed

lemma same_tasks_current:
  "current s \<Longrightarrow> ts_tasks st = ts_tasks (sc_store s) \<Longrightarrow> ts_taskSeq st = ts_taskSeq (sc_store s) \<Longrightarrow>
   current (s\<lparr>sc_store := st\<rparr>)"
  by (rule set_store_current) (simp_all add: current_def tasks.ids_ok_def)

lemma begin_current: "current s \<Longrightarrow> current (snd (execute_begin E now t s))"
  by (auto simp: execute_begin_def store_CreateTaskLog_def Let_def intro!: same_tasks_current)

lemma end_current: "current s \<Longrightarrow> current (execute_end now err l s)"
  by (auto simp: execute_end_def store_UpdateTaskLog_def intro!: same_tasks_current)

lemma step_current: "current s \<Longrightarrow> keeps_current (snd Eop) \<Longrightarrow> current (sched_step Eop s)"
  by (cases Eop; cases "snd Eop")
    (auto simp: sched_step_def AddTask_current UpdateTask_current DeleteTask_current begin_current end_current)

lemma run_current: "current s \<Longrightarrow> (\<forall>op \<in> set ops. keeps_current (snd op)) \<Longrightarrow> current (sched_run ops s)"
  by (induction ops arbitrary: s) (simp_all add: step_current)

lemma schedule_all_current:
  assumes "current s" "distinct (map tk_ID ts)"
    and "\<And>t. t \<in> set ts \<Longrightarrow> t \<in> set (ts_tasks (sc_store s)) \<and> tk_Status t = TaskStatusActive \<and> \<not> has_entry s (tk_ID t)"
  shows "current (schedule_all E now ts s)"
  using assms unfolding schedule_all_def
proof (induction ts arbitrary: s)
  case Nil
  then show ?case by simp
next
  case (Cons t ts)
  let ?s = "snd (scheduleTask E now t s)"
  have store: "sc_store ?s = sc_store s"
    by (simp add: scheduleTask_def split: option.split)
  have entr: "has_entry ?s i \<Longrightarrow> has_entry s i \<or> i = tk_ID t" for i
    by (rule scheduleTask_has)
  have "current ?s" using Cons.prems(1,3) by (intro scheduleTask_current) auto
  moreover have "x \<in> set (ts_tasks (sc_store ?s)) \<and> tk_Status x = TaskStatusActive \<and> \<not> has_entry ?s (tk_ID x)"
    if "x \<in> set ts" for x
  proof -
    have "tk_ID x \<noteq> tk_ID t" using that Cons.prems(2) by (metis distinct.simps(2) image_eqI list.set_map list.simps(9))
    then have "\<not> has_entry ?s (tk_ID x)" using entr [of "tk_ID x"] that Cons.prems(3) [of x] by auto
    with that Cons.prems(3) [of x] store show ?thesis by simp
  qed
  ultimately show ?case using Cons.IH Cons.prems(2) by simp
qed

lemma Start_current:
  assumes ids: "tasks.ids_ok (sc_store s)" and jobs: "sc_cronJobs s = Map.empty" and ok: "Start E a now s = (True, s')"
  shows "current s'"
proof -
  define s1 where "s1 = s\<lparr>sc_cron := Some \<lparr>cr_entries = [], cr_nextID = 0, cr_running = True\<rparr>\<rparr>"
  have ent: "entries s1 = []" by (simp add: s1_def entries_def)
  have "current s1" using ids jobs by (simp add: current_def jobs_ok_def ent) (simp add: s1_def)
  moreover have "distinct (map tk_ID (store_ListActiveTasks (sc_store s1)))"
    using tasks.ids_distinct [OF ids] by (simp add: store_ListActiveTasks_def s1_def distinct_map_filter)
  ultimately have "current (schedule_all E now (store_ListActiveTasks (sc_store s1)) s1)"
    by (rule schedule_all_current) (auto simp: store_ListActiveTasks_def has_entry_def ent)
  then show ?thesis using ok by (auto simp: Start_def Let_def s1_def split: if_splits)
qed

section \<open>Properties\<close>

text \<open>The schedule follows the store. Start the scheduler on a well-formed store and run any
  history of added, updated and deleted tasks and of task runs (with any handlers and expressions,
  failures included): every cron entry belongs to a task that the store holds now and that is active,
  the closure of the entry holds that very record (up to its own next-run field), \<open>cronJobs\<close> knows the
  entry, and no task has two entries.\<close>

lemma schedule_follows_store:
  assumes "tasks.ids_ok (sc_store s)" "sc_cronJobs s = Map.empty" "Start E0 a now s = (True, s0)"
    and "\<forall>op \<in> set ops. keeps_current (snd op)"
  shows "\<forall>e \<in> set (entries (sched_run ops s0)).
    (\<exists>t \<in> set (ts_tasks (sc_store (sched_run ops s0))). tk_Status t = TaskStatusActive \<and>
        ce_task e = t\<lparr>tk_NextRunAt := tk_NextRunAt (ce_task e)\<rparr>) \<and>
    sc_cronJobs (sched_run ops s0) (tk_ID (ce_task e)) = Some (ce_id e) \<and>
    (\<forall>e' \<in> set (entries (sched_run ops s0)). tk_ID (ce_task e') = tk_ID (ce_task e) \<longrightarrow> e' = e)"
proof -
  have c: "current (sched_run ops s0)"
    using Start_current [OF assms(1-3)] assms(4) by (rule run_current)
  then have d: "distinct (map ce_id (entries (sched_run ops s0)))"
    by (simp add: current_def jobs_ok_def)
  from c show ?thesis
    by (auto simp: current_def stored_def) (metis d distinct_map_eq option.inject)
qed

definition demo_env :: env where
  "demo_env = \<lparr>env_handler = (\<lambda>h. h = ''h''), env_cron_ok = (\<lambda>_. True), env_duration = (\<lambda>_. Some 5), env_enqueue_ok = True\<rparr>"

definition demo_task :: Task where
  "demo_task = \<lparr>tk_ID = 0, tk_Name = ''t'', tk_Type = ''cron'', tk_Expression = ''* * * * * *'', tk_Handler = ''h'',
     tk_Payload = None, tk_Status = [], tk_MaxRetries = 0, tk_Timeout = 0, tk_LastRunAt = None, tk_NextRunAt = None,
     tk_CreatedAt = 0, tk_UpdatedAt = 0\<rparr>"

definition demo_started :: Scheduler where
  "demo_started = snd (Start demo_env True 1 (NewScheduler NewInMemoryStore 0 0 False))"

definition demo_added :: Scheduler where
  "demo_added = sched_run [(demo_env, SAdd 2 demo_task)] demo_started"

lemma demo_start: "Start demo_env True 1 (NewScheduler NewInMemoryStore 0 0 False) = (True, demo_started)"
  by (simp add: demo_started_def Start_def NewScheduler_def)

lemma demo_added_entry: "map (\<lambda>e. (ce_id e, tk_ID (ce_task e))) (entries demo_added) = [(1, 1)]"
  by code_simp

lemma schedule_follows_store_witness:
  "list_all (\<lambda>e. sc_cronJobs demo_added (tk_ID (ce_task e)) = Some (ce_id e)) (entries demo_added)"
  unfolding demo_added_def
  using schedule_follows_store [OF _ _ demo_start, of "[(demo_env, SAdd 2 demo_task)]"]
  by (auto simp: list_all_iff NewScheduler_def NewInMemoryStore_def tasks.ids_ok_def)

text \<open>
  What pausing does instead: the entry stays. An entry whose number \<open>cronJobs\<close> has forgotten is an
  orphan; no later operation removes it.
\<close>

definition orphan :: "CronEntry \<Rightarrow> Scheduler \<Rightarrow> bool" where
  "orphan e s \<longleftrightarrow> jobs_ok s \<and> e \<in> set (entries s) \<and> ce_id e \<notin> ran (sc_cronJobs s)"

lemma orphan_store [simp]:
  "orphan e (s\<lparr>sc_store := st\<rparr>) = orphan e s" "orphan e (s\<lparr>sc_once := os\<rparr>) = orphan e s"
  by (simp_all add: orphan_def)

lemma orphan_add_entry: "orphan e s \<Longrightarrow> orphan e (add_entry t s)"
proof (cases "sc_cron s")
  case (Some c)
  assume o: "orphan e s"
  then have "ce_id e \<le> cr_nextID c"
    using Some by (auto simp: orphan_def jobs_ok_def entries_def)
  then have "ce_id e \<noteq> Suc (cr_nextID c)" by simp
  moreover have "sc_cronJobs (add_entry t s) = (sc_cronJobs s)(tk_ID t \<mapsto> Suc (cr_nextID c))"
    using Some by (simp add: add_entry_def cron_add_def Let_def)
  moreover have "jobs_ok (add_entry t s)" using o by (simp add: orphan_def add_entry_jobs)
  ultimately show "orphan e (add_entry t s)"
    using o add_entry_entries [OF Some, of t] by (auto simp: orphan_def ran_def)
qed (simp add: add_entry_def)

lemma orphan_unschedule: "orphan e s \<Longrightarrow> orphan e (unschedule i s)"
  using unschedule_jobs [of s i]
  by (auto simp: orphan_def unschedule_entries unschedule_job_of ran_def split: option.splits if_splits)

lemma orphan_schedule: "orphan e s \<Longrightarrow> orphan e (snd (scheduleTask E now t s))"
  by (auto simp: scheduleTask_def orphan_add_entry split: option.split)

lemma orphan_schedule_if: "orphan e s \<Longrightarrow> orphan e (snd (schedule_if_running E now t s))"
  by (simp add: schedule_if_running_def orphan_schedule)

lemma orphan_step: "orphan e s \<Longrightarrow> orphan e (sched_step Eop s)"
  by (cases Eop; cases "snd Eop")
    (auto simp: sched_step_def AddTask_def UpdateTask_def DeleteTask_def PauseTask_def ResumeTask_def
      execute_begin_def execute_end_def Let_def unschedule_set_store orphan_schedule_if orphan_unschedule
      split: sum.split prod.split)

lemma orphan_run: "orphan e s \<Longrightarrow> orphan e (sched_run ops s)"
  by (induction ops arbitrary: s) (simp_all add: orphan_step)

lemma schedule_adds:
  assumes "sc_cron s = Some c" "tk_Type t \<in> {TaskTypeCron, TaskTypeInterval}" "fst (scheduleTask E now t s) = None"
  shows "\<exists>t'. snd (scheduleTask E now t s) = add_entry t' s \<and> tk_ID t' = tk_ID t"
  using assms by (auto simp: scheduleTask_def split: if_splits option.splits)

lemma update_status:
  assumes "store_GetTask i st = Inr t" "v \<noteq> []"
  obtains t' st' where "store_UpdateTask now (t\<lparr>tk_Status := v\<rparr>) st = Inr (t', st')" "tk_Status t' = v"
    "tk_ID t' = i" "tk_Type t' = tk_Type t" "store_GetTask i st' = Inr t'"
proof -
  have t: "find (\<lambda>e. tk_ID e = i) (ts_tasks st) = Some t" "tk_ID t = i"
    using assms GetTask_in [OF assms(1)] by (auto simp: store_GetTask_def split: option.splits)
  let ?m = "merge_stored now (t\<lparr>tk_Status := v\<rparr>)"
  have m: "tk_Status (?m t) = v" "tk_ID (?m t) = i" "tk_Type (?m t) = tk_Type t"
    using assms(2) t by (simp_all add: merge_stored_def merge_fields_def over_string_def)
  have "find (\<lambda>e. tk_ID e = i) (update_first (\<lambda>e. tk_ID e = i) ?m (ts_tasks st)) = Some (?m t)"
    using t m(2) by (intro find_update_first_same) auto
  with t m that show ?thesis
    by (simp add: store_UpdateTask_def store_GetTask_def)
qed

lemma delete_gone:
  assumes "tasks.ids_ok st" "store_DeleteTask i st = Inr st'"
  shows "\<not> is_ok (store_GetTask i st')"
proof -
  have "ts_tasks st' = filter (\<lambda>t. tk_ID t \<noteq> i) (ts_tasks st)"
    using assms(2) tasks.ids_distinct [OF assms(1)]
    by (auto simp: store_DeleteTask_def delete_first_filter split: option.splits)
  then have "find (\<lambda>t. tk_ID t = i) (ts_tasks st') = None" by (simp add: find_None_iff)
  then show ?thesis by (simp add: store_GetTask_def)
qed

lemma task_of_entry:
  assumes "current s" "e \<in> set (entries s)"
  obtains t where "store_GetTask (tk_ID (ce_task e)) (sc_store s) = Inr t" "tk_Type t = tk_Type (ce_task e)"
proof -
  obtain t where "t \<in> set (ts_tasks (sc_store s))" "ce_task e = t\<lparr>tk_NextRunAt := tk_NextRunAt (ce_task e)\<rparr>"
    using assms by (auto simp: current_def stored_def)
  then have t: "t \<in> set (ts_tasks (sc_store s))" "tk_ID t = tk_ID (ce_task e)" "tk_Type t = tk_Type (ce_task e)"
    by (metis Task.select_convs(1,3) Task.surjective Task.update_convs(11))+
  have "tasks.ids_ok (sc_store s)" using assms(1) by (simp add: current_def)
  from tasks.find_id [OF this t(1)] t(2,3) that show ?thesis by (simp add: store_GetTask_def)
qed

text \<open>A second entry for the same task makes the first one an orphan.\<close>

lemma second_entry_orphans:
  assumes "current s" "e \<in> set (entries s)" "sc_cron s = Some c" "tk_ID t = tk_ID (ce_task e)"
  shows "orphan e (add_entry t (s\<lparr>sc_store := st\<rparr>))"
proof -
  let ?s2 = "add_entry t (s\<lparr>sc_store := st\<rparr>)" and ?i = "tk_ID (ce_task e)"
  have jobs: "jobs_ok s" "sc_cronJobs s ?i = Some (ce_id e)" using assms(1,2) by (auto simp: current_def)
  have le: "ce_id e \<le> cr_nextID c" using jobs(1) assms(2,3) by (auto simp: jobs_ok_def entries_def)
  have j2: "sc_cronJobs ?s2 = (sc_cronJobs s)(?i \<mapsto> Suc (cr_nextID c))"
    using assms(3,4) by (simp add: add_entry_def cron_add_def Let_def)
  have "sc_cronJobs ?s2 j \<noteq> Some (ce_id e)" for j
  proof
    assume a: "sc_cronJobs ?s2 j = Some (ce_id e)"
    with j2 le have "j \<noteq> ?i" "sc_cronJobs s j = Some (ce_id e)" by (auto split: if_splits)
    with jobs(1) obtain x where "x \<in> set (entries s)" "ce_id x = ce_id e" "tk_ID (ce_task x) = j"
      unfolding jobs_ok_def by blast
    with assms(2) jobs(1) \<open>j \<noteq> ?i\<close> show False unfolding jobs_ok_def by (metis distinct_map_eq)
  qed
  then show ?thesis
    using assms(2,3) jobs(1) by (auto simp: orphan_def ran_def add_entry_jobs add_entry_entries [of "s\<lparr>sc_store := st\<rparr>" c])
qed

text \<open>C13: A paused task keeps running. \<open>PauseTask\<close> on a scheduled task reports success and marks the
  task paused, but its cron entry stays and still fires. If the task is then resumed it has two
  entries, and if it is then deleted one of them is left behind: it stays in every later history of
  the scheduler although its task is gone.\<close>

theorem paused_task_keeps_running:
  assumes cur: "current s" and e: "e \<in> set (entries s)" "tk_Type (ce_task e) \<in> {TaskTypeCron, TaskTypeInterval}"
    and pause: "PauseTask t1 (tk_ID (ce_task e)) s = (err1, s1)"
    and resume: "ResumeTask E t2 (tk_ID (ce_task e)) s1 = (None, s2)"
    and delete: "DeleteTask (tk_ID (ce_task e)) s2 = (None, s3)"
  shows "err1 = None \<and> entries s1 = entries s \<and>
    (\<exists>t. store_GetTask (tk_ID (ce_task e)) (sc_store s1) = Inr t \<and> tk_Status t = TaskStatusPaused) \<and>
    (\<exists>e2. e2 \<noteq> e \<and> entries s2 = entries s @ [e2] \<and> tk_ID (ce_task e2) = tk_ID (ce_task e)) \<and>
    \<not> is_ok (store_GetTask (tk_ID (ce_task e)) (sc_store s3)) \<and>
    e \<in> set (entries (sched_run ops s3))"
proof -
  let ?i = "tk_ID (ce_task e)"
  obtain c where c: "sc_cron s = Some c" using e(1) by (cases "sc_cron s") (auto simp: entries_def)
  obtain t where t: "store_GetTask ?i (sc_store s) = Inr t" "tk_Type t = tk_Type (ce_task e)" by (rule task_of_entry [OF cur e(1)])
  obtain t' st where u: "store_UpdateTask t1 (t\<lparr>tk_Status := TaskStatusPaused\<rparr>) (sc_store s) = Inr (t', st)"
    "tk_Status t' = TaskStatusPaused" "tk_Type t' = tk_Type t" "store_GetTask ?i st = Inr t'"
    by (rule update_status [OF t(1), of TaskStatusPaused]) (auto simp: TaskStatusPaused_def)
  have s1: "s1 = s\<lparr>sc_store := st\<rparr>" "err1 = None" using pause t u by (auto simp: PauseTask_def)
  obtain t'' st2 where u2: "store_UpdateTask t2 (t'\<lparr>tk_Status := TaskStatusActive\<rparr>) st = Inr (t'', st2)"
    "tk_ID t'' = ?i" "tk_Type t'' = tk_Type t'"
    by (rule update_status [OF u(4), of TaskStatusActive]) (auto simp: TaskStatusActive_def)
  let ?s1 = "s\<lparr>sc_store := st2\<rparr>"
  have "scheduleTask E t2 t'' ?s1 = (None, s2)"
    using resume u u2 c by (simp add: ResumeTask_def s1 schedule_if_running_def)
  with schedule_adds [of ?s1 c t'' E t2] c u2 u t e(2) obtain t3 where s2: "s2 = add_entry t3 ?s1" "tk_ID t3 = ?i" by auto
  have o2: "orphan e s2" unfolding s2(1) by (rule second_entry_orphans [OF cur e(1) c s2(2)])
  obtain st3 where d: "store_DeleteTask ?i (sc_store s2) = Inr st3" "s3 = unschedule ?i (s2\<lparr>sc_store := st3\<rparr>)"
    using delete by (auto simp: DeleteTask_def split: sum.splits)
  have "orphan e s3" using o2 d by (simp add: orphan_unschedule)
  then have o3: "e \<in> set (entries (sched_run ops s3))" using orphan_run by (auto simp: orphan_def)
  have "task_edit (TUpdate t1 (t\<lparr>tk_Status := TaskStatusPaused\<rparr>)) (sc_store s) = st"
    "task_edit (TUpdate t2 (t'\<lparr>tk_Status := TaskStatusActive\<rparr>)) st = st2"
    using u u2 by (simp_all add: task_edit_def)
  then have "tasks.ids_ok (sc_store s2)" using tasks.edit_ids_ok [of "sc_store s"] tasks.edit_ids_ok [of st] cur
    by (auto simp: s2 current_def)
  from delete_gone [OF this d(1)] d(2) have gone: "\<not> is_ok (store_GetTask ?i (sc_store s3))" by simp
  let ?e2 = "\<lparr>ce_id = Suc (cr_nextID c), ce_task = t3\<rparr>"
  have "entries s2 = entries s @ [?e2]" using c by (simp add: s2 add_entry_entries)
  moreover have "ce_id e \<noteq> Suc (cr_nextID c)" using cur e(1) c by (auto simp: current_def jobs_ok_def entries_def)
  then have "?e2 \<noteq> e" by auto
  moreover have "entries s1 = entries s" "store_GetTask ?i (sc_store s1) = Inr t'" by (simp_all add: s1 u(4))
  moreover have "tk_ID (ce_task ?e2) = ?i" by (simp add: s2(2))
  ultimately show ?thesis using s1(2) u(2) o3 gone by blast
qed

lemma demo_added_current: "current demo_added"
proof -
  have "current demo_started"
    by (rule Start_current [OF _ _ demo_start]) (simp_all add: NewScheduler_def NewInMemoryStore_def tasks.ids_ok_def)
  then show ?thesis unfolding demo_added_def by (rule run_current) simp
qed

lemma paused_task_keeps_running_witness:
  "(let s1 = snd (PauseTask 3 1 demo_added); s2 = snd (ResumeTask demo_env 4 1 s1); s3 = snd (DeleteTask 1 s2)
    in length (entries s2) = 2 \<and> entries (sched_run [(demo_env, SDelete 1)] s3) \<noteq> [])"
proof -
  define e where "e = hd (entries demo_added)"
  have e: "e \<in> set (entries demo_added)" "tk_ID (ce_task e) = 1" "entries demo_added = [e]"
    using demo_added_entry unfolding e_def by (cases "entries demo_added"; simp)+
  have ty: "tk_Type (ce_task e) \<in> {TaskTypeCron, TaskTypeInterval}"
    unfolding e_def by code_simp
  define s1 where "s1 = snd (PauseTask 3 1 demo_added)"
  define s2 where "s2 = snd (ResumeTask demo_env 4 1 s1)"
  define s3 where "s3 = snd (DeleteTask 1 s2)"
  have r: "ResumeTask demo_env 4 (tk_ID (ce_task e)) s1 = (None, s2)"
    unfolding s2_def s1_def e(2) by (rule prod_eqI, code_simp, simp)
  have d: "DeleteTask (tk_ID (ce_task e)) s2 = (None, s3)"
    unfolding s3_def s2_def s1_def e(2) by (rule prod_eqI, code_simp, simp)
  have p: "PauseTask 3 (tk_ID (ce_task e)) demo_added = (fst (PauseTask 3 1 demo_added), s1)"
    by (simp add: s1_def e(2))
  from paused_task_keeps_running [OF demo_added_current e(1) ty p r d, of "[(demo_env, SDelete 1)]"] e(3)
  have "length (entries s2) = 2 \<and> entries (sched_run [(demo_env, SDelete 1)] s3) \<noteq> []" by auto
  then show ?thesis unfolding Let_def s1_def s2_def s3_def .
qed

definition other_run :: "nat \<Rightarrow> sched_op \<Rightarrow> bool" where
  "other_run i op = (case op of SEnd _ _ l \<Rightarrow> tl_ID l \<noteq> i | _ \<Rightarrow> True)"

lemma op_logs:
  assumes "logs.ids_ok (sc_store s)" "l \<in> set (ts_taskLogs (sc_store s))" "other_run (tl_ID l) (snd Eop)"
  shows "logs.ids_ok (sc_store (sched_step Eop s)) \<and> l \<in> set (ts_taskLogs (sc_store (sched_step Eop s)))"
proof (cases "snd Eop")
  case (SBegin now t)
  have "sc_store (sched_step Eop s) = sc_store s \<or>
     (\<exists>l0. log_create (now, l0) (sc_store s) = Some (sc_store (sched_step Eop s)))"
    using SBegin
    by (cases Eop) (auto simp: sched_step_def execute_begin_def log_create_def split: prod.split, metis snd_conv)
  then show ?thesis
  proof
    assume "\<exists>l0. log_create (now, l0) (sc_store s) = Some (sc_store (sched_step Eop s))"
    then obtain l0 where c: "log_create (now, l0) (sc_store s) = Some (sc_store (sched_step Eop s))" ..
    then have "sc_store (sched_step Eop s) = snd (store_CreateTaskLog now l0 (sc_store s))"
      by (simp add: log_create_def)
    then have "ts_taskLogs (sc_store (sched_step Eop s)) = ts_taskLogs (sc_store s) @ [fst (store_CreateTaskLog now l0 (sc_store s))]"
      by (simp add: store_CreateTaskLog_def Let_def)
    with logs.create_ids_ok [OF assms(1) c] assms(2) show ?thesis by simp
  qed (use assms in simp)
next
  case (SEnd now err x)
  then have st: "sc_store (sched_step Eop s) = store_UpdateTaskLog (end_log now err x) (sc_store s)"
    by (cases Eop) (simp add: sched_step_def execute_end_def)
  have "tl_ID (end_log now err x) \<noteq> tl_ID l"
    using assms(3) SEnd by (auto simp: other_run_def end_log_def split: option.split)
  then have "l \<in> set (ts_taskLogs (store_UpdateTaskLog (end_log now err x) (sc_store s)))"
    using assms(2) by (simp add: store_UpdateTaskLog_def in_update_first_other)
  with st logs.edit_ids_ok [OF assms(1)] show ?thesis by simp
qed (cases Eop; use assms in \<open>auto simp: sched_step_def AddTask_def UpdateTask_def DeleteTask_def PauseTask_def ResumeTask_def
    schedule_if_running_def scheduleTask_def store_CreateTask_def store_UpdateTask_def store_DeleteTask_def
    logs.ids_ok_def Let_def split: sum.splits option.splits if_splits\<close>)+

lemma run_logs:
  "logs.ids_ok (sc_store s) \<Longrightarrow> l \<in> set (ts_taskLogs (sc_store s)) \<Longrightarrow> \<forall>op \<in> set ops. other_run (tl_ID l) (snd op) \<Longrightarrow>
   logs.ids_ok (sc_store (sched_run ops s)) \<and> l \<in> set (ts_taskLogs (sc_store (sched_run ops s)))"
proof (induction ops arbitrary: s)
  case (Cons op ops)
  from op_logs [OF Cons.prems(1,2), of op] Cons.prems(3) Cons.IH [of "sched_step op s"] show ?case by simp
qed simp

text \<open>A run's log. A run adds exactly one log record, marked running; whatever other runs start and
  end, and whatever happens to the tasks in between, the end of the run turns that record, and no
  other, into a finished one: failed with the handler's message, or successful.\<close>

lemma run_log_lifecycle:
  assumes ids: "logs.ids_ok (sc_store s)"
    and started: "execute_begin E t0 t s = (Some l, s1)"
    and others: "\<forall>op \<in> set ops. other_run (tl_ID l) (snd op)"
    and s2: "s2 = sched_run ops s1" and s3: "s3 = execute_end t1 err l s2"
  shows "ts_taskLogs (sc_store s1) = ts_taskLogs (sc_store s) @ [l] \<and> tl_Status l = TaskLogRunning \<and> tl_TaskID l = tk_ID t \<and>
    (\<exists>l'. l' \<in> set (ts_taskLogs (sc_store s3)) \<and> tl_ID l' = tl_ID l \<and> tl_EndedAt l' = Some t1 \<and>
       tl_Status l' = (if err = None then TaskLogSuccess else TaskLogFailed) \<and>
       (\<forall>m. err = Some m \<longrightarrow> tl_Error l' = m) \<and>
       (\<forall>x \<in> set (ts_taskLogs (sc_store s3)). tl_ID x = tl_ID l \<longrightarrow> x = l')) \<and>
    filter (\<lambda>x. tl_ID x \<noteq> tl_ID l) (ts_taskLogs (sc_store s3)) = filter (\<lambda>x. tl_ID x \<noteq> tl_ID l) (ts_taskLogs (sc_store s2))"
proof -
  have st1: "sc_store s1 = snd (store_CreateTaskLog t0 \<lparr>tl_ID = 0, tl_TaskID = tk_ID t, tl_TaskName = tk_Name t, tl_Status = TaskLogRunning,
      tl_StartedAt = t0, tl_EndedAt = None, tl_Result = None, tl_Error = [], tl_CreatedAt = 0\<rparr> (sc_store s))"
    and l: "ts_taskLogs (sc_store s1) = ts_taskLogs (sc_store s) @ [l]" "tl_Status l = TaskLogRunning" "tl_TaskID l = tk_ID t"
    using started by (auto simp: execute_begin_def store_CreateTaskLog_def Let_def split: if_splits)
  have "log_create (t0, \<lparr>tl_ID = 0, tl_TaskID = tk_ID t, tl_TaskName = tk_Name t, tl_Status = TaskLogRunning,
      tl_StartedAt = t0, tl_EndedAt = None, tl_Result = None, tl_Error = [], tl_CreatedAt = 0\<rparr>) (sc_store s) = Some (sc_store s1)"
    by (simp add: log_create_def st1)
  from logs.create_ids_ok [OF ids this] have "logs.ids_ok (sc_store s1)" .
  from run_logs [OF this, of l ops] l(1) others s2
  have ids2: "logs.ids_ok (sc_store s2)" and in2: "l \<in> set (ts_taskLogs (sc_store s2))" by auto
  let ?l = "end_log t1 err l"
  have id: "tl_ID ?l = tl_ID l" by (simp add: end_log_def split: option.split)
  have st3: "sc_store s3 = store_UpdateTaskLog ?l (sc_store s2)" by (simp add: s3 execute_end_def)
  have f: "find (\<lambda>e. tl_ID e = tl_ID ?l) (ts_taskLogs (sc_store s2)) = Some l"
    using logs.find_id [OF ids2 in2] id by simp
  have in3: "?l \<in> set (ts_taskLogs (sc_store s3))"
    unfolding st3 store_UpdateTaskLog_def using update_first_in [OF f, of "\<lambda>_. ?l"] by simp
  have d3: "distinct (map tl_ID (ts_taskLogs (sc_store s3)))"
    unfolding st3 by (rule logs.ids_distinct [OF logs.edit_ids_ok [OF ids2]])
  have "\<forall>x \<in> set (ts_taskLogs (sc_store s3)). tl_ID x = tl_ID l \<longrightarrow> x = ?l"
    using distinct_map_eq [OF d3 _ in3] id by auto
  moreover have "filter (\<lambda>x. tl_ID x \<noteq> tl_ID l) (ts_taskLogs (sc_store s3)) = filter (\<lambda>x. tl_ID x \<noteq> tl_ID l) (ts_taskLogs (sc_store s2))"
    unfolding st3 store_UpdateTaskLog_def using id by (simp add: filter_update_first)
  moreover have "tl_EndedAt ?l = Some t1" "tl_Status ?l = (if err = None then TaskLogSuccess else TaskLogFailed)"
    "\<forall>m. err = Some m \<longrightarrow> tl_Error ?l = m"
    by (auto simp: end_log_def split: option.split)
  ultimately show ?thesis using l in3 id by blast
qed

lemma run_log_lifecycle_witness:
  "\<exists>l s1. execute_begin demo_env 5 (demo_task\<lparr>tk_ID := 1\<rparr>) demo_added = (Some l, s1) \<and>
     (\<exists>l' \<in> set (ts_taskLogs (sc_store (execute_end 9 (Some ''boom'') l (sched_run [(demo_env, SDelete 1)] s1)))).
        tl_Status l' = TaskLogFailed)"
proof -
  have i: "logs.ids_ok (sc_store demo_added)" unfolding logs.ids_ok_def by code_simp
  have "fst (execute_begin demo_env 5 (demo_task\<lparr>tk_ID := 1\<rparr>) demo_added) \<noteq> None" by code_simp
  then obtain l s1 where b: "execute_begin demo_env 5 (demo_task\<lparr>tk_ID := 1\<rparr>) demo_added = (Some l, s1)"
    by (cases "execute_begin demo_env 5 (demo_task\<lparr>tk_ID := 1\<rparr>) demo_added") auto
  from run_log_lifecycle [OF i b _ refl refl, of "[(demo_env, SDelete 1)]" 9 "Some ''boom''"] b show ?thesis
    by (auto simp: other_run_def)
qed

end
