(* ===== verification/RedisClient.thy ===== *)
theory RedisClient
  imports GoStd
begin

text \<open>
  The Redis server is not part of the repository: it is a parameter, the record \<open>'r redis\<close> of the
  commands that the code sends, over a server state \<open>'r\<close> nothing is known about. Every command gets
  the instant at which the server runs it.

  \<open>redis_ok R view\<close> states the documented behaviour of the commands for a server that answers: \<open>view\<close>
  reads a key's value and expiry off the server state (no expiry: the key stays), a key is gone from
  its expiry on. \<open>SET\<close> gets a positive time to live in whole milliseconds: the client library cuts it
  down to them, and sends one for less than one (\<open>sent_ttl\<close>); the server documents that a key goes up to
  a millisecond late. \<open>map_redis\<close> is a server that has this behaviour, for the witnesses.
\<close>

datatype redis_reply = RedisErr | RedisNil | RedisVal bytes

record 'r redis =
  rd_get :: "instant \<Rightarrow> string \<Rightarrow> 'r \<Rightarrow> redis_reply"
  rd_mget :: "instant \<Rightarrow> string list \<Rightarrow> 'r \<Rightarrow> bytes option list option"
  rd_exists :: "instant \<Rightarrow> string \<Rightarrow> 'r \<Rightarrow> nat option"
  rd_scan :: "instant \<Rightarrow> string \<Rightarrow> 'r \<Rightarrow> string list option"
  rd_set :: "instant \<Rightarrow> string \<Rightarrow> bytes \<Rightarrow> duration \<Rightarrow> 'r \<Rightarrow> bool \<times> 'r"
  rd_setnx :: "instant \<Rightarrow> string \<Rightarrow> bytes \<Rightarrow> duration \<Rightarrow> 'r \<Rightarrow> bool option \<times> 'r"
  rd_mset :: "instant \<Rightarrow> (string \<times> bytes) list \<Rightarrow> 'r \<Rightarrow> bool \<times> 'r"
  rd_del :: "instant \<Rightarrow> string \<Rightarrow> 'r \<Rightarrow> bool \<times> 'r"
  rd_publish :: "instant \<Rightarrow> string \<Rightarrow> string \<Rightarrow> 'r \<Rightarrow> bool \<times> 'r"

type_synonym redis_view = "string \<rightharpoonup> bytes \<times> instant option"

definition live_at :: "instant \<Rightarrow> redis_view \<Rightarrow> string \<Rightarrow> bytes option" where
  "live_at t v k = (case v k of
     None \<Rightarrow> None
   | Some (d, None) \<Rightarrow> Some d
   | Some (d, Some e) \<Rightarrow> if t < e then Some d else None)"

definition sent_ttl :: "duration \<Rightarrow> duration" where
  "sent_ttl d = (if d < 1000000 then 1000000 else (d div 1000000) * 1000000)"

definition set_ok :: "'r redis \<Rightarrow> ('r \<Rightarrow> redis_view) \<Rightarrow> bool" where
  "set_ok R view \<longleftrightarrow> (\<forall>t k d ttl r. fst (rd_set R t k d ttl r) \<and>
     (\<exists>e. view (snd (rd_set R t k d ttl r)) = (view r)(k \<mapsto> (d, e)) \<and>
       (0 < ttl \<longrightarrow> (\<exists>t'. e = Some t' \<and> t + sent_ttl ttl \<le> t' \<and> t' \<le> t + sent_ttl ttl + 1000000))))"

definition redis_ok :: "'r redis \<Rightarrow> ('r \<Rightarrow> redis_view) \<Rightarrow> bool" where
  "redis_ok R view \<longleftrightarrow>
     (\<forall>t k r. rd_get R t k r = (case live_at t (view r) k of None \<Rightarrow> RedisNil | Some d \<Rightarrow> RedisVal d)) \<and>
     (\<forall>t ks r. rd_mget R t ks r = Some (map (live_at t (view r)) ks)) \<and>
     (\<forall>t k r. rd_exists R t k r = Some (if live_at t (view r) k = None then 0 else 1)) \<and>
     set_ok R view \<and>
     (\<forall>t kvs r. fst (rd_mset R t kvs r) \<and>
        view (snd (rd_mset R t kvs r)) = fold (\<lambda>(k, d) v. v(k \<mapsto> (d, None))) kvs (view r)) \<and>
     (\<forall>t k r. fst (rd_del R t k r) \<and> view (snd (rd_del R t k r)) = (view r)(k := None)) \<and>
     (\<forall>t c m r. fst (rd_publish R t c m r) \<and> view (snd (rd_publish R t c m r)) = view r)"

lemma redis_okD:
  assumes "redis_ok R view"
  shows "rd_get R t k r = (case live_at t (view r) k of None \<Rightarrow> RedisNil | Some d \<Rightarrow> RedisVal d)"
    and "rd_mget R t ks r = Some (map (live_at t (view r)) ks)"
    and "rd_exists R t k r = Some (if live_at t (view r) k = None then 0 else 1)"
    and "fst (rd_set R t k d ttl r)" "k' \<noteq> k \<Longrightarrow> view (snd (rd_set R t k d ttl r)) k' = view r k'"
    and "fst (rd_mset R t kvs r)" "view (snd (rd_mset R t kvs r)) = fold (\<lambda>(k, d) v. v(k \<mapsto> (d, None))) kvs (view r)"
    and "fst (rd_del R t k r)" "view (snd (rd_del R t k r)) = (view r)(k := None)"
    and "fst (rd_publish R t c m r)" "view (snd (rd_publish R t c m r)) = view r"
proof -
  have s: "set_ok R view" using assms by (simp add: redis_ok_def)
  then show "fst (rd_set R t k d ttl r)" by (simp add: set_ok_def)
  have "\<exists>e. view (snd (rd_set R t k d ttl r)) = (view r)(k \<mapsto> (d, e))"
    using s unfolding set_ok_def by meson
  then show "k' \<noteq> k \<Longrightarrow> view (snd (rd_set R t k d ttl r)) k' = view r k'" by auto
qed (use assms in \<open>simp_all add: redis_ok_def\<close>)

lemma redis_ok_set:
  assumes "redis_ok R view" "0 < ttl"
  obtains e where "view (snd (rd_set R t k d ttl r)) k = Some (d, Some e)" "t + sent_ttl ttl \<le> e"
proof -
  have "set_ok R view" using assms(1) by (simp add: redis_ok_def)
  then have "\<exists>x. view (snd (rd_set R t k d ttl r)) = (view r)(k \<mapsto> (d, x)) \<and>
      (0 < ttl \<longrightarrow> (\<exists>t'. x = Some t' \<and> t + sent_ttl ttl \<le> t' \<and> t' \<le> t + sent_ttl ttl + 1000000))"
    unfolding set_ok_def by meson
  then obtain x where x: "view (snd (rd_set R t k d ttl r)) = (view r)(k \<mapsto> (d, x))"
    "0 < ttl \<longrightarrow> (\<exists>t'. x = Some t' \<and> t + sent_ttl ttl \<le> t' \<and> t' \<le> t + sent_ttl ttl + 1000000)" by (elim exE conjE)
  from x(2) assms(2) obtain t' where t': "x = Some t'" "t + sent_ttl ttl \<le> t'" by blast
  show ?thesis by (rule that [of t']) (simp_all add: x(1) t')
qed

definition map_redis :: "redis_view redis" where
  "map_redis = \<lparr>
     rd_get = (\<lambda>t k r. case live_at t r k of None \<Rightarrow> RedisNil | Some d \<Rightarrow> RedisVal d),
     rd_mget = (\<lambda>t ks r. Some (map (live_at t r) ks)),
     rd_exists = (\<lambda>t k r. Some (if live_at t r k = None then 0 else 1)),
     rd_scan = (\<lambda>t p r. None),
     rd_set = (\<lambda>t k d ttl r. (True, r(k \<mapsto> (d, Some (t + sent_ttl ttl))))),
     rd_setnx = (\<lambda>t k d ttl r. if live_at t r k = None then (Some True, r(k \<mapsto> (d, Some (t + sent_ttl ttl)))) else (Some False, r)),
     rd_mset = (\<lambda>t kvs r. (True, fold (\<lambda>(k, d) v. v(k \<mapsto> (d, None))) kvs r)),
     rd_del = (\<lambda>t k r. (True, r(k := None))),
     rd_publish = (\<lambda>t c m r. (True, r))\<rparr>"

lemma map_redis_ok: "redis_ok map_redis (\<lambda>r. r)"
proof -
  have "set_ok map_redis (\<lambda>r. r)"
    unfolding set_ok_def map_redis_def by (auto intro!: exI)
  then show ?thesis by (simp add: redis_ok_def) (simp add: map_redis_def)
qed

end
