(* ===== verification/Cache.thy ===== *)
theory Cache
  imports RedisClient
begin

text \<open>
  The two-level cache: \<open>internal/services/cache/cache.go\<close> and \<open>codecs.go\<close>.

  L1 is the Go map as a list of key and entry pairs with different keys (the order stands for the
  unspecified iteration order), L2 is the Redis client with its server state, or no client. Values are
  of any type \<open>'v\<close>; what \<open>encoding/gob\<close> and \<open>encoding/json\<close> make of them is the record \<open>codec\<close>. The random
  number of \<open>jitterTTL\<close> is an argument. Calls do not overlap, so \<open>singleflight\<close> runs its function.
\<close>

section \<open>Codecs\<close>

record 'v codec =
  co_Encode :: "'v \<Rightarrow> bytes option"
  co_Decode :: "bytes \<Rightarrow> 'v option"
  co_Version :: "8 word"
  co_Name :: string

record 'v codecs =
  cs_byVer :: "8 word \<rightharpoonup> 'v codec"
  cs_byName :: "string \<rightharpoonup> 'v codec"
  cs_legacy :: "'v codec"

definition RegisterCodec :: "'v codec \<Rightarrow> 'v codecs \<Rightarrow> 'v codecs" where
  "RegisterCodec c cs = cs\<lparr>cs_byVer := (cs_byVer cs)(co_Version c \<mapsto> c), cs_byName := (cs_byName cs)(co_Name c \<mapsto> c)\<rparr>"

definition encodeWith :: "'v codec \<Rightarrow> 'v \<Rightarrow> bytes option" where
  "encodeWith codec value =
     (case co_Encode codec value of None \<Rightarrow> None | Some payload \<Rightarrow> Some (co_Version codec # payload))"

datatype cache_error = ErrMiss | ErrNilValue | ErrNoRedis | ErrRedis | ErrEncode | ErrCtx | ErrLoader
  | ErrEmptyData | ErrDecodeVersion "8 word" | ErrDecodeLegacy

definition decodeWith :: "'v codecs \<Rightarrow> bytes \<Rightarrow> cache_error + 'v" where
  "decodeWith cs data =
     (case data of
        [] \<Rightarrow> Inl ErrEmptyData
      | ver # payload \<Rightarrow>
          (case (if payload \<noteq> [] then cs_byVer cs ver else None) of
             Some codec \<Rightarrow> (case co_Decode codec payload of None \<Rightarrow> Inl (ErrDecodeVersion ver) | Some v \<Rightarrow> Inr v)
           | None \<Rightarrow> (case co_Decode (cs_legacy cs) data of None \<Rightarrow> Inl ErrDecodeLegacy | Some v \<Rightarrow> Inr v)))"

section \<open>State\<close>

record Options =
  op_DefaultTTL :: duration
  op_DefaultNilTTL :: duration
  op_Jitter :: duration
  op_L1MaxSize :: int
  op_SlowThreshold :: duration
  op_Codec :: string

definition DefaultOptions :: Options where
  "DefaultOptions = \<lparr>op_DefaultTTL = 300000000000, op_DefaultNilTTL = 30000000000, op_Jitter = 10000000000,
     op_L1MaxSize = 10000, op_SlowThreshold = 100000000, op_Codec = ''gob''\<rparr>"

record l1Entry =
  l1_data :: bytes
  l1_expiresAt :: instant
  l1_lastHit :: int

record ('v, 'r) MultiLevelCache =
  mc_opts :: Options
  mc_rdb :: "'r redis option"
  mc_l1 :: "(string \<times> l1Entry) list"
  mc_codec :: "'v codec"
  mc_hits :: int
  mc_misses :: int
  mc_clock :: int
  mc_l2 :: 'r

definition norm_opts :: "Options \<Rightarrow> Options" where
  "norm_opts opts = opts\<lparr>
     op_DefaultTTL := (if op_DefaultTTL opts \<le> 0 then op_DefaultTTL DefaultOptions else op_DefaultTTL opts),
     op_DefaultNilTTL := (if op_DefaultNilTTL opts \<le> 0 then op_DefaultNilTTL DefaultOptions else op_DefaultNilTTL opts),
     op_Jitter := (if op_Jitter opts < 0 then op_Jitter DefaultOptions else op_Jitter opts),
     op_L1MaxSize := (if op_L1MaxSize opts \<le> 0 then op_L1MaxSize DefaultOptions else op_L1MaxSize opts),
     op_SlowThreshold := (if op_SlowThreshold opts \<le> 0 then op_SlowThreshold DefaultOptions else op_SlowThreshold opts)\<rparr>"

text \<open>\<open>New\<close>: the codec by name, gob (the legacy codec) when the name is unknown.\<close>

definition NewCache :: "'v codecs \<Rightarrow> 'r redis option \<Rightarrow> 'r \<Rightarrow> Options \<Rightarrow> ('v, 'r) MultiLevelCache" where
  "NewCache cs rdb r opts =
     \<lparr>mc_opts = norm_opts opts, mc_rdb = rdb, mc_l1 = [],
      mc_codec = (case cs_byName cs (op_Codec opts) of Some c \<Rightarrow> c
                  | None \<Rightarrow> (case cs_byName cs ''gob'' of Some c \<Rightarrow> c | None \<Rightarrow> cs_legacy cs)),
      mc_hits = 0, mc_misses = 0, mc_clock = 0, mc_l2 = r\<rparr>"

section \<open>TTL, placeholder, keys\<close>

text \<open>\<open>r\<close> is \<open>rand.Int63n(2 * jitter)\<close>; the sum of the durations wraps.\<close>

definition jitterTTL :: "duration \<Rightarrow> duration \<Rightarrow> int \<Rightarrow> duration" where
  "jitterTTL base jitter r =
     (if jitter \<le> 0 then base
      else let delta = i64 (r - jitter); ttl = i64 (base + delta)
           in if ttl < 1000000000 then 1000000000 else ttl)"

definition nilPlaceholder :: bytes where
  "nilPlaceholder = [0, 110, 105, 108]"

definition isNilValue :: "bytes \<Rightarrow> bool" where
  "isNilValue data \<longleftrightarrow> length data = 4 \<and> data ! 0 = 0 \<and> data ! 1 = 110 \<and> data ! 2 = 105 \<and> data ! 3 = 108"

definition l2Key :: "string \<Rightarrow> string \<Rightarrow> string" where
  "l2Key namespace key = namespace @ '':'' @ key"

section \<open>L1\<close>

definition l1_delete :: "string \<Rightarrow> (string \<times> l1Entry) list \<Rightarrow> (string \<times> l1Entry) list" where
  "l1_delete key m = filter (\<lambda>e. fst e \<noteq> key) m"

definition l1_put :: "string \<Rightarrow> l1Entry \<Rightarrow> (string \<times> l1Entry) list \<Rightarrow> (string \<times> l1Entry) list" where
  "l1_put key e m = (if map_of m key = None then m @ [(key, e)] else update_first (\<lambda>x. fst x = key) (\<lambda>_. (key, e)) m)"

definition l1Get :: "instant \<Rightarrow> string \<Rightarrow> ('v, 'r) MultiLevelCache \<Rightarrow> bytes option \<times> ('v, 'r) MultiLevelCache" where
  "l1Get now key c =
     (case map_of (mc_l1 c) key of
        None \<Rightarrow> (None, c)
      | Some entry \<Rightarrow>
          if l1_expiresAt entry < now then (None, c\<lparr>mc_l1 := l1_delete key (mc_l1 c)\<rparr>)
          else let clock = mc_clock c + 1
               in (Some (l1_data entry),
                   c\<lparr>mc_clock := clock, mc_l1 := l1_put key (entry\<lparr>l1_lastHit := clock\<rparr>) (mc_l1 c)\<rparr>))"

fun oldest :: "(string \<times> l1Entry) list \<Rightarrow> string \<Rightarrow> int \<Rightarrow> string" where
  "oldest [] oldestKey oldestHit = oldestKey"
| "oldest ((k, v) # m) oldestKey oldestHit =
     (if l1_lastHit v < oldestHit then oldest m k (l1_lastHit v) else oldest m oldestKey oldestHit)"

definition evictOneLocked :: "('v, 'r) MultiLevelCache \<Rightarrow> ('v, 'r) MultiLevelCache" where
  "evictOneLocked c =
     (let oldestKey = oldest (mc_l1 c) [] (2 ^ 63 - 1)
      in if oldestKey \<noteq> [] then c\<lparr>mc_l1 := l1_delete oldestKey (mc_l1 c)\<rparr> else c)"

definition l1Set :: "instant \<Rightarrow> string \<Rightarrow> bytes \<Rightarrow> duration \<Rightarrow> ('v, 'r) MultiLevelCache \<Rightarrow> ('v, 'r) MultiLevelCache" where
  "l1Set now key data ttl c =
     (let c1 = (if int (length (mc_l1 c)) \<ge> op_L1MaxSize (mc_opts c) then evictOneLocked c else c);
          clock = mc_clock c1 + 1
      in c1\<lparr>mc_clock := clock,
            mc_l1 := l1_put key \<lparr>l1_data = data, l1_expiresAt = now + ttl, l1_lastHit = clock\<rparr> (mc_l1 c1)\<rparr>)"

definition l1Del :: "string \<Rightarrow> ('v, 'r) MultiLevelCache \<Rightarrow> ('v, 'r) MultiLevelCache" where
  "l1Del key c = c\<lparr>mc_l1 := l1_delete key (mc_l1 c)\<rparr>"

definition l1Clear :: "('v, 'r) MultiLevelCache \<Rightarrow> ('v, 'r) MultiLevelCache" where
  "l1Clear c = c\<lparr>mc_l1 := []\<rparr>"

text \<open>One tick of the background loop.\<close>

definition evict_tick :: "instant \<Rightarrow> ('v, 'r) MultiLevelCache \<Rightarrow> ('v, 'r) MultiLevelCache" where
  "evict_tick now c = c\<lparr>mc_l1 := filter (\<lambda>(k, v). \<not> l1_expiresAt v < now) (mc_l1 c)\<rparr>"

section \<open>The interface\<close>

definition Get :: "'v codecs \<Rightarrow> bool \<Rightarrow> instant \<Rightarrow> string \<Rightarrow> ('v, 'r) MultiLevelCache \<Rightarrow>
   (cache_error + 'v) \<times> ('v, 'r) MultiLevelCache" where
  "Get cs ctx_done now key c =
     (if ctx_done then (Inl ErrCtx, c)
      else case l1Get now key c of
        (Some data, c1) \<Rightarrow>
          let c2 = c1\<lparr>mc_hits := mc_hits c1 + 1\<rparr>
          in if isNilValue data then (Inl ErrNilValue, c2) else (decodeWith cs data, c2)
      | (None, c1) \<Rightarrow>
          (case mc_rdb c1 of
             None \<Rightarrow> (Inl ErrMiss, c1\<lparr>mc_misses := mc_misses c1 + 1\<rparr>)
           | Some R \<Rightarrow>
               (case rd_get R now (l2Key ''cache'' key) (mc_l2 c1) of
                  RedisVal data \<Rightarrow>
                    let c2 = l1Set now key data (op_DefaultTTL (mc_opts c1)) c1
                    in if isNilValue data then (Inl ErrNilValue, c2\<lparr>mc_misses := mc_misses c2 + 1\<rparr>)
                       else (decodeWith cs data, c2\<lparr>mc_hits := mc_hits c2 + 1\<rparr>)
                | RedisNil \<Rightarrow> (Inl ErrMiss, c1\<lparr>mc_misses := mc_misses c1 + 1\<rparr>)
                | RedisErr \<Rightarrow> (Inl ErrRedis, c1\<lparr>mc_misses := mc_misses c1 + 1\<rparr>))))"

definition get_many_l1 ::
  "instant \<Rightarrow> string \<Rightarrow> (string \<rightharpoonup> bytes) \<times> ('v, 'r) MultiLevelCache \<Rightarrow> (string \<rightharpoonup> bytes) \<times> ('v, 'r) MultiLevelCache" where
  "get_many_l1 now key acc =
     (case acc of (result, c) \<Rightarrow>
        (case l1Get now key c of
           (Some data, c1) \<Rightarrow> (result(key \<mapsto> data), c1\<lparr>mc_hits := mc_hits c1 + 1\<rparr>)
         | (None, c1) \<Rightarrow> (result, c1)))"

definition get_many_l2 ::
  "instant \<Rightarrow> string \<times> bytes option \<Rightarrow> (string \<rightharpoonup> bytes) \<times> ('v, 'r) MultiLevelCache \<Rightarrow> (string \<rightharpoonup> bytes) \<times> ('v, 'r) MultiLevelCache" where
  "get_many_l2 now kv acc =
     (case acc of (result, c) \<Rightarrow>
        (case snd kv of
           None \<Rightarrow> (result, c\<lparr>mc_misses := mc_misses c + 1\<rparr>)
         | Some raw \<Rightarrow>
             let c1 = l1Set now (fst kv) raw (op_DefaultTTL (mc_opts c)) c
             in (result(fst kv \<mapsto> raw), c1\<lparr>mc_hits := mc_hits c1 + 1\<rparr>)))"

definition GetMany :: "instant \<Rightarrow> string list \<Rightarrow> ('v, 'r) MultiLevelCache \<Rightarrow>
   (cache_error + (string \<rightharpoonup> bytes)) \<times> ('v, 'r) MultiLevelCache" where
  "GetMany now keys c =
     (if keys = [] then (Inr Map.empty, c)
      else case fold (get_many_l1 now) keys (Map.empty, c) of (result, c1) \<Rightarrow>
        let missing = filter (\<lambda>k. result k = None) keys;
            finish = (\<lambda>res c'. if \<forall>k \<in> set keys. res k = None then (Inl ErrMiss, c') else (Inr res, c'))
        in case mc_rdb c1 of
             None \<Rightarrow> finish result c1
           | Some R \<Rightarrow>
               if missing = [] then finish result c1
               else case rd_mget R now (map (l2Key ''cache'') missing) (mc_l2 c1) of
                      None \<Rightarrow> (Inl ErrRedis, c1)
                    | Some results \<Rightarrow>
                        (case fold (get_many_l2 now) (zip missing results) (result, c1) of
                           (result', c2) \<Rightarrow> finish result' c2))"

definition l2_write :: "(bool \<times> 'r) \<Rightarrow> ('v, 'r) MultiLevelCache \<Rightarrow> cache_error option \<times> ('v, 'r) MultiLevelCache" where
  "l2_write w c = (if fst w then None else Some ErrRedis, c\<lparr>mc_l2 := snd w\<rparr>)"

definition Set :: "instant \<Rightarrow> int \<Rightarrow> string \<Rightarrow> 'v \<Rightarrow> duration \<Rightarrow> ('v, 'r) MultiLevelCache \<Rightarrow>
   cache_error option \<times> ('v, 'r) MultiLevelCache" where
  "Set now r key value ttl c =
     (let ttl1 = (if ttl \<le> 0 then op_DefaultTTL (mc_opts c) else ttl);
          ttl2 = jitterTTL ttl1 (op_Jitter (mc_opts c)) r
      in case encodeWith (mc_codec c) value of
           None \<Rightarrow> (Some ErrEncode, c)
         | Some data \<Rightarrow>
             let c1 = l1Set now key data ttl2 c
             in case mc_rdb c1 of
                  None \<Rightarrow> (None, c1)
                | Some R \<Rightarrow> l2_write (rd_set R now (l2Key ''cache'' key) data ttl2 (mc_l2 c1)) c1)"

text \<open>
  \<open>SetMany\<close> ranges over a Go map: \<open>items\<close> lists it in the order of the iteration. An item that does not
  encode ends the call with the earlier ones already in L1 and none in L2.
\<close>

fun set_many_l1 :: "instant \<Rightarrow> duration \<Rightarrow> (string \<times> 'v) list \<Rightarrow> (string \<times> bytes) list \<times> ('v, 'r) MultiLevelCache \<Rightarrow>
   cache_error option \<times> (string \<times> bytes) list \<times> ('v, 'r) MultiLevelCache" where
  "set_many_l1 now ttl [] (pairs, c) = (None, pairs, c)"
| "set_many_l1 now ttl ((key, value) # items) (pairs, c) =
     (case encodeWith (mc_codec c) value of
        None \<Rightarrow> (Some ErrEncode, pairs, c)
      | Some data \<Rightarrow>
          let c1 = l1Set now key data ttl c;
              pairs1 = (if mc_rdb c1 \<noteq> None then pairs @ [(l2Key ''cache'' key, data)] else pairs)
          in set_many_l1 now ttl items (pairs1, c1))"

definition SetMany :: "instant \<Rightarrow> int \<Rightarrow> (string \<times> 'v) list \<Rightarrow> duration \<Rightarrow> ('v, 'r) MultiLevelCache \<Rightarrow>
   cache_error option \<times> ('v, 'r) MultiLevelCache" where
  "SetMany now r items ttl c =
     (let ttl1 = (if ttl \<le> 0 then op_DefaultTTL (mc_opts c) else ttl);
          ttl2 = jitterTTL ttl1 (op_Jitter (mc_opts c)) r
      in case set_many_l1 now ttl2 items ([], c) of
           (Some e, _, c1) \<Rightarrow> (Some e, c1)
         | (None, pairs, c1) \<Rightarrow>
             (case mc_rdb c1 of
                None \<Rightarrow> (None, c1)
              | Some R \<Rightarrow> if pairs = [] then (None, c1) else l2_write (rd_mset R now pairs (mc_l2 c1)) c1))"

definition SetNil :: "instant \<Rightarrow> string \<Rightarrow> ('v, 'r) MultiLevelCache \<Rightarrow> cache_error option \<times> ('v, 'r) MultiLevelCache" where
  "SetNil now key c =
     (let ttl = op_DefaultNilTTL (mc_opts c); c1 = l1Set now key nilPlaceholder ttl c
      in case mc_rdb c1 of
           None \<Rightarrow> (None, c1)
         | Some R \<Rightarrow> l2_write (rd_set R now (l2Key ''cache'' key) nilPlaceholder ttl (mc_l2 c1)) c1)"

definition Delete :: "instant \<Rightarrow> string \<Rightarrow> ('v, 'r) MultiLevelCache \<Rightarrow> cache_error option \<times> ('v, 'r) MultiLevelCache" where
  "Delete now key c =
     (let c1 = l1Del key c
      in case mc_rdb c1 of
           None \<Rightarrow> (None, c1)
         | Some R \<Rightarrow> l2_write (rd_del R now (l2Key ''cache'' key) (mc_l2 c1)) c1)"

definition Exists :: "instant \<Rightarrow> string \<Rightarrow> ('v, 'r) MultiLevelCache \<Rightarrow> (cache_error + bool) \<times> ('v, 'r) MultiLevelCache" where
  "Exists now key c =
     (case l1Get now key c of
        (Some _, c1) \<Rightarrow> (Inr True, c1)
      | (None, c1) \<Rightarrow>
          (case mc_rdb c1 of
             None \<Rightarrow> (Inr False, c1)
           | Some R \<Rightarrow>
               (case rd_exists R now (l2Key ''cache'' key) (mc_l2 c1) of
                  None \<Rightarrow> (Inl ErrRedis, c1)
                | Some n \<Rightarrow> (Inr (n > 0), c1))))"

fun del_all :: "'r redis \<Rightarrow> instant \<Rightarrow> string list \<Rightarrow> 'r \<Rightarrow> bool \<times> 'r" where
  "del_all R now [] r = (True, r)"
| "del_all R now (k # ks) r =
     (case rd_del R now k r of (ok, r1) \<Rightarrow> if ok then del_all R now ks r1 else (False, r1))"

definition Clear :: "instant \<Rightarrow> ('v, 'r) MultiLevelCache \<Rightarrow> cache_error option \<times> ('v, 'r) MultiLevelCache" where
  "Clear now c =
     (let c1 = l1Clear c
      in case mc_rdb c1 of
           None \<Rightarrow> (None, c1)
         | Some R \<Rightarrow>
             (case rd_scan R now ''cache:*'' (mc_l2 c1) of
                None \<Rightarrow> (Some ErrRedis, c1)
              | Some ks \<Rightarrow> l2_write (del_all R now ks (mc_l2 c1)) c1))"

text \<open>\<open>Warmup\<close>: \<open>items\<close> is what the loader returned, with the random number of each \<open>Set\<close>.\<close>

fun warm_all :: "instant \<Rightarrow> (string \<times> 'v \<times> int) list \<Rightarrow> ('v, 'r) MultiLevelCache \<Rightarrow>
   cache_error option \<times> ('v, 'r) MultiLevelCache" where
  "warm_all now [] c = (None, c)"
| "warm_all now ((key, value, r) # items) c =
     (case Set now r key value (op_DefaultTTL (mc_opts c)) c of
        (Some e, c1) \<Rightarrow> (Some e, c1)
      | (None, c1) \<Rightarrow> warm_all now items c1)"

definition Warmup :: "instant \<Rightarrow> (string \<times> 'v \<times> int) list option \<Rightarrow> ('v, 'r) MultiLevelCache \<Rightarrow>
   cache_error option \<times> ('v, 'r) MultiLevelCache" where
  "Warmup now loader c = (case loader of None \<Rightarrow> (Some ErrLoader, c) | Some items \<Rightarrow> warm_all now items c)"

definition TryLock :: "instant \<Rightarrow> string \<Rightarrow> duration \<Rightarrow> ('v, 'r) MultiLevelCache \<Rightarrow>
   (cache_error + bool) \<times> ('v, 'r) MultiLevelCache" where
  "TryLock now key ttl c =
     (case mc_rdb c of
        None \<Rightarrow> (Inl ErrNoRedis, c)
      | Some R \<Rightarrow>
          (case rd_setnx R now (l2Key ''lock'' key) [49] (if ttl \<le> 0 then 30000000000 else ttl) (mc_l2 c) of
             (None, r) \<Rightarrow> (Inl ErrRedis, c\<lparr>mc_l2 := r\<rparr>)
           | (Some ok, r) \<Rightarrow> (Inr ok, c\<lparr>mc_l2 := r\<rparr>)))"

definition Unlock :: "instant \<Rightarrow> string \<Rightarrow> ('v, 'r) MultiLevelCache \<Rightarrow> cache_error option \<times> ('v, 'r) MultiLevelCache" where
  "Unlock now key c =
     (case mc_rdb c of
        None \<Rightarrow> (Some ErrNoRedis, c)
      | Some R \<Rightarrow> l2_write (rd_del R now (l2Key ''lock'' key) (mc_l2 c)) c)"

definition PublishInvalidation :: "instant \<Rightarrow> string \<Rightarrow> ('v, 'r) MultiLevelCache \<Rightarrow>
   cache_error option \<times> ('v, 'r) MultiLevelCache" where
  "PublishInvalidation now key c =
     (case mc_rdb c of
        None \<Rightarrow> (None, l1Del key c)
      | Some R \<Rightarrow>
          (case l2_write (rd_del R now (l2Key ''cache'' key) (mc_l2 c)) c of
             (Some e, c1) \<Rightarrow> (Some e, c1)
           | (None, c1) \<Rightarrow>
               let c2 = l1Del key c1
               in l2_write (rd_publish R now ''cache:invalidate'' key (mc_l2 c2)) c2))"

text \<open>One message of the key-expiry channel, whose payload is the name of the expired Redis key.\<close>

definition invalidation_msg :: "string \<Rightarrow> ('v, 'r) MultiLevelCache \<Rightarrow> ('v, 'r) MultiLevelCache" where
  "invalidation_msg payload c = l1Del payload c"

definition Stats :: "('v, 'r) MultiLevelCache \<Rightarrow> int \<times> int \<times> int" where
  "Stats c = (int (length (mc_l1 c)), mc_hits c, mc_misses c)"

section \<open>L1 as a map\<close>

lemma map_of_l1_put: "map_of (l1_put k e m) = (map_of m)(k \<mapsto> e)"
proof (cases "map_of m k")
  case None
  then show ?thesis
    by (auto simp: l1_put_def map_add_def fun_eq_iff split: option.splits)
next
  case (Some e')
  have "map_of (update_first (\<lambda>x. fst x = k) (\<lambda>_. (k, e)) m) = (map_of m)(k \<mapsto> e)"
    using Some by (induction m) (auto split: if_splits)
  with Some show ?thesis by (simp add: l1_put_def)
qed

lemma map_of_l1_delete: "map_of (l1_delete k m) = (map_of m)(k := None)"
  by (induction m) (auto simp: l1_delete_def)

lemma keys_l1_put: "map fst (l1_put k e m) = (if map_of m k = None then map fst m @ [k] else map fst m)"
proof -
  have "map fst (update_first (\<lambda>x. fst x = k) (\<lambda>_. (k, e)) m) = map fst m"
    by (rule map_update_first) simp
  then show ?thesis by (simp add: l1_put_def)
qed

lemma distinct_l1_put: "distinct (map fst m) \<Longrightarrow> distinct (map fst (l1_put k e m))"
  by (simp add: keys_l1_put map_of_eq_None_iff)

lemma distinct_filter_keys: "distinct (map fst m) \<Longrightarrow> distinct (map fst (filter p m))"
  by (rule distinct_map_filter)

lemma map_of_filter_sub: "distinct (map fst m) \<Longrightarrow> map_of (filter p m) k = Some e \<Longrightarrow> map_of m k = Some e"
  by (simp add: distinct_filter_keys)

lemma length_l1_put: "length (l1_put k e m) = (if map_of m k = None then Suc (length m) else length m)"
  by (simp add: l1_put_def)

lemma set_l1_put:
  "distinct (map fst m) \<Longrightarrow> set (l1_put k e m) = insert (k, e) {x \<in> set m. fst x \<noteq> k}"
proof -
  assume d: "distinct (map fst m)"
  have "x \<in> set (l1_put k e m) \<longleftrightarrow> x = (k, e) \<or> (x \<in> set m \<and> fst x \<noteq> k)" for x
  proof (cases x)
    case (Pair a b)
    have "x \<in> set (l1_put k e m) \<longleftrightarrow> map_of (l1_put k e m) a = Some b"
      using distinct_l1_put [OF d] Pair by simp
    also have "\<dots> \<longleftrightarrow> (if a = k then b = e else map_of m a = Some b)"
      by (auto simp: map_of_l1_put)
    finally show ?thesis using d Pair by auto
  qed
  then show ?thesis by blast
qed

lemma set_l1_delete: "set (l1_delete k m) = {x \<in> set m. fst x \<noteq> k}"
  by (auto simp: l1_delete_def)

section \<open>The invariant of L1\<close>

text \<open>
  Keys differ, the last hits differ and are at most the clock, no key is empty, and there are at most
  \<open>n\<close> entries.
\<close>

definition l1_inv :: "int \<Rightarrow> (string \<times> l1Entry) list \<Rightarrow> int \<Rightarrow> bool" where
  "l1_inv n m clock \<longleftrightarrow> distinct (map fst m) \<and> inj_on (\<lambda>x. l1_lastHit (snd x)) (set m) \<and>
     (\<forall>x \<in> set m. l1_lastHit (snd x) \<le> clock \<and> fst x \<noteq> []) \<and> int (length m) \<le> n"

lemma l1_inv_clock: "l1_inv n m clock \<Longrightarrow> clock \<le> clock' \<Longrightarrow> l1_inv n m clock'"
  by (fastforce simp: l1_inv_def)

lemma l1_inv_filter: "l1_inv n m clock \<Longrightarrow> l1_inv n (filter p m) clock"
proof -
  assume i: "l1_inv n m clock"
  have "int (length m) \<le> n" using i by (simp add: l1_inv_def)
  then have "int (length (filter p m)) \<le> n" using length_filter_le [of p m] by linarith
  with i show ?thesis by (auto simp: l1_inv_def distinct_filter_keys intro: inj_on_subset)
qed

lemma l1_inv_put:
  assumes inv: "l1_inv n m clock" and e: "l1_lastHit e = clock + 1" and k: "k \<noteq> []"
    and n: "map_of m k = None \<Longrightarrow> int (length m) < n"
  shows "l1_inv n (l1_put k e m) (clock + 1)"
proof -
  have d: "distinct (map fst m)" using inv by (simp add: l1_inv_def)
  have "inj_on (\<lambda>x. l1_lastHit (snd x)) (insert (k, e) {x \<in> set m. fst x \<noteq> k})"
  proof (rule inj_onI)
    fix x y
    assume xy: "x \<in> insert (k, e) {x \<in> set m. fst x \<noteq> k}" "y \<in> insert (k, e) {x \<in> set m. fst x \<noteq> k}"
      and eq: "l1_lastHit (snd x) = l1_lastHit (snd y)"
    have le: "\<And>z. z \<in> set m \<Longrightarrow> l1_lastHit (snd z) < clock + 1"
      using inv by (fastforce simp: l1_inv_def)
    from xy eq e le [of x] le [of y] inv show "x = y"
      by (auto simp: l1_inv_def dest: inj_onD)
  qed
  moreover have "int (length (l1_put k e m)) \<le> n"
    using n inv by (auto simp: length_l1_put l1_inv_def)
  ultimately show ?thesis
    using inv e k unfolding l1_inv_def set_l1_put [OF d] by (auto simp: distinct_l1_put)
qed

lemma oldest_spec:
  assumes "\<forall>x \<in> set m. l1_lastHit (snd x) < h \<longrightarrow> fst x \<noteq> []"
  shows "(oldest m k0 h = k0 \<and> (\<forall>x \<in> set m. h \<le> l1_lastHit (snd x))) \<or>
    (\<exists>x \<in> set m. fst x = oldest m k0 h \<and> l1_lastHit (snd x) < h \<and> (\<forall>y \<in> set m. l1_lastHit (snd x) \<le> l1_lastHit (snd y)))"
  using assms
proof (induction m k0 h rule: oldest.induct)
  case (2 k v m k0 h)
  show ?case
  proof (cases "l1_lastHit v < h")
    case True
    have "\<forall>x \<in> set m. l1_lastHit (snd x) < l1_lastHit v \<longrightarrow> fst x \<noteq> []" using 2(3) True by auto
    from 2(1) [OF True this] show ?thesis
    proof
      assume "oldest m k (l1_lastHit v) = k \<and> (\<forall>x \<in> set m. l1_lastHit v \<le> l1_lastHit (snd x))"
      with True show ?thesis by (intro disjI2 bexI [of _ "(k, v)"]) auto
    next
      assume "\<exists>x \<in> set m. fst x = oldest m k (l1_lastHit v) \<and> l1_lastHit (snd x) < l1_lastHit v \<and>
        (\<forall>y \<in> set m. l1_lastHit (snd x) \<le> l1_lastHit (snd y))"
      then obtain x where "x \<in> set m" "fst x = oldest m k (l1_lastHit v)" "l1_lastHit (snd x) < l1_lastHit v"
        "\<forall>y \<in> set m. l1_lastHit (snd x) \<le> l1_lastHit (snd y)" by blast
      with True show ?thesis by (intro disjI2 bexI [of _ x]) auto
    qed
  next
    case False
    have "\<forall>x \<in> set m. l1_lastHit (snd x) < h \<longrightarrow> fst x \<noteq> []" using 2(3) by auto
    from 2(2) [OF False this] show ?thesis
    proof
      assume "\<exists>x \<in> set m. fst x = oldest m k0 h \<and> l1_lastHit (snd x) < h \<and>
        (\<forall>y \<in> set m. l1_lastHit (snd x) \<le> l1_lastHit (snd y))"
      then obtain x where "x \<in> set m" "fst x = oldest m k0 h" "l1_lastHit (snd x) < h"
        "\<forall>y \<in> set m. l1_lastHit (snd x) \<le> l1_lastHit (snd y)" by blast
      with False show ?thesis by (intro disjI2 bexI [of _ x]) auto
    qed (use False in auto)
  qed
qed simp

text \<open>Eviction removes exactly the entry that was hit longest ago.\<close>

lemma evict_spec:
  assumes inv: "l1_inv n (mc_l1 c) (mc_clock c)" and clock: "mc_clock c < 2 ^ 63 - 1" and ne: "mc_l1 c \<noteq> []"
  shows "\<exists>x \<in> set (mc_l1 c). (\<forall>y \<in> set (mc_l1 c). l1_lastHit (snd x) \<le> l1_lastHit (snd y)) \<and>
    evictOneLocked c = c\<lparr>mc_l1 := l1_delete (fst x) (mc_l1 c)\<rparr> \<and>
    length (mc_l1 c) = Suc (length (l1_delete (fst x) (mc_l1 c)))"
proof -
  let ?m = "mc_l1 c" and ?o = "oldest (mc_l1 c) [] (2 ^ 63 - 1)"
  have lt: "\<forall>x \<in> set ?m. l1_lastHit (snd x) < 2 ^ 63 - 1" "\<forall>x \<in> set ?m. fst x \<noteq> []"
    using inv clock by (fastforce simp: l1_inv_def)+
  obtain x0 where x0: "x0 \<in> set ?m" using ne by (cases ?m) auto
  with lt have "\<not> (\<forall>x \<in> set ?m. 2 ^ 63 - 1 \<le> l1_lastHit (snd x))" by (metis linorder_not_less)
  with oldest_spec [of ?m "2 ^ 63 - 1" "[]"] lt obtain x where
    x: "x \<in> set ?m" "fst x = ?o" "\<forall>y \<in> set ?m. l1_lastHit (snd x) \<le> l1_lastHit (snd y)" by blast
  have "?o \<noteq> []" using x lt by metis
  then have ev: "evictOneLocked c = c\<lparr>mc_l1 := l1_delete (fst x) (mc_l1 c)\<rparr>"
    by (simp add: evictOneLocked_def x)
  have d: "distinct (map fst ?m)" using inv by (simp add: l1_inv_def)
  then have "filter (\<lambda>e. fst e \<noteq> fst x) ?m = delete_first (\<lambda>e. fst e = fst x) ?m"
    by (rule delete_first_filter [symmetric])
  moreover have "find (\<lambda>e. fst e = fst x) ?m = Some x" by (rule find_key [OF d x(1)])
  ultimately have "length ?m = Suc (length (l1_delete (fst x) ?m))"
    by (simp add: l1_delete_def length_delete_first)
  with x ev show ?thesis by blast
qed

lemma l1Set_inv:
  assumes inv: "l1_inv (op_L1MaxSize (mc_opts c)) (mc_l1 c) (mc_clock c)" and max: "0 < op_L1MaxSize (mc_opts c)"
    and clock: "mc_clock c < 2 ^ 63 - 1" and k: "key \<noteq> []"
  shows "l1_inv (op_L1MaxSize (mc_opts c)) (mc_l1 (l1Set now key data ttl c)) (mc_clock (l1Set now key data ttl c)) \<and>
    mc_clock (l1Set now key data ttl c) = mc_clock c + 1"
proof (cases "int (length (mc_l1 c)) \<ge> op_L1MaxSize (mc_opts c)")
  case False
  with l1_inv_put [OF inv _ k] show ?thesis by (simp add: l1Set_def Let_def)
next
  case True
  then have "mc_l1 c \<noteq> []" using max by auto
  from evict_spec [OF inv clock this] obtain x where x: "x \<in> set (mc_l1 c)" "evictOneLocked c = c\<lparr>mc_l1 := l1_delete (fst x) (mc_l1 c)\<rparr>"
    "length (mc_l1 c) = Suc (length (l1_delete (fst x) (mc_l1 c)))"
    by blast
  have "l1_inv (op_L1MaxSize (mc_opts c)) (l1_delete (fst x) (mc_l1 c)) (mc_clock c)"
    unfolding l1_delete_def by (rule l1_inv_filter [OF inv])
  moreover have "int (length (l1_delete (fst x) (mc_l1 c))) < op_L1MaxSize (mc_opts c)"
    using inv x(3) by (simp add: l1_inv_def)
  ultimately show ?thesis
    using True x(2) l1_inv_put [OF _ _ k] by (simp add: l1Set_def Let_def)
qed

lemma l1Get_inv:
  assumes "l1_inv n (mc_l1 c) (mc_clock c)"
  shows "l1_inv n (mc_l1 (snd (l1Get now key c))) (mc_clock (snd (l1Get now key c))) \<and>
    mc_clock c \<le> mc_clock (snd (l1Get now key c))"
proof (cases "map_of (mc_l1 c) key")
  case (Some e)
  then have "(key, e) \<in> set (mc_l1 c)" by (rule map_of_SomeD)
  then have "key \<noteq> []" using assms by (auto simp: l1_inv_def)
  with Some assms l1_inv_put [OF assms, of "e\<lparr>l1_lastHit := mc_clock c + 1\<rparr>" key] l1_inv_filter [OF assms]
  show ?thesis by (auto simp: l1Get_def Let_def l1_delete_def)
qed (use assms in \<open>simp add: l1Get_def\<close>)

section \<open>Histories\<close>

datatype 'v cache_op =
    CGet instant string
  | CGetMany instant "string list"
  | CSet instant int string 'v duration
  | CSetMany instant int "(string \<times> 'v) list" duration
  | CSetNil instant string
  | CDelete instant string
  | CExists instant string
  | CClear instant
  | CWarmup instant "(string \<times> 'v \<times> int) list option"
  | CPublish instant string
  | CTick instant
  | CMsg string

definition cache_step :: "'v codecs \<Rightarrow> 'v cache_op \<Rightarrow> ('v, 'r) MultiLevelCache \<Rightarrow> ('v, 'r) MultiLevelCache" where
  "cache_step cs op c =
     (case op of
        CGet t k \<Rightarrow> snd (Get cs False t k c)
      | CGetMany t ks \<Rightarrow> snd (GetMany t ks c)
      | CSet t r k v ttl \<Rightarrow> snd (Set t r k v ttl c)
      | CSetMany t r items ttl \<Rightarrow> snd (SetMany t r items ttl c)
      | CSetNil t k \<Rightarrow> snd (SetNil t k c)
      | CDelete t k \<Rightarrow> snd (Delete t k c)
      | CExists t k \<Rightarrow> snd (Exists t k c)
      | CClear t \<Rightarrow> snd (Clear t c)
      | CWarmup t loader \<Rightarrow> snd (Warmup t loader c)
      | CPublish t k \<Rightarrow> snd (PublishInvalidation t k c)
      | CTick t \<Rightarrow> evict_tick t c
      | CMsg p \<Rightarrow> invalidation_msg p c)"

fun cache_run :: "'v codecs \<Rightarrow> 'v cache_op list \<Rightarrow> ('v, 'r) MultiLevelCache \<Rightarrow> ('v, 'r) MultiLevelCache" where
  "cache_run cs [] c = c"
| "cache_run cs (op # ops) c = cache_run cs ops (cache_step cs op c)"

fun op_keys :: "'v cache_op \<Rightarrow> string list" where
  "op_keys (CGet t k) = [k]"
| "op_keys (CGetMany t ks) = ks"
| "op_keys (CSet t r k v ttl) = [k]"
| "op_keys (CSetMany t r items ttl) = map fst items"
| "op_keys (CSetNil t k) = [k]"
| "op_keys (CDelete t k) = [k]"
| "op_keys (CExists t k) = [k]"
| "op_keys (CClear t) = []"
| "op_keys (CWarmup t loader) = (case loader of None \<Rightarrow> [] | Some items \<Rightarrow> map fst items)"
| "op_keys (CPublish t k) = [k]"
| "op_keys (CTick t) = []"
| "op_keys (CMsg p) = []"

text \<open>
  \<open>bounded\<close>: the options are normalised and L1 satisfies its invariant as long as the clock, which
  only grows, is below the word.
\<close>

definition bounded :: "('v, 'r) MultiLevelCache \<Rightarrow> bool" where
  "bounded c \<longleftrightarrow> 0 < op_L1MaxSize (mc_opts c) \<and>
     (mc_clock c < 2 ^ 63 \<longrightarrow> l1_inv (op_L1MaxSize (mc_opts c)) (mc_l1 c) (mc_clock c))"

lemma bounded_fields [simp]:
  "bounded (c\<lparr>mc_hits := h\<rparr>) = bounded c" "bounded (c\<lparr>mc_misses := h\<rparr>) = bounded c" "bounded (c\<lparr>mc_l2 := r\<rparr>) = bounded c"
  by (simp_all add: bounded_def)

lemma bounded_l1_filter: "bounded c \<Longrightarrow> bounded (c\<lparr>mc_l1 := filter p (mc_l1 c)\<rparr>)"
  by (simp add: bounded_def l1_inv_filter)

lemma bounded_clear: "bounded c \<Longrightarrow> bounded (l1Clear c)"
  by (simp add: bounded_def l1Clear_def l1_inv_def)

lemma bounded_del: "bounded c \<Longrightarrow> bounded (l1Del k c)"
  by (simp add: l1Del_def l1_delete_def bounded_l1_filter)

lemma l1Set_fields [simp]:
  "mc_opts (l1Set t k d ttl c) = mc_opts c" "mc_rdb (l1Set t k d ttl c) = mc_rdb c" "mc_codec (l1Set t k d ttl c) = mc_codec c"
  "mc_l2 (l1Set t k d ttl c) = mc_l2 c" "mc_hits (l1Set t k d ttl c) = mc_hits c" "mc_misses (l1Set t k d ttl c) = mc_misses c"
  "mc_clock (l1Set t k d ttl c) = mc_clock c + 1"
  by (simp_all add: l1Set_def evictOneLocked_def Let_def)

lemma l1Get_fields [simp]:
  "mc_opts (snd (l1Get t k c)) = mc_opts c" "mc_rdb (snd (l1Get t k c)) = mc_rdb c" "mc_codec (snd (l1Get t k c)) = mc_codec c"
  "mc_l2 (snd (l1Get t k c)) = mc_l2 c"
  by (simp_all add: l1Get_def Let_def split: option.split)

lemma bounded_set: "bounded c \<Longrightarrow> k \<noteq> [] \<Longrightarrow> bounded (l1Set t k d ttl c)"
proof -
  assume b: "bounded c" and k: "k \<noteq> []"
  then have max: "0 < op_L1MaxSize (mc_opts c)" by (simp add: bounded_def)
  show ?thesis
  proof (cases "mc_clock c + 1 < 2 ^ 63")
    case True
    then have "mc_clock c < 2 ^ 63 - 1" "l1_inv (op_L1MaxSize (mc_opts c)) (mc_l1 c) (mc_clock c)"
      using b by (auto simp: bounded_def)
    from l1Set_inv [OF this(2) max this(1) k] max show ?thesis by (simp add: bounded_def)
  qed (use max in \<open>simp add: bounded_def\<close>)
qed

lemma bounded_get: "bounded c \<Longrightarrow> bounded (snd (l1Get t k c))"
  using l1Get_inv [of "op_L1MaxSize (mc_opts c)" c t k]
  by (cases "mc_clock c < 2 ^ 63") (auto simp: bounded_def l1Get_def Let_def split: option.splits)

lemma bounded_getE: "l1Get t k c = (r, c') \<Longrightarrow> bounded c \<Longrightarrow> bounded c'"
  using bounded_get [of c t k] by simp

lemma bounded_l2_write: "bounded c \<Longrightarrow> bounded (snd (l2_write w c))"
  by (simp add: l2_write_def)

lemma bounded_Set: "bounded c \<Longrightarrow> k \<noteq> [] \<Longrightarrow> bounded (snd (Set t r k v ttl c))"
  by (auto simp: Set_def Let_def bounded_set bounded_l2_write split: option.split)

lemma bounded_set_many:
  "bounded c \<Longrightarrow> [] \<notin> fst ` set items \<Longrightarrow> bounded (snd (snd (set_many_l1 t ttl items (pairs, c))))"
proof (induction items arbitrary: pairs c)
  case (Cons kv items)
  then show ?case
    by (cases kv) (auto simp: Let_def bounded_set image_iff split: option.split)
qed simp

lemma bounded_warm: "bounded c \<Longrightarrow> [] \<notin> fst ` set items \<Longrightarrow> bounded (snd (warm_all t items c))"
proof (induction items arbitrary: c)
  case (Cons kv items)
  obtain k v r where kv: "kv = (k, v, r)" by (cases kv)
  have "bounded (snd (Set t r k v (op_DefaultTTL (mc_opts c)) c))"
    using Cons.prems kv by (intro bounded_Set) auto
  with Cons kv show ?case by (auto split: prod.splits option.splits)
qed simp

lemma bounded_many_l1: "bounded c \<Longrightarrow> bounded (snd (fold (get_many_l1 t) ks (res, c)))"
proof (induction ks arbitrary: res c)
  case (Cons k ks)
  obtain r c1 where g: "l1Get t k c = (r, c1)" by (cases "l1Get t k c")
  with Cons.prems have "bounded c1" by (rule bounded_getE [rotated])
  with Cons.IH g show ?case by (cases r) (simp_all add: get_many_l1_def)
qed simp

lemma bounded_many_l2: "bounded c \<Longrightarrow> [] \<notin> fst ` set kvs \<Longrightarrow> bounded (snd (fold (get_many_l2 t) kvs (res, c)))"
proof (induction kvs arbitrary: res c)
  case (Cons kv kvs)
  then show ?case
    by (cases kv) (auto simp: get_many_l2_def Let_def bounded_set image_iff split: option.splits)
qed simp

lemma set_zip_fst: "x \<in> fst ` set (zip ks vs) \<Longrightarrow> x \<in> set ks"
  by (auto dest: set_zip_leftD)

lemma bounded_GetMany: "bounded c \<Longrightarrow> [] \<notin> set ks \<Longrightarrow> bounded (snd (GetMany t ks c))"
proof -
  assume b: "bounded c" and ks: "[] \<notin> set ks"
  obtain res c1 where f: "fold (get_many_l1 t) ks (Map.empty, c) = (res, c1)" by (cases "fold (get_many_l1 t) ks (Map.empty, c)")
  have b1: "bounded c1" using bounded_many_l1 [OF b, of t ks Map.empty] f by simp
  have "bounded (snd (fold (get_many_l2 t) (zip (filter (\<lambda>k. res k = None) ks) vs) (res, c1)))" for vs
    using ks set_zip_fst by (intro bounded_many_l2 [OF b1]) fastforce
  then have "bounded c2" if "fold (get_many_l2 t) (zip (filter (\<lambda>k. res k = None) ks) vs) (res, c1) = (r2, c2)" for vs r2 c2
    using that by (metis snd_conv)
  with b b1 f show ?thesis
    by (auto simp: GetMany_def Let_def split: option.splits prod.splits if_splits)
qed

lemma bounded_step:
  assumes b: "bounded c" and ks: "[] \<notin> set (op_keys op)"
  shows "bounded (cache_step cs op c)"
proof (cases op)
  case (CGet t k)
  obtain r c1 where g: "l1Get t k c = (r, c1)" by (cases "l1Get t k c")
  with b have "bounded c1" by (rule bounded_getE [rotated])
  with g CGet ks show ?thesis
    by (auto simp: cache_step_def Get_def Let_def bounded_set split: option.split redis_reply.split)
next
  case (CExists t k)
  obtain r c1 where g: "l1Get t k c = (r, c1)" by (cases "l1Get t k c")
  with b have "bounded c1" by (rule bounded_getE [rotated])
  with g CExists show ?thesis
    by (auto simp: cache_step_def Exists_def split: option.split)
next
  case (CSetMany t r items ttl)
  have "bounded (snd (snd (set_many_l1 t ttl' items ([], c))))" for ttl'
    using CSetMany ks by (intro bounded_set_many b) auto
  then have "bounded c1" if "set_many_l1 t ttl' items ([], c) = (e, ps, c1)" for ttl' e ps c1
    using that by (metis snd_conv)
  with CSetMany show ?thesis
    by (auto simp: cache_step_def SetMany_def Let_def bounded_l2_write split: option.splits prod.splits)
next
  case (CPublish t k)
  with b show ?thesis
    by (auto simp: cache_step_def PublishInvalidation_def l2_write_def Let_def bounded_del split: option.splits if_splits)
qed (use assms in \<open>auto simp: cache_step_def bounded_GetMany bounded_Set SetNil_def Delete_def Clear_def Warmup_def
    evict_tick_def invalidation_msg_def Let_def bounded_set bounded_l2_write bounded_del bounded_clear bounded_warm
    bounded_l1_filter split: option.splits\<close>)

lemma bounded_run: "bounded c \<Longrightarrow> \<forall>op \<in> set ops. [] \<notin> set (op_keys op) \<Longrightarrow> bounded (cache_run cs ops c)"
  by (induction ops arbitrary: c) (simp_all add: bounded_step)

lemma bounded_new: "bounded (NewCache cs rdb r opts)"
  by (simp add: bounded_def NewCache_def norm_opts_def DefaultOptions_def l1_inv_def)

section \<open>Properties: the size of L1\<close>

definition demo_codec :: "string codec" where
  "demo_codec = \<lparr>co_Encode = (\<lambda>s. Some (map (\<lambda>c. of_nat (of_char c)) s)),
     co_Decode = (\<lambda>bs. Some (map (\<lambda>b. char_of (unat b)) bs)), co_Version = 1, co_Name = ''gob''\<rparr>"

definition demo_codecs :: "string codecs" where
  "demo_codecs = \<lparr>cs_byVer = [1 \<mapsto> demo_codec], cs_byName = [''gob'' \<mapsto> demo_codec], cs_legacy = demo_codec\<rparr>"

definition demo_opts :: Options where
  "demo_opts = \<lparr>op_DefaultTTL = 100, op_DefaultNilTTL = 10, op_Jitter = 0, op_L1MaxSize = 2, op_SlowThreshold = 5, op_Codec = ''gob''\<rparr>"

definition demo_cache :: "(string, redis_view) MultiLevelCache" where
  "demo_cache = NewCache demo_codecs (Some map_redis) Map.empty demo_opts"

text \<open>L1 never outgrows its limit. From a new cache, with or without Redis, any history of calls
  whose keys are not empty keeps at most \<open>L1MaxSize\<close> entries (the default 10000 when the option is not
  positive), at most one per key, as long as the clock has not left the 64-bit range.\<close>

lemma l1_never_outgrows:
  assumes "\<forall>op \<in> set ops. [] \<notin> set (op_keys op)"
    and "mc_clock (cache_run cs ops (NewCache cs rdb r opts)) < 2 ^ 63"
  shows "int (length (mc_l1 (cache_run cs ops (NewCache cs rdb r opts)))) \<le>
      op_L1MaxSize (mc_opts (cache_run cs ops (NewCache cs rdb r opts))) \<and>
    distinct (map fst (mc_l1 (cache_run cs ops (NewCache cs rdb r opts))))"
  using bounded_run [OF bounded_new [of cs rdb r opts] assms(1), of cs] assms(2)
  by (simp add: bounded_def l1_inv_def)

lemma l1_never_outgrows_witness:
  "int (length (mc_l1 (cache_run demo_codecs [CSet 0 0 ''a'' ''x'' 5, CSet 1 0 ''b'' ''y'' 5, CSet 2 0 ''c'' ''z'' 5] demo_cache))) \<le>
     op_L1MaxSize (mc_opts (cache_run demo_codecs [CSet 0 0 ''a'' ''x'' 5, CSet 1 0 ''b'' ''y'' 5, CSet 2 0 ''c'' ''z'' 5] demo_cache))"
proof -
  have "mc_clock (cache_run demo_codecs [CSet 0 0 ''a'' ''x'' 5, CSet 1 0 ''b'' ''y'' 5, CSet 2 0 ''c'' ''z'' 5] demo_cache) < 2 ^ 63"
    by (simp add: cache_step_def Set_def Let_def demo_cache_def NewCache_def demo_codecs_def demo_codec_def norm_opts_def
      demo_opts_def encodeWith_def l2_write_def)
  then show ?thesis
    unfolding demo_cache_def by (intro conjunct1 [OF l1_never_outgrows]) simp
qed

text \<open>Eviction is least-recently-hit. Writing a new key into a full L1 removes exactly one entry,
  one that was hit (or written) no later than any other; every other entry is still there with its
  data, and the new key is there.\<close>

lemma l1_evicts_lru:
  assumes inv: "l1_inv (op_L1MaxSize (mc_opts c)) (mc_l1 c) (mc_clock c)" and max: "0 < op_L1MaxSize (mc_opts c)"
    and clock: "mc_clock c < 2 ^ 63 - 1"
    and full: "int (length (mc_l1 c)) = op_L1MaxSize (mc_opts c)" and new: "map_of (mc_l1 c) key = None"
  shows "\<exists>victim e. map_of (mc_l1 c) victim = Some e \<and>
    (\<forall>k e'. map_of (mc_l1 c) k = Some e' \<longrightarrow> l1_lastHit e \<le> l1_lastHit e') \<and>
    (\<forall>k. map_of (mc_l1 (l1Set now key data ttl c)) k =
       (if k = key then Some \<lparr>l1_data = data, l1_expiresAt = now + ttl, l1_lastHit = mc_clock c + 1\<rparr>
        else if k = victim then None else map_of (mc_l1 c) k))"
proof -
  have ne: "mc_l1 c \<noteq> []" using full max by auto
  from evict_spec [OF inv clock ne] obtain x where x: "x \<in> set (mc_l1 c)"
    "\<forall>y \<in> set (mc_l1 c). l1_lastHit (snd x) \<le> l1_lastHit (snd y)"
    "evictOneLocked c = c\<lparr>mc_l1 := l1_delete (fst x) (mc_l1 c)\<rparr>" by blast
  have d: "distinct (map fst (mc_l1 c))" using inv by (simp add: l1_inv_def)
  have v: "map_of (mc_l1 c) (fst x) = Some (snd x)" using d x(1) by simp
  moreover have "l1_lastHit (snd x) \<le> l1_lastHit e'" if "map_of (mc_l1 c) k = Some e'" for k e'
    using x(2) map_of_SomeD [OF that] by auto
  moreover have "map_of (mc_l1 (l1Set now key data ttl c)) k =
       (if k = key then Some \<lparr>l1_data = data, l1_expiresAt = now + ttl, l1_lastHit = mc_clock c + 1\<rparr>
        else if k = fst x then None else map_of (mc_l1 c) k)" for k
    using full by (simp add: l1Set_def Let_def x(3) map_of_l1_put map_of_l1_delete)
  ultimately show ?thesis by blast
qed

definition full_l1 :: "(string, redis_view) MultiLevelCache" where
  "full_l1 = demo_cache\<lparr>mc_clock := 3, mc_l1 := [(''a'', \<lparr>l1_data = [1], l1_expiresAt = 9, l1_lastHit = 3\<rparr>),
     (''b'', \<lparr>l1_data = [2], l1_expiresAt = 9, l1_lastHit = 2\<rparr>)]\<rparr>"

lemma l1_evicts_lru_witness:
  "\<exists>victim. map_of (mc_l1 full_l1) victim \<noteq> None \<and> map_of (mc_l1 (l1Set 5 ''c'' [3] 9 full_l1)) victim = None"
proof -
  have f: "l1_inv (op_L1MaxSize (mc_opts full_l1)) (mc_l1 full_l1) (mc_clock full_l1)"
    "0 < op_L1MaxSize (mc_opts full_l1)" "mc_clock full_l1 < 2 ^ 63 - 1"
    "int (length (mc_l1 full_l1)) = op_L1MaxSize (mc_opts full_l1)" "map_of (mc_l1 full_l1) ''c'' = None"
    by (simp_all add: full_l1_def demo_cache_def NewCache_def norm_opts_def demo_opts_def l1_inv_def)
  from l1_evicts_lru [OF f, of 5 "[3]" 9] f(5) show ?thesis
    by (metis option.distinct(1))
qed

definition stuck :: "(string \<times> l1Entry) list \<Rightarrow> int \<Rightarrow> bool" where
  "stuck m clock \<longleftrightarrow> (\<exists>e m'. m = ([], e) # m' \<and> l1_lastHit e < 2 ^ 63 - 1 \<and> l1_lastHit e \<le> clock \<and>
     (\<forall>x \<in> set m'. l1_lastHit e \<le> l1_lastHit (snd x)))"

lemma oldest_keep: "\<forall>x \<in> set m. h \<le> l1_lastHit (snd x) \<Longrightarrow> oldest m k h = k"
  by (induction m k h rule: oldest.induct) auto

lemma stuck_l1Set:
  assumes s: "stuck (mc_l1 c) (mc_clock c)" and new: "k \<notin> fst ` set (mc_l1 c)"
  shows "stuck (mc_l1 (l1Set t k d ttl c)) (mc_clock (l1Set t k d ttl c)) \<and>
    map fst (mc_l1 (l1Set t k d ttl c)) = map fst (mc_l1 c) @ [k]"
proof -
  obtain e m' where m: "mc_l1 c = ([], e) # m'" "l1_lastHit e < 2 ^ 63 - 1" "l1_lastHit e \<le> mc_clock c"
    "\<forall>x \<in> set m'. l1_lastHit e \<le> l1_lastHit (snd x)"
    using s by (auto simp: stuck_def)
  have "oldest (mc_l1 c) [] (2 ^ 63 - 1) = []"
    using m oldest_keep [of m' "l1_lastHit e" "[]"] by simp
  then have ev: "evictOneLocked c = c" by (simp add: evictOneLocked_def)
  have "map_of (mc_l1 c) k = None" using new by (simp add: map_of_eq_None_iff)
  then have put: "mc_l1 (l1Set t k d ttl c) = mc_l1 c @ [(k, \<lparr>l1_data = d, l1_expiresAt = t + ttl, l1_lastHit = mc_clock c + 1\<rparr>)]"
    by (simp add: l1Set_def ev Let_def l1_put_def)
  then show ?thesis using m by (auto simp: stuck_def)
qed

lemma stuck_sets:
  assumes "stuck (mc_l1 c) (mc_clock c)" "mc_rdb c = None" "distinct ks" "set ks \<inter> fst ` set (mc_l1 c) = {}"
    and "co_Encode (mc_codec c) v = Some payload"
  shows "map fst (mc_l1 (cache_run cs (map (\<lambda>k. CSet t 0 k v ttl) ks) c)) = map fst (mc_l1 c) @ ks"
  using assms
proof (induction ks arbitrary: c)
  case (Cons k ks)
  define c1 where "c1 = cache_step cs (CSet t 0 k v ttl) c"
  obtain d ttl' where c1: "c1 = l1Set t k d ttl' c"
    using Cons.prems(2,5) by (simp add: c1_def cache_step_def Set_def Let_def encodeWith_def)
  have "k \<notin> fst ` set (mc_l1 c)" using Cons.prems(4) by auto
  note st = stuck_l1Set [OF Cons.prems(1) this, of t d ttl', folded c1]
  from arg_cong [OF conjunct2 [OF st], of set] have "fst ` set (mc_l1 c1) = insert k (fst ` set (mc_l1 c))"
    by simp
  then have "map fst (mc_l1 (cache_run cs (map (\<lambda>k. CSet t 0 k v ttl) ks) c1)) = map fst (mc_l1 c1) @ ks"
    using Cons.prems st by (intro Cons.IH) (auto simp: c1)
  with st show ?case by (simp add: c1_def)
qed simp

text \<open>The empty key switches eviction off. Once the empty key is in L1 as the least recently hit
  entry, \<open>evictOneLocked\<close> takes it for "nothing found": writing any number of different keys to a local
  cache keeps all of them, however small \<open>L1MaxSize\<close> is.\<close>

lemma empty_key_stops_eviction:
  assumes "distinct ks" "[] \<notin> set ks"
    and "co_Encode (mc_codec (NewCache cs (None :: 'r redis option) r opts)) v = Some payload"
  shows "length (mc_l1 (cache_run cs (CSet t 0 [] v ttl # map (\<lambda>k. CSet t 0 k v ttl) ks) (NewCache cs (None :: 'r redis option) r opts))) =
    Suc (length ks)"
proof -
  let ?c = "NewCache cs (None :: 'r redis option) r opts"
  define c1 where "c1 = cache_step cs (CSet t 0 [] v ttl) ?c"
  have max: "0 < op_L1MaxSize (mc_opts ?c)" using bounded_new [of cs "None :: 'r redis option" r opts] by (simp add: bounded_def)
  obtain d ttl' where "c1 = l1Set t [] d ttl' ?c"
    using assms(3) by (auto simp: c1_def cache_step_def Set_def Let_def encodeWith_def NewCache_def)
  then have c1: "mc_l1 c1 = [([], \<lparr>l1_data = d, l1_expiresAt = t + ttl', l1_lastHit = 1\<rparr>)]" "mc_clock c1 = 1"
    "mc_codec c1 = mc_codec ?c" "mc_rdb c1 = None"
    using max by (simp_all add: l1Set_def Let_def l1_put_def NewCache_def)
  have "map fst (mc_l1 (cache_run cs (map (\<lambda>k. CSet t 0 k v ttl) ks) c1)) = map fst (mc_l1 c1) @ ks"
    using assms c1 by (intro stuck_sets) (auto simp: stuck_def)
  then have "length (mc_l1 (cache_run cs (map (\<lambda>k. CSet t 0 k v ttl) ks) c1)) = length (map fst (mc_l1 c1) @ ks)"
    by (metis length_map)
  with c1 show ?thesis by (simp add: c1_def)
qed

lemma empty_key_stops_eviction_witness:
  "length (mc_l1 (cache_run demo_codecs (CSet 0 0 [] ''v'' 9 # map (\<lambda>k. CSet 0 0 k ''v'' 9) [''a'', ''b'', ''c''])
     (NewCache demo_codecs (None :: redis_view redis option) Map.empty demo_opts))) = 4"
  using empty_key_stops_eviction [of "[''a'', ''b'', ''c'']" demo_codecs "Map.empty :: redis_view" demo_opts "''v''" "[118]" 0 9]
  by (simp add: NewCache_def demo_codecs_def demo_codec_def demo_opts_def norm_opts_def)

section \<open>Coherence of the two levels\<close>

text \<open>
  \<open>coherent\<close>: under \<open>key\<close>, Redis holds \<open>d\<close> with expiry \<open>T\<close>, and whatever L1 holds under it is \<open>d\<close>.
  \<open>leaves\<close>: an operation that does not write, delete or clear the key.
\<close>

definition coherent :: "'r redis \<Rightarrow> ('r \<Rightarrow> redis_view) \<Rightarrow> string \<Rightarrow> bytes \<Rightarrow> instant option \<Rightarrow> ('v, 'r) MultiLevelCache \<Rightarrow> bool" where
  "coherent R view key d T c \<longleftrightarrow> mc_rdb c = Some R \<and> distinct (map fst (mc_l1 c)) \<and>
     (\<forall>e. map_of (mc_l1 c) key = Some e \<longrightarrow> l1_data e = d) \<and>
     view (mc_l2 c) (l2Key ''cache'' key) = Some (d, T)"

fun leaves :: "string \<Rightarrow> 'v cache_op \<Rightarrow> bool" where
  "leaves key (CGet t k) = True"
| "leaves key (CGetMany t ks) = True"
| "leaves key (CExists t k) = True"
| "leaves key (CTick t) = True"
| "leaves key (CMsg p) = True"
| "leaves key (CClear t) = False"
| "leaves key op = (key \<notin> set (op_keys op))"

lemma l2Key_inj [simp]: "l2Key n k = l2Key n k' \<longleftrightarrow> k = k'"
  by (simp add: l2Key_def)

lemma coherent_fields [simp]:
  "coherent R view key d T (c\<lparr>mc_hits := h\<rparr>) = coherent R view key d T c"
  "coherent R view key d T (c\<lparr>mc_misses := h\<rparr>) = coherent R view key d T c"
  by (simp_all add: coherent_def)

lemma coherent_filter: "coherent R view key d T c \<Longrightarrow> coherent R view key d T (c\<lparr>mc_l1 := filter p (mc_l1 c)\<rparr>)"
  by (auto simp: coherent_def distinct_filter_keys)

lemma coherent_put:
  "coherent R view key d T c \<Longrightarrow> (k = key \<Longrightarrow> l1_data e = d) \<Longrightarrow>
   coherent R view key d T (c\<lparr>mc_clock := n, mc_l1 := l1_put k e (mc_l1 c)\<rparr>)"
  by (auto simp: coherent_def distinct_l1_put map_of_l1_put)

lemma coherent_evict: "coherent R view key d T c \<Longrightarrow> coherent R view key d T (evictOneLocked c)"
  by (simp add: evictOneLocked_def Let_def l1_delete_def coherent_filter)

lemma coherent_l1Set:
  "coherent R view key d T c \<Longrightarrow> (k = key \<Longrightarrow> data = d) \<Longrightarrow> coherent R view key d T (l1Set t k data ttl c)"
  by (auto simp: l1Set_def Let_def coherent_evict intro!: coherent_put)

lemma coherent_l1Get:
  assumes "coherent R view key d T c" "l1Get t k c = (r, c')"
  shows "coherent R view key d T c'" and "k = key \<Longrightarrow> r = None \<or> r = Some d"
  using assms
  by (auto simp: l1Get_def Let_def l1_delete_def coherent_filter split: option.splits if_splits
      intro!: coherent_put) (auto simp: coherent_def)

lemma coherent_l2:
  "coherent R view key d T c \<Longrightarrow> view r (l2Key ''cache'' key) = view (mc_l2 c) (l2Key ''cache'' key) \<Longrightarrow>
   coherent R view key d T (c\<lparr>mc_l2 := r\<rparr>)"
  by (simp add: coherent_def)

lemma coherent_write:
  assumes "redis_ok R view" "coherent R view key d T c" "k \<noteq> key"
  shows "coherent R view key d T (snd (l2_write (rd_set R t (l2Key ''cache'' k) data ttl (mc_l2 c)) c))"
    and "coherent R view key d T (snd (l2_write (rd_del R t (l2Key ''cache'' k) (mc_l2 c)) c))"
  using assms(2,3) redis_okD(5,9) [OF assms(1)] unfolding l2_write_def snd_conv
  by (auto intro!: coherent_l2)

lemma coherent_rdb: "coherent R view key d T c \<Longrightarrow> mc_rdb c = Some R"
  by (simp add: coherent_def)

lemma coherent_Set:
  assumes "redis_ok R view" "coherent R view key d T c" "k \<noteq> key"
  shows "coherent R view key d T (snd (Set t r k v ttl c))"
proof -
  have "coherent R view key d T (l1Set t k data ttl' c)" for data ttl'
    using assms by (intro coherent_l1Set) auto
  from coherent_write(1) [OF assms(1) this assms(3)] show ?thesis
    using assms coherent_rdb [OF assms(2)] by (simp add: Set_def Let_def split: option.split)
qed

lemma coherent_warm:
  "redis_ok R view \<Longrightarrow> coherent R view key d T c \<Longrightarrow> key \<notin> fst ` set items \<Longrightarrow>
   coherent R view key d T (snd (warm_all t items c))"
proof (induction items arbitrary: c)
  case (Cons kv items)
  obtain k v r where kv: "kv = (k, v, r)" by (cases kv)
  have "coherent R view key d T (snd (Set t r k v (op_DefaultTTL (mc_opts c)) c))"
    using Cons.prems kv by (intro coherent_Set) auto
  with Cons kv show ?case by (auto split: prod.splits option.splits)
qed simp

lemma coherent_set_many:
  assumes "coherent R view key d T c" "key \<notin> fst ` set items" "l2Key ''cache'' key \<notin> fst ` set pairs"
  shows "coherent R view key d T (snd (snd (set_many_l1 t ttl items (pairs, c)))) \<and>
    l2Key ''cache'' key \<notin> fst ` set (fst (snd (set_many_l1 t ttl items (pairs, c))))"
  using assms
proof (induction items arbitrary: pairs c)
  case (Cons kv items)
  obtain k v where kv: "kv = (k, v)" by (cases kv)
  with Cons.prems have k: "k \<noteq> key" by auto
  show ?case
  proof (cases "encodeWith (mc_codec c) v")
    case None
    with Cons.prems kv show ?thesis by simp
  next
    case (Some data)
    have "coherent R view key d T (l1Set t k data ttl c)"
      using Cons.prems k by (intro coherent_l1Set) auto
    with Cons.IH [of "l1Set t k data ttl c"] Cons.prems k kv Some show ?thesis
      by (auto simp: Let_def)
  qed
qed simp

lemma fold_put_other: "x \<notin> fst ` set kvs \<Longrightarrow> fold (\<lambda>(k, d) v. v(k \<mapsto> (d, None))) kvs v x = v x"
  by (induction kvs arbitrary: v) auto

lemma coherent_SetMany:
  assumes ok: "redis_ok R view" and c: "coherent R view key d T c" and k: "key \<notin> fst ` set items"
  shows "coherent R view key d T (snd (SetMany t r items ttl c))"
proof -
  let ?ttl = "jitterTTL (if ttl \<le> 0 then op_DefaultTTL (mc_opts c) else ttl) (op_Jitter (mc_opts c)) r"
  obtain e pairs c1 where s: "set_many_l1 t ?ttl items ([], c) = (e, pairs, c1)" by (cases "set_many_l1 t ?ttl items ([], c)")
  with coherent_set_many [OF c k, of "[]" t ?ttl]
  have c1: "coherent R view key d T c1" "l2Key ''cache'' key \<notin> fst ` set pairs" by auto
  have "coherent R view key d T (snd (l2_write (rd_mset R t pairs (mc_l2 c1)) c1))"
    using c1 redis_okD(7) [OF ok] unfolding l2_write_def snd_conv
    by (intro coherent_l2) (simp_all add: fold_put_other)
  with s c1 coherent_rdb [OF c1(1)] show ?thesis
    by (simp add: SetMany_def Let_def split: option.split)
qed

lemma coherent_many_l1:
  "coherent R view key d T c \<Longrightarrow> coherent R view key d T (snd (fold (get_many_l1 t) ks (res, c)))"
proof (induction ks arbitrary: res c)
  case (Cons k ks)
  obtain r c1 where g: "l1Get t k c = (r, c1)" by (cases "l1Get t k c")
  with coherent_l1Get(1) [OF Cons.prems g] Cons.IH show ?case by (cases r) (simp_all add: get_many_l1_def)
qed simp

lemma coherent_many_l2:
  "coherent R view key d T c \<Longrightarrow> \<forall>(k, v) \<in> set kvs. k = key \<longrightarrow> v = None \<or> v = Some d \<Longrightarrow>
   coherent R view key d T (snd (fold (get_many_l2 t) kvs (res, c)))"
proof (induction kvs arbitrary: res c)
  case (Cons kv kvs)
  obtain k v where kv: "kv = (k, v)" by (cases kv)
  show ?case
  proof (cases v)
    case None
    with Cons kv show ?thesis by (simp add: get_many_l2_def)
  next
    case (Some raw)
    have "coherent R view key d T (l1Set t k raw (op_DefaultTTL (mc_opts c)) c)"
      using Cons.prems kv Some by (intro coherent_l1Set) auto
    with Cons kv Some show ?thesis by (simp add: get_many_l2_def Let_def)
  qed
qed simp

lemma coherent_live: "coherent R view key d T c \<Longrightarrow> live_at t (view (mc_l2 c)) (l2Key ''cache'' key) \<in> {None, Some d}"
  by (auto simp: coherent_def live_at_def split: option.split)

lemma coherent_GetMany:
  assumes ok: "redis_ok R view" and c: "coherent R view key d T c"
  shows "coherent R view key d T (snd (GetMany t ks c))"
proof -
  obtain res c1 where f: "fold (get_many_l1 t) ks (Map.empty, c) = (res, c1)" by (cases "fold (get_many_l1 t) ks (Map.empty, c)")
  have c1: "coherent R view key d T c1" using coherent_many_l1 [OF c, of t ks Map.empty] f by simp
  let ?ms = "filter (\<lambda>k. res k = None) ks"
  let ?kvs = "zip ?ms (map (live_at t (view (mc_l2 c1))) (map (l2Key ''cache'') ?ms))"
  have "\<forall>(k, v) \<in> set ?kvs. k = key \<longrightarrow> v = None \<or> v = Some d"
    using coherent_live [OF c1, of t] by (auto simp: zip_map2 zip_same_conv_map)
  from coherent_many_l2 [OF c1 this, of t res]
  have "coherent R view key d T c2" if "fold (get_many_l2 t) ?kvs (res, c1) = (r2, c2)" for r2 c2
    using that by simp
  with c c1 f coherent_rdb [OF c1] redis_okD(2) [OF ok] show ?thesis
    by (auto simp: GetMany_def Let_def split: option.splits prod.splits if_splits)
qed

lemma coherent_Get:
  assumes ok: "redis_ok R view" and c: "coherent R view key d T c"
  shows "coherent R view key d T (snd (Get cs False t k c))"
proof -
  obtain r c1 where g: "l1Get t k c = (r, c1)" by (cases "l1Get t k c")
  have c1: "coherent R view key d T c1" by (rule coherent_l1Get(1) [OF c g])
  show ?thesis
  proof (cases r)
    case (Some data)
    with c1 g show ?thesis by (simp add: Get_def Let_def)
  next
    case None
    have "coherent R view key d T (l1Set t k data (op_DefaultTTL (mc_opts c1)) c1)"
      if "live_at t (view (mc_l2 c1)) (l2Key ''cache'' k) = Some data" for data
      using that coherent_live [OF c1, of t] by (intro coherent_l1Set [OF c1]) auto
    with c1 g None coherent_rdb [OF c1] redis_okD(1) [OF ok] show ?thesis
      by (simp add: Get_def Let_def split: option.split redis_reply.split)
  qed
qed

lemma coherent_step:
  assumes ok: "redis_ok R view" and c: "coherent R view key d T c" and op: "leaves key op"
  shows "coherent R view key d T (cache_step cs op c)"
proof (cases op)
  case (CGet t k)
  with coherent_Get [OF ok c] show ?thesis by (simp add: cache_step_def)
next
  case (CExists t k)
  obtain r c1 where g: "l1Get t k c = (r, c1)" by (cases "l1Get t k c")
  have c1: "coherent R view key d T c1" by (rule coherent_l1Get(1) [OF c g])
  with CExists g coherent_rdb [OF c1] redis_okD(3) [OF ok] show ?thesis
    by (simp add: cache_step_def Exists_def split: option.split)
next
  case (CSetNil t k)
  with op have k: "k \<noteq> key" by auto
  have "coherent R view key d T (l1Set t k nilPlaceholder (op_DefaultNilTTL (mc_opts c)) c)"
    using k by (intro coherent_l1Set [OF c]) auto
  from coherent_write(1) [OF ok this k] CSetNil coherent_rdb [OF c] show ?thesis
    by (simp add: cache_step_def SetNil_def Let_def)
next
  case (CDelete t k)
  with op have k: "k \<noteq> key" by auto
  have "coherent R view key d T (l1Del k c)" by (simp add: l1Del_def l1_delete_def coherent_filter c)
  from coherent_write(2) [OF ok this k] CDelete coherent_rdb [OF c] show ?thesis
    by (simp add: cache_step_def Delete_def Let_def l1Del_def)
next
  case (CPublish t k)
  with op have k: "k \<noteq> key" by auto
  define c1 where "c1 = snd (l2_write (rd_del R t (l2Key ''cache'' k) (mc_l2 c)) c)"
  have c1: "coherent R view key d T c1" unfolding c1_def by (rule coherent_write(2) [OF ok c k])
  then have c2: "coherent R view key d T (l1Del k c1)" by (simp add: l1Del_def l1_delete_def coherent_filter)
  then have "coherent R view key d T (snd (l2_write (rd_publish R t ''cache:invalidate'' k (mc_l2 (l1Del k c1))) (l1Del k c1)))"
    using redis_okD(11) [OF ok] unfolding l2_write_def snd_conv by (intro coherent_l2) simp_all
  with CPublish c1 coherent_rdb [OF c] show ?thesis
    by (auto simp: cache_step_def PublishInvalidation_def Let_def c1_def split: option.split prod.split)
next
  case (CMsg p)
  with c show ?thesis by (simp add: cache_step_def invalidation_msg_def l1Del_def l1_delete_def coherent_filter)
next
  case (CTick t)
  with c show ?thesis by (simp add: cache_step_def evict_tick_def coherent_filter)
qed (use assms in \<open>auto simp: cache_step_def coherent_GetMany coherent_Set coherent_SetMany coherent_warm Warmup_def
    split: option.split\<close>)

lemma coherent_run:
  "redis_ok R view \<Longrightarrow> coherent R view key d T c \<Longrightarrow> \<forall>op \<in> set ops. leaves key op \<Longrightarrow>
   coherent R view key d T (cache_run cs ops c)"
  by (induction ops arbitrary: c) (simp_all add: coherent_step)

text \<open>What a read answers while the value lives.\<close>

lemma coherent_read:
  assumes ok: "redis_ok R view" and c: "coherent R view key d T c" and live: "case T of None \<Rightarrow> True | Some e \<Rightarrow> t < e"
    and nn: "\<not> isNilValue d"
  shows "fst (Get cs False t key c) = decodeWith cs d"
proof -
  obtain r c1 where g: "l1Get t key c = (r, c1)" by (cases "l1Get t key c")
  note gc = coherent_l1Get [OF c g]
  show ?thesis
  proof (cases r)
    case (Some data)
    with gc(2) g nn show ?thesis by (simp add: Get_def Let_def)
  next
    case None
    have "live_at t (view (mc_l2 c1)) (l2Key ''cache'' key) = Some d"
      using gc(1) live by (auto simp: coherent_def live_at_def split: option.splits)
    with None g nn coherent_rdb [OF gc(1)] redis_okD(1) [OF ok] show ?thesis
      by (simp add: Get_def Let_def)
  qed
qed

section \<open>Properties: what reads return\<close>

lemma decode_encode:
  assumes "co_Encode codec v = Some payload" "payload \<noteq> []" "cs_byVer cs (co_Version codec) = Some codec"
    "co_Decode codec payload = Some v" "encodeWith codec v = Some d"
  shows "decodeWith cs d = Inr v"
  using assms by (auto simp: encodeWith_def decodeWith_def)

lemma encoded_not_nil: "encodeWith codec v = Some d \<Longrightarrow> co_Version codec \<noteq> 0 \<Longrightarrow> \<not> isNilValue d"
  by (auto simp: encodeWith_def isNilValue_def split: option.splits)

lemma jitterTTL_pos: "0 < base \<Longrightarrow> 0 < jitterTTL base jitter r"
  by (simp add: jitterTTL_def Let_def)

text \<open>C14: Read your writes. With a Redis that answers and a codec that is registered under its own
  non-zero version and decodes what it encoded, a value written by \<open>Set\<close> is what \<open>Get\<close> returns until its
  jittered time to live, in the whole milliseconds that are sent to Redis, is over, through any history
  of reads, of writes and deletions of other keys, of evictions, sweeps and expiry messages. (The
  default time to live is positive, as \<open>New\<close> makes it; a jittered sum that leaves the 64 bits is one
  second.)\<close>

theorem get_after_set:
  assumes ok: "redis_ok R view" and rdb: "mc_rdb c = Some R" and l1: "distinct (map fst (mc_l1 c))"
    and enc: "co_Encode (mc_codec c) v = Some payload" "payload \<noteq> []" and dec: "co_Decode (mc_codec c) payload = Some v"
    and reg: "cs_byVer cs (co_Version (mc_codec c)) = Some (mc_codec c)" "co_Version (mc_codec c) \<noteq> 0"
    and hist: "\<forall>op \<in> set ops. leaves key op" and default: "0 < op_DefaultTTL (mc_opts c)"
    and live: "t < t0 + sent_ttl (jitterTTL (if ttl \<le> 0 then op_DefaultTTL (mc_opts c) else ttl) (op_Jitter (mc_opts c)) r)"
  shows "fst (Set t0 r key v ttl c) = None \<and>
    fst (Get cs False t key (cache_run cs ops (snd (Set t0 r key v ttl c)))) = Inr v"
proof -
  let ?ttl = "jitterTTL (if ttl \<le> 0 then op_DefaultTTL (mc_opts c) else ttl) (op_Jitter (mc_opts c)) r"
  obtain d where d: "encodeWith (mc_codec c) v = Some d" using enc by (simp add: encodeWith_def)
  define c1 where "c1 = l1Set t0 key d ?ttl c"
  have s: "Set t0 r key v ttl c = l2_write (rd_set R t0 (l2Key ''cache'' key) d ?ttl (mc_l2 c1)) c1"
    using d rdb by (simp add: Set_def Let_def c1_def)
  have c1': "distinct (map fst (mc_l1 c1))" "\<forall>e. map_of (mc_l1 c1) key = Some e \<longrightarrow> l1_data e = d" "mc_rdb c1 = Some R"
    using l1 rdb
    by (auto simp: c1_def l1Set_def Let_def evictOneLocked_def l1_delete_def distinct_l1_put distinct_filter_keys map_of_l1_put)
  have "0 < ?ttl" by (rule jitterTTL_pos) (use default in simp)
  with ok obtain e where e: "view (snd (rd_set R t0 (l2Key ''cache'' key) d ?ttl (mc_l2 c1))) (l2Key ''cache'' key) = Some (d, Some e)"
    "t0 + sent_ttl ?ttl \<le> e"
    by (rule redis_ok_set)
  have "coherent R view key d (Some e) (snd (Set t0 r key v ttl c))"
    using c1' e by (auto simp: s l2_write_def coherent_def)
  moreover have "t < e" using live e(2) by simp
  ultimately have "fst (Get cs False t key (cache_run cs ops (snd (Set t0 r key v ttl c)))) = decodeWith cs d"
    using d reg(2) by (intro coherent_read [OF ok coherent_run [OF ok _ hist]]) (auto simp: encoded_not_nil)
  then have "fst (Get cs False t key (cache_run cs ops (snd (Set t0 r key v ttl c)))) = Inr v"
    using decode_encode [OF enc reg(1) dec d] by simp
  moreover have "fst (Set t0 r key v ttl c) = None"
    using redis_okD(4) [OF ok] by (simp add: s l2_write_def)
  ultimately show ?thesis by blast
qed

lemma demo_facts:
  "mc_rdb demo_cache = Some map_redis" "distinct (map fst (mc_l1 demo_cache))"
  "co_Encode (mc_codec demo_cache) ''x'' = Some [120]" "[120 :: 8 word] \<noteq> []"
  "co_Decode (mc_codec demo_cache) [120] = Some ''x''"
  "cs_byVer demo_codecs (co_Version (mc_codec demo_cache)) = Some (mc_codec demo_cache)"
  "co_Version (mc_codec demo_cache) \<noteq> 0"
proof -
  have c: "mc_codec demo_cache = demo_codec"
    by (simp add: demo_cache_def NewCache_def demo_codecs_def demo_opts_def)
  show "mc_rdb demo_cache = Some map_redis" "distinct (map fst (mc_l1 demo_cache))"
    by (simp_all add: demo_cache_def NewCache_def)
  show "co_Encode (mc_codec demo_cache) ''x'' = Some [120]" "[120 :: 8 word] \<noteq> []"
    "cs_byVer demo_codecs (co_Version (mc_codec demo_cache)) = Some (mc_codec demo_cache)"
    "co_Version (mc_codec demo_cache) \<noteq> 0"
    unfolding c by (simp_all add: demo_codec_def demo_codecs_def)
  show "co_Decode (mc_codec demo_cache) [120] = Some ''x''"
    unfolding c by (simp add: demo_codec_def) code_simp
qed

lemma get_after_set_witness:
  "fst (Get demo_codecs False 50 ''a'' (cache_run demo_codecs [CSet 1 0 ''b'' ''y'' 5, CDelete 2 ''c'', CTick 3, CMsg ''a'']
     (snd (Set 0 0 ''a'' ''x'' 60 demo_cache)))) = Inr ''x''"
proof -
  have "0 < op_DefaultTTL (mc_opts demo_cache)"
    "50 < 0 + sent_ttl (jitterTTL (if (60 :: int) \<le> 0 then op_DefaultTTL (mc_opts demo_cache) else 60) (op_Jitter (mc_opts demo_cache)) 0)"
    by (simp_all add: demo_cache_def NewCache_def demo_opts_def norm_opts_def jitterTTL_def sent_ttl_def)
  then show ?thesis
    by (intro conjunct2 [OF get_after_set [OF map_redis_ok demo_facts]]) auto
qed

text \<open>A value written by \<open>SetMany\<close> does not expire. The time to live given to \<open>SetMany\<close> reaches L1 only
  (\<open>MSET\<close> carries none): once it is over, and at any later time, \<open>Get\<close> still returns the value, unless the
  key is written, deleted or cleared.\<close>

lemma set_many_never_expires:
  assumes ok: "redis_ok R view" and rdb: "mc_rdb c = Some R" and l1: "distinct (map fst (mc_l1 c))"
    and enc: "co_Encode (mc_codec c) v = Some payload" "payload \<noteq> []" and dec: "co_Decode (mc_codec c) payload = Some v"
    and reg: "cs_byVer cs (co_Version (mc_codec c)) = Some (mc_codec c)" "co_Version (mc_codec c) \<noteq> 0"
    and hist: "\<forall>op \<in> set ops. leaves key op"
  shows "fst (SetMany t0 r [(key, v)] ttl c) = None \<and>
    (\<forall>t. fst (Get cs False t key (cache_run cs ops (snd (SetMany t0 r [(key, v)] ttl c)))) = Inr v)"
proof -
  let ?ttl = "jitterTTL (if ttl \<le> 0 then op_DefaultTTL (mc_opts c) else ttl) (op_Jitter (mc_opts c)) r"
  obtain d where d: "encodeWith (mc_codec c) v = Some d" using enc by (simp add: encodeWith_def)
  define c1 where "c1 = l1Set t0 key d ?ttl c"
  have s: "SetMany t0 r [(key, v)] ttl c = l2_write (rd_mset R t0 [(l2Key ''cache'' key, d)] (mc_l2 c1)) c1"
    using d rdb by (simp add: SetMany_def Let_def c1_def)
  have c1': "distinct (map fst (mc_l1 c1))" "\<forall>e. map_of (mc_l1 c1) key = Some e \<longrightarrow> l1_data e = d" "mc_rdb c1 = Some R"
    using l1 rdb
    by (auto simp: c1_def l1Set_def Let_def evictOneLocked_def l1_delete_def distinct_l1_put distinct_filter_keys map_of_l1_put)
  have "coherent R view key d None (snd (SetMany t0 r [(key, v)] ttl c))"
    using c1' redis_okD(7) [OF ok] by (auto simp: s l2_write_def coherent_def)
  from coherent_read [OF ok coherent_run [OF ok this hist], of _ cs] d reg(2) decode_encode [OF enc reg(1) dec d]
  have "\<forall>t. fst (Get cs False t key (cache_run cs ops (snd (SetMany t0 r [(key, v)] ttl c)))) = Inr v"
    by (simp add: encoded_not_nil)
  moreover have "fst (SetMany t0 r [(key, v)] ttl c) = None"
    using redis_okD(6) [OF ok] by (simp add: s l2_write_def)
  ultimately show ?thesis by blast
qed

lemma set_many_never_expires_witness:
  "fst (Get demo_codecs False 1000000 ''a'' (cache_run demo_codecs [CTick 900000] (snd (SetMany 0 0 [(''a'', ''x'')] 60 demo_cache)))) = Inr ''x''"
  by (rule spec [OF conjunct2 [OF set_many_never_expires [OF map_redis_ok demo_facts]]]) auto

text \<open>Expiry messages miss L1. The message Redis sends when a cached key expires names the Redis key;
  the invalidation loop removes that name from L1, where the entry has the bare key: the entry stays
  and is still served.\<close>

lemma expiry_message_misses_l1:
  assumes "map_of (mc_l1 c) key = Some e"
  shows "map_of (mc_l1 (invalidation_msg (l2Key ''cache'' key) c)) key = Some e \<and>
    (now \<le> l1_expiresAt e \<longrightarrow> fst (l1Get now key (invalidation_msg (l2Key ''cache'' key) c)) = Some (l1_data e)) \<and>
    map_of (mc_l1 (invalidation_msg key c)) key = None"
proof -
  have "length (l2Key ''cache'' key) \<noteq> length key" by (simp add: l2Key_def)
  then have "l2Key ''cache'' key \<noteq> key" by metis
  with assms show ?thesis
    by (simp add: invalidation_msg_def l1Del_def map_of_l1_delete l1Get_def Let_def)
qed

lemma expiry_message_misses_l1_witness:
  "fst (l1Get 4 ''a'' (invalidation_msg (l2Key ''cache'' ''a'') full_l1)) = Some [1]"
  using expiry_message_misses_l1 [of full_l1 "''a''" "\<lparr>l1_data = [1], l1_expiresAt = 9, l1_lastHit = 3\<rparr>" 4]
  by (simp add: full_l1_def)

end
