(* ===== verification/EventBus.thy ===== *)
theory EventBus
  imports GoStd "HOL-Library.Multiset"
begin

text \<open>
  The local event bus: \<open>internal/services/eventbus/event.go\<close> and \<open>eventbus.go\<close>.

  A handler is a name \<open>'h\<close>; what it does is the argument \<open>run\<close>, which maps a handler, an event and the
  state \<open>'s\<close> of the rest of the program to an error or none and the new state. \<open>Publish\<close> ranges over a
  Go map of topics: the order of that iteration is an argument, a list of the topics in the map. The
  lock is held for reading while the handlers run, so no subscription changes during a publish.
\<close>

section \<open>Data\<close>

record 'p Event =
  ev_ID :: string
  ev_Topic :: string
  ev_Source :: string
  ev_Timestamp :: instant
  ev_Payload :: 'p

record 'h Subscription =
  sub_ID :: string
  sub_Topic :: string
  sub_Handler :: 'h

record 'h localBus =
  lb_subs :: "string \<Rightarrow> 'h Subscription list"
  lb_subCounter :: nat

definition NewLocal :: "'h localBus" where
  "NewLocal = \<lparr>lb_subs = (\<lambda>_. []), lb_subCounter = 0\<rparr>"

section \<open>Operations\<close>

definition has_suffix :: "string \<Rightarrow> string \<Rightarrow> bool" where
  "has_suffix s t \<longleftrightarrow> length t \<le> length s \<and> drop (length s - length t) s = t"

definition trim_suffix :: "string \<Rightarrow> string \<Rightarrow> string" where
  "trim_suffix s t = (if has_suffix s t then take (length s - length t) s else s)"

definition matchTopic :: "string \<Rightarrow> string \<Rightarrow> bool" where
  "matchTopic pattern topic =
     (if pattern = topic then True
      else if \<not> has_suffix pattern ''*'' then False
      else has_prefix topic (trim_suffix pattern ''*''))"

text \<open>The handlers in turn, up to the first error; the subscriptions that were called are returned too.\<close>

fun run_handlers ::
  "('h \<Rightarrow> 'p Event \<Rightarrow> 's \<Rightarrow> string option \<times> 's) \<Rightarrow> 'p Event \<Rightarrow> 'h Subscription list \<Rightarrow> 's \<Rightarrow>
   string option \<times> 'h Subscription list \<times> 's" where
  "run_handlers run ev [] st = (None, [], st)"
| "run_handlers run ev (sub # subs) st =
     (case run (sub_Handler sub) ev st of
        (Some e, st1) \<Rightarrow> (Some e, [sub], st1)
      | (None, st1) \<Rightarrow> (case run_handlers run ev subs st1 of (r, called, st2) \<Rightarrow> (r, sub # called, st2)))"

definition stamp :: "instant \<Rightarrow> string \<Rightarrow> 'p Event \<Rightarrow> 'p Event" where
  "stamp now topic event =
     (let e1 = event\<lparr>ev_Topic := topic\<rparr>
      in if ev_Timestamp e1 = 0 then e1\<lparr>ev_Timestamp := now\<rparr> else e1)"

definition Publish ::
  "('h \<Rightarrow> 'p Event \<Rightarrow> 's \<Rightarrow> string option \<times> 's) \<Rightarrow> string list \<Rightarrow> instant \<Rightarrow> string \<Rightarrow> 'p Event \<Rightarrow>
   'h localBus \<Rightarrow> 's \<Rightarrow> string option \<times> 'h Subscription list \<times> 's" where
  "Publish run order now topic event b st =
     run_handlers run (stamp now topic event)
       (concat (map (lb_subs b) (filter (\<lambda>t. matchTopic t topic) order))) st"

definition Subscribe :: "string \<Rightarrow> 'h \<Rightarrow> 'h localBus \<Rightarrow> 'h Subscription \<times> 'h localBus" where
  "Subscribe topic handler b =
     (let n = lb_subCounter b + 1;
          sub = \<lparr>sub_ID = ''sub_'' @ digits n, sub_Topic = topic, sub_Handler = handler\<rparr>
      in (sub, \<lparr>lb_subs = (lb_subs b)(topic := lb_subs b topic @ [sub]), lb_subCounter = n\<rparr>))"

datatype bus_error = SubscriptionNotFound string

definition Unsubscribe :: "'h Subscription \<Rightarrow> 'h localBus \<Rightarrow> bus_error option \<times> 'h localBus" where
  "Unsubscribe sub b =
     (let subs = lb_subs b (sub_Topic sub)
      in case find (\<lambda>s. sub_ID s = sub_ID sub) subs of
           None \<Rightarrow> (Some (SubscriptionNotFound (sub_ID sub)), b)
         | Some _ \<Rightarrow> (None, b\<lparr>lb_subs := (lb_subs b)(sub_Topic sub := delete_first (\<lambda>s. sub_ID s = sub_ID sub) subs)\<rparr>))"

section \<open>Invariant\<close>

text \<open>
  Every subscription is filed under its topic and carries a number that was given out; two different
  subscriptions have different identifiers; no topic lists one twice.
\<close>

definition bus_ok :: "'h localBus \<Rightarrow> bool" where
  "bus_ok b \<longleftrightarrow>
     (\<forall>t. distinct (map sub_ID (lb_subs b t))) \<and>
     (\<forall>t. \<forall>s \<in> set (lb_subs b t). sub_Topic s = t \<and> (\<exists>n. 0 < n \<and> n \<le> lb_subCounter b \<and> sub_ID s = ''sub_'' @ digits n)) \<and>
     (\<forall>t t'. \<forall>s \<in> set (lb_subs b t). \<forall>s' \<in> set (lb_subs b t'). sub_ID s = sub_ID s' \<longrightarrow> t = t')"

lemma bus_ok_new: "bus_ok NewLocal"
  by (simp add: bus_ok_def NewLocal_def)

lemma Subscribe_ok: "bus_ok b \<Longrightarrow> bus_ok (snd (Subscribe topic h b))"
proof -
  assume b: "bus_ok b"
  let ?i = "''sub_'' @ digits (Suc (lb_subCounter b))"
  have fresh: "sub_ID s \<noteq> ?i" if s: "s \<in> set (lb_subs b t)" for s t
  proof
    assume eq: "sub_ID s = ?i"
    from b s obtain n where "n \<le> lb_subCounter b" "sub_ID s = ''sub_'' @ digits n"
      unfolding bus_ok_def by blast
    with eq show False by (auto dest: digits_inj)
  qed
  have "distinct (map sub_ID (lb_subs (snd (Subscribe topic h b)) t))" for t
    using b fresh [of _ topic] by (auto simp: Subscribe_def Let_def bus_ok_def) metis
  moreover have "sub_Topic s = t \<and> (\<exists>n. 0 < n \<and> n \<le> lb_subCounter (snd (Subscribe topic h b)) \<and> sub_ID s = ''sub_'' @ digits n)"
    if s: "s \<in> set (lb_subs (snd (Subscribe topic h b)) t)" for s t
  proof -
    from s consider "s \<in> set (lb_subs b t)" | "t = topic" "s = \<lparr>sub_ID = ?i, sub_Topic = topic, sub_Handler = h\<rparr>"
      by (auto simp: Subscribe_def Let_def split: if_splits)
    then show ?thesis
    proof cases
      case 1
      with b obtain n where "sub_Topic s = t" "0 < n" "n \<le> lb_subCounter b" "sub_ID s = ''sub_'' @ digits n"
        unfolding bus_ok_def by blast
      moreover have "lb_subCounter (snd (Subscribe topic h b)) = Suc (lb_subCounter b)" by (simp add: Subscribe_def Let_def)
      ultimately show ?thesis by (auto intro: le_SucI)
    next
      case 2
      then show ?thesis by (auto simp: Subscribe_def Let_def intro!: exI [of _ "Suc (lb_subCounter b)"])
    qed
  qed
  moreover have "t = t'" if "s \<in> set (lb_subs (snd (Subscribe topic h b)) t)" "s' \<in> set (lb_subs (snd (Subscribe topic h b)) t')"
    "sub_ID s = sub_ID s'" for s s' t t'
    using that b fresh by (auto simp: Subscribe_def Let_def bus_ok_def split: if_splits) metis+
  ultimately show ?thesis unfolding bus_ok_def by blast
qed

lemma Unsubscribe_set: "set (lb_subs (snd (Unsubscribe sub b)) t) \<subseteq> set (lb_subs b t)"
  by (auto simp: Unsubscribe_def Let_def split: option.split dest: subsetD [OF set_delete_first])

lemma Unsubscribe_ok: "bus_ok b \<Longrightarrow> bus_ok (snd (Unsubscribe sub b))"
proof -
  assume b: "bus_ok b"
  have "distinct (map sub_ID (lb_subs (snd (Unsubscribe sub b)) t))" for t
    using b by (auto simp: Unsubscribe_def Let_def bus_ok_def delete_first_filter distinct_map_filter split: option.split)
  moreover have "lb_subCounter (snd (Unsubscribe sub b)) = lb_subCounter b"
    by (simp add: Unsubscribe_def Let_def split: option.split)
  moreover have "s \<in> set (lb_subs b t)" if "s \<in> set (lb_subs (snd (Unsubscribe sub b)) t)" for s t
    using that Unsubscribe_set [of sub b t] by blast
  moreover have "\<And>t s. s \<in> set (lb_subs b t) \<Longrightarrow> sub_Topic s = t \<and> (\<exists>n. 0 < n \<and> n \<le> lb_subCounter b \<and> sub_ID s = ''sub_'' @ digits n)"
    "\<And>t t' s s'. s \<in> set (lb_subs b t) \<Longrightarrow> s' \<in> set (lb_subs b t') \<Longrightarrow> sub_ID s = sub_ID s' \<Longrightarrow> t = t'"
    using b unfolding bus_ok_def by blast+
  ultimately show ?thesis
    unfolding bus_ok_def by (intro conjI allI ballI impI) (simp_all, blast+)
qed

section \<open>Properties\<close>

lemma matchTopic_spec:
  "matchTopic pattern topic \<longleftrightarrow> pattern = topic \<or> (\<exists>p rest. pattern = p @ ''*'' \<and> topic = p @ rest)"
proof -
  have s: "has_suffix pattern ''*'' \<longleftrightarrow> (\<exists>p. pattern = p @ ''*'')"
    by (cases pattern rule: rev_cases) (auto simp: has_suffix_def)
  show ?thesis
  proof (cases "\<exists>p. pattern = p @ ''*''")
    case True
    then obtain p where p: "pattern = p @ ''*''" ..
    then have "trim_suffix pattern ''*'' = p" using s by (auto simp: trim_suffix_def)
    with p s show ?thesis by (auto simp: matchTopic_def has_prefix_iff)
  next
    case False
    with s show ?thesis by (auto simp: matchTopic_def)
  qed
qed

text \<open>
  How \<open>run_handlers\<close> went: the called subscriptions are a prefix of the list, the whole of it when no
  error came back; otherwise the last one called failed with that error. The state is the one the
  calls lead to, each on the state the one before left.
\<close>

fun chain :: "('h \<Rightarrow> 'p Event \<Rightarrow> 's \<Rightarrow> string option \<times> 's) \<Rightarrow> 'p Event \<Rightarrow> 'h Subscription list \<Rightarrow> 's \<Rightarrow> (string option \<times> 's) list" where
  "chain run ev [] st = []"
| "chain run ev (s # ss) st = run (sub_Handler s) ev st # chain run ev ss (snd (run (sub_Handler s) ev st))"

lemma chain_Nil [simp]: "chain run ev ss st = [] \<longleftrightarrow> ss = []"
  by (cases ss) auto

lemma run_handlers_spec:
  "run_handlers run ev subs st = (r, called, st') \<Longrightarrow>
   (\<exists>rest. subs = called @ rest \<and> (r = None \<longrightarrow> rest = [])) \<and>
   (r = None \<longrightarrow> (\<forall>x \<in> set (chain run ev called st). fst x = None)) \<and>
   (\<forall>e. r = Some e \<longrightarrow> called \<noteq> [] \<and> fst (last (chain run ev called st)) = Some e \<and>
      (\<forall>x \<in> set (butlast (chain run ev called st)). fst x = None)) \<and>
   st' = (if called = [] then st else snd (last (chain run ev called st)))"
proof (induction subs arbitrary: st r called st')
  case Nil
  then show ?case by auto
next
  case (Cons s subs)
  obtain e st1 where h: "run (sub_Handler s) ev st = (e, st1)" by (cases "run (sub_Handler s) ev st")
  show ?case
  proof (cases e)
    case (Some x)
    with Cons.prems h show ?thesis by auto
  next
    case None
    obtain r2 c2 st2 where t: "run_handlers run ev subs st1 = (r2, c2, st2)" by (cases "run_handlers run ev subs st1")
    have eqs: "r = r2" "called = s # c2" "st' = st2" using Cons.prems h None t by auto
    have ch: "chain run ev called st = (None, st1) # chain run ev c2 st1" using h None by (simp add: eqs)
    show ?thesis unfolding ch using Cons.IH [OF t] by (simp add: eqs)
  qed
qed

text \<open>Delivery. Whatever the order in which the map of topics is ranged over, a publish calls only
  subscriptions whose pattern is the topic or a prefix of it followed by a star, each at most once,
  on the event stamped with the topic; if it reports no error it has called every one of them, and
  otherwise it stopped at the first handler that failed and reports that handler's error.\<close>

lemma publish_delivers:
  assumes ok: "bus_ok b" and order: "distinct order" "\<forall>t. lb_subs b t \<noteq> [] \<longrightarrow> t \<in> set order"
    and pub: "Publish run order now topic event b st = (r, called, st')"
  shows "(\<forall>s \<in> set called. s \<in> set (lb_subs b (sub_Topic s)) \<and>
       (sub_Topic s = topic \<or> (\<exists>p rest. sub_Topic s = p @ ''*'' \<and> topic = p @ rest))) \<and>
    distinct (map sub_ID called) \<and>
    (r = None \<longrightarrow> (\<forall>t. \<forall>s \<in> set (lb_subs b t). matchTopic t topic \<longrightarrow> s \<in> set called)) \<and>
    (\<forall>e. r = Some e \<longrightarrow> called \<noteq> [] \<and> fst (last (chain run (stamp now topic event) called st)) = Some e \<and>
       (\<forall>x \<in> set (butlast (chain run (stamp now topic event) called st)). fst x = None))"
proof -
  let ?all = "concat (map (lb_subs b) (filter (\<lambda>t. matchTopic t topic) order))"
  note sp = run_handlers_spec [OF pub [unfolded Publish_def]]
  from sp obtain rest where rest: "?all = called @ rest" "r = None \<longrightarrow> rest = []" by auto
  have top: "sub_Topic s = t" if "s \<in> set (lb_subs b t)" for s t
    using ok that unfolding bus_ok_def by blast
  have all: "s \<in> set ?all \<Longrightarrow> s \<in> set (lb_subs b (sub_Topic s)) \<and> matchTopic (sub_Topic s) topic" for s
    using top by auto
  have "distinct (map sub_ID ?all)"
    using order(1)
  proof (induction order)
    case (Cons t ts)
    have "sub_ID s \<noteq> sub_ID s'" if "s \<in> set (lb_subs b t)" "t' \<in> set ts" "s' \<in> set (lb_subs b t')" for s s' t'
      using ok that Cons.prems unfolding bus_ok_def by (metis distinct.simps(2))
    then have "sub_ID ` set (lb_subs b t) \<inter> sub_ID ` set (concat (map (lb_subs b) (filter (\<lambda>t. matchTopic t topic) ts))) = {}"
      by (auto simp: image_iff)
    with Cons ok show ?case by (auto simp: bus_ok_def)
  qed simp
  then have "distinct (map sub_ID called)" using rest by simp
  moreover have "s \<in> set called \<Longrightarrow> s \<in> set (lb_subs b (sub_Topic s)) \<and> matchTopic (sub_Topic s) topic" for s
    using all [of s] rest(1) by (metis UnCI set_append)
  moreover have "r = None \<longrightarrow> (\<forall>t. \<forall>s \<in> set (lb_subs b t). matchTopic t topic \<longrightarrow> s \<in> set called)"
  proof (intro impI allI ballI)
    fix t s
    assume "r = None" and s: "s \<in> set (lb_subs b t)" and m: "matchTopic t topic"
    moreover have "t \<in> set order" using order(2) s by force
    ultimately have "s \<in> set ?all" by auto
    with rest \<open>r = None\<close> show "s \<in> set called" by simp
  qed
  ultimately show ?thesis using sp by (simp add: matchTopic_spec)
qed

definition demo_run :: "nat \<Rightarrow> unit Event \<Rightarrow> nat list \<Rightarrow> string option \<times> nat list" where
  "demo_run h ev log = (if h = 9 then (Some ''bad'', log) else (None, log @ [h]))"

definition demo_bus :: "nat localBus" where
  "demo_bus = snd (Subscribe ''user.*'' 2 (snd (Subscribe ''user.login'' 1 NewLocal)))"

lemma publish_delivers_witness:
  "\<exists>called st'. Publish demo_run [''user.*'', ''user.login''] 5 ''user.login'' \<lparr>ev_ID = [], ev_Topic = [], ev_Source = [], ev_Timestamp = 0, ev_Payload = ()\<rparr>
     demo_bus [] = (None, called, st') \<and> (\<forall>s \<in> set (lb_subs demo_bus ''user.*''). s \<in> set called)"
proof -
  let ?p = "Publish demo_run [''user.*'', ''user.login''] 5 ''user.login'' \<lparr>ev_ID = [], ev_Topic = [], ev_Source = [], ev_Timestamp = 0, ev_Payload = ()\<rparr>
     demo_bus []"
  have m: "matchTopic ''user.*'' ''user.login''" "matchTopic ''user.login'' ''user.login''"
    by code_simp+
  have ok: "bus_ok demo_bus" unfolding demo_bus_def by (intro Subscribe_ok bus_ok_new)
  have ord: "\<forall>t. lb_subs demo_bus t \<noteq> [] \<longrightarrow> t \<in> set [''user.*'', ''user.login'']"
    by (simp add: demo_bus_def Subscribe_def NewLocal_def Let_def)
  have "fst ?p = None"
    using m by (simp add: Publish_def demo_bus_def Subscribe_def NewLocal_def Let_def demo_run_def)
  then obtain called st' where p: "?p = (None, called, st')" by (cases ?p) auto
  have "distinct [''user.*'', ''user.login'']" by simp
  from publish_delivers [OF ok this ord p] m(1) p show ?thesis by blast
qed

text \<open>Unsubscribing. \<open>Unsubscribe\<close> of a subscription that the bus handed out removes it and nothing
  else: no later publish calls it, every other subscription keeps its place, and a second
  \<open>Unsubscribe\<close> of it reports an error.\<close>

lemma unsubscribe_removes:
  assumes ok: "bus_ok b" and sub: "Subscribe topic h b = (sub, b1)"
    and ops: "b2 = snd (Subscribe topic' h' b1)"
    and uns: "Unsubscribe sub b2 = (r, b3)"
  shows "r = None \<and> bus_ok b3 \<and>
    (\<forall>t. lb_subs b3 t = filter (\<lambda>s. sub_ID s \<noteq> sub_ID sub) (lb_subs b2 t)) \<and>
    (\<forall>run order now tp ev st. sub_ID sub \<notin> sub_ID ` set (fst (snd (Publish run order now tp ev b3 st)))) \<and>
    fst (Unsubscribe sub b3) = Some (SubscriptionNotFound (sub_ID sub))"
proof -
  have ok2: "bus_ok b2"
    using Subscribe_ok [OF ok, of topic h] Subscribe_ok [of b1 topic' h'] sub ops by simp
  have in2: "sub \<in> set (lb_subs b2 (sub_Topic sub))"
    using sub ops by (auto simp: Subscribe_def Let_def)
  have d: "distinct (map sub_ID (lb_subs b2 (sub_Topic sub)))" using ok2 unfolding bus_ok_def by blast
  have f: "find (\<lambda>s. sub_ID s = sub_ID sub) (lb_subs b2 (sub_Topic sub)) = Some sub"
    by (rule find_key [OF d in2])
  have b3: "lb_subs b3 t = filter (\<lambda>s. sub_ID s \<noteq> sub_ID sub) (lb_subs b2 t)" for t
  proof (cases "t = sub_Topic sub")
    case True
    with uns f d show ?thesis by (auto simp: Unsubscribe_def Let_def delete_first_filter)
  next
    case False
    then have "\<forall>s \<in> set (lb_subs b2 t). sub_ID s \<noteq> sub_ID sub"
      using ok2 in2 unfolding bus_ok_def by metis
    then have "filter (\<lambda>s. sub_ID s \<noteq> sub_ID sub) (lb_subs b2 t) = lb_subs b2 t" by simp
    with False uns f show ?thesis by (auto simp: Unsubscribe_def Let_def)
  qed
  have called: "sub_ID sub \<notin> sub_ID ` set (fst (snd (Publish run order now tp ev b3 st)))" for run order now tp ev st
  proof -
    obtain r' c st' where p: "Publish run order now tp ev b3 st = (r', c, st')" by (cases "Publish run order now tp ev b3 st")
    from run_handlers_spec [OF this [unfolded Publish_def]] obtain rest where
      "concat (map (lb_subs b3) (filter (\<lambda>t. matchTopic t tp) order)) = c @ rest" by auto
    then have "set c \<subseteq> set (concat (map (lb_subs b3) (filter (\<lambda>t. matchTopic t tp) order)))" by simp
    with b3 p show ?thesis by auto
  qed
  have r: "r = None" using uns f by (auto simp: Unsubscribe_def Let_def)
  have again: "fst (Unsubscribe sub b3) = Some (SubscriptionNotFound (sub_ID sub))"
  proof -
    have "find (\<lambda>s. sub_ID s = sub_ID sub) (lb_subs b3 (sub_Topic sub)) = None"
      by (simp add: b3 find_None_iff)
    then show ?thesis by (simp add: Unsubscribe_def)
  qed
  have ok3: "bus_ok b3" using uns Unsubscribe_ok [OF ok2, of sub] by simp
  show ?thesis by (intro conjI allI) (rule r ok3 b3 called again)+
qed

lemma unsubscribe_removes_witness:
  "fst (Unsubscribe \<lparr>sub_ID = ''sub_1'', sub_Topic = ''user.login'', sub_Handler = 1\<rparr> demo_bus) = None"
proof -
  let ?sub = "\<lparr>sub_ID = ''sub_1'', sub_Topic = ''user.login'', sub_Handler = 1\<rparr> :: nat Subscription"
  have "digits 1 = ''1''" by code_simp
  then have s: "Subscribe ''user.login'' 1 NewLocal = (?sub, snd (Subscribe ''user.login'' 1 NewLocal))"
    by (simp add: Subscribe_def Let_def NewLocal_def)
  have u: "Unsubscribe ?sub demo_bus = (fst (Unsubscribe ?sub demo_bus), snd (Unsubscribe ?sub demo_bus))" by simp
  from unsubscribe_removes [OF bus_ok_new s demo_bus_def u] show ?thesis by (rule conjunct1)
qed

end
