(* ===== verification/DeadLetter.thy ===== *)
theory DeadLetter
  imports EventBus
begin

text \<open>
  Dead letters, \<open>internal/services/eventbus/deadletter.go\<close>: the interface \<open>DeadLetterStore\<close> as a locale,
  the in-memory queue, which keeps its contract, and the Redis queue, which does not.

  The handler given to \<open>Replay\<close> is a function \<open>h\<close> of the event and of the state \<open>'s\<close> of the rest of the
  program. Redis and the JSON encoding of an entry are arguments (record \<open>stream_redis\<close>).
\<close>

section \<open>Entries and the in-memory queue\<close>

record 'p DeadLetterEntry =
  dl_Event :: "'p Event"
  dl_Reason :: string
  dl_Retries :: int
  dl_LastAttempt :: instant

type_synonym ('p, 's) handler = "'p Event \<Rightarrow> 's \<Rightarrow> string option \<times> 's"

record 'p DeadLetterQueue =
  dlq_entries :: "'p DeadLetterEntry list"
  dlq_maxSize :: int

definition NewDeadLetterQueue :: "int \<Rightarrow> 'p DeadLetterQueue" where
  "NewDeadLetterQueue maxSize = \<lparr>dlq_entries = [], dlq_maxSize = (if maxSize \<le> 0 then 1000 else maxSize)\<rparr>"

definition dead_letter :: "instant \<Rightarrow> 'p Event \<Rightarrow> string \<Rightarrow> int \<Rightarrow> 'p DeadLetterEntry" where
  "dead_letter now event reason retries =
     \<lparr>dl_Event = event, dl_Reason = reason, dl_Retries = retries, dl_LastAttempt = now\<rparr>"

definition Push :: "instant \<Rightarrow> 'p Event \<Rightarrow> string \<Rightarrow> int \<Rightarrow> 'p DeadLetterQueue \<Rightarrow> 'p DeadLetterQueue" where
  "Push now event reason retries q =
     (let kept = (if int (length (dlq_entries q)) \<ge> dlq_maxSize q then tl (dlq_entries q) else dlq_entries q)
      in q\<lparr>dlq_entries := kept @ [dead_letter now event reason retries]\<rparr>)"

definition List :: "'p DeadLetterQueue \<Rightarrow> 'p DeadLetterEntry list" where
  "List q = dlq_entries q"

definition Len :: "'p DeadLetterQueue \<Rightarrow> int" where
  "Len q = int (length (dlq_entries q))"

fun replay_loop ::
  "('p, 's) handler \<Rightarrow> instant \<Rightarrow> 'p DeadLetterEntry list \<Rightarrow> (string \<times> string) list \<times> 'p DeadLetterQueue \<times> 's \<Rightarrow>
   (string \<times> string) list \<times> 'p DeadLetterQueue \<times> 's" where
  "replay_loop h now [] acc = acc"
| "replay_loop h now (entry # entries) (errs, q, st) =
     (case h (dl_Event entry) st of
        (Some err, st1) \<Rightarrow>
          replay_loop h now entries (errs @ [(ev_ID (dl_Event entry), err)],
            Push now (dl_Event entry) err (dl_Retries entry + 1) q, st1)
      | (None, st1) \<Rightarrow> replay_loop h now entries (errs, q, st1))"

text \<open>An error is the pair of the event's identifier and the handler's message.\<close>

definition Replay :: "('p, 's) handler \<Rightarrow> instant \<Rightarrow> 'p DeadLetterQueue \<Rightarrow> 's \<Rightarrow>
   (string \<times> string) list \<times> 'p DeadLetterQueue \<times> 's" where
  "Replay h now q st = replay_loop h now (dlq_entries q) ([], q\<lparr>dlq_entries := []\<rparr>, st)"

section \<open>The Redis queue\<close>

record ('p, 'r) stream_redis =
  sr_encode :: "'p DeadLetterEntry \<Rightarrow> string option"
  sr_decode :: "string \<Rightarrow> 'p DeadLetterEntry option"
  sr_xadd :: "string \<Rightarrow> string \<Rightarrow> int \<Rightarrow> 'r \<Rightarrow> bool \<times> 'r"
  sr_xrange :: "string \<Rightarrow> 'r \<Rightarrow> string option list option"
  sr_del :: "string \<Rightarrow> 'r \<Rightarrow> 'r"
  sr_xlen :: "string \<Rightarrow> 'r \<Rightarrow> int option"

record RedisDeadLetterQueue =
  rdq_prefix :: string
  rdq_maxSize :: int

definition NewRedisDeadLetterQueue :: "string \<Rightarrow> int \<Rightarrow> RedisDeadLetterQueue" where
  "NewRedisDeadLetterQueue pre maxSize =
     \<lparr>rdq_prefix = pre, rdq_maxSize = (if maxSize \<le> 0 then 1000 else maxSize)\<rparr>"

datatype dlq_error = MarshalFailed | RedisFailed

definition redis_Push ::
  "('p, 'r) stream_redis \<Rightarrow> RedisDeadLetterQueue \<Rightarrow> instant \<Rightarrow> 'p Event \<Rightarrow> string \<Rightarrow> int \<Rightarrow> 'r \<Rightarrow> dlq_error option \<times> 'r" where
  "redis_Push S q now event reason retries r =
     (case sr_encode S (dead_letter now event reason retries) of
        None \<Rightarrow> (Some MarshalFailed, r)
      | Some data \<Rightarrow>
          (case sr_xadd S (rdq_prefix q) data (rdq_maxSize q) r of
             (ok, r1) \<Rightarrow> (if ok then None else Some RedisFailed, r1)))"

text \<open>A message without a string under \<open>data\<close>, or whose data does not decode, is skipped.\<close>

definition redis_List :: "('p, 'r) stream_redis \<Rightarrow> RedisDeadLetterQueue \<Rightarrow> 'r \<Rightarrow> dlq_error + 'p DeadLetterEntry list" where
  "redis_List S q r =
     (case sr_xrange S (rdq_prefix q) r of
        None \<Rightarrow> Inl RedisFailed
      | Some msgs \<Rightarrow>
          Inr (List.map_filter (\<lambda>m. case m of None \<Rightarrow> None | Some data \<Rightarrow> sr_decode S data) msgs))"

fun redis_replay_loop ::
  "('p, 'r) stream_redis \<Rightarrow> RedisDeadLetterQueue \<Rightarrow> ('p, 's) handler \<Rightarrow> instant \<Rightarrow> 'p DeadLetterEntry list \<Rightarrow>
   (string \<times> string) list \<times> 'r \<times> 's \<Rightarrow> (string \<times> string) list \<times> 'r \<times> 's" where
  "redis_replay_loop S q h now [] acc = acc"
| "redis_replay_loop S q h now (entry # entries) (errs, r, st) =
     (case h (dl_Event entry) st of
        (Some err, st1) \<Rightarrow>
          redis_replay_loop S q h now entries (errs @ [(ev_ID (dl_Event entry), err)],
            snd (redis_Push S q now (dl_Event entry) err (dl_Retries entry + 1) r), st1)
      | (None, st1) \<Rightarrow> redis_replay_loop S q h now entries (errs, r, st1))"

definition redis_Replay ::
  "('p, 'r) stream_redis \<Rightarrow> RedisDeadLetterQueue \<Rightarrow> ('p, 's) handler \<Rightarrow> instant \<Rightarrow> 'r \<Rightarrow> 's \<Rightarrow>
   (dlq_error + (string \<times> string) list) \<times> 'r \<times> 's" where
  "redis_Replay S q h now r st =
     (case redis_List S q r of
        Inl e \<Rightarrow> (Inl e, r, st)
      | Inr entries \<Rightarrow>
          (case redis_replay_loop S q h now entries ([], r, st) of
             (errs, r1, st1) \<Rightarrow> (Inr errs, sr_del S (rdq_prefix q) r1, st1)))"

definition redis_Len :: "('p, 'r) stream_redis \<Rightarrow> RedisDeadLetterQueue \<Rightarrow> 'r \<Rightarrow> dlq_error + int" where
  "redis_Len S q r = (case sr_xlen S (rdq_prefix q) r of None \<Rightarrow> Inl RedisFailed | Some n \<Rightarrow> Inr n)"

section \<open>The contract\<close>

text \<open>The entries a replay has to keep: those the handler fails on, with its message and one more retry.\<close>

fun failures :: "('p, 's) handler \<Rightarrow> instant \<Rightarrow> 'p DeadLetterEntry list \<Rightarrow> 's \<Rightarrow> 'p DeadLetterEntry list" where
  "failures h now [] st = []"
| "failures h now (e # es) st =
     (case h (dl_Event e) st of
        (Some err, st1) \<Rightarrow> dead_letter now (dl_Event e) err (dl_Retries e + 1) # failures h now es st1
      | (None, st1) \<Rightarrow> failures h now es st1)"

text \<open>A handler whose verdict depends on the event only: it fails on the events in \<open>F\<close>.\<close>

definition fails_on :: "('p, 's) handler \<Rightarrow> 'p Event set \<Rightarrow> bool" where
  "fails_on h F \<longleftrightarrow> (\<forall>ev st. fst (h ev st) \<noteq> None \<longleftrightarrow> ev \<in> F)"

lemma failures_fails_on:
  "fails_on h F \<Longrightarrow>
   map (\<lambda>e. (dl_Event e, dl_Retries e)) (failures h now es st) =
     map (\<lambda>e. (dl_Event e, dl_Retries e + 1)) (filter (\<lambda>e. dl_Event e \<in> F) es)"
proof (induction es arbitrary: st)
  case (Cons e es)
  then have "fst (h (dl_Event e) st) \<noteq> None \<longleftrightarrow> dl_Event e \<in> F"
    unfolding fails_on_def by blast
  with Cons show ?case
    by (cases "h (dl_Event e) st"; cases "fst (h (dl_Event e) st)") (auto simp: dead_letter_def)
qed simp

locale dead_letter_store =
  fixes push :: "instant \<Rightarrow> 'p Event \<Rightarrow> string \<Rightarrow> int \<Rightarrow> 'q \<Rightarrow> 'q"
    and letters :: "'q \<Rightarrow> 'p DeadLetterEntry list"
    and replay :: "('p, 's) handler \<Rightarrow> instant \<Rightarrow> 'q \<Rightarrow> 's \<Rightarrow> (string \<times> string) list \<times> 'q \<times> 's"
    and room :: "'q \<Rightarrow> nat"
    and wf :: "'q \<Rightarrow> bool"
  assumes push_wf: "wf q \<Longrightarrow> wf (push now ev reason n q) \<and> room (push now ev reason n q) = room q"
    and push_letters: "wf q \<Longrightarrow> letters (push now ev reason n q) =
      drop (Suc (length (letters q)) - room q) (letters q) @ [dead_letter now ev reason n]"
    and wf_room: "wf q \<Longrightarrow> length (letters q) \<le> room q \<and> 0 < room q"
    and replay_wf: "wf q \<Longrightarrow> wf (fst (snd (replay h now q st))) \<and> room (fst (snd (replay h now q st))) = room q"
    and replay_letters: "wf q \<Longrightarrow> letters (fst (snd (replay h now q st))) = failures h now (letters q) st"
begin

text \<open>Replays one after the other, each with the state the one before left.\<close>

fun replays :: "('p, 's) handler \<Rightarrow> instant list \<Rightarrow> 'q \<Rightarrow> 's \<Rightarrow> 'q" where
  "replays h [] q st = q"
| "replays h (now # ts) q st =
     (case replay h now q st of (errs, q1, st1) \<Rightarrow> replays h ts q1 st1)"

lemma replays_keep:
  assumes "wf q" "fails_on h F"
  shows "wf (replays h ts q st) \<and>
    map (\<lambda>e. (dl_Event e, dl_Retries e)) (letters (replays h ts q st)) =
      map (\<lambda>e. (dl_Event e, dl_Retries e + int (length ts))) (filter (\<lambda>e. ts = [] \<or> dl_Event e \<in> F) (letters q))"
  using assms(1)
proof (induction ts arbitrary: q st)
  case (Cons now ts)
  obtain errs q1 st1 where r: "replay h now q st = (errs, q1, st1)" by (cases "replay h now q st")
  have q1: "wf q1" "letters q1 = failures h now (letters q) st"
    using replay_wf [OF Cons.prems, of h now st] replay_letters [OF Cons.prems, of h now st] r by auto
  have m: "map (\<lambda>e. (dl_Event e, dl_Retries e)) (letters q1) =
      map (\<lambda>e. (dl_Event e, dl_Retries e + 1)) (filter (\<lambda>e. dl_Event e \<in> F) (letters q))"
    unfolding q1(2) by (rule failures_fails_on [OF assms(2)])
  have "dl_Event e \<in> F" if "e \<in> set (letters q1)" for e
  proof -
    have "(dl_Event e, dl_Retries e) \<in> set (map (\<lambda>e. (dl_Event e, dl_Retries e)) (letters q1))" using that by auto
    then show ?thesis unfolding m by auto
  qed
  then have "filter (\<lambda>e. ts = [] \<or> dl_Event e \<in> F) (letters q1) = letters q1" by (auto simp: filter_id_conv)
  moreover have "map (\<lambda>e. (dl_Event e, dl_Retries e + int (length ts))) (letters q1) =
      map (\<lambda>e. (dl_Event e, dl_Retries e + int (length (now # ts)))) (filter (\<lambda>e. dl_Event e \<in> F) (letters q))"
  proof -
    have "map (\<lambda>e. (dl_Event e, dl_Retries e + int (length ts))) (letters q1) =
      map (\<lambda>(ev, n). (ev, n + int (length ts))) (map (\<lambda>e. (dl_Event e, dl_Retries e)) (letters q1))"
      by simp
    also have "\<dots> = map (\<lambda>e. (dl_Event e, dl_Retries e + int (length (now # ts)))) (filter (\<lambda>e. dl_Event e \<in> F) (letters q))"
      unfolding m by simp
    finally show ?thesis .
  qed
  ultimately show ?case
    using Cons.IH [OF q1(1), of st1] r by simp
qed (simp add: assms)

end

section \<open>The in-memory queue keeps it\<close>

definition dlq_wf :: "'p DeadLetterQueue \<Rightarrow> bool" where
  "dlq_wf q \<longleftrightarrow> 0 < dlq_maxSize q \<and> int (length (dlq_entries q)) \<le> dlq_maxSize q"

lemma Push_max [simp]: "dlq_maxSize (Push now ev reason n q) = dlq_maxSize q"
  by (simp add: Push_def Let_def)

lemma Push_wf: "dlq_wf q \<Longrightarrow> dlq_wf (Push now ev reason n q)"
  by (auto simp: dlq_wf_def Push_def Let_def)

lemma Push_room:
  "int (length (dlq_entries q)) < dlq_maxSize q \<Longrightarrow> dlq_entries (Push now ev reason n q) = dlq_entries q @ [dead_letter now ev reason n]"
  by (simp add: Push_def Let_def)

lemma replay_loop_entries:
  "int (length (dlq_entries q) + length es) \<le> dlq_maxSize q \<Longrightarrow>
   dlq_entries (fst (snd (replay_loop h now es (errs, q, st)))) = dlq_entries q @ failures h now es st \<and>
   dlq_maxSize (fst (snd (replay_loop h now es (errs, q, st)))) = dlq_maxSize q"
proof (induction es arbitrary: errs q st)
  case (Cons e es)
  obtain r st1 where r: "h (dl_Event e) st = (r, st1)" by (cases "h (dl_Event e) st")
  show ?case
  proof (cases r)
    case None
    with Cons r show ?thesis by simp
  next
    case (Some err)
    let ?q = "Push now (dl_Event e) err (dl_Retries e + 1) q"
    have "dlq_entries ?q = dlq_entries q @ [dead_letter now (dl_Event e) err (dl_Retries e + 1)]"
      using Cons.prems by (intro Push_room) simp
    with Cons.IH [of ?q "errs @ [(ev_ID (dl_Event e), err)]" st1] Cons.prems r Some show ?thesis by simp
  qed
qed simp

lemma failures_length: "length (failures h now es st) \<le> length es"
proof (induction es arbitrary: st)
  case (Cons e es)
  then show ?case
    by (cases "h (dl_Event e) st"; cases "fst (h (dl_Event e) st)") (auto intro: le_SucI)
qed simp

interpretation dlq: dead_letter_store Push List Replay "\<lambda>q. nat (dlq_maxSize q)" dlq_wf
proof unfold_locales
  fix q :: "'a DeadLetterQueue" and now ev reason n and h :: "('a, 'b) handler" and st
  assume wf: "dlq_wf q"
  show "dlq_wf (Push now ev reason n q) \<and> nat (dlq_maxSize (Push now ev reason n q)) = nat (dlq_maxSize q)"
    using Push_wf [OF wf] by simp
  have "drop (Suc (length (dlq_entries q)) - nat (dlq_maxSize q)) (dlq_entries q) =
      (if int (length (dlq_entries q)) \<ge> dlq_maxSize q then tl (dlq_entries q) else dlq_entries q)"
  proof (cases "int (length (dlq_entries q)) \<ge> dlq_maxSize q")
    case True
    with wf have "Suc (length (dlq_entries q)) - nat (dlq_maxSize q) = 1" by (auto simp: dlq_wf_def)
    with True show ?thesis by (simp add: drop_Suc)
  next
    case False
    then have "Suc (length (dlq_entries q)) - nat (dlq_maxSize q) = 0" by linarith
    with False show ?thesis by simp
  qed
  then show "List (Push now ev reason n q) =
      drop (Suc (length (List q)) - nat (dlq_maxSize q)) (List q) @ [dead_letter now ev reason n]"
    by (simp add: List_def Push_def Let_def)
  show "length (List q) \<le> nat (dlq_maxSize q) \<and> 0 < nat (dlq_maxSize q)"
    using wf by (auto simp: dlq_wf_def List_def)
  have r: "dlq_entries (fst (snd (Replay h now q st))) = failures h now (dlq_entries q) st"
    "dlq_maxSize (fst (snd (Replay h now q st))) = dlq_maxSize q"
    using replay_loop_entries [of "q\<lparr>dlq_entries := []\<rparr>" "dlq_entries q" h now "[]" st] wf
    by (simp_all add: Replay_def dlq_wf_def)
  then show "List (fst (snd (Replay h now q st))) = failures h now (List q) st"
    by (simp add: List_def)
  show "dlq_wf (fst (snd (Replay h now q st))) \<and> nat (dlq_maxSize (fst (snd (Replay h now q st)))) = nat (dlq_maxSize q)"
    using wf r failures_length [of h now "dlq_entries q" st] by (simp add: dlq_wf_def)
qed

section \<open>Properties\<close>

text \<open>C15: No dead letter is lost by replaying. However often a well-formed in-memory queue is replayed, the
  letters left are exactly those the handler fails on, in their order, each with one more retry per
  replay, and the queue stays within its size.\<close>

theorem replay_loses_nothing:
  assumes "dlq_wf q" "fails_on h F"
  shows "map (\<lambda>e. (dl_Event e, dl_Retries e)) (List (dlq.replays h ts q st)) =
      map (\<lambda>e. (dl_Event e, dl_Retries e + int (length ts))) (filter (\<lambda>e. ts = [] \<or> dl_Event e \<in> F) (List q)) \<and>
    Len (dlq.replays h ts q st) \<le> dlq_maxSize (dlq.replays h ts q st)"
  using dlq.replays_keep [OF assms, of ts st] by (simp add: dlq_wf_def Len_def)

definition demo_event :: "string \<Rightarrow> unit Event" where
  "demo_event i = \<lparr>ev_ID = i, ev_Topic = ''t'', ev_Source = [], ev_Timestamp = 1, ev_Payload = ()\<rparr>"

definition demo_handler :: "(unit, nat) handler" where
  "demo_handler ev st = (if ev = demo_event ''a'' then Some ''bad'' else None, st + 1)"

lemma demo_fails: "fails_on demo_handler {demo_event ''a''}"
  by (simp add: fails_on_def demo_handler_def)

lemma replay_loses_nothing_witness:
  "map (\<lambda>e. (dl_Event e, dl_Retries e))
     (List (dlq.replays demo_handler [5, 6] (Push 2 (demo_event ''b'') [] 0 (Push 1 (demo_event ''a'') [] 0 (NewDeadLetterQueue 3))) 0)) =
   [(demo_event ''a'', 2)]"
proof -
  let ?q = "Push 2 (demo_event ''b'') [] 0 (Push 1 (demo_event ''a'') [] 0 (NewDeadLetterQueue 3))"
  have "dlq_wf ?q" by (intro Push_wf) (simp add: dlq_wf_def NewDeadLetterQueue_def)
  from replay_loses_nothing [OF this demo_fails, of "[5, 6]" 0] show ?thesis
    by (simp add: List_def Push_def NewDeadLetterQueue_def Let_def dead_letter_def demo_event_def)
qed

lemma redis_replay_errs:
  "fails_on h F \<Longrightarrow> map fst (fst (redis_replay_loop S q h now es (errs, r, st))) =
     map fst errs @ map (\<lambda>e. ev_ID (dl_Event e)) (filter (\<lambda>e. dl_Event e \<in> F) es)"
proof (induction es arbitrary: errs r st)
  case (Cons e es)
  then have "fst (h (dl_Event e) st) \<noteq> None \<longleftrightarrow> dl_Event e \<in> F"
    unfolding fails_on_def by blast
  with Cons show ?case
    by (cases "h (dl_Event e) st"; cases "fst (h (dl_Event e) st)") auto
qed simp

text \<open>The Redis queue loses the letters it reports. Its \<open>Replay\<close> pushes the failed letters back and then
  deletes the whole stream: afterwards the queue is empty, whatever the handler did, although every
  failed letter is among the errors returned.\<close>

lemma redis_replay_empties:
  assumes del: "\<And>r. sr_xrange S (rdq_prefix q) (sr_del S (rdq_prefix q) r) = Some []"
    and before: "redis_List S q r = Inr es"
    and fails: "fails_on h F"
    and replay: "redis_Replay S q h now r st = (res, r', st')"
  shows "redis_List S q r' = Inr [] \<and>
    (\<exists>errs. res = Inr errs \<and> map fst errs = map (\<lambda>e. ev_ID (dl_Event e)) (filter (\<lambda>e. dl_Event e \<in> F) es))"
  using before replay del redis_replay_errs [OF fails, of S q now es "[]" r st]
  by (auto simp: redis_Replay_def redis_List_def map_filter_simps split: prod.splits option.splits)

definition demo_stream :: "(unit, unit DeadLetterEntry list) stream_redis" where
  "demo_stream = \<lparr>sr_encode = (\<lambda>e. Some (ev_ID (dl_Event e))), sr_decode = (\<lambda>s. Some (dead_letter 0 (demo_event s) [] 0)),
     sr_xadd = (\<lambda>k d n r. (True, r @ [dead_letter 0 (demo_event d) [] 0])),
     sr_xrange = (\<lambda>k r. Some (map (\<lambda>e. Some (ev_ID (dl_Event e))) r)), sr_del = (\<lambda>k r. []),
     sr_xlen = (\<lambda>k r. Some (int (length r)))\<rparr>"

lemma redis_replay_empties_witness:
  "redis_List demo_stream (NewRedisDeadLetterQueue ''dlq'' 0)
     (fst (snd (redis_Replay demo_stream (NewRedisDeadLetterQueue ''dlq'' 0) demo_handler 9
        [dead_letter 0 (demo_event ''a'') [] 0] 0))) = Inr []"
proof -
  let ?q = "NewRedisDeadLetterQueue ''dlq'' 0" and ?r = "[dead_letter 0 (demo_event ''a'') [] 0]"
  have l: "redis_List demo_stream ?q ?r = Inr [dead_letter 0 (demo_event ''a'') [] 0]"
    by (simp add: redis_List_def demo_stream_def map_filter_simps dead_letter_def demo_event_def)
  obtain res r' st' where p: "redis_Replay demo_stream ?q demo_handler 9 ?r 0 = (res, r', st')"
    by (cases "redis_Replay demo_stream ?q demo_handler 9 ?r 0")
  have "sr_xrange demo_stream (rdq_prefix ?q) (sr_del demo_stream (rdq_prefix ?q) r) = Some []" for r
    by (simp add: demo_stream_def)
  from redis_replay_empties [OF this l demo_fails p] p show ?thesis by simp
qed

end
