(* ===== verification/StreamBus.thy ===== *)
theory StreamBus
  imports EventBus
begin

text \<open>
  The consumer side of the Redis stream bus, \<open>internal/services/eventbus/redis_stream.go\<close>.

  A read of the stream blocks for a while and comes back with messages, with nothing, or with an
  error; the context may end before a read or during the wait after an error. The consumer is
  modelled on the list of what its reads bring (\<open>read\<close>): it returns when the code returns, and is
  \<open>Running\<close> when the list is used up, so the model covers every finite history of the endless loop.
  What it does to the outside is the list of its acknowledgements and of its waits.
\<close>

section \<open>Messages\<close>

record msg =
  msg_ID :: string
  msg_Data :: "string option"

datatype read =
    CtxDone
  | ReadNil
  | ReadErr string bool
  | ReadStreams "(string \<times> msg list) list"

text \<open>\<open>ReadErr e d\<close>: the read failed with \<open>e\<close>, and \<open>d\<close> tells whether the context ended during the wait.\<close>

definition decodeEvent :: "(string \<Rightarrow> 'p Event option) \<Rightarrow> msg \<Rightarrow> 'p Event option" where
  "decodeEvent unmarshal m = (case msg_Data m of None \<Rightarrow> None | Some d \<Rightarrow> unmarshal d)"

definition maxRetries :: nat where "maxRetries = 5"
definition baseBackoff :: duration where "baseBackoff = 500000000"
definition maxBackoff :: duration where "maxBackoff = 30000000000"

definition backoff :: "nat \<Rightarrow> duration" where
  "backoff retries = min (baseBackoff * 2 ^ (retries - 1)) maxBackoff"

text \<open>The event written by \<open>Publish\<close>: topic set, timestamp filled in (\<open>stamp\<close> of the local bus), a stream
  of about 10000 messages.\<close>

definition stream_publish ::
  "('p Event \<Rightarrow> string option) \<Rightarrow> (string \<Rightarrow> string \<Rightarrow> instant \<Rightarrow> int \<Rightarrow> 'r \<Rightarrow> bool \<times> 'r) \<Rightarrow> instant \<Rightarrow> string \<Rightarrow> 'p Event \<Rightarrow> 'r \<Rightarrow>
   string option \<times> 'r" where
  "stream_publish marshal xadd now topic event r =
     (let e = stamp now topic event
      in case marshal e of
           None \<Rightarrow> (Some ''marshal event'', r)
         | Some data \<Rightarrow>
             (case xadd topic data (ev_Timestamp e) 10000 r of
                (ok, r1) \<Rightarrow> (if ok then None else Some ''xadd'', r1)))"

section \<open>Handling what was read\<close>

text \<open>State of the rest of the program, acknowledgements as pairs of stream and message.\<close>

fun handle_msgs ::
  "(string \<Rightarrow> 'p Event option) \<Rightarrow> ('p Event \<Rightarrow> 's \<Rightarrow> string option \<times> 's) \<Rightarrow> string \<Rightarrow> msg list \<Rightarrow>
   (string \<times> string) list \<times> 's \<Rightarrow> (string \<times> string) list \<times> 's" where
  "handle_msgs unmarshal h stream [] acc = acc"
| "handle_msgs unmarshal h stream (m # ms) (acks, st) =
     (case decodeEvent unmarshal m of
        None \<Rightarrow> handle_msgs unmarshal h stream ms (acks, st)
      | Some ev \<Rightarrow>
          (case h ev st of
             (Some err, st1) \<Rightarrow> handle_msgs unmarshal h stream ms (acks, st1)
           | (None, st1) \<Rightarrow> handle_msgs unmarshal h stream ms (acks @ [(stream, msg_ID m)], st1)))"

fun handle_streams ::
  "(string \<Rightarrow> 'p Event option) \<Rightarrow> ('p Event \<Rightarrow> 's \<Rightarrow> string option \<times> 's) \<Rightarrow> (string \<times> msg list) list \<Rightarrow>
   (string \<times> string) list \<times> 's \<Rightarrow> (string \<times> string) list \<times> 's" where
  "handle_streams unmarshal h [] acc = acc"
| "handle_streams unmarshal h ((stream, ms) # ss) acc =
     handle_streams unmarshal h ss (handle_msgs unmarshal h stream ms acc)"

section \<open>The loops\<close>

datatype consume_result = Running nat | CtxErr | ReadFailed string

record 's consumer =
  cn_result :: consume_result
  cn_acks :: "(string \<times> string) list"
  cn_waits :: "duration list"
  cn_state :: 's

fun Consume ::
  "(string \<Rightarrow> 'p Event option) \<Rightarrow> ('p Event \<Rightarrow> 's \<Rightarrow> string option \<times> 's) \<Rightarrow> read list \<Rightarrow> nat \<Rightarrow>
   (string \<times> string) list \<Rightarrow> duration list \<Rightarrow> 's \<Rightarrow> 's consumer" where
  "Consume unmarshal h [] retries acks waits st = \<lparr>cn_result = Running retries, cn_acks = acks, cn_waits = waits, cn_state = st\<rparr>"
| "Consume unmarshal h (CtxDone # rs) retries acks waits st = \<lparr>cn_result = CtxErr, cn_acks = acks, cn_waits = waits, cn_state = st\<rparr>"
| "Consume unmarshal h (ReadNil # rs) retries acks waits st = Consume unmarshal h rs retries acks waits st"
| "Consume unmarshal h (ReadErr e d # rs) retries acks waits st =
     (let n = retries + 1
      in if n > maxRetries then \<lparr>cn_result = ReadFailed e, cn_acks = acks, cn_waits = waits, cn_state = st\<rparr>
         else if d then \<lparr>cn_result = CtxErr, cn_acks = acks, cn_waits = waits, cn_state = st\<rparr>
         else Consume unmarshal h rs n acks (waits @ [backoff n]) st)"
| "Consume unmarshal h (ReadStreams ss # rs) retries acks waits st =
     (case handle_streams unmarshal h ss (acks, st) of
        (acks1, st1) \<Rightarrow> Consume unmarshal h rs 0 acks1 waits st1)"

text \<open>
  \<open>ConsumeFromID\<close>, with the identifiers it passes to its reads: the start identifier until the first
  read that brings messages, \<open>>\<close> from then on. A failed read ends it.
\<close>

fun ConsumeFromID ::
  "(string \<Rightarrow> 'p Event option) \<Rightarrow> ('p Event \<Rightarrow> 's \<Rightarrow> string option \<times> 's) \<Rightarrow> read list \<Rightarrow> string \<Rightarrow> string list \<Rightarrow>
   (string \<times> string) list \<Rightarrow> 's \<Rightarrow> consume_result \<times> string list \<times> (string \<times> string) list \<times> 's" where
  "ConsumeFromID unmarshal h [] startID asked acks st = (Running 0, asked, acks, st)"
| "ConsumeFromID unmarshal h (CtxDone # rs) startID asked acks st = (CtxErr, asked, acks, st)"
| "ConsumeFromID unmarshal h (ReadNil # rs) startID asked acks st =
     ConsumeFromID unmarshal h rs startID (asked @ [startID]) acks st"
| "ConsumeFromID unmarshal h (ReadErr e d # rs) startID asked acks st = (ReadFailed e, asked @ [startID], acks, st)"
| "ConsumeFromID unmarshal h (ReadStreams ss # rs) startID asked acks st =
     (case handle_streams unmarshal h ss (acks, st) of
        (acks1, st1) \<Rightarrow> ConsumeFromID unmarshal h rs ''>'' (asked @ [startID]) acks1 st1)"

section \<open>Specification\<close>

text \<open>
  The lengths of the series of failed reads of a history, each ended by a read that brings messages,
  the last one by the end of the history (\<open>n\<close> failures came before it).
\<close>

fun failure_runs :: "nat \<Rightarrow> read list \<Rightarrow> nat list" where
  "failure_runs n [] = [n]"
| "failure_runs n (ReadErr e d # rs) = failure_runs (n + 1) rs"
| "failure_runs n (ReadStreams ss # rs) = n # failure_runs 0 rs"
| "failure_runs n (r # rs) = failure_runs n rs"

text \<open>The waits of a full series.\<close>

definition series_waits :: "duration list" where
  "series_waits = [500000000, 1000000000, 2000000000, 4000000000, 8000000000]"

text \<open>A history in which the context stays alive.\<close>

definition alive :: "read list \<Rightarrow> bool" where
  "alive rs \<longleftrightarrow> (\<forall>r \<in> set rs. r \<noteq> CtxDone \<and> (\<forall>e. r \<noteq> ReadErr e True))"

definition short_runs :: "nat \<Rightarrow> read list \<Rightarrow> bool" where
  "short_runs n rs \<longleftrightarrow> (\<forall>m \<in> set (failure_runs n rs). m \<le> maxRetries)"

lemma Consume_append:
  "cn_result (Consume unmarshal h rs retries acks waits st) = Running n \<Longrightarrow>
   Consume unmarshal h (rs @ rest) retries acks waits st =
     (let c = Consume unmarshal h rs retries acks waits st
      in Consume unmarshal h rest n (cn_acks c) (cn_waits c) (cn_state c))"
  by (induction unmarshal h rs retries acks waits st rule: Consume.induct)
    (auto simp: Let_def split: if_splits prod.splits)

lemma failure_runs_first: "\<exists>m \<in> set (failure_runs n rs). n \<le> m"
  by (induction n rs rule: failure_runs.induct) (auto dest: Suc_leD)

lemma failure_runs_ne [simp]: "failure_runs n rs \<noteq> []"
  by (induction n rs rule: failure_runs.induct) auto

lemma short_runs_first: "short_runs n rs \<Longrightarrow> n \<le> maxRetries"
  using failure_runs_first [of n rs] unfolding short_runs_def by (meson order_trans)

lemma backoff_series: "n < maxRetries \<Longrightarrow> backoff (n + 1) = series_waits ! n"
proof -
  assume "n < maxRetries"
  then consider "n = 0" | "n = 1" | "n = 2" | "n = 3" | "n = 4"
    by (auto simp: maxRetries_def less_Suc_eq numeral_eq_Suc)
  then show ?thesis by cases (simp_all add: backoff_def baseBackoff_def maxBackoff_def series_waits_def)
qed

lemma take_series: "n < maxRetries \<Longrightarrow> take (n + 1) series_waits = take n series_waits @ [backoff (n + 1)]"
proof -
  assume n: "n < maxRetries"
  then have "n < length series_waits" by (simp add: series_waits_def maxRetries_def)
  then show ?thesis unfolding backoff_series [OF n] by (simp add: take_Suc_conv_app_nth)
qed

lemma Consume_running:
  "alive rs \<Longrightarrow> short_runs retries rs \<Longrightarrow>
   cn_result (Consume unmarshal h rs retries acks waits st) = Running (last (failure_runs retries rs))"
proof (induction unmarshal h rs retries acks waits st rule: Consume.induct)
  case (4 unmarshal h e d rs retries acks waits st)
  then have "retries + 1 \<le> maxRetries" "\<not> d"
    using short_runs_first [of "retries + 1" rs] by (auto simp: short_runs_def alive_def)
  with 4 show ?case by (simp add: alive_def short_runs_def Let_def)
qed (auto simp: alive_def short_runs_def split: prod.split)

lemma Consume_waits:
  "alive rs \<Longrightarrow> short_runs retries rs \<Longrightarrow>
   \<exists>ws. cn_waits (Consume unmarshal h rs retries acks waits st) = waits @ ws \<and>
     take retries series_waits @ ws = concat (map (\<lambda>n. take n series_waits) (failure_runs retries rs))"
proof (induction unmarshal h rs retries acks waits st rule: Consume.induct)
  case (3 unmarshal h rs retries acks waits st)
  then show ?case by (simp add: alive_def short_runs_def)
next
  case (4 unmarshal h e d rs retries acks waits st)
  then have r: "retries + 1 \<le> maxRetries" "\<not> d"
    using short_runs_first [of "retries + 1" rs] by (auto simp: short_runs_def alive_def)
  with 4 obtain ws where "cn_waits (Consume unmarshal h rs (retries + 1) acks (waits @ [backoff (retries + 1)]) st) =
      (waits @ [backoff (retries + 1)]) @ ws"
    "take (retries + 1) series_waits @ ws = concat (map (\<lambda>n. take n series_waits) (failure_runs (retries + 1) rs))"
    by (auto simp: alive_def short_runs_def)
  with r take_series [of retries] show ?case
    by (intro exI [of _ "backoff (retries + 1) # ws"]) (simp add: Let_def)
next
  case (5 unmarshal h ss rs retries acks waits st)
  obtain acks1 st1 where s: "handle_streams unmarshal h ss (acks, st) = (acks1, st1)"
    by (cases "handle_streams unmarshal h ss (acks, st)")
  with 5 obtain ws where "cn_waits (Consume unmarshal h rs 0 acks1 waits st1) = waits @ ws"
    "take 0 series_waits @ ws = concat (map (\<lambda>n. take n series_waits) (failure_runs 0 rs))"
    by (auto simp: alive_def short_runs_def)
  with s show ?case by (intro exI [of _ ws]) simp
qed (simp_all add: alive_def)

text \<open>What is acknowledged when the verdict of the handler depends on the event: it fails on \<open>F\<close>.\<close>

definition fails_only :: "('p Event \<Rightarrow> 's \<Rightarrow> string option \<times> 's) \<Rightarrow> 'p Event set \<Rightarrow> bool" where
  "fails_only h F \<longleftrightarrow> (\<forall>ev st. fst (h ev st) \<noteq> None \<longleftrightarrow> ev \<in> F)"

definition handled :: "(string \<Rightarrow> 'p Event option) \<Rightarrow> 'p Event set \<Rightarrow> msg \<Rightarrow> bool" where
  "handled unmarshal F m \<longleftrightarrow> (case decodeEvent unmarshal m of None \<Rightarrow> False | Some ev \<Rightarrow> ev \<notin> F)"

fun acked :: "(string \<Rightarrow> 'p Event option) \<Rightarrow> 'p Event set \<Rightarrow> read list \<Rightarrow> (string \<times> string) list" where
  "acked unmarshal F [] = []"
| "acked unmarshal F (ReadStreams ss # rs) =
     concat (map (\<lambda>(stream, ms). map (\<lambda>m. (stream, msg_ID m)) (filter (handled unmarshal F) ms)) ss) @ acked unmarshal F rs"
| "acked unmarshal F (r # rs) = acked unmarshal F rs"

lemma handle_msgs_acks:
  "fails_only h F \<Longrightarrow> fst (handle_msgs unmarshal h stream ms (acks, st)) =
     acks @ map (\<lambda>m. (stream, msg_ID m)) (filter (handled unmarshal F) ms)"
proof (induction ms arbitrary: acks st)
  case (Cons m ms)
  show ?case
  proof (cases "decodeEvent unmarshal m")
    case None
    with Cons show ?thesis by (simp add: handled_def)
  next
    case (Some ev)
    have "fst (h ev st) \<noteq> None \<longleftrightarrow> ev \<in> F" using Cons.prems unfolding fails_only_def by blast
    with Cons Some show ?thesis
      by (cases "h ev st"; cases "fst (h ev st)") (auto simp: handled_def)
  qed
qed simp

lemma handle_streams_acks:
  "fails_only h F \<Longrightarrow> fst (handle_streams unmarshal h ss (acks, st)) =
     acks @ concat (map (\<lambda>(stream, ms). map (\<lambda>m. (stream, msg_ID m)) (filter (handled unmarshal F) ms)) ss)"
proof (induction ss arbitrary: acks st)
  case (Cons s ss)
  obtain stream ms where s: "s = (stream, ms)" by (cases s)
  obtain acks1 st1 where h: "handle_msgs unmarshal h stream ms (acks, st) = (acks1, st1)"
    by (cases "handle_msgs unmarshal h stream ms (acks, st)")
  with handle_msgs_acks [OF Cons.prems, of unmarshal stream ms acks st] Cons s show ?case by simp
qed simp

lemma Consume_acks:
  "fails_only h F \<Longrightarrow> alive rs \<Longrightarrow> short_runs retries rs \<Longrightarrow>
   cn_acks (Consume unmarshal h rs retries acks waits st) = acks @ acked unmarshal F rs"
proof (induction unmarshal h rs retries acks waits st rule: Consume.induct)
  case (4 unmarshal h e d rs retries acks waits st)
  then have "retries + 1 \<le> maxRetries" "\<not> d"
    using short_runs_first [of "retries + 1" rs] by (auto simp: short_runs_def alive_def)
  with 4 show ?case by (simp add: alive_def short_runs_def Let_def)
next
  case (5 unmarshal h ss rs retries acks waits st)
  with handle_streams_acks [OF 5(2), of unmarshal ss acks st] show ?case
    by (auto simp: alive_def short_runs_def split: prod.split)
qed (auto simp: alive_def short_runs_def)

section \<open>Properties\<close>

text \<open>C16: Reconnecting. While the context lives, the consumer survives any history in which no more than
  five reads in a row fail without messages in between, however many fail in total; a sixth failure
  in a row ends it with that read's error. It waits after every failed read: the waits of a history
  are, series by series, the first of 0.5, 1, 2, 4 and 8 s. It has acknowledged, in order, exactly the
  messages that decode and whose handler succeeded.\<close>

theorem consume_reconnects:
  assumes "alive rs" "\<forall>n \<in> set (failure_runs 0 rs). n \<le> 5"
  shows "cn_result (Consume unmarshal h rs 0 [] [] st) = Running (last (failure_runs 0 rs)) \<and>
    cn_waits (Consume unmarshal h rs 0 [] [] st) = concat (map (\<lambda>n. take n series_waits) (failure_runs 0 rs)) \<and>
    (\<forall>F. fails_only h F \<longrightarrow> cn_acks (Consume unmarshal h rs 0 [] [] st) = acked unmarshal F rs) \<and>
    (\<forall>e d rest. last (failure_runs 0 rs) = 5 \<longrightarrow>
      cn_result (Consume unmarshal h (rs @ ReadErr e d # rest) 0 [] [] st) = ReadFailed e)"
proof -
  have s: "short_runs 0 rs" using assms(2) by (simp add: short_runs_def maxRetries_def)
  note r = Consume_running [OF assms(1) s, of unmarshal h "[]" "[]" st]
  show ?thesis
    using r Consume_append [OF r] Consume_waits [OF assms(1) s, of unmarshal h "[]" "[]" st]
      Consume_acks [OF _ assms(1) s, of h _ unmarshal "[]" "[]" st]
    by (simp add: Let_def maxRetries_def)
qed

lemma consume_reconnects_witness:
  "let rs = replicate 3 (ReadErr ''eof'' False) @ ReadStreams [] # replicate 5 (ReadErr ''eof'' False)
   in cn_result (Consume (\<lambda>_. None :: unit Event option) (\<lambda>ev st. (None, st)) (rs @ [ReadErr ''gone'' False]) 0 [] [] (0 :: nat)) =
        ReadFailed ''gone'' \<and>
      cn_waits (Consume (\<lambda>_. None :: unit Event option) (\<lambda>ev st. (None, st)) rs 0 [] [] (0 :: nat)) =
        take 3 series_waits @ series_waits"
proof -
  let ?rs = "replicate 3 (ReadErr ''eof'' False) @ ReadStreams [] # replicate 5 (ReadErr ''eof'' False)"
  have f: "failure_runs 0 ?rs = [3, 5]" by (simp add: numeral_eq_Suc)
  have a: "alive ?rs" by (auto simp: alive_def)
  have five: "\<forall>n \<in> set (failure_runs 0 ?rs). n \<le> 5" unfolding f by simp
  note c = consume_reconnects [OF a five, of "\<lambda>_. None :: unit Event option" "\<lambda>ev st. (None, st)" "0 :: nat", unfolded f]
  show ?thesis
    unfolding Let_def using c by (simp add: series_waits_def)
qed

end
