(* ===== verification/Feature.thy ===== *)
theory Feature
  imports Prelude
begin

text \<open>
  Feature flags: the in-memory manager of src/internal/services/feature/feature.go, and the MySQL
  store and the manager that writes through to it of src/internal/services/feature/store.go.

  The manager is a map from names to flags. A store is a record of the operations of the Go
  interface \<open>Store\<close>; each takes a Boolean first, whether the statement reaches the database, and an
  operation that does not reach it returns an error and leaves the table as it is. The MySQL table
  is the list of its rows. MySQL compares the primary key under the collation of the column, so the
  statements compare \<open>key name\<close>, for a function \<open>key\<close> that is a parameter: the identity for a binary
  collation, lower-casing for the case-insensitive default.
\<close>

record Flag =
  fl_Name :: string
  fl_Enabled :: bool
  fl_Description :: string

datatype flag_error =
  AlreadyRegistered string
| FlagNotFound string
| LoadFailed
| SaveFailed string
| DeleteFailed string

section \<open>The in-memory manager\<close>

type_synonym Manager = "string \<rightharpoonup> Flag"

definition NewManager :: Manager where
  "NewManager = Map.empty"

definition Register :: "Flag \<Rightarrow> Manager \<Rightarrow> flag_error + Manager" where
  "Register f m = (case m (fl_Name f) of
     Some _ \<Rightarrow> Inl (AlreadyRegistered (fl_Name f))
   | None \<Rightarrow> Inr (m(fl_Name f \<mapsto> f)))"

definition RegisterOrUpdate :: "Flag \<Rightarrow> Manager \<Rightarrow> Manager" where
  "RegisterOrUpdate f m = m(fl_Name f \<mapsto> f)"

definition IsEnabled :: "string \<Rightarrow> Manager \<Rightarrow> bool" where
  "IsEnabled n m = (case m n of None \<Rightarrow> False | Some f \<Rightarrow> fl_Enabled f)"

definition Enable :: "string \<Rightarrow> Manager \<Rightarrow> flag_error + Manager" where
  "Enable n m = (case m n of
     None \<Rightarrow> Inl (FlagNotFound n)
   | Some f \<Rightarrow> Inr (m(n \<mapsto> f\<lparr>fl_Enabled := True\<rparr>)))"

definition Disable :: "string \<Rightarrow> Manager \<Rightarrow> flag_error + Manager" where
  "Disable n m = (case m n of
     None \<Rightarrow> Inl (FlagNotFound n)
   | Some f \<Rightarrow> Inr (m(n \<mapsto> f\<lparr>fl_Enabled := False\<rparr>)))"

definition DeleteFlag :: "string \<Rightarrow> Manager \<Rightarrow> flag_error + Manager" where
  "DeleteFlag n m = (case m n of
     None \<Rightarrow> Inl (FlagNotFound n)
   | Some _ \<Rightarrow> Inr (m(n := None)))"

definition GetFlag :: "string \<Rightarrow> Manager \<Rightarrow> Flag option" where
  "GetFlag n m = m n"

text \<open>Go iterates a map in an unspecified order, so \<open>List\<close> is the set of the flags it returns.\<close>

definition ListFlags :: "Manager \<Rightarrow> Flag set" where
  "ListFlags m = ran m"

section \<open>The store interface and the MySQL store\<close>

record 's Store =
  st_Load :: "bool \<Rightarrow> 's \<Rightarrow> flag_error + Flag list"
  st_Save :: "bool \<Rightarrow> Flag \<Rightarrow> 's \<Rightarrow> flag_error option \<times> 's"
  st_Delete :: "bool \<Rightarrow> string \<Rightarrow> 's \<Rightarrow> flag_error option \<times> 's"

type_synonym flag_table = "Flag list"

definition sql_Load :: "bool \<Rightarrow> flag_table \<Rightarrow> flag_error + Flag list" where
  "sql_Load ok t = (if ok then Inr t else Inl LoadFailed)"

text \<open>\<open>REPLACE INTO\<close> deletes the row with an equal primary key, if any, and inserts the new one.\<close>

definition sql_Save ::
  "(string \<Rightarrow> string) \<Rightarrow> bool \<Rightarrow> Flag \<Rightarrow> flag_table \<Rightarrow> flag_error option \<times> flag_table" where
  "sql_Save key ok f t =
     (if ok then (None, filter (\<lambda>r. key (fl_Name r) \<noteq> key (fl_Name f)) t @ [f])
      else (Some (SaveFailed (fl_Name f)), t))"

definition sql_Delete ::
  "(string \<Rightarrow> string) \<Rightarrow> bool \<Rightarrow> string \<Rightarrow> flag_table \<Rightarrow> flag_error option \<times> flag_table" where
  "sql_Delete key ok n t =
     (if ok then (None, filter (\<lambda>r. key (fl_Name r) \<noteq> key n) t)
      else (Some (DeleteFailed n), t))"

definition MySQLStore :: "(string \<Rightarrow> string) \<Rightarrow> flag_table Store" where
  "MySQLStore key = \<lparr>st_Load = sql_Load, st_Save = sql_Save key, st_Delete = sql_Delete key\<rparr>"

section \<open>The manager that persists\<close>

record 's syncManager =
  sm_flags :: Manager
  sm_db :: 's

definition sync_save ::
  "'s Store \<Rightarrow> bool \<Rightarrow> Flag \<Rightarrow> 's syncManager \<Rightarrow> flag_error option \<times> 's syncManager" where
  "sync_save st ok f sm = (case st_Save st ok f (sm_db sm) of (e, d) \<Rightarrow> (e, sm\<lparr>sm_db := d\<rparr>))"

definition sync_Register ::
  "'s Store \<Rightarrow> bool \<Rightarrow> Flag \<Rightarrow> 's syncManager \<Rightarrow> flag_error option \<times> 's syncManager" where
  "sync_Register st ok f sm = (case Register f (sm_flags sm) of
     Inl e \<Rightarrow> (Some e, sm)
   | Inr m \<Rightarrow> sync_save st ok f (sm\<lparr>sm_flags := m\<rparr>))"

definition sync_RegisterOrUpdate ::
  "'s Store \<Rightarrow> bool \<Rightarrow> Flag \<Rightarrow> 's syncManager \<Rightarrow> 's syncManager" where
  "sync_RegisterOrUpdate st ok f sm =
     snd (sync_save st ok f (sm\<lparr>sm_flags := RegisterOrUpdate f (sm_flags sm)\<rparr>))"

text \<open>
  \<open>Enable\<close> and \<open>Disable\<close> read the flag back with \<open>Get\<close> before they save it; the flag is there, so
  the zero flag that \<open>Get\<close> returns with \<open>false\<close> stands for an impossible case.
\<close>

definition zero_flag :: Flag where
  "zero_flag = \<lparr>fl_Name = [], fl_Enabled = False, fl_Description = []\<rparr>"

definition sync_set ::
  "(string \<Rightarrow> Manager \<Rightarrow> flag_error + Manager) \<Rightarrow> 's Store \<Rightarrow> bool \<Rightarrow> string \<Rightarrow> 's syncManager \<Rightarrow>
   flag_error option \<times> 's syncManager" where
  "sync_set change st ok n sm = (case change n (sm_flags sm) of
     Inl e \<Rightarrow> (Some e, sm)
   | Inr m \<Rightarrow> sync_save st ok (case GetFlag n m of Some f \<Rightarrow> f | None \<Rightarrow> zero_flag) (sm\<lparr>sm_flags := m\<rparr>))"

definition sync_Enable where "sync_Enable = sync_set Enable"

definition sync_Disable where "sync_Disable = sync_set Disable"

definition sync_Delete ::
  "'s Store \<Rightarrow> bool \<Rightarrow> string \<Rightarrow> 's syncManager \<Rightarrow> flag_error option \<times> 's syncManager" where
  "sync_Delete st ok n sm = (case DeleteFlag n (sm_flags sm) of
     Inl e \<Rightarrow> (Some e, sm)
   | Inr m \<Rightarrow> (case st_Delete st ok n (sm_db sm) of (e, d) \<Rightarrow> (e, \<lparr>sm_flags = m, sm_db = d\<rparr>)))"

text \<open>
  \<open>Start\<close> loads every flag and registers each with the method of the persisting manager, which
  saves it again; \<open>oks f\<close> says whether the save of flag \<open>f\<close> reaches the database.
\<close>

definition sync_Start ::
  "'s Store \<Rightarrow> bool \<Rightarrow> (Flag \<Rightarrow> bool) \<Rightarrow> 's syncManager \<Rightarrow> flag_error option \<times> 's syncManager" where
  "sync_Start st ok oks sm = (case st_Load st ok (sm_db sm) of
     Inl e \<Rightarrow> (Some e, sm)
   | Inr fs \<Rightarrow> (None, fold (\<lambda>f. sync_RegisterOrUpdate st (oks f) f) fs sm))"

definition NewSyncManager :: "'s \<Rightarrow> 's syncManager" where
  "NewSyncManager d = \<lparr>sm_flags = NewManager, sm_db = d\<rparr>"

section \<open>The contract of a store\<close>

text \<open>What one call may do to a manager, with the outcome of its database statement.\<close>

datatype flag_op =
  ORegister bool Flag
| ORegisterOrUpdate bool Flag
| OEnable bool string
| ODisable bool string
| ODelete bool string

fun flag_step :: "'s Store \<Rightarrow> flag_op \<Rightarrow> 's syncManager \<Rightarrow> 's syncManager" where
  "flag_step st (ORegister ok f) sm = snd (sync_Register st ok f sm)"
| "flag_step st (ORegisterOrUpdate ok f) sm = sync_RegisterOrUpdate st ok f sm"
| "flag_step st (OEnable ok n) sm = snd (sync_Enable st ok n sm)"
| "flag_step st (ODisable ok n) sm = snd (sync_Disable st ok n sm)"
| "flag_step st (ODelete ok n) sm = snd (sync_Delete st ok n sm)"

fun op_name :: "flag_op \<Rightarrow> string" where
  "op_name (ORegister ok f) = fl_Name f"
| "op_name (ORegisterOrUpdate ok f) = fl_Name f"
| "op_name (OEnable ok n) = n"
| "op_name (ODisable ok n) = n"
| "op_name (ODelete ok n) = n"

fun registers :: "flag_op \<Rightarrow> bool" where
  "registers (ORegister ok f) = True"
| "registers (ORegisterOrUpdate ok f) = True"
| "registers op = False"

fun op_ok :: "flag_op \<Rightarrow> bool" where
  "op_ok (ORegister ok f) = ok"
| "op_ok (ORegisterOrUpdate ok f) = ok"
| "op_ok (OEnable ok n) = ok"
| "op_ok (ODisable ok n) = ok"
| "op_ok (ODelete ok n) = ok"

definition flag_run :: "'s Store \<Rightarrow> flag_op list \<Rightarrow> 's syncManager \<Rightarrow> 's syncManager" where
  "flag_run st ops sm = fold (flag_step st) ops sm"

text \<open>The rows of a table by their collation key, and the table of a store as \<open>Load\<close> shows it.\<close>

definition row_of :: "(string \<Rightarrow> string) \<Rightarrow> string \<Rightarrow> Flag list \<Rightarrow> Flag option" where
  "row_of key n t = find (\<lambda>r. key (fl_Name r) = key n) t"

definition names_of :: "Flag list \<Rightarrow> string set" where
  "names_of t = fl_Name ` set t"

text \<open>
  Every manager entry is stored under its own name. The zero flag of \<open>sync_set\<close> never occurs.
\<close>

definition names_match :: "Manager \<Rightarrow> bool" where
  "names_match m \<longleftrightarrow> (\<forall>n f. m n = Some f \<longrightarrow> fl_Name f = n)"

locale flag_store =
  fixes key :: "string \<Rightarrow> string" and st :: "'s Store" and rows :: "'s \<Rightarrow> Flag list" and wf :: "'s \<Rightarrow> bool"
  assumes load: "st_Load st ok d = (if ok then Inr (rows d) else Inl LoadFailed)"
    and save_ok: "\<exists>d'. st_Save st True f d = (None, d') \<and> (wf d \<longrightarrow> wf d') \<and>
      (\<forall>n. row_of key n (rows d') = (if key n = key (fl_Name f) then Some f else row_of key n (rows d))) \<and>
      names_of (rows d') \<subseteq> insert (fl_Name f) (names_of (rows d))"
    and save_err: "st_Save st False f d = (Some (SaveFailed (fl_Name f)), d)"
    and delete_ok: "\<exists>d'. st_Delete st True n d = (None, d') \<and> (wf d \<longrightarrow> wf d') \<and>
      (\<forall>n'. row_of key n' (rows d') = (if key n' = key n then None else row_of key n' (rows d))) \<and>
      names_of (rows d') \<subseteq> names_of (rows d)"
    and delete_err: "st_Delete st False n d = (Some (DeleteFailed n), d)"
    and wf_rows: "wf d \<Longrightarrow> distinct (map (key \<circ> fl_Name) (rows d))"
begin

text \<open>
  \<open>agrees N sm\<close>: on the names \<open>N\<close>, pairwise distinct under the collation, table and memory are the
  same; \<open>within N sm\<close>: neither holds any other name.
\<close>

definition within :: "string set \<Rightarrow> 's syncManager \<Rightarrow> bool" where
  "within N sm \<longleftrightarrow> dom (sm_flags sm) \<subseteq> N \<and> names_of (rows (sm_db sm)) \<subseteq> N \<and> names_match (sm_flags sm) \<and>
     wf (sm_db sm)"

definition agrees :: "string \<Rightarrow> 's syncManager \<Rightarrow> bool" where
  "agrees n sm \<longleftrightarrow> row_of key n (rows (sm_db sm)) = sm_flags sm n"

lemma save_cases:
  obtains (ok) d' where "ok" "st_Save st ok f d = (None, d')" "wf d \<longrightarrow> wf d'"
      "\<And>n. row_of key n (rows d') = (if key n = key (fl_Name f) then Some f else row_of key n (rows d))"
      "names_of (rows d') \<subseteq> insert (fl_Name f) (names_of (rows d))"
  | (err) "\<not> ok" "st_Save st ok f d = (Some (SaveFailed (fl_Name f)), d)"
  using save_ok [of f d] save_err [of f d] by (cases ok) auto

lemma delete_cases:
  obtains (ok) d' where "ok" "st_Delete st ok n d = (None, d')" "wf d \<longrightarrow> wf d'"
      "\<And>n'. row_of key n' (rows d') = (if key n' = key n then None else row_of key n' (rows d))"
      "names_of (rows d') \<subseteq> names_of (rows d)"
  | (err) "\<not> ok" "st_Delete st ok n d = (Some (DeleteFailed n), d)"
  using delete_ok [of n d] delete_err [of n d] by (cases ok) auto

text \<open>Writing one flag through: the flag goes into memory, and into the table if the save succeeds.\<close>

lemma write_through:
  assumes N: "inj_on key N" "fl_Name f \<in> N" "n \<in> N" and w: "within N sm"
    and m: "m = (sm_flags sm)(fl_Name f \<mapsto> f)"
    and a: "n = fl_Name f \<Longrightarrow> ok" "n \<noteq> fl_Name f \<Longrightarrow> agrees n sm"
  shows "agrees n (snd (sync_save st ok f (sm\<lparr>sm_flags := m\<rparr>)))"
proof (cases ok f "sm_db sm" rule: save_cases)
  case (ok d')
  have "key n = key (fl_Name f) \<longleftrightarrow> n = fl_Name f"
    using N by (auto dest: inj_onD)
  with ok a m show ?thesis by (auto simp: agrees_def sync_save_def)
next
  case err
  with a m show ?thesis by (auto simp: agrees_def sync_save_def)
qed

lemma write_within:
  assumes "within N sm" "fl_Name f \<in> N" "m = (sm_flags sm)(fl_Name f \<mapsto> f)"
  shows "within N (snd (sync_save st ok f (sm\<lparr>sm_flags := m\<rparr>)))"
  using assms
  by (cases ok f "sm_db sm" rule: save_cases) (auto simp: within_def sync_save_def names_match_def)

text \<open>What a step does: nothing, a write of one flag through to the table, or a deletion.\<close>

lemma step_cases:
  assumes "names_match (sm_flags sm)"
  shows "flag_step st op sm = sm \<or>
    (\<exists>f. fl_Name f = op_name op \<and> flag_step st op sm =
       snd (sync_save st (op_ok op) f (sm\<lparr>sm_flags := (sm_flags sm)(fl_Name f \<mapsto> f)\<rparr>))) \<or>
    flag_step st op sm = \<lparr>sm_flags = (sm_flags sm)(op_name op := None),
       sm_db = snd (st_Delete st (op_ok op) (op_name op) (sm_db sm))\<rparr>"
proof (cases op)
  case (ORegister ok f)
  then show ?thesis by (auto simp: sync_Register_def Register_def split: sum.splits option.splits)
next
  case (ORegisterOrUpdate ok f)
  then show ?thesis by (auto simp: sync_RegisterOrUpdate_def RegisterOrUpdate_def)
next
  case (OEnable ok n)
  show ?thesis
  proof (cases "sm_flags sm n")
    case (Some f)
    then have "fl_Name (f\<lparr>fl_Enabled := True\<rparr>) = n" using assms by (simp add: names_match_def)
    with Some OEnable show ?thesis
      by (intro disjI2 disjI1 exI [of _ "f\<lparr>fl_Enabled := True\<rparr>"])
        (simp add: sync_Enable_def sync_set_def Enable_def GetFlag_def)
  qed (use OEnable in \<open>simp add: sync_Enable_def sync_set_def Enable_def\<close>)
next
  case (ODisable ok n)
  show ?thesis
  proof (cases "sm_flags sm n")
    case (Some f)
    then have "fl_Name (f\<lparr>fl_Enabled := False\<rparr>) = n" using assms by (simp add: names_match_def)
    with Some ODisable show ?thesis
      by (intro disjI2 disjI1 exI [of _ "f\<lparr>fl_Enabled := False\<rparr>"])
        (simp add: sync_Disable_def sync_set_def Disable_def GetFlag_def)
  qed (use ODisable in \<open>simp add: sync_Disable_def sync_set_def Disable_def\<close>)
next
  case (ODelete ok n)
  then show ?thesis
    by (auto simp: sync_Delete_def DeleteFlag_def split: sum.splits option.splits prod.splits)
qed

lemma step_within:
  assumes w: "within N sm" and n: "op_name op \<in> N"
  shows "within N (flag_step st op sm)"
proof -
  have m: "names_match (sm_flags sm)" using w by (simp add: within_def)
  from step_cases [OF m, of op] consider "flag_step st op sm = sm"
    | f where "fl_Name f = op_name op" "flag_step st op sm =
       snd (sync_save st (op_ok op) f (sm\<lparr>sm_flags := (sm_flags sm)(fl_Name f \<mapsto> f)\<rparr>))"
    | "flag_step st op sm = \<lparr>sm_flags = (sm_flags sm)(op_name op := None),
       sm_db = snd (st_Delete st (op_ok op) (op_name op) (sm_db sm))\<rparr>"
    by blast
  then show ?thesis
  proof cases
    case 3
    then show ?thesis
      using w by (cases "op_ok op" "op_name op" "sm_db sm" rule: delete_cases)
        (auto simp: within_def names_match_def)
  next
    case (2 f)
    then show ?thesis using w n write_within [OF w, of f "(sm_flags sm)(fl_Name f \<mapsto> f)" "op_ok op"] by simp
  qed (use w in simp)
qed

lemma step_agrees:
  assumes w: "within N sm" and N: "inj_on key N" "op_name op \<in> N" "n \<in> N"
    and a: "agrees n sm" and ok: "op_name op = n \<Longrightarrow> op_ok op"
  shows "agrees n (flag_step st op sm)"
proof -
  have m: "names_match (sm_flags sm)" using w by (simp add: within_def)
  have k: "key n = key (op_name op) \<longleftrightarrow> n = op_name op"
    using N by (auto dest: inj_onD)
  from step_cases [OF m, of op] consider "flag_step st op sm = sm"
    | f where "fl_Name f = op_name op" "flag_step st op sm =
       snd (sync_save st (op_ok op) f (sm\<lparr>sm_flags := (sm_flags sm)(fl_Name f \<mapsto> f)\<rparr>))"
    | "flag_step st op sm = \<lparr>sm_flags = (sm_flags sm)(op_name op := None),
       sm_db = snd (st_Delete st (op_ok op) (op_name op) (sm_db sm))\<rparr>"
    by blast
  then show ?thesis
  proof cases
    case (2 f)
    have "agrees n (snd (sync_save st (op_ok op) f (sm\<lparr>sm_flags := (sm_flags sm)(fl_Name f \<mapsto> f)\<rparr>)))"
      by (rule write_through [OF N(1) _ N(3) w refl]) (use 2 N ok a in auto)
    with 2 show ?thesis by simp
  next
    case 3
    then show ?thesis
      using a k ok by (cases "op_ok op" "op_name op" "sm_db sm" rule: delete_cases) (auto simp: agrees_def)
  qed (use a in simp)
qed

lemma run_within: "within N sm \<Longrightarrow> op_name ` set ops \<subseteq> N \<Longrightarrow> within N (flag_run st ops sm)"
  unfolding flag_run_def by (induction ops arbitrary: sm) (auto simp: step_within)

lemma run_agrees:
  assumes "within N sm" "inj_on key N" "n \<in> N" "op_name ` set ops \<subseteq> N" "agrees n sm"
    "\<forall>op \<in> set ops. op_name op = n \<longrightarrow> op_ok op"
  shows "agrees n (flag_run st ops sm)"
  using assms unfolding flag_run_def
proof (induction ops arbitrary: sm)
  case (Cons op ops)
  then have "within N (flag_step st op sm)" "agrees n (flag_step st op sm)"
    using step_within step_agrees by auto
  with Cons show ?case by simp
qed simp

text \<open>A call about another name touches neither the entry nor the row of \<open>n\<close>.\<close>

lemma step_other:
  assumes w: "within N sm" and N: "inj_on key N" "op_name op \<in> N" "n \<in> N" and ne: "op_name op \<noteq> n"
  shows "sm_flags (flag_step st op sm) n = sm_flags sm n \<and>
    row_of key n (rows (sm_db (flag_step st op sm))) = row_of key n (rows (sm_db sm))"
proof -
  have m: "names_match (sm_flags sm)" using w by (simp add: within_def)
  have k: "key n \<noteq> key (op_name op)"
    using N ne by (auto dest: inj_onD)
  from step_cases [OF m, of op] consider "flag_step st op sm = sm"
    | f where "fl_Name f = op_name op" "flag_step st op sm =
       snd (sync_save st (op_ok op) f (sm\<lparr>sm_flags := (sm_flags sm)(fl_Name f \<mapsto> f)\<rparr>))"
    | "flag_step st op sm = \<lparr>sm_flags = (sm_flags sm)(op_name op := None),
       sm_db = snd (st_Delete st (op_ok op) (op_name op) (sm_db sm))\<rparr>"
    by blast
  then show ?thesis
  proof cases
    case (2 f)
    then show ?thesis
      using k ne by (cases "op_ok op" f "sm_db sm" rule: save_cases) (auto simp: sync_save_def)
  next
    case 3
    then show ?thesis
      using k ne by (cases "op_ok op" "op_name op" "sm_db sm" rule: delete_cases) auto
  qed simp
qed

text \<open>
  A name that memory has lost but the table still holds stays that way under every history that does
  not register it again: \<open>Enable\<close>, \<open>Disable\<close> and \<open>Delete\<close> stop at the missing entry.
\<close>

lemma step_absent:
  "sm_flags sm (op_name op) = None \<Longrightarrow> \<not> registers op \<Longrightarrow> flag_step st op sm = sm"
  by (cases op) (simp_all add: sync_Enable_def sync_Disable_def sync_set_def sync_Delete_def Enable_def
      Disable_def DeleteFlag_def)

lemma run_absent:
  assumes "within N sm" "inj_on key N" "n \<in> N" "op_name ` set ops \<subseteq> N" "sm_flags sm n = None"
    "row_of key n (rows (sm_db sm)) = Some r" "\<forall>op \<in> set ops. op_name op = n \<longrightarrow> \<not> registers op"
  shows "sm_flags (flag_run st ops sm) n = None \<and> row_of key n (rows (sm_db (flag_run st ops sm))) = Some r"
  using assms unfolding flag_run_def
proof (induction ops arbitrary: sm)
  case (Cons op ops)
  have op: "op_name op \<in> N" using Cons.prems by simp
  have "sm_flags (flag_step st op sm) n = None \<and>
    row_of key n (rows (sm_db (flag_step st op sm))) = Some r"
  proof (cases "op_name op = n")
    case True
    with Cons.prems show ?thesis using step_absent [of sm op] by simp
  next
    case False
    with Cons.prems op show ?thesis using step_other [of N sm op n] by simp
  qed
  with Cons step_within [OF Cons.prems(1) op] show ?case by simp
qed simp

text \<open>\<open>Start\<close>: memory holds what the rows say, and the table is not changed by it.\<close>

lemma start_flags:
  "sm_flags (fold (\<lambda>f. sync_RegisterOrUpdate st (oks f) f) fs sm) = fold RegisterOrUpdate fs (sm_flags sm)"
  by (induction fs arbitrary: sm)
    (simp_all add: sync_RegisterOrUpdate_def sync_save_def split: prod.split)

lemma start_memory:
  "distinct (map (key \<circ> fl_Name) fs) \<Longrightarrow> fold RegisterOrUpdate fs m n =
     (case find (\<lambda>r. fl_Name r = n) fs of Some f \<Rightarrow> Some f | None \<Rightarrow> m n)"
proof (induction fs arbitrary: m)
  case (Cons f fs)
  have "find (\<lambda>r. fl_Name r = n) fs = None" if "fl_Name f = n"
    using Cons.prems that by (auto simp: find_None_iff) (metis imageI)
  with Cons show ?case by (auto simp: RegisterOrUpdate_def split: option.split)
qed simp

lemma row_of_name:
  assumes "inj_on key N" "n \<in> N" "names_of t \<subseteq> N"
  shows "row_of key n t = find (\<lambda>r. fl_Name r = n) t"
  unfolding row_of_def using assms by (intro find_pred_cong) (auto simp: names_of_def dest: inj_onD)

lemma fresh_start:
  assumes "inj_on key N" "n \<in> N" "names_of (rows d) \<subseteq> N" "wf d"
  shows "sm_flags (snd (sync_Start st True oks (NewSyncManager d))) n = row_of key n (rows d)"
  using assms
  by (simp add: sync_Start_def load NewSyncManager_def NewManager_def start_flags start_memory wf_rows
      row_of_name split: option.split)

text \<open>The saves that \<open>Start\<close> issues write back rows that are already there.\<close>

lemma start_rows:
  "(\<And>f. f \<in> set fs \<Longrightarrow> row_of key (fl_Name f) (rows (sm_db sm)) = Some f) \<Longrightarrow>
   row_of key n (rows (sm_db (fold (\<lambda>f. sync_RegisterOrUpdate st (oks f) f) fs sm))) =
   row_of key n (rows (sm_db sm))"
proof (induction fs arbitrary: sm)
  case (Cons f fs)
  let ?sm = "sync_RegisterOrUpdate st (oks f) f sm"
  have same: "row_of key n' (rows (sm_db ?sm)) = row_of key n' (rows (sm_db sm))" for n'
  proof (cases "oks f" f "sm_db sm" rule: save_cases)
    case (ok d')
    have "row_of key n' (rows (sm_db sm)) = Some f" if "key n' = key (fl_Name f)"
      using Cons.prems [of f] that by (simp add: row_of_def)
    with ok show ?thesis by (auto simp: sync_RegisterOrUpdate_def sync_save_def)
  qed (simp add: sync_RegisterOrUpdate_def sync_save_def)
  with Cons show ?case by simp
qed simp

lemma row_of_self: "wf d \<Longrightarrow> f \<in> set (rows d) \<Longrightarrow> row_of key (fl_Name f) (rows d) = Some f"
  using find_key [of "key \<circ> fl_Name" "rows d" f] wf_rows [of d] by (simp add: row_of_def)

lemma flag_step_update: "flag_step st (ORegisterOrUpdate ok f) = sync_RegisterOrUpdate st ok f"
  by (rule ext) simp

text \<open>What a manager that has just started looks like.\<close>

lemma started:
  assumes "inj_on key N" "names_of (rows d) \<subseteq> N" "wf d"
  shows "within N (snd (sync_Start st True oks (NewSyncManager d)))"
    and "n \<in> N \<Longrightarrow> agrees n (snd (sync_Start st True oks (NewSyncManager d)))"
proof -
  let ?ops = "map (\<lambda>f. ORegisterOrUpdate (oks f) f) (rows d)"
  have run: "snd (sync_Start st True oks (NewSyncManager d)) = flag_run st ?ops (NewSyncManager d)"
    by (simp add: sync_Start_def load NewSyncManager_def flag_run_def fold_map comp_def
        flag_step_update)
  have "within N (NewSyncManager d)"
    using assms by (simp add: within_def NewSyncManager_def NewManager_def names_match_def)
  then show "within N (snd (sync_Start st True oks (NewSyncManager d)))"
    unfolding run using assms(2) by (intro run_within) (auto simp: names_of_def)
  have "row_of key n (rows (sm_db (snd (sync_Start st True oks (NewSyncManager d))))) = row_of key n (rows d)"
    using start_rows [of "rows d" "NewSyncManager d" n oks] row_of_self [OF assms(3)]
    by (simp add: sync_Start_def load NewSyncManager_def)
  then show "n \<in> N \<Longrightarrow> agrees n (snd (sync_Start st True oks (NewSyncManager d)))"
    using fresh_start [OF assms(1) _ assms(2,3)] by (simp add: agrees_def)
qed

end

section \<open>The MySQL store keeps the contract\<close>

lemma find_filter_other:
  "find p (filter q t) = (if \<forall>x \<in> set t. p x \<longrightarrow> q x then find p t else find p (filter q t))"
  by (induction t) auto

lemma row_of_remove:
  "row_of key n (filter (\<lambda>r. key (fl_Name r) \<noteq> k) t) = (if key n = k then None else row_of key n t)"
  unfolding row_of_def by (induction t) auto

lemma row_of_append:
  "row_of key n (t @ [f]) = (case row_of key n t of Some r \<Rightarrow> Some r
     | None \<Rightarrow> if key (fl_Name f) = key n then Some f else None)"
  by (auto simp: row_of_def find_append split: option.split)

definition keyed :: "(string \<Rightarrow> string) \<Rightarrow> flag_table \<Rightarrow> bool" where
  "keyed key t \<longleftrightarrow> distinct (map (key \<circ> fl_Name) t)"

lemma keyed_filter: "keyed key t \<Longrightarrow> keyed key (filter p t)"
  by (simp add: keyed_def distinct_map_filter)

interpretation mysql: flag_store key "MySQLStore key" "\<lambda>t. t" "keyed key" for key
proof
  fix f :: Flag and d :: flag_table
  show "\<exists>d'. st_Save (MySQLStore key) True f d = (None, d') \<and> (keyed key d \<longrightarrow> keyed key d') \<and>
      (\<forall>n. row_of key n d' = (if key n = key (fl_Name f) then Some f else row_of key n d)) \<and>
      names_of d' \<subseteq> insert (fl_Name f) (names_of d)"
    using keyed_filter [of key d]
    by (auto simp: MySQLStore_def sql_Save_def row_of_append row_of_remove names_of_def
        split: option.split) (auto simp: keyed_def)
next
  fix n :: string and d :: flag_table
  show "\<exists>d'. st_Delete (MySQLStore key) True n d = (None, d') \<and> (keyed key d \<longrightarrow> keyed key d') \<and>
      (\<forall>n'. row_of key n' d' = (if key n' = key n then None else row_of key n' d)) \<and>
      names_of d' \<subseteq> names_of d"
    using keyed_filter [of key d] by (auto simp: MySQLStore_def sql_Delete_def row_of_remove names_of_def)
qed (auto simp: MySQLStore_def sql_Load_def sql_Save_def sql_Delete_def keyed_def)

section \<open>Properties\<close>

text \<open>The state of a manager over the MySQL store after it has started on table \<open>t\<close> and made the calls \<open>ops\<close>.\<close>

definition flags_after ::
  "(string \<Rightarrow> string) \<Rightarrow> (Flag \<Rightarrow> bool) \<Rightarrow> flag_table \<Rightarrow> flag_op list \<Rightarrow> flag_table syncManager" where
  "flags_after key oks t ops =
     flag_run (MySQLStore key) ops (snd (sync_Start (MySQLStore key) True oks (NewSyncManager t)))"

text \<open>C19: Flags survive a restart. Take the names \<open>N\<close>, no two of which the column's collation
  identifies. A manager starts on a table of these names, and any history of calls on them follows
  in which the statements of the calls about \<open>n\<close> reach the database; the statements of the other calls may fail,
  and so may the saves during both starts. A new manager that starts on the table that is then there
  has for \<open>n\<close> exactly the flag that the old one has in memory, or none if the old one has none.\<close>

theorem flags_survive_restart:
  assumes "inj_on key N" "n \<in> N" "names_of t \<subseteq> N" "keyed key t" "op_name ` set ops \<subseteq> N"
    and "\<forall>op \<in> set ops. op_name op = n \<longrightarrow> op_ok op"
  shows "GetFlag n (sm_flags (flags_after key oks' (sm_db (flags_after key oks t ops)) [])) =
    GetFlag n (sm_flags (flags_after key oks t ops))"
proof -
  let ?s0 = "snd (sync_Start (MySQLStore key) True oks (NewSyncManager t))"
  have "mysql.within key N ?s0" "mysql.agrees key n ?s0"
    using mysql.started assms by blast+
  then have w: "mysql.within key N (flags_after key oks t ops)"
      "mysql.agrees key n (flags_after key oks t ops)"
    unfolding flags_after_def using mysql.run_within mysql.run_agrees assms by blast+
  then have "sm_flags (snd (sync_Start (MySQLStore key) True oks' (NewSyncManager (sm_db (flags_after key oks t ops))))) n =
      row_of key n (sm_db (flags_after key oks t ops))"
    using mysql.fresh_start [OF assms(1,2)] by (auto simp: mysql.within_def)
  with w(2) show ?thesis
    by (simp add: mysql.agrees_def flags_after_def [of key oks'] flag_run_def GetFlag_def)
qed

definition demo_flag :: "string \<Rightarrow> bool \<Rightarrow> Flag" where
  "demo_flag n e = \<lparr>fl_Name = n, fl_Enabled = e, fl_Description = []\<rparr>"

lemma flags_survive_restart_witness:
  "GetFlag ''a'' (sm_flags (flags_after id (\<lambda>_. False)
       (sm_db (flags_after id (\<lambda>_. True) [demo_flag ''a'' False] [OEnable True ''a'', ODelete False ''b''])) [])) =
     Some (demo_flag ''a'' True)"
proof -
  have "GetFlag ''a'' (sm_flags (flags_after id (\<lambda>_. True) [demo_flag ''a'' False]
      [OEnable True ''a'', ODelete False ''b''])) = Some (demo_flag ''a'' True)"
    by code_simp
  moreover have "GetFlag ''a'' (sm_flags (flags_after id (\<lambda>_. False)
       (sm_db (flags_after id (\<lambda>_. True) [demo_flag ''a'' False] [OEnable True ''a'', ODelete False ''b''])) [])) =
    GetFlag ''a'' (sm_flags (flags_after id (\<lambda>_. True) [demo_flag ''a'' False] [OEnable True ''a'', ODelete False ''b'']))"
    by (rule flags_survive_restart [where N = UNIV]) (auto simp: keyed_def)
  ultimately show ?thesis by simp
qed

text \<open>A deletion whose statement fails cannot be repeated. The call reports the failed
  statement, but the flag is already gone from memory, so every later \<open>Delete\<close> of it (and every
  \<open>Enable\<close> and \<open>Disable\<close>) stops at "not found" without touching the database; after any history
  that does not register the name again, the next start brings the deleted flag back, as it was.\<close>

lemma failed_delete_resurrects:
  assumes "inj_on key N" "n \<in> N" "names_of t \<subseteq> N" "keyed key t" "r \<in> set t" "fl_Name r = n"
    and "op_name ` set ops \<subseteq> N" "\<forall>op \<in> set ops. op_name op = n \<longrightarrow> \<not> registers op"
    and sm: "sm = flags_after key oks t []"
    and sm1: "sync_Delete (MySQLStore key) False n sm = (e, sm1)"
    and sm2: "sm2 = flag_run (MySQLStore key) ops sm1"
  shows "e = Some (DeleteFailed n) \<and> GetFlag n (sm_flags sm2) = None \<and>
    sync_Delete (MySQLStore key) ok n sm2 = (Some (FlagNotFound n), sm2) \<and>
    GetFlag n (sm_flags (flags_after key oks' (sm_db sm2) [])) = Some r"
proof -
  have row: "row_of key n t = Some r"
    using mysql.row_of_self [where key = key and d = t and f = r] assms(4,5,6) by simp
  have w0: "mysql.within key N sm" and a0: "mysql.agrees key n sm"
    using mysql.started [OF assms(1,3,4), where oks = oks] assms(2) by (simp_all add: sm flags_after_def flag_run_def)
  have row0: "row_of key n (sm_db sm) = Some r"
    using mysql.start_rows [where fs = t and key = key and sm = "NewSyncManager t" and n = n and oks = oks] mysql.row_of_self [OF assms(4)] row
    by (simp add: sm flags_after_def flag_run_def sync_Start_def mysql.load NewSyncManager_def)
  then have m0: "sm_flags sm n = Some r" using a0 by (simp add: mysql.agrees_def)
  have e: "e = Some (DeleteFailed n)" and s1: "sm1 = \<lparr>sm_flags = (sm_flags sm)(n := None), sm_db = sm_db sm\<rparr>"
    using sm1 m0 by (simp_all add: sync_Delete_def DeleteFlag_def mysql.delete_err)
  have w1: "mysql.within key N sm1"
    using mysql.step_within [OF w0, of "ODelete False n"] assms(2) sm1 by simp
  have abs: "sm_flags sm2 n = None \<and> row_of key n (sm_db sm2) = Some r"
    unfolding sm2 using mysql.run_absent [OF w1 assms(1,2,7), of r] assms(8) row0 by (simp add: s1)
  have w2: "mysql.within key N sm2"
    unfolding sm2 using mysql.run_within [OF w1 assms(7)] .
  have "sm_flags (snd (sync_Start (MySQLStore key) True oks' (NewSyncManager (sm_db sm2)))) n = Some r"
    using mysql.fresh_start [OF assms(1,2)] w2 abs by (auto simp: mysql.within_def)
  with e abs show ?thesis
    by (simp add: sync_Delete_def DeleteFlag_def flags_after_def [of key oks'] flag_run_def GetFlag_def)
qed

lemma failed_delete_resurrects_witness:
  "let sm = flags_after id (\<lambda>_. True) [demo_flag ''a'' True] [];
       (e, sm1) = sync_Delete (MySQLStore id) False ''a'' sm;
       sm2 = flag_run (MySQLStore id) [ODelete True ''a''] sm1
   in e = Some (DeleteFailed ''a'') \<and> GetFlag ''a'' (sm_flags sm2) = None \<and>
     GetFlag ''a'' (sm_flags (flags_after id (\<lambda>_. True) (sm_db sm2) [])) = Some (demo_flag ''a'' True)"
proof -
  let ?t = "[demo_flag ''a'' True]"
  obtain e sm1 where d: "sync_Delete (MySQLStore id) False ''a'' (flags_after id (\<lambda>_. True) ?t []) = (e, sm1)"
    by fastforce
  have "inj_on id UNIV" "''a'' \<in> UNIV" "names_of ?t \<subseteq> UNIV" "keyed id ?t"
      "demo_flag ''a'' True \<in> set ?t" "fl_Name (demo_flag ''a'' True) = ''a''"
      "op_name ` set [ODelete True ''a''] \<subseteq> UNIV"
      "\<forall>op \<in> set [ODelete True ''a'']. op_name op = ''a'' \<longrightarrow> \<not> registers op"
    by (simp_all add: keyed_def demo_flag_def)
  note failed_delete_resurrects [OF this refl d refl, where oks' = "\<lambda>_. True"]
  with d show ?thesis by (simp add: Let_def)
qed

end
