(* ===== verification/AuditLog.thy ===== *)
theory AuditLog
  imports IdStore
begin

text \<open>
  The audit log: the in-memory store with its inverted indexes and the service of
  src/internal/services/audit/audit.go, and the statements of the SQL store of
  src/internal/services/audit/mysql.go.

  An index is a Go map from field values to sets of entry identifiers; \<^const>\<open>None\<close> is the nil map that
  \<open>Close\<close> leaves, which can be read but not written. The SQL table is the list of its rows in the
  order of their auto-increment identifiers, \<open>prec\<close> the rounding of the \<open>TIMESTAMP\<close> column.
\<close>

record Entry =
  en_ID :: nat
  en_Action :: string
  en_UserID :: string
  en_Username :: string
  en_Resource :: string
  en_Detail :: string
  en_ClientIP :: string
  en_Status :: string
  en_CreatedAt :: instant

record Filter =
  fi_Action :: string
  fi_UserID :: string
  fi_Resource :: string
  fi_Status :: string
  fi_StartTime :: instant
  fi_EndTime :: instant
  fi_Offset :: int
  fi_Limit :: int

type_synonym index = "(string \<rightharpoonup> nat set) option"

record MemoryStore =
  ms_log :: "Entry list"
  ms_nextID :: nat
  ms_idxAction :: index
  ms_idxUserID :: index
  ms_idxResource :: index
  ms_idxStatus :: index

definition NewMemoryStore :: MemoryStore where
  "NewMemoryStore = \<lparr>ms_log = [], ms_nextID = 0, ms_idxAction = Some Map.empty,
     ms_idxUserID = Some Map.empty, ms_idxResource = Some Map.empty, ms_idxStatus = Some Map.empty\<rparr>"

section \<open>Appending\<close>

text \<open>\<open>indexAdd\<close>: \<^const>\<open>None\<close> is the panic of a write to a nil map.\<close>

definition indexAdd :: "index \<Rightarrow> string \<Rightarrow> nat \<Rightarrow> index option" where
  "indexAdd idx k n = (if k = [] then Some idx else
     (case idx of
        None \<Rightarrow> None
      | Some m \<Rightarrow> Some (Some (m(k \<mapsto> insert n (case m k of Some s \<Rightarrow> s | None \<Rightarrow> {}))))))"

text \<open>\<open>Append\<close>: whether it panicked, and the store. The log is extended before the indexes are.\<close>

definition Append :: "Entry \<Rightarrow> MemoryStore \<Rightarrow> bool \<times> MemoryStore" where
  "Append entry m =
    (let n = Suc (ms_nextID m);
         e = entry\<lparr>en_ID := n\<rparr>;
         m1 = m\<lparr>ms_nextID := n, ms_log := ms_log m @ [e]\<rparr>
     in case indexAdd (ms_idxAction m1) (en_Action e) n of None \<Rightarrow> (True, m1) | Some ia \<Rightarrow>
       (let m2 = m1\<lparr>ms_idxAction := ia\<rparr>
        in case indexAdd (ms_idxUserID m2) (en_UserID e) n of None \<Rightarrow> (True, m2) | Some iu \<Rightarrow>
          (let m3 = m2\<lparr>ms_idxUserID := iu\<rparr>
           in case indexAdd (ms_idxResource m3) (en_Resource e) n of None \<Rightarrow> (True, m3) | Some ir \<Rightarrow>
             (let m4 = m3\<lparr>ms_idxResource := ir\<rparr>
              in case indexAdd (ms_idxStatus m4) (en_Status e) n of None \<Rightarrow> (True, m4) | Some ix \<Rightarrow>
                (False, m4\<lparr>ms_idxStatus := ix\<rparr>)))))"

definition CloseStore :: "MemoryStore \<Rightarrow> MemoryStore" where
  "CloseStore m = m\<lparr>ms_log := [], ms_idxAction := None, ms_idxUserID := None, ms_idxResource := None,
     ms_idxStatus := None\<rparr>"

section \<open>Querying\<close>

definition index_get :: "index \<Rightarrow> string \<Rightarrow> nat set" where
  "index_get idx k = (case idx of None \<Rightarrow> {} | Some m \<Rightarrow> (case m k of Some s \<Rightarrow> s | None \<Rightarrow> {}))"

definition matchTime :: "Entry \<Rightarrow> Filter \<Rightarrow> bool" where
  "matchTime e f =
    (if fi_StartTime f \<noteq> 0 \<and> en_CreatedAt e < fi_StartTime f then False
     else if fi_EndTime f \<noteq> 0 \<and> en_CreatedAt e > fi_EndTime f then False
     else True)"

text \<open>The sets of the conditions that are given; \<^const>\<open>None\<close> is the early return of an empty result.\<close>

fun query_sets :: "(string \<times> index) list \<Rightarrow> nat set list option" where
  "query_sets [] = Some []"
| "query_sets ((v, idx) # rest) =
    (if v = [] then query_sets rest
     else if index_get idx v = {} then None
     else map_option (\<lambda>ss. index_get idx v # ss) (query_sets rest))"

fun intersectSets :: "nat set list \<Rightarrow> nat set" where
  "intersectSets [] = {}"
| "intersectSets (s # ss) = {n \<in> s. \<forall>s' \<in> set ss. n \<in> s'}"

definition paginate :: "Filter \<Rightarrow> Entry list \<Rightarrow> Entry list" where
  "paginate f r =
    (let r1 = (if 0 < fi_Offset f \<and> fi_Offset f < int (length r) then drop (nat (fi_Offset f)) r else r)
     in if 0 < fi_Limit f \<and> fi_Limit f < int (length r1) then take (nat (fi_Limit f)) r1 else r1)"

definition Query :: "Filter \<Rightarrow> MemoryStore \<Rightarrow> Entry list" where
  "Query f m =
    (case query_sets [(fi_Action f, ms_idxAction m), (fi_UserID f, ms_idxUserID m),
                      (fi_Resource f, ms_idxResource m), (fi_Status f, ms_idxStatus m)] of
       None \<Rightarrow> []
     | Some sets \<Rightarrow> paginate f
         (if sets = [] then filter (\<lambda>e. matchTime e f) (ms_log m)
          else filter (\<lambda>e. matchTime e f) (filter (\<lambda>e. en_ID e \<in> intersectSets sets) (ms_log m))))"

section \<open>The service\<close>

definition audit_entry ::
  "instant \<Rightarrow> string \<Rightarrow> string \<Rightarrow> string \<Rightarrow> string \<Rightarrow> string \<Rightarrow> string \<Rightarrow> string \<Rightarrow> Entry" where
  "audit_entry now action userID username resource detail clientIP status =
    \<lparr>en_ID = 0, en_Action = action, en_UserID = userID, en_Username = username, en_Resource = resource,
     en_Detail = detail, en_ClientIP = clientIP, en_Status = status, en_CreatedAt = now\<rparr>"

definition Record where
  "Record now action userID username resource detail clientIP status m =
     Append (audit_entry now action userID username resource detail clientIP status) m"

definition RecordLogin where
  "RecordLogin now userID username clientIP status m =
     Record now ''login'' userID username ''auth'' [] clientIP status m"

definition RecordLogout where
  "RecordLogout now userID username clientIP m =
     Record now ''logout'' userID username ''auth'' [] clientIP ''success'' m"

definition RecordCreate where
  "RecordCreate now userID username resource detail m =
     Record now ''create'' userID username resource detail [] ''success'' m"

definition RecordUpdate where
  "RecordUpdate now userID username resource detail m =
     Record now ''update'' userID username resource detail [] ''success'' m"

definition RecordDelete where
  "RecordDelete now userID username resource detail m =
     Record now ''delete'' userID username resource detail [] ''success'' m"

definition RecordFailure where
  "RecordFailure now action userID resource detail m =
     Record now action userID [] resource detail [] ''failure'' m"

section \<open>The SQL store\<close>

record audit_table =
  at_rows :: "Entry list"
  at_auto :: nat

datatype audit_error = AppendFailed | QueryFailed

definition sql_Append ::
  "(instant \<Rightarrow> instant) \<Rightarrow> bool \<Rightarrow> Entry \<Rightarrow> audit_table \<Rightarrow> audit_error option \<times> audit_table" where
  "sql_Append prec ok e t =
    (if ok then
       (None, t\<lparr>at_rows := at_rows t @ [e\<lparr>en_ID := Suc (at_auto t), en_CreatedAt := prec (en_CreatedAt e)\<rparr>],
                at_auto := Suc (at_auto t)\<rparr>)
     else (Some AppendFailed, t))"

definition sql_where :: "Filter \<Rightarrow> Entry \<Rightarrow> bool" where
  "sql_where f e \<longleftrightarrow>
     (fi_Action f \<noteq> [] \<longrightarrow> en_Action e = fi_Action f) \<and>
     (fi_UserID f \<noteq> [] \<longrightarrow> en_UserID e = fi_UserID f) \<and>
     (fi_Resource f \<noteq> [] \<longrightarrow> en_Resource e = fi_Resource f) \<and>
     (fi_Status f \<noteq> [] \<longrightarrow> en_Status e = fi_Status f) \<and>
     (fi_StartTime f \<noteq> 0 \<longrightarrow> en_CreatedAt e \<ge> fi_StartTime f) \<and>
     (fi_EndTime f \<noteq> 0 \<longrightarrow> en_CreatedAt e \<le> fi_EndTime f)"

text \<open>\<open>ORDER BY id DESC\<close>, then \<open>LIMIT\<close> and \<open>OFFSET\<close>; an \<open>OFFSET\<close> without \<open>LIMIT\<close> is a syntax error.\<close>

definition sql_Query :: "bool \<Rightarrow> Filter \<Rightarrow> audit_table \<Rightarrow> audit_error + Entry list" where
  "sql_Query ok f t =
    (if \<not> ok \<or> (0 < fi_Offset f \<and> \<not> 0 < fi_Limit f) then Inl QueryFailed
     else let r = rev (filter (sql_where f) (at_rows t));
              r1 = (if 0 < fi_Offset f then drop (nat (fi_Offset f)) r else r)
          in Inr (if 0 < fi_Limit f then take (nat (fi_Limit f)) r1 else r1))"

section \<open>The identifiers\<close>

text \<open>\<open>Append\<close> is the creating call of the store contract, \<open>Close\<close> its only other call.\<close>

definition audit_create :: "Entry \<Rightarrow> MemoryStore \<Rightarrow> MemoryStore option" where
  "audit_create e m = Some (snd (Append e m))"

definition audit_edit :: "unit \<Rightarrow> MemoryStore \<Rightarrow> MemoryStore" where
  "audit_edit u m = CloseStore m"

lemma Append_log:
  "ms_log (snd (Append e m)) = ms_log m @ [e\<lparr>en_ID := Suc (ms_nextID m)\<rparr>]"
  "ms_nextID (snd (Append e m)) = Suc (ms_nextID m)"
  by (simp_all add: Append_def Let_def split: option.split)

interpretation audit: id_store ms_log ms_nextID en_ID audit_create audit_edit
  by unfold_locales (auto simp: audit_create_def audit_edit_def CloseStore_def Append_log)

section \<open>The indexes\<close>

text \<open>An open index holds, for every value but the empty one, the identifiers of the entries with that value.\<close>

definition index_ok :: "(Entry \<Rightarrow> string) \<Rightarrow> index \<Rightarrow> Entry list \<Rightarrow> bool" where
  "index_ok fld idx es \<longleftrightarrow> idx \<noteq> None \<and> (\<forall>v. v \<noteq> [] \<longrightarrow> index_get idx v = en_ID ` {e \<in> set es. fld e = v})"

definition open_ok :: "MemoryStore \<Rightarrow> bool" where
  "open_ok m \<longleftrightarrow> audit.ids_ok m \<and> index_ok en_Action (ms_idxAction m) (ms_log m) \<and>
     index_ok en_UserID (ms_idxUserID m) (ms_log m) \<and> index_ok en_Resource (ms_idxResource m) (ms_log m) \<and>
     index_ok en_Status (ms_idxStatus m) (ms_log m)"

lemma indexAdd_ok:
  assumes "index_ok fld idx es" "en_ID e = n"
  shows "\<exists>idx'. indexAdd idx (fld e) n = Some idx' \<and> index_ok fld idx' (es @ [e])"
proof (cases "fld e = []")
  case True
  have "{x \<in> set (es @ [e]). fld x = v} = {x \<in> set es. fld x = v}" if "v \<noteq> []" for v
    using True that by auto
  with True assms show ?thesis by (simp add: indexAdd_def index_ok_def)
next
  case False
  obtain m where m: "idx = Some m" using assms by (auto simp: index_ok_def)
  let ?m = "m(fld e \<mapsto> insert n (case m (fld e) of Some s \<Rightarrow> s | None \<Rightarrow> {}))"
  have "index_get (Some ?m) v = en_ID ` {x \<in> set (es @ [e]). fld x = v}" if "v \<noteq> []" for v
  proof -
    have "index_get (Some ?m) v = (if v = fld e then insert n (index_get idx v) else index_get idx v)"
      by (simp add: index_get_def m)
    moreover have "{x \<in> set (es @ [e]). fld x = v} =
        (if v = fld e then insert e {x \<in> set es. fld x = v} else {x \<in> set es. fld x = v})"
      by auto
    ultimately show ?thesis using assms that by (simp add: index_ok_def)
  qed
  with False m show ?thesis by (simp add: indexAdd_def index_ok_def)
qed

lemma new_open_ok: "open_ok NewMemoryStore"
  by (simp add: open_ok_def NewMemoryStore_def index_ok_def index_get_def audit.ids_ok_def)

lemma Append_open_ok:
  assumes "open_ok m"
  shows "\<not> fst (Append e m) \<and> open_ok (snd (Append e m))"
proof -
  let ?e = "e\<lparr>en_ID := Suc (ms_nextID m)\<rparr>"
  have ids: "audit.ids_ok (snd (Append e m))"
    using audit.create_ids_ok [of m e] assms by (simp add: open_ok_def audit_create_def)
  obtain ia where ia: "indexAdd (ms_idxAction m) (en_Action ?e) (Suc (ms_nextID m)) = Some ia"
      "index_ok en_Action ia (ms_log m @ [?e])"
    using indexAdd_ok [of en_Action _ "ms_log m" ?e] assms by (auto simp: open_ok_def)
  obtain iu where iu: "indexAdd (ms_idxUserID m) (en_UserID ?e) (Suc (ms_nextID m)) = Some iu"
      "index_ok en_UserID iu (ms_log m @ [?e])"
    using indexAdd_ok [of en_UserID _ "ms_log m" ?e] assms by (auto simp: open_ok_def)
  obtain ir where ir: "indexAdd (ms_idxResource m) (en_Resource ?e) (Suc (ms_nextID m)) = Some ir"
      "index_ok en_Resource ir (ms_log m @ [?e])"
    using indexAdd_ok [of en_Resource _ "ms_log m" ?e] assms by (auto simp: open_ok_def)
  obtain ix where ix: "indexAdd (ms_idxStatus m) (en_Status ?e) (Suc (ms_nextID m)) = Some ix"
      "index_ok en_Status ix (ms_log m @ [?e])"
    using indexAdd_ok [of en_Status _ "ms_log m" ?e] assms by (auto simp: open_ok_def)
  show ?thesis
    using ids ia iu ir ix by (simp add: Append_def Let_def open_ok_def)
qed

lemma index_member:
  assumes "index_ok fld idx es" "inj_on en_ID (set es)" "e \<in> set es" "v \<noteq> []"
  shows "en_ID e \<in> index_get idx v \<longleftrightarrow> fld e = v"
  using assms by (auto simp: index_ok_def dest: inj_onD)

lemma intersectSets_iff: "ss \<noteq> [] \<Longrightarrow> n \<in> intersectSets ss \<longleftrightarrow> (\<forall>s \<in> set ss. n \<in> s)"
  by (cases ss) auto

text \<open>The conditions of a query as triples: the wanted value, the index and the field it indexes.\<close>

lemma query_sets_None:
  assumes "query_sets (map (\<lambda>(v, idx, fld). (v, idx)) cs) = None"
    "\<forall>(v, idx, fld) \<in> set cs. index_ok fld idx es" "e \<in> set es"
  shows "\<not> (\<forall>(v, idx, fld) \<in> set cs. v = [] \<or> fld e = v)"
  using assms
proof (induction cs)
  case (Cons c cs)
  obtain v idx fld where c: "c = (v, idx, fld)" by (cases c)
  have "fld e \<noteq> v" if "v \<noteq> []" "index_get idx v = {}"
    using Cons.prems that by (auto simp: c index_ok_def)
  with Cons c show ?case by (auto split: if_splits)
qed simp

lemma query_sets_Some:
  assumes "query_sets (map (\<lambda>(v, idx, fld). (v, idx)) cs) = Some ss"
    "\<forall>(v, idx, fld) \<in> set cs. index_ok fld idx es" "inj_on en_ID (set es)" "e \<in> set es"
  shows "(\<forall>s \<in> set ss. en_ID e \<in> s) \<longleftrightarrow> (\<forall>(v, idx, fld) \<in> set cs. v = [] \<or> fld e = v)"
  using assms
proof (induction cs arbitrary: ss)
  case (Cons c cs)
  obtain v idx fld where c: "c = (v, idx, fld)" by (cases c)
  have "en_ID e \<in> index_get idx v \<longleftrightarrow> fld e = v" if "v \<noteq> []"
    using index_member Cons.prems that by (auto simp: c)
  with Cons c show ?case by (auto split: if_splits)
qed simp

definition wanted :: "Filter \<Rightarrow> Entry \<Rightarrow> bool" where
  "wanted f e \<longleftrightarrow> (fi_Action f = [] \<or> en_Action e = fi_Action f) \<and>
     (fi_UserID f = [] \<or> en_UserID e = fi_UserID f) \<and>
     (fi_Resource f = [] \<or> en_Resource e = fi_Resource f) \<and>
     (fi_Status f = [] \<or> en_Status e = fi_Status f) \<and> matchTime e f"

lemma Query_open:
  assumes "open_ok m"
  shows "Query f m = paginate f (filter (wanted f) (ms_log m))"
proof -
  let ?cs = "[(fi_Action f, ms_idxAction m, en_Action), (fi_UserID f, ms_idxUserID m, en_UserID),
    (fi_Resource f, ms_idxResource m, en_Resource), (fi_Status f, ms_idxStatus m, en_Status)] ::
    (string \<times> index \<times> (Entry \<Rightarrow> string)) list"
  let ?qs = "query_sets (map (\<lambda>(v, idx, fld). (v, idx)) ?cs)"
  have ok: "\<forall>(v, idx, fld) \<in> set ?cs. index_ok fld idx (ms_log m)"
    using assms by (simp add: open_ok_def)
  have inj: "inj_on en_ID (set (ms_log m))"
    using assms audit.ids_distinct [of m] by (simp add: open_ok_def distinct_map)
  have w: "wanted f e \<longleftrightarrow> (\<forall>(v, idx, fld) \<in> set ?cs. v = [] \<or> fld e = v) \<and> matchTime e f" for e
    by (auto simp: wanted_def)
  have q: "Query f m = (case ?qs of None \<Rightarrow> [] | Some sets \<Rightarrow> paginate f
         (if sets = [] then filter (\<lambda>e. matchTime e f) (ms_log m)
          else filter (\<lambda>e. matchTime e f) (filter (\<lambda>e. en_ID e \<in> intersectSets sets) (ms_log m))))"
    by (simp add: Query_def)
  show ?thesis
  proof (cases ?qs)
    case None
    have "\<not> wanted f e" if "e \<in> set (ms_log m)" for e
      unfolding w using query_sets_None [OF None ok that] by auto
    then have "filter (wanted f) (ms_log m) = []" by (simp add: filter_empty_conv)
    then show ?thesis unfolding q None by (simp add: paginate_def)
  next
    case (Some ss)
    have "wanted f e \<longleftrightarrow> (\<forall>s \<in> set ss. en_ID e \<in> s) \<and> matchTime e f" if "e \<in> set (ms_log m)" for e
      unfolding w by (simp only: query_sets_Some [OF Some ok inj that])
    then have *: "filter (wanted f) (ms_log m) =
        filter (\<lambda>e. (\<forall>s \<in> set ss. en_ID e \<in> s) \<and> matchTime e f) (ms_log m)"
      by (rule filter_cong [OF refl])
    show ?thesis
    proof (cases "ss = []")
      case True
      then show ?thesis unfolding q Some * by simp
    next
      case False
      then show ?thesis unfolding q Some * by (simp add: intersectSets_iff conj_commute)
    qed
  qed
qed

section \<open>Properties\<close>

text \<open>A history of records, from an empty store.\<close>

definition recorded :: "Entry list \<Rightarrow> MemoryStore" where
  "recorded es = fold (\<lambda>e m. snd (Append e m)) es NewMemoryStore"

definition sql_recorded :: "(instant \<Rightarrow> instant) \<Rightarrow> (bool \<times> Entry) list \<Rightarrow> audit_table" where
  "sql_recorded prec es = fold (\<lambda>(ok, e) t. snd (sql_Append prec ok e t)) es \<lparr>at_rows = [], at_auto = 0\<rparr>"

text \<open>The entries with the identifiers they get: 1, 2, and so on.\<close>

fun numbered :: "nat \<Rightarrow> Entry list \<Rightarrow> Entry list" where
  "numbered n [] = []"
| "numbered n (e # es) = e\<lparr>en_ID := Suc n\<rparr> # numbered (Suc n) es"

lemma recorded_from:
  "open_ok m \<Longrightarrow> open_ok (fold (\<lambda>e m. snd (Append e m)) es m) \<and>
     ms_log (fold (\<lambda>e m. snd (Append e m)) es m) = ms_log m @ numbered (ms_nextID m) es"
  by (induction es arbitrary: m) (simp_all add: Append_open_ok Append_log)

lemma recorded_ok: "open_ok (recorded es)" "ms_log (recorded es) = numbered 0 es"
  using recorded_from [OF new_open_ok, of es] by (simp_all add: recorded_def NewMemoryStore_def)

lemma sql_recorded_from:
  "at_rows (fold (\<lambda>(ok, e) t. snd (sql_Append prec ok e t)) es t) =
     at_rows t @ numbered (at_auto t) (map (\<lambda>(ok, e). e\<lparr>en_CreatedAt := prec (en_CreatedAt e)\<rparr>) (filter fst es))"
  by (induction es arbitrary: t) (auto simp: sql_Append_def)

text \<open>C20: The inverted indexes change nothing but the speed. After any history of records no
  append has panicked, and a query returns the page of exactly those entries, in the order they were recorded, whose
  given fields equal the filter's and whose time lies in the given bounds: the result of a plain
  scan of the log.\<close>

theorem indexed_query_is_scan:
  "Query f (recorded es) = paginate f (filter (wanted f) (numbered 0 es)) \<and>
   \<not> fst (Append e (recorded es))"
  using Query_open [OF recorded_ok(1)] Append_open_ok [OF recorded_ok(1)] by (simp add: recorded_ok(2))

lemma sql_where_wanted: "sql_where f e = wanted f e"
  by (auto simp: sql_where_def wanted_def matchTime_def)

lemma wanted_page [simp]:
  "wanted (f\<lparr>fi_Offset := x\<rparr>) = wanted f" "wanted (f\<lparr>fi_Limit := y\<rparr>) = wanted f"
  by (rule ext, simp add: wanted_def matchTime_def)+

lemma sql_Query_recorded:
  "0 < fi_Limit f \<Longrightarrow> sql_Query True f (sql_recorded id (map (Pair True) es)) =
    Inr (take (nat (fi_Limit f)) (drop (nat (fi_Offset f)) (rev (filter (wanted f) (numbered 0 es)))))"
proof -
  have "at_rows (sql_recorded id (map (Pair True) es)) = numbered 0 es"
    using sql_recorded_from [of id "map (Pair True) es" "\<lparr>at_rows = [], at_auto = 0\<rparr>"]
    by (simp add: sql_recorded_def filter_map comp_def)
  moreover assume "0 < fi_Limit f"
  ultimately show ?thesis by (auto simp: sql_Query_def Let_def sql_where_wanted [abs_def])
qed

lemma take_drop_rev:
  assumes "o' + k \<le> length xs"
  shows "take k (drop (length xs - o' - k) (rev xs)) = rev (take k (drop o' xs))"
proof -
  have "take k (rev (take (o' + k) xs)) = rev (drop o' (take (o' + k) xs))"
    using assms by (simp add: take_rev)
  with assms show ?thesis by (simp add: drop_rev drop_take)
qed

text \<open>The two audit stores answer the same page request with different pages. Over the same
  records, of which \<open>n\<close> match the filter, with \<open>Limit\<close> \<open>k\<close>: the in-memory store counts \<open>Offset\<close> from
  the oldest match, the SQL store from the newest, so the page at offset \<open>p\<close> of the one is the reversed
  page at offset \<open>n - p - k\<close> of the other; and past the last match the SQL store returns nothing, while the
  in-memory store ignores the offset and returns the first page again.\<close>

lemma audit_stores_page_differently:
  assumes n: "n = length (filter (wanted f) (numbered 0 es))"
    and k: "fi_Limit f = int k" "0 < k" and p: "fi_Offset f = int p"
    and t: "t = sql_recorded id (map (Pair True) es)"
  shows "(p + k \<le> n \<longrightarrow> sql_Query True (f\<lparr>fi_Offset := int (n - p - k)\<rparr>) t = Inr (rev (Query f (recorded es)))) \<and>
    (0 < p \<and> n \<le> p \<longrightarrow> sql_Query True f t = Inr [] \<and>
       Query f (recorded es) = Query (f\<lparr>fi_Offset := 0\<rparr>) (recorded es))"
proof -
  let ?W = "filter (wanted f) (numbered 0 es)"
  have q: "Query g (recorded es) = paginate g (filter (wanted g) (numbered 0 es))" for g
    using Query_open [OF recorded_ok(1)] by (simp add: recorded_ok(2))
  have "paginate f ?W = take k (drop p ?W)" if "p + k \<le> n"
    using that k p by (cases "p + k = n") (auto simp: paginate_def Let_def n)
  then have 1: "Query f (recorded es) = take k (drop p ?W)" if "p + k \<le> n"
    using that by (simp add: q)
  have 2: "sql_Query True (f\<lparr>fi_Offset := int m\<rparr>) t = Inr (take k (drop m (rev ?W)))" for m
    using k by (simp add: t sql_Query_recorded)
  have 3: "take k (drop (n - p - k) (rev ?W)) = rev (take k (drop p ?W))" if "p + k \<le> n"
    using take_drop_rev [of p k ?W] that by (simp add: n)
  have 4: "Query f (recorded es) = Query (f\<lparr>fi_Offset := 0\<rparr>) (recorded es)" if "n \<le> p"
    using that p by (simp add: q paginate_def Let_def n)
  have 5: "f\<lparr>fi_Offset := int p\<rparr> = f" using p by simp
  show ?thesis
    using 1 2 [of "n - p - k"] 3 4 2 [of p] unfolding 5 by (auto simp: n)
qed

definition demo_filter :: Filter where
  "demo_filter = \<lparr>fi_Action = ''login'', fi_UserID = [], fi_Resource = [], fi_Status = [],
     fi_StartTime = 0, fi_EndTime = 0, fi_Offset = 2, fi_Limit = 1\<rparr>"

definition demo_entries :: "Entry list" where
  "demo_entries = [audit_entry 1 ''login'' ''7'' [] [] [] [] [], audit_entry 2 ''logout'' ''7'' [] [] [] [] [],
     audit_entry 3 ''login'' ''8'' [] [] [] [] []]"

lemma audit_stores_page_differently_witness:
  "sql_Query True demo_filter (sql_recorded id (map (Pair True) demo_entries)) = Inr [] \<and>
   Query demo_filter (recorded demo_entries) = Query (demo_filter\<lparr>fi_Offset := 0\<rparr>) (recorded demo_entries)"
proof -
  have "length (filter (wanted demo_filter) (numbered 0 demo_entries)) = 2" by code_simp
  with audit_stores_page_differently [OF refl _ _ _ refl, of demo_filter 1 2 demo_entries]
  show ?thesis by (simp add: demo_filter_def)
qed

end
