(* ===== verification/Breakers.thy ===== *)
theory Breakers
  imports Prelude "HOL-Library.Word"
begin

text \<open>
  The two circuit breakers of the repository: src/pkg/net/breaker.go (atomic \<open>int32\<close> counters, a
  probing state that wants several successes) and src/internal/database/breaker.go (an \<open>int64\<close>
  counter), which guards every database connection through \<open>Run\<close>.

  Counters are machine words and compared as signed integers, as in the code. Each method is taken
  as one step: the interleaving of the atomic operations inside two concurrent calls is not modelled.
  The locale at the end states what a caller relies on, and both breakers interpret it.
\<close>

datatype cb_state = StateClosed | StateOpen | StateHalfOpen

section \<open>The breaker of the HTTP client\<close>

record CircuitBreakerConfig =
  cfg_FailureThreshold :: int
  cfg_SuccessThreshold :: int
  cfg_Timeout :: duration

definition DefaultCircuitBreakerConfig :: CircuitBreakerConfig where
  "DefaultCircuitBreakerConfig =
     \<lparr>cfg_FailureThreshold = 5, cfg_SuccessThreshold = 2, cfg_Timeout = 30000000000\<rparr>"

text \<open>\<open>nb_halfOpenDone\<close>: whether the channel of that name is not nil.\<close>

record NetBreaker =
  nb_state :: cb_state
  nb_failureCount :: "32 word"
  nb_successCount :: "32 word"
  nb_failureThreshold :: "32 word"
  nb_successThreshold :: "32 word"
  nb_timeout :: duration
  nb_lastFailure :: instant
  nb_halfOpenDone :: bool

definition NewCircuitBreaker :: "CircuitBreakerConfig \<Rightarrow> NetBreaker" where
  "NewCircuitBreaker cfg = \<lparr>nb_state = StateClosed, nb_failureCount = 0, nb_successCount = 0,
     nb_failureThreshold = word_of_int (cfg_FailureThreshold cfg),
     nb_successThreshold = word_of_int (cfg_SuccessThreshold cfg),
     nb_timeout = cfg_Timeout cfg, nb_lastFailure = 0, nb_halfOpenDone = False\<rparr>"

definition net_Allow :: "instant \<Rightarrow> NetBreaker \<Rightarrow> bool \<times> NetBreaker" where
  "net_Allow now cb = (case nb_state cb of
     StateClosed \<Rightarrow> (True, cb)
   | StateOpen \<Rightarrow>
       (if now - nb_lastFailure cb > nb_timeout cb
        then (True, cb\<lparr>nb_state := StateHalfOpen, nb_successCount := 0, nb_halfOpenDone := True\<rparr>)
        else (False, cb))
   | StateHalfOpen \<Rightarrow> (True, cb))"

definition net_Success :: "NetBreaker \<Rightarrow> NetBreaker" where
  "net_Success cb = (case nb_state cb of
     StateHalfOpen \<Rightarrow>
       (let count = nb_successCount cb + 1
        in if nb_successThreshold cb \<le>s count
           then cb\<lparr>nb_state := StateClosed, nb_failureCount := 0, nb_successCount := 0,
                   nb_halfOpenDone := False\<rparr>
           else cb\<lparr>nb_successCount := count\<rparr>)
   | StateClosed \<Rightarrow> cb\<lparr>nb_failureCount := 0\<rparr>
   | StateOpen \<Rightarrow> cb)"

definition net_Failure :: "instant \<Rightarrow> NetBreaker \<Rightarrow> NetBreaker" where
  "net_Failure now cb =
    (let count = nb_failureCount cb + 1
     in if nb_state cb = StateHalfOpen
        then cb\<lparr>nb_state := StateOpen, nb_lastFailure := now, nb_failureCount := 0, nb_halfOpenDone := False\<rparr>
        else if nb_failureThreshold cb \<le>s count \<and> nb_state cb = StateClosed
        then cb\<lparr>nb_failureCount := count, nb_state := StateOpen, nb_lastFailure := now\<rparr>
        else cb\<lparr>nb_failureCount := count\<rparr>)"

definition net_Reset :: "NetBreaker \<Rightarrow> NetBreaker" where
  "net_Reset cb = cb\<lparr>nb_state := StateClosed, nb_failureCount := 0, nb_successCount := 0\<rparr>"

section \<open>The breaker of the database connections\<close>

record DbBreaker =
  db_state :: cb_state
  db_failures :: "64 word"
  db_threshold :: "64 word"
  db_recoveryTTL :: duration
  db_lastFailure :: instant

definition NewDbBreaker :: "64 word \<Rightarrow> duration \<Rightarrow> DbBreaker" where
  "NewDbBreaker threshold recoveryTTL =
     \<lparr>db_state = StateClosed, db_failures = 0,
      db_threshold = (if threshold \<le>s 0 then 5 else threshold),
      db_recoveryTTL = (if recoveryTTL \<le> 0 then 30000000000 else recoveryTTL), db_lastFailure = 0\<rparr>"

definition db_Allow :: "instant \<Rightarrow> DbBreaker \<Rightarrow> bool \<times> DbBreaker" where
  "db_Allow now cb =
    (if db_state cb = StateOpen then
       (if now - db_lastFailure cb > db_recoveryTTL cb then (True, cb\<lparr>db_state := StateHalfOpen\<rparr>)
        else (False, cb))
     else (True, cb))"

definition db_Success :: "DbBreaker \<Rightarrow> DbBreaker" where
  "db_Success cb = cb\<lparr>db_state := StateClosed, db_failures := 0\<rparr>"

definition db_Failure :: "instant \<Rightarrow> DbBreaker \<Rightarrow> DbBreaker" where
  "db_Failure now cb =
    (let fails = db_failures cb + 1;
         cb1 = cb\<lparr>db_failures := fails, db_lastFailure := now\<rparr>
     in if db_threshold cb \<le>s fails then cb1\<lparr>db_state := StateOpen\<rparr> else cb1)"

text \<open>
  \<open>Run\<close> at instant \<open>now\<close>: \<open>fn\<close> is the guarded operation with the outcome it has when it is called,
  and the instant at which it returns.
\<close>

datatype 'e run_error = Rejected | FnError 'e

definition Run :: "instant \<Rightarrow> (instant \<times> 'e option) \<Rightarrow> DbBreaker \<Rightarrow> 'e run_error option \<times> DbBreaker" where
  "Run now fn cb =
    (case db_Allow now cb of
       (False, cb1) \<Rightarrow> (Some Rejected, cb1)
     | (True, cb1) \<Rightarrow> (case fn of
         (t, Some e) \<Rightarrow> (Some (FnError e), db_Failure t cb1)
       | (t, None) \<Rightarrow> (None, db_Success cb1)))"

section \<open>The step relation of the HTTP breaker\<close>

datatype cb_event = EAllow instant bool | ESuccess | EFailure instant | EReset

inductive net_step :: "NetBreaker \<Rightarrow> cb_event \<Rightarrow> NetBreaker \<Rightarrow> bool" where
  allow: "net_Allow t cb = (b, cb') \<Longrightarrow> net_step cb (EAllow t b) cb'"
| success: "net_step cb ESuccess (net_Success cb)"
| failure: "net_step cb (EFailure t) (net_Failure t cb)"
| reset: "net_step cb EReset (net_Reset cb)"

inductive_simps net_step_simps [simp]:
  "net_step cb (EAllow t b) cb'"
  "net_step cb ESuccess cb'"
  "net_step cb (EFailure t) cb'"
  "net_step cb EReset cb'"

inductive net_trace :: "NetBreaker \<Rightarrow> cb_event list \<Rightarrow> NetBreaker \<Rightarrow> bool" where
  start: "net_trace cb [] cb"
| step: "net_trace cb es cb' \<Longrightarrow> net_step cb' e cb'' \<Longrightarrow> net_trace cb (es @ [e]) cb''"

section \<open>What a caller relies on\<close>

text \<open>
  The contract of a breaker, over the failures it has counted: \<open>closed s n\<close> is closed with \<open>n\<close> failures
  in a row, \<open>opened s u n\<close> open since \<open>u\<close>, \<open>half s n\<close> probing. \<open>cap\<close> bounds the failures for which the
  counter of the code is exact.
\<close>

locale circuit_breaker =
  fixes allow :: "instant \<Rightarrow> 's \<Rightarrow> bool \<times> 's"
    and success :: "'s \<Rightarrow> 's"
    and failure :: "instant \<Rightarrow> 's \<Rightarrow> 's"
    and closed :: "'s \<Rightarrow> nat \<Rightarrow> bool"
    and opened :: "'s \<Rightarrow> instant \<Rightarrow> nat \<Rightarrow> bool"
    and half :: "'s \<Rightarrow> nat \<Rightarrow> bool"
    and thr :: nat and cap :: nat and timeout :: duration
  assumes closed_allow: "closed s n \<Longrightarrow> allow t s = (True, s)"
    and closed_success: "closed s n \<Longrightarrow> closed (success s) 0"
    and closed_failure: "closed s n \<Longrightarrow> Suc n < thr \<Longrightarrow> closed (failure t s) (Suc n)"
    and closed_trip: "closed s n \<Longrightarrow> thr \<le> Suc n \<Longrightarrow> opened (failure t s) t (Suc n)"
    and closed_bound: "closed s n \<Longrightarrow> n < thr"
    and open_reject: "opened s u n \<Longrightarrow> t - u \<le> timeout \<Longrightarrow> allow t s = (False, s)"
    and open_probe: "opened s u n \<Longrightarrow> t - u > timeout \<Longrightarrow> \<exists>s'. allow t s = (True, s') \<and> half s' n"
    and open_failure: "opened s u n \<Longrightarrow> n < cap \<Longrightarrow> u \<le> t \<Longrightarrow>
      \<exists>u'. u \<le> u' \<and> u' \<le> t \<and> opened (failure t s) u' (Suc n)"
    and half_failure: "half s n \<Longrightarrow> n < cap \<Longrightarrow> opened (failure t s) t (Suc n)"
begin

text \<open>
  A guarded call: the instant it asks \<open>allow\<close>, the instants of the failures it then reports (one per
  attempt) and whether it ends in a success. \<open>admitted\<close> counts the calls that are let through.
\<close>

definition guarded :: "instant \<times> instant list \<times> bool \<Rightarrow> 's \<Rightarrow> bool \<times> 's" where
  "guarded c s = (case c of (t, fs, ok) \<Rightarrow> (case allow t s of
     (False, s') \<Rightarrow> (False, s')
   | (True, s') \<Rightarrow> (True, if ok then success (fold failure fs s') else fold failure fs s')))"

fun admitted :: "(instant \<times> instant list \<times> bool) list \<Rightarrow> 's \<Rightarrow> nat" where
  "admitted [] s = 0"
| "admitted (c # cs) s = (case guarded c s of (b, s') \<Rightarrow> (if b then 1 else 0) + admitted cs s')"

lemma fold_opened:
  "opened s u n \<Longrightarrow> n + length fs \<le> cap \<Longrightarrow> sorted (u # fs) \<Longrightarrow>
   \<exists>u'. u \<le> u' \<and> u' \<le> last (u # fs) \<and> opened (fold failure fs s) u' (n + length fs)"
proof (induction fs arbitrary: s u n)
  case (Cons t fs)
  then obtain u1 where u1: "u \<le> u1" "u1 \<le> t" "opened (failure t s) u1 (Suc n)"
    using open_failure [of s u n t] by auto
  with Cons.prems have "sorted (u1 # fs)" by auto
  with Cons.IH [OF u1(3)] Cons.prems obtain u2 where
    u2: "u1 \<le> u2" "u2 \<le> last (u1 # fs)" "opened (fold failure fs (failure t s)) u2 (Suc n + length fs)"
    by auto
  have "last (u1 # fs) \<le> last (t # fs)" using u1(2) by simp
  with u1 u2 show ?case by (auto intro!: exI [of _ u2] split: if_splits)
qed auto

lemma fold_closed:
  "closed s n \<Longrightarrow> n + length fs \<le> cap \<Longrightarrow> sorted (t # fs) \<Longrightarrow>
   closed (fold failure fs s) (n + length fs) \<or>
   (\<exists>u. t \<le> u \<and> u \<le> last (t # fs) \<and> opened (fold failure fs s) u (n + length fs))"
proof (induction fs arbitrary: s n t)
  case (Cons t' fs)
  show ?case
  proof (cases "Suc n < thr")
    case True
    then have "closed (failure t' s) (Suc n)" using closed_failure Cons.prems by blast
    from Cons.IH [OF this, of t'] Cons.prems show ?thesis by auto
  next
    case False
    then have "opened (failure t' s) t' (Suc n)" using closed_trip Cons.prems by simp
    from fold_opened [OF this, of fs] Cons.prems show ?thesis by fastforce
  qed
qed simp

end

text \<open>An outage: calls in time order that all fail, at least once each. \<open>until\<close> is its last instant.\<close>

fun outage :: "instant \<Rightarrow> (instant \<times> instant list \<times> bool) list \<Rightarrow> bool" where
  "outage t0 [] = True"
| "outage t0 ((t, fs, ok) # cs) \<longleftrightarrow> t0 \<le> t \<and> \<not> ok \<and> fs \<noteq> [] \<and> sorted (t # fs) \<and> outage (last fs) cs"

fun until :: "instant \<Rightarrow> (instant \<times> instant list \<times> bool) list \<Rightarrow> instant" where
  "until t0 [] = t0"
| "until t0 ((t, fs, ok) # cs) = until (last fs) cs"

fun failures :: "(instant \<times> instant list \<times> bool) list \<Rightarrow> nat" where
  "failures [] = 0"
| "failures ((t, fs, ok) # cs) = length fs + failures cs"

lemma until_ge: "outage t0 cs \<Longrightarrow> t0 \<le> until t0 cs"
proof (induction t0 cs rule: outage.induct)
  case (2 t0 t fs ok cs)
  then have "t0 \<le> t" "t \<le> last fs" "last fs \<le> until (last fs) cs" by auto
  then have "t0 \<le> until (last fs) cs" by linarith
  then show ?case by simp
qed simp

context circuit_breaker
begin

lemma opened_load:
  "opened s u n \<Longrightarrow> u \<le> t0 \<Longrightarrow> outage t0 cs \<Longrightarrow> n + failures cs \<le> cap \<Longrightarrow> 0 \<le> timeout \<Longrightarrow>
   int (admitted cs s) * timeout \<le> until t0 cs - u"
proof (induction cs arbitrary: s u n t0)
  case (Cons c cs)
  obtain t fs ok where c: "c = (t, fs, ok)" by (cases c)
  have o: "t0 \<le> t" "\<not> ok" "fs \<noteq> []" "sorted (t # fs)" "outage (last fs) cs" using Cons.prems c by auto
  have tl: "t \<le> last fs" using o by auto
  show ?case
  proof (cases "t - u \<le> timeout")
    case True
    have "int (admitted cs s) * timeout \<le> until (last fs) cs - u"
      using Cons.IH [of s u n "last fs"] Cons.prems o tl c by auto
    with True c Cons.prems show ?thesis by (simp add: guarded_def open_reject)
  next
    case False
    then obtain s' where s': "allow t s = (True, s')" "half s' n"
      using open_probe Cons.prems(1) by (metis not_le)
    obtain f fs' where fs: "fs = f # fs'" using o by (cases fs) auto
    have "opened (failure f s') f (Suc n)" using half_failure s'(2) Cons.prems c fs by auto
    from fold_opened [OF this, of fs'] Cons.prems c fs o obtain u' where
      u': "f \<le> u'" "u' \<le> last fs" "opened (fold failure fs s') u' (n + length fs)" by auto
    have "int (admitted cs (fold failure fs s')) * timeout \<le> until (last fs) cs - u'"
      using Cons.IH [OF u'(3,2) o(5)] Cons.prems c by auto
    moreover have "u + timeout \<le> u'" using False u' o fs by auto
    ultimately show ?thesis using s' c o by (simp add: guarded_def algebra_simps)
  qed
qed simp

lemma outage_load:
  "closed s n \<Longrightarrow> outage t0 cs \<Longrightarrow> n + failures cs \<le> cap \<Longrightarrow> 0 \<le> timeout \<Longrightarrow>
   (int (admitted cs s) - int (thr - n)) * timeout \<le> until t0 cs - t0"
proof (induction cs arbitrary: s n t0)
  case Nil
  then show ?case using closed_bound by (simp add: mult_nonpos_nonneg)
next
  case (Cons c cs)
  obtain t fs ok where c: "c = (t, fs, ok)" by (cases c)
  have o: "t0 \<le> t" "\<not> ok" "fs \<noteq> []" "sorted (t # fs)" "outage (last fs) cs" using Cons.prems c by auto
  have tl: "t \<le> last fs" using o by auto
  have n: "n < thr" using closed_bound Cons.prems by blast
  let ?s = "fold failure fs s" and ?R = "int (admitted cs (fold failure fs s))"
  have adm: "admitted (c # cs) s = Suc (admitted cs ?s)"
    using Cons.prems c o by (simp add: guarded_def closed_allow)
  have cap: "n + length fs \<le> cap" "n + length fs + failures cs \<le> cap" using Cons.prems c by auto
  consider "closed ?s (n + length fs)" | u where "t \<le> u" "u \<le> last (t # fs)" "opened ?s u (n + length fs)"
    using fold_closed [OF Cons.prems(1) cap(1) o(4)] by blast
  then show ?case
  proof cases
    case 1
    have "(?R - int (thr - (n + length fs))) * timeout \<le> until (last fs) cs - last fs"
      using Cons.IH [OF 1 o(5) cap(2) Cons.prems(4)] .
    moreover have "1 + ?R - int (thr - n) \<le> ?R - int (thr - (n + length fs))"
      using n o(3) by (cases fs) auto
    then have "(1 + ?R - int (thr - n)) * timeout \<le> (?R - int (thr - (n + length fs))) * timeout"
      using Cons.prems(4) by (rule mult_right_mono)
    moreover have "t0 \<le> last fs" using o(1) tl by linarith
    ultimately have "(1 + ?R - int (thr - n)) * timeout \<le> until (last fs) cs - t0" by linarith
    then show ?thesis using adm c by simp
  next
    case (2 u)
    have "?R * timeout \<le> until (last fs) cs - u"
      using opened_load [OF 2(3) _ o(5) cap(2) Cons.prems(4)] 2(2) o(3) by simp
    moreover have "(1 + ?R - int (thr - n)) * timeout \<le> ?R * timeout"
      using n Cons.prems(4) by (intro mult_right_mono) auto
    ultimately have "(1 + ?R - int (thr - n)) * timeout \<le> until (last fs) cs - t0"
      using 2(1) o(1) by linarith
    then show ?thesis using adm c by simp
  qed
qed

end

section \<open>Both breakers keep the contract\<close>

lemma sint_inc:
  fixes w :: "'a::len word"
  assumes "0 \<le> sint w" "sint w + 1 < 2 ^ (LENGTH('a) - 1)"
  shows "sint (w + 1) = sint w + 1"
proof -
  have "w + 1 = word_of_int (sint w + 1)" by simp
  then have "sint (w + 1) = signed_take_bit (LENGTH('a) - 1) (sint w + 1)"
    by (metis sint_sbintrunc')
  then show ?thesis using assms by (simp add: signed_take_bit_int_eq_self)
qed

definition net_cfg :: "nat \<Rightarrow> duration \<Rightarrow> NetBreaker \<Rightarrow> bool" where
  "net_cfg thr tmo cb \<longleftrightarrow> 0 < thr \<and> int thr < 2 ^ 31 \<and> sint (nb_failureThreshold cb) = int thr \<and> nb_timeout cb = tmo"

definition net_closed :: "nat \<Rightarrow> duration \<Rightarrow> NetBreaker \<Rightarrow> nat \<Rightarrow> bool" where
  "net_closed thr tmo cb n \<longleftrightarrow> net_cfg thr tmo cb \<and> nb_state cb = StateClosed \<and>
     sint (nb_failureCount cb) = int n \<and> n < thr"

definition net_opened :: "nat \<Rightarrow> duration \<Rightarrow> NetBreaker \<Rightarrow> instant \<Rightarrow> nat \<Rightarrow> bool" where
  "net_opened thr tmo cb u n \<longleftrightarrow> net_cfg thr tmo cb \<and> nb_state cb = StateOpen \<and> nb_lastFailure cb = u"

definition net_half :: "nat \<Rightarrow> duration \<Rightarrow> NetBreaker \<Rightarrow> nat \<Rightarrow> bool" where
  "net_half thr tmo cb n \<longleftrightarrow> net_cfg thr tmo cb \<and> nb_state cb = StateHalfOpen"

lemmas net_views = net_closed_def net_opened_def net_half_def net_cfg_def
lemmas net_ops = net_Allow_def net_Success_def net_Failure_def net_Reset_def

lemma net_count: "net_closed thr tmo cb n \<Longrightarrow> sint (nb_failureCount cb + 1) = int (Suc n)"
  using sint_inc [of "nb_failureCount cb"] by (simp add: net_views)

interpretation net: circuit_breaker net_Allow net_Success net_Failure "net_closed thr tmo"
  "net_opened thr tmo" "net_half thr tmo" thr cap tmo for thr cap tmo
proof
  fix cb n t
  assume *: "net_closed thr tmo cb n"
  show "Suc n < thr \<Longrightarrow> net_closed thr tmo (net_Failure t cb) (Suc n)"
    using * net_count [OF *] by (simp add: net_views net_Failure_def word_sle_eq Let_def)
  show "thr \<le> Suc n \<Longrightarrow> net_opened thr tmo (net_Failure t cb) t (Suc n)"
    using * net_count [OF *] by (simp add: net_views net_Failure_def word_sle_eq Let_def)
qed (auto simp: net_views net_Allow_def net_Success_def net_Failure_def Let_def)

definition db_cfg :: "nat \<Rightarrow> duration \<Rightarrow> DbBreaker \<Rightarrow> bool" where
  "db_cfg thr tmo cb \<longleftrightarrow> 0 < thr \<and> int thr < 2 ^ 63 \<and> sint (db_threshold cb) = int thr \<and> db_recoveryTTL cb = tmo"

definition db_closed :: "nat \<Rightarrow> duration \<Rightarrow> DbBreaker \<Rightarrow> nat \<Rightarrow> bool" where
  "db_closed thr tmo cb n \<longleftrightarrow> db_cfg thr tmo cb \<and> db_state cb = StateClosed \<and> sint (db_failures cb) = int n \<and> n < thr"

definition db_opened :: "nat \<Rightarrow> duration \<Rightarrow> DbBreaker \<Rightarrow> instant \<Rightarrow> nat \<Rightarrow> bool" where
  "db_opened thr tmo cb u n \<longleftrightarrow> db_cfg thr tmo cb \<and> db_state cb = StateOpen \<and> db_lastFailure cb = u \<and>
     sint (db_failures cb) = int n \<and> thr \<le> n"

definition db_half :: "nat \<Rightarrow> duration \<Rightarrow> DbBreaker \<Rightarrow> nat \<Rightarrow> bool" where
  "db_half thr tmo cb n \<longleftrightarrow> db_cfg thr tmo cb \<and> db_state cb = StateHalfOpen \<and> sint (db_failures cb) = int n \<and> thr \<le> n"

lemmas db_views = db_closed_def db_opened_def db_half_def db_cfg_def

definition db_cap :: nat where
  "db_cap = 9223372036854775807"

lemma db_count:
  "sint (db_failures cb) = int n \<Longrightarrow> n < db_cap \<Longrightarrow> sint (db_failures cb + 1) = int (Suc n)"
  using sint_inc [of "db_failures cb"] by (simp add: db_cap_def)

interpretation db: circuit_breaker db_Allow db_Success db_Failure "db_closed thr tmo"
  "db_opened thr tmo" "db_half thr tmo" thr db_cap tmo for thr tmo
proof
  fix cb n t
  assume *: "db_closed thr tmo cb n"
  then have n: "n < db_cap" by (simp add: db_views db_cap_def)
  note count = db_count [of cb n]
  show "Suc n < thr \<Longrightarrow> db_closed thr tmo (db_Failure t cb) (Suc n)"
    using * count n by (simp add: db_views db_Failure_def word_sle_eq Let_def)
  show "thr \<le> Suc n \<Longrightarrow> db_opened thr tmo (db_Failure t cb) t (Suc n)"
    using * count n by (simp add: db_views db_Failure_def word_sle_eq Let_def)
next
  fix cb u n t
  assume *: "db_opened thr tmo cb u n" "n < db_cap" "u \<le> t"
  have "db_opened thr tmo (db_Failure t cb) t (Suc n)"
    using * db_count [of cb n] by (simp add: db_views db_Failure_def word_sle_eq Let_def)
  with * show "\<exists>u'. u \<le> u' \<and> u' \<le> t \<and> db_opened thr tmo (db_Failure t cb) u' (Suc n)" by blast
next
  fix cb n t
  assume "db_half thr tmo cb n" "n < db_cap"
  then show "db_opened thr tmo (db_Failure t cb) t (Suc n)"
    using db_count [of cb n] by (simp add: db_views db_Failure_def word_sle_eq Let_def)
qed (auto simp: db_views db_Allow_def db_Success_def)

section \<open>Properties\<close>

text \<open>
  A sequence of \<open>Run\<close> calls: the instant of the call, the instant at which the guarded operation
  would return, and its error if it has one. The result counts the calls that reached the operation.
\<close>

fun run_all :: "(instant \<times> instant \<times> 'e option) list \<Rightarrow> DbBreaker \<Rightarrow> 'e run_error option list" where
  "run_all [] cb = []"
| "run_all ((t, t', r) # cs) cb = (case Run t (t', r) cb of (res, cb') \<Rightarrow> res # run_all cs cb')"

definition reached :: "'e run_error option list \<Rightarrow> nat" where
  "reached rs = length (filter (\<lambda>r. r \<noteq> Some Rejected) rs)"

fun in_order :: "instant \<Rightarrow> (instant \<times> instant \<times> 'e option) list \<Rightarrow> bool" where
  "in_order t0 [] = True"
| "in_order t0 ((t, t', r) # cs) \<longleftrightarrow> t0 \<le> t \<and> t \<le> t' \<and> in_order t' cs"

fun ends_at :: "instant \<Rightarrow> (instant \<times> instant \<times> 'e option) list \<Rightarrow> instant" where
  "ends_at t0 [] = t0"
| "ends_at t0 ((t, t', r) # cs) = ends_at t' cs"

definition as_guarded :: "instant \<times> instant \<times> 'e option \<Rightarrow> instant \<times> instant list \<times> bool" where
  "as_guarded c = (case c of (t, t', r) \<Rightarrow> (t, [t'], False))"

lemma run_all_admitted:
  "\<forall>(t, t', r) \<in> set cs. r \<noteq> None \<Longrightarrow> reached (run_all cs cb) = db.admitted (map as_guarded cs) cb"
proof (induction cs arbitrary: cb)
  case (Cons c cs)
  obtain t t' r where c: "c = (t, t', r)" by (cases c)
  with Cons show ?case
    by (auto simp: Run_def reached_def db.guarded_def as_guarded_def split: prod.splits bool.splits)
qed (simp add: reached_def)

lemma in_order_outage:
  "in_order t0 cs \<Longrightarrow> outage t0 (map as_guarded cs) \<and> until t0 (map as_guarded cs) = ends_at t0 cs \<and>
     failures (map as_guarded cs) = length cs"
  by (induction t0 cs rule: in_order.induct) (auto simp: as_guarded_def)

definition eff_threshold :: "64 word \<Rightarrow> nat" where
  "eff_threshold w = (if w \<le>s 0 then 5 else nat (sint w))"

definition eff_ttl :: "duration \<Rightarrow> duration" where
  "eff_ttl d = (if d \<le> 0 then 30000000000 else d)"

lemma NewDbBreaker_closed:
  "db_closed (eff_threshold w) (eff_ttl d) (NewDbBreaker w d) 0"
proof (cases "w \<le>s 0")
  case True
  then show ?thesis by (simp add: db_views NewDbBreaker_def eff_threshold_def eff_ttl_def)
next
  case False
  then have "0 < sint w" by (simp add: word_sle_eq)
  moreover have "sint w < 2 ^ 63" using sint_lt [of w] by simp
  ultimately show ?thesis using False by (simp add: db_views NewDbBreaker_def eff_threshold_def eff_ttl_def)
qed

text \<open>C17: The breaker sheds the load of an outage. Calls are made through a new breaker, one after the other,
  from instant \<open>t0\<close> on, and the guarded operation always fails. Then at most
  \<open>threshold + duration of the outage / recovery time\<close> calls reach it, whatever the number of
  calls and their timing: beyond the first \<open>threshold\<close>, one probe per recovery time.\<close>

theorem breaker_sheds_load:
  assumes "\<forall>(t, t', r) \<in> set cs. r \<noteq> None" "in_order t0 cs" "length cs < 2 ^ 63"
  shows "(int (reached (run_all cs (NewDbBreaker w d))) - int (eff_threshold w)) * eff_ttl d \<le> ends_at t0 cs - t0"
proof -
  note o = in_order_outage [OF assms(2)]
  have "(int (db.admitted (map as_guarded cs) (NewDbBreaker w d)) - int (eff_threshold w - 0)) * eff_ttl d
      \<le> until t0 (map as_guarded cs) - t0"
    by (rule db.outage_load [OF NewDbBreaker_closed])
      (use o assms(3) in \<open>auto simp: db_cap_def eff_ttl_def\<close>)
  with o show ?thesis by (simp add: run_all_admitted [OF assms(1)])
qed

lemma breaker_sheds_load_witness:
  "(int (reached (run_all [(0, 1, Some ()), (2, 3, Some ()), (4, 5, Some ()), (50, 51, Some ())] (NewDbBreaker 2 40)))
     - int (eff_threshold 2)) * eff_ttl 40 \<le> 51 - 0 \<and>
   run_all [(0, 1, Some ()), (2, 3, Some ()), (4, 5, Some ()), (50, 51, Some ())] (NewDbBreaker 2 40) =
     [Some (FnError ()), Some (FnError ()), Some Rejected, Some (FnError ())]"
proof
  show "(int (reached (run_all [(0, 1, Some ()), (2, 3, Some ()), (4, 5, Some ()), (50, 51, Some ())] (NewDbBreaker 2 40)))
     - int (eff_threshold 2)) * eff_ttl 40 \<le> 51 - 0"
    using breaker_sheds_load [of "[(0, 1, Some ()), (2, 3, Some ()), (4, 5, Some ()), (50, 51, Some ())]" 0 2 40]
    by simp
qed code_simp

text \<open>What the HTTP breaker has been through since it was open.\<close>

definition since_open :: "int \<Rightarrow> duration \<Rightarrow> instant \<Rightarrow> cb_event list \<Rightarrow> NetBreaker \<Rightarrow> bool" where
  "since_open thr tmo u fs cb \<longleftrightarrow>
     sint (nb_successThreshold cb) = thr \<and> nb_timeout cb = tmo \<and>
     (nb_state cb = StateOpen \<and> nb_lastFailure cb = u \<or> (\<exists>t. EAllow t True \<in> set fs \<and> t - u > tmo)) \<and>
     (nb_state cb = StateHalfOpen \<longrightarrow>
        0 \<le> sint (nb_successCount cb) \<and> sint (nb_successCount cb) < thr \<and>
        sint (nb_successCount cb) \<le> int (count_list fs ESuccess)) \<and>
     (nb_state cb = StateClosed \<longrightarrow> thr \<le> int (count_list fs ESuccess))"

lemma since_open_step:
  assumes "since_open thr tmo u fs cb" "net_step cb e cb'" "e \<noteq> EReset" "0 < thr" "thr < 2 ^ 31"
  shows "since_open thr tmo u (fs @ [e]) cb'"
proof (cases e)
  case (EAllow t b)
  with assms show ?thesis
    by (cases "nb_state cb") (auto simp: since_open_def net_Allow_def split: if_splits)
next
  case ESuccess
  have "sint (nb_successCount cb + 1) = sint (nb_successCount cb) + 1" if "nb_state cb = StateHalfOpen"
    using that assms sint_inc [of "nb_successCount cb"] by (auto simp: since_open_def)
  with ESuccess assms show ?thesis
    by (cases "nb_state cb") (auto simp: since_open_def net_Success_def Let_def word_sle_eq)
next
  case (EFailure t)
  with assms show ?thesis
    by (cases "nb_state cb") (auto simp: since_open_def net_Failure_def Let_def)
qed (use assms in simp)

lemma since_open_trace:
  "net_trace cb fs cb' \<Longrightarrow> EReset \<notin> set fs \<Longrightarrow> 0 < thr \<Longrightarrow> thr < 2 ^ 31 \<Longrightarrow> nb_state cb = StateOpen \<Longrightarrow>
   sint (nb_successThreshold cb) = thr \<Longrightarrow>
   since_open thr (nb_timeout cb) (nb_lastFailure cb) fs cb'"
proof (induction rule: net_trace.induct)
  case (start cb)
  then show ?case by (simp add: since_open_def)
next
  case (step cb es cb' e cb'')
  then have "since_open thr (nb_timeout cb) (nb_lastFailure cb) es cb'" by simp
  from since_open_step [OF this step.hyps(2)] step.prems show ?case by auto
qed

lemma trace_config:
  "net_trace cb es cb' \<Longrightarrow> nb_successThreshold cb' = nb_successThreshold cb \<and> nb_timeout cb' = nb_timeout cb"
proof (induction rule: net_trace.induct)
  case (step cb es cb' e cb'')
  then show ?case
    by (cases e) (auto simp: net_ops Let_def split: cb_state.splits if_splits)
qed simp

text \<open>An open HTTP breaker closes only after it has probed. Take any reachable state in which
  the breaker is open, and any sequence of method calls without \<open>Reset\<close> after which it is closed
  again. Then at least \<open>SuccessThreshold\<close> successes were reported in between, and a request was
  admitted more than \<open>Timeout\<close> after the failure that had opened it.\<close>

lemma recovery_needs_probes:
  assumes cfg: "0 < cfg_SuccessThreshold cfg" "cfg_SuccessThreshold cfg < 2 ^ 31"
    and reach: "net_trace (NewCircuitBreaker cfg) es cb" and op: "nb_state cb = StateOpen"
    and run: "net_trace cb fs cb'" "EReset \<notin> set fs" and cl: "nb_state cb' = StateClosed"
  shows "cfg_SuccessThreshold cfg \<le> int (count_list fs ESuccess) \<and>
    (\<exists>t. EAllow t True \<in> set fs \<and> t - nb_lastFailure cb > cfg_Timeout cfg)"
proof -
  have "sint (word_of_int (cfg_SuccessThreshold cfg) :: 32 word) = cfg_SuccessThreshold cfg"
    using cfg by (simp add: sint_sbintrunc' signed_take_bit_int_eq_self)
  then have "sint (nb_successThreshold cb) = cfg_SuccessThreshold cfg" "nb_timeout cb = cfg_Timeout cfg"
    using trace_config [OF reach] by (simp_all add: NewCircuitBreaker_def)
  with since_open_trace [OF run cfg op] cl show ?thesis by (auto simp: since_open_def)
qed

definition demo_cfg :: CircuitBreakerConfig where
  "demo_cfg = \<lparr>cfg_FailureThreshold = 1, cfg_SuccessThreshold = 2, cfg_Timeout = 10\<rparr>"

lemma recovery_needs_probes_witness:
  "let cb = net_Failure 5 (NewCircuitBreaker demo_cfg);
       fs = [EAllow 20 True, ESuccess, ESuccess]
   in nb_state cb = StateOpen \<and> cfg_SuccessThreshold demo_cfg \<le> int (count_list fs ESuccess) \<and>
      (\<exists>t. EAllow t True \<in> set fs \<and> t - nb_lastFailure cb > cfg_Timeout demo_cfg)"
proof -
  let ?cb = "net_Failure 5 (NewCircuitBreaker demo_cfg)"
  let ?cb1 = "snd (net_Allow 20 ?cb)"
  let ?cb3 = "net_Success (net_Success ?cb1)"
  have f: "net_trace (NewCircuitBreaker demo_cfg) [EFailure 5] ?cb"
    using net_trace.step [OF net_trace.start, of "NewCircuitBreaker demo_cfg" "EFailure 5" ?cb] by simp
  have a: "fst (net_Allow 20 ?cb)" "nb_state ?cb = StateOpen" "nb_state ?cb3 = StateClosed"
    by code_simp+
  then have "net_step ?cb (EAllow 20 True) ?cb1" by (simp add: prod_eq_iff)
  from net_trace.step [OF net_trace.step [OF net_trace.step [OF net_trace.start this] success] success]
  have "net_trace ?cb [EAllow 20 True, ESuccess, ESuccess] ?cb3" by simp
  with f have "cfg_SuccessThreshold demo_cfg \<le> int (count_list [EAllow 20 True, ESuccess, ESuccess] ESuccess) \<and>
      (\<exists>t. EAllow t True \<in> set [EAllow 20 True, ESuccess, ESuccess] \<and> t - nb_lastFailure ?cb > cfg_Timeout demo_cfg)"
    using a by (intro recovery_needs_probes) (auto simp: demo_cfg_def)
  with a show ?thesis by (simp add: Let_def)
qed

end
