(* ===== verification/HttpClient.thy ===== *)
theory HttpClient
  imports Breakers
begin

text \<open>
  Retrying: \<open>Retry\<close> and its back-off of src/pkg/net/retry.go, and the request loop of the HTTP client,
  \<open>do\<close> of src/pkg/net/http.go, with the circuit breaker it consults and reports to.

  The outside world is an argument: what the attempt with index \<open>i\<close> meets on the network (\<open>net i\<close>),
  at which instant its failure is reported (\<open>at i\<close>), and whether the context ends the wait before it
  (\<open>ctx i\<close>). Random jitter is an argument too. Durations are exact integers; the code computes
  the HTTP back-off in \<open>float64\<close>, which is exact up to \<open>2^53\<close> nanoseconds (104 days).
\<close>

section \<open>Retry\<close>

datatype BackoffStrategy = BackoffFixed | BackoffExponential | BackoffExponentialWithJitter | BackoffOther

record RetryConfig =
  rc_MaxAttempts :: int
  rc_Strategy :: BackoffStrategy
  rc_BaseWait :: duration
  rc_MaxWait :: duration

definition DefaultRetryConfig :: RetryConfig where
  "DefaultRetryConfig = \<lparr>rc_MaxAttempts = 3, rc_Strategy = BackoffExponentialWithJitter,
     rc_BaseWait = 500000000, rc_MaxWait = 30000000000\<rparr>"

text \<open>\<open>1 << uint(attempt-1)\<close> on 64 bits, and the product with the base, which wraps.\<close>

definition shl1 :: "nat \<Rightarrow> int" where
  "shl1 k = i64 (2 ^ k)"

definition calculateBackoff :: "RetryConfig \<Rightarrow> nat \<Rightarrow> duration \<Rightarrow> duration" where
  "calculateBackoff cfg attempt jitter =
    (let wait = i64 (rc_BaseWait cfg * shl1 (attempt - 1));
         wait' = (if wait > rc_MaxWait cfg then rc_MaxWait cfg else wait)
     in case rc_Strategy cfg of
          BackoffFixed \<Rightarrow> rc_BaseWait cfg
        | BackoffExponential \<Rightarrow> wait'
        | BackoffExponentialWithJitter \<Rightarrow> i64 (wait' + jitter)
        | BackoffOther \<Rightarrow> rc_BaseWait cfg)"

text \<open>
  \<open>RExhausted n e\<close> is the final error, wrapping the last error, which is \<^const>\<open>None\<close> (nil) when \<open>fn\<close> was
  never called. The state of \<open>fn\<close> is threaded through; the list collects the waits that were begun.
\<close>

datatype 'e retry_result = ROk | RCtx | RExhausted int "'e option"

fun retry_loop ::
  "nat \<Rightarrow> nat \<Rightarrow> RetryConfig \<Rightarrow> (nat \<Rightarrow> bool) \<Rightarrow> (nat \<Rightarrow> duration) \<Rightarrow> ('s \<Rightarrow> 'e option \<times> 's) \<Rightarrow> 'e option \<Rightarrow> 's \<Rightarrow>
   'e retry_result \<times> duration list \<times> 's" where
  "retry_loop 0 attempt cfg ctx jit fn lastErr s = (RExhausted (rc_MaxAttempts cfg) lastErr, [], s)"
| "retry_loop (Suc n) attempt cfg ctx jit fn lastErr s =
    (let w = (if attempt > 0 then [calculateBackoff cfg attempt (jit attempt)] else [])
     in if attempt > 0 \<and> ctx attempt then (RCtx, w, s)
        else case fn s of
          (Some e, s') \<Rightarrow> (case retry_loop n (Suc attempt) cfg ctx jit fn (Some e) s' of
             (r, ws, s'') \<Rightarrow> (r, w @ ws, s''))
        | (None, s') \<Rightarrow> (ROk, w, s'))"

definition Retry ::
  "(nat \<Rightarrow> bool) \<Rightarrow> (nat \<Rightarrow> duration) \<Rightarrow> RetryConfig \<Rightarrow> ('s \<Rightarrow> 'e option \<times> 's) \<Rightarrow> 's \<Rightarrow>
   'e retry_result \<times> duration list \<times> 's" where
  "Retry ctx jit cfg fn s = retry_loop (nat (rc_MaxAttempts cfg)) 0 cfg ctx jit fn None s"

section \<open>The HTTP client\<close>

record HTTPConfig =
  hc_RetryMax :: int
  hc_RetryWaitMin :: duration
  hc_RetryWaitMax :: duration

definition DefaultHTTPConfig :: HTTPConfig where
  "DefaultHTTPConfig = \<lparr>hc_RetryMax = 3, hc_RetryWaitMin = 500000000, hc_RetryWaitMax = 5000000000\<rparr>"

record 'b HTTPResponse =
  hr_StatusCode :: int
  hr_Body :: 'b

text \<open>What an attempt meets: a transport error, an error while the body is read, or a response.\<close>

datatype 'b attempt = TransportErr string | BodyErr string | Resp "'b HTTPResponse"

datatype http_error =
  ErrCircuitOpen
| ErrContext
| ErrTransport string
| ErrReadBody string
| ErrServer int
| ErrExhausted int "http_error option"

definition calcBackoff :: "HTTPConfig \<Rightarrow> nat \<Rightarrow> duration \<Rightarrow> duration" where
  "calcBackoff cfg attempt jitter =
    (let wait = hc_RetryWaitMin cfg * shl1 (attempt - 1)
     in (if wait > hc_RetryWaitMax cfg then hc_RetryWaitMax cfg else wait) + jitter)"

definition report_failure :: "instant \<Rightarrow> NetBreaker option \<Rightarrow> NetBreaker option" where
  "report_failure now br = map_option (net_Failure now) br"

definition report_success :: "NetBreaker option \<Rightarrow> NetBreaker option" where
  "report_success br = map_option net_Success br"

text \<open>The loop of \<open>do\<close>, from attempt \<open>i\<close> on, with \<open>n\<close> attempts left: \<open>i < RetryMax\<close> is \<open>1 < n\<close>.\<close>

fun do_loop ::
  "nat \<Rightarrow> nat \<Rightarrow> HTTPConfig \<Rightarrow> (nat \<Rightarrow> bool) \<Rightarrow> (nat \<Rightarrow> instant) \<Rightarrow> (nat \<Rightarrow> 'b attempt) \<Rightarrow> http_error option \<Rightarrow>
   NetBreaker option \<Rightarrow> (http_error + 'b HTTPResponse) \<times> NetBreaker option" where
  "do_loop 0 i cfg ctx at net lastErr br = (Inl (ErrExhausted (hc_RetryMax cfg) lastErr), br)"
| "do_loop (Suc n) i cfg ctx at net lastErr br =
    (if i > 0 \<and> ctx i then (Inl ErrContext, br)
     else case net i of
       TransportErr e \<Rightarrow> do_loop n (Suc i) cfg ctx at net (Some (ErrTransport e)) (report_failure (at i) br)
     | BodyErr e \<Rightarrow> do_loop n (Suc i) cfg ctx at net (Some (ErrReadBody e)) (report_failure (at i) br)
     | Resp r \<Rightarrow>
         if hr_StatusCode r \<ge> 500 \<and> 0 < n
         then do_loop n (Suc i) cfg ctx at net (Some (ErrServer (hr_StatusCode r))) (report_failure (at i) br)
         else (Inr r, report_success br))"

text \<open>One request: the instant at which \<open>Allow\<close> is asked, and the outside world of its attempts.\<close>

record 'b request =
  rq_now :: instant
  rq_ctx :: "nat \<Rightarrow> bool"
  rq_at :: "nat \<Rightarrow> instant"
  rq_net :: "nat \<Rightarrow> 'b attempt"

definition http_do ::
  "HTTPConfig \<Rightarrow> 'b request \<Rightarrow> NetBreaker option \<Rightarrow> (http_error + 'b HTTPResponse) \<times> NetBreaker option" where
  "http_do cfg rq br =
    (let go = do_loop (nat (hc_RetryMax cfg + 1)) 0 cfg (rq_ctx rq) (rq_at rq) (rq_net rq) None
     in case br of
          None \<Rightarrow> go None
        | Some cb \<Rightarrow> (case net_Allow (rq_now rq) cb of
            (False, cb') \<Rightarrow> (Inl ErrCircuitOpen, Some cb')
          | (True, cb') \<Rightarrow> go (Some cb')))"

section \<open>Retry: what is called and what is waited\<close>

lemma shl1_small: "k < 63 \<Longrightarrow> shl1 k = 2 ^ k"
proof -
  assume "k < 63"
  then have "(2::int) ^ k \<le> 2 ^ 62" by (intro power_increasing) auto
  then have "(0::int) \<le> 2 ^ k" "(2::int) ^ k \<le> 4611686018427387904" by simp_all
  then show ?thesis unfolding shl1_def by (intro i64_small) linarith+
qed

text \<open>\<open>fn\<close> called \<open>k\<close> times in a row, whatever it returns.\<close>

fun call_n :: "nat \<Rightarrow> ('s \<Rightarrow> 'e option \<times> 's) \<Rightarrow> 's \<Rightarrow> 's" where
  "call_n 0 fn s = s"
| "call_n (Suc k) fn s = call_n k fn (snd (fn s))"

definition outcome :: "('s \<Rightarrow> 'e option \<times> 's) \<Rightarrow> 's \<Rightarrow> nat \<Rightarrow> 'e option" where
  "outcome fn s k = fst (fn (call_n k fn s))"

lemma outcome_0 [simp]: "outcome fn s 0 = fst (fn s)"
  by (simp add: outcome_def)

lemma outcome_Suc [simp]: "outcome fn (snd (fn s)) k = outcome fn s (Suc k)"
  by (simp add: outcome_def)

lemma retry_loop_first:
  assumes "k < n" "outcome fn s k = None" "\<forall>j < k. outcome fn s j \<noteq> None"
    "\<forall>j. i < j \<and> j \<le> i + k \<longrightarrow> \<not> ctx j" "i = 0 \<or> \<not> ctx i"
  shows "retry_loop n i cfg ctx jit fn lastErr s =
    (ROk, map (\<lambda>j. calculateBackoff cfg j (jit j)) [max 1 i..<Suc (i + k)], call_n (Suc k) fn s)"
  using assms
proof (induction n arbitrary: i k s lastErr)
  case (Suc n)
  show ?case
  proof (cases k)
    case 0
    with Suc.prems show ?thesis by (cases "fn s") (auto simp: Let_def)
  next
    case (Suc k')
    obtain e s' where f: "fn s = (Some e, s')"
      using Suc.prems(3) Suc by (cases "fn s") auto
    have IH: "retry_loop n (Suc i) cfg ctx jit fn lastErr' (snd (fn s)) =
      (ROk, map (\<lambda>j. calculateBackoff cfg j (jit j)) [Suc i..<Suc (i + k)], call_n (Suc k) fn s)" for lastErr'
      using Suc.IH [of k' "snd (fn s)" "Suc i" lastErr'] Suc.prems Suc by auto
    have c: "\<not> (i > 0 \<and> ctx i)" using Suc.prems(5) by auto
    have "i > 0 \<Longrightarrow> [max 1 i..<Suc (i + k)] = i # [Suc i..<Suc (i + k)]"
      by (simp add: max_def upt_conv_Cons)
    with c IH [unfolded f snd_conv] show ?thesis by (cases "i = 0") (auto simp: Let_def f simp del: upt_Suc)
  qed
qed simp

lemma retry_loop_exhaust:
  assumes "\<forall>j < n. outcome fn s j \<noteq> None" "\<forall>j. i \<le> j \<and> j < i + n \<and> 0 < j \<longrightarrow> \<not> ctx j"
  shows "fst (retry_loop n i cfg ctx jit fn lastErr s) =
      RExhausted (rc_MaxAttempts cfg) (if n = 0 then lastErr else outcome fn s (n - 1)) \<and>
    snd (snd (retry_loop n i cfg ctx jit fn lastErr s)) = call_n n fn s"
  using assms
proof (induction n arbitrary: i s lastErr)
  case (Suc n)
  have "outcome fn s 0 \<noteq> None" using Suc.prems(1) by blast
  then obtain e s' where f: "fn s = (Some e, s')" by (cases "fn s") auto
  have c: "\<not> (i > 0 \<and> ctx i)" using Suc.prems(2) by auto
  have "\<forall>j < n. outcome fn (snd (fn s)) j \<noteq> None" using Suc.prems(1) by auto
  note IH = Suc.IH [OF this, of "Suc i"]
  note IH = IH [of "Some e", unfolded f snd_conv]
  have o: "outcome fn s' k = outcome fn s (Suc k)" for k using outcome_Suc [of fn s k] f by simp
  from f c IH Suc.prems o show ?case
    by (cases n) (auto simp: Let_def split: prod.splits)
qed simp

section \<open>Properties\<close>

text \<open>The wait before attempt \<open>j\<close> when nothing overflows.\<close>

lemma backoff_exact:
  assumes "rc_Strategy cfg = BackoffExponential" "0 \<le> rc_BaseWait cfg" "0 < j"
    "rc_BaseWait cfg * 2 ^ (j - 1) < 2 ^ 63" "j \<le> 63"
  shows "calculateBackoff cfg j x = min (rc_BaseWait cfg * 2 ^ (j - 1)) (rc_MaxWait cfg)"
proof -
  have "shl1 (j - 1) = 2 ^ (j - 1)" using assms by (intro shl1_small) auto
  moreover have "i64 (rc_BaseWait cfg * 2 ^ (j - 1)) = rc_BaseWait cfg * 2 ^ (j - 1)"
  proof (rule i64_id)
    have "0 \<le> rc_BaseWait cfg * 2 ^ (j - 1)" using assms by simp
    with assms(4) show "in_i64 (rc_BaseWait cfg * 2 ^ (j - 1))" unfolding in_i64_def by linarith
  qed
  ultimately show ?thesis using assms by (simp add: calculateBackoff_def Let_def min_def)
qed

text \<open>With the default base wait of 500 ms the product wraps at attempt 36: the wait is negative, and \<open>Retry\<close> does not wait at all.\<close>

lemma backoff_wraps:
  "calculateBackoff (DefaultRetryConfig\<lparr>rc_Strategy := BackoffExponential\<rparr>) 36 x = - 1266874889709551616"
  by (simp add: calculateBackoff_def DefaultRetryConfig_def Let_def shl1_def i64_def)

definition first_ok :: "('s \<Rightarrow> 'e option \<times> 's) \<Rightarrow> 's \<Rightarrow> nat \<Rightarrow> nat option" where
  "first_ok fn s n = find (\<lambda>k. outcome fn s k = None) [0..<n]"

text \<open>C18: \<open>Retry\<close> stops at the first success. With exponential back-off, no cancellation and no
  overflow: if one of the first \<open>MaxAttempts\<close> calls of \<open>fn\<close> succeeds, \<open>Retry\<close> returns success right
  after the first one that does, having waited \<open>min(BaseWait * 2^(j-1), MaxWait)\<close> before each repetition \<open>j\<close>;
  otherwise it has called \<open>fn\<close> exactly \<open>MaxAttempts\<close> times and returns the last error (and, for
  \<open>MaxAttempts <= 0\<close>, an error that wraps nil, without a call).\<close>

theorem retry_until_success:
  assumes "rc_Strategy cfg = BackoffExponential" "0 \<le> rc_BaseWait cfg" "rc_MaxAttempts cfg \<le> 64"
    "rc_BaseWait cfg * 2 ^ nat (rc_MaxAttempts cfg - 2) < 2 ^ 63" "\<forall>j. \<not> ctx j" "n = nat (rc_MaxAttempts cfg)"
  shows "case first_ok fn s n of
    Some k \<Rightarrow> Retry ctx jit cfg fn s = (ROk,
      map (\<lambda>j. min (rc_BaseWait cfg * 2 ^ (j - 1)) (rc_MaxWait cfg)) [1..<Suc k], call_n (Suc k) fn s)
  | None \<Rightarrow> fst (Retry ctx jit cfg fn s) =
        RExhausted (rc_MaxAttempts cfg) (if n = 0 then None else outcome fn s (n - 1)) \<and>
      snd (snd (Retry ctx jit cfg fn s)) = call_n n fn s"
proof (cases "first_ok fn s n")
  case None
  then have "\<forall>j < n. outcome fn s j \<noteq> None" by (auto simp: first_ok_def find_None_iff)
  from retry_loop_exhaust [OF this, of 0 ctx] None assms show ?thesis by (simp add: Retry_def)
next
  case (Some k)
  then have k: "k < n" "outcome fn s k = None" "\<forall>j < k. outcome fn s j \<noteq> None"
    unfolding first_ok_def by (auto simp: find_Some_iff)
  have w: "calculateBackoff cfg j (jit j) = min (rc_BaseWait cfg * 2 ^ (j - 1)) (rc_MaxWait cfg)"
    if "j \<in> set [1..<Suc k]" for j
  proof (rule backoff_exact [OF assms(1,2)])
    have j: "0 < j" "j - 1 \<le> nat (rc_MaxAttempts cfg - 2)" using that k(1) assms(6) by auto
    then have "rc_BaseWait cfg * 2 ^ (j - 1) \<le> rc_BaseWait cfg * 2 ^ nat (rc_MaxAttempts cfg - 2)"
      using assms(2) by (intro mult_left_mono power_increasing) auto
    with assms(4) show "rc_BaseWait cfg * 2 ^ (j - 1) < 2 ^ 63" by linarith
    show "0 < j" "j \<le> 63" using j that k(1) assms(3,6) by auto
  qed
  then have "map (\<lambda>j. calculateBackoff cfg j (jit j)) [1..<Suc k] =
      map (\<lambda>j. min (rc_BaseWait cfg * 2 ^ (j - 1)) (rc_MaxWait cfg)) [1..<Suc k]"
    by (rule map_cong [OF refl])
  with retry_loop_first [OF k, of 0 ctx cfg jit None] assms Some show ?thesis
    by (simp add: Retry_def del: upt_Suc)
qed

lemma retry_until_success_witness:
  "Retry (\<lambda>_. False) (\<lambda>_. 0) \<lparr>rc_MaxAttempts = 5, rc_Strategy = BackoffExponential, rc_BaseWait = 100, rc_MaxWait = 150\<rparr>
     (\<lambda>n. (if n < 2 then Some ''down'' else None, n + 1)) (0 :: nat) = (ROk, [100, 150], 3)"
proof -
  let ?cfg = "\<lparr>rc_MaxAttempts = 5, rc_Strategy = BackoffExponential, rc_BaseWait = 100, rc_MaxWait = 150\<rparr>"
  let ?fn = "\<lambda>n. (if n < 2 then Some ''down'' else None, n + 1 :: nat)"
  have "first_ok ?fn 0 5 = Some 2" by code_simp
  with retry_until_success [where cfg = ?cfg and ctx = "\<lambda>_. False" and n = 5 and fn = ?fn and s = 0
      and jit = "\<lambda>_. 0"]
  show ?thesis by (simp add: upt_rec numeral_2_eq_2)
qed

text \<open>Requests one after the other through one client with a breaker.\<close>

fun do_all :: "HTTPConfig \<Rightarrow> 'b request list \<Rightarrow> NetBreaker \<Rightarrow> (http_error + 'b HTTPResponse) list \<times> NetBreaker option" where
  "do_all cfg [] cb = ([], Some cb)"
| "do_all cfg (rq # rqs) cb = (case http_do cfg rq (Some cb) of
     (r, Some cb') \<Rightarrow> (case do_all cfg rqs cb' of (rs, br) \<Rightarrow> (r # rs, br))
   | (r, None) \<Rightarrow> ([r], None))"

definition answers_500 :: "'b request \<Rightarrow> bool" where
  "answers_500 rq \<longleftrightarrow> (\<forall>i. \<not> rq_ctx rq i \<and> (\<exists>r. rq_net rq i = Resp r \<and> 500 \<le> hr_StatusCode r))"

lemma do_loop_500:
  assumes "\<forall>i. \<not> ctx i \<and> (\<exists>r. net i = Resp r \<and> 500 \<le> hr_StatusCode r)" "0 < n"
    "net_closed thr tmo cb k" "k + n \<le> thr"
  shows "\<exists>cb' r. do_loop n i cfg ctx at net lastErr (Some cb) = (Inr r, Some cb') \<and>
    net (i + n - 1) = Resp r \<and> net_closed thr tmo cb' 0"
  using assms
proof (induction n arbitrary: i k cb lastErr)
  case (Suc n)
  obtain r where r: "net i = Resp r" "500 \<le> hr_StatusCode r" using Suc.prems(1) by blast
  show ?case
  proof (cases "n = 0")
    case True
    with Suc.prems r net.closed_success show ?thesis by (auto simp: report_success_def)
  next
    case False
    then have "net_closed thr tmo (net_Failure (at i) cb) (Suc k)"
      using net.closed_failure Suc.prems by auto
    with False Suc.prems(4)
    have "\<exists>cb' r'. do_loop n (Suc i) cfg ctx at net (Some (ErrServer (hr_StatusCode r)))
        (Some (net_Failure (at i) cb)) = (Inr r', Some cb') \<and>
        net (Suc i + n - 1) = Resp r' \<and> net_closed thr tmo cb' 0"
      by (intro Suc.IH [OF Suc.prems(1)]) auto
    moreover have "\<not> ctx i" using Suc.prems(1) by blast
    ultimately show ?thesis using False r by (simp add: report_failure_def)
  qed
qed simp

lemma new_net_closed:
  assumes "0 < cfg_FailureThreshold c" "cfg_FailureThreshold c < 2 ^ 31"
  shows "net_closed (nat (cfg_FailureThreshold c)) (cfg_Timeout c) (NewCircuitBreaker c) 0"
proof -
  have "sint (word_of_int (cfg_FailureThreshold c) :: 32 word) = cfg_FailureThreshold c"
    using assms by (simp add: sint_sbintrunc' signed_take_bit_int_eq_self)
  with assms show ?thesis by (simp add: net_views NewCircuitBreaker_def)
qed

text \<open>A server that only answers 5xx never trips the breaker. When fewer retries than the
  failure threshold are configured (the defaults are 3 and 5), every request ends with the server's
  last 5xx response, which the client reports to the breaker as a success, so the failures of the
  attempts before it are forgotten: after any number of such requests the breaker is closed with
  count 0, and no request was refused.\<close>

lemma server_errors_never_trip:
  assumes "0 < cfg_FailureThreshold c" "cfg_FailureThreshold c < 2 ^ 31"
    and "0 \<le> hc_RetryMax cfg" "hc_RetryMax cfg < cfg_FailureThreshold c" and "\<forall>rq \<in> set rqs. answers_500 rq"
  shows "\<exists>rs cb. do_all cfg rqs (NewCircuitBreaker c) = (map Inr rs, Some cb) \<and>
    map Resp rs = map (\<lambda>rq. rq_net rq (nat (hc_RetryMax cfg))) rqs \<and>
    nb_state cb = StateClosed \<and> nb_failureCount cb = 0"
proof -
  let ?thr = "nat (cfg_FailureThreshold c)"
  have "\<exists>rs cb'. do_all cfg rqs cb = (map Inr rs, Some cb') \<and>
      map Resp rs = map (\<lambda>rq. rq_net rq (nat (hc_RetryMax cfg))) rqs \<and> net_closed ?thr (cfg_Timeout c) cb' 0"
    if "net_closed ?thr (cfg_Timeout c) cb 0" for cb
    using that assms(5)
  proof (induction rqs arbitrary: cb)
    case (Cons rq rqs)
    have n: "0 < nat (hc_RetryMax cfg + 1)" "0 + nat (hc_RetryMax cfg + 1) \<le> ?thr" using assms by auto
    have "nat (hc_RetryMax cfg + 1) - 1 = nat (hc_RetryMax cfg)" using assms by auto
    with do_loop_500 [OF _ n(1) Cons.prems(1) n(2), of "rq_ctx rq" "rq_net rq" 0 cfg "rq_at rq" None] Cons.prems(2)
    obtain cb1 r where "do_loop (nat (hc_RetryMax cfg + 1)) 0 cfg (rq_ctx rq) (rq_at rq) (rq_net rq) None (Some cb) = (Inr r, Some cb1)"
      and 1: "rq_net rq (nat (hc_RetryMax cfg)) = Resp r" "net_closed ?thr (cfg_Timeout c) cb1 0"
      by (auto simp: answers_500_def)
    then have "http_do cfg rq (Some cb) = (Inr r, Some cb1)"
      using net.closed_allow [OF Cons.prems(1)] by (simp add: http_do_def)
    moreover obtain rs cb' where "do_all cfg rqs cb1 = (map Inr rs, Some cb')"
        "map Resp rs = map (\<lambda>rq. rq_net rq (nat (hc_RetryMax cfg))) rqs" "net_closed ?thr (cfg_Timeout c) cb' 0"
      using Cons.IH [OF 1(2)] Cons.prems(2) by auto
    ultimately show ?case using 1 by (intro exI [of _ "r # rs"] exI [of _ cb']) auto
  qed (auto intro!: exI [of _ "[]"])
  from this [OF new_net_closed] assms(1,2)
  obtain rs cb where "do_all cfg rqs (NewCircuitBreaker c) = (map Inr rs, Some cb)"
    "map Resp rs = map (\<lambda>rq. rq_net rq (nat (hc_RetryMax cfg))) rqs" "net_closed ?thr (cfg_Timeout c) cb 0"
    by blast
  moreover from this have "nb_failureCount cb = 0"
  proof -
    assume "net_closed ?thr (cfg_Timeout c) cb 0"
    then have "word_of_int (sint (nb_failureCount cb)) = (0 :: 32 word)"
      unfolding net_closed_def by simp
    then show ?thesis by simp
  qed
  ultimately show ?thesis by (auto simp: net_views)
qed

definition demo_500 :: "unit request" where
  "demo_500 = \<lparr>rq_now = 0, rq_ctx = \<lambda>_. False, rq_at = \<lambda>i. int i,
     rq_net = \<lambda>_. Resp \<lparr>hr_StatusCode = 503, hr_Body = ()\<rparr>\<rparr>"

lemma server_errors_never_trip_witness:
  "\<exists>rs cb. do_all DefaultHTTPConfig (replicate 100 demo_500) (NewCircuitBreaker DefaultCircuitBreakerConfig) = (map Inr rs, Some cb) \<and>
    length rs = 100 \<and> nb_state cb = StateClosed \<and> nb_failureCount cb = 0"
proof -
  have a: "\<forall>rq \<in> set (replicate 100 demo_500). answers_500 rq"
    by (simp add: answers_500_def demo_500_def)
  have b: "0 < cfg_FailureThreshold DefaultCircuitBreakerConfig" "cfg_FailureThreshold DefaultCircuitBreakerConfig < 2 ^ 31"
     "0 \<le> hc_RetryMax DefaultHTTPConfig" "hc_RetryMax DefaultHTTPConfig < cfg_FailureThreshold DefaultCircuitBreakerConfig"
    by (simp_all add: DefaultCircuitBreakerConfig_def DefaultHTTPConfig_def)
  from server_errors_never_trip [OF b a] obtain rs cb where
    1: "do_all DefaultHTTPConfig (replicate 100 demo_500) (NewCircuitBreaker DefaultCircuitBreakerConfig) = (map Inr rs, Some cb)"
    and 2: "map Resp rs = map (\<lambda>rq. rq_net rq (nat (hc_RetryMax DefaultHTTPConfig))) (replicate 100 demo_500)"
    and 3: "nb_state cb = StateClosed \<and> nb_failureCount cb = 0"
    by blast
  from arg_cong [OF 2, of length] have "length rs = 100" by simp
  with 1 3 show ?thesis by blast
qed

text \<open>An outage of the network: no attempt gets a response. Each request is made after the one before it.\<close>

definition unreachable :: "'b request \<Rightarrow> bool" where
  "unreachable rq \<longleftrightarrow> (\<forall>i r. rq_net rq i \<noteq> Resp r)"

fun req_order :: "HTTPConfig \<Rightarrow> instant \<Rightarrow> 'b request list \<Rightarrow> bool" where
  "req_order cfg t0 [] = True"
| "req_order cfg t0 (rq # rqs) \<longleftrightarrow> t0 \<le> rq_now rq \<and> rq_now rq \<le> rq_at rq 0 \<and>
     (\<forall>i j. i \<le> j \<longrightarrow> rq_at rq i \<le> rq_at rq j) \<and> req_order cfg (rq_at rq (nat (hc_RetryMax cfg))) rqs"

fun req_end :: "HTTPConfig \<Rightarrow> instant \<Rightarrow> 'b request list \<Rightarrow> instant" where
  "req_end cfg t0 [] = t0"
| "req_end cfg t0 (rq # rqs) = req_end cfg (rq_at rq (nat (hc_RetryMax cfg))) rqs"

definition let_through :: "(http_error + 'b HTTPResponse) list \<Rightarrow> nat" where
  "let_through rs = length (filter (\<lambda>r. r \<noteq> Inl ErrCircuitOpen) rs)"

lemma do_loop_down:
  assumes "\<forall>i r. net i \<noteq> Resp r"
  shows "\<exists>m e. m \<le> n \<and> (0 < n \<and> i = 0 \<longrightarrow> 0 < m) \<and> e \<noteq> ErrCircuitOpen \<and>
    do_loop n i cfg ctx at net lastErr (Some cb) = (Inl e, Some (fold net_Failure (map at [i..<i + m]) cb))"
proof (induction n arbitrary: i cb lastErr)
  case (Suc n)
  show ?case
  proof (cases "i > 0 \<and> ctx i")
    case True
    then show ?thesis by (intro exI [of _ 0] exI [of _ ErrContext]) simp
  next
    case False
    have "\<exists>e. do_loop (Suc n) i cfg ctx at net lastErr (Some cb) =
        do_loop n (Suc i) cfg ctx at net (Some e) (Some (net_Failure (at i) cb))"
      using False assms by (cases "net i") (auto simp: report_failure_def)
    then obtain e1 where 1: "do_loop (Suc n) i cfg ctx at net lastErr (Some cb) =
        do_loop n (Suc i) cfg ctx at net (Some e1) (Some (net_Failure (at i) cb))" by blast
    from Suc.IH [of "Suc i" "Some e1" "net_Failure (at i) cb"] obtain m e where
      2: "m \<le> n" "e \<noteq> ErrCircuitOpen" "do_loop n (Suc i) cfg ctx at net (Some e1) (Some (net_Failure (at i) cb)) =
        (Inl e, Some (fold net_Failure (map at [Suc i..<Suc i + m]) (net_Failure (at i) cb)))"
      by blast
    have "[i..<i + Suc m] = i # [Suc i..<Suc i + m]" by (simp add: upt_conv_Cons del: upt_Suc)
    with 1 2 show ?thesis by (intro exI [of _ "Suc m"] exI [of _ e]) (simp del: upt_Suc do_loop.simps)
  qed
qed (auto intro!: exI [of _ 0])

text \<open>The requests of an outage as guarded calls of the breaker contract.\<close>

lemma do_all_admitted:
  assumes "\<forall>rq \<in> set rqs. unreachable rq" "req_order cfg t0 rqs" "0 \<le> hc_RetryMax cfg"
  shows "\<exists>rs br cs. do_all cfg rqs cb = (rs, br) \<and> outage t0 cs \<and> until t0 cs \<le> req_end cfg t0 rqs \<and>
    let_through rs = net.admitted cs cb"
  using assms
proof (induction rqs arbitrary: cb t0)
  case Nil
  then show ?case by (intro exI [of _ "[]"] exI [of _ "Some cb"]) (simp add: let_through_def)
next
  case (Cons rq rqs)
  let ?n = "nat (hc_RetryMax cfg + 1)" and ?T = "rq_at rq (nat (hc_RetryMax cfg))"
  obtain b cb1 where allow: "net_Allow (rq_now rq) cb = (b, cb1)" by (cases "net_Allow (rq_now rq) cb")
  have "\<forall>i r. rq_net rq i \<noteq> Resp r" using Cons.prems(1) by (simp add: unreachable_def)
  from do_loop_down [OF this, of ?n 0 cfg "rq_ctx rq" "rq_at rq" None cb1] Cons.prems(3)
  obtain m e where m: "m \<le> ?n" "0 < m" "e \<noteq> ErrCircuitOpen"
    "do_loop ?n 0 cfg (rq_ctx rq) (rq_at rq) (rq_net rq) None (Some cb1) =
      (Inl e, Some (fold net_Failure (map (rq_at rq) [0..<m]) cb1))" by auto
  let ?fs = "map (rq_at rq) [0..<m]"
  let ?cb2 = "if b then fold net_Failure ?fs cb1 else cb1"
  have do: "http_do cfg rq (Some cb) = (Inl (if b then e else ErrCircuitOpen), Some ?cb2)"
    using allow m by (simp add: http_do_def)
  have ord: "t0 \<le> rq_now rq" "sorted (rq_now rq # ?fs)" "last ?fs \<le> ?T" "?fs \<noteq> []"
  proof -
    have mono: "rq_at rq i \<le> rq_at rq j" if "i \<le> j" for i j using Cons.prems(2) that by simp
    have "rq_now rq \<le> rq_at rq i" for i
      by (rule order_trans [OF _ mono]) (use Cons.prems(2) in auto)
    then show "sorted (rq_now rq # ?fs)" using mono by (auto simp: sorted_iff_nth_mono)
    show "last ?fs \<le> ?T" using m(1,2) mono [of "m - 1" "nat (hc_RetryMax cfg)"] Cons.prems(3)
      by (simp add: last_map nat_add_distrib)
  qed (use Cons.prems m in auto)
  obtain rs br cs where IH: "do_all cfg rqs ?cb2 = (rs, br)" "outage ?T cs" "until ?T cs \<le> req_end cfg ?T rqs"
      "let_through rs = net.admitted cs ?cb2"
    using Cons.IH [of ?T ?cb2] Cons.prems by auto
  let ?c = "(rq_now rq, ?fs, False)"
  have later: "outage t0' cs \<and> until t0' cs \<le> until ?T cs" if "t0' \<le> ?T" for t0'
    using IH(2) that by (cases cs) auto
  have g: "net.guarded ?c cb = (b, ?cb2)" using allow by (simp add: net.guarded_def)
  show ?case
  proof (intro exI conjI)
    show "do_all cfg (rq # rqs) cb = (Inl (if b then e else ErrCircuitOpen) # rs, br)"
      using do IH(1) by simp
    show "outage t0 (?c # cs)" using ord later by simp
    show "until t0 (?c # cs) \<le> req_end cfg t0 (rq # rqs)"
      using later [OF ord(3)] IH(3) by simp
    show "let_through (Inl (if b then e else ErrCircuitOpen) # rs) = net.admitted (?c # cs) cb"
      using g IH(4) m(3) by (simp add: let_through_def)
  qed
qed

text \<open>The HTTP client sheds the load of a network outage. While no attempt gets a response,
  requests are made one after the other, with any number of retries and cancelled waits. At most
  \<open>FailureThreshold + duration / Timeout\<close> of them go to the network; all others are refused with
  \<open>ErrCircuitOpen\<close> at once. The bound is the one that the database breaker keeps: both follow from the
  breaker contract.\<close>

lemma http_outage_load:
  assumes "0 < cfg_FailureThreshold c" "cfg_FailureThreshold c < 2 ^ 31" "0 \<le> cfg_Timeout c"
    and "\<forall>rq \<in> set rqs. unreachable rq" "req_order cfg t0 rqs" "0 \<le> hc_RetryMax cfg"
  shows "(int (let_through (fst (do_all cfg rqs (NewCircuitBreaker c)))) - cfg_FailureThreshold c) * cfg_Timeout c
    \<le> req_end cfg t0 rqs - t0"
proof -
  obtain rs br cs where *: "do_all cfg rqs (NewCircuitBreaker c) = (rs, br)" "outage t0 cs"
      "until t0 cs \<le> req_end cfg t0 rqs" "let_through rs = net.admitted cs (NewCircuitBreaker c)"
    using do_all_admitted [OF assms(4-6)] by blast
  have "(int (net.admitted cs (NewCircuitBreaker c)) - int (nat (cfg_FailureThreshold c) - 0)) * cfg_Timeout c
      \<le> until t0 cs - t0"
    by (rule net.outage_load [OF new_net_closed [OF assms(1,2)] *(2), where cap = "failures cs"])
      (use assms in auto)
  with * assms(1) show ?thesis by simp
qed

definition demo_down :: "unit request" where
  "demo_down = \<lparr>rq_now = 5, rq_ctx = \<lambda>_. False, rq_at = \<lambda>i. 5, rq_net = \<lambda>_. TransportErr ''refused''\<rparr>"

lemma http_outage_load_witness:
  "(int (let_through (fst (do_all DefaultHTTPConfig (replicate 50 demo_down) (NewCircuitBreaker DefaultCircuitBreakerConfig)))) - 5)
     * 30000000000 \<le> 5 - 0"
proof -
  have o: "req_order DefaultHTTPConfig t0 (replicate n demo_down)" if "t0 \<le> 5" for n t0
    using that by (induction n arbitrary: t0) (simp_all add: demo_down_def)
  have at: "rq_at demo_down i = 5" for i by (simp add: demo_down_def)
  have e: "req_end DefaultHTTPConfig 5 (replicate n demo_down) = 5" for n
    by (induction n) (simp_all add: at)
  have "req_end DefaultHTTPConfig 0 (replicate (Suc 49) demo_down) = 5"
    by (simp only: replicate_Suc req_end.simps at e)
  moreover have "\<forall>rq \<in> set (replicate 50 demo_down). unreachable rq"
    by (simp add: unreachable_def demo_down_def)
  ultimately show ?thesis
    using http_outage_load [of DefaultCircuitBreakerConfig "replicate 50 demo_down" DefaultHTTPConfig 0] o [of 0 50]
    by (simp add: DefaultCircuitBreakerConfig_def DefaultHTTPConfig_def)
qed

end
