(* ===== verification/GoodsModel.thy ===== *)
theory GoodsModel
  imports GoStd
begin

text \<open>
  Data of the goods module: the structs of src/zzz/goodser/model.go with their request types, and the
  error codes of src/zzz/goodser/errors.go.

  Prices are carried along and never computed with; they are whole cents of the \<open>DECIMAL(12,2)\<close>
  columns. A JSON column holds the value that was marshalled into it. \<open>*T\<close> is an option.
\<close>

type_synonym price = int

section \<open>Rows\<close>

record Inventory =
  iv_ID :: string
  iv_Name :: string
  iv_SortOrder :: int
  iv_CreatedAt :: instant
  iv_UpdatedAt :: instant

record Product =
  pd_ID :: string
  pd_InventoryID :: string
  pd_Code :: string
  pd_MainZone :: string
  pd_SubZone :: string
  pd_SeqNumber :: int
  pd_Quantity :: int
  pd_ReservedQuantity :: int
  pd_StatusCode :: string
  pd_Name :: string
  pd_OriginalPrice :: price
  pd_MarketPrice :: price
  pd_ExpectedPrice :: price
  pd_Remark :: string
  pd_StorageLocation :: string
  pd_ImageURL :: "string option"
  pd_Tags :: "string list option"
  pd_CreatedAt :: instant
  pd_UpdatedAt :: instant

record OrderItem =
  oi_ProductID :: string
  oi_ProductName :: string
  oi_ProductCode :: string
  oi_Quantity :: int
  oi_ImageURL :: "string option"

datatype json = JItems "OrderItem list" | JProducts "Product list"

record OutboundOrder =
  oo_ID :: string
  oo_InventoryID :: string
  oo_OrderNo :: string
  oo_Type :: string
  oo_Status :: string
  oo_OrderInfo :: "string option"
  oo_Remark :: "string option"
  oo_Items :: json
  oo_SourceReserveID :: "string option"
  oo_CreatedAt :: instant
  oo_UpdatedAt :: instant
  oo_ConfirmedAt :: "instant option"
  oo_CancelledAt :: "instant option"

record InboundLog =
  il_ID :: string
  il_InventoryID :: string
  il_OrderNo :: "string option"
  il_Type :: string
  il_Remark :: "string option"
  il_Items :: json
  il_CreatedAt :: instant

record Tag =
  tg_ID :: string
  tg_Name :: string
  tg_Color :: string
  tg_CreatedAt :: instant

record StatusCode =
  sd_ID :: string
  sd_Code :: string
  sd_Label :: string
  sd_IsSystem :: bool
  sd_CreatedAt :: instant

text \<open>The constants of the order states and types.\<close>

definition OrderTypeOutbound :: string where "OrderTypeOutbound = ''outbound''"
definition OrderTypeReserve :: string where "OrderTypeReserve = ''reserve''"
definition OrderStatusPending :: string where "OrderStatusPending = ''pending''"
definition OrderStatusReserved :: string where "OrderStatusReserved = ''reserved''"
definition OrderStatusConfirmed :: string where "OrderStatusConfirmed = ''confirmed''"
definition OrderStatusCancelled :: string where "OrderStatusCancelled = ''cancelled''"

lemmas order_constants = OrderTypeOutbound_def OrderTypeReserve_def OrderStatusPending_def
  OrderStatusReserved_def OrderStatusConfirmed_def OrderStatusCancelled_def

section \<open>Requests\<close>

record UpdateInventoryReq =
  ui_ID :: string
  ui_Name :: "string option"

record CreateProductReq =
  cp_InventoryID :: string
  cp_Code :: string
  cp_MainZone :: string
  cp_SubZone :: string
  cp_SeqNumber :: int
  cp_Quantity :: "int option"
  cp_StatusCode :: string
  cp_Name :: string
  cp_OriginalPrice :: price
  cp_MarketPrice :: price
  cp_ExpectedPrice :: price
  cp_Remark :: string
  cp_StorageLocation :: string
  cp_ImageURL :: "string option"
  cp_Tags :: "string list option"

record UpdateProductReq =
  up_ID :: string
  up_InventoryID :: "string option"
  up_Code :: "string option"
  up_MainZone :: "string option"
  up_SubZone :: "string option"
  up_SeqNumber :: "int option"
  up_Quantity :: "int option"
  up_StatusCode :: "string option"
  up_Name :: "string option"
  up_OriginalPrice :: "price option"
  up_MarketPrice :: "price option"
  up_ExpectedPrice :: "price option"
  up_Remark :: "string option"
  up_StorageLocation :: "string option"
  up_ImageURL :: "string option"
  up_Tags :: "string list option"

record AllocateSeqReq =
  aq_InventoryID :: string
  aq_MainZone :: string
  aq_SubZone :: string

record InboundSingleReq =
  is_InventoryID :: string
  is_OrderNo :: "string option"
  is_Code :: string
  is_MainZone :: string
  is_SubZone :: string
  is_SeqNumber :: int
  is_Quantity :: "int option"
  is_StatusCode :: string
  is_Name :: string
  is_OriginalPrice :: price
  is_MarketPrice :: price
  is_ExpectedPrice :: price
  is_Remark :: string
  is_StorageLocation :: string
  is_ImageURL :: "string option"
  is_Tags :: "string list option"

record InboundBatchReqItem =
  bi_Code :: string
  bi_MainZone :: string
  bi_SubZone :: string
  bi_SeqNumber :: int
  bi_Quantity :: "int option"
  bi_StatusCode :: string
  bi_Name :: string
  bi_OriginalPrice :: price
  bi_MarketPrice :: price
  bi_ExpectedPrice :: price
  bi_Remark :: string
  bi_StorageLocation :: string
  bi_ImageURL :: "string option"
  bi_Tags :: "string list option"

record InboundBatchReq =
  ib_InventoryID :: string
  ib_OrderNo :: "string option"
  ib_Remark :: "string option"
  ib_Items :: "InboundBatchReqItem list"

record SearchImportReqItem =
  si_ProductID :: string
  si_ProductName :: string
  si_ProductCode :: string
  si_Quantity :: int
  si_ImageURL :: "string option"

record InboundSearchImportReq =
  ir_InventoryID :: string
  ir_OrderNo :: "string option"
  ir_Remark :: "string option"
  ir_Items :: "SearchImportReqItem list"

record CreateOutboundReq =
  co_InventoryID :: string
  co_OrderNo :: string
  co_Type :: "string option"
  co_Status :: "string option"
  co_OrderInfo :: "string option"
  co_Remark :: "string option"
  co_Items :: "OrderItem list"
  co_SourceReserveID :: "string option"

record ReserveToOutboundReq =
  ro_ID :: string
  ro_InventoryID :: string
  ro_OrderNo :: string
  ro_Items :: "OrderItem list"
  ro_OrderInfo :: "string option"
  ro_Remark :: "string option"

record CreateInboundLogReq =
  cl_InventoryID :: string
  cl_OrderNo :: "string option"
  cl_Type :: string
  cl_Remark :: "string option"
  cl_Items :: "OrderItem list"

record UpdateInboundLogReq =
  ul_ID :: string
  ul_Type :: "string option"
  ul_Remark :: "string option"
  ul_Items :: "OrderItem list option"

record CreateTagReq =
  ct_Name :: string
  ct_Color :: "string option"

record UpdateTagReq =
  ut_ID :: string
  ut_Name :: "string option"
  ut_Color :: "string option"

record AddStatusCodeReq =
  ac_Code :: string
  ac_Label :: string

record UpdateStatusCodeReq =
  us_ID :: string
  us_Label :: string

section \<open>Errors\<close>

text \<open>
  \<open>ErrNoRows\<close> is \<open>sql.ErrNoRows\<close>, \<open>DbError\<close> every other error of the database, \<open>GoodserError\<close> an
  error of the module with its code.
\<close>

datatype goods_error = ErrNoRows | DbError | GoodserError int

definition ErrInventoryNotFound :: int where "ErrInventoryNotFound = 20001"
definition ErrProductNotFound :: int where "ErrProductNotFound = 20002"
definition ErrInboundLogNotFound :: int where "ErrInboundLogNotFound = 20004"
definition ErrTagNotFound :: int where "ErrTagNotFound = 20005"
definition ErrStatusCodeNotFound :: int where "ErrStatusCodeNotFound = 20006"
definition ErrInsufficientStock :: int where "ErrInsufficientStock = 20200"
definition ErrInvalidOrderStatus :: int where "ErrInvalidOrderStatus = 20201"

section \<open>Product codes\<close>

text \<open>The verbs \<open>%04d\<close> (the sign counts towards the width) and the code built from a request.\<close>

definition pad0 :: "nat \<Rightarrow> string \<Rightarrow> string" where
  "pad0 w s = replicate (w - length s) CHR ''0'' @ s"

definition fmt_04d :: "int \<Rightarrow> string" where
  "fmt_04d n = (if n < 0 then ''-'' @ pad0 3 (digits (nat (- n))) else pad0 4 (digits (nat n)))"

definition product_code :: "string \<Rightarrow> string \<Rightarrow> int \<Rightarrow> string \<Rightarrow> string" where
  "product_code mainZone subZone seq status =
     mainZone @ ''-'' @ subZone @ ''-'' @ fmt_04d seq @ ''-'' @ fmt_04d 0 @ ''-'' @ status"

end
