(* ===== verification/GoodsRepo.thy ===== *)
theory GoodsRepo
  imports GoodsModel "HOL-Library.Char_ord" "HOL-Library.List_Lexorder"
begin

text \<open>
  The repository of the goods module, src/zzz/goodser/repository.go: its SQL statements as operations
  on tables.

  A table is the list of its rows. A statement of type \<open>'a stmt\<close> runs over a connection: the tables it
  sees, and for each of the coming statements whether the database answers it (\<open>cn_up\<close>; statements
  past the end of the list are answered). A statement that is not answered fails and changes nothing;
  so does one that breaks a constraint: a primary key used twice, an \<open>INT\<close> column out of its 32 bits.
  Columns compare as under a binary collation. UUIDs are drawn one after the other from \<open>cn_uuid\<close>.

  The table of products that \<open>initTables\<close> of module.go creates has no column \<open>image_list\<close>, which every
  \<open>SELECT\<close> of products names; \<open>gd_image_list\<close> says whether the column is there.
\<close>

section \<open>Tables and statements\<close>

record RecycledSeq =
  rs_InventoryID :: string
  rs_MainZone :: string
  rs_SubZone :: string
  rs_SeqNumber :: int

record SeqCounter =
  sq_InventoryID :: string
  sq_MainZone :: string
  sq_SubZone :: string
  sq_CurrentMax :: int

record GoodsDB =
  gd_inventories :: "Inventory list"
  gd_products :: "Product list"
  gd_image_list :: bool
  gd_recycled :: "RecycledSeq list"
  gd_counters :: "SeqCounter list"
  gd_orders :: "OutboundOrder list"
  gd_logs :: "InboundLog list"
  gd_status_codes :: "StatusCode list"
  gd_tags :: "Tag list"

record conn =
  cn_db :: GoodsDB
  cn_up :: "bool list"
  cn_uuid :: "nat \<Rightarrow> string"
  cn_drawn :: nat

type_synonym 'a stmt = "conn \<Rightarrow> (goods_error + 'a) \<times> conn"

definition ret :: "'a \<Rightarrow> 'a stmt" where
  "ret x c = (Inr x, c)"

definition fail :: "goods_error \<Rightarrow> 'a stmt" where
  "fail e c = (Inl e, c)"

definition bind :: "'a stmt \<Rightarrow> ('a \<Rightarrow> 'b stmt) \<Rightarrow> 'b stmt" where
  "bind m f c = (case m c of (Inl e, c') \<Rightarrow> (Inl e, c') | (Inr x, c') \<Rightarrow> f x c')"

text \<open>Run \<open>m\<close>, and continue with its error as a value: \<open>x, err := m; ...\<close>.\<close>

definition attempt :: "'a stmt \<Rightarrow> (goods_error + 'a \<Rightarrow> 'b stmt) \<Rightarrow> 'b stmt" where
  "attempt m f c = (case m c of (r, c') \<Rightarrow> f r c')"

definition answered :: "conn \<Rightarrow> bool \<times> conn" where
  "answered c = (case cn_up c of [] \<Rightarrow> (True, c) | b # bs \<Rightarrow> (b, c\<lparr>cn_up := bs\<rparr>))"

definition query :: "(GoodsDB \<Rightarrow> goods_error + 'a) \<Rightarrow> 'a stmt" where
  "query q c = (case answered c of (b, c') \<Rightarrow> (if b then q (cn_db c') else Inl DbError, c'))"

definition exec :: "(GoodsDB \<Rightarrow> GoodsDB option) \<Rightarrow> unit stmt" where
  "exec x c = (case answered c of (b, c') \<Rightarrow>
     (if b then (case x (cn_db c') of None \<Rightarrow> (Inl DbError, c') | Some d \<Rightarrow> (Inr (), c'\<lparr>cn_db := d\<rparr>))
      else (Inl DbError, c')))"

definition new_uuid :: "string stmt" where
  "new_uuid c = (Inr (cn_uuid c (cn_drawn c)), c\<lparr>cn_drawn := Suc (cn_drawn c)\<rparr>)"

definition in_i32 :: "int \<Rightarrow> bool" where
  "in_i32 x \<longleftrightarrow> - (2 ^ 31) \<le> x \<and> x < 2 ^ 31"

text \<open>The first row that matches, as \<open>QueryRow\<close> scans it.\<close>

definition row :: "('a \<Rightarrow> bool) \<Rightarrow> 'a list \<Rightarrow> goods_error + 'a" where
  "row p rows = (case find p rows of None \<Rightarrow> Inl ErrNoRows | Some r \<Rightarrow> Inr r)"

definition insert_row :: "('a \<Rightarrow> string) \<Rightarrow> 'a \<Rightarrow> 'a list \<Rightarrow> 'a list option" where
  "insert_row key r rows = (if key r \<in> key ` set rows then None else Some (rows @ [r]))"

definition set_rows :: "('a \<Rightarrow> bool) \<Rightarrow> ('a \<Rightarrow> 'a) \<Rightarrow> 'a list \<Rightarrow> 'a list" where
  "set_rows p f rows = map (\<lambda>r. if p r then f r else r) rows"

section \<open>Inventories\<close>

definition repo_ListInventories :: "Inventory list stmt" where
  "repo_ListInventories = query (\<lambda>d. Inr (sort_key iv_SortOrder (gd_inventories d)))"

definition repo_GetInventory :: "string \<Rightarrow> Inventory stmt" where
  "repo_GetInventory i = query (\<lambda>d. row (\<lambda>v. iv_ID v = i) (gd_inventories d))"

definition repo_CreateInventory :: "instant \<Rightarrow> string \<Rightarrow> Inventory stmt" where
  "repo_CreateInventory now name = bind new_uuid (\<lambda>i.
     let item = \<lparr>iv_ID = i, iv_Name = name, iv_SortOrder = 0, iv_CreatedAt = now, iv_UpdatedAt = now\<rparr>
     in bind (exec (\<lambda>d. map_option (\<lambda>t. d\<lparr>gd_inventories := t\<rparr>) (insert_row iv_ID item (gd_inventories d))))
          (\<lambda>_. ret item))"

definition repo_UpdateInventory :: "instant \<Rightarrow> UpdateInventoryReq \<Rightarrow> Inventory stmt" where
  "repo_UpdateInventory now req = bind (repo_GetInventory (ui_ID req)) (\<lambda>item0.
     let item1 = (case ui_Name req of None \<Rightarrow> item0 | Some n \<Rightarrow> item0\<lparr>iv_Name := n\<rparr>);
         item = item1\<lparr>iv_UpdatedAt := now\<rparr>
     in bind (exec (\<lambda>d. Some (d\<lparr>gd_inventories := set_rows (\<lambda>v. iv_ID v = iv_ID item)
              (\<lambda>v. v\<lparr>iv_Name := iv_Name item, iv_UpdatedAt := iv_UpdatedAt item\<rparr>) (gd_inventories d)\<rparr>)))
          (\<lambda>_. ret item))"

definition repo_DeleteInventory :: "string \<Rightarrow> unit stmt" where
  "repo_DeleteInventory i =
     exec (\<lambda>d. Some (d\<lparr>gd_inventories := filter (\<lambda>v. iv_ID v \<noteq> i) (gd_inventories d)\<rparr>))"

section \<open>Products\<close>

text \<open>A \<open>SELECT\<close> of products fails on a table without the column \<open>image_list\<close>.\<close>

definition product_query :: "(Product list \<Rightarrow> goods_error + 'a) \<Rightarrow> 'a stmt" where
  "product_query q = query (\<lambda>d. if gd_image_list d then q (gd_products d) else Inl DbError)"

text \<open>\<open>LIKE\<close>: \<open>%\<close> any text, \<open>_\<close> any character, a backslash quotes the next character.\<close>

fun like :: "string \<Rightarrow> string \<Rightarrow> bool" where
  "like [] s = (s = [])"
| "like (p # ps) s =
     (if p = CHR ''%'' then like ps s \<or> (case s of [] \<Rightarrow> False | _ # t \<Rightarrow> like (p # ps) t)
      else if p = CHR 0x5C \<and> ps \<noteq> [] then (case s of [] \<Rightarrow> False | c # t \<Rightarrow> c = hd ps \<and> like (tl ps) t)
      else (case s of [] \<Rightarrow> False | c # t \<Rightarrow> (p = CHR ''_'' \<or> p = c) \<and> like ps t))"

definition repo_ListProducts :: "string \<Rightarrow> Product list stmt" where
  "repo_ListProducts iid = product_query (\<lambda>ps. Inr (sort_key pd_SeqNumber (filter (\<lambda>p. pd_InventoryID p = iid) ps)))"

definition repo_SearchProducts :: "string \<Rightarrow> string \<Rightarrow> Product list stmt" where
  "repo_SearchProducts iid keyword = product_query (\<lambda>ps.
     Inr (sort_key pd_SeqNumber (filter (\<lambda>p. pd_InventoryID p = iid \<and> like (''%'' @ keyword @ ''%'') (pd_Name p)) ps)))"

definition repo_GetProduct :: "string \<Rightarrow> Product stmt" where
  "repo_GetProduct i = product_query (row (\<lambda>p. pd_ID p = i))"

definition repo_FindProductByCode :: "string \<Rightarrow> string \<Rightarrow> Product stmt" where
  "repo_FindProductByCode iid code = product_query (row (\<lambda>p. pd_InventoryID p = iid \<and> pd_Code p = code))"

definition over :: "'a option \<Rightarrow> 'a \<Rightarrow> 'a" where
  "over new old = (case new of None \<Rightarrow> old | Some x \<Rightarrow> x)"

definition product_update :: "UpdateProductReq \<Rightarrow> Product \<Rightarrow> Product" where
  "product_update r p = p\<lparr>pd_Code := over (up_Code r) (pd_Code p),
     pd_MainZone := over (up_MainZone r) (pd_MainZone p), pd_SubZone := over (up_SubZone r) (pd_SubZone p),
     pd_SeqNumber := over (up_SeqNumber r) (pd_SeqNumber p), pd_Quantity := over (up_Quantity r) (pd_Quantity p),
     pd_StatusCode := over (up_StatusCode r) (pd_StatusCode p), pd_Name := over (up_Name r) (pd_Name p),
     pd_OriginalPrice := over (up_OriginalPrice r) (pd_OriginalPrice p),
     pd_MarketPrice := over (up_MarketPrice r) (pd_MarketPrice p),
     pd_ExpectedPrice := over (up_ExpectedPrice r) (pd_ExpectedPrice p),
     pd_Remark := over (up_Remark r) (pd_Remark p),
     pd_StorageLocation := over (up_StorageLocation r) (pd_StorageLocation p),
     pd_ImageURL := (case up_ImageURL r of None \<Rightarrow> pd_ImageURL p | Some u \<Rightarrow> Some u),
     pd_Tags := (case up_Tags r of None \<Rightarrow> pd_Tags p | Some ts \<Rightarrow> Some ts)\<rparr>"

text \<open>The statement writes every column of the row but the identifiers and the creation time.\<close>

definition repo_UpdateProduct :: "instant \<Rightarrow> UpdateProductReq \<Rightarrow> Product stmt" where
  "repo_UpdateProduct now req = bind (repo_GetProduct (up_ID req)) (\<lambda>p0.
     let p = (product_update req p0)\<lparr>pd_UpdatedAt := now\<rparr>
     in bind (exec (\<lambda>d. if in_i32 (pd_Quantity p) \<and> in_i32 (pd_ReservedQuantity p) \<and> in_i32 (pd_SeqNumber p)
            then Some (d\<lparr>gd_products := set_rows (\<lambda>q. pd_ID q = pd_ID p)
              (\<lambda>q. p\<lparr>pd_ID := pd_ID q, pd_InventoryID := pd_InventoryID q, pd_CreatedAt := pd_CreatedAt q\<rparr>)
              (gd_products d)\<rparr>)
            else None))
          (\<lambda>_. ret p))"

definition repo_DeleteProduct :: "string \<Rightarrow> unit stmt" where
  "repo_DeleteProduct i = exec (\<lambda>d. Some (d\<lparr>gd_products := filter (\<lambda>p. pd_ID p \<noteq> i) (gd_products d)\<rparr>))"

definition repo_CreateProductTx :: "instant \<Rightarrow> CreateProductReq \<Rightarrow> Product stmt" where
  "repo_CreateProductTx now req = bind new_uuid (\<lambda>i.
     let p = \<lparr>pd_ID = i, pd_InventoryID = cp_InventoryID req,
              pd_Code = product_code (cp_MainZone req) (cp_SubZone req) (cp_SeqNumber req) (cp_StatusCode req),
              pd_MainZone = cp_MainZone req, pd_SubZone = cp_SubZone req, pd_SeqNumber = cp_SeqNumber req,
              pd_Quantity = over (cp_Quantity req) 0, pd_ReservedQuantity = 0,
              pd_StatusCode = cp_StatusCode req, pd_Name = cp_Name req,
              pd_OriginalPrice = cp_OriginalPrice req, pd_MarketPrice = cp_MarketPrice req,
              pd_ExpectedPrice = cp_ExpectedPrice req, pd_Remark = cp_Remark req,
              pd_StorageLocation = cp_StorageLocation req, pd_ImageURL = cp_ImageURL req,
              pd_Tags = cp_Tags req, pd_CreatedAt = now, pd_UpdatedAt = now\<rparr>
     in bind (exec (\<lambda>d. if in_i32 (pd_Quantity p) \<and> in_i32 (pd_SeqNumber p)
            then map_option (\<lambda>t. d\<lparr>gd_products := t\<rparr>) (insert_row pd_ID p (gd_products d)) else None))
          (\<lambda>_. ret p))"

text \<open>\<open>UPDATE ... SET quantity = quantity + ?, reserved_quantity = reserved_quantity + ? WHERE id = ?\<close>.\<close>

definition add_stock :: "instant \<Rightarrow> string \<Rightarrow> int \<Rightarrow> int \<Rightarrow> GoodsDB \<Rightarrow> GoodsDB option" where
  "add_stock now i dq dr d =
    (if \<forall>p \<in> set (gd_products d). pd_ID p = i \<longrightarrow>
        in_i32 (pd_Quantity p + dq) \<and> in_i32 (pd_ReservedQuantity p + dr)
     then Some (d\<lparr>gd_products := set_rows (\<lambda>p. pd_ID p = i)
       (\<lambda>p. p\<lparr>pd_Quantity := pd_Quantity p + dq, pd_ReservedQuantity := pd_ReservedQuantity p + dr,
              pd_UpdatedAt := now\<rparr>) (gd_products d)\<rparr>)
     else None)"

definition repo_AddProductQuantityTx :: "instant \<Rightarrow> string \<Rightarrow> int \<Rightarrow> unit stmt" where
  "repo_AddProductQuantityTx now i quantity = exec (add_stock now i quantity 0)"

definition repo_UpdateProductReservedTx :: "instant \<Rightarrow> string \<Rightarrow> int \<Rightarrow> int \<Rightarrow> unit stmt" where
  "repo_UpdateProductReservedTx now i deltaQty deltaReserved = exec (add_stock now i deltaQty deltaReserved)"

definition repo_GetProductForUpdateTx :: "string \<Rightarrow> Product stmt" where
  "repo_GetProductForUpdateTx i = product_query (row (\<lambda>p. pd_ID p = i))"

section \<open>Sequence numbers\<close>

definition in_zone :: "string \<Rightarrow> string \<Rightarrow> string \<Rightarrow> RecycledSeq \<Rightarrow> bool" where
  "in_zone iid mz sz r \<longleftrightarrow> rs_InventoryID r = iid \<and> rs_MainZone r = mz \<and> rs_SubZone r = sz"

definition zone_counter :: "string \<Rightarrow> string \<Rightarrow> string \<Rightarrow> SeqCounter \<Rightarrow> bool" where
  "zone_counter iid mz sz s \<longleftrightarrow> sq_InventoryID s = iid \<and> sq_MainZone s = mz \<and> sq_SubZone s = sz"

definition repo_PopRecycledSeq :: "string \<Rightarrow> string \<Rightarrow> string \<Rightarrow> int stmt" where
  "repo_PopRecycledSeq iid mz sz = bind
     (query (\<lambda>d. row (\<lambda>_. True) (sort_key rs_SeqNumber (filter (in_zone iid mz sz) (gd_recycled d)))))
     (\<lambda>r. bind (exec (\<lambda>d. Some (d\<lparr>gd_recycled :=
              filter (\<lambda>x. \<not> (in_zone iid mz sz x \<and> rs_SeqNumber x = rs_SeqNumber r)) (gd_recycled d)\<rparr>)))
            (\<lambda>_. ret (rs_SeqNumber r)))"

definition bump_counter :: "string \<Rightarrow> string \<Rightarrow> string \<Rightarrow> GoodsDB \<Rightarrow> GoodsDB option" where
  "bump_counter iid mz sz d =
    (case find (zone_counter iid mz sz) (gd_counters d) of
       None \<Rightarrow> Some (d\<lparr>gd_counters := gd_counters d @
         [\<lparr>sq_InventoryID = iid, sq_MainZone = mz, sq_SubZone = sz, sq_CurrentMax = 1\<rparr>]\<rparr>)
     | Some s \<Rightarrow>
         if in_i32 (sq_CurrentMax s + 1)
         then Some (d\<lparr>gd_counters := set_rows (zone_counter iid mz sz)
                (\<lambda>s. s\<lparr>sq_CurrentMax := sq_CurrentMax s + 1\<rparr>) (gd_counters d)\<rparr>)
         else None)"

definition repo_IncrementSeqCounter :: "string \<Rightarrow> string \<Rightarrow> string \<Rightarrow> int stmt" where
  "repo_IncrementSeqCounter iid mz sz = bind new_uuid (\<lambda>_. bind (exec (bump_counter iid mz sz)) (\<lambda>_.
     bind (query (\<lambda>d. row (zone_counter iid mz sz) (gd_counters d))) (\<lambda>s. ret (sq_CurrentMax s))))"

definition repo_AddRecycledSeqTx :: "string \<Rightarrow> string \<Rightarrow> string \<Rightarrow> int \<Rightarrow> unit stmt" where
  "repo_AddRecycledSeqTx iid mz sz seq = bind new_uuid (\<lambda>_. exec (\<lambda>d.
     if in_i32 seq then Some (d\<lparr>gd_recycled := gd_recycled d @
       [\<lparr>rs_InventoryID = iid, rs_MainZone = mz, rs_SubZone = sz, rs_SeqNumber = seq\<rparr>]\<rparr>) else None))"

section \<open>Orders\<close>

definition repo_ListOutboundOrders :: "string \<Rightarrow> OutboundOrder list stmt" where
  "repo_ListOutboundOrders iid = query (\<lambda>d.
     Inr (sort_key (\<lambda>x. - oo_CreatedAt x) (filter (\<lambda>x. oo_InventoryID x = iid) (gd_orders d))))"

definition repo_CreateOutboundOrderTx :: "instant \<Rightarrow> CreateOutboundReq \<Rightarrow> OutboundOrder stmt" where
  "repo_CreateOutboundOrderTx now req = bind new_uuid (\<lambda>i.
     let order = \<lparr>oo_ID = i, oo_InventoryID = co_InventoryID req, oo_OrderNo = co_OrderNo req,
                  oo_Type = over (co_Type req) ''outbound'', oo_Status = over (co_Status req) ''pending'',
                  oo_OrderInfo = co_OrderInfo req, oo_Remark = co_Remark req,
                  oo_Items = JItems (co_Items req), oo_SourceReserveID = co_SourceReserveID req,
                  oo_CreatedAt = now, oo_UpdatedAt = now, oo_ConfirmedAt = None, oo_CancelledAt = None\<rparr>
     in bind (exec (\<lambda>d. map_option (\<lambda>t. d\<lparr>gd_orders := t\<rparr>) (insert_row oo_ID order (gd_orders d))))
          (\<lambda>_. ret order))"

definition repo_GetOutboundOrderForUpdateTx :: "string \<Rightarrow> OutboundOrder stmt" where
  "repo_GetOutboundOrderForUpdateTx i = query (\<lambda>d. row (\<lambda>x. oo_ID x = i) (gd_orders d))"

definition repo_UpdateOutboundOrderStatusTx ::
  "instant \<Rightarrow> string \<Rightarrow> string \<Rightarrow> instant option \<Rightarrow> instant option \<Rightarrow> unit stmt" where
  "repo_UpdateOutboundOrderStatusTx now i status confirmedAt cancelledAt = exec (\<lambda>d.
     Some (d\<lparr>gd_orders := set_rows (\<lambda>x. oo_ID x = i)
       (\<lambda>x. x\<lparr>oo_Status := status, oo_ConfirmedAt := confirmedAt, oo_CancelledAt := cancelledAt,
              oo_UpdatedAt := now\<rparr>) (gd_orders d)\<rparr>))"

section \<open>Inbound logs\<close>

definition repo_ListInboundLogs :: "string \<Rightarrow> InboundLog list stmt" where
  "repo_ListInboundLogs iid = query (\<lambda>d.
     Inr (sort_key (\<lambda>l. - il_CreatedAt l) (filter (\<lambda>l. il_InventoryID l = iid) (gd_logs d))))"

definition repo_GetInboundLog :: "string \<Rightarrow> InboundLog stmt" where
  "repo_GetInboundLog i = query (\<lambda>d. row (\<lambda>l. il_ID l = i) (gd_logs d))"

definition add_log :: "InboundLog \<Rightarrow> InboundLog stmt" where
  "add_log l = bind (exec (\<lambda>d. map_option (\<lambda>t. d\<lparr>gd_logs := t\<rparr>) (insert_row il_ID l (gd_logs d)))) (\<lambda>_. ret l)"

definition repo_CreateInboundLog :: "instant \<Rightarrow> CreateInboundLogReq \<Rightarrow> InboundLog stmt" where
  "repo_CreateInboundLog now req = bind new_uuid (\<lambda>i.
     add_log \<lparr>il_ID = i, il_InventoryID = cl_InventoryID req, il_OrderNo = cl_OrderNo req,
              il_Type = cl_Type req, il_Remark = cl_Remark req, il_Items = JItems (cl_Items req),
              il_CreatedAt = now\<rparr>)"

definition repo_UpdateInboundLog :: "UpdateInboundLogReq \<Rightarrow> InboundLog stmt" where
  "repo_UpdateInboundLog req = bind (repo_GetInboundLog (ul_ID req)) (\<lambda>l0.
     let l = l0\<lparr>il_Type := over (ul_Type req) (il_Type l0),
                il_Remark := (case ul_Remark req of None \<Rightarrow> il_Remark l0 | Some r \<Rightarrow> Some r),
                il_Items := (case ul_Items req of None \<Rightarrow> il_Items l0 | Some xs \<Rightarrow> JItems xs)\<rparr>
     in bind (exec (\<lambda>d. Some (d\<lparr>gd_logs := set_rows (\<lambda>x. il_ID x = il_ID l)
              (\<lambda>x. x\<lparr>il_Type := il_Type l, il_Remark := il_Remark l, il_Items := il_Items l\<rparr>) (gd_logs d)\<rparr>)))
          (\<lambda>_. ret l))"

definition repo_DeleteInboundLog :: "string \<Rightarrow> unit stmt" where
  "repo_DeleteInboundLog i = exec (\<lambda>d. Some (d\<lparr>gd_logs := filter (\<lambda>l. il_ID l \<noteq> i) (gd_logs d)\<rparr>))"

text \<open>The log of an inbound operation: its order number is the default of the column, the empty string.\<close>

definition repo_CreateInboundLogItemTx :: "instant \<Rightarrow> string \<Rightarrow> string \<Rightarrow> json \<Rightarrow> InboundLog stmt" where
  "repo_CreateInboundLogItemTx now iid logType items = bind new_uuid (\<lambda>i.
     bind (add_log \<lparr>il_ID = i, il_InventoryID = iid, il_OrderNo = Some [], il_Type = logType,
                    il_Remark = None, il_Items = items, il_CreatedAt = now\<rparr>)
       (\<lambda>l. ret (l\<lparr>il_OrderNo := None\<rparr>)))"

section \<open>Tags\<close>

text \<open>Tag names are unique, and so are status codes.\<close>

definition repo_ListTags :: "Tag list stmt" where
  "repo_ListTags = query (\<lambda>d. Inr (sort_key tg_Name (gd_tags d)))"

definition repo_GetTag :: "string \<Rightarrow> Tag stmt" where
  "repo_GetTag i = query (\<lambda>d. row (\<lambda>t. tg_ID t = i) (gd_tags d))"

definition repo_CreateTag :: "instant \<Rightarrow> CreateTagReq \<Rightarrow> Tag stmt" where
  "repo_CreateTag now req = bind new_uuid (\<lambda>i.
     let item = \<lparr>tg_ID = i, tg_Name = ct_Name req, tg_Color = over (ct_Color req) ''#1890ff'', tg_CreatedAt = now\<rparr>
     in bind (exec (\<lambda>d. if ct_Name req \<in> tg_Name ` set (gd_tags d) then None
            else map_option (\<lambda>t. d\<lparr>gd_tags := t\<rparr>) (insert_row tg_ID item (gd_tags d))))
          (\<lambda>_. ret item))"

definition repo_UpdateTag :: "UpdateTagReq \<Rightarrow> Tag stmt" where
  "repo_UpdateTag req = bind (repo_GetTag (ut_ID req)) (\<lambda>t0.
     let tag = t0\<lparr>tg_Name := over (ut_Name req) (tg_Name t0), tg_Color := over (ut_Color req) (tg_Color t0)\<rparr>
     in bind (exec (\<lambda>d. if \<exists>x \<in> set (gd_tags d). tg_ID x \<noteq> tg_ID tag \<and> tg_Name x = tg_Name tag then None
            else Some (d\<lparr>gd_tags := set_rows (\<lambda>x. tg_ID x = tg_ID tag)
              (\<lambda>x. x\<lparr>tg_Name := tg_Name tag, tg_Color := tg_Color tag\<rparr>) (gd_tags d)\<rparr>)))
          (\<lambda>_. ret tag))"

definition repo_DeleteTag :: "string \<Rightarrow> unit stmt" where
  "repo_DeleteTag i = exec (\<lambda>d. Some (d\<lparr>gd_tags := filter (\<lambda>t. tg_ID t \<noteq> i) (gd_tags d)\<rparr>))"

section \<open>Status codes\<close>

definition repo_ListStatusCodes :: "StatusCode list stmt" where
  "repo_ListStatusCodes = query (\<lambda>d. Inr (sort_key sd_Code (gd_status_codes d)))"

definition repo_GetStatusCode :: "string \<Rightarrow> StatusCode stmt" where
  "repo_GetStatusCode i = query (\<lambda>d. row (\<lambda>s. sd_ID s = i) (gd_status_codes d))"

definition repo_CreateStatusCode :: "instant \<Rightarrow> AddStatusCodeReq \<Rightarrow> StatusCode stmt" where
  "repo_CreateStatusCode now req = bind new_uuid (\<lambda>i.
     let item = \<lparr>sd_ID = i, sd_Code = ac_Code req, sd_Label = ac_Label req, sd_IsSystem = False, sd_CreatedAt = now\<rparr>
     in bind (exec (\<lambda>d. if ac_Code req \<in> sd_Code ` set (gd_status_codes d) then None
            else map_option (\<lambda>t. d\<lparr>gd_status_codes := t\<rparr>) (insert_row sd_ID item (gd_status_codes d))))
          (\<lambda>_. ret item))"

definition repo_UpdateStatusCode :: "UpdateStatusCodeReq \<Rightarrow> StatusCode stmt" where
  "repo_UpdateStatusCode req = bind (repo_GetStatusCode (us_ID req)) (\<lambda>s0.
     let sc = (if us_Label req \<noteq> [] then s0\<lparr>sd_Label := us_Label req\<rparr> else s0)
     in bind (exec (\<lambda>d. Some (d\<lparr>gd_status_codes := set_rows (\<lambda>x. sd_ID x = sd_ID sc)
              (\<lambda>x. x\<lparr>sd_Label := sd_Label sc\<rparr>) (gd_status_codes d)\<rparr>)))
          (\<lambda>_. ret sc))"

definition repo_DeleteStatusCode :: "string \<Rightarrow> unit stmt" where
  "repo_DeleteStatusCode i = exec (\<lambda>d. Some (d\<lparr>gd_status_codes := filter (\<lambda>s. sd_ID s \<noteq> i) (gd_status_codes d)\<rparr>))"

end
