(* ===== verification/GoodsService.thy ===== *)
theory GoodsService
  imports GoodsRepo
begin

text \<open>
  The service of the goods module, src/zzz/goodser/service.go: stock going in and out, in transactions
  over the repository, and the tables of src/zzz/goodser/module.go.

  A transaction works on its own copy of the tables, which replaces the committed ones when \<open>Commit\<close>
  is answered and is dropped otherwise; the service ignores the result of \<open>Commit\<close>. Transactions run
  one after the other. Statements that a method sends past its transaction (\<open>r.db\<close> instead of \<open>tx\<close>)
  see and change the committed tables. All calls of \<open>time.Now\<close> in one method return the same instant.
\<close>

section \<open>The tables at the first start\<close>

definition seed_code :: "instant \<Rightarrow> string \<Rightarrow> string \<Rightarrow> string \<Rightarrow> StatusCode" where
  "seed_code now i code label = \<lparr>sd_ID = i, sd_Code = code, sd_Label = label, sd_IsSystem = True, sd_CreatedAt = now\<rparr>"

definition init_tables :: "instant \<Rightarrow> GoodsDB" where
  "init_tables now = \<lparr>gd_inventories = [], gd_products = [], gd_image_list = False, gd_recycled = [],
     gd_counters = [], gd_orders = [], gd_logs = [], gd_status_codes = [
     seed_code now ''sys-a'' ''A'' [CHR 0xE6, CHR 0xAD, CHR 0xA3, CHR 0xE5, CHR 0xB8, CHR 0xB8],
     seed_code now ''sys-b'' ''B'' [CHR 0xE9, CHR 0xA2, CHR 0x84, CHR 0xE7, CHR 0x95, CHR 0x99],
     seed_code now ''sys-c'' ''C'' [CHR 0xE5, CHR 0xB7, CHR 0xB2, CHR 0xE6, CHR 0x8B, CHR 0x86],
     seed_code now ''sys-d'' ''D'' [CHR 0xE6, CHR 0x8D, CHR 0x9F, CHR 0xE5, CHR 0x9D, CHR 0x8F],
     seed_code now ''sys-e'' ''E'' [CHR 0xE8, CHR 0xBF, CHR 0x87, CHR 0xE6, CHR 0x9C, CHR 0x9F],
     seed_code now ''sys-f'' ''F'' [CHR 0xE5, CHR 0x81, CHR 0x9C, CHR 0xE7, CHR 0x94, CHR 0xA8],
     seed_code now ''sys-n'' ''N'' [CHR 0xE5, CHR 0x85, CHR 0xA8, CHR 0xE6, CHR 0x96, CHR 0xB0]], gd_tags = []\<rparr>"

section \<open>Transactions\<close>

definition begin_tx :: "unit stmt" where
  "begin_tx = query (\<lambda>_. Inr ())"

definition tx_body :: "'a stmt \<Rightarrow> 'a stmt" where
  "tx_body body c = (case body c of
     (Inl e, c') \<Rightarrow> (Inl e, c'\<lparr>cn_db := cn_db c\<rparr>)
   | (Inr x, c') \<Rightarrow> (case answered c' of
       (committed, c'') \<Rightarrow> (Inr x, if committed then c'' else c''\<lparr>cn_db := cn_db c\<rparr>)))"

definition with_tx :: "'a stmt \<Rightarrow> 'a stmt" where
  "with_tx body = bind begin_tx (\<lambda>_. tx_body body)"

text \<open>A query outside the transaction: it reads the committed tables \<open>d\<close>.\<close>

definition outside :: "GoodsDB \<Rightarrow> 'a stmt \<Rightarrow> 'a stmt" where
  "outside d m c = (case m (c\<lparr>cn_db := d\<rparr>) of (r, c') \<Rightarrow> (r, c'\<lparr>cn_db := cn_db c\<rparr>))"

definition or_not_found :: "int \<Rightarrow> 'a stmt \<Rightarrow> 'a stmt" where
  "or_not_found code m = attempt m (\<lambda>r. case r of
     Inl e \<Rightarrow> if e = ErrNoRows then fail (GoodserError code) else fail e
   | Inr x \<Rightarrow> ret x)"

section \<open>Inventories, tags, status codes and logs\<close>

definition svc_ListInventories where "svc_ListInventories = repo_ListInventories"

definition svc_GetInventory :: "string \<Rightarrow> Inventory stmt" where
  "svc_GetInventory i = or_not_found ErrInventoryNotFound (repo_GetInventory i)"

definition svc_CreateInventory where "svc_CreateInventory = repo_CreateInventory"

text \<open>The inventory is read twice, once by the service and once by the repository.\<close>

definition svc_UpdateInventory :: "instant \<Rightarrow> UpdateInventoryReq \<Rightarrow> Inventory stmt" where
  "svc_UpdateInventory now req =
     bind (or_not_found ErrInventoryNotFound (repo_GetInventory (ui_ID req))) (\<lambda>_. repo_UpdateInventory now req)"

definition svc_DeleteInventory where "svc_DeleteInventory = repo_DeleteInventory"
definition svc_ListProducts where "svc_ListProducts = repo_ListProducts"
definition svc_SearchProducts where "svc_SearchProducts = repo_SearchProducts"
definition svc_ListOutboundOrders where "svc_ListOutboundOrders = repo_ListOutboundOrders"
definition svc_ListInboundLogs where "svc_ListInboundLogs = repo_ListInboundLogs"
definition svc_ListTags where "svc_ListTags = repo_ListTags"
definition svc_CreateTag where "svc_CreateTag = repo_CreateTag"

definition svc_UpdateTag :: "UpdateTagReq \<Rightarrow> Tag stmt" where
  "svc_UpdateTag req = or_not_found ErrTagNotFound (repo_UpdateTag req)"

definition svc_DeleteTag where "svc_DeleteTag = repo_DeleteTag"
definition svc_ListStatusCodes where "svc_ListStatusCodes = repo_ListStatusCodes"
definition svc_CreateStatusCode where "svc_CreateStatusCode = repo_CreateStatusCode"

definition svc_UpdateStatusCode :: "UpdateStatusCodeReq \<Rightarrow> StatusCode stmt" where
  "svc_UpdateStatusCode req = or_not_found ErrStatusCodeNotFound (repo_UpdateStatusCode req)"

definition svc_DeleteStatusCode where "svc_DeleteStatusCode = repo_DeleteStatusCode"
definition svc_CreateInboundLog where "svc_CreateInboundLog = repo_CreateInboundLog"

definition svc_UpdateInboundLog :: "UpdateInboundLogReq \<Rightarrow> InboundLog stmt" where
  "svc_UpdateInboundLog req = or_not_found ErrInboundLogNotFound (repo_UpdateInboundLog req)"

definition svc_DeleteInboundLog where "svc_DeleteInboundLog = repo_DeleteInboundLog"

section \<open>Products and their numbers\<close>

text \<open>Any error of \<open>PopRecycledSeq\<close> makes the service take a new number.\<close>

definition svc_AllocateSeq :: "AllocateSeqReq \<Rightarrow> int stmt" where
  "svc_AllocateSeq req = with_tx
     (attempt (repo_PopRecycledSeq (aq_InventoryID req) (aq_MainZone req) (aq_SubZone req)) (\<lambda>r. case r of
        Inr seq \<Rightarrow> ret seq
      | Inl _ \<Rightarrow> repo_IncrementSeqCounter (aq_InventoryID req) (aq_MainZone req) (aq_SubZone req)))"

definition svc_CreateProduct :: "instant \<Rightarrow> CreateProductReq \<Rightarrow> Product stmt" where
  "svc_CreateProduct now req = with_tx (repo_CreateProductTx now req)"

definition svc_UpdateProduct :: "instant \<Rightarrow> UpdateProductReq \<Rightarrow> Product stmt" where
  "svc_UpdateProduct now req = or_not_found ErrProductNotFound (repo_UpdateProduct now req)"

text \<open>The row is deleted past the transaction that then records its number for reuse.\<close>

definition svc_DeleteProduct :: "string \<Rightarrow> unit stmt" where
  "svc_DeleteProduct i = bind (or_not_found ErrProductNotFound (repo_GetProduct i)) (\<lambda>p.
     bind begin_tx (\<lambda>_. bind (repo_DeleteProduct i) (\<lambda>_.
       tx_body (repo_AddRecycledSeqTx (pd_InventoryID p) (pd_MainZone p) (pd_SubZone p) (pd_SeqNumber p)))))"

section \<open>Stock in\<close>

definition single_create :: "InboundSingleReq \<Rightarrow> string \<Rightarrow> CreateProductReq" where
  "single_create r code = \<lparr>cp_InventoryID = is_InventoryID r, cp_Code = code, cp_MainZone = is_MainZone r,
     cp_SubZone = is_SubZone r, cp_SeqNumber = is_SeqNumber r, cp_Quantity = Some (over (is_Quantity r) 0),
     cp_StatusCode = is_StatusCode r, cp_Name = is_Name r, cp_OriginalPrice = is_OriginalPrice r,
     cp_MarketPrice = is_MarketPrice r, cp_ExpectedPrice = is_ExpectedPrice r, cp_Remark = is_Remark r,
     cp_StorageLocation = is_StorageLocation r, cp_ImageURL = is_ImageURL r, cp_Tags = is_Tags r\<rparr>"

definition product_item :: "Product \<Rightarrow> OrderItem" where
  "product_item p = \<lparr>oi_ProductID = pd_ID p, oi_ProductName = pd_Name p, oi_ProductCode = pd_Code p,
     oi_Quantity = pd_Quantity p, oi_ImageURL = None\<rparr>"

text \<open>The lookup by code runs before the first statement of the transaction.\<close>

definition svc_InboundSingle :: "instant \<Rightarrow> InboundSingleReq \<Rightarrow> Product stmt" where
  "svc_InboundSingle now req = with_tx
    (let code = product_code (is_MainZone req) (is_SubZone req) (is_SeqNumber req) (is_StatusCode req)
     in bind
       (attempt (repo_FindProductByCode (is_InventoryID req) code) (\<lambda>r. case r of
          Inl e \<Rightarrow> if e = ErrNoRows then repo_CreateProductTx now (single_create req code) else fail e
        | Inr p \<Rightarrow> let qty = over (is_Quantity req) 1
                   in bind (repo_AddProductQuantityTx now (pd_ID p) qty)
                        (\<lambda>_. ret (p\<lparr>pd_Quantity := pd_Quantity p + qty\<rparr>))))
       (\<lambda>result. bind (repo_CreateInboundLogItemTx now (is_InventoryID req) ''single'' (JItems [product_item result]))
          (\<lambda>_. ret result)))"

definition batch_create :: "string \<Rightarrow> InboundBatchReqItem \<Rightarrow> string \<Rightarrow> CreateProductReq" where
  "batch_create iid r code = \<lparr>cp_InventoryID = iid, cp_Code = code, cp_MainZone = bi_MainZone r,
     cp_SubZone = bi_SubZone r, cp_SeqNumber = bi_SeqNumber r, cp_Quantity = Some (over (bi_Quantity r) 0),
     cp_StatusCode = bi_StatusCode r, cp_Name = bi_Name r, cp_OriginalPrice = bi_OriginalPrice r,
     cp_MarketPrice = bi_MarketPrice r, cp_ExpectedPrice = bi_ExpectedPrice r, cp_Remark = bi_Remark r,
     cp_StorageLocation = bi_StorageLocation r, cp_ImageURL = bi_ImageURL r, cp_Tags = bi_Tags r\<rparr>"

text \<open>The loop of \<open>InboundBatch\<close>: every lookup reads the committed tables \<open>d\<close>, not the transaction's.\<close>

fun batch_items :: "GoodsDB \<Rightarrow> instant \<Rightarrow> string \<Rightarrow> InboundBatchReqItem list \<Rightarrow> Product list stmt" where
  "batch_items d now iid [] = ret []"
| "batch_items d now iid (item # items) =
    (let code = product_code (bi_MainZone item) (bi_SubZone item) (bi_SeqNumber item) (bi_StatusCode item)
     in bind
       (attempt (outside d (repo_FindProductByCode iid code)) (\<lambda>r. case r of
          Inl e \<Rightarrow> if e = ErrNoRows then repo_CreateProductTx now (batch_create iid item code) else fail e
        | Inr p \<Rightarrow> let qty = over (bi_Quantity item) 1
                   in bind (repo_AddProductQuantityTx now (pd_ID p) qty)
                        (\<lambda>_. ret (p\<lparr>pd_Quantity := pd_Quantity p + qty\<rparr>))))
       (\<lambda>p. bind (batch_items d now iid items) (\<lambda>ps. ret (p # ps))))"

definition svc_InboundBatch :: "instant \<Rightarrow> InboundBatchReq \<Rightarrow> (Product list \<times> nat) stmt" where
  "svc_InboundBatch now req = with_tx (\<lambda>c.
     bind (batch_items (cn_db c) now (ib_InventoryID req) (ib_Items req)) (\<lambda>results.
       bind (repo_CreateInboundLogItemTx now (ib_InventoryID req) ''batch'' (JProducts results))
         (\<lambda>_. ret (results, length results))) c)"

fun search_items :: "instant \<Rightarrow> SearchImportReqItem list \<Rightarrow> Product list stmt" where
  "search_items now [] = ret []"
| "search_items now (item # items) =
     bind (or_not_found ErrProductNotFound (repo_GetProductForUpdateTx (si_ProductID item))) (\<lambda>p.
       bind (repo_AddProductQuantityTx now (pd_ID p) (si_Quantity item)) (\<lambda>_.
         bind (search_items now items) (\<lambda>ps.
           ret (p\<lparr>pd_Quantity := pd_Quantity p + si_Quantity item\<rparr> # ps))))"

definition svc_InboundSearchImport :: "instant \<Rightarrow> InboundSearchImportReq \<Rightarrow> (Product list \<times> nat) stmt" where
  "svc_InboundSearchImport now req = with_tx
     (bind (search_items now (ir_Items req)) (\<lambda>results.
       bind (repo_CreateInboundLogItemTx now (ir_InventoryID req) ''search'' (JProducts results))
         (\<lambda>_. ret (results, length results))))"

section \<open>Stock out\<close>

text \<open>Reading a JSON column into a list of order items; a product has two fields of the same name.\<close>

definition unmarshal_items :: "json \<Rightarrow> OrderItem list" where
  "unmarshal_items j = (case j of
     JItems xs \<Rightarrow> xs
   | JProducts ps \<Rightarrow> map (\<lambda>p. \<lparr>oi_ProductID = [], oi_ProductName = [], oi_ProductCode = [],
       oi_Quantity = pd_Quantity p, oi_ImageURL = pd_ImageURL p\<rparr>) ps)"

fun lock_items :: "instant \<Rightarrow> OrderItem list \<Rightarrow> unit stmt" where
  "lock_items now [] = ret ()"
| "lock_items now (item # items) = bind (repo_GetProductForUpdateTx (oi_ProductID item)) (\<lambda>p.
     if pd_Quantity p - pd_ReservedQuantity p < oi_Quantity item then fail (GoodserError ErrInsufficientStock)
     else bind (repo_UpdateProductReservedTx now (oi_ProductID item) 0 (oi_Quantity item))
       (\<lambda>_. lock_items now items))"

text \<open>The loops of the closing methods: \<open>out\<close> says whether the goods leave the stock too.\<close>

fun release_items :: "bool \<Rightarrow> instant \<Rightarrow> OrderItem list \<Rightarrow> unit stmt" where
  "release_items out now [] = ret ()"
| "release_items out now (item # items) =
     bind (repo_UpdateProductReservedTx now (oi_ProductID item)
         (if out then - oi_Quantity item else 0) (- oi_Quantity item))
       (\<lambda>_. release_items out now items)"

definition open_status :: "string \<Rightarrow> bool" where
  "open_status s \<longleftrightarrow> s = OrderStatusPending \<or> s = OrderStatusReserved"

definition svc_CreateOutboundOrder :: "instant \<Rightarrow> CreateOutboundReq \<Rightarrow> OutboundOrder stmt" where
  "svc_CreateOutboundOrder now req = with_tx
     (bind (lock_items now (co_Items req)) (\<lambda>_. repo_CreateOutboundOrderTx now req))"

definition svc_ConfirmOutbound :: "instant \<Rightarrow> string \<Rightarrow> OutboundOrder stmt" where
  "svc_ConfirmOutbound now i = with_tx (bind (repo_GetOutboundOrderForUpdateTx i) (\<lambda>order.
     if \<not> open_status (oo_Status order) then fail (GoodserError ErrInvalidOrderStatus)
     else bind (release_items True now (unmarshal_items (oo_Items order))) (\<lambda>_.
       bind (repo_UpdateOutboundOrderStatusTx now (oo_ID order) OrderStatusConfirmed (Some now) None)
         (\<lambda>_. ret (order\<lparr>oo_Status := OrderStatusConfirmed\<rparr>)))))"

definition svc_CancelOutbound :: "instant \<Rightarrow> string \<Rightarrow> OutboundOrder stmt" where
  "svc_CancelOutbound now i = with_tx (bind (repo_GetOutboundOrderForUpdateTx i) (\<lambda>order.
     if \<not> open_status (oo_Status order) then fail (GoodserError ErrInvalidOrderStatus)
     else bind (release_items False now (unmarshal_items (oo_Items order))) (\<lambda>_.
       bind (repo_UpdateOutboundOrderStatusTx now (oo_ID order) OrderStatusCancelled None (Some now))
         (\<lambda>_. ret (order\<lparr>oo_Status := OrderStatusCancelled\<rparr>)))))"

definition svc_CancelReserve :: "instant \<Rightarrow> string \<Rightarrow> OutboundOrder stmt" where
  "svc_CancelReserve now i = with_tx (bind (repo_GetOutboundOrderForUpdateTx i) (\<lambda>order.
     if oo_Type order \<noteq> OrderTypeReserve then fail (GoodserError ErrInvalidOrderStatus)
     else if \<not> open_status (oo_Status order) then fail (GoodserError ErrInvalidOrderStatus)
     else bind (release_items False now (unmarshal_items (oo_Items order))) (\<lambda>_.
       bind (repo_UpdateOutboundOrderStatusTx now (oo_ID order) OrderStatusCancelled None (Some now))
         (\<lambda>_. ret (order\<lparr>oo_Status := OrderStatusCancelled\<rparr>)))))"

definition reserve_order :: "ReserveToOutboundReq \<Rightarrow> CreateOutboundReq" where
  "reserve_order r = \<lparr>co_InventoryID = ro_InventoryID r, co_OrderNo = ro_OrderNo r,
     co_Type = Some OrderTypeOutbound, co_Status = Some OrderStatusPending, co_OrderInfo = ro_OrderInfo r,
     co_Remark = ro_Remark r, co_Items = ro_Items r, co_SourceReserveID = Some (ro_ID r)\<rparr>"

definition svc_ReserveToOutbound :: "instant \<Rightarrow> ReserveToOutboundReq \<Rightarrow> OutboundOrder stmt" where
  "svc_ReserveToOutbound now req = with_tx (bind (repo_GetOutboundOrderForUpdateTx (ro_ID req)) (\<lambda>order.
     if oo_Type order \<noteq> OrderTypeReserve then fail (GoodserError ErrInvalidOrderStatus)
     else if \<not> open_status (oo_Status order) then fail (GoodserError ErrInvalidOrderStatus)
     else bind (release_items False now (unmarshal_items (oo_Items order))) (\<lambda>_.
       bind (repo_UpdateOutboundOrderStatusTx now (oo_ID order) OrderStatusConfirmed (Some now) None) (\<lambda>_.
         bind (repo_CreateOutboundOrderTx now (reserve_order req)) (\<lambda>newOrder.
           bind (lock_items now (ro_Items req)) (\<lambda>_. ret newOrder))))))"

end
