(* ===== verification/GoodsStock.thy ===== *)
theory GoodsStock
  imports GoodsService
begin

text \<open>
  The goods service keeps its books. Rules for statements (\<open>yields\<close>: what holds after a success;
  \<open>preserves\<close>: what holds in any case), the histories of calls of the service, and the invariant:
  what is reserved of a product is what the open orders ask for, and is never more than the stock.
\<close>

section \<open>Reasoning about statements\<close>

named_theorems yields_rules

definition yields :: "(conn \<Rightarrow> bool) \<Rightarrow> 'a stmt \<Rightarrow> ('a \<Rightarrow> conn \<Rightarrow> bool) \<Rightarrow> bool" where
  "yields P m Q \<longleftrightarrow> (\<forall>c x c'. P c \<longrightarrow> m c = (Inr x, c') \<longrightarrow> Q x c')"

definition preserves :: "(conn \<Rightarrow> bool) \<Rightarrow> 'a stmt \<Rightarrow> bool" where
  "preserves P m \<longleftrightarrow> (\<forall>c. P c \<longrightarrow> P (snd (m c)))"

text \<open>A predicate that does not look at the answers to come.\<close>

definition blind :: "(conn \<Rightarrow> bool) \<Rightarrow> bool" where
  "blind P \<longleftrightarrow> (\<forall>c us. P c \<longrightarrow> P (c\<lparr>cn_up := us\<rparr>))"

lemma yieldsI: "(\<And>c x c'. P c \<Longrightarrow> m c = (Inr x, c') \<Longrightarrow> Q x c') \<Longrightarrow> yields P m Q"
  by (simp add: yields_def)

lemma yieldsD: "yields P m Q \<Longrightarrow> P c \<Longrightarrow> m c = (Inr x, c') \<Longrightarrow> Q x c'"
  by (simp add: yields_def)

lemma yields_ret: "(\<And>c. P c \<Longrightarrow> Q x c) \<Longrightarrow> yields P (ret x) Q"
  by (simp add: yields_def ret_def)

lemma yields_fail [yields_rules]: "yields P (fail e) Q"
  by (simp add: yields_def fail_def)

lemma yields_bind: "yields P m R \<Longrightarrow> (\<And>x. yields (R x) (f x) Q) \<Longrightarrow> yields P (bind m f) Q"
  by (fastforce simp: yields_def bind_def split: prod.splits sum.splits)

lemma yields_pre: "yields P m Q \<Longrightarrow> (\<And>c. P' c \<Longrightarrow> P c) \<Longrightarrow> yields P' m Q"
  by (auto simp: yields_def)

lemma yields_post: "yields P m Q \<Longrightarrow> (\<And>x c. Q x c \<Longrightarrow> Q' x c) \<Longrightarrow> yields P m Q'"
  by (auto simp: yields_def)

lemma answered_cases: "\<exists>b us. answered c = (b, c\<lparr>cn_up := us\<rparr>)"
proof (cases "cn_up c")
  case Nil
  then have "c = c\<lparr>cn_up := []\<rparr>" by simp
  with Nil show ?thesis unfolding answered_def by (auto intro!: exI [of _ "[]"])
qed (auto simp: answered_def)

lemma yields_query:
  assumes "blind P" "\<And>c x. P c \<Longrightarrow> q (cn_db c) = Inr x \<Longrightarrow> Q x c"
  shows "yields P (query q) Q"
proof (rule yieldsI)
  fix c x c'
  assume P: "P c" and q: "query q c = (Inr x, c')"
  obtain b us where a: "answered c = (b, c\<lparr>cn_up := us\<rparr>)" using answered_cases by blast
  then have "c' = c\<lparr>cn_up := us\<rparr>" "q (cn_db c') = Inr x"
    using q by (auto simp: query_def split: if_splits)
  with assms P show "Q x c'" by (simp add: blind_def)
qed

lemma yields_exec:
  assumes "blind P" "\<And>c d. P c \<Longrightarrow> x (cn_db c) = Some d \<Longrightarrow> Q () (c\<lparr>cn_db := d\<rparr>)"
  shows "yields P (exec x) Q"
proof (rule yieldsI)
  fix c u c'
  assume P: "P c" and q: "exec x c = (Inr u, c')"
  obtain b us where a: "answered c = (b, c\<lparr>cn_up := us\<rparr>)" using answered_cases by blast
  then obtain d where "x (cn_db c) = Some d" "c' = c\<lparr>cn_up := us, cn_db := d\<rparr>"
    using q by (auto simp: exec_def split: if_splits option.splits)
  moreover have "P (c\<lparr>cn_up := us\<rparr>)" using assms(1) P by (simp add: blind_def)
  ultimately show "Q u c'" using assms(2) [of "c\<lparr>cn_up := us\<rparr>" d] by simp
qed

lemma yields_uuid:
  "(\<And>c. P c \<Longrightarrow> Q (cn_uuid c (cn_drawn c)) (c\<lparr>cn_drawn := Suc (cn_drawn c)\<rparr>)) \<Longrightarrow> yields P new_uuid Q"
  by (auto simp: yields_def new_uuid_def)

lemma yields_attempt:
  assumes "preserves P m" "\<And>r. yields P (f r) Q"
  shows "yields P (attempt m f) Q"
  using assms by (fastforce simp: yields_def preserves_def attempt_def split: prod.splits)

lemma yields_product_query:
  assumes "blind P" "\<And>c x. P c \<Longrightarrow> q (gd_products (cn_db c)) = Inr x \<Longrightarrow> Q x c"
  shows "yields P (product_query q) Q"
  unfolding product_query_def using assms by (intro yields_query) (auto split: if_splits)

lemma row_Inr: "row p rs = Inr r \<Longrightarrow> r \<in> set rs \<and> p r"
  by (auto simp: row_def dest: find_SomeD split: option.splits)

text \<open>What holds in every case.\<close>

lemma preserves_query: "blind P \<Longrightarrow> preserves P (query q)"
  unfolding preserves_def blind_def
proof (intro allI impI)
  fix c assume P: "\<forall>c us. P c \<longrightarrow> P (c\<lparr>cn_up := us\<rparr>)" "P c"
  obtain b us where "answered c = (b, c\<lparr>cn_up := us\<rparr>)" using answered_cases by blast
  with P show "P (snd (query q c))" by (simp add: query_def)
qed

lemma preserves_product_query: "blind P \<Longrightarrow> preserves P (product_query q)"
  by (simp add: product_query_def preserves_query)

lemma preserves_exec:
  assumes "blind P" "\<And>c d. P c \<Longrightarrow> x (cn_db c) = Some d \<Longrightarrow> P (c\<lparr>cn_db := d\<rparr>)"
  shows "preserves P (exec x)"
  unfolding preserves_def
proof (intro allI impI)
  fix c assume P: "P c"
  obtain b us where a: "answered c = (b, c\<lparr>cn_up := us\<rparr>)" using answered_cases by blast
  have P': "P (c\<lparr>cn_up := us\<rparr>)" using assms(1) P by (simp add: blind_def)
  show "P (snd (exec x c))"
    using a P' assms(2) [OF P'] by (auto simp: exec_def split: option.splits)
qed

lemma preserves_bind: "preserves P m \<Longrightarrow> (\<And>x. preserves P (f x)) \<Longrightarrow> preserves P (bind m f)"
  by (auto simp: preserves_def bind_def split: prod.split sum.split; metis snd_conv)

lemma preserves_attempt: "preserves P m \<Longrightarrow> (\<And>r. preserves P (f r)) \<Longrightarrow> preserves P (attempt m f)"
  by (auto simp: preserves_def attempt_def split: prod.split; metis snd_conv)

lemma preserves_ret: "preserves P (ret x)" and preserves_fail: "preserves P (fail e)"
  by (simp_all add: preserves_def ret_def fail_def)

lemma preserves_or_not_found: "preserves P m \<Longrightarrow> preserves P (or_not_found code m)"
  unfolding or_not_found_def
  by (rule preserves_attempt) (auto simp: preserves_ret preserves_fail split: sum.split)

lemma yields_or_not_found: "preserves P m \<Longrightarrow> yields P m Q \<Longrightarrow> yields P (or_not_found code m) Q"
  by (auto simp: yields_def or_not_found_def attempt_def ret_def fail_def split: prod.splits sum.splits if_splits)

text \<open>A transaction: what its body establishes on success, or what was there before.\<close>

definition rolls_back :: "(conn \<Rightarrow> bool) \<Rightarrow> bool" where
  "rolls_back P \<longleftrightarrow> (\<forall>c c'. P c \<longrightarrow> cn_uuid c' = cn_uuid c \<longrightarrow> cn_drawn c \<le> cn_drawn c' \<longrightarrow> P (c'\<lparr>cn_db := cn_db c\<rparr>))"

text \<open>A statement draws identifiers forward and does not alter the columns.\<close>

definition grows :: "'a stmt \<Rightarrow> bool" where
  "grows m \<longleftrightarrow> (\<forall>c. cn_uuid (snd (m c)) = cn_uuid c \<and> cn_drawn c \<le> cn_drawn (snd (m c)) \<and>
     gd_image_list (cn_db (snd (m c))) = gd_image_list (cn_db c))"

lemma rolls_back_blind: "rolls_back P \<Longrightarrow> blind P"
  unfolding rolls_back_def blind_def
proof (intro allI impI)
  fix c us
  assume r: "\<forall>c c'. P c \<longrightarrow> cn_uuid c' = cn_uuid c \<longrightarrow> cn_drawn c \<le> cn_drawn c' \<longrightarrow> P (c'\<lparr>cn_db := cn_db c\<rparr>)" "P c"
  from r(1) [rule_format, OF r(2), of "c\<lparr>cn_up := us\<rparr>"] show "P (c\<lparr>cn_up := us\<rparr>)" by simp
qed

lemma preserves_tx_body:
  assumes r: "rolls_back P" and g: "grows m" and y: "yields P m (\<lambda>_. P)"
  shows "preserves P (tx_body m)"
  unfolding preserves_def
proof (intro allI impI)
  fix c assume P: "P c"
  obtain x c' where m: "m c = (x, c')" by (cases "m c")
  have c': "cn_uuid c' = cn_uuid c" "cn_drawn c \<le> cn_drawn c'"
    using g m unfolding grows_def by (metis snd_conv)+
  obtain b us where a: "answered c' = (b, c'\<lparr>cn_up := us\<rparr>)" using answered_cases by blast
  have undone: "P ((c'\<lparr>cn_up := us'\<rparr>)\<lparr>cn_db := cn_db c\<rparr>)" for us'
    using r [unfolded rolls_back_def, rule_format, OF P, of "c'\<lparr>cn_up := us'\<rparr>"] c' by simp
  show "P (snd (tx_body m c))"
  proof (cases x)
    case (Inl e)
    with m undone [of "cn_up c'"] show ?thesis by (simp add: tx_body_def)
  next
    case (Inr v)
    then have "P c'" using yieldsD [OF y P] m by simp
    then have "P (c'\<lparr>cn_up := us\<rparr>)" using rolls_back_blind [OF r] by (simp add: blind_def)
    with m a Inr undone [of us] show ?thesis by (simp add: tx_body_def)
  qed
qed

lemma preserves_with_tx:
  "rolls_back P \<Longrightarrow> grows m \<Longrightarrow> yields P m (\<lambda>_. P) \<Longrightarrow> preserves P (with_tx m)"
  unfolding with_tx_def begin_tx_def
  by (intro preserves_bind preserves_query preserves_tx_body rolls_back_blind)

section \<open>The books\<close>

definition item_total :: "string \<Rightarrow> OrderItem list \<Rightarrow> int" where
  "item_total i its = sum_list (map (\<lambda>it. if oi_ProductID it = i then oi_Quantity it else 0) its)"

definition order_total :: "string \<Rightarrow> OutboundOrder \<Rightarrow> int" where
  "order_total i ord = (if open_status (oo_Status ord) then item_total i (unmarshal_items (oo_Items ord)) else 0)"

definition open_total :: "string \<Rightarrow> OutboundOrder list \<Rightarrow> int" where
  "open_total i os = sum_list (map (order_total i) os)"

definition known :: "conn \<Rightarrow> string \<Rightarrow> bool" where
  "known c i \<longleftrightarrow> (\<exists>k < cn_drawn c. i = cn_uuid c k)"

text \<open>
  \<open>books e X c\<close>: the reservations agree with the open orders up to \<open>e\<close>, and every product that an order
  names has existed, except for those in \<open>X\<close>. Between calls \<open>e\<close> is zero and \<open>X\<close> is empty.
\<close>

definition product_ok :: "(string \<Rightarrow> int) \<Rightarrow> conn \<Rightarrow> Product \<Rightarrow> bool" where
  "product_ok e c p \<longleftrightarrow> known c (pd_ID p) \<and> pd_ReservedQuantity p \<le> pd_Quantity p \<and>
     pd_ReservedQuantity p = open_total (pd_ID p) (gd_orders (cn_db c)) + e (pd_ID p)"

definition order_ok :: "string set \<Rightarrow> conn \<Rightarrow> OutboundOrder \<Rightarrow> bool" where
  "order_ok X c ord \<longleftrightarrow> (\<forall>it \<in> set (unmarshal_items (oo_Items ord)).
     0 \<le> oi_Quantity it \<and> (known c (oi_ProductID it) \<or> oi_ProductID it \<in> X))"

definition books :: "(string \<Rightarrow> int) \<Rightarrow> string set \<Rightarrow> conn \<Rightarrow> bool" where
  "books e X c \<longleftrightarrow> inj (cn_uuid c) \<and> distinct (map oo_ID (gd_orders (cn_db c))) \<and>
     distinct (map pd_ID (gd_products (cn_db c))) \<and>
     (\<forall>p \<in> set (gd_products (cn_db c)). product_ok e c p) \<and> (\<forall>ord \<in> set (gd_orders (cn_db c)). order_ok X c ord)"

lemmas books_defs = books_def product_ok_def order_ok_def

abbreviation balanced :: "conn \<Rightarrow> bool" where
  "balanced \<equiv> books (\<lambda>_. 0) {}"

lemma known_cong: "cn_uuid c' = cn_uuid c \<Longrightarrow> cn_drawn c \<le> cn_drawn c' \<Longrightarrow> known c i \<Longrightarrow> known c' i"
  unfolding known_def by (metis less_le_trans)

lemma order_ok_mono:
  "order_ok X c ord \<Longrightarrow> X \<subseteq> X' \<Longrightarrow> (\<And>i. known c i \<Longrightarrow> known c' i) \<Longrightarrow> oo_Items ord' = oo_Items ord \<Longrightarrow> order_ok X' c' ord'"
  by (auto simp: order_ok_def)

lemma books_rolls_back: "rolls_back (books e X)"
  unfolding rolls_back_def
proof (intro allI impI)
  fix c c' :: conn
  assume b: "books e X c" and *: "cn_uuid c' = cn_uuid c" "cn_drawn c \<le> cn_drawn c'"
  let ?c = "c'\<lparr>cn_db := cn_db c\<rparr>"
  have k: "known ?c i" if "known c i" for i
    using known_cong [of ?c c i] * that by simp
  with b * show "books e X ?c" by (auto simp: books_defs)
qed

lemma books_blind: "blind (books e X)"
  by (rule rolls_back_blind [OF books_rolls_back])

lemma open_total_nonneg:
  "(\<forall>ord \<in> set os. order_ok X c ord) \<Longrightarrow> 0 \<le> open_total i os"
  by (auto simp: open_total_def order_total_def item_total_def order_ok_def intro!: sum_list_nonneg)

lemma set_rows_iff: "x \<in> set (set_rows p f rs) \<longleftrightarrow> (\<exists>r \<in> set rs. x = (if p r then f r else r))"
  by (auto simp: set_rows_def)

lemma map_set_rows: "(\<And>r. g (f r) = g r) \<Longrightarrow> map g (set_rows p f rs) = map g rs"
  by (simp add: set_rows_def)

text \<open>Moving stock and reservations of one product.\<close>

lemma add_stock_books:
  assumes "books e X c" "add_stock now i dq dr (cn_db c) = Some d"
    and "dr \<le> dq \<or> (\<forall>p \<in> set (gd_products (cn_db c)). pd_ID p = i \<longrightarrow> pd_ReservedQuantity p + dr \<le> pd_Quantity p + dq)"
    and "e' = (\<lambda>j. e j + (if j = i then dr else 0))"
  shows "books e' X (c\<lparr>cn_db := d\<rparr>) \<and> gd_orders d = gd_orders (cn_db c)"
proof -
  let ?f = "\<lambda>p. p\<lparr>pd_Quantity := pd_Quantity p + dq, pd_ReservedQuantity := pd_ReservedQuantity p + dr, pd_UpdatedAt := now\<rparr>"
  have d: "gd_products d = set_rows (\<lambda>p. pd_ID p = i) ?f (gd_products (cn_db c))" "gd_orders d = gd_orders (cn_db c)"
    using assms(2) by (auto simp: add_stock_def split: if_splits)
  let ?c = "c\<lparr>cn_db := d\<rparr>"
  have k: "known ?c j = known c j" for j by (simp add: known_def)
  have "order_ok X ?c x" if "x \<in> set (gd_orders (cn_db c))" for x
    using assms(1) that order_ok_mono [of X c x X ?c x] by (simp add: books_def k)
  moreover have "product_ok e' ?c p" if p: "p \<in> set (gd_products d)" for p
  proof -
    obtain r where r: "r \<in> set (gd_products (cn_db c))" "p = (if pd_ID r = i then ?f r else r)"
      using p unfolding d set_rows_iff by blast
    have ok: "product_ok e c r" using assms(1) r(1) by (simp add: books_def)
    show ?thesis
    proof (cases "pd_ID r = i")
      case True
      then have "pd_ReservedQuantity r + dr \<le> pd_Quantity r + dq"
        using assms(3) ok r(1) by (auto simp: product_ok_def)
      with True ok r(2) assms(4) show ?thesis by (simp add: product_ok_def k d)
    next
      case False
      with ok r(2) assms(4) show ?thesis unfolding product_ok_def by (simp add: k d)
    qed
  qed
  moreover have "map pd_ID (gd_products d) = map pd_ID (gd_products (cn_db c))"
    unfolding d by (rule map_set_rows) simp
  ultimately show ?thesis
    using assms(1) by (simp add: books_def d)
qed

lemma yields_add_stock:
  assumes "dr \<le> dq" "e' = (\<lambda>j. e j + (if j = i then dr else 0))"
  shows "yields (\<lambda>c. books e X c \<and> gd_orders (cn_db c) = os) (exec (add_stock now i dq dr))
    (\<lambda>_ c. books e' X c \<and> gd_orders (cn_db c) = os)"
proof (rule yields_exec)
  show "blind (\<lambda>c. books e X c \<and> gd_orders (cn_db c) = os)"
    using books_blind [of e X] by (simp add: blind_def)
  fix c d
  assume "books e X c \<and> gd_orders (cn_db c) = os" "add_stock now i dq dr (cn_db c) = Some d"
  with add_stock_books [of e X c now i dq dr d] assms
  show "books e' X (c\<lparr>cn_db := d\<rparr>) \<and> gd_orders (cn_db (c\<lparr>cn_db := d\<rparr>)) = os" by auto
qed

text \<open>A new order and a changed status.\<close>

lemma open_total_append: "open_total i (os @ [ord]) = open_total i os + order_total i ord"
  by (simp add: open_total_def)

lemma create_order_books:
  assumes "books e X c" "oo_ID ord \<notin> oo_ID ` set (gd_orders (cn_db c))" "\<forall>it \<in> set (unmarshal_items (oo_Items ord)). 0 \<le> oi_Quantity it"
    and "\<forall>it \<in> set (unmarshal_items (oo_Items ord)). known c (oi_ProductID it) \<or> oi_ProductID it \<in> X'" "X \<subseteq> X'"
    and "e' = (\<lambda>i. e i - order_total i ord)"
  shows "books e' X' (c\<lparr>cn_db := (cn_db c)\<lparr>gd_orders := gd_orders (cn_db c) @ [ord]\<rparr>\<rparr>)"
proof -
  let ?c = "c\<lparr>cn_db := (cn_db c)\<lparr>gd_orders := gd_orders (cn_db c) @ [ord]\<rparr>\<rparr>"
  have k: "known ?c j = known c j" for j by (simp add: known_def)
  have "order_ok X' ?c x" if "x \<in> set (gd_orders (cn_db c))" for x
    using assms(1,5) that order_ok_mono [of X c x X' ?c x] by (simp add: books_def k)
  moreover have "order_ok X' ?c ord" using assms(3,4) by (simp add: order_ok_def k)
  moreover have "product_ok e' ?c p" if "p \<in> set (gd_products (cn_db c))" for p
    using assms(1,6) that unfolding books_def product_ok_def by (auto simp: k open_total_append)
  ultimately show ?thesis
    using assms(1,2) by (simp add: books_def)
qed

lemma open_total_close:
  assumes "distinct (map oo_ID os)" "ord \<in> set os" "open_status (oo_Status ord)" "\<not> open_status st"
    "\<And>x. oo_ID (f x) = oo_ID x" "\<And>x. oo_Status (f x) = st"
  shows "open_total i (set_rows (\<lambda>x. oo_ID x = oo_ID ord) f os) =
    open_total i os - item_total i (unmarshal_items (oo_Items ord))"
  using assms
proof (induction os)
  case (Cons x os)
  show ?case
  proof (cases "x = ord")
    case True
    then have "set_rows (\<lambda>x. oo_ID x = oo_ID ord) f os = os"
      using Cons.prems(1) by (induction os) (auto simp: set_rows_def)
    with True Cons.prems show ?thesis
      by (simp add: open_total_def order_total_def set_rows_def)
  next
    case False
    then have "oo_ID x \<noteq> oo_ID ord" using Cons.prems by auto
    with False Cons show ?thesis by (simp add: open_total_def set_rows_def)
  qed
qed simp

lemma close_order_books:
  assumes "books e X c" "ord \<in> set (gd_orders (cn_db c))" "open_status (oo_Status ord)" "\<not> open_status st"
    and "\<And>x. oo_ID (f x) = oo_ID x" "\<And>x. oo_Status (f x) = st" "\<And>x. oo_Items (f x) = oo_Items x"
    and "e' = (\<lambda>i. e i + item_total i (unmarshal_items (oo_Items ord)))"
  shows "books e' X (c\<lparr>cn_db := (cn_db c)\<lparr>gd_orders := set_rows (\<lambda>x. oo_ID x = oo_ID ord) f (gd_orders (cn_db c))\<rparr>\<rparr>)"
proof -
  let ?os = "gd_orders (cn_db c)"
  let ?c = "c\<lparr>cn_db := (cn_db c)\<lparr>gd_orders := set_rows (\<lambda>x. oo_ID x = oo_ID ord) f ?os\<rparr>\<rparr>"
  have k: "known ?c j = known c j" for j by (simp add: known_def)
  have "distinct (map oo_ID ?os)" using assms(1) by (simp add: books_def)
  note t = open_total_close [OF this assms(2-6)]
  have "map oo_ID (set_rows (\<lambda>x. oo_ID x = oo_ID ord) f ?os) = map oo_ID ?os"
    using assms(5) by (rule map_set_rows)
  moreover have "order_ok X ?c x" if x: "x \<in> set (set_rows (\<lambda>x. oo_ID x = oo_ID ord) f ?os)" for x
  proof -
    obtain r where r: "r \<in> set ?os" "oo_Items x = oo_Items r"
      using x assms(7) unfolding set_rows_iff by (metis (full_types))
    with assms(1) order_ok_mono [of X c r X ?c x] show ?thesis by (simp add: books_def k)
  qed
  moreover have "product_ok e' ?c p" if "p \<in> set (gd_products (cn_db c))" for p
    using assms(1,8) that unfolding books_def product_ok_def by (auto simp: k t)
  ultimately show ?thesis
    using assms(1) by (simp add: books_def)
qed

section \<open>Every method keeps the books\<close>

lemma item_total_Cons:
  "item_total i (it # its) = (if oi_ProductID it = i then oi_Quantity it else 0) + item_total i its"
  by (simp add: item_total_def)

lemma item_total_Nil [simp]: "item_total i [] = 0"
  by (simp add: item_total_def)

lemma item_total_zero: "\<forall>it \<in> set its. oi_ProductID it \<noteq> i \<Longrightarrow> item_total i its = 0"
  by (induction its) (simp_all add: item_total_Cons)

lemma open_total_zero: "\<forall>x \<in> set os. order_total i x = 0 \<Longrightarrow> open_total i os = 0"
  by (induction os) (simp_all add: open_total_def)

text \<open>Locking reserves what is asked for, and finds every product.\<close>

lemma books_fun_cong: "books e X c \<Longrightarrow> e = e' \<Longrightarrow> X = X' \<Longrightarrow> books e' X' c"
  by simp

definition all_known :: "OrderItem list \<Rightarrow> conn \<Rightarrow> bool" where
  "all_known its c \<longleftrightarrow> (\<forall>it \<in> set its. known c (oi_ProductID it))"

lemma yields_lock_items:
  "yields (\<lambda>c. books e X c \<and> all_known seen c) (lock_items now its)
     (\<lambda>_ c. books (\<lambda>i. e i + item_total i its) X c \<and> all_known (seen @ its) c)"
proof (induction its arbitrary: e seen)
  case Nil
  then show ?case by (auto simp: yields_def ret_def)
next
  case (Cons it its)
  let ?e = "\<lambda>j. e j + (if j = oi_ProductID it then oi_Quantity it else 0)"
  let ?P = "\<lambda>c. books e X c \<and> all_known seen c"
  let ?R = "\<lambda>p c. ?P c \<and> p \<in> set (gd_products (cn_db c)) \<and> pd_ID p = oi_ProductID it"
  have blind_P: "blind ?P"
    using books_blind [of e X] by (auto simp: blind_def all_known_def known_def)
  have 1: "yields ?P (repo_GetProductForUpdateTx (oi_ProductID it)) ?R"
    unfolding repo_GetProductForUpdateTx_def
    by (rule yields_product_query [OF blind_P]) (auto dest: row_Inr)
  have IH: "yields (\<lambda>c. books ?e X c \<and> all_known (seen @ [it]) c) (lock_items now its)
     (\<lambda>_ c. books (\<lambda>i. ?e i + item_total i its) X c \<and> all_known ((seen @ [it]) @ its) c)"
    by (rule Cons.IH)
  have 2: "yields (?R p) (repo_UpdateProductReservedTx now (oi_ProductID it) 0 (oi_Quantity it))
      (\<lambda>_ c. books ?e X c \<and> all_known (seen @ [it]) c)"
    if room: "\<not> pd_Quantity p - pd_ReservedQuantity p < oi_Quantity it" for p
    unfolding repo_UpdateProductReservedTx_def yields_def
  proof (intro allI impI)
    fix c x c'
    assume R: "?R p c" and run: "exec (add_stock now (oi_ProductID it) 0 (oi_Quantity it)) c = (Inr x, c')"
    obtain b us where a: "answered c = (b, c\<lparr>cn_up := us\<rparr>)" using answered_cases by blast
    let ?c = "c\<lparr>cn_up := us\<rparr>"
    from a run obtain d where d: "add_stock now (oi_ProductID it) 0 (oi_Quantity it) (cn_db ?c) = Some d"
      "c' = ?c\<lparr>cn_db := d\<rparr>"
      by (auto simp: exec_def split: if_splits option.splits)
    have b: "books e X ?c" using R books_blind [of e X] by (simp add: blind_def)
    have "q = p" if "q \<in> set (gd_products (cn_db ?c))" "pd_ID q = oi_ProductID it" for q
    proof -
      have "inj_on pd_ID (set (gd_products (cn_db ?c)))" using b by (simp add: books_def distinct_map)
      from inj_onD [OF this, of q p] that R show ?thesis by simp
    qed
    with room have "\<forall>q \<in> set (gd_products (cn_db ?c)). pd_ID q = oi_ProductID it \<longrightarrow>
        pd_ReservedQuantity q + oi_Quantity it \<le> pd_Quantity q + 0" by force
    from add_stock_books [OF b d(1) disjI2 [OF this] refl] have "books ?e X c'" using d(2) by simp
    moreover have "known c (pd_ID p)" using R by (auto simp: books_def product_ok_def)
    then have "all_known (seen @ [it]) c'"
      using R by (auto simp: all_known_def known_def d(2))
    ultimately show "books ?e X c' \<and> all_known (seen @ [it]) c'" by blast
  qed
  have "yields ?P (lock_items now (it # its))
      (\<lambda>_ c. books (\<lambda>i. ?e i + item_total i its) X c \<and> all_known ((seen @ [it]) @ its) c)"
    unfolding lock_items.simps
  proof (rule yields_bind [OF 1])
    fix p
    show "yields (?R p) (if pd_Quantity p - pd_ReservedQuantity p < oi_Quantity it
        then fail (GoodserError ErrInsufficientStock)
        else bind (repo_UpdateProductReservedTx now (oi_ProductID it) 0 (oi_Quantity it)) (\<lambda>_. lock_items now its))
      (\<lambda>_ c. books (\<lambda>i. ?e i + item_total i its) X c \<and> all_known ((seen @ [it]) @ its) c)"
    proof (cases "pd_Quantity p - pd_ReservedQuantity p < oi_Quantity it")
      case False
      then show ?thesis using yields_bind [OF 2 [OF False] IH] by simp
    qed (simp add: yields_fail)
  qed
  moreover have "(\<lambda>i. ?e i + item_total i its) = (\<lambda>i. e i + item_total i (it # its))"
    by (auto simp: item_total_Cons)
  ultimately show ?case by simp
qed

text \<open>Releasing: the reservations of an order go, and with \<open>out\<close> the goods too.\<close>

lemma yields_release_items:
  "\<forall>it \<in> set its. 0 \<le> oi_Quantity it \<Longrightarrow>
   yields (\<lambda>c. books e X c \<and> gd_orders (cn_db c) = os) (release_items out now its)
     (\<lambda>_ c. books (\<lambda>i. e i - item_total i its) X c \<and> gd_orders (cn_db c) = os)"
proof (induction its arbitrary: e)
  case Nil
  then show ?case by (auto simp: yields_def ret_def)
next
  case (Cons it its)
  let ?e = "\<lambda>j. e j + (if j = oi_ProductID it then - oi_Quantity it else 0)"
  have 1: "yields (\<lambda>c. books e X c \<and> gd_orders (cn_db c) = os)
      (repo_UpdateProductReservedTx now (oi_ProductID it) (if out then - oi_Quantity it else 0) (- oi_Quantity it))
      (\<lambda>_ c. books ?e X c \<and> gd_orders (cn_db c) = os)"
    unfolding repo_UpdateProductReservedTx_def using Cons.prems by (intro yields_add_stock) auto
  have 2: "yields (\<lambda>c. books ?e X c \<and> gd_orders (cn_db c) = os) (release_items out now its)
     (\<lambda>_ c. books (\<lambda>i. ?e i - item_total i its) X c \<and> gd_orders (cn_db c) = os)"
    by (rule Cons.IH) (use Cons.prems in simp)
  have "(\<lambda>i. ?e i - item_total i its) = (\<lambda>i. e i - item_total i (it # its))"
    by (auto simp: item_total_Cons)
  with yields_bind [OF 1 2] show ?case by simp
qed

text \<open>A new order with an open status asks for its items.\<close>

lemma yields_new_uuid:
  "yields (books e X) new_uuid (\<lambda>i c. books e X c \<and> known c i)"
proof (rule yields_uuid)
  fix c assume b: "books e X c"
  have "books e X ((c\<lparr>cn_drawn := Suc (cn_drawn c)\<rparr>)\<lparr>cn_db := cn_db c\<rparr>)"
    using books_rolls_back [of e X, unfolded rolls_back_def, rule_format, OF b,
        of "c\<lparr>cn_drawn := Suc (cn_drawn c)\<rparr>"] by simp
  then show "books e X (c\<lparr>cn_drawn := Suc (cn_drawn c)\<rparr>) \<and>
      known (c\<lparr>cn_drawn := Suc (cn_drawn c)\<rparr>) (cn_uuid c (cn_drawn c))"
    by (auto simp: known_def)
qed

definition order_request_ok :: "CreateOutboundReq \<Rightarrow> bool" where
  "order_request_ok r \<longleftrightarrow> open_status (over (co_Status r) ''pending'') \<and> (\<forall>it \<in> set (co_Items r). 0 \<le> oi_Quantity it)"

lemma yields_create_order:
  assumes req: "order_request_ok r" and X': "X \<subseteq> X'"
  shows "yields (\<lambda>c. books e X c \<and> (\<forall>it \<in> set (co_Items r). known c (oi_ProductID it) \<or> oi_ProductID it \<in> X'))
    (repo_CreateOutboundOrderTx now r) (\<lambda>_. books (\<lambda>i. e i - item_total i (co_Items r)) X')"
  (is "yields ?P _ ?Q")
proof (rule yieldsI)
  fix c ord c'
  assume P: "?P c" and run: "repo_CreateOutboundOrderTx now r c = (Inr ord, c')"
  obtain i c1 where u: "new_uuid c = (Inr i, c1)" by (simp add: new_uuid_def)
  have b1: "books e X c1" and db1: "cn_db c1 = cn_db c"
    using yieldsD [OF yields_new_uuid _ u] P u by (auto simp: new_uuid_def)
  have k1: "\<forall>it \<in> set (co_Items r). known c1 (oi_ProductID it) \<or> oi_ProductID it \<in> X'"
    using P known_cong [of c1 c] u by (auto simp: new_uuid_def)
  let ?o = "\<lparr>oo_ID = i, oo_InventoryID = co_InventoryID r, oo_OrderNo = co_OrderNo r,
     oo_Type = over (co_Type r) ''outbound'', oo_Status = over (co_Status r) ''pending'',
     oo_OrderInfo = co_OrderInfo r, oo_Remark = co_Remark r, oo_Items = JItems (co_Items r),
     oo_SourceReserveID = co_SourceReserveID r, oo_CreatedAt = now, oo_UpdatedAt = now,
     oo_ConfirmedAt = None, oo_CancelledAt = None\<rparr>"
  obtain b us where a: "answered c1 = (b, c1\<lparr>cn_up := us\<rparr>)" using answered_cases by blast
  let ?c = "c1\<lparr>cn_up := us\<rparr>"
  have new: "oo_ID ?o \<notin> oo_ID ` set (gd_orders (cn_db ?c))"
    and c': "c' = ?c\<lparr>cn_db := (cn_db ?c)\<lparr>gd_orders := gd_orders (cn_db ?c) @ [?o]\<rparr>\<rparr>"
    using run u a by (auto simp: repo_CreateOutboundOrderTx_def bind_def exec_def insert_row_def ret_def Let_def
        split: if_splits)
  have "books e X ?c" using b1 books_blind [of e X] by (simp add: blind_def)
  from create_order_books [OF this new, of X' "\<lambda>i. e i - item_total i (co_Items r)"] req X' k1
  show "books (\<lambda>i. e i - item_total i (co_Items r)) X' c'"
    by (simp add: c' order_request_ok_def unmarshal_items_def order_total_def known_def)
qed

text \<open>An order is closed once its reservations are released.\<close>

lemma yields_set_status:
  assumes "ord \<in> set os" "open_status (oo_Status ord)" "\<not> open_status st"
    and "e' = (\<lambda>i. e i + item_total i (unmarshal_items (oo_Items ord)))"
  shows "yields (\<lambda>c. books e X c \<and> gd_orders (cn_db c) = os)
    (repo_UpdateOutboundOrderStatusTx now (oo_ID ord) st t1 t2) (\<lambda>_. books e' X)"
  unfolding repo_UpdateOutboundOrderStatusTx_def
proof (rule yields_exec)
  show "blind (\<lambda>c. books e X c \<and> gd_orders (cn_db c) = os)"
    using books_blind [of e X] by (simp add: blind_def)
  fix c d
  let ?f = "\<lambda>x. x\<lparr>oo_Status := st, oo_ConfirmedAt := t1, oo_CancelledAt := t2, oo_UpdatedAt := now\<rparr>"
  assume "books e X c \<and> gd_orders (cn_db c) = os"
    "Some ((cn_db c)\<lparr>gd_orders := set_rows (\<lambda>x. oo_ID x = oo_ID ord) ?f (gd_orders (cn_db c))\<rparr>) = Some d"
  then show "books e' X (c\<lparr>cn_db := d\<rparr>)"
    using close_order_books [of e X c ord st ?f e'] assms by auto
qed

text \<open>Stock coming in.\<close>

lemma yields_create_product:
  assumes q: "0 \<le> over (cp_Quantity r) 0"
  shows "yields balanced (repo_CreateProductTx now r) (\<lambda>_. balanced)"
proof (rule yieldsI)
  fix c p c'
  assume P: "balanced c" and run: "repo_CreateProductTx now r c = (Inr p, c')"
  obtain i c1 where u: "new_uuid c = (Inr i, c1)" by (simp add: new_uuid_def)
  have b1: "balanced c1" "known c1 i" and db1: "cn_db c1 = cn_db c"
    using yieldsD [OF yields_new_uuid P u] u by (auto simp: new_uuid_def)
  have fresh: "\<not> known c i"
    using u P by (auto simp: new_uuid_def known_def books_def dest: injD)
  obtain b us where a: "answered c1 = (b, c1\<lparr>cn_up := us\<rparr>)" using answered_cases by blast
  let ?c = "c1\<lparr>cn_up := us\<rparr>"
  have p: "pd_ID p = i" "pd_Quantity p = over (cp_Quantity r) 0" "pd_ReservedQuantity p = 0"
    and new: "i \<notin> pd_ID ` set (gd_products (cn_db ?c))"
    and c': "c' = ?c\<lparr>cn_db := (cn_db ?c)\<lparr>gd_products := gd_products (cn_db ?c) @ [p]\<rparr>\<rparr>"
    using run u a by (auto simp: repo_CreateProductTx_def bind_def exec_def insert_row_def ret_def Let_def
        split: if_splits)
  have k: "known c' j = known c1 j" for j by (simp add: known_def c')
  have "order_total i x = 0" if x: "x \<in> set (gd_orders (cn_db c))" for x
  proof -
    have "\<forall>it \<in> set (unmarshal_items (oo_Items x)). oi_ProductID it \<noteq> i"
      using P x fresh by (auto simp: books_def order_ok_def)
    then show ?thesis by (simp add: order_total_def item_total_zero)
  qed
  then have "open_total i (gd_orders (cn_db c1)) = 0"
    by (simp add: db1 open_total_zero)
  moreover have "known c' i" and "gd_orders (cn_db c') = gd_orders (cn_db c1)"
    using b1(2) by (simp_all only: k) (simp add: c')
  ultimately have "product_ok (\<lambda>_. 0) c' p"
    using p q by (simp add: product_ok_def)
  moreover have "product_ok (\<lambda>_. 0) c' x" if "x \<in> set (gd_products (cn_db c1))" for x
    using b1(1) that by (auto simp: books_def product_ok_def k) (simp_all add: c')
  moreover have "order_ok {} c' x" if "x \<in> set (gd_orders (cn_db c1))" for x
    using b1(1) that order_ok_mono [of "{}" c1 x "{}" c' x] by (auto simp: books_def k)
  ultimately show "balanced c'"
    using b1(1) new p(1) by (simp add: books_def c')
qed

lemma yields_add_quantity:
  "0 \<le> q \<Longrightarrow> yields balanced (repo_AddProductQuantityTx now i q) (\<lambda>_. balanced)"
  unfolding repo_AddProductQuantityTx_def
proof (rule yields_exec [OF books_blind])
  fix c d
  assume *: "balanced c" "add_stock now i q 0 (cn_db c) = Some d" and "0 \<le> q"
  then have "0 \<le> q \<or> (\<forall>p \<in> set (gd_products (cn_db c)). pd_ID p = i \<longrightarrow> pd_ReservedQuantity p + 0 \<le> pd_Quantity p + q)"
    by blast
  from add_stock_books [OF * this refl] show "balanced (c\<lparr>cn_db := d\<rparr>)" by simp
qed

text \<open>Statements that touch neither products nor orders.\<close>

lemma yields_frame:
  assumes "\<And>d d'. x d = Some d' \<Longrightarrow> gd_products d' = gd_products d \<and> gd_orders d' = gd_orders d"
  shows "yields balanced (exec x) (\<lambda>_. balanced)" and "preserves balanced (exec x)"
proof -
  have *: "balanced (c\<lparr>cn_db := d\<rparr>)" if "balanced c" "x (cn_db c) = Some d" for c d
  proof -
    have k: "known (c\<lparr>cn_db := d\<rparr>) j = known c j" for j by (simp add: known_def)
    have "order_ok {} (c\<lparr>cn_db := d\<rparr>) y = order_ok {} c y" for y by (simp add: order_ok_def k)
    moreover have "product_ok (\<lambda>_. 0) (c\<lparr>cn_db := d\<rparr>) y = product_ok (\<lambda>_. 0) c y" for y
      using assms [OF that(2)] by (simp add: product_ok_def k)
    ultimately show ?thesis
      using that(1) assms [OF that(2)] by (simp add: books_def)
  qed
  then show "yields balanced (exec x) (\<lambda>_. balanced)" "preserves balanced (exec x)"
    using books_blind by (blast intro: yields_exec, blast intro: preserves_exec)
qed

lemma yields_balanced_uuid: "yields balanced new_uuid (\<lambda>_. balanced)"
  by (rule yields_post [OF yields_new_uuid]) simp

lemma preserves_balanced_uuid: "preserves balanced new_uuid"
  using yields_balanced_uuid by (simp add: preserves_def yields_def new_uuid_def)

lemma yields_log_item:
  "yields balanced (repo_CreateInboundLogItemTx now iid ty its) (\<lambda>_. balanced)"
  unfolding repo_CreateInboundLogItemTx_def add_log_def
  by (intro yields_bind [where R = "\<lambda>_. balanced"] yields_balanced_uuid yields_frame yields_ret)
    (auto simp: insert_row_def split: if_splits)

end
