(* ===== verification/GoodsBooks.thy ===== *)
theory GoodsBooks
  imports GoodsStock
begin

text \<open>
  Histories of calls of the goods service, with the database failing whenever it likes: what every
  method keeps, the invariant of the stock, the life of an order, and the calls that are not atomic.
\<close>

section \<open>Statements only use up answers and identifiers\<close>

named_theorems grows_rules

lemma grows_ret [grows_rules]: "grows (ret x)" and grows_fail [grows_rules]: "grows (fail e)"
  by (simp_all add: grows_def ret_def fail_def)

lemma answered_same: "cn_uuid (snd (answered c)) = cn_uuid c \<and> cn_drawn (snd (answered c)) = cn_drawn c \<and>
    cn_db (snd (answered c)) = cn_db c"
  by (simp add: answered_def split: list.split)

lemma grows_query [grows_rules]: "grows (query q)"
  using answered_same unfolding grows_def query_def by (simp add: prod.case_eq_if)

lemma grows_product_query [grows_rules]: "grows (product_query q)"
  by (simp add: product_query_def grows_query)

lemma grows_exec [grows_rules]:
  assumes "\<And>d d'. x d = Some d' \<Longrightarrow> gd_image_list d' = gd_image_list d"
  shows "grows (exec x)"
  unfolding grows_def
proof (intro allI)
  fix c
  obtain b us where "answered c = (b, c\<lparr>cn_up := us\<rparr>)" using answered_cases by blast
  with assms show "cn_uuid (snd (exec x c)) = cn_uuid c \<and> cn_drawn c \<le> cn_drawn (snd (exec x c)) \<and>
      gd_image_list (cn_db (snd (exec x c))) = gd_image_list (cn_db c)"
    by (simp add: exec_def split: option.split)
qed

lemma grows_uuid [grows_rules]: "grows new_uuid"
  by (simp add: grows_def new_uuid_def)

lemma growsD:
  assumes "grows m" "m c = (r, c')"
  shows "cn_uuid c' = cn_uuid c" "cn_drawn c \<le> cn_drawn c'" "gd_image_list (cn_db c') = gd_image_list (cn_db c)"
  using assms unfolding grows_def by (metis snd_conv)+

lemma growsI:
  "(\<And>c r c'. m c = (r, c') \<Longrightarrow> cn_uuid c' = cn_uuid c \<and> cn_drawn c \<le> cn_drawn c' \<and>
     gd_image_list (cn_db c') = gd_image_list (cn_db c)) \<Longrightarrow> grows m"
  unfolding grows_def by (metis prod.collapse)

lemma grows_bind [grows_rules]:
  assumes m: "grows m" and f: "\<And>x. grows (f x)"
  shows "grows (bind m f)"
proof (rule growsI)
  fix c r c'
  assume run: "bind m f c = (r, c')"
  obtain x c1 where 1: "m c = (x, c1)" by (cases "m c")
  show "cn_uuid c' = cn_uuid c \<and> cn_drawn c \<le> cn_drawn c' \<and> gd_image_list (cn_db c') = gd_image_list (cn_db c)"
  proof (cases x)
    case (Inl e)
    with run 1 growsD [OF m 1] show ?thesis by (simp add: bind_def)
  next
    case (Inr v)
    with run 1 have "f v c1 = (r, c')" by (simp add: bind_def)
    from growsD [OF m 1] growsD [OF f this] show ?thesis by simp
  qed
qed

lemma grows_attempt [grows_rules]:
  assumes m: "grows m" and f: "\<And>r. grows (f r)"
  shows "grows (attempt m f)"
proof (rule growsI)
  fix c r c'
  assume run: "attempt m f c = (r, c')"
  obtain x c1 where 1: "m c = (x, c1)" by (cases "m c")
  with run have "f x c1 = (r, c')" by (simp add: attempt_def)
  from growsD [OF m 1] growsD [OF f this]
  show "cn_uuid c' = cn_uuid c \<and> cn_drawn c \<le> cn_drawn c' \<and> gd_image_list (cn_db c') = gd_image_list (cn_db c)"
    by simp
qed

lemma grows_outside [grows_rules]:
  assumes "grows m"
  shows "grows (outside d m)"
  unfolding grows_def
proof (intro allI)
  fix c :: conn
  obtain r c' where m: "m (c\<lparr>cn_db := d\<rparr>) = (r, c')" by (cases "m (c\<lparr>cn_db := d\<rparr>)")
  from assms [unfolded grows_def, rule_format, of "c\<lparr>cn_db := d\<rparr>"] m
  show "cn_uuid (snd (outside d m c)) = cn_uuid c \<and> cn_drawn c \<le> cn_drawn (snd (outside d m c)) \<and>
    gd_image_list (cn_db (snd (outside d m c))) = gd_image_list (cn_db c)"
    by (simp add: outside_def)
qed

lemma grows_if [grows_rules]: "grows a \<Longrightarrow> grows b \<Longrightarrow> grows (if p then a else b)"
  by simp

lemma grows_sum [grows_rules]: "(\<And>e. grows (f e)) \<Longrightarrow> (\<And>x. grows (g x)) \<Longrightarrow> grows (case r of Inl e \<Rightarrow> f e | Inr x \<Rightarrow> g x)"
  by (simp split: sum.split)

lemma grows_or_not_found [grows_rules]: "grows m \<Longrightarrow> grows (or_not_found code m)"
  unfolding or_not_found_def by (intro grows_rules)

lemma grows_tx_body [grows_rules]:
  assumes "grows m"
  shows "grows (tx_body m)"
  unfolding grows_def
proof (intro allI)
  fix c
  obtain r c' where m: "m c = (r, c')" by (cases "m c")
  with assms have g: "cn_uuid c' = cn_uuid c" "cn_drawn c \<le> cn_drawn c'" "gd_image_list (cn_db c') = gd_image_list (cn_db c)"
    unfolding grows_def by (metis snd_conv)+
  obtain b us where "answered c' = (b, c'\<lparr>cn_up := us\<rparr>)" using answered_cases by blast
  with m g show "cn_uuid (snd (tx_body m c)) = cn_uuid c \<and> cn_drawn c \<le> cn_drawn (snd (tx_body m c)) \<and>
    gd_image_list (cn_db (snd (tx_body m c))) = gd_image_list (cn_db c)"
    by (simp add: tx_body_def split: sum.split)
qed

lemma grows_with_tx [grows_rules]: "grows m \<Longrightarrow> grows (with_tx m)"
  unfolding with_tx_def begin_tx_def by (intro grows_rules)

lemmas repo_goods_defs = repo_CreateProductTx_def repo_AddProductQuantityTx_def
  repo_UpdateProductReservedTx_def repo_GetProductForUpdateTx_def repo_PopRecycledSeq_def
  repo_IncrementSeqCounter_def repo_AddRecycledSeqTx_def repo_CreateOutboundOrderTx_def
  repo_GetOutboundOrderForUpdateTx_def repo_UpdateOutboundOrderStatusTx_def
  repo_CreateInboundLogItemTx_def add_log_def repo_GetProduct_def repo_FindProductByCode_def
  repo_UpdateProduct_def repo_DeleteProduct_def Let_def

lemma bump_counter_frame:
  "bump_counter iid mz sz d = Some d' \<Longrightarrow> gd_products d' = gd_products d \<and> gd_orders d' = gd_orders d \<and>
     gd_image_list d' = gd_image_list d"
  by (auto simp: bump_counter_def split: option.splits if_splits)

lemma add_stock_columns: "add_stock now i dq dr d = Some d' \<Longrightarrow> gd_image_list d' = gd_image_list d"
  by (auto simp: add_stock_def split: if_splits)

lemma grows_repo [grows_rules]:
  "grows (repo_CreateProductTx now cp)" "grows (repo_AddProductQuantityTx now i q)"
  "grows (repo_UpdateProductReservedTx now i q q')" "grows (repo_GetProductForUpdateTx i)"
  "grows (repo_FindProductByCode i code)" "grows (repo_PopRecycledSeq i mz sz)"
  "grows (repo_IncrementSeqCounter i mz sz)" "grows (repo_AddRecycledSeqTx i mz sz q)"
  "grows (repo_CreateOutboundOrderTx now co)" "grows (repo_GetOutboundOrderForUpdateTx i)"
  "grows (repo_UpdateOutboundOrderStatusTx now i st t1 t2)" "grows (repo_CreateInboundLogItemTx now i ty its)"
  "grows (repo_GetProduct i)" "grows (repo_DeleteProduct i)" "grows (repo_UpdateProduct now up)"
  unfolding repo_goods_defs
  by ((intro grows_rules; (auto split: if_splits dest: add_stock_columns bump_counter_frame)?)+)

lemma grows_lock_items [grows_rules]: "grows (lock_items now its)"
  by (induction its) (auto simp: Let_def intro!: grows_rules)

lemma grows_release_items [grows_rules]: "grows (release_items out now its)"
  by (induction its) (auto simp: Let_def intro!: grows_rules)

lemma grows_batch_items [grows_rules]: "grows (batch_items d now iid its)"
  by (induction its) (auto simp: Let_def intro!: grows_rules)

lemma grows_search_items [grows_rules]: "grows (search_items now its)"
  by (induction its) (auto simp: Let_def intro!: grows_rules)

section \<open>Histories\<close>

datatype goods_op =
    CreateProduct CreateProductReq
  | UpdateProduct UpdateProductReq
  | DeleteProduct string
  | AllocateSeq AllocateSeqReq
  | InboundSingle InboundSingleReq
  | InboundBatch InboundBatchReq
  | InboundSearchImport InboundSearchImportReq
  | CreateOutboundOrder CreateOutboundReq
  | ConfirmOutbound string
  | CancelOutbound string
  | CancelReserve string
  | ReserveToOutbound ReserveToOutboundReq

primrec goods_call :: "instant \<Rightarrow> goods_op \<Rightarrow> conn \<Rightarrow> conn" where
  "goods_call now (CreateProduct r) c = snd (svc_CreateProduct now r c)"
| "goods_call now (UpdateProduct r) c = snd (svc_UpdateProduct now r c)"
| "goods_call now (DeleteProduct i) c = snd (svc_DeleteProduct i c)"
| "goods_call now (AllocateSeq r) c = snd (svc_AllocateSeq r c)"
| "goods_call now (InboundSingle r) c = snd (svc_InboundSingle now r c)"
| "goods_call now (InboundBatch r) c = snd (svc_InboundBatch now r c)"
| "goods_call now (InboundSearchImport r) c = snd (svc_InboundSearchImport now r c)"
| "goods_call now (CreateOutboundOrder r) c = snd (svc_CreateOutboundOrder now r c)"
| "goods_call now (ConfirmOutbound i) c = snd (svc_ConfirmOutbound now i c)"
| "goods_call now (CancelOutbound i) c = snd (svc_CancelOutbound now i c)"
| "goods_call now (CancelReserve i) c = snd (svc_CancelReserve now i c)"
| "goods_call now (ReserveToOutbound r) c = snd (svc_ReserveToOutbound now r c)"

text \<open>A call, its instant, and which of its statements the database answers.\<close>

type_synonym goods_event = "instant \<times> bool list \<times> goods_op"

definition goods_step :: "goods_event \<Rightarrow> conn \<Rightarrow> conn" where
  "goods_step ev c = (case ev of (now, up, op) \<Rightarrow> goods_call now op (c\<lparr>cn_up := up\<rparr>))"

definition goods_run :: "goods_event list \<Rightarrow> conn \<Rightarrow> conn" where
  "goods_run h c = fold goods_step h c"

text \<open>The tables after \<open>initTables\<close>, with or without the column \<open>image_list\<close>.\<close>

definition goods_start :: "bool \<Rightarrow> (nat \<Rightarrow> string) \<Rightarrow> conn" where
  "goods_start img uuid = \<lparr>cn_db = (init_tables 0)\<lparr>gd_image_list := img\<rparr>, cn_up = [], cn_uuid = uuid, cn_drawn = 0\<rparr>"

lemma goods_run_invariant:
  assumes "blind P" "P c" "list_all (\<lambda>(now, up, op). ok op) h"
    and "\<And>now op c. ok op \<Longrightarrow> P c \<Longrightarrow> P (goods_call now op c)"
  shows "P (goods_run h c)"
  using assms(2,3)
proof (induction h arbitrary: c)
  case (Cons ev h)
  obtain now up op where ev: "ev = (now, up, op)" by (cases ev)
  have "P (c\<lparr>cn_up := up\<rparr>)" using assms(1) Cons.prems(1) by (simp add: blind_def)
  with assms(4) Cons.prems(2) ev have "P (goods_step ev c)" by (simp add: goods_step_def)
  with Cons show ?case by (simp add: goods_run_def)
qed (simp add: goods_run_def)

section \<open>Every call keeps the books\<close>

lemma yields_ex: "(\<And>x. yields (P x) m Q) \<Longrightarrow> yields (\<lambda>c. \<exists>x. P x c) m Q"
  by (auto simp: yields_def)

lemma preserves_yields: "preserves P m \<Longrightarrow> yields P m (\<lambda>_. P)"
  by (fastforce simp: yields_def preserves_def)

lemma preserves_bind_yields:
  "preserves P m \<Longrightarrow> yields P m R \<Longrightarrow> (\<And>x c. R x c \<Longrightarrow> P (snd (f x c))) \<Longrightarrow> preserves P (bind m f)"
  by (fastforce simp: preserves_def yields_def bind_def split: prod.split sum.split)

lemma exec_post:
  assumes "blind P" "P c" "\<And>c. P c \<Longrightarrow> Q c" "\<And>c d. P c \<Longrightarrow> x (cn_db c) = Some d \<Longrightarrow> Q (c\<lparr>cn_db := d\<rparr>)"
  shows "Q (snd (exec x c))"
proof -
  obtain b us where a: "answered c = (b, c\<lparr>cn_up := us\<rparr>)" using answered_cases by blast
  have P': "P (c\<lparr>cn_up := us\<rparr>)" using assms(1,2) by (simp add: blind_def)
  show ?thesis
    using a assms(3,4) [OF P'] by (auto simp: exec_def split: option.splits)
qed

lemma yields_if: "(b \<Longrightarrow> yields P m Q) \<Longrightarrow> (\<not> b \<Longrightarrow> yields P n Q) \<Longrightarrow> yields P (if b then m else n) Q"
  by simp

lemmas balanced_blind = books_blind [of "\<lambda>_. 0" "{}"]
lemmas balanced_tx = preserves_with_tx [OF books_rolls_back [of "\<lambda>_. 0" "{}"]]

lemma preserves_outside_products:
  assumes "blind P"
  shows "preserves P (outside d (product_query q))"
  unfolding preserves_def
proof (intro allI impI)
  fix c assume P: "P c"
  obtain b us where "answered (c\<lparr>cn_db := d\<rparr>) = (b, (c\<lparr>cn_db := d\<rparr>)\<lparr>cn_up := us\<rparr>)"
    using answered_cases by blast
  then have "snd (outside d (product_query q) c) = c\<lparr>cn_up := us\<rparr>"
    by (simp add: outside_def product_query_def query_def)
  with assms P show "P (snd (outside d (product_query q) c))" by (simp add: blind_def)
qed

text \<open>The lookup-or-create step of \<open>InboundSingle\<close> and of the loop of \<open>InboundBatch\<close>.\<close>

definition quantity_ok :: "int option \<Rightarrow> bool" where
  "quantity_ok q \<longleftrightarrow> 0 \<le> over q 0"

lemma yields_inbound:
  assumes "preserves balanced m" "quantity_ok q" "cp_Quantity r = Some (over q 0)"
  shows "yields balanced (attempt m (\<lambda>x. case x of
      Inl e \<Rightarrow> if e = ErrNoRows then repo_CreateProductTx now r else fail e
    | Inr p \<Rightarrow> let qty = over q 1
               in bind (repo_AddProductQuantityTx now (pd_ID p) qty)
                    (\<lambda>_. ret (p\<lparr>pd_Quantity := pd_Quantity p + qty\<rparr>)))) (\<lambda>_. balanced)"
proof (rule yields_attempt [OF assms(1)])
  fix x
  have "0 \<le> over (cp_Quantity r) 0" "0 \<le> over q 1"
    using assms(2,3) by (auto simp: quantity_ok_def over_def split: option.splits)
  then show "yields balanced (case x of
      Inl e \<Rightarrow> if e = ErrNoRows then repo_CreateProductTx now r else fail e
    | Inr p \<Rightarrow> let qty = over q 1
               in bind (repo_AddProductQuantityTx now (pd_ID p) qty)
                    (\<lambda>_. ret (p\<lparr>pd_Quantity := pd_Quantity p + qty\<rparr>))) (\<lambda>_. balanced)"
    by (auto simp: Let_def split: sum.split
        intro!: yields_create_product yields_fail yields_ret yields_bind [OF yields_add_quantity])
qed

lemma yields_batch_items:
  "list_all (\<lambda>it. quantity_ok (bi_Quantity it)) its \<Longrightarrow>
   yields balanced (batch_items d now iid its) (\<lambda>_. balanced)"
proof (induction its)
  case (Cons it its)
  then show ?case
    by (auto simp: Let_def repo_FindProductByCode_def batch_create_def
        intro!: yields_bind [OF yields_inbound [unfolded Let_def]] yields_bind [OF Cons.IH] yields_ret
          preserves_outside_products balanced_blind)
qed (simp add: yields_ret)

lemma yields_search_items:
  "list_all (\<lambda>it. 0 \<le> si_Quantity it) its \<Longrightarrow> yields balanced (search_items now its) (\<lambda>_. balanced)"
proof (induction its)
  case (Cons it its)
  have "yields balanced (or_not_found ErrProductNotFound (repo_GetProductForUpdateTx (si_ProductID it))) (\<lambda>_. balanced)"
    unfolding repo_GetProductForUpdateTx_def
    by (intro preserves_yields preserves_or_not_found preserves_product_query balanced_blind)
  with Cons show ?case
    by (auto intro!: yields_bind [where R = "\<lambda>_. balanced"] yields_add_quantity Cons.IH yields_ret)
qed (simp add: yields_ret)

lemma yields_balanced_log:
  "yields balanced m (\<lambda>_. balanced) \<Longrightarrow>
   yields balanced (bind m (\<lambda>r. bind (repo_CreateInboundLogItemTx now iid ty (its r)) (\<lambda>_. ret (f r)))) (\<lambda>_. balanced)"
  by (auto intro!: yields_bind [where R = "\<lambda>_. balanced"] yields_log_item yields_ret)

lemma yields_at: "(\<And>c0. P c0 \<Longrightarrow> yields (\<lambda>c. c = c0) m Q) \<Longrightarrow> yields P m Q"
  by (auto simp: yields_def)

lemma balanced_InboundBatch:
  assumes "list_all (\<lambda>it. quantity_ok (bi_Quantity it)) (ib_Items r)"
  shows "preserves balanced (svc_InboundBatch now r)"
proof -
  let ?m = "\<lambda>d. bind (batch_items d now (ib_InventoryID r) (ib_Items r)) (\<lambda>results.
    bind (repo_CreateInboundLogItemTx now (ib_InventoryID r) ''batch'' (JProducts results))
      (\<lambda>_. ret (results, length results)))"
  have g: "grows (?m d)" for d
    by (intro grows_rules)
  have y: "yields balanced (?m d) (\<lambda>_. balanced)" for d
    by (rule yields_balanced_log [OF yields_batch_items [OF assms]])
  have "grows (\<lambda>c. ?m (cn_db c) c)"
    using g unfolding grows_def by blast
  moreover have "yields balanced (\<lambda>c. ?m (cn_db c) c) (\<lambda>_. balanced)"
    using y unfolding yields_def by blast
  ultimately show ?thesis
    unfolding svc_InboundBatch_def by (rule balanced_tx)
qed

text \<open>Closing an order, whatever follows.\<close>

definition order_at :: "OutboundOrder \<Rightarrow> conn \<Rightarrow> bool" where
  "order_at ord c \<longleftrightarrow> balanced c \<and> ord \<in> set (gd_orders (cn_db c))"

lemma yields_get_order: "yields balanced (repo_GetOutboundOrderForUpdateTx i) order_at"
  unfolding repo_GetOutboundOrderForUpdateTx_def
  by (rule yields_query [OF balanced_blind]) (auto simp: order_at_def dest: row_Inr)

lemma yields_close:
  assumes "open_status (oo_Status ord)" "\<not> open_status st" "yields balanced m (\<lambda>_. balanced)"
  shows "yields (order_at ord) (bind (release_items out now (unmarshal_items (oo_Items ord))) (\<lambda>_.
    bind (repo_UpdateOutboundOrderStatusTx now (oo_ID ord) st t1 t2) (\<lambda>_. m))) (\<lambda>_. balanced)"
proof (rule yields_at)
  fix c0
  assume at: "order_at ord c0"
  let ?its = "unmarshal_items (oo_Items ord)" and ?os = "gd_orders (cn_db c0)"
  have "\<forall>it \<in> set ?its. 0 \<le> oi_Quantity it" using at by (auto simp: order_at_def books_def order_ok_def)
  note release = yields_release_items [OF this, of "\<lambda>_. 0" "{}" ?os out now]
  have "ord \<in> set ?os" using at by (simp add: order_at_def)
  note status = yields_set_status [OF this assms(1,2), of "\<lambda>_. 0" "\<lambda>i. 0 - item_total i ?its" "{}" now t1 t2]
  have "yields (\<lambda>c. balanced c \<and> gd_orders (cn_db c) = ?os) (bind (release_items out now ?its) (\<lambda>_.
      bind (repo_UpdateOutboundOrderStatusTx now (oo_ID ord) st t1 t2) (\<lambda>_. m))) (\<lambda>_. balanced)"
    by (rule yields_bind [OF release], rule yields_bind [OF status]) (auto intro: assms(3))
  then show "yields (\<lambda>c. c = c0) (bind (release_items out now ?its) (\<lambda>_.
      bind (repo_UpdateOutboundOrderStatusTx now (oo_ID ord) st t1 t2) (\<lambda>_. m))) (\<lambda>_. balanced)"
    by (rule yields_pre) (use at in \<open>simp add: order_at_def\<close>)
qed

lemma yields_close_open:
  assumes "\<not> open_status st" "yields balanced m (\<lambda>_. balanced)"
  shows "yields (order_at ord) (if \<not> open_status (oo_Status ord) then fail e
     else bind (release_items out now (unmarshal_items (oo_Items ord))) (\<lambda>_.
       bind (repo_UpdateOutboundOrderStatusTx now (oo_ID ord) st t1 t2) (\<lambda>_. m))) (\<lambda>_. balanced)"
  using assms by (simp add: yields_close yields_fail)

text \<open>The requests that the invariant needs: no negative quantities, new orders open, no direct change
  of the stock of a product.\<close>

primrec op_ok :: "goods_op \<Rightarrow> bool" where
  "op_ok (CreateProduct r) = quantity_ok (cp_Quantity r)"
| "op_ok (UpdateProduct r) = (up_Quantity r = None)"
| "op_ok (DeleteProduct i) = True"
| "op_ok (AllocateSeq r) = True"
| "op_ok (InboundSingle r) = quantity_ok (is_Quantity r)"
| "op_ok (InboundBatch r) = list_all (\<lambda>it. quantity_ok (bi_Quantity it)) (ib_Items r)"
| "op_ok (InboundSearchImport r) = list_all (\<lambda>it. 0 \<le> si_Quantity it) (ir_Items r)"
| "op_ok (CreateOutboundOrder r) = order_request_ok r"
| "op_ok (ConfirmOutbound i) = True"
| "op_ok (CancelOutbound i) = True"
| "op_ok (CancelReserve i) = True"
| "op_ok (ReserveToOutbound r) = list_all (\<lambda>it. 0 \<le> oi_Quantity it) (ro_Items r)"

lemma yields_order_then_lock:
  assumes "order_request_ok r" "its = co_Items r"
  shows "yields balanced (bind (repo_CreateOutboundOrderTx now r) (\<lambda>n. bind (lock_items now its) (\<lambda>_. ret n)))
    (\<lambda>_. balanced)"
proof -
  let ?X = "oi_ProductID ` set its"
  let ?e = "\<lambda>i. 0 - item_total i its"
  have create: "yields balanced (repo_CreateOutboundOrderTx now r) (\<lambda>_. books ?e ?X)"
    by (rule yields_pre, unfold assms(2), rule yields_create_order [OF assms(1), of "{}"]) auto
  have "yields (books ?e ?X) (lock_items now its) (\<lambda>_ c. books (\<lambda>i. ?e i + item_total i its) ?X c \<and> all_known its c)"
    using yields_lock_items [of ?e ?X "[]" now its] by (simp add: all_known_def)
  then have lock: "yields (books ?e ?X) (lock_items now its) (\<lambda>_. balanced)"
    by (rule yields_post) (force simp: books_defs all_known_def)
  show ?thesis
    by (rule yields_bind [OF create], rule yields_bind [OF lock], rule yields_ret)
qed

lemma yields_lock_then_order:
  assumes "order_request_ok r"
  shows "yields balanced (bind (lock_items now (co_Items r)) (\<lambda>_. repo_CreateOutboundOrderTx now r)) (\<lambda>_. balanced)"
proof (rule yields_bind)
  let ?e = "\<lambda>i. item_total i (co_Items r)"
  show "yields balanced (lock_items now (co_Items r)) (\<lambda>_ c. books ?e {} c \<and> all_known (co_Items r) c)"
    using yields_lock_items [of "\<lambda>_. 0" "{}" "[]" now "co_Items r"] by (simp add: all_known_def)
  show "yields (\<lambda>c. books ?e {} c \<and> all_known (co_Items r) c) (repo_CreateOutboundOrderTx now r) (\<lambda>_. balanced)"
    using yields_create_order [OF assms, of "{}" "{}" ?e now] by (simp add: all_known_def)
qed

lemma preserves_frame:
  "(\<And>d d'. x d = Some d' \<Longrightarrow> gd_products d' = gd_products d \<and> gd_orders d' = gd_orders d) \<Longrightarrow> preserves balanced (exec x)"
  by (rule yields_frame)

lemma balanced_AllocateSeq: "preserves balanced (svc_AllocateSeq r)"
  unfolding svc_AllocateSeq_def
proof (rule balanced_tx, intro grows_rules, rule preserves_yields, rule preserves_attempt)
  show "preserves balanced (repo_PopRecycledSeq (aq_InventoryID r) (aq_MainZone r) (aq_SubZone r))"
    unfolding repo_PopRecycledSeq_def
    by (intro preserves_bind preserves_query balanced_blind preserves_frame preserves_ret) auto
  have "preserves balanced (repo_IncrementSeqCounter (aq_InventoryID r) (aq_MainZone r) (aq_SubZone r))"
    unfolding repo_IncrementSeqCounter_def
    by (intro preserves_bind preserves_query balanced_blind preserves_frame preserves_balanced_uuid preserves_ret)
      (auto dest: bump_counter_frame)
  then show "preserves balanced (case x of Inl _ \<Rightarrow>
      repo_IncrementSeqCounter (aq_InventoryID r) (aq_MainZone r) (aq_SubZone r) | Inr seq \<Rightarrow> ret seq)" for x
    by (simp add: preserves_ret split: sum.split)
qed

lemma balanced_DeleteProduct: "preserves balanced (svc_DeleteProduct i)"
proof -
  have "preserves balanced (repo_DeleteProduct i)"
    unfolding repo_DeleteProduct_def
  proof (rule preserves_exec [OF balanced_blind])
    fix c d
    assume b: "balanced c" and "Some ((cn_db c)\<lparr>gd_products := filter (\<lambda>p. pd_ID p \<noteq> i) (gd_products (cn_db c))\<rparr>) = Some d"
    then have d: "gd_products d = filter (\<lambda>p. pd_ID p \<noteq> i) (gd_products (cn_db c))" "gd_orders d = gd_orders (cn_db c)"
      by auto
    have k: "known (c\<lparr>cn_db := d\<rparr>) j = known c j" for j by (simp add: known_def)
    have "distinct (map pd_ID (gd_products d))" using b by (simp add: d books_def distinct_map_filter)
    with b show "balanced (c\<lparr>cn_db := d\<rparr>)" by (auto simp: books_defs k d)
  qed
  moreover have "preserves balanced (repo_AddRecycledSeqTx iid mz sz q)" for iid mz sz q
    unfolding repo_AddRecycledSeqTx_def
    by (intro preserves_bind preserves_balanced_uuid preserves_frame) (auto split: if_splits)
  moreover have "grows (repo_AddRecycledSeqTx iid mz sz q)" for iid mz sz q
    by (rule grows_repo)
  ultimately show ?thesis
    unfolding svc_DeleteProduct_def begin_tx_def repo_GetProduct_def
    by (intro preserves_bind preserves_or_not_found preserves_product_query preserves_query balanced_blind
        preserves_tx_body books_rolls_back preserves_yields)
qed

lemma balanced_UpdateProduct:
  assumes "up_Quantity r = None"
  shows "preserves balanced (svc_UpdateProduct now r)"
  unfolding svc_UpdateProduct_def
proof (rule preserves_or_not_found)
  let ?at = "\<lambda>p c. balanced c \<and> p \<in> set (gd_products (cn_db c))"
  let ?p = "\<lambda>p. (product_update r p)\<lparr>pd_UpdatedAt := now\<rparr>"
  let ?w = "\<lambda>p d. if in_i32 (pd_Quantity (?p p)) \<and> in_i32 (pd_ReservedQuantity (?p p)) \<and> in_i32 (pd_SeqNumber (?p p))
     then Some (d\<lparr>gd_products := set_rows (\<lambda>q. pd_ID q = pd_ID (?p p))
       (\<lambda>q. (?p p)\<lparr>pd_ID := pd_ID q, pd_InventoryID := pd_InventoryID q, pd_CreatedAt := pd_CreatedAt q\<rparr>) (gd_products d)\<rparr>)
     else None"
  have written: "balanced (c\<lparr>cn_db := d\<rparr>)" if at: "?at p c" and "?w p (cn_db c) = Some d" for p c d
  proof -
    have d: "gd_products d = set_rows (\<lambda>q. pd_ID q = pd_ID p)
       (\<lambda>q. (?p p)\<lparr>pd_ID := pd_ID q, pd_InventoryID := pd_InventoryID q, pd_CreatedAt := pd_CreatedAt q\<rparr>)
       (gd_products (cn_db c))" "gd_orders d = gd_orders (cn_db c)"
      using that(2) by (auto simp: product_update_def split: if_splits)
    have k: "known (c\<lparr>cn_db := d\<rparr>) j = known c j" for j by (simp add: known_def)
    have "product_ok (\<lambda>_. 0) (c\<lparr>cn_db := d\<rparr>) q" if q: "q \<in> set (gd_products d)" for q
    proof -
      obtain x where x: "x \<in> set (gd_products (cn_db c))"
        and q_x: "q = (if pd_ID x = pd_ID p
          then (?p p)\<lparr>pd_ID := pd_ID x, pd_InventoryID := pd_InventoryID x, pd_CreatedAt := pd_CreatedAt x\<rparr> else x)"
        using q unfolding d set_rows_iff by blast
      define y where "y = (if pd_ID x = pd_ID p then p else x)"
      have "y \<in> set (gd_products (cn_db c))" using x at by (simp add: y_def)
      then have "product_ok (\<lambda>_. 0) c y" using at by (simp add: books_def)
      moreover have "pd_ID q = pd_ID y \<and> pd_Quantity q = pd_Quantity y \<and> pd_ReservedQuantity q = pd_ReservedQuantity y"
        using q_x assms by (simp add: y_def product_update_def over_def)
      ultimately show ?thesis by (simp add: product_ok_def k d)
    qed
    moreover have "map pd_ID (gd_products d) = map pd_ID (gd_products (cn_db c))"
      unfolding d by (rule map_set_rows) simp
    ultimately show ?thesis using at by (simp add: books_def order_ok_def k d)
  qed
  have at_blind: "blind (?at p)" for p
    using balanced_blind by (simp add: blind_def)
  have get: "yields balanced (repo_GetProduct (up_ID r)) ?at"
    unfolding repo_GetProduct_def by (rule yields_product_query [OF balanced_blind]) (auto dest: row_Inr)
  show "preserves balanced (repo_UpdateProduct now r)"
    unfolding repo_UpdateProduct_def Let_def
  proof (rule preserves_bind_yields [OF _ get])
    show "preserves balanced (repo_GetProduct (up_ID r))"
      unfolding repo_GetProduct_def by (rule preserves_product_query [OF balanced_blind])
    fix p c
    assume at: "?at p c"
    have "balanced (snd (exec (?w p) c))"
      using at_blind [of p] at by (rule exec_post) (blast, rule written, blast)
    then show "balanced (snd (bind (exec (?w p)) (\<lambda>_. ret (?p p)) c))"
      by (simp add: bind_def ret_def prod.case_eq_if split: sum.split)
  qed
qed

lemma balanced_create_outbound:
  "order_request_ok r \<Longrightarrow> preserves balanced (svc_CreateOutboundOrder now r)"
  unfolding svc_CreateOutboundOrder_def by (intro balanced_tx yields_lock_then_order grows_rules)

lemma closed_statuses: "\<not> open_status OrderStatusConfirmed" "\<not> open_status OrderStatusCancelled"
  by (simp_all add: open_status_def order_constants)

lemma yields_balanced_ret: "yields balanced (ret x) (\<lambda>_. balanced)"
  by (simp add: yields_ret)

lemma balanced_closing_methods:
  "preserves balanced (svc_ConfirmOutbound now i)" "preserves balanced (svc_CancelOutbound now i)"
  "preserves balanced (svc_CancelReserve now i)"
proof -
  show "preserves balanced (svc_ConfirmOutbound now i)" "preserves balanced (svc_CancelOutbound now i)"
    unfolding svc_ConfirmOutbound_def svc_CancelOutbound_def
    by (intro balanced_tx grows_rules yields_bind [OF yields_get_order] yields_close_open closed_statuses
        yields_balanced_ret)+
  show "preserves balanced (svc_CancelReserve now i)"
    unfolding svc_CancelReserve_def
    by (rule balanced_tx, intro grows_rules, rule yields_bind [OF yields_get_order], rule yields_if, rule yields_fail,
        intro yields_close_open closed_statuses yields_balanced_ret)
qed

lemma balanced_reserve_to_outbound:
  assumes "list_all (\<lambda>it. 0 \<le> oi_Quantity it) (ro_Items r)"
  shows "preserves balanced (svc_ReserveToOutbound now r)"
proof -
  have "order_request_ok (reserve_order r)" "ro_Items r = co_Items (reserve_order r)"
    using assms by (simp_all add: order_request_ok_def reserve_order_def open_status_def over_def list_all_iff)
  note tail = yields_order_then_lock [OF this, of now]
  show ?thesis
    unfolding svc_ReserveToOutbound_def
    by (rule balanced_tx, intro grows_rules, rule yields_bind [OF yields_get_order], rule yields_if, rule yields_fail,
        intro yields_close_open closed_statuses tail)
qed

lemma balanced_call:
  assumes "op_ok op" "balanced c"
  shows "balanced (goods_call now op c)"
proof -
  have create: "preserves balanced (svc_CreateProduct now r)" if "quantity_ok (cp_Quantity r)" for r
    unfolding svc_CreateProduct_def
    by (intro balanced_tx grows_rules yields_create_product) (use that in \<open>simp add: quantity_ok_def\<close>)
  have single: "preserves balanced (svc_InboundSingle now r)" if "quantity_ok (is_Quantity r)" for r
  proof -
    have "preserves balanced (repo_FindProductByCode iid code)" for iid code
      unfolding repo_FindProductByCode_def by (rule preserves_product_query [OF balanced_blind])
    then show ?thesis
      unfolding svc_InboundSingle_def Let_def
      by (intro balanced_tx yields_balanced_log yields_inbound [unfolded Let_def] grows_rules that)
        (simp_all add: single_create_def)
  qed
  have search: "preserves balanced (svc_InboundSearchImport now r)" if "list_all (\<lambda>it. 0 \<le> si_Quantity it) (ir_Items r)" for r
    unfolding svc_InboundSearchImport_def
    by (intro balanced_tx yields_balanced_log yields_search_items grows_rules that)
  show ?thesis
    using assms create single search balanced_UpdateProduct balanced_DeleteProduct balanced_AllocateSeq
      balanced_InboundBatch balanced_create_outbound balanced_closing_methods balanced_reserve_to_outbound
    by (cases op) (auto simp: preserves_def)
qed

section \<open>The invariant of the stock\<close>

lemma start_balanced: "inj uuid \<Longrightarrow> balanced (goods_start img uuid)"
  by (simp add: books_def goods_start_def init_tables_def)

lemma run_balanced:
  "balanced c \<Longrightarrow> list_all (\<lambda>(now, up, op). op_ok op) h \<Longrightarrow> balanced (goods_run h c)"
  by (rule goods_run_invariant [OF balanced_blind, where ok = op_ok]) (auto intro: balanced_call)

lemma balanced_product:
  assumes "balanced c" "p \<in> set (gd_products (cn_db c))"
  shows "0 \<le> pd_ReservedQuantity p" "pd_ReservedQuantity p \<le> pd_Quantity p"
    "pd_ReservedQuantity p = open_total (pd_ID p) (gd_orders (cn_db c))"
  using assms open_total_nonneg [of "gd_orders (cn_db c)" "{}" c "pd_ID p"]
  by (auto simp: books_def product_ok_def)

text \<open>The stock is never oversold. Take any history of calls of the goods service from empty tables,
  with the database refusing statements and commits wherever it likes. As long as no request has a
  negative quantity, orders are created open and the stock of a product is not overwritten by hand,
  what is reserved of every product is exactly what the pending and reserved orders ask for; it is
  never negative and never more than the stock.\<close>

lemma never_oversold:
  assumes "inj uuid" "list_all (\<lambda>(now, up, op). op_ok op) h"
    and "p \<in> set (gd_products (cn_db (goods_run h (goods_start img uuid))))"
  shows "pd_ReservedQuantity p = open_total (pd_ID p) (gd_orders (cn_db (goods_run h (goods_start img uuid)))) \<and>
    0 \<le> pd_ReservedQuantity p \<and> pd_ReservedQuantity p \<le> pd_Quantity p"
  using balanced_product [OF run_balanced [OF start_balanced [OF assms(1)] assms(2)] assms(3)] by simp

definition demo_uuid :: "nat \<Rightarrow> string" where
  "demo_uuid n = replicate n CHR ''u''"

lemma inj_demo_uuid: "inj demo_uuid"
  by (rule injI) (metis demo_uuid_def length_replicate)

definition demo_product :: CreateProductReq where
  "demo_product = \<lparr>cp_InventoryID = ''i'', cp_Code = [], cp_MainZone = ''A'', cp_SubZone = ''1'', cp_SeqNumber = 1,
     cp_Quantity = Some 5, cp_StatusCode = ''N'', cp_Name = ''figure'', cp_OriginalPrice = 0, cp_MarketPrice = 0,
     cp_ExpectedPrice = 0, cp_Remark = [], cp_StorageLocation = [], cp_ImageURL = None, cp_Tags = None\<rparr>"

definition demo_order :: "int \<Rightarrow> CreateOutboundReq" where
  "demo_order q = \<lparr>co_InventoryID = ''i'', co_OrderNo = ''o1'', co_Type = Some OrderTypeReserve, co_Status = None,
     co_OrderInfo = None, co_Remark = None,
     co_Items = [\<lparr>oi_ProductID = [], oi_ProductName = [], oi_ProductCode = [], oi_Quantity = q, oi_ImageURL = None\<rparr>],
     co_SourceReserveID = None\<rparr>"

text \<open>Five pieces in, three reserved, three more refused, then a confirmation whose commit is lost.\<close>

definition demo_history :: "goods_event list" where
  "demo_history = [(1, [], CreateProduct demo_product), (2, [], CreateOutboundOrder (demo_order 3)),
     (3, [], CreateOutboundOrder (demo_order 3)), (4, [True, True, True, True, False], ConfirmOutbound ''u'')]"

lemmas goods_eval = goods_run_def goods_step_def goods_start_def init_tables_def
  svc_CreateProduct_def svc_CreateOutboundOrder_def svc_ConfirmOutbound_def svc_CancelOutbound_def
  with_tx_def tx_body_def begin_tx_def repo_goods_defs product_query_def query_def exec_def answered_def
  bind_def ret_def fail_def attempt_def or_not_found_def new_uuid_def row_def insert_row_def set_rows_def over_def
  add_stock_def in_i32_def unmarshal_items_def open_status_def order_constants demo_uuid_def product_code_def

lemma never_oversold_witness:
  "let c = goods_run demo_history (goods_start True demo_uuid); p = hd (gd_products (cn_db c)) in
   pd_ReservedQuantity p = 3 \<and> pd_Quantity p = 5 \<and> 0 \<le> pd_ReservedQuantity p \<and> pd_ReservedQuantity p \<le> pd_Quantity p"
proof -
  let ?c = "goods_run demo_history (goods_start True demo_uuid)"
  have ok: "list_all (\<lambda>(now, up, op). op_ok op) demo_history"
    by (simp add: demo_history_def quantity_ok_def demo_product_def demo_order_def order_request_ok_def over_def
        open_status_def order_constants)
  have ps: "map (\<lambda>p. (pd_ReservedQuantity p, pd_Quantity p)) (gd_products (cn_db ?c)) = [(3, 5)]"
    by (simp add: goods_eval demo_history_def demo_product_def demo_order_def)
  then obtain p where p: "gd_products (cn_db ?c) = [p]" "pd_ReservedQuantity p = 3" "pd_Quantity p = 5" by auto
  from never_oversold [OF inj_demo_uuid ok, of p True] p show ?thesis by (simp add: Let_def)
qed

end
