(* ===== verification/GoodsOrders.thy ===== *)
theory GoodsOrders
  imports GoodsBooks
begin

text \<open>
  The life of an order: once it is confirmed or cancelled, no call changes it any more, whatever the
  requests are and whenever the database fails. Then the calls of the service that are not atomic or
  that see stale tables.
\<close>

section \<open>What keeps an order\<close>

definition order_is :: "string \<Rightarrow> OutboundOrder \<Rightarrow> conn \<Rightarrow> bool" where
  "order_is i ord c \<longleftrightarrow> find (\<lambda>x. oo_ID x = i) (gd_orders (cn_db c)) = Some ord"

lemma order_is_rolls_back: "rolls_back (order_is i ord)"
  by (simp add: rolls_back_def order_is_def)

lemmas order_is_blind = rolls_back_blind [OF order_is_rolls_back]

named_theorems keeps_rules

abbreviation keeps :: "string \<Rightarrow> OutboundOrder \<Rightarrow> 'a stmt \<Rightarrow> bool" where
  "keeps i ord \<equiv> preserves (order_is i ord)"

lemma find_set_rows_other:
  assumes "i \<noteq> j" "\<And>x. oo_ID (f x) = oo_ID x"
  shows "find (\<lambda>x. oo_ID x = i) (set_rows (\<lambda>x. oo_ID x = j) f os) = find (\<lambda>x. oo_ID x = i) os"
  using assms by (induction os) (auto simp: set_rows_def)

lemma keeps_exec:
  "(\<And>d d'. x d = Some d' \<Longrightarrow> gd_orders d' = gd_orders d) \<Longrightarrow> keeps i ord (exec x)"
  by (rule preserves_exec [OF order_is_blind]) (auto simp: order_is_def)

lemma keeps_uuid [keeps_rules]: "keeps i ord new_uuid"
  by (simp add: preserves_def new_uuid_def order_is_def)

lemmas keeps_basic [keeps_rules] = preserves_bind preserves_attempt preserves_ret preserves_fail
  preserves_query [OF order_is_blind] preserves_product_query [OF order_is_blind] preserves_or_not_found
  preserves_outside_products [OF order_is_blind]

lemma preserves_if [keeps_rules]: "preserves P a \<Longrightarrow> preserves P b \<Longrightarrow> preserves P (if p then a else b)"
  by simp

lemma preserves_sum [keeps_rules]:
  "(\<And>e. preserves P (f e)) \<Longrightarrow> (\<And>x. preserves P (g x)) \<Longrightarrow> preserves P (case r of Inl e \<Rightarrow> f e | Inr x \<Rightarrow> g x)"
  by (simp split: sum.split)

lemma add_stock_orders: "add_stock now i dq dr d = Some d' \<Longrightarrow> gd_orders d' = gd_orders d"
  by (auto simp: add_stock_def split: if_splits)

lemma keeps_repo [keeps_rules]:
  "keeps i ord (repo_CreateProductTx now cp)" "keeps i ord (repo_AddProductQuantityTx now j q)"
  "keeps i ord (repo_UpdateProductReservedTx now j q q')" "keeps i ord (repo_GetProductForUpdateTx j)"
  "keeps i ord (repo_FindProductByCode j code)" "keeps i ord (repo_PopRecycledSeq j mz sz)"
  "keeps i ord (repo_IncrementSeqCounter j mz sz)" "keeps i ord (repo_AddRecycledSeqTx j mz sz q)"
  "keeps i ord (repo_GetOutboundOrderForUpdateTx j)" "keeps i ord (repo_CreateInboundLogItemTx now j ty its)"
  "keeps i ord (repo_GetProduct j)" "keeps i ord (repo_DeleteProduct j)" "keeps i ord (repo_UpdateProduct now up)"
  unfolding repo_goods_defs
  by ((intro keeps_rules keeps_exec; (auto split: if_splits dest: add_stock_orders bump_counter_frame)?)+)

lemma keeps_create_order [keeps_rules]: "keeps i ord (repo_CreateOutboundOrderTx now r)"
  unfolding repo_CreateOutboundOrderTx_def Let_def
  by (intro keeps_rules preserves_exec [OF order_is_blind])
    (auto simp: order_is_def insert_row_def find_append split: if_splits)

lemma keeps_update_status:
  assumes "i \<noteq> j"
  shows "keeps i ord (repo_UpdateOutboundOrderStatusTx now j st t1 t2)"
  unfolding repo_UpdateOutboundOrderStatusTx_def
  by (rule preserves_exec [OF order_is_blind]) (use assms in \<open>auto simp: order_is_def find_set_rows_other\<close>)

lemma keeps_lock_items [keeps_rules]: "keeps i ord (lock_items now its)"
  by (induction its) (auto intro!: keeps_rules)

lemma keeps_release_items [keeps_rules]: "keeps i ord (release_items out now its)"
  by (induction its) (auto intro!: keeps_rules)

lemma keeps_search_items [keeps_rules]: "keeps i ord (search_items now its)"
  by (induction its) (auto intro!: keeps_rules)

lemma keeps_batch_items [keeps_rules]: "keeps i ord (batch_items d now iid its)"
  unfolding repo_FindProductByCode_def
  by (induction its) (auto simp: Let_def repo_FindProductByCode_def intro!: keeps_rules)

lemma keeps_tx_body [keeps_rules]: "grows m \<Longrightarrow> keeps i ord m \<Longrightarrow> keeps i ord (tx_body m)"
  by (rule preserves_tx_body [OF order_is_rolls_back]) (simp_all add: preserves_yields)

lemma keeps_with_tx [keeps_rules]: "grows m \<Longrightarrow> keeps i ord m \<Longrightarrow> keeps i ord (with_tx m)"
  unfolding with_tx_def begin_tx_def by (intro keeps_rules)

section \<open>A closed order stays closed\<close>

text \<open>What \<open>SELECT ... WHERE id = j FOR UPDATE\<close> returns while order \<open>i\<close> is \<open>ord\<close>.\<close>

definition found_order :: "string \<Rightarrow> OutboundOrder \<Rightarrow> OutboundOrder \<Rightarrow> conn \<Rightarrow> bool" where
  "found_order i ord x c \<longleftrightarrow> order_is i ord c \<and> (oo_ID x = i \<longrightarrow> x = ord)"

lemma yields_found_order: "yields (order_is i ord) (repo_GetOutboundOrderForUpdateTx j) (found_order i ord)"
  unfolding repo_GetOutboundOrderForUpdateTx_def
proof (rule yields_query [OF order_is_blind])
  fix c x
  assume "order_is i ord c" and "row (\<lambda>x. oo_ID x = j) (gd_orders (cn_db c)) = Inr x"
  moreover from this(2) have "find (\<lambda>x. oo_ID x = j) (gd_orders (cn_db c)) = Some x" "oo_ID x = j"
    by (auto simp: row_def dest: row_Inr split: option.splits) (metis (mono_tags) find_Some_iff)
  ultimately show "found_order i ord x c" by (auto simp: found_order_def order_is_def)
qed

lemma preservesD: "preserves P m \<Longrightarrow> P c \<Longrightarrow> P (snd (m c))"
  by (simp add: preserves_def)

lemma keeps_close:
  assumes closed: "\<not> open_status (oo_Status ord)" and x: "found_order i ord x c" and m: "keeps i ord m"
  shows "order_is i ord (snd ((if \<not> open_status (oo_Status x) then fail e
     else bind (release_items out now (unmarshal_items (oo_Items x))) (\<lambda>_.
       bind (repo_UpdateOutboundOrderStatusTx now (oo_ID x) st t1 t2) (\<lambda>_. m))) c))"
proof (cases "open_status (oo_Status x)")
  case True
  then have other: "i \<noteq> oo_ID x" using closed x by (auto simp: found_order_def)
  have "keeps i ord (bind (release_items out now (unmarshal_items (oo_Items x))) (\<lambda>_.
       bind (repo_UpdateOutboundOrderStatusTx now (oo_ID x) st t1 t2) (\<lambda>_. m)))"
    by (intro keeps_rules keeps_update_status [OF other] m)
  from preservesD [OF this] True x show ?thesis by (simp add: found_order_def)
qed (use x in \<open>simp add: fail_def found_order_def\<close>)

lemma keeps_close_body:
  assumes "\<not> open_status (oo_Status ord)" "\<And>x. keeps i ord (m x)"
  shows "keeps i ord (bind (repo_GetOutboundOrderForUpdateTx j) (\<lambda>x. if \<not> open_status (oo_Status x) then fail e
     else bind (release_items out now (unmarshal_items (oo_Items x))) (\<lambda>_.
       bind (repo_UpdateOutboundOrderStatusTx now (oo_ID x) st t1 t2) (\<lambda>_. m x))))"
    and "keeps i ord (bind (repo_GetOutboundOrderForUpdateTx j) (\<lambda>x. if bad x then fail e'
     else if \<not> open_status (oo_Status x) then fail e
     else bind (release_items out now (unmarshal_items (oo_Items x))) (\<lambda>_.
       bind (repo_UpdateOutboundOrderStatusTx now (oo_ID x) st t1 t2) (\<lambda>_. m x))))"
proof -
  note close = keeps_close [OF assms(1) _ assms(2)]
  show "keeps i ord (bind (repo_GetOutboundOrderForUpdateTx j) (\<lambda>x. if \<not> open_status (oo_Status x) then fail e
     else bind (release_items out now (unmarshal_items (oo_Items x))) (\<lambda>_.
       bind (repo_UpdateOutboundOrderStatusTx now (oo_ID x) st t1 t2) (\<lambda>_. m x))))"
    by (rule preserves_bind_yields [OF keeps_repo(9) yields_found_order close])
  show "keeps i ord (bind (repo_GetOutboundOrderForUpdateTx j) (\<lambda>x. if bad x then fail e'
     else if \<not> open_status (oo_Status x) then fail e
     else bind (release_items out now (unmarshal_items (oo_Items x))) (\<lambda>_.
       bind (repo_UpdateOutboundOrderStatusTx now (oo_ID x) st t1 t2) (\<lambda>_. m x))))"
  proof (rule preserves_bind_yields [OF keeps_repo(9) yields_found_order])
    fix x c
    assume "found_order i ord x c"
    with close [OF this, of e out now st t1 t2] show "order_is i ord (snd ((if bad x then fail e'
     else if \<not> open_status (oo_Status x) then fail e
     else bind (release_items out now (unmarshal_items (oo_Items x))) (\<lambda>_.
       bind (repo_UpdateOutboundOrderStatusTx now (oo_ID x) st t1 t2) (\<lambda>_. m x))) c))"
      by (cases "bad x") (simp_all add: fail_def found_order_def)
  qed
qed

lemma keeps_call:
  assumes closed: "\<not> open_status (oo_Status ord)" and "order_is i ord c"
  shows "order_is i ord (goods_call now op c)"
proof -
  have allocate: "keeps i ord (svc_AllocateSeq r)" for r
    unfolding svc_AllocateSeq_def by (intro keeps_rules grows_rules)
  have products: "keeps i ord (svc_CreateProduct now r)" "keeps i ord (svc_UpdateProduct now r')"
    "keeps i ord (svc_DeleteProduct j)" for r r' j
    unfolding svc_CreateProduct_def svc_UpdateProduct_def svc_DeleteProduct_def begin_tx_def
    by (intro keeps_rules grows_rules)+
  have single: "keeps i ord (svc_InboundSingle now r)" for r
    unfolding svc_InboundSingle_def Let_def by (intro keeps_rules grows_rules)
  have search: "keeps i ord (svc_InboundSearchImport now r)" for r
    unfolding svc_InboundSearchImport_def by (intro keeps_rules grows_rules)
  have batch: "keeps i ord (svc_InboundBatch now r)" for r
  proof -
    let ?m = "\<lambda>d. bind (batch_items d now (ib_InventoryID r) (ib_Items r)) (\<lambda>results.
      bind (repo_CreateInboundLogItemTx now (ib_InventoryID r) ''batch'' (JProducts results))
        (\<lambda>_. ret (results, length results)))"
    have "grows (?m d)" "keeps i ord (?m d)" for d
      by (intro grows_rules, intro keeps_rules)
    then have "grows (\<lambda>c. ?m (cn_db c) c)" "keeps i ord (\<lambda>c. ?m (cn_db c) c)"
      unfolding grows_def preserves_def by blast+
    then show ?thesis unfolding svc_InboundBatch_def by (rule keeps_with_tx)
  qed
  have orders: "keeps i ord (svc_CreateOutboundOrder now r)" for r
    unfolding svc_CreateOutboundOrder_def by (intro keeps_rules grows_rules)
  have "keeps i ord (svc_ConfirmOutbound now j)" "keeps i ord (svc_CancelOutbound now j)"
    "keeps i ord (svc_CancelReserve now j)" "keeps i ord (svc_ReserveToOutbound now r)" for j r
    unfolding svc_ConfirmOutbound_def svc_CancelOutbound_def svc_CancelReserve_def svc_ReserveToOutbound_def
    by (rule keeps_with_tx, intro grows_rules, rule keeps_close_body, rule closed, intro keeps_rules)+
  with assms(2) allocate products single search batch orders show ?thesis
    by (cases op) (auto simp: preserves_def)
qed

text \<open>The closing methods refuse it: the database fails or the status is wrong, and nothing changes.\<close>

definition refuses :: "'a stmt \<Rightarrow> conn \<Rightarrow> bool" where
  "refuses m c \<longleftrightarrow> fst (m c) \<in> {Inl DbError, Inl (GoodserError ErrInvalidOrderStatus)} \<and> cn_db (snd (m c)) = cn_db c"

lemma refuses_tx_bind:
  assumes "order_is i ord c" "\<And>c. f ord c = (Inl (GoodserError ErrInvalidOrderStatus), c)"
  shows "refuses (with_tx (bind (repo_GetOutboundOrderForUpdateTx i) f)) c"
proof -
  obtain b us where 1: "answered c = (b, c\<lparr>cn_up := us\<rparr>)" using answered_cases by blast
  obtain b' us' where 2: "answered (c\<lparr>cn_up := us\<rparr>) = (b', c\<lparr>cn_up := us'\<rparr>)"
    using answered_cases [of "c\<lparr>cn_up := us\<rparr>"] by auto
  have "row (\<lambda>x. oo_ID x = i) (gd_orders (cn_db c)) = Inr ord"
    using assms(1) by (simp add: order_is_def row_def)
  with 1 2 show ?thesis
    by (cases b; cases b') (simp_all add: refuses_def with_tx_def begin_tx_def bind_def query_def tx_body_def
        repo_GetOutboundOrderForUpdateTx_def assms(2))
qed

lemma closing_refused:
  assumes "order_is i ord c" "\<not> open_status (oo_Status ord)" "ro_ID r = i"
  shows "refuses (svc_ConfirmOutbound now i) c" "refuses (svc_CancelOutbound now i) c"
    "refuses (svc_CancelReserve now i) c" "refuses (svc_ReserveToOutbound now r) c"
  unfolding svc_ConfirmOutbound_def svc_CancelOutbound_def svc_CancelReserve_def svc_ReserveToOutbound_def assms(3)
  by (rule refuses_tx_bind [OF assms(1)], simp add: assms(2) fail_def)+

text \<open>C22: A closed order is final. Once an order is confirmed or cancelled, its row stays as it is through
  any history of calls with any requests and any failures of the database, and confirming it,
  cancelling it, cancelling it as a reservation or turning it into an outbound order again returns an
  error (the invalid status or the failure of the database) and changes no table.\<close>

theorem closed_order_final:
  assumes "find (\<lambda>x. oo_ID x = i) (gd_orders (cn_db c)) = Some ord" "\<not> open_status (oo_Status ord)" "ro_ID r = i"
  shows "let c' = (goods_run h c)\<lparr>cn_up := up\<rparr> in
    find (\<lambda>x. oo_ID x = i) (gd_orders (cn_db c')) = Some ord \<and>
    refuses (svc_ConfirmOutbound now i) c' \<and> refuses (svc_CancelOutbound now i) c' \<and>
    refuses (svc_CancelReserve now i) c' \<and> refuses (svc_ReserveToOutbound now r) c'"
proof -
  let ?c' = "(goods_run h c)\<lparr>cn_up := up\<rparr>"
  have "order_is i ord (goods_run h c)"
    by (rule goods_run_invariant [OF order_is_blind, where ok = "\<lambda>_. True"])
      (use assms(1) keeps_call [OF assms(2)] in \<open>auto simp: order_is_def list_all_iff\<close>)
  then have "order_is i ord ?c'"
    using order_is_blind by (simp add: blind_def)
  with closing_refused [OF this assms(2,3)] show ?thesis by (simp add: order_is_def Let_def)
qed

definition demo_closed :: conn where
  "demo_closed = goods_run [(1, [], CreateProduct demo_product), (2, [], CreateOutboundOrder (demo_order 3)),
     (3, [], CancelReserve ''u'')] (goods_start True demo_uuid)"

definition demo_reserve :: ReserveToOutboundReq where
  "demo_reserve = \<lparr>ro_ID = ''u'', ro_InventoryID = ''i'', ro_OrderNo = ''o2'', ro_Items = [], ro_OrderInfo = None,
     ro_Remark = None\<rparr>"

lemma closed_order_final_witness:
  "let c = goods_run [(4, [], ConfirmOutbound ''u''), (5, [], ReserveToOutbound demo_reserve)] demo_closed in
   map oo_Status (gd_orders (cn_db demo_closed)) = [OrderStatusCancelled] \<and>
   map oo_Status (gd_orders (cn_db c)) = [OrderStatusCancelled] \<and> refuses (svc_ConfirmOutbound 6 ''u'') (c\<lparr>cn_up := []\<rparr>)"
proof -
  let ?h = "[(4, [], ConfirmOutbound ''u''), (5, [], ReserveToOutbound demo_reserve)]"
  let ?c = "goods_run ?h demo_closed"
  have os: "map (\<lambda>x. (oo_ID x, oo_Status x)) (gd_orders (cn_db demo_closed)) = [(''u'', OrderStatusCancelled)]"
    "map (\<lambda>x. (oo_ID x, oo_Status x)) (gd_orders (cn_db ?c)) = [(''u'', OrderStatusCancelled)]"
    by (simp_all add: goods_eval demo_closed_def demo_product_def demo_order_def svc_CancelReserve_def
        svc_ReserveToOutbound_def demo_reserve_def Let_def)
  then obtain ord where ord: "gd_orders (cn_db demo_closed) = [ord]" "oo_ID ord = ''u''" "oo_Status ord = OrderStatusCancelled"
    by auto
  then have "find (\<lambda>x. oo_ID x = ''u'') (gd_orders (cn_db demo_closed)) = Some ord" by simp
  from closed_order_final [OF this, where r = demo_reserve and h = "?h" and up = "[]" and now = 6] ord(3) os closed_statuses show ?thesis
    by (auto simp: demo_reserve_def Let_def)
qed

end
