(* ===== verification/GoodsEdges.thy ===== *)
theory GoodsEdges
  imports GoodsBooks
begin

text \<open>
  The sequence numbers of the goods service, and what goes wrong at its edges: a table without a
  column, a deletion in two transactions, a batch that does not see its own rows.
\<close>

section \<open>Sequence numbers\<close>

definition free_seqs :: "AllocateSeqReq \<Rightarrow> conn \<Rightarrow> int set" where
  "free_seqs r c = rs_SeqNumber ` {x \<in> set (gd_recycled (cn_db c)). in_zone (aq_InventoryID r) (aq_MainZone r) (aq_SubZone r) x}"

definition seq_max :: "AllocateSeqReq \<Rightarrow> conn \<Rightarrow> int" where
  "seq_max r c = (case find (zone_counter (aq_InventoryID r) (aq_MainZone r) (aq_SubZone r)) (gd_counters (cn_db c)) of
     None \<Rightarrow> 0 | Some s \<Rightarrow> sq_CurrentMax s)"

text \<open>\<open>k\<close> calls of \<open>AllocateSeq\<close> for one zone.\<close>

fun allocate :: "nat \<Rightarrow> AllocateSeqReq \<Rightarrow> conn \<Rightarrow> (goods_error + int) list" where
  "allocate 0 r c = []"
| "allocate (Suc k) r c = (case svc_AllocateSeq r c of (x, c') \<Rightarrow> x # allocate k r c')"

lemma answered_all [simp]: "cn_up c = [] \<Longrightarrow> answered c = (True, c)"
  by (simp add: answered_def)

lemma sort_key_Nil_iff: "sort_key f xs = [] \<longleftrightarrow> xs = []"
  by (metis length_0_conv length_sort)

lemma hd_sort_key_Min:
  assumes "sort_key f xs = y # ys"
  shows "f y = Min (f ` set xs)"
proof -
  have "sorted (map f (y # ys))" using sorted_sort_key [of f xs] assms by simp
  moreover have "set xs = set (y # ys)" using set_sort [of f xs] assms by metis
  ultimately show ?thesis by (intro Min_eqI [symmetric]) auto
qed

lemma allocate_recycled:
  assumes "cn_up c = []" "free_seqs r c \<noteq> {}"
  shows "\<exists>c'. svc_AllocateSeq r c = (Inr (Min (free_seqs r c)), c') \<and> cn_up c' = [] \<and>
    free_seqs r c' = free_seqs r c - {Min (free_seqs r c)} \<and> seq_max r c' = seq_max r c"
proof -
  let ?z = "in_zone (aq_InventoryID r) (aq_MainZone r) (aq_SubZone r)"
  let ?rs = "filter ?z (gd_recycled (cn_db c))"
  have "?rs \<noteq> []" using assms(2) by (auto simp: free_seqs_def filter_empty_conv)
  then obtain y ys where y: "sort_key rs_SeqNumber ?rs = y # ys"
    using sort_key_Nil_iff by (metis neq_Nil_conv)
  then have y_min: "rs_SeqNumber y = Min (free_seqs r c)"
    using hd_sort_key_Min [OF y] by (simp add: free_seqs_def)
  let ?d = "(cn_db c)\<lparr>gd_recycled := filter (\<lambda>x. \<not> (?z x \<and> rs_SeqNumber x = rs_SeqNumber y)) (gd_recycled (cn_db c))\<rparr>"
  have "svc_AllocateSeq r c = (Inr (rs_SeqNumber y), c\<lparr>cn_db := ?d\<rparr>)"
    using assms(1) y by (simp add: svc_AllocateSeq_def with_tx_def tx_body_def begin_tx_def repo_PopRecycledSeq_def
        bind_def attempt_def query_def exec_def ret_def row_def)
  moreover have "free_seqs r (c\<lparr>cn_db := ?d\<rparr>) = free_seqs r c - {rs_SeqNumber y}"
    by (auto simp: free_seqs_def)
  ultimately show ?thesis
    using assms(1) y_min by (auto simp: seq_max_def)
qed

lemma find_set_rows_same:
  assumes "\<And>x. p (f x) = p x"
  shows "find p (set_rows p f rs) = map_option f (find p rs)"
  using assms by (induction rs) (auto simp: set_rows_def)

lemma allocate_counter:
  assumes "cn_up c = []" "free_seqs r c = {}" "in_i32 (seq_max r c + 1)"
  shows "\<exists>c'. svc_AllocateSeq r c = (Inr (seq_max r c + 1), c') \<and> cn_up c' = [] \<and>
    free_seqs r c' = {} \<and> seq_max r c' = seq_max r c + 1"
proof -
  let ?z = "in_zone (aq_InventoryID r) (aq_MainZone r) (aq_SubZone r)"
  let ?k = "zone_counter (aq_InventoryID r) (aq_MainZone r) (aq_SubZone r)"
  let ?b = "bump_counter (aq_InventoryID r) (aq_MainZone r) (aq_SubZone r) (cn_db c)"
  have none: "filter ?z (gd_recycled (cn_db c)) = []"
    using assms(2) by (auto simp: free_seqs_def filter_empty_conv)
  have k_new: "?k (s\<lparr>sq_CurrentMax := m\<rparr>) = ?k s" for s m by (simp add: zone_counter_def)
  have "\<exists>d s. ?b = Some d \<and> find ?k (gd_counters d) = Some s \<and> sq_CurrentMax s = seq_max r c + 1 \<and>
      gd_recycled d = gd_recycled (cn_db c)"
  proof (cases "find ?k (gd_counters (cn_db c))")
    case None
    then show ?thesis
      by (simp add: bump_counter_def seq_max_def find_append) (simp add: zone_counter_def)
  next
    case (Some s)
    with assms(3) k_new find_set_rows_same [of ?k "\<lambda>s. s\<lparr>sq_CurrentMax := sq_CurrentMax s + 1\<rparr>" "gd_counters (cn_db c)"]
    show ?thesis by (simp add: bump_counter_def seq_max_def)
  qed
  then obtain d s where d: "?b = Some d" "find ?k (gd_counters d) = Some s" "sq_CurrentMax s = seq_max r c + 1"
    "gd_recycled d = gd_recycled (cn_db c)" by blast
  let ?c = "c\<lparr>cn_drawn := Suc (cn_drawn c), cn_db := d\<rparr>"
  have "svc_AllocateSeq r c = (Inr (seq_max r c + 1), ?c)"
    using assms(1) none d by (simp add: svc_AllocateSeq_def with_tx_def tx_body_def begin_tx_def repo_PopRecycledSeq_def
        repo_IncrementSeqCounter_def new_uuid_def bind_def attempt_def query_def exec_def ret_def row_def)
  moreover have "free_seqs r ?c = {}" using assms(2) d(4) by (simp add: free_seqs_def)
  moreover have "seq_max r ?c = seq_max r c + 1" using d(2,3) by (simp add: seq_max_def)
  ultimately show ?thesis using assms(1) by simp
qed

lemma free_seqs_list:
  "free_seqs r c = set (map rs_SeqNumber
     (filter (in_zone (aq_InventoryID r) (aq_MainZone r) (aq_SubZone r)) (gd_recycled (cn_db c))))"
  by (auto simp: free_seqs_def)

lemma finite_free_seqs: "finite (free_seqs r c)"
  by (simp add: free_seqs_def)

text \<open>Allocating numbers for a zone hands out the recycled numbers of the zone in ascending order, each
  once however often it was recycled, and then the numbers after the counter of the zone, without a
  gap.\<close>

lemma allocate_order:
  assumes "cn_up c = []" "0 \<le> seq_max r c" "seq_max r c + int k < 2 ^ 31"
  shows "allocate k r c = map Inr (take k (sorted_list_of_set (free_seqs r c) @ map (\<lambda>j. seq_max r c + 1 + int j) [0..<k]))"
  using assms
proof (induction k arbitrary: c)
  case (Suc k)
  have shift: "map (\<lambda>j. m + 1 + int j) [0..<Suc k] = (m + 1) # map (\<lambda>j. m + 1 + 1 + int j) [0..<k]" for m
    unfolding map_upt_Suc by (simp add: algebra_simps)
  show ?case
  proof (cases "free_seqs r c = {}")
    case True
    have "in_i32 (seq_max r c + 1)" using Suc.prems by (simp add: in_i32_def)
    from allocate_counter [OF Suc.prems(1) True this] obtain c' where c':
      "svc_AllocateSeq r c = (Inr (seq_max r c + 1), c')" "cn_up c' = []" "free_seqs r c' = {}"
      "seq_max r c' = seq_max r c + 1" by blast
    have "allocate k r c' = map Inr (take k (map (\<lambda>j. seq_max r c' + 1 + int j) [0..<k]))"
      using Suc.IH [OF c'(2)] Suc.prems c'(3,4) by simp
    with c' True show ?thesis by (simp add: shift del: upt_Suc)
  next
    case False
    from allocate_recycled [OF Suc.prems(1) False] obtain c' where c':
      "svc_AllocateSeq r c = (Inr (Min (free_seqs r c)), c')" "cn_up c' = []"
      "free_seqs r c' = free_seqs r c - {Min (free_seqs r c)}" "seq_max r c' = seq_max r c" by blast
    have list: "sorted_list_of_set (free_seqs r c) = Min (free_seqs r c) # sorted_list_of_set (free_seqs r c')"
      using False finite_free_seqs c'(3) by (simp add: sorted_list_of_set_nonempty)
    have "allocate k r c' = map Inr (take k (sorted_list_of_set (free_seqs r c') @ map (\<lambda>j. seq_max r c + 1 + int j) [0..<k]))"
      using Suc.IH [OF c'(2)] Suc.prems c'(4) by simp
    with c'(1) show ?thesis by (simp add: list)
  qed
qed simp

definition demo_zone :: AllocateSeqReq where
  "demo_zone = \<lparr>aq_InventoryID = ''i'', aq_MainZone = ''A'', aq_SubZone = ''1''\<rparr>"

definition demo_recycled :: conn where
  "demo_recycled = (goods_start True demo_uuid)\<lparr>cn_db := (init_tables 0)\<lparr>gd_recycled :=
     map (\<lambda>n. \<lparr>rs_InventoryID = ''i'', rs_MainZone = ''A'', rs_SubZone = ''1'', rs_SeqNumber = n\<rparr>) [7, 3, 7],
     gd_counters := [\<lparr>sq_InventoryID = ''i'', sq_MainZone = ''A'', sq_SubZone = ''1'', sq_CurrentMax = 9\<rparr>]\<rparr>\<rparr>"

lemma allocate_order_witness:
  "allocate 4 demo_zone demo_recycled = map Inr [3, 7, 10, 11]"
proof -
  have m: "seq_max demo_zone demo_recycled = 9"
    by (simp add: seq_max_def demo_zone_def demo_recycled_def zone_counter_def)
  have f: "free_seqs demo_zone demo_recycled = {3, 7}"
    by (simp add: free_seqs_list demo_zone_def demo_recycled_def in_zone_def insert_commute)
  have "cn_up demo_recycled = []" by (simp add: demo_recycled_def goods_start_def)
  from allocate_order [OF this, of demo_zone 4] show ?thesis
    by (simp add: m f upt_rec numeral_eq_Suc)
qed

section \<open>A table without the column\<close>

definition down :: "'a stmt \<Rightarrow> bool" where
  "down m \<longleftrightarrow> (\<forall>c. \<not> gd_image_list (cn_db c) \<longrightarrow> fst (m c) = Inl DbError)"

lemma down_product_query: "down (product_query q)"
  unfolding down_def product_query_def query_def
  by (simp add: prod.case_eq_if answered_same)

lemma down_bind: "down m \<Longrightarrow> down (bind m f)"
  by (simp add: down_def bind_def prod.case_eq_if)

lemma down_attempt: "down m \<Longrightarrow> (\<And>c. fst (f (Inl DbError) c) = Inl DbError) \<Longrightarrow> down (attempt m f)"
  by (simp add: down_def attempt_def prod.case_eq_if)

lemma down_or_not_found: "down m \<Longrightarrow> down (or_not_found code m)"
  unfolding or_not_found_def by (rule down_attempt) (simp_all add: fail_def)

lemma down_with_tx:
  assumes "down m"
  shows "down (with_tx m)"
  unfolding down_def
proof (intro allI impI)
  fix c :: conn
  assume c: "\<not> gd_image_list (cn_db c)"
  obtain b us where a: "answered c = (b, c\<lparr>cn_up := us\<rparr>)" using answered_cases by blast
  obtain r c' where m: "m (c\<lparr>cn_up := us\<rparr>) = (r, c')" by (cases "m (c\<lparr>cn_up := us\<rparr>)")
  moreover have "\<not> gd_image_list (cn_db (c\<lparr>cn_up := us\<rparr>))" using c by simp
  ultimately have "r = Inl DbError" using assms unfolding down_def by (metis fst_conv)
  with a m show "fst (with_tx m c) = Inl DbError"
    by (simp add: with_tx_def begin_tx_def bind_def query_def tx_body_def)
qed

lemma goods_call_grows:
  "gd_image_list (cn_db (goods_call now op c)) = gd_image_list (cn_db c)"
proof -
  have batch: "grows (svc_InboundBatch now r)" for r
  proof -
    let ?m = "\<lambda>d. bind (batch_items d now (ib_InventoryID r) (ib_Items r)) (\<lambda>results.
      bind (repo_CreateInboundLogItemTx now (ib_InventoryID r) ''batch'' (JProducts results))
        (\<lambda>_. ret (results, length results)))"
    have "grows (?m d)" for d by (intro grows_rules)
    then have "grows (\<lambda>c. ?m (cn_db c) c)" unfolding grows_def by blast
    then show ?thesis unfolding svc_InboundBatch_def by (rule grows_with_tx)
  qed
  have "grows (svc_AllocateSeq aq)" "grows (svc_CreateProduct now cp)" "grows (svc_UpdateProduct now up)"
    "grows (svc_DeleteProduct i)" "grows (svc_InboundSingle now s)" "grows (svc_InboundSearchImport now ir)"
    "grows (svc_CreateOutboundOrder now co)" "grows (svc_ConfirmOutbound now i)" "grows (svc_CancelOutbound now i)"
    "grows (svc_CancelReserve now i)" "grows (svc_ReserveToOutbound now ro)" for aq cp up i s ir co ro
    unfolding svc_AllocateSeq_def svc_CreateProduct_def svc_UpdateProduct_def svc_DeleteProduct_def
      svc_InboundSingle_def svc_InboundSearchImport_def svc_CreateOutboundOrder_def svc_ConfirmOutbound_def
      svc_CancelOutbound_def svc_CancelReserve_def svc_ReserveToOutbound_def begin_tx_def Let_def
    by (intro grows_rules)+
  with batch show ?thesis by (cases op) (auto simp: grows_def)
qed

lemma goods_run_columns: "gd_image_list (cn_db (goods_run h c)) = gd_image_list (cn_db c)"
proof (induction h arbitrary: c)
  case (Cons ev h)
  then show ?case using goods_call_grows by (simp add: goods_run_def goods_step_def split: prod.split)
qed (simp add: goods_run_def)

text \<open>On the tables that \<open>initTables\<close> creates, no product can be read. After any history of calls,
  and however the database answers, listing, searching, updating or deleting a product, an inbound of
  a single product and an order for at least one item return the error of the database, since the
  column \<open>image_list\<close> that these statements name is not in the table.\<close>

lemma fresh_tables_serve_no_product:
  "let c = (goods_run h (goods_start False uuid))\<lparr>cn_up := up\<rparr> in
   fst (svc_ListProducts iid c) = Inl DbError \<and> fst (svc_SearchProducts iid kw c) = Inl DbError \<and>
   fst (svc_UpdateProduct now ureq c) = Inl DbError \<and> fst (svc_DeleteProduct i c) = Inl DbError \<and>
   fst (svc_InboundSingle now ireq c) = Inl DbError \<and>
   fst (svc_CreateOutboundOrder now (oreq\<lparr>co_Items := item # items\<rparr>) c) = Inl DbError"
proof -
  have "down (svc_ListProducts iid)" "down (svc_SearchProducts iid kw)" "down (svc_UpdateProduct now ureq)"
    "down (svc_DeleteProduct i)" "down (svc_InboundSingle now ireq)"
    "down (svc_CreateOutboundOrder now (oreq\<lparr>co_Items := item # items\<rparr>))"
    unfolding svc_ListProducts_def svc_SearchProducts_def svc_UpdateProduct_def svc_DeleteProduct_def
      svc_InboundSingle_def svc_CreateOutboundOrder_def repo_ListProducts_def repo_SearchProducts_def
      repo_UpdateProduct_def repo_GetProduct_def repo_FindProductByCode_def repo_GetProductForUpdateTx_def Let_def
    by (auto simp: fail_def repo_GetProductForUpdateTx_def
        intro!: down_with_tx down_or_not_found down_bind down_product_query down_attempt)
  moreover have "\<not> gd_image_list (cn_db ((goods_run h (goods_start False uuid))\<lparr>cn_up := up\<rparr>))"
    using goods_run_columns [of h "goods_start False uuid"] by (simp add: goods_start_def)
  ultimately show ?thesis
    unfolding down_def Let_def by blast
qed

section \<open>A deletion in two transactions\<close>

lemma delete_product_run:
  assumes "gd_image_list (cn_db c)" "row (\<lambda>p. pd_ID p = i) (gd_products (cn_db c)) = Inr p"
  shows "svc_DeleteProduct i (c\<lparr>cn_up := True # True # True # us\<rparr>) =
    tx_body (repo_AddRecycledSeqTx (pd_InventoryID p) (pd_MainZone p) (pd_SubZone p) (pd_SeqNumber p))
      (c\<lparr>cn_up := us, cn_db := (cn_db c)\<lparr>gd_products := filter (\<lambda>p. pd_ID p \<noteq> i) (gd_products (cn_db c))\<rparr>\<rparr>)"
  using assms by (simp add: svc_DeleteProduct_def or_not_found_def attempt_def bind_def repo_GetProduct_def
      product_query_def query_def answered_def begin_tx_def repo_DeleteProduct_def exec_def ret_def)

lemma find_filter_not: "find p (filter (\<lambda>x. \<not> p x) xs) = None"
  by (induction xs) simp_all

lemmas recycle_eval = tx_body_def repo_AddRecycledSeqTx_def bind_def new_uuid_def exec_def answered_def

text \<open>Deleting a product is not atomic. When the statement that recycles its number fails, the call
  returns the error although the product is gone; when the commit fails, the call succeeds; in both
  cases the tables have lost the product and not gained its number, and a second attempt only finds
  that there is no such product.\<close>

lemma delete_product_not_atomic:
  assumes "gd_image_list (cn_db c)" "row (\<lambda>p. pd_ID p = i) (gd_products (cn_db c)) = Inr p" "in_i32 (pd_SeqNumber p)"
  shows "let gone = (cn_db c)\<lparr>gd_products := filter (\<lambda>p. pd_ID p \<noteq> i) (gd_products (cn_db c))\<rparr>;
      (r, c1) = svc_DeleteProduct i (c\<lparr>cn_up := [True, True, True, False]\<rparr>);
      (r', c2) = svc_DeleteProduct i (c\<lparr>cn_up := [True, True, True, True, False]\<rparr>)
    in r = Inl DbError \<and> cn_db c1 = gone \<and> r' = Inr () \<and> cn_db c2 = gone \<and>
      fst (svc_DeleteProduct i (c1\<lparr>cn_up := []\<rparr>)) = Inl (GoodserError ErrProductNotFound)"
proof -
  let ?gone = "(cn_db c)\<lparr>gd_products := filter (\<lambda>p. pd_ID p \<noteq> i) (gd_products (cn_db c))\<rparr>"
  have none: "row (\<lambda>p. pd_ID p = i) (gd_products ?gone) = Inl ErrNoRows"
    using find_filter_not [of "\<lambda>p. pd_ID p = i" "gd_products (cn_db c)"] by (simp add: row_def)
  have 1: "svc_DeleteProduct i (c\<lparr>cn_up := [True, True, True, False]\<rparr>) =
      (Inl DbError, c\<lparr>cn_up := [], cn_drawn := Suc (cn_drawn c), cn_db := ?gone\<rparr>)"
    by (simp add: delete_product_run [OF assms(1,2)] recycle_eval)
  have 2: "svc_DeleteProduct i (c\<lparr>cn_up := [True, True, True, True, False]\<rparr>) =
      (Inr (), c\<lparr>cn_up := [], cn_drawn := Suc (cn_drawn c), cn_db := ?gone\<rparr>)"
    by (simp add: delete_product_run [OF assms(1,2)] recycle_eval assms(3))
  have 3: "fst (svc_DeleteProduct i (c\<lparr>cn_up := [], cn_drawn := Suc (cn_drawn c), cn_db := ?gone\<rparr>\<lparr>cn_up := []\<rparr>)) =
      Inl (GoodserError ErrProductNotFound)"
    using assms(1) none by (simp add: svc_DeleteProduct_def or_not_found_def attempt_def bind_def repo_GetProduct_def
        product_query_def query_def fail_def)
  show ?thesis
    unfolding 1 2 Let_def prod.case using 3 by simp
qed

definition demo_stocked :: conn where
  "demo_stocked = goods_run [(1, [], CreateProduct demo_product)] (goods_start True demo_uuid)"

lemma delete_product_not_atomic_witness:
  "let (r, c1) = svc_DeleteProduct [] (demo_stocked\<lparr>cn_up := [True, True, True, False]\<rparr>)
   in r = Inl DbError \<and> gd_products (cn_db c1) = [] \<and> gd_recycled (cn_db c1) = []"
proof -
  have rows: "map (\<lambda>p. (pd_ID p, pd_SeqNumber p)) (gd_products (cn_db demo_stocked)) = [([], 1)]"
    and rec: "gd_recycled (cn_db demo_stocked) = []" and col: "gd_image_list (cn_db demo_stocked)"
    by (simp_all add: demo_stocked_def goods_eval demo_product_def)
  then obtain p where p: "gd_products (cn_db demo_stocked) = [p]" "pd_ID p = []" "pd_SeqNumber p = 1" by auto
  then have "row (\<lambda>p. pd_ID p = []) (gd_products (cn_db demo_stocked)) = Inr p" "in_i32 (pd_SeqNumber p)"
    by (simp_all add: row_def in_i32_def)
  from delete_product_not_atomic [OF col this] p rec show ?thesis by (auto simp: Let_def split: prod.splits)
qed

section \<open>A batch that does not see its own rows\<close>

abbreviation batch_code :: "InboundBatchReqItem \<Rightarrow> string" where
  "batch_code it \<equiv> product_code (bi_MainZone it) (bi_SubZone it) (bi_SeqNumber it) (bi_StatusCode it)"

abbreviation new_code :: "string \<Rightarrow> string \<Rightarrow> GoodsDB \<Rightarrow> bool" where
  "new_code iid code d \<equiv> row (\<lambda>p. pd_InventoryID p = iid \<and> pd_Code p = code) (gd_products d) = Inl ErrNoRows"

definition batch_product :: "instant \<Rightarrow> string \<Rightarrow> string \<Rightarrow> InboundBatchReqItem \<Rightarrow> Product" where
  "batch_product now iid i it = \<lparr>pd_ID = i, pd_InventoryID = iid, pd_Code = batch_code it,
     pd_MainZone = bi_MainZone it, pd_SubZone = bi_SubZone it, pd_SeqNumber = bi_SeqNumber it,
     pd_Quantity = over (bi_Quantity it) 0, pd_ReservedQuantity = 0, pd_StatusCode = bi_StatusCode it,
     pd_Name = bi_Name it, pd_OriginalPrice = bi_OriginalPrice it, pd_MarketPrice = bi_MarketPrice it,
     pd_ExpectedPrice = bi_ExpectedPrice it, pd_Remark = bi_Remark it,
     pd_StorageLocation = bi_StorageLocation it, pd_ImageURL = bi_ImageURL it, pd_Tags = bi_Tags it,
     pd_CreatedAt = now, pd_UpdatedAt = now\<rparr>"

lemma batch_items_new:
  assumes "gd_image_list d" "new_code iid (batch_code it) d" "cn_up c = []"
    and "in_i32 (over (bi_Quantity it) 0)" "in_i32 (bi_SeqNumber it)"
    and "cn_uuid c (cn_drawn c) \<notin> pd_ID ` set (gd_products (cn_db c))"
  shows "batch_items d now iid (it # its) c = bind (batch_items d now iid its)
      (\<lambda>ps. ret (batch_product now iid (cn_uuid c (cn_drawn c)) it # ps))
    (c\<lparr>cn_drawn := Suc (cn_drawn c), cn_db := (cn_db c)\<lparr>gd_products :=
       gd_products (cn_db c) @ [batch_product now iid (cn_uuid c (cn_drawn c)) it]\<rparr>\<rparr>)"
proof -
  have look: "outside d (repo_FindProductByCode iid (batch_code it)) c = (Inl ErrNoRows, c)"
    using assms(1-3) by (simp add: outside_def repo_FindProductByCode_def product_query_def query_def answered_def)
  have make: "repo_CreateProductTx now (batch_create iid it (batch_code it)) c =
      (Inr (batch_product now iid (cn_uuid c (cn_drawn c)) it), c\<lparr>cn_drawn := Suc (cn_drawn c), cn_db := (cn_db c)\<lparr>gd_products :=
       gd_products (cn_db c) @ [batch_product now iid (cn_uuid c (cn_drawn c)) it]\<rparr>\<rparr>)"
    using assms(3-6) by (simp add: repo_CreateProductTx_def bind_def new_uuid_def exec_def answered_def insert_row_def
        ret_def batch_create_def batch_product_def over_def Let_def)
  show ?thesis
    using look make by (simp add: bind_def attempt_def Let_def)
qed

text \<open>A batch with two items of one new code creates two products of that code, where two single inbounds
  would add to one: the lookup by code reads the committed tables and misses what the transaction has
  inserted.\<close>

lemma batch_splits_code:
  assumes "cn_up c = []" "gd_image_list (cn_db c)" "new_code (ib_InventoryID req) (batch_code a) (cn_db c)"
    and "ib_Items req = [a, b]" "batch_code b = batch_code a"
    and "list_all (\<lambda>it. in_i32 (over (bi_Quantity it) 0) \<and> in_i32 (bi_SeqNumber it)) [a, b]"
    and "inj (cn_uuid c)" "list_all (\<lambda>k. cn_uuid c (cn_drawn c + k) \<notin> pd_ID ` set (gd_products (cn_db c))) [0, 1]"
    and "cn_uuid c (cn_drawn c + 2) \<notin> il_ID ` set (gd_logs (cn_db c))"
  shows "\<exists>p q c'. svc_InboundBatch now req c = (Inr ([p, q], 2), c') \<and>
    gd_products (cn_db c') = gd_products (cn_db c) @ [p, q] \<and> pd_Code p = pd_Code q \<and>
    pd_InventoryID p = pd_InventoryID q \<and> pd_ID p \<noteq> pd_ID q"
proof -
  let ?iid = "ib_InventoryID req" and ?u = "\<lambda>k. cn_uuid c (cn_drawn c + k)"
  let ?p = "batch_product now ?iid (?u 0) a" and ?q = "batch_product now ?iid (?u 1) b"
  let ?c1 = "c\<lparr>cn_drawn := Suc (cn_drawn c), cn_db := (cn_db c)\<lparr>gd_products := gd_products (cn_db c) @ [?p]\<rparr>\<rparr>"
  let ?c2 = "c\<lparr>cn_drawn := Suc (Suc (cn_drawn c)), cn_db := (cn_db c)\<lparr>gd_products := gd_products (cn_db c) @ [?p, ?q]\<rparr>\<rparr>"
  have ids: "?u 1 \<noteq> ?u 0" using assms(7) by (auto dest: injD)
  have 2: "batch_items (cn_db c) now ?iid [b] ?c1 = (Inr [?q], ?c2)"
    using assms(1-3,5,6,8) ids
    by (subst batch_items_new) (auto simp: batch_product_def bind_def ret_def)
  have 1: "batch_items (cn_db c) now ?iid [a, b] c = (Inr [?p, ?q], ?c2)"
    using assms(1-3,6,8) 2 by (subst batch_items_new) (auto simp: bind_def ret_def)
  let ?l = "\<lparr>il_ID = ?u 2, il_InventoryID = ?iid, il_OrderNo = Some [], il_Type = ''batch'', il_Remark = None,
     il_Items = JProducts [?p, ?q], il_CreatedAt = now\<rparr>"
  have log: "repo_CreateInboundLogItemTx now ?iid ''batch'' (JProducts [?p, ?q]) ?c2 =
      (Inr (?l\<lparr>il_OrderNo := None\<rparr>), ?c2\<lparr>cn_drawn := Suc (cn_drawn ?c2), cn_db := (cn_db ?c2)\<lparr>gd_logs := gd_logs (cn_db c) @ [?l]\<rparr>\<rparr>)"
    using assms(1,9) by (simp add: repo_CreateInboundLogItemTx_def add_log_def bind_def new_uuid_def exec_def
        answered_def insert_row_def ret_def)
  then obtain c' where c': "svc_InboundBatch now req c = (Inr ([?p, ?q], 2), c')"
    "gd_products (cn_db c') = gd_products (cn_db c) @ [?p, ?q]"
    using assms(1,4) 1
    by (auto simp: svc_InboundBatch_def with_tx_def begin_tx_def query_def tx_body_def bind_def ret_def)
  moreover have "pd_Code ?p = pd_Code ?q" "pd_InventoryID ?p = pd_InventoryID ?q" "pd_ID ?p \<noteq> pd_ID ?q"
    using assms(5) ids by (simp_all add: batch_product_def)
  ultimately show ?thesis by blast
qed

definition demo_item :: InboundBatchReqItem where
  "demo_item = \<lparr>bi_Code = [], bi_MainZone = ''A'', bi_SubZone = ''1'', bi_SeqNumber = 1, bi_Quantity = Some 2,
     bi_StatusCode = ''N'', bi_Name = ''figure'', bi_OriginalPrice = 0, bi_MarketPrice = 0, bi_ExpectedPrice = 0,
     bi_Remark = [], bi_StorageLocation = [], bi_ImageURL = None, bi_Tags = None\<rparr>"

definition demo_batch :: InboundBatchReq where
  "demo_batch = \<lparr>ib_InventoryID = ''i'', ib_OrderNo = None, ib_Remark = None, ib_Items = [demo_item, demo_item]\<rparr>"

lemma batch_splits_code_witness:
  "\<exists>p q c'. svc_InboundBatch 1 demo_batch (goods_start True demo_uuid) = (Inr ([p, q], 2), c') \<and>
    gd_products (cn_db c') = [p, q] \<and> pd_Code p = pd_Code q \<and> pd_ID p \<noteq> pd_ID q"
proof -
  have d: "cn_up (goods_start True demo_uuid) = []" "gd_image_list (cn_db (goods_start True demo_uuid))"
    "new_code (ib_InventoryID demo_batch) (batch_code demo_item) (cn_db (goods_start True demo_uuid))"
    "ib_Items demo_batch = [demo_item, demo_item]"
    "list_all (\<lambda>it. in_i32 (over (bi_Quantity it) 0) \<and> in_i32 (bi_SeqNumber it)) [demo_item, demo_item]"
    "inj (cn_uuid (goods_start True demo_uuid))"
    by (simp_all add: goods_start_def init_tables_def row_def demo_batch_def demo_item_def in_i32_def over_def inj_demo_uuid)
  have ids: "list_all (\<lambda>k. cn_uuid (goods_start True demo_uuid) (cn_drawn (goods_start True demo_uuid) + k) \<notin>
        pd_ID ` set (gd_products (cn_db (goods_start True demo_uuid)))) [0, 1]"
    "cn_uuid (goods_start True demo_uuid) (cn_drawn (goods_start True demo_uuid) + 2) \<notin>
        il_ID ` set (gd_logs (cn_db (goods_start True demo_uuid)))"
    "gd_products (cn_db (goods_start True demo_uuid)) = []"
    by (simp_all add: goods_start_def init_tables_def)
  from batch_splits_code [OF d(1-4) refl d(5,6) ids(1,2), of 1] show ?thesis
    unfolding ids(3) by (metis append_Nil)
qed

end
