(* ===== verification/RateLimit.thy ===== *)
theory RateLimit
  imports GoStd
begin

text \<open>
  src/internal/middleware/ratelimit.go: the in-process limiter with its sliding window, the limiter over
  Redis with its fixed window, and the middleware.

  A run is a list of requests (an instant and the address of the client) and of ticks of the sweeper;
  its instants do not decrease, as \<open>time.Now\<close> reads the monotonic clock. The window is positive:
  \<open>time.NewTicker\<close> panics otherwise. The locale \<open>limiter\<close> is what the middleware relies on.
\<close>

section \<open>The sliding window\<close>

record RateLimit =
  rl_requests :: "string \<rightharpoonup> instant list"
  rl_maxRequests :: int
  rl_window :: duration

definition NewRateLimit :: "int \<Rightarrow> duration \<Rightarrow> RateLimit" where
  "NewRateLimit maxRequests window = \<lparr>rl_requests = Map.empty, rl_maxRequests = maxRequests, rl_window = window\<rparr>"

definition still_valid :: "duration \<Rightarrow> instant \<Rightarrow> instant list \<Rightarrow> instant list" where
  "still_valid window now ts = filter (\<lambda>t. now - t < window) ts"

text \<open>One tick of the sweeper.\<close>

definition cleanup :: "instant \<Rightarrow> RateLimit \<Rightarrow> RateLimit" where
  "cleanup now rl = rl\<lparr>rl_requests := (\<lambda>ip. case rl_requests rl ip of
     None \<Rightarrow> None
   | Some ts \<Rightarrow> (let valid = still_valid (rl_window rl) now ts in if valid = [] then None else Some valid))\<rparr>"

definition mem_Allow :: "instant \<Rightarrow> string \<Rightarrow> RateLimit \<Rightarrow> bool \<times> RateLimit" where
  "mem_Allow now ip rl =
    (let ts = (case rl_requests rl ip of None \<Rightarrow> [] | Some xs \<Rightarrow> xs);
         valid = still_valid (rl_window rl) now ts
     in if int (length valid) \<ge> rl_maxRequests rl
        then (False, rl\<lparr>rl_requests := (rl_requests rl)(ip \<mapsto> valid)\<rparr>)
        else (True, rl\<lparr>rl_requests := (rl_requests rl)(ip \<mapsto> valid @ [now])\<rparr>))"

section \<open>The fixed window over Redis\<close>

text \<open>
  The two commands that the limiter sends, over a server state \<open>'r\<close>; \<open>None\<close> and \<open>False\<close> are errors.
  \<open>counter_ok\<close> is their documented behaviour: \<open>INCR\<close> creates the counter at 1 without an expiry and
  keeps the expiry of a counter that lives, \<open>EXPIRE\<close> sets the expiry; an error leaves the server as it was.

  \<open>EXPIRE\<close> takes whole seconds: the client library cuts a duration down to them, and sends one second
  for a positive duration below it (\<open>expire_seconds\<close>). The server documents that a key goes up to one
  millisecond late.
\<close>

definition expire_seconds :: "duration \<Rightarrow> duration" where
  "expire_seconds d = (if 0 < d \<and> d < 1000000000 then 1000000000 else (d div 1000000000) * 1000000000)"

record 'r counter_redis =
  rd_incr :: "instant \<Rightarrow> string \<Rightarrow> 'r \<Rightarrow> int option \<times> 'r"
  rd_expire :: "instant \<Rightarrow> string \<Rightarrow> duration \<Rightarrow> 'r \<Rightarrow> bool \<times> 'r"

type_synonym counter_view = "string \<rightharpoonup> int \<times> instant option"

definition counter_at :: "instant \<Rightarrow> counter_view \<Rightarrow> string \<Rightarrow> (int \<times> instant option)" where
  "counter_at now v k = (case v k of
     None \<Rightarrow> (0, None)
   | Some (n, None) \<Rightarrow> (n, None)
   | Some (n, Some e) \<Rightarrow> if now < e then (n, Some e) else (0, None))"

definition counter_ok :: "'r counter_redis \<Rightarrow> ('r \<Rightarrow> counter_view) \<Rightarrow> bool" where
  "counter_ok R view \<longleftrightarrow>
     (\<forall>t k r. case rd_incr R t k r of
        (None, r') \<Rightarrow> view r' = view r
      | (Some n, r') \<Rightarrow> (case counter_at t (view r) k of (m, e) \<Rightarrow> n = m + 1 \<and> view r' = (view r)(k \<mapsto> (m + 1, e)))) \<and>
     (\<forall>t k d r. case rd_expire R t k d r of
        (False, r') \<Rightarrow> view r' = view r
      | (True, r') \<Rightarrow> \<exists>e. t + expire_seconds d \<le> e \<and> e \<le> t + expire_seconds d + 1000000 \<and>
          view r' = (view r)(k := map_option (\<lambda>(n, _). (n, Some e)) (view r k)))"

record RedisRateLimit =
  rr_prefix :: string
  rr_maxRequests :: int
  rr_window :: duration

definition NewRedisRateLimit :: "int \<Rightarrow> duration \<Rightarrow> RedisRateLimit" where
  "NewRedisRateLimit maxRequests window = \<lparr>rr_prefix = ''ratelimit'', rr_maxRequests = maxRequests, rr_window = window\<rparr>"

text \<open>A request passes when the counter cannot be read; the result of \<open>EXPIRE\<close> is ignored.\<close>

definition redis_Allow :: "'r counter_redis \<Rightarrow> RedisRateLimit \<Rightarrow> instant \<Rightarrow> string \<Rightarrow> 'r \<Rightarrow> bool \<times> 'r" where
  "redis_Allow R rl now ip r =
    (let key = rr_prefix rl @ '':'' @ ip
     in case rd_incr R now key r of
          (None, r1) \<Rightarrow> (True, r1)
        | (Some count, r1) \<Rightarrow>
            let r2 = (if count = 1 then snd (rd_expire R now key (rr_window rl) r1) else r1)
            in (count \<le> rr_maxRequests rl, r2))"

section \<open>The middleware\<close>

datatype limiter_reply = Proceed | TooManyRequests

definition RateLimiter :: "(instant \<Rightarrow> string \<Rightarrow> 's \<Rightarrow> bool \<times> 's) \<Rightarrow> instant \<Rightarrow> string \<Rightarrow> 's \<Rightarrow> limiter_reply \<times> 's" where
  "RateLimiter allow now ip s = (case allow now ip s of (ok, s') \<Rightarrow> (if \<not> ok then TooManyRequests else Proceed, s'))"

datatype lim_event = Request instant string | Sweep instant

primrec ev_time :: "lim_event \<Rightarrow> instant" where
  "ev_time (Request t ip) = t"
| "ev_time (Sweep t) = t"

text \<open>The requests that the middleware lets through, in order.\<close>

fun admitted :: "(instant \<Rightarrow> string \<Rightarrow> 's \<Rightarrow> bool \<times> 's) \<Rightarrow> (instant \<Rightarrow> 's \<Rightarrow> 's) \<Rightarrow> 's \<Rightarrow> lim_event list \<Rightarrow> (instant \<times> string) list" where
  "admitted allow sweep s [] = []"
| "admitted allow sweep s (Sweep now # es) = admitted allow sweep (sweep now s) es"
| "admitted allow sweep s (Request now ip # es) = (case RateLimiter allow now ip s of
     (reply, s') \<Rightarrow> (if reply = Proceed then [(now, ip)] else []) @ admitted allow sweep s' es)"

definition mem_run :: "int \<Rightarrow> duration \<Rightarrow> lim_event list \<Rightarrow> (instant \<times> string) list" where
  "mem_run maxRequests window = admitted mem_Allow cleanup (NewRateLimit maxRequests window)"

definition redis_run :: "'r counter_redis \<Rightarrow> 'r \<Rightarrow> int \<Rightarrow> duration \<Rightarrow> lim_event list \<Rightarrow> (instant \<times> string) list" where
  "redis_run R r maxRequests window = admitted (redis_Allow R (NewRedisRateLimit maxRequests window)) (\<lambda>_ r. r) r"

definition passed :: "string \<Rightarrow> instant \<Rightarrow> instant \<Rightarrow> (instant \<times> string) list \<Rightarrow> nat" where
  "passed ip a b h = length (filter (\<lambda>(t, i). i = ip \<and> a \<le> t \<and> t < b) h)"

section \<open>What a limiter promises\<close>

text \<open>At most \<open>B\<close> requests of a client in any \<open>w\<close> nanoseconds; then at most \<open>k B\<close> in any \<open>k w\<close>.\<close>

locale limiter =
  fixes run :: "lim_event list \<Rightarrow> (instant \<times> string) list"
    and ok :: "lim_event list \<Rightarrow> bool"
    and w :: duration
    and B :: nat
  assumes window: "ok es \<Longrightarrow> 0 < w"
    and bound: "ok es \<Longrightarrow> passed ip a (a + w) (run es) \<le> B"
begin

lemma passed_split: "a \<le> b \<Longrightarrow> b \<le> c \<Longrightarrow> passed ip a c h = passed ip a b h + passed ip b c h"
  by (induction h) (auto simp: passed_def)

lemma rate: "ok es \<Longrightarrow> passed ip a (a + int k * w) (run es) \<le> k * B"
proof (induction k arbitrary: a)
  case 0
  have "filter (\<lambda>(t, i). i = ip \<and> a \<le> t \<and> t < a) (run es) = []" by (auto simp: filter_empty_conv)
  then show ?case unfolding passed_def by (simp del: filter.simps)
next
  case (Suc k)
  have "passed ip a (a + int (Suc k) * w) (run es) =
      passed ip a (a + w) (run es) + passed ip (a + w) (a + w + int k * w) (run es)"
    using window [OF Suc.prems] by (subst passed_split [of a "a + w"]) (simp_all add: algebra_simps)
  with bound [OF Suc.prems, of ip a] Suc.IH [OF Suc.prems, of "a + w"] show ?case by simp
qed

end

section \<open>The sliding window is one\<close>

text \<open>The specification: a request passes when fewer than \<open>maxRequests\<close> of the client have passed in the window.\<close>

fun sliding_spec :: "int \<Rightarrow> duration \<Rightarrow> (instant \<times> string) list \<Rightarrow> lim_event list \<Rightarrow> (instant \<times> string) list" where
  "sliding_spec m w h [] = []"
| "sliding_spec m w h (Sweep now # es) = sliding_spec m w h es"
| "sliding_spec m w h (Request now ip # es) =
    (if int (length (filter (\<lambda>(t, i). i = ip \<and> now - t < w) h)) < m
     then (now, ip) # sliding_spec m w (h @ [(now, ip)]) es
     else sliding_spec m w h es)"

definition recent :: "duration \<Rightarrow> string \<Rightarrow> instant \<Rightarrow> (instant \<times> string) list \<Rightarrow> instant list" where
  "recent w ip now h = map fst (filter (\<lambda>(t, i). i = ip \<and> now - t < w) h)"

definition times_of :: "RateLimit \<Rightarrow> string \<Rightarrow> instant list" where
  "times_of rl ip = (case rl_requests rl ip of None \<Rightarrow> [] | Some ts \<Rightarrow> ts)"

text \<open>What the limiter remembers agrees with the history, for every instant from \<open>T\<close> on.\<close>

definition remembers :: "int \<Rightarrow> duration \<Rightarrow> instant \<Rightarrow> RateLimit \<Rightarrow> (instant \<times> string) list \<Rightarrow> bool" where
  "remembers m w T rl h \<longleftrightarrow> rl_maxRequests rl = m \<and> rl_window rl = w \<and>
     (\<forall>ip now. T \<le> now \<longrightarrow> still_valid w now (times_of rl ip) = recent w ip now h)"

lemma still_valid_later: "now \<le> later \<Longrightarrow> still_valid w later (still_valid w now ts) = still_valid w later ts"
  unfolding still_valid_def filter_filter by (rule filter_cong) auto

lemma remembers_cleanup:
  assumes "remembers m w T rl h" "T \<le> now"
  shows "remembers m w now (cleanup now rl) h"
proof -
  have t: "times_of (cleanup now rl) ip = still_valid w now (times_of rl ip)" for ip
    using assms(1) by (simp add: times_of_def cleanup_def remembers_def Let_def still_valid_def split: option.split)
  have "still_valid w later (times_of (cleanup now rl) ip) = recent w ip later h" if "now \<le> later" for ip later
    using assms that unfolding t still_valid_later [OF that] by (simp add: remembers_def)
  moreover have "rl_maxRequests (cleanup now rl) = m" "rl_window (cleanup now rl) = w"
    using assms(1) by (simp_all add: remembers_def cleanup_def)
  ultimately show ?thesis by (simp add: remembers_def)
qed

lemma remembers_allow:
  fixes ip :: string
  assumes r: "remembers m w T rl h" and T: "T \<le> now"
  defines "pass \<equiv> int (length (filter (\<lambda>(t, i). i = ip \<and> now - t < w) h)) < m"
  shows "\<exists>rl'. mem_Allow now ip rl = (pass, rl') \<and> remembers m w now rl' (if pass then h @ [(now, ip)] else h)"
proof -
  have v: "still_valid w now (times_of rl ip) = recent w ip now h"
    and m: "rl_maxRequests rl = m" "rl_window rl = w"
    using r T by (simp_all add: remembers_def)
  have len: "length (recent w ip now h) = length (filter (\<lambda>(t, i). i = ip \<and> now - t < w) h)"
    by (simp add: recent_def)
  let ?ts = "recent w ip now h @ (if pass then [now] else [])"
  let ?rl = "rl\<lparr>rl_requests := (rl_requests rl)(ip \<mapsto> ?ts)\<rparr>"
  have allow: "mem_Allow now ip rl = (pass, ?rl)"
    using v m len by (auto simp: mem_Allow_def Let_def times_of_def pass_def)
  moreover have "remembers m w now ?rl (if pass then h @ [(now, ip)] else h)"
    unfolding remembers_def
  proof (intro conjI allI impI)
    fix j later
    assume l: "now \<le> later"
    have old: "still_valid w later (times_of rl j) = recent w j later h" for j
      using r T l by (simp add: remembers_def)
    have "still_valid w later (recent w ip now h) = recent w ip later h"
      using old [of ip] still_valid_later [OF l, of w "times_of rl ip"] v by simp
    with old [of j] show "still_valid w later (times_of ?rl j) = recent w j later (if pass then h @ [(now, ip)] else h)"
      by (auto simp: times_of_def still_valid_def recent_def)
  qed (use m in simp_all)
  ultimately show ?thesis by blast
qed

lemma admitted_sliding:
  "remembers m w T rl h \<Longrightarrow> sorted (map ev_time es) \<Longrightarrow> \<forall>e \<in> set es. T \<le> ev_time e \<Longrightarrow>
   admitted mem_Allow cleanup rl es = sliding_spec m w h es"
proof (induction es arbitrary: T rl h)
  case (Cons e es)
  show ?case
  proof (cases e)
    case (Sweep now)
    with Cons.prems remembers_cleanup [of m w T rl h now] have "remembers m w now (cleanup now rl) h" by simp
    from Cons.IH [OF this] Cons.prems Sweep show ?thesis by simp
  next
    case (Request now ip)
    let ?pass = "int (length (filter (\<lambda>(t, i). i = ip \<and> now - t < w) h)) < m"
    have "T \<le> now" using Cons.prems Request by simp
    from remembers_allow [OF Cons.prems(1) this, of ip] obtain rl' where rl':
      "mem_Allow now ip rl = (?pass, rl')" "remembers m w now rl' (if ?pass then h @ [(now, ip)] else h)" by blast
    from Cons.IH [OF rl'(2)] Cons.prems Request rl'(1) show ?thesis
      by (auto simp: RateLimiter_def)
  qed
qed simp

lemma mem_run_sliding:
  assumes "sorted (map ev_time es)"
  shows "mem_run m w es = sliding_spec m w [] es"
proof (cases es)
  case Nil
  then show ?thesis by (simp add: mem_run_def)
next
  case (Cons e es')
  have "remembers m w (ev_time e) (NewRateLimit m w) []"
    by (simp add: remembers_def NewRateLimit_def times_of_def still_valid_def recent_def)
  from admitted_sliding [OF this assms] assms Cons show ?thesis by (auto simp: mem_run_def)
qed

lemma passed_append: "passed ip a b (h @ h') = passed ip a b h + passed ip a b h'"
  by (simp add: passed_def)

lemma passed_one: "passed ip a b [(t, i)] = (if i = ip \<and> a \<le> t \<and> t < b then 1 else 0)"
  by (simp add: passed_def)

lemma passed_mono:
  assumes "\<forall>(t, i) \<in> set h. i = ip \<longrightarrow> a \<le> t \<longrightarrow> t < b \<longrightarrow> a' \<le> t \<and> t < b'"
  shows "passed ip a b h \<le> passed ip a' b' h"
  using assms unfolding passed_def by (induction h) auto

lemma sliding_bound:
  assumes "\<And>a. passed ip a (a + w) h \<le> nat m"
  shows "passed ip a (a + w) (h @ sliding_spec m w h es) \<le> nat m"
  using assms
proof (induction m w h es arbitrary: a rule: sliding_spec.induct)
  case (3 m w h now i es)
  show ?case
  proof (cases "int (length (filter (\<lambda>(t, j). j = i \<and> now - t < w) h)) < m")
    case True
    have "passed ip b (b + w) (h @ [(now, i)]) \<le> nat m" for b
    proof (cases "i = ip \<and> b \<le> now \<and> now < b + w")
      case hit: True
      have "length (filter (\<lambda>(t, j). j = ip \<and> b \<le> t \<and> t < b + w) h) \<le> length (filter (\<lambda>(t, j). j = i \<and> now - t < w) h)"
        using hit by (induction h) auto
      with True have "passed ip b (b + w) h + 1 \<le> nat m" by (simp add: passed_def)
      then show ?thesis by (simp add: passed_append passed_one)
    next
      case False
      with 3(3) [of b] show ?thesis by (auto simp: passed_append passed_one)
    qed
    from 3(1) [OF True this, of a] True show ?thesis by simp
  qed (use 3(2,3) in simp)
qed simp_all

lemma sliding_window_bound:
  assumes "sorted (map ev_time es)"
  shows "passed ip a (a + w) (mem_run m w es) \<le> nat m"
  using sliding_bound [of ip w "[]" m a es] mem_run_sliding [OF assms] by (simp add: passed_def)

interpretation window: limiter "mem_run m w" "\<lambda>es. 0 < w \<and> sorted (map ev_time es)" w "nat m" for m w
  by unfold_locales (auto simp: sliding_window_bound)

section \<open>The fixed window is one, of twice the size\<close>

definition counter_up :: "'r counter_redis \<Rightarrow> bool" where
  "counter_up R \<longleftrightarrow> (\<forall>t k r. fst (rd_incr R t k r) \<noteq> None) \<and> (\<forall>t k d r. fst (rd_expire R t k d r))"

text \<open>
  The counter of a client opened its window at \<open>s\<close>, for at least \<open>w\<close>; what passed since, and what passed
  in the \<open>w\<close> before.
\<close>

definition counts :: "nat \<Rightarrow> duration \<Rightarrow> instant \<Rightarrow> string \<Rightarrow> (int \<times> instant option) option \<Rightarrow> (instant \<times> string) list \<Rightarrow> bool" where
  "counts M w s ip c h \<longleftrightarrow> (case c of
     None \<Rightarrow> \<forall>(t, i) \<in> set h. i \<noteq> ip
   | Some (n, None) \<Rightarrow> False
   | Some (n, Some e) \<Rightarrow> 1 \<le> n \<and> s + w \<le> e \<and> (\<forall>(t, i) \<in> set h. i = ip \<longrightarrow> t < e) \<and>
       passed ip s e h \<le> min (nat n) M \<and> passed ip (s - w + 1) s h \<le> M)"

definition fixed_inv :: "nat \<Rightarrow> duration \<Rightarrow> instant \<Rightarrow> string \<Rightarrow> (int \<times> instant option) option \<Rightarrow> (instant \<times> string) list \<Rightarrow> bool" where
  "fixed_inv M w T ip c h \<longleftrightarrow> 0 < w \<and> (\<forall>(t, i) \<in> set h. t \<le> T) \<and> (\<exists>s \<le> T. counts M w s ip c h) \<and>
     (\<forall>a. passed ip a (a + w) h \<le> 2 * M)"

text \<open>The effect of one request on the counter of its client; a new window ends at \<open>e'\<close>.\<close>

definition counted :: "instant \<Rightarrow> instant \<Rightarrow> (int \<times> instant option) option \<Rightarrow> int \<times> instant option" where
  "counted e' now c = (case c of
     Some (n, Some e) \<Rightarrow> if now < e then (n + 1, Some e) else (1, Some e')
   | Some (n, None) \<Rightarrow> (n + 1, None)
   | None \<Rightarrow> (1, Some e'))"

lemma passed_split_at: "a \<le> b \<Longrightarrow> b \<le> c \<Longrightarrow> passed ip a c h = passed ip a b h + passed ip b c h"
  by (induction h) (auto simp: passed_def)

lemma passed_none: "\<forall>(t, i) \<in> set h. i = ip \<longrightarrow> \<not> (a \<le> t \<and> t < b) \<Longrightarrow> passed ip a b h = 0"
  by (auto simp: passed_def filter_empty_conv)

lemma counts_new_window:
  assumes "fixed_inv M w T ip c h" "T \<le> now" "c = None \<or> (\<exists>n e. c = Some (n, Some e) \<and> e \<le> now)"
  shows "passed ip (now - w + 1) now h \<le> M" "passed ip now b h = 0" "\<forall>(t, i) \<in> set h. i = ip \<longrightarrow> t < now"
proof -
  obtain s where s: "counts M w s ip c h" using assms(1) by (auto simp: fixed_inv_def)
  show lt: "\<forall>(t, i) \<in> set h. i = ip \<longrightarrow> t < now"
    using s assms(3) by (fastforce simp: counts_def)
  then show "passed ip now b h = 0" by (intro passed_none) auto
  show "passed ip (now - w + 1) now h \<le> M"
  proof (cases c)
    case None
    with s have "passed ip (now - w + 1) now h = 0"
      by (intro passed_none) (auto simp: counts_def)
    then show ?thesis by simp
  next
    case (Some x)
    with assms(3) obtain n e where c: "c = Some (n, Some e)" "e \<le> now" by auto
    have "passed ip (now - w + 1) now h \<le> passed ip s e h"
      using s c by (intro passed_mono) (auto simp: counts_def)
    with s c show ?thesis by (simp add: counts_def)
  qed
qed

lemma fixed_inv_step:
  assumes inv: "fixed_inv M w T ip c h" and T: "T \<le> now" and e': "now + w \<le> e'"
  defines "n' \<equiv> fst (counted e' now c)"
  shows "fixed_inv M w now ip (Some (counted e' now c)) (if n' \<le> int M then h @ [(now, ip)] else h)"
proof -
  have w: "0 < w" and old: "\<forall>(t, i) \<in> set h. t \<le> now" and J3: "\<And>a. passed ip a (a + w) h \<le> 2 * M"
    using inv T by (fastforce simp: fixed_inv_def)+
  obtain s where s: "s \<le> T" "counts M w s ip c h" using inv by (auto simp: fixed_inv_def)
  let ?h = "if n' \<le> int M then h @ [(now, ip)] else h"
  have oldh: "\<forall>(t, i) \<in> set ?h. t \<le> now" using old by auto
  consider (new) "c = None \<or> (\<exists>n e. c = Some (n, Some e) \<and> e \<le> now)" | (live) n e where "c = Some (n, Some e)" "now < e"
    using s(2) by (cases c) (auto simp: counts_def split: option.splits, force)
  then show ?thesis
  proof cases
    case new
    note w1 = counts_new_window [OF inv T new]
    have c': "counted e' now c = (1, Some e')" using new by (auto simp: counted_def)
    have "passed ip a (a + w) ?h \<le> 2 * M" for a
    proof (cases "n' \<le> int M \<and> a \<le> now \<and> now < a + w")
      case True
      have "passed ip a (a + w) h \<le> passed ip (now - w + 1) now h"
        using w1(3) True by (intro passed_mono) auto
      with w1(1) True show ?thesis by (simp add: passed_append passed_one n'_def c')
    next
      case False
      with J3 [of a] show ?thesis by (auto simp: passed_append passed_one)
    qed
    moreover have "passed ip now e' ?h \<le> min 1 M" "passed ip (now - w + 1) now ?h \<le> M"
      using w1 w by (auto simp: passed_append passed_one n'_def c')
    moreover have "\<forall>(t, i) \<in> set ?h. i = ip \<longrightarrow> t < e'"
      using old w e' by auto
    ultimately show ?thesis
      using w oldh e' unfolding fixed_inv_def c' by (intro conjI exI [of _ now]) (simp_all add: counts_def)
  next
    case live
    have c': "counted e' now c = (n + 1, Some e)" using live by (simp add: counted_def)
    have n: "1 \<le> n" "passed ip s e h \<le> min (nat n) M" "passed ip (s - w + 1) s h \<le> M" "s \<le> now" "s + w \<le> e"
      "\<forall>(t, i) \<in> set h. i = ip \<longrightarrow> t < e"
      using s live T by (auto simp: counts_def)
    have n': "n' = n + 1" by (simp add: n'_def c')
    have room: "passed ip s e h + 1 \<le> M" if "n' \<le> int M"
      using n(1,2) that unfolding n' by linarith
    have step: "passed ip s e h + 1 \<le> nat (n + 1)" using n(1,2) by linarith
    have "passed ip a (a + w) ?h \<le> 2 * M" for a
    proof (cases "n' \<le> int M \<and> a \<le> now \<and> now < a + w")
      case True
      have "passed ip a (a + w) h \<le> passed ip (s - w + 1) e h"
        using n True by (intro passed_mono) (auto)
      also have "\<dots> = passed ip (s - w + 1) s h + passed ip s e h"
        using w n by (intro passed_split_at) simp_all
      finally have "passed ip a (a + w) h \<le> M + passed ip s e h" using n(3) by simp
      with room True show ?thesis by (simp add: passed_append passed_one)
    next
      case False
      with J3 [of a] show ?thesis by (auto simp: passed_append passed_one)
    qed
    moreover have "passed ip s e ?h \<le> min (nat (n + 1)) M" "passed ip (s - w + 1) s ?h \<le> M"
      using n live(2) room step by (auto simp: passed_append passed_one)
    moreover have "\<forall>(t, i) \<in> set ?h. i = ip \<longrightarrow> t < e"
      using n live by auto
    ultimately show ?thesis
      using w n oldh unfolding fixed_inv_def c' by (intro conjI exI [of _ s]) (simp_all add: counts_def)
  qed
qed

lemma incr_effect:
  assumes "counter_ok R view" "counter_up R"
  shows "\<exists>r'. rd_incr R t k r = (Some (fst (counter_at t (view r) k) + 1), r') \<and>
    view r' = (view r)(k \<mapsto> (fst (counter_at t (view r) k) + 1, snd (counter_at t (view r) k)))"
proof -
  obtain x r' where i: "rd_incr R t k r = (x, r')" by (cases "rd_incr R t k r")
  moreover obtain n where "x = Some n" using assms(2) i unfolding counter_up_def by (metis fst_conv option.exhaust)
  moreover have "case rd_incr R t k r of (None, r') \<Rightarrow> view r' = view r
      | (Some n, r') \<Rightarrow> (case counter_at t (view r) k of (m, e) \<Rightarrow> n = m + 1 \<and> view r' = (view r)(k \<mapsto> (m + 1, e)))"
    by (rule assms(1) [unfolded counter_ok_def, THEN conjunct1, THEN spec, THEN spec, THEN spec])
  ultimately show ?thesis by (simp add: prod.case_eq_if)
qed

lemma expire_effect:
  assumes "counter_ok R view" "counter_up R"
  shows "\<exists>e. t + expire_seconds d \<le> e \<and>
    view (snd (rd_expire R t k d r)) = (view r)(k := map_option (\<lambda>(n, _). (n, Some e)) (view r k))"
proof -
  obtain b r' where e: "rd_expire R t k d r = (b, r')" by (cases "rd_expire R t k d r")
  have b using assms(2) e unfolding counter_up_def by (metis fst_conv)
  moreover have "case rd_expire R t k d r of (False, r') \<Rightarrow> view r' = view r
      | (True, r') \<Rightarrow> \<exists>e. t + expire_seconds d \<le> e \<and> e \<le> t + expire_seconds d + 1000000 \<and>
          view r' = (view r)(k := map_option (\<lambda>(n, _). (n, Some e)) (view r k))"
    by (rule assms(1) [unfolded counter_ok_def, THEN conjunct2, THEN spec, THEN spec, THEN spec, THEN spec])
  ultimately show ?thesis by (auto simp: e)
qed

lemma redis_Allow_effect:
  fixes rl :: RedisRateLimit and ip :: string
  assumes R: "counter_ok R view" "counter_up R"
  defines "k \<equiv> rr_prefix rl @ '':'' @ ip"
  shows "\<And>j. j \<noteq> k \<Longrightarrow> view (snd (redis_Allow R rl now ip r)) j = view r j"
    and "view r k = None \<or> (\<exists>n e. view r k = Some (n, Some e) \<and> 1 \<le> n) \<Longrightarrow>
      \<exists>e'. now + expire_seconds (rr_window rl) \<le> e' \<and>
      fst (redis_Allow R rl now ip r) = (fst (counted e' now (view r k)) \<le> rr_maxRequests rl) \<and>
      view (snd (redis_Allow R rl now ip r)) k = Some (counted e' now (view r k))"
proof -
  obtain r' where r': "rd_incr R now k r = (Some (fst (counter_at now (view r) k) + 1), r')"
    "view r' = (view r)(k \<mapsto> (fst (counter_at now (view r) k) + 1, snd (counter_at now (view r) k)))"
    using incr_effect [OF R, of now k r] by blast
  obtain e' where e': "now + expire_seconds (rr_window rl) \<le> e'" and ex:
    "view (snd (rd_expire R now k (rr_window rl) r')) = (view r')(k := map_option (\<lambda>(n, _). (n, Some e')) (view r' k))"
    using expire_effect [OF R, of now "rr_window rl" k r'] by blast
  have allow: "redis_Allow R rl now ip r = (fst (counter_at now (view r) k) + 1 \<le> rr_maxRequests rl,
      if fst (counter_at now (view r) k) + 1 = 1 then snd (rd_expire R now k (rr_window rl) r') else r')"
    unfolding redis_Allow_def Let_def k_def [symmetric] r'(1) by simp
  show "view (snd (redis_Allow R rl now ip r)) j = view r j" if "j \<noteq> k" for j
    using that r'(2) ex by (simp add: allow)
  show "\<exists>e'. now + expire_seconds (rr_window rl) \<le> e' \<and>
      fst (redis_Allow R rl now ip r) = (fst (counted e' now (view r k)) \<le> rr_maxRequests rl) \<and>
      view (snd (redis_Allow R rl now ip r)) k = Some (counted e' now (view r k))"
    if "view r k = None \<or> (\<exists>n e. view r k = Some (n, Some e) \<and> 1 \<le> n)"
    using that r'(2) ex e' by (intro exI [of _ e']) (auto simp: allow counter_at_def counted_def split: if_splits)
qed

lemma expire_seconds_pos: "0 < d \<Longrightarrow> 0 < expire_seconds d"
  by (auto simp: expire_seconds_def)

lemma counts_other: "j \<noteq> ip \<Longrightarrow> counts M w s ip c (h @ [(now, j)]) = counts M w s ip c h"
  by (auto simp: counts_def passed_append passed_one split: option.split)

lemma fixed_inv_other:
  "fixed_inv M w now ip c h \<Longrightarrow> j \<noteq> ip \<Longrightarrow> fixed_inv M w now ip c (if b then h @ [(now, j)] else h)"
  by (auto simp: fixed_inv_def counts_other passed_append passed_one)

lemma fixed_inv_counter: "fixed_inv M w T ip c h \<Longrightarrow> c = None \<or> (\<exists>n e. c = Some (n, Some e) \<and> 1 \<le> n)"
  unfolding fixed_inv_def counts_def by (cases c; cases "snd (the c)") auto

lemma fixed_inv_later: "fixed_inv M w T ip c h \<Longrightarrow> T \<le> T' \<Longrightarrow> fixed_inv M w T' ip c h"
  unfolding fixed_inv_def by (intro conjI) (fastforce, fastforce, meson order_trans, blast)

lemma redis_run_bound:
  fixes w :: duration
  assumes R: "counter_ok R view" "counter_up R" and m: "0 \<le> m"
  defines "rl \<equiv> NewRedisRateLimit m w"
  shows "fixed_inv (nat m) (expire_seconds w) T ip (view r (rr_prefix rl @ '':'' @ ip)) h \<Longrightarrow> sorted (map ev_time es) \<Longrightarrow>
    \<forall>e \<in> set es. T \<le> ev_time e \<Longrightarrow>
    passed ip a (a + expire_seconds w) (h @ admitted (redis_Allow R rl) (\<lambda>_ r. r) r es) \<le> 2 * nat m"
proof (induction es arbitrary: T r h)
  case Nil
  then show ?case by (simp add: fixed_inv_def)
next
  case (Cons e es)
  let ?k = "rr_prefix rl @ '':'' @ ip"
  have later: "fixed_inv (nat m) (expire_seconds w) (ev_time e) ip c h" if "fixed_inv (nat m) (expire_seconds w) T ip c h" for c
    using that by (rule fixed_inv_later) (use Cons.prems(3) in simp)
  show ?case
  proof (cases e)
    case (Sweep now)
    with Cons.IH [OF later [OF Cons.prems(1)]] Cons.prems(2) show ?thesis by simp
  next
    case (Request now j)
    obtain b r' where a: "redis_Allow R rl now j r = (b, r')" by (cases "redis_Allow R rl now j r")
    let ?h = "if b then h @ [(now, j)] else h"
    have inv: "fixed_inv (nat m) (expire_seconds w) now ip (view r' ?k) ?h"
    proof (cases "j = ip")
      case True
      have "view r ?k = None \<or> (\<exists>n e. view r ?k = Some (n, Some e) \<and> 1 \<le> n)"
        by (rule fixed_inv_counter [OF Cons.prems(1)])
      from redis_Allow_effect(2) [OF R this, of now] a True
      obtain e' where e': "now + expire_seconds w \<le> e'"
        and b: "b = (fst (counted e' now (view r ?k)) \<le> int (nat m))" "view r' ?k = Some (counted e' now (view r ?k))"
        using m by (auto simp: rl_def NewRedisRateLimit_def)
      have "T \<le> now" using Cons.prems(3) Request by simp
      from fixed_inv_step [OF Cons.prems(1) this e'] show ?thesis unfolding b True .
    next
      case False
      then have "view r' ?k = view r ?k"
        using redis_Allow_effect(1) [OF R, of ?k rl j now r] a by simp
      moreover have "fixed_inv (nat m) (expire_seconds w) now ip (view r ?k) ?h"
        using later [OF Cons.prems(1)] by (intro fixed_inv_other) (use False Request in simp_all)
      ultimately show ?thesis by simp
    qed
    have "passed ip a (a + expire_seconds w) (?h @ admitted (redis_Allow R rl) (\<lambda>_ r. r) r' es) \<le> 2 * nat m"
      by (rule Cons.IH [OF inv]) (use Cons.prems(2) Request in auto)
    with Request a show ?thesis by (auto simp: RateLimiter_def)
  qed
qed

lemma fixed_window_bound:
  assumes "counter_ok R view" "counter_up R" "0 \<le> m" "0 < w" "sorted (map ev_time es)" "view r = Map.empty"
  shows "passed ip a (a + expire_seconds w) (redis_run R r m w es) \<le> 2 * nat m"
proof (cases es)
  case Nil
  then show ?thesis by (simp add: redis_run_def passed_def)
next
  case (Cons e es')
  have "fixed_inv (nat m) (expire_seconds w) (ev_time e) ip None []"
    using expire_seconds_pos [OF assms(4)] by (auto simp: fixed_inv_def counts_def passed_def)
  with redis_run_bound [OF assms(1-3), of w "ev_time e" ip r "[]" es a] assms(5,6) Cons show ?thesis
    by (auto simp: redis_run_def)
qed

interpretation fixed: limiter "redis_run R r m w"
    "\<lambda>es. counter_ok R view \<and> counter_up R \<and> 0 \<le> m \<and> 0 < w \<and> sorted (map ev_time es) \<and> view r = Map.empty" "expire_seconds w" "2 * nat m"
  for R and view :: "'r \<Rightarrow> counter_view" and r m w
  by unfold_locales (auto simp: fixed_window_bound expire_seconds_pos)

section \<open>The limiters of the server\<close>

text \<open>C33: The in-process limiter is the sliding window that it is meant to be: it lets a request through
  exactly when fewer than the allowed number of requests of the client have passed within the window,
  whatever the sweeper has removed in between. So of any client at most \<open>k m\<close> requests pass in any
  \<open>k\<close> windows.\<close>

theorem sliding_window_limits:
  assumes "sorted (map ev_time es)" "0 < w"
  shows "mem_run m w es = sliding_spec m w [] es \<and> passed ip a (a + int k * w) (mem_run m w es) \<le> k * nat m"
  using mem_run_sliding [OF assms(1)] window.rate [of w es ip a k m] assms by simp

lemma sliding_window_limits_witness:
  "passed ''a'' 3 13 (mem_run 2 10 [Request 1 ''a'', Request 2 ''b'', Request 3 ''a'', Sweep 4, Request 5 ''a'', Request 11 ''a'']) \<le> 2 \<and>
   mem_run 2 10 [Request 1 ''a'', Request 2 ''b'', Request 3 ''a'', Sweep 4, Request 5 ''a'', Request 11 ''a''] =
     [(1, ''a''), (2, ''b''), (3, ''a''), (11, ''a'')]"
proof -
  let ?es = "[Request 1 ''a'', Request 2 ''b'', Request 3 ''a'', Sweep 4, Request 5 ''a'', Request 11 ''a'']"
  have es: "sorted (map ev_time ?es)" by simp
  note limits = sliding_window_limits [OF es, of 10 2 "''a''" 3 1]
  have "passed ''a'' 3 13 (mem_run 2 10 ?es) \<le> 2"
    using limits [THEN conjunct2] by simp
  moreover have "mem_run 2 10 ?es = [(1, ''a''), (2, ''b''), (3, ''a''), (11, ''a'')]"
    using limits [THEN conjunct1] by simp
  ultimately show ?thesis by blast
qed

text \<open>C34: The Redis limiter, as long as the server answers, lets at most twice the allowed number of
  requests of a client through in any window (its windows are fixed, so a burst can straddle two), and
  at most \<open>2 k m\<close> in \<open>k\<close> windows. The window is what \<open>EXPIRE\<close> makes of the configured one: its whole
  seconds, and one second when it is shorter.\<close>

theorem fixed_window_limits:
  assumes "counter_ok R view" "counter_up R" "view r = Map.empty" "0 \<le> m" "0 < w" "sorted (map ev_time es)"
  shows "passed ip a (a + int k * expire_seconds w) (redis_run R r m w es) \<le> k * (2 * nat m)"
  by (rule fixed.rate [where view = view]) (use assms in simp)

text \<open>A server that behaves as documented, and fails to run \<open>EXPIRE\<close> at the instants \<open>bad\<close>.\<close>

definition map_counters :: "instant list \<Rightarrow> counter_view counter_redis" where
  "map_counters bad = \<lparr>
     rd_incr = (\<lambda>t k r. case counter_at t r k of (n, e) \<Rightarrow> (Some (n + 1), r(k \<mapsto> (n + 1, e)))),
     rd_expire = (\<lambda>t k d r. if t \<in> set bad then (False, r)
       else (True, r(k := map_option (\<lambda>(n, _). (n, Some (t + expire_seconds d))) (r k))))\<rparr>"

lemma map_counters_ok: "counter_ok (map_counters bad) (\<lambda>r. r)"
  by (auto simp: counter_ok_def map_counters_def split: prod.split)

lemma fixed_window_limits_witness:
  "passed ''a'' 900000000 1900000000 (redis_run (map_counters []) Map.empty 2 1500000000
     (map (\<lambda>t. Request t ''a'') [0, 900000000, 900000000, 900000000, 1000000000, 1000000000, 1000000000])) \<le> 4 \<and>
   redis_run (map_counters []) Map.empty 2 1500000000
     (map (\<lambda>t. Request t ''a'') [0, 900000000, 900000000, 900000000, 1000000000, 1000000000, 1000000000]) =
     map (\<lambda>t. (t, ''a'')) [0, 900000000, 1000000000, 1000000000]"
proof -
  let ?es = "map (\<lambda>t. Request t ''a'') [0, 900000000, 900000000, 900000000, 1000000000, 1000000000, 1000000000]"
  have sec: "expire_seconds 1500000000 = 1000000000" by (simp add: expire_seconds_def)
  have "counter_up (map_counters [])"
    by (simp add: counter_up_def map_counters_def split: prod.split)
  from fixed_window_limits [OF map_counters_ok this, of Map.empty 2 1500000000 ?es "''a''" 900000000 1]
  have "passed ''a'' 900000000 1900000000 (redis_run (map_counters []) Map.empty 2 1500000000 ?es) \<le> 4"
    by (simp add: sec)
  moreover have "redis_run (map_counters []) Map.empty 2 1500000000 ?es =
      map (\<lambda>t. (t, ''a'')) [0, 900000000, 1000000000, 1000000000]"
    by (simp add: redis_run_def RateLimiter_def redis_Allow_def NewRedisRateLimit_def map_counters_def
        counter_at_def Let_def sec)
  ultimately show ?thesis by blast
qed

definition up_after :: "'r counter_redis \<Rightarrow> instant \<Rightarrow> bool" where
  "up_after R T \<longleftrightarrow> (\<forall>t k r. T < t \<longrightarrow> fst (rd_incr R t k r) \<noteq> None)"

lemma incr_view:
  assumes "counter_ok R view" "rd_incr R t k r = (x, r')"
  shows "case x of None \<Rightarrow> view r' = view r
    | Some n \<Rightarrow> n = fst (counter_at t (view r) k) + 1 \<and>
        view r' = (view r)(k \<mapsto> (fst (counter_at t (view r) k) + 1, snd (counter_at t (view r) k)))"
  using assms(1) [unfolded counter_ok_def, THEN conjunct1, THEN spec [of _ t], THEN spec [of _ k], THEN spec [of _ r]] assms(2)
  by (simp add: prod.case_eq_if split: option.splits)

lemma expire_other:
  assumes "counter_ok R view" "j \<noteq> k"
  shows "view (snd (rd_expire R t k d r)) j = view r j"
  using assms(1) [unfolded counter_ok_def, THEN conjunct2, THEN spec [of _ t], THEN spec [of _ k], THEN spec [of _ d],
      THEN spec [of _ r]] assms(2)
  by (cases "rd_expire R t k d r") (auto split: bool.splits)

lemma redis_Allow_other:
  assumes "counter_ok R view" "j \<noteq> rr_prefix rl @ '':'' @ ip"
  shows "view (snd (redis_Allow R rl now ip r)) j = view r j"
proof -
  let ?k = "rr_prefix rl @ '':'' @ ip"
  obtain x r' where i: "rd_incr R now ?k r = (x, r')" by (cases "rd_incr R now ?k r")
  have "view r' j = view r j" using incr_view [OF assms(1) i] assms(2) by (auto split: option.splits)
  moreover have "view (snd (redis_Allow R rl now ip r)) j = view r' j"
    unfolding redis_Allow_def Let_def i using expire_other [OF assms] by (simp split: option.split)
  ultimately show ?thesis by simp
qed

lemma stuck_counter:
  assumes "counter_ok R view" "up_after R T"
  shows "view r (rr_prefix rl @ '':'' @ ip) = Some (n, None) \<Longrightarrow> 1 \<le> n \<Longrightarrow> \<forall>e \<in> set es. T < ev_time e \<Longrightarrow>
    length (filter (\<lambda>(t, i). i = ip) (admitted (redis_Allow R rl) (\<lambda>_ r. r) r es)) \<le> nat (rr_maxRequests rl - n)"
proof (induction es arbitrary: r n)
  case (Cons e es)
  let ?k = "rr_prefix rl @ '':'' @ ip"
  show ?case
  proof (cases e)
    case (Sweep now)
    with Cons show ?thesis by simp
  next
    case (Request now j)
    obtain b r' where a: "redis_Allow R rl now j r = (b, r')" by (cases "redis_Allow R rl now j r")
    show ?thesis
    proof (cases "j = ip")
      case True
      obtain x r1 where i: "rd_incr R now ?k r = (x, r1)" by (cases "rd_incr R now ?k r")
      have "T < now" using Cons.prems(3) Request by simp
      then obtain c where "x = Some c" using assms(2) i unfolding up_after_def by (metis fst_conv option.exhaust)
      with incr_view [OF assms(1) i] Cons.prems(1) have x: "x = Some (n + 1)" "view r1 ?k = Some (n + 1, None)"
        by (simp_all add: counter_at_def)
      have allow: "b = (n + 1 \<le> rr_maxRequests rl)" "r' = r1"
        using a True Cons.prems(2) unfolding redis_Allow_def Let_def True i x(1) by simp_all
      have "length (filter (\<lambda>(t, i). i = ip) (admitted (redis_Allow R rl) (\<lambda>_ r. r) r' es)) \<le> nat (rr_maxRequests rl - (n + 1))"
        by (rule Cons.IH) (use x Cons.prems allow in auto)
      with Request a True allow(1) show ?thesis by (auto simp: RateLimiter_def)
    next
      case False
      then have "view r' ?k = Some (n, None)"
        using redis_Allow_other [OF assms(1), of ?k rl j now r] Cons.prems(1) a by simp
      from Cons.IH [OF this Cons.prems(2)] Cons.prems(3) Request a False show ?thesis by (auto simp: RateLimiter_def)
    qed
  qed
qed simp

text \<open>One lost \<open>EXPIRE\<close> locks a client out. When the server counts the first request of a client but
  does not answer the \<open>EXPIRE\<close> that follows (its result is ignored), the counter never expires: of all
  the client's later requests, however late, at most \<open>m - 1\<close> pass, although the server answers them all.\<close>

lemma lost_expire_locks_out:
  assumes "counter_ok R view" "view r (''ratelimit:'' @ ip) = None"
    and "fst (rd_incr R now (''ratelimit:'' @ ip) r) \<noteq> None"
    and "fst (rd_expire R now (''ratelimit:'' @ ip) w (snd (rd_incr R now (''ratelimit:'' @ ip) r))) = False"
    and "up_after R now" "\<forall>e \<in> set es. now < ev_time e"
  shows "length (filter (\<lambda>(t, i). i = ip)
    (redis_run R (snd (redis_Allow R (NewRedisRateLimit m w) now ip r)) m w es)) \<le> nat (m - 1)"
proof -
  let ?rl = "NewRedisRateLimit m w" and ?k = "''ratelimit:'' @ ip"
  have k: "rr_prefix ?rl @ '':'' @ ip = ?k" by (simp add: NewRedisRateLimit_def)
  obtain x r1 where i: "rd_incr R now ?k r = (x, r1)" by (cases "rd_incr R now ?k r")
  obtain y r2 where e: "rd_expire R now ?k w r1 = (y, r2)" by (cases "rd_expire R now ?k w r1")
  have x: "x = Some 1" "view r1 ?k = Some (1, None)"
    using incr_view [OF assms(1) i] assms(2,3) i by (auto simp: counter_at_def)
  have "view r2 = view r1"
    using assms(1) [unfolded counter_ok_def, THEN conjunct2, THEN spec [of _ now], THEN spec [of _ ?k],
        THEN spec [of _ w], THEN spec [of _ r1]]
      assms(4) i e by (simp split: bool.splits)
  moreover have "snd (redis_Allow R ?rl now ip r) = r2"
    unfolding redis_Allow_def Let_def k i x(1) using e by (simp add: NewRedisRateLimit_def)
  ultimately have "view (snd (redis_Allow R ?rl now ip r)) (rr_prefix ?rl @ '':'' @ ip) = Some (1, None)"
    unfolding k using x(2) by simp
  from stuck_counter [OF assms(1,5) this _ assms(6)] show ?thesis
    by (simp add: redis_run_def NewRedisRateLimit_def)
qed

lemma lost_expire_locks_out_witness:
  "redis_run (map_counters [1]) (snd (redis_Allow (map_counters [1]) (NewRedisRateLimit 1 10) 1 ''a'' Map.empty)) 1 10
     [Request 1000000 ''a'', Request 2000000 ''a''] = []"
proof -
  let ?R = "map_counters [1]" and ?es = "[Request 1000000 ''a'', Request 2000000 ''a'']"
  let ?run = "redis_run ?R (snd (redis_Allow ?R (NewRedisRateLimit 1 10) 1 ''a'' Map.empty)) 1 10 ?es"
  have "up_after ?R 1" by (simp add: up_after_def map_counters_def split: prod.split)
  from lost_expire_locks_out [OF map_counters_ok, of Map.empty "''a''" "[1]" 1 10, OF _ _ _ this, of ?es 1]
  have "length (filter (\<lambda>(t, i). i = ''a'') ?run) = 0"
    by (simp add: map_counters_def counter_at_def)
  moreover have "filter (\<lambda>(t, i). i = ''a'') ?run = ?run"
    by (simp add: redis_run_def RateLimiter_def redis_Allow_def map_counters_def counter_at_def NewRedisRateLimit_def Let_def)
  ultimately show ?thesis by simp
qed

end
