(* ===== verification/Pagination.thy ===== *)
theory Pagination
  imports GoStd
begin

text \<open>
  src/pkg/pagination: pagination.go (clamping of page numbers and sizes, the response envelopes) and
  query.go (the SQL clauses of a page). Go's \<open>int\<close> has 64 bits and wraps.

  A cursor is a value of the ordered column, \<open>nil\<close> is \<^const>\<open>None\<close>. \<open>run_clause\<close> is what a database does
  with a clause over a table whose column \<open>col\<close> is read by \<open>f\<close>.
\<close>

section \<open>Parameters\<close>

definition clamp_size :: "int \<Rightarrow> int" where
  "clamp_size sz = (if sz < 1 then 20 else if sz > 100 then 100 else sz)"

definition ParseOffset :: "int \<Rightarrow> int \<Rightarrow> int \<times> int" where
  "ParseOffset page sz =
    (let page = (if page < 1 then 1 else page);
         sz = clamp_size sz
     in (i64 (i64 (page - 1) * sz), sz))"

definition ParsePage :: "int \<Rightarrow> int \<Rightarrow> int \<times> int" where
  "ParsePage page sz = (if page < 1 then 1 else page, clamp_size sz)"

definition ParseCursor :: "string \<Rightarrow> int \<Rightarrow> int" where
  "ParseCursor cursor limit = clamp_size limit"

section \<open>Results\<close>

record 'a Result =
  re_Items :: 'a
  re_Total :: int
  re_Page :: int
  re_Size :: int
  re_Limit :: int
  re_Offset :: int
  re_Cursor :: string
  re_NextCursor :: string
  re_HasMore :: bool



definition NewCursorResult :: "'a \<Rightarrow> string \<Rightarrow> int \<Rightarrow> bool \<Rightarrow> 'a Result" where
  "NewCursorResult items nextCursor limit hasMore =
     \<lparr>re_Items = items, re_Total = 0, re_Page = 0, re_Size = 0, re_Limit = ParseCursor nextCursor limit,
      re_Offset = 0, re_Cursor = [], re_NextCursor = nextCursor, re_HasMore = hasMore\<rparr>"

section \<open>Clauses\<close>


record 'c SQLClause =
  sq_Where :: string
  sq_Args :: "'c list"
  sq_Order :: string
  sq_Limit :: int
  sq_Offset :: int




definition BuildPageQuery :: "int \<Rightarrow> int \<Rightarrow> 'c SQLClause" where
  "BuildPageQuery page sz = (case ParsePage page sz of (p, s) \<Rightarrow>
     \<lparr>sq_Where = [], sq_Args = [], sq_Order = [], sq_Limit = s, sq_Offset = i64 (i64 (p - 1) * s)\<rparr>)"


section \<open>Walking through the pages\<close>













text \<open>A page number that is large enough has a negative offset.\<close>

lemma offset_wraps: "ParseOffset (2 ^ 57) 100 = (- 4035225266123964516, 100)"
  by (simp add: ParseOffset_def clamp_size_def Let_def i64_def)



end
