(* ===== verification/Ciphers.thy ===== *)
theory Ciphers
  imports GoStd
begin

text \<open>
  src/internal/services/crypto: the AES-GCM cipher of crypto.go, the ChaCha20-Poly1305 cipher of
  chacha20.go and the versioned keys of key.go.

  The AEAD algorithms are parameters: \<open>seal key nonce plaintext\<close> and \<open>open key nonce ciphertext\<close>.
  \<open>aead_ok\<close> states what they are documented to do: a sealed message is 16 bytes longer than its
  plaintext, and \<open>open\<close> accepts exactly the sealed messages. The source of randomness is the function
  \<open>rnd\<close>, the answer to a request for \<open>n\<close> bytes.
\<close>

section \<open>Authenticated encryption\<close>

record aead =
  ae_seal :: "bytes \<Rightarrow> bytes \<Rightarrow> bytes \<Rightarrow> bytes"
  ae_open :: "bytes \<Rightarrow> bytes \<Rightarrow> bytes \<Rightarrow> bytes option"

definition aead_ok :: "aead \<Rightarrow> bool" where
  "aead_ok A \<longleftrightarrow> (\<forall>k n p. length (ae_seal A k n p) = length p + 16) \<and>
     (\<forall>k n c p. ae_open A k n c = Some p \<longleftrightarrow> c = ae_seal A k n p)"

type_synonym random = "nat \<Rightarrow> bytes option"

definition random_ok :: "random \<Rightarrow> bool" where
  "random_ok rnd \<longleftrightarrow> (\<forall>n bs. rnd n = Some bs \<longrightarrow> length bs = n)"

text \<open>An AEAD with this behaviour: the key and the nonce, cut to 16 bytes, stand behind the plaintext.\<close>

definition demo_tag :: "bytes \<Rightarrow> bytes \<Rightarrow> bytes" where
  "demo_tag k n = take 16 (k @ n @ replicate 16 0)"

definition demo_aead :: aead where
  "demo_aead = \<lparr>ae_seal = (\<lambda>k n p. p @ demo_tag k n),
     ae_open = (\<lambda>k n c. if 16 \<le> length c \<and> drop (length c - 16) c = demo_tag k n
       then Some (take (length c - 16) c) else None)\<rparr>"

lemma length_demo_tag [simp]: "length (demo_tag k n) = 16"
  by (simp add: demo_tag_def)

lemma demo_aead_ok: "aead_ok demo_aead"
  unfolding aead_ok_def
proof (intro conjI allI)
  fix k n c p
  show "ae_open demo_aead k n c = Some p \<longleftrightarrow> c = ae_seal demo_aead k n p"
    unfolding demo_aead_def aead.select_convs by (auto, metis append_take_drop_id)
qed (simp add: demo_aead_def)

lemma aead_okD:
  assumes "aead_ok A"
  shows "length (ae_seal A k n p) = length p + 16" "ae_open A k n (ae_seal A k n p) = Some p"
    "ae_open A k n c = Some p \<Longrightarrow> length c = length p + 16"
  using assms unfolding aead_ok_def by auto

datatype crypto_error =
    BadKeyLength nat
  | BadHex
  | RandFailed
  | CipherTooShort
  | OpenFailed
  | EmptyMasterKey
  | BadCurrentKey crypto_error
  | BadOldKey int crypto_error
  | NoSuchVersion int
  | NoVersionPrefix
  | BadVersionFormat
  | BadVersionNumber

section \<open>AES-GCM\<close>

record AESGCM =
  ag_key :: bytes

definition NewAESGCM :: "bytes \<Rightarrow> crypto_error + AESGCM" where
  "NewAESGCM key =
    (if length key \<noteq> 16 \<and> length key \<noteq> 24 \<and> length key \<noteq> 32 then Inl (BadKeyLength (length key))
     else Inr \<lparr>ag_key = key\<rparr>)"

definition NewAESGCMFromHex :: "string \<Rightarrow> crypto_error + AESGCM" where
  "NewAESGCMFromHex hexKey = (case hex_decode hexKey of None \<Rightarrow> Inl BadHex | Some key \<Rightarrow> NewAESGCM key)"

definition aes_Encrypt :: "aead \<Rightarrow> random \<Rightarrow> AESGCM \<Rightarrow> bytes \<Rightarrow> crypto_error + bytes" where
  "aes_Encrypt A rnd c plaintext = (case rnd 12 of
     None \<Rightarrow> Inl RandFailed
   | Some nonce \<Rightarrow> Inr (nonce @ ae_seal A (ag_key c) nonce plaintext))"

definition aes_Decrypt :: "aead \<Rightarrow> AESGCM \<Rightarrow> bytes \<Rightarrow> crypto_error + bytes" where
  "aes_Decrypt A c ciphertext =
    (if length ciphertext < 12 then Inl CipherTooShort
     else case ae_open A (ag_key c) (take 12 ciphertext) (drop 12 ciphertext) of
       None \<Rightarrow> Inl OpenFailed
     | Some plaintext \<Rightarrow> Inr plaintext)"

definition aes_EncryptString :: "aead \<Rightarrow> random \<Rightarrow> AESGCM \<Rightarrow> string \<Rightarrow> crypto_error + string" where
  "aes_EncryptString A rnd c plaintext = (case aes_Encrypt A rnd c (str_bytes plaintext) of
     Inl e \<Rightarrow> Inl e
   | Inr enc \<Rightarrow> Inr (hex_encode enc))"

definition aes_DecryptString :: "aead \<Rightarrow> AESGCM \<Rightarrow> string \<Rightarrow> crypto_error + string" where
  "aes_DecryptString A c ciphertext = (case hex_decode ciphertext of
     None \<Rightarrow> Inl BadHex
   | Some data \<Rightarrow> (case aes_Decrypt A c data of Inl e \<Rightarrow> Inl e | Inr dec \<Rightarrow> Inr (bytes_str dec)))"

lemma aes_round_trip:
  assumes "aead_ok A" "random_ok rnd" "aes_Encrypt A rnd c p = Inr d"
  shows "aes_Decrypt A c d = Inr p" "length d = length p + 28"
  using assms by (auto simp: aes_Encrypt_def aes_Decrypt_def random_ok_def aead_okD split: option.splits)

lemma aes_decrypt_length:
  assumes "aead_ok A" "aes_Decrypt A c d = Inr p"
  shows "length d = length p + 28"
proof -
  from assms(2) have "12 \<le> length d" "ae_open A (ag_key c) (take 12 d) (drop 12 d) = Some p"
    by (auto simp: aes_Decrypt_def split: if_splits option.splits)
  with aead_okD(3) [OF assms(1) this(2)] show ?thesis by simp
qed

lemma aes_string_round_trip:
  assumes "aead_ok A" "random_ok rnd" "aes_EncryptString A rnd c p = Inr s"
  shows "aes_DecryptString A c s = Inr p" "length s = 2 * (length p + 28)"
proof -
  from assms(3) obtain d where d: "aes_Encrypt A rnd c (str_bytes p) = Inr d" "s = hex_encode d"
    by (auto simp: aes_EncryptString_def split: sum.splits)
  from aes_round_trip [OF assms(1,2) d(1)] d(2)
  show "aes_DecryptString A c s = Inr p" "length s = 2 * (length p + 28)"
    by (simp_all add: aes_DecryptString_def)
qed

section \<open>ChaCha20-Poly1305\<close>

text \<open>The same calls over another AEAD, with keys of 32 bytes only.\<close>

record ChaCha20Poly1305 =
  cc_key :: bytes

definition NewChaCha20Poly1305 :: "bytes \<Rightarrow> crypto_error + ChaCha20Poly1305" where
  "NewChaCha20Poly1305 key = (if length key \<noteq> 32 then Inl (BadKeyLength (length key)) else Inr \<lparr>cc_key = key\<rparr>)"

definition NewChaCha20Poly1305FromHex :: "string \<Rightarrow> crypto_error + ChaCha20Poly1305" where
  "NewChaCha20Poly1305FromHex hexKey =
     (case hex_decode hexKey of None \<Rightarrow> Inl BadHex | Some key \<Rightarrow> NewChaCha20Poly1305 key)"

definition cha_Encrypt :: "aead \<Rightarrow> random \<Rightarrow> ChaCha20Poly1305 \<Rightarrow> bytes \<Rightarrow> crypto_error + bytes" where
  "cha_Encrypt A rnd c plaintext = (case rnd 12 of
     None \<Rightarrow> Inl RandFailed
   | Some nonce \<Rightarrow> Inr (nonce @ ae_seal A (cc_key c) nonce plaintext))"

definition cha_Decrypt :: "aead \<Rightarrow> ChaCha20Poly1305 \<Rightarrow> bytes \<Rightarrow> crypto_error + bytes" where
  "cha_Decrypt A c ciphertext =
    (if length ciphertext < 12 then Inl CipherTooShort
     else case ae_open A (cc_key c) (take 12 ciphertext) (drop 12 ciphertext) of
       None \<Rightarrow> Inl OpenFailed
     | Some plaintext \<Rightarrow> Inr plaintext)"

definition cha_EncryptString :: "aead \<Rightarrow> random \<Rightarrow> ChaCha20Poly1305 \<Rightarrow> string \<Rightarrow> crypto_error + string" where
  "cha_EncryptString A rnd c plaintext = (case cha_Encrypt A rnd c (str_bytes plaintext) of
     Inl e \<Rightarrow> Inl e
   | Inr enc \<Rightarrow> Inr (hex_encode enc))"

definition cha_DecryptString :: "aead \<Rightarrow> ChaCha20Poly1305 \<Rightarrow> string \<Rightarrow> crypto_error + string" where
  "cha_DecryptString A c ciphertext = (case hex_decode ciphertext of
     None \<Rightarrow> Inl BadHex
   | Some data \<Rightarrow> (case cha_Decrypt A c data of Inl e \<Rightarrow> Inl e | Inr dec \<Rightarrow> Inr (bytes_str dec)))"

text \<open>Both are ciphers in the sense of the interface \<open>Cipher\<close>: what they encrypt they decrypt.\<close>

locale cipher =
  fixes encrypt :: "random \<Rightarrow> bytes \<Rightarrow> crypto_error + bytes"
    and decrypt :: "bytes \<Rightarrow> crypto_error + bytes"
    and ok :: bool
  assumes dec_enc: "ok \<Longrightarrow> random_ok rnd \<Longrightarrow> encrypt rnd p = Inr d \<Longrightarrow> decrypt d = Inr p"
begin

text \<open>\<open>EncryptCompress\<close> and \<open>DecryptDecompress\<close> over any lossless compression.\<close>

lemma compressed_round_trip:
  assumes "ok" "random_ok rnd" "\<And>p d. shrink p = Inr d \<Longrightarrow> expand d = Inr p"
    and "(case shrink p of Inl e \<Rightarrow> Inl e | Inr d \<Rightarrow> encrypt rnd d) = Inr c"
  shows "(case decrypt c of Inl e \<Rightarrow> Inl e | Inr d \<Rightarrow> expand d) = Inr p"
  using assms by (auto split: sum.splits dest: dec_enc)

end

interpretation aes: cipher "\<lambda>rnd. aes_Encrypt A rnd c" "aes_Decrypt A c" "aead_ok A" for A c
  by unfold_locales (auto intro: aes_round_trip)

interpretation chacha: cipher "\<lambda>rnd. cha_Encrypt A rnd c" "cha_Decrypt A c" "aead_ok A" for A c
  by unfold_locales
    (auto simp: cha_Encrypt_def cha_Decrypt_def random_ok_def aead_okD split: option.splits)

section \<open>Versioned keys\<close>

record KeyManager =
  km_current :: AESGCM
  km_versions :: "(int \<times> AESGCM) list"
  km_currentVer :: int

text \<open>The first version number from \<open>v\<close> on that no old key has.\<close>

function free_version :: "(int \<times> 'a) list \<Rightarrow> int \<Rightarrow> int" where
  "free_version versions v = (if map_of versions v \<noteq> None then free_version versions (v + 1) else v)"
  by auto
termination
proof (relation "measure (\<lambda>(vs, v). length (filter (\<lambda>(w, _). v \<le> w) vs))")
  fix versions :: "(int \<times> 'a) list" and v
  assume "map_of versions v \<noteq> None"
  then have "v \<in> fst ` set versions" by (simp add: map_of_eq_None_iff)
  then show "((versions, v + 1), (versions, v)) \<in> measure (\<lambda>(vs, v). length (filter (\<lambda>(w, _). v \<le> w) vs))"
  proof (induction versions)
    case (Cons x xs)
    have "length (filter (\<lambda>(w, _). v + 1 \<le> w) xs) \<le> length (filter (\<lambda>(w, _). v \<le> w) xs)"
      by (induction xs) auto
    with Cons show ?case by (cases x) auto
  qed simp
qed simp

declare free_version.simps [simp del]

fun old_keys :: "(int \<times> string) list \<Rightarrow> crypto_error + (int \<times> AESGCM) list" where
  "old_keys [] = Inr []"
| "old_keys ((ver, hexKey) # ks) = (case NewAESGCMFromHex hexKey of
     Inl e \<Rightarrow> Inl (BadOldKey ver e)
   | Inr a \<Rightarrow> (case old_keys ks of Inl e \<Rightarrow> Inl e | Inr vs \<Rightarrow> Inr ((ver, a) # vs)))"

text \<open>The map of the old keys is the list of its entries, in the order in which Go iterates over it.\<close>

definition NewKeyManager :: "string \<Rightarrow> (int \<times> string) list \<Rightarrow> crypto_error + KeyManager" where
  "NewKeyManager currentHex oldKeys =
    (if currentHex = [] then Inl EmptyMasterKey
     else case NewAESGCMFromHex currentHex of
       Inl e \<Rightarrow> Inl (BadCurrentKey e)
     | Inr current \<Rightarrow> (case old_keys oldKeys of
         Inl e \<Rightarrow> Inl e
       | Inr versions \<Rightarrow> Inr \<lparr>km_current = current, km_versions = versions, km_currentVer = free_version versions 1\<rparr>))"

definition KeyForVersion :: "KeyManager \<Rightarrow> int \<Rightarrow> crypto_error + AESGCM" where
  "KeyForVersion km ver =
    (if ver = km_currentVer km then Inr (km_current km)
     else case map_of (km_versions km) ver of Some k \<Rightarrow> Inr k | None \<Rightarrow> Inl (NoSuchVersion ver))"

definition parseVersion :: "string \<Rightarrow> crypto_error + int \<times> string" where
  "parseVersion s =
    (if \<not> has_prefix s ''v'' then Inl NoVersionPrefix
     else case split_2 CHR '':'' (drop 1 s) of
       [v, rest] \<Rightarrow> (case atoi v of None \<Rightarrow> Inl BadVersionNumber | Some ver \<Rightarrow> Inr (ver, rest))
     | _ \<Rightarrow> Inl BadVersionFormat)"

definition parseVersionBytes :: "bytes \<Rightarrow> crypto_error + int \<times> bytes" where
  "parseVersionBytes data = (case parseVersion (bytes_str data) of
     Inl e \<Rightarrow> Inl e
   | Inr (ver, rest) \<Rightarrow> (case hex_decode rest of None \<Rightarrow> Inl BadHex | Some decoded \<Rightarrow> Inr (ver, decoded)))"

definition km_EncryptString :: "aead \<Rightarrow> random \<Rightarrow> KeyManager \<Rightarrow> string \<Rightarrow> crypto_error + string" where
  "km_EncryptString A rnd km plaintext = (case aes_EncryptString A rnd (km_current km) plaintext of
     Inl e \<Rightarrow> Inl e
   | Inr enc \<Rightarrow> Inr (''v'' @ fmt_int (km_currentVer km) @ '':'' @ enc))"

definition km_DecryptString :: "aead \<Rightarrow> KeyManager \<Rightarrow> string \<Rightarrow> crypto_error + string" where
  "km_DecryptString A km ciphertext = (case parseVersion ciphertext of
     Inl _ \<Rightarrow> aes_DecryptString A (km_current km) ciphertext
   | Inr (ver, data) \<Rightarrow> (case KeyForVersion km ver of
       Inl _ \<Rightarrow> aes_DecryptString A (km_current km) data
     | Inr aes \<Rightarrow> aes_DecryptString A aes data))"

definition km_Encrypt :: "aead \<Rightarrow> random \<Rightarrow> KeyManager \<Rightarrow> bytes \<Rightarrow> crypto_error + bytes" where
  "km_Encrypt A rnd km plaintext = (case aes_Encrypt A rnd (km_current km) plaintext of
     Inl e \<Rightarrow> Inl e
   | Inr enc \<Rightarrow> Inr (str_bytes (''v'' @ fmt_int (km_currentVer km) @ '':'') @ enc))"

definition km_Decrypt :: "aead \<Rightarrow> KeyManager \<Rightarrow> bytes \<Rightarrow> crypto_error + bytes" where
  "km_Decrypt A km data = (case parseVersionBytes data of
     Inl _ \<Rightarrow> aes_Decrypt A (km_current km) data
   | Inr (ver, payload) \<Rightarrow> (case KeyForVersion km ver of
       Inl _ \<Rightarrow> aes_Decrypt A (km_current km) payload
     | Inr aes \<Rightarrow> aes_Decrypt A aes payload))"

section \<open>Rotating keys\<close>

lemma in_version_range: "1 \<le> free_version vs 1"
proof -
  have "v \<le> free_version vs v" for v
  proof (induction vs v rule: free_version.induct)
    case (1 vs v)
    then show ?case by (cases "map_of vs v = None") (simp_all add: free_version.simps [of vs v])
  qed
  then show ?thesis by simp
qed

lemma free_version_free: "map_of vs (free_version vs v) = None"
proof (induction vs v rule: free_version.induct)
  case (1 vs v)
  then show ?case by (cases "map_of vs v = None") (simp_all add: free_version.simps [of vs v])
qed

lemma free_version_bound: "free_version vs v \<le> v + int (length (filter (\<lambda>(w, _). v \<le> w) vs))"
proof (induction vs v rule: free_version.induct)
  case (1 vs v)
  show ?case
  proof (cases "map_of vs v = None")
    case False
    then have "v \<in> fst ` set vs" by (simp add: map_of_eq_None_iff)
    then have "length (filter (\<lambda>(w, _). v + 1 \<le> w) vs) < length (filter (\<lambda>(w, _). v \<le> w) vs)"
    proof (induction vs)
      case (Cons x xs)
      have "length (filter (\<lambda>(w, _). v + 1 \<le> w) xs) \<le> length (filter (\<lambda>(w, _). v \<le> w) xs)"
        by (induction xs) auto
      with Cons show ?case by (cases x) auto
    qed simp
    with 1 False show ?thesis by (simp add: free_version.simps [of vs v])
  qed (simp add: free_version.simps [of vs v])
qed

lemma old_keys_map:
  "old_keys ks = Inr vs \<Longrightarrow> map_of vs v = (case map_of ks v of None \<Rightarrow> None | Some h \<Rightarrow>
     (case NewAESGCMFromHex h of Inl _ \<Rightarrow> None | Inr a \<Rightarrow> Some a)) \<and> length vs = length ks"
  by (induction ks arbitrary: vs rule: old_keys.induct) (auto split: sum.splits option.splits)

lemma NewKeyManager_Inr:
  assumes "NewKeyManager h old = Inr km"
  shows "NewAESGCMFromHex h = Inr (km_current km)" "old_keys old = Inr (km_versions km)"
    "km_currentVer km = free_version (km_versions km) 1" "1 \<le> km_currentVer km"
    "km_currentVer km \<le> 1 + int (length old)"
proof -
  show "NewAESGCMFromHex h = Inr (km_current km)" and o: "old_keys old = Inr (km_versions km)"
    and v: "km_currentVer km = free_version (km_versions km) 1"
    using assms by (auto simp: NewKeyManager_def split: if_splits sum.splits)
  then show "1 \<le> km_currentVer km" by (simp add: in_version_range)
  have "length (filter (\<lambda>(w, _). 1 \<le> w) (km_versions km)) \<le> length old"
    using old_keys_map [OF o, of 0] length_filter_le [of "\<lambda>(w, _). 1 \<le> w" "km_versions km"] by simp
  with free_version_bound [of "km_versions km" 1] v show "km_currentVer km \<le> 1 + int (length old)" by simp
qed

text \<open>A key keeps its number when it is retired under it.\<close>

lemma retired_key:
  assumes "NewKeyManager h old = Inr km" "NewKeyManager h' ((km_currentVer km, h) # old) = Inr km'"
    and "KeyForVersion km v = Inr a"
  shows "KeyForVersion km' v = Inr a"
proof -
  note N = NewKeyManager_Inr [OF assms(1)] and N' = NewKeyManager_Inr [OF assms(2)]
  have some: "map_of (km_versions km') v = Some a"
  proof (cases "v = km_currentVer km")
    case True
    with assms(3) N(1) old_keys_map [OF N'(2), of v] show ?thesis by (simp add: KeyForVersion_def)
  next
    case False
    with assms(3) have "map_of (km_versions km) v = Some a"
      by (simp add: KeyForVersion_def split: option.splits)
    with False old_keys_map [OF N(2), of v] old_keys_map [OF N'(2), of v] show ?thesis by simp
  qed
  moreover have "v \<noteq> km_currentVer km'"
    using some free_version_free [of "km_versions km'" 1] N'(3) by auto
  ultimately show ?thesis by (simp add: KeyForVersion_def)
qed

text \<open>Rotating through the keys \<open>ks\<close>: each manager knows the former current key under its number.\<close>

fun rotations :: "string \<Rightarrow> (int \<times> string) list \<Rightarrow> string list \<Rightarrow> (crypto_error + KeyManager) list" where
  "rotations h old [] = [NewKeyManager h old]"
| "rotations h old (k # ks) = NewKeyManager h old # (case NewKeyManager h old of
     Inl _ \<Rightarrow> []
   | Inr km \<Rightarrow> rotations k ((km_currentVer km, h) # old) ks)"

lemma rotations_know:
  "rotations h old ks ! j = Inr km' \<Longrightarrow> j < length (rotations h old ks) \<Longrightarrow>
   NewKeyManager h old = Inr km \<Longrightarrow> KeyForVersion km v = Inr a \<Longrightarrow> KeyForVersion km' v = Inr a"
proof (induction ks arbitrary: h old km j)
  case (Cons k ks)
  show ?case
  proof (cases j)
    case (Suc i)
    let ?old = "(km_currentVer km, h) # old"
    have r: "rotations k ?old ks ! i = Inr km'" "i < length (rotations k ?old ks)"
      using Cons.prems(1-3) Suc by simp_all
    obtain km1 where km1: "NewKeyManager k ?old = Inr km1"
    proof (cases "NewKeyManager k ?old")
      case (Inl e)
      with r have "i = 0" by (cases ks) auto
      with r Inl show ?thesis by (cases ks) auto
    qed
    from Cons.IH [OF r km1 retired_key [OF Cons.prems(3) km1 Cons.prems(4)]] show ?thesis .
  qed (use Cons.prems in simp)
qed simp

lemma rotations_suffix:
  "rotations h old ks ! i = Inr km \<Longrightarrow> i < length (rotations h old ks) \<Longrightarrow>
   \<exists>h' old' ks'. drop i (rotations h old ks) = rotations h' old' ks' \<and> NewKeyManager h' old' = Inr km \<and>
     length old' + length ks' = length old + length ks"
proof (induction ks arbitrary: h old i)
  case Nil
  then show ?case by (intro exI [of _ h] exI [of _ old] exI [of _ "[]"]) simp
next
  case (Cons k ks)
  show ?case
  proof (cases i)
    case 0
    with Cons.prems show ?thesis by (intro exI [of _ h] exI [of _ old] exI [of _ "k # ks"]) simp
  next
    case (Suc n)
    then obtain km0 where "NewKeyManager h old = Inr km0"
      using Cons.prems by (cases "NewKeyManager h old") auto
    with Cons.IH [of k "(km_currentVer km0, h) # old" n] Cons.prems Suc show ?thesis by simp
  qed
qed

lemma parse_prefix:
  assumes "1 \<le> v" "in_i64 v"
  shows "parseVersion (''v'' @ fmt_int v @ '':'' @ s) = Inr (v, s)"
proof -
  have "CHR '':'' \<notin> set (fmt_int v)"
    using digits_set [of "nat v"] assms(1) by (auto simp: fmt_int_def)
  then have "split_2 CHR '':'' (fmt_int v @ CHR '':'' # s) = [fmt_int v, s]" by (rule split_2_word)
  with assms show ?thesis by (simp add: parseVersion_def has_prefix_def atoi_fmt_int)
qed

text \<open>\<open>km'\<close> reads what \<open>km\<close> writes.\<close>

definition reads :: "KeyManager \<Rightarrow> KeyManager \<Rightarrow> bool" where
  "reads km' km \<longleftrightarrow> 1 \<le> km_currentVer km \<and> in_i64 (km_currentVer km) \<and>
     KeyForVersion km' (km_currentVer km) = Inr (km_current km)"

lemma reads_decrypt:
  assumes "aead_ok A" "random_ok rnd" "reads km' km" "km_EncryptString A rnd km p = Inr c"
  shows "km_DecryptString A km' c = Inr p" "59 \<le> length c" "c \<noteq> []"
proof -
  obtain enc where enc: "aes_EncryptString A rnd (km_current km) p = Inr enc"
    "c = ''v'' @ fmt_int (km_currentVer km) @ '':'' @ enc"
    using assms(4) by (auto simp: km_EncryptString_def split: sum.splits)
  have "parseVersion c = Inr (km_currentVer km, enc)"
    unfolding enc(2) by (rule parse_prefix) (use assms(3) in \<open>simp_all add: reads_def\<close>)
  with aes_string_round_trip [OF assms(1,2) enc(1)] assms(3)
  show "km_DecryptString A km' c = Inr p" by (simp add: km_DecryptString_def reads_def)
  have "fmt_int (km_currentVer km) \<noteq> []" by (simp add: fmt_int_def)
  then have "1 \<le> length (fmt_int (km_currentVer km))" by (cases "fmt_int (km_currentVer km)") auto
  with aes_string_round_trip(2) [OF assms(1,2) enc(1)] show "59 \<le> length c" "c \<noteq> []"
    by (simp_all add: enc(2))
qed

lemma rotations_reads:
  assumes "int (length old + length ks) < 2 ^ 62" "i \<le> j" "j < length (rotations h old ks)"
    and "rotations h old ks ! i = Inr km" "rotations h old ks ! j = Inr km'"
  shows "reads km' km"
proof -
  obtain h' old' ks' where s: "drop i (rotations h old ks) = rotations h' old' ks'" "NewKeyManager h' old' = Inr km"
    "length old' + length ks' = length old + length ks"
    using rotations_suffix [OF assms(4)] assms(2,3) by auto
  have "KeyForVersion km (km_currentVer km) = Inr (km_current km)" by (simp add: KeyForVersion_def)
  moreover have "rotations h' old' ks' ! (j - i) = Inr km'" "j - i < length (rotations h' old' ks')"
    using assms(2,3,5) unfolding s(1) [symmetric] by auto
  ultimately have "KeyForVersion km' (km_currentVer km) = Inr (km_current km)"
    using rotations_know s(2) by blast
  with NewKeyManager_Inr(4,5) [OF s(2)] s(3) assms(1) show ?thesis by (simp add: reads_def in_i64_def)
qed

text \<open>Rotating keys loses nothing. Start with any key and any old keys and rotate through further keys, each
  time retiring the current key under the version it has: what the manager of any stage encrypts, the
  manager of every later stage decrypts to the same text.\<close>

lemma key_rotation:
  assumes "aead_ok A" "random_ok rnd" "int (length old + length ks) < 2 ^ 62"
    and "i \<le> j" "j < length (rotations h old ks)"
    and "rotations h old ks ! i = Inr km" "rotations h old ks ! j = Inr km'"
    and "km_EncryptString A rnd km p = Inr c"
  shows "km_DecryptString A km' c = Inr p"
  by (rule reads_decrypt(1) [OF assms(1,2) rotations_reads [OF assms(3-7)] assms(8)])

definition demo_key :: "char \<Rightarrow> string" where
  "demo_key c = replicate 32 c"

definition demo_random :: random where
  "demo_random n = Some (replicate n 7)"

lemma demo_random_ok: "random_ok demo_random"
  by (simp add: random_ok_def demo_random_def)

lemma demo_key_valid: "hex_val c = Some n \<Longrightarrow> \<exists>a. NewAESGCMFromHex (demo_key c) = Inr a"
  by (simp add: demo_key_def NewAESGCMFromHex_def NewAESGCM_def numeral_eq_Suc)

lemma key_rotation_witness:
  "\<exists>km km' c. rotations (demo_key CHR ''a'') [(1, demo_key CHR ''0'')] [demo_key CHR ''b''] = [Inr km, Inr km'] \<and>
     km_currentVer km = 2 \<and> km_currentVer km' = 3 \<and>
     km_EncryptString demo_aead demo_random km ''hello'' = Inr c \<and> km_DecryptString demo_aead km' c = Inr ''hello''"
proof -
  let ?old = "[(1, demo_key CHR ''0'')]" and ?ks = "[demo_key CHR ''b'']"
  obtain a0 a b where keys: "NewAESGCMFromHex (demo_key CHR ''0'') = Inr a0" "NewAESGCMFromHex (demo_key CHR ''a'') = Inr a"
    "NewAESGCMFromHex (demo_key CHR ''b'') = Inr b"
    using demo_key_valid [of "CHR ''0''"] demo_key_valid [of "CHR ''a''"] demo_key_valid [of "CHR ''b''"]
    by (auto simp: hex_val_def Let_def)
  have free: "free_version [(1, a0)] 1 = 2" "free_version [(2, a), (1, a0)] 1 = 3"
    by (simp_all add: free_version.simps)
  let ?km = "\<lparr>km_current = a, km_versions = [(1, a0)], km_currentVer = 2\<rparr>"
  let ?km' = "\<lparr>km_current = b, km_versions = [(2, a), (1, a0)], km_currentVer = 3\<rparr>"
  have ne: "demo_key c \<noteq> []" for c by (simp add: demo_key_def)
  have rot: "rotations (demo_key CHR ''a'') ?old ?ks = [Inr ?km, Inr ?km']"
    by (simp add: NewKeyManager_def keys free ne)
  obtain c where c: "km_EncryptString demo_aead demo_random ?km ''hello'' = Inr c"
    by (simp add: km_EncryptString_def aes_EncryptString_def aes_Encrypt_def demo_random_def)
  have "km_DecryptString demo_aead ?km' c = Inr ''hello''"
    using key_rotation [OF demo_aead_ok demo_random_ok _ _ _ _ _ c, of ?old ?ks 0 1 "demo_key CHR ''a''" ?km']
    unfolding rot by simp
  with c show ?thesis unfolding rot by auto
qed

text \<open>The key manager never decrypts bytes that it encrypted. \<open>Encrypt\<close> appends the raw ciphertext to the
  version, \<open>Decrypt\<close> reads it as hexadecimal digits (and tries the whole message as a ciphertext when it
  is not): for no plaintext, key or nonce does the message decrypt to the plaintext.\<close>

lemma bytes_never_round_trip:
  assumes "aead_ok A" "random_ok rnd" "NewKeyManager h old = Inr km" "int (length old) < 2 ^ 62"
    and "km_Encrypt A rnd km p = Inr c"
  shows "km_Decrypt A km c \<noteq> Inr p"
proof
  assume dec: "km_Decrypt A km c = Inr p"
  let ?v = "''v'' @ fmt_int (km_currentVer km) @ '':''"
  obtain enc where enc: "aes_Encrypt A rnd (km_current km) p = Inr enc" "c = str_bytes ?v @ enc"
    using assms(5) by (auto simp: km_Encrypt_def split: sum.splits)
  have len: "length enc = length p + 28" by (rule aes_round_trip(2) [OF assms(1,2) enc(1)])
  have v: "1 \<le> km_currentVer km" "in_i64 (km_currentVer km)"
    using NewKeyManager_Inr(4,5) [OF assms(3)] assms(4) by (simp_all add: in_i64_def)
  have "bytes_str c = ''v'' @ fmt_int (km_currentVer km) @ '':'' @ bytes_str enc"
    unfolding enc(2) by simp
  with parse_prefix [OF v] have parse: "parseVersion (bytes_str c) = Inr (km_currentVer km, bytes_str enc)" by simp
  show False
  proof (cases "hex_decode (bytes_str enc)")
    case None
    then have "aes_Decrypt A (km_current km) c = Inr p"
      using dec parse by (simp add: km_Decrypt_def parseVersionBytes_def)
    from aes_decrypt_length [OF assms(1) this] len show False by (simp add: enc(2))
  next
    case (Some d)
    have "\<exists>a. aes_Decrypt A a d = Inr p"
      using dec parse Some by (auto simp: km_Decrypt_def parseVersionBytes_def split: sum.splits)
    then obtain a where "aes_Decrypt A a d = Inr p" by blast
    from aes_decrypt_length [OF assms(1) this] length_hex_decode [OF Some] len show False by simp
  qed
qed

lemma bytes_never_round_trip_witness:
  "\<exists>km c. NewKeyManager (demo_key CHR ''a'') [] = Inr km \<and> km_Encrypt demo_aead demo_random km [1, 2, 3] = Inr c \<and>
     km_Decrypt demo_aead km c \<noteq> Inr [1, 2, 3]"
proof -
  obtain a where a: "NewAESGCMFromHex (demo_key CHR ''a'') = Inr a"
    using demo_key_valid [of "CHR ''a''"] by (auto simp: hex_val_def Let_def)
  then obtain km where km: "NewKeyManager (demo_key CHR ''a'') [] = Inr km"
    by (simp add: NewKeyManager_def demo_key_def)
  obtain c where c: "km_Encrypt demo_aead demo_random km [1, 2, 3] = Inr c"
    by (simp add: km_Encrypt_def aes_Encrypt_def demo_random_def)
  from bytes_never_round_trip [OF demo_aead_ok demo_random_ok km _ c] km c show ?thesis by auto
qed

end
