(* ===== verification/FieldCrypto.thy ===== *)
theory FieldCrypto
  imports Ciphers
begin

text \<open>
  src/internal/services/crypto/encrypt.go: encrypting the tagged fields of a struct in place, and the
  rows of a table under the current key (\<open>ReEncryptRows\<close> of migrate.go).

  A struct is the list of its fields in declaration order; a field has its \<open>encrypt\<close> tag, whether
  reflection may set it, and a value of one of the kinds that the code distinguishes. Encrypting the
  field at position \<open>i\<close> draws from \<open>rnd i\<close>. A method that fails has already changed the fields before
  the failing one, so the new fields are returned beside the error.
\<close>

section \<open>Structs\<close>

datatype field_value =
    FString string
  | FBytes bytes
  | FNilPtr
  | FPtrString string
  | FPtrBytes bytes
  | FOther nat

record field =
  fd_Name :: string
  fd_Tag :: string
  fd_CanSet :: bool
  fd_Value :: field_value

definition isEncrypted :: "string \<Rightarrow> bool" where
  "isEncrypted s =
    (if length s < 3 then False
     else (s ! 0 = CHR ''v'' \<and> (of_char (s ! 1) :: nat) \<ge> 48 \<and> (of_char (s ! 1) :: nat) \<le> 57 \<and> s ! 2 = CHR '':'')
       \<or> length s > 32)"

definition isEncryptedBytes :: "bytes \<Rightarrow> bool" where
  "isEncryptedBytes data \<longleftrightarrow> length data > 12"

definition skipped :: "field \<Rightarrow> bool" where
  "skipped f \<longleftrightarrow> fd_Tag f = [] \<or> fd_Tag f = ''false'' \<or> \<not> fd_CanSet f"

definition encrypt_value :: "aead \<Rightarrow> random \<Rightarrow> KeyManager \<Rightarrow> field_value \<Rightarrow> crypto_error + field_value" where
  "encrypt_value A rnd km v = (case v of
     FString s \<Rightarrow> if s \<noteq> [] then (case km_EncryptString A rnd km s of Inl e \<Rightarrow> Inl e | Inr enc \<Rightarrow> Inr (FString enc)) else Inr v
   | FBytes b \<Rightarrow> if b \<noteq> [] then (case km_Encrypt A rnd km b of Inl e \<Rightarrow> Inl e | Inr enc \<Rightarrow> Inr (FBytes enc)) else Inr v
   | FPtrString s \<Rightarrow> if s \<noteq> [] then (case km_EncryptString A rnd km s of Inl e \<Rightarrow> Inl e | Inr enc \<Rightarrow> Inr (FPtrString enc)) else Inr v
   | FPtrBytes b \<Rightarrow> (case km_Encrypt A rnd km b of Inl e \<Rightarrow> Inl e | Inr enc \<Rightarrow> Inr (FPtrBytes enc))
   | _ \<Rightarrow> Inr v)"

text \<open>A pointer to bytes has no branch in \<open>decryptStruct\<close>.\<close>

definition decrypt_value :: "aead \<Rightarrow> KeyManager \<Rightarrow> field_value \<Rightarrow> crypto_error + field_value" where
  "decrypt_value A km v = (case v of
     FString s \<Rightarrow> if s \<noteq> [] \<and> isEncrypted s then (case km_DecryptString A km s of Inl e \<Rightarrow> Inl e | Inr dec \<Rightarrow> Inr (FString dec)) else Inr v
   | FBytes b \<Rightarrow> if b \<noteq> [] \<and> isEncryptedBytes b then (case km_Decrypt A km b of Inl e \<Rightarrow> Inl e | Inr dec \<Rightarrow> Inr (FBytes dec)) else Inr v
   | FPtrString s \<Rightarrow> if s \<noteq> [] \<and> isEncrypted s then (case km_DecryptString A km s of Inl e \<Rightarrow> Inl e | Inr dec \<Rightarrow> Inr (FPtrString dec)) else Inr v
   | _ \<Rightarrow> Inr v)"

fun encryptStruct :: "aead \<Rightarrow> (nat \<Rightarrow> random) \<Rightarrow> KeyManager \<Rightarrow> field list \<Rightarrow> crypto_error option \<times> field list" where
  "encryptStruct A rnd km [] = (None, [])"
| "encryptStruct A rnd km (f # fs) =
    (if skipped f then (case encryptStruct A (rnd \<circ> Suc) km fs of (e, fs') \<Rightarrow> (e, f # fs'))
     else case encrypt_value A (rnd 0) km (fd_Value f) of
       Inl e \<Rightarrow> (Some e, f # fs)
     | Inr v \<Rightarrow> (case encryptStruct A (rnd \<circ> Suc) km fs of (e, fs') \<Rightarrow> (e, f\<lparr>fd_Value := v\<rparr> # fs')))"

fun decryptStruct :: "aead \<Rightarrow> KeyManager \<Rightarrow> field list \<Rightarrow> crypto_error option \<times> field list" where
  "decryptStruct A km [] = (None, [])"
| "decryptStruct A km (f # fs) =
    (if skipped f then (case decryptStruct A km fs of (e, fs') \<Rightarrow> (e, f # fs'))
     else case decrypt_value A km (fd_Value f) of
       Inl e \<Rightarrow> (Some e, f # fs)
     | Inr v \<Rightarrow> (case decryptStruct A km fs of (e, fs') \<Rightarrow> (e, f\<lparr>fd_Value := v\<rparr> # fs')))"

section \<open>Rows\<close>

text \<open>
  A row of the table: its identifier, whether it is deleted, and its text columns. The loop pages
  through the rows that are not deleted; a cell that is no text, is empty, does not look encrypted or
  does not decrypt is left alone. The \<open>n\<close>-th row of the table draws from \<open>rnd n field\<close>.
\<close>

record text_row =
  tr_ID :: nat
  tr_Deleted :: bool
  tr_Cells :: "(string \<times> string) list"

definition reencrypt_cell :: "aead \<Rightarrow> random \<Rightarrow> KeyManager \<Rightarrow> string \<Rightarrow> string" where
  "reencrypt_cell A rnd km str =
    (if str = [] \<or> \<not> isEncrypted str then str
     else case km_DecryptString A km str of
       Inl _ \<Rightarrow> str
     | Inr decrypted \<Rightarrow> (case km_EncryptString A rnd km decrypted of Inl _ \<Rightarrow> str | Inr enc \<Rightarrow> enc))"

definition reencrypt_row :: "aead \<Rightarrow> (string \<Rightarrow> random) \<Rightarrow> KeyManager \<Rightarrow> string list \<Rightarrow> text_row \<Rightarrow> text_row" where
  "reencrypt_row A rnd km fieldNames row = row\<lparr>tr_Cells := map (\<lambda>(f, v).
     (f, if f \<in> set fieldNames then reencrypt_cell A (rnd f) km v else v)) (tr_Cells row)\<rparr>"

definition visible_rows :: "text_row list \<Rightarrow> text_row list" where
  "visible_rows rows = filter (\<lambda>r. \<not> tr_Deleted r) rows"

text \<open>One batch: \<open>UPDATE ... WHERE id = ?\<close> for every row that the query returned.\<close>

definition reencrypt_batch :: "aead \<Rightarrow> (nat \<Rightarrow> string \<Rightarrow> random) \<Rightarrow> KeyManager \<Rightarrow> string list \<Rightarrow> text_row list \<Rightarrow> text_row list \<Rightarrow> text_row list" where
  "reencrypt_batch A rnd km fieldNames batch rows = map (\<lambda>r.
     case find (\<lambda>b. tr_ID b = tr_ID r) batch of
       None \<Rightarrow> r
     | Some b \<Rightarrow> r\<lparr>tr_Cells := tr_Cells (reencrypt_row A (rnd (tr_ID b)) km fieldNames b)\<rparr>) rows"

lemma length_visible_batch: "length (visible_rows (reencrypt_batch A rnd km fs batch rows)) = length (visible_rows rows)"
  unfolding visible_rows_def reencrypt_batch_def by (induction rows) (auto split: option.split)

function reencrypt_from :: "aead \<Rightarrow> (nat \<Rightarrow> string \<Rightarrow> random) \<Rightarrow> KeyManager \<Rightarrow> string list \<Rightarrow> nat \<Rightarrow> nat \<Rightarrow> text_row list \<Rightarrow> nat \<times> text_row list" where
  "reencrypt_from A rnd km fieldNames batchSize offset rows =
    (let batch = take (Suc batchSize) (drop offset (visible_rows rows))
     in if batch = [] then (0, rows)
        else case reencrypt_from A rnd km fieldNames batchSize (offset + Suc batchSize)
                (reencrypt_batch A rnd km fieldNames batch rows) of
          (n, rows') \<Rightarrow> (n + length batch, rows'))"
  by auto

termination
proof (relation "measure (\<lambda>(A, rnd, km, fs, b, offset, rows). length (visible_rows rows) - offset)")
  fix A rnd km fs b offset rows and batch :: "text_row list"
  assume "batch = take (Suc b) (drop offset (visible_rows rows))" "batch \<noteq> []"
  then have "offset < length (visible_rows rows)" by auto
  then show "((A, rnd, km, fs, b, offset + Suc b, reencrypt_batch A rnd km fs batch rows), A, rnd, km, fs, b, offset, rows)
      \<in> measure (\<lambda>(A, rnd, km, fs, b, offset, rows). length (visible_rows rows) - offset)"
    by (simp add: length_visible_batch)
qed simp

declare reencrypt_from.simps [simp del]

text \<open>The batch size is \<open>batchSize\<close>, or 100 when it is not positive.\<close>

definition ReEncryptRows :: "aead \<Rightarrow> (nat \<Rightarrow> string \<Rightarrow> random) \<Rightarrow> KeyManager \<Rightarrow> string list \<Rightarrow> int \<Rightarrow> text_row list \<Rightarrow> nat \<times> text_row list" where
  "ReEncryptRows A rnd km fieldNames batchSize rows =
     reencrypt_from A rnd km fieldNames (nat ((if batchSize \<le> 0 then 100 else batchSize) - 1)) 0 rows"

section \<open>Encrypted structs\<close>

text \<open>The kinds of fields that survive: texts, pointers to texts, and what is not encrypted.\<close>

definition text_field :: "field \<Rightarrow> bool" where
  "text_field f \<longleftrightarrow> skipped f \<or> (case fd_Value f of FBytes _ \<Rightarrow> False | FPtrBytes _ \<Rightarrow> False | _ \<Rightarrow> True)"

lemma long_isEncrypted: "59 \<le> length s \<Longrightarrow> isEncrypted s"
  by (simp add: isEncrypted_def)

lemma decrypt_encrypt_value:
  assumes "aead_ok A" "random_ok rnd" "reads km' km" "encrypt_value A rnd km v = Inr v'"
    and "case v of FBytes _ \<Rightarrow> False | FPtrBytes _ \<Rightarrow> False | _ \<Rightarrow> True"
  shows "decrypt_value A km' v' = Inr v"
proof -
  have "km_EncryptString A rnd km p \<noteq> Inr []" for p
    using reads_decrypt(3) [OF assms(1-3)] by auto
  with assms(4,5) reads_decrypt(1,2) [OF assms(1-3)] show ?thesis
    by (auto simp: encrypt_value_def decrypt_value_def long_isEncrypted split: field_value.splits if_splits sum.splits)
qed

lemma decrypt_encrypt_struct:
  assumes "aead_ok A" "reads km' km"
  shows "(\<And>n. random_ok (rnd n)) \<Longrightarrow> list_all text_field fs \<Longrightarrow> encryptStruct A rnd km fs = (None, fs') \<Longrightarrow>
    decryptStruct A km' fs' = (None, fs)"
proof (induction fs arbitrary: rnd fs')
  case (Cons f fs)
  show ?case
  proof (cases "skipped f")
    case True
    with Cons.prems(3) obtain gs where gs: "encryptStruct A (rnd \<circ> Suc) km fs = (None, gs)" "fs' = f # gs"
      by (auto split: prod.splits)
    have "decryptStruct A km' gs = (None, fs)"
      by (rule Cons.IH [OF _ _ gs(1)]) (use Cons.prems in simp_all)
    with True gs(2) show ?thesis by simp
  next
    case False
    with Cons.prems(3) obtain v gs where gs: "encrypt_value A (rnd 0) km (fd_Value f) = Inr v"
      "encryptStruct A (rnd \<circ> Suc) km fs = (None, gs)" "fs' = f\<lparr>fd_Value := v\<rparr> # gs"
      by (auto split: prod.splits sum.splits)
    have "decrypt_value A km' v = Inr (fd_Value f)"
      by (rule decrypt_encrypt_value [OF assms(1) Cons.prems(1) assms(2) gs(1)])
        (use Cons.prems(2) False in \<open>auto simp: text_field_def split: field_value.splits\<close>)
    moreover have "decryptStruct A km' gs = (None, fs)"
      by (rule Cons.IH [OF _ _ gs(2)]) (use Cons.prems in simp_all)
    ultimately show ?thesis using False gs(3) by (simp add: skipped_def)
  qed
qed simp

text \<open>Three ways in which a struct does not survive.\<close>

lemma plain_text_looks_encrypted:
  assumes "length s > 32" "\<not> has_prefix s ''v''" "hex_decode s = None"
  shows "decryptStruct A km [\<lparr>fd_Name = n, fd_Tag = ''true'', fd_CanSet = True, fd_Value = FString s\<rparr>] =
    (Some BadHex, [\<lparr>fd_Name = n, fd_Tag = ''true'', fd_CanSet = True, fd_Value = FString s\<rparr>])"
  using assms by (auto simp: skipped_def decrypt_value_def isEncrypted_def km_DecryptString_def parseVersion_def
      aes_DecryptString_def)

lemma byte_pointers_stay_encrypted:
  "decrypt_value A km (FPtrBytes b) = Inr (FPtrBytes b)"
  by (simp add: decrypt_value_def)

text \<open>C25: Structs survive the rotation of keys. If every field that is encrypted is a text or a pointer to a text,
  what the manager of any stage of a rotation encrypts in place, the manager of every later stage
  decrypts in place to exactly the struct it was, every field included.\<close>

theorem struct_survives_rotation:
  assumes "aead_ok A" "\<And>n. random_ok (rnd n)" "int (length old + length ks) < 2 ^ 62"
    and "i \<le> j" "j < length (rotations h old ks)"
    and "rotations h old ks ! i = Inr km" "rotations h old ks ! j = Inr km'"
    and "list_all text_field fs" "encryptStruct A rnd km fs = (None, fs')"
  shows "decryptStruct A km' fs' = (None, fs)"
  by (rule decrypt_encrypt_struct [OF assms(1) rotations_reads [OF assms(3-7)] assms(2,8,9)])

definition demo_struct :: "field list" where
  "demo_struct = [\<lparr>fd_Name = ''ID'', fd_Tag = [], fd_CanSet = True, fd_Value = FOther 7\<rparr>,
     \<lparr>fd_Name = ''Phone'', fd_Tag = ''true'', fd_CanSet = True, fd_Value = FString ''555''\<rparr>,
     \<lparr>fd_Name = ''Note'', fd_Tag = ''true'', fd_CanSet = True, fd_Value = FPtrString ''secret''\<rparr>,
     \<lparr>fd_Name = ''Mail'', fd_Tag = ''true'', fd_CanSet = True, fd_Value = FNilPtr\<rparr>]"

lemma struct_survives_rotation_witness:
  "\<exists>km km' fs'. rotations (demo_key CHR ''a'') [] [demo_key CHR ''b''] = [Inr km, Inr km'] \<and>
     encryptStruct demo_aead (\<lambda>_. demo_random) km demo_struct = (None, fs') \<and> fs' \<noteq> demo_struct \<and>
     decryptStruct demo_aead km' fs' = (None, demo_struct)"
proof -
  let ?ks = "[demo_key CHR ''b'']"
  obtain a b where keys: "NewAESGCMFromHex (demo_key CHR ''a'') = Inr a" "NewAESGCMFromHex (demo_key CHR ''b'') = Inr b"
    using demo_key_valid [of "CHR ''a''"] demo_key_valid [of "CHR ''b''"] by (auto simp: hex_val_def Let_def)
  let ?km = "\<lparr>km_current = a, km_versions = [], km_currentVer = 1\<rparr>"
  let ?km' = "\<lparr>km_current = b, km_versions = [(1, a)], km_currentVer = 2\<rparr>"
  have rot: "rotations (demo_key CHR ''a'') [] ?ks = [Inr ?km, Inr ?km']"
    by (simp add: NewKeyManager_def keys free_version.simps demo_key_def [of "CHR ''a''"] demo_key_def [of "CHR ''b''"]
        keys [unfolded demo_key_def])
  have enc: "\<exists>c. km_EncryptString demo_aead demo_random ?km p = Inr c" for p
    by (simp add: km_EncryptString_def aes_EncryptString_def aes_Encrypt_def demo_random_def)
  obtain c d where cd: "km_EncryptString demo_aead demo_random ?km ''555'' = Inr c"
    "km_EncryptString demo_aead demo_random ?km ''secret'' = Inr d"
    using enc by blast
  have "reads ?km' ?km" by (simp add: reads_def KeyForVersion_def in_i64_def)
  with reads_decrypt(2) [OF demo_aead_ok demo_random_ok _ cd(1)] have "c \<noteq> ''555''" by fastforce
  then obtain fs' where fs': "encryptStruct demo_aead (\<lambda>_. demo_random) ?km demo_struct = (None, fs')" "fs' \<noteq> demo_struct"
    using cd by (simp add: demo_struct_def skipped_def encrypt_value_def)
  have "list_all text_field demo_struct" by (simp add: demo_struct_def text_field_def)
  from struct_survives_rotation [OF demo_aead_ok demo_random_ok _ _ _ _ _ this fs'(1), of "[]" ?ks 0 1 "demo_key CHR ''a''" ?km']
  have "decryptStruct demo_aead ?km' fs' = (None, demo_struct)" unfolding rot by simp
  with fs' show ?thesis unfolding rot by auto
qed

section \<open>Re-encrypting a table\<close>

definition reencrypt_ids :: "aead \<Rightarrow> (nat \<Rightarrow> string \<Rightarrow> random) \<Rightarrow> KeyManager \<Rightarrow> string list \<Rightarrow> nat set \<Rightarrow> text_row list \<Rightarrow> text_row list" where
  "reencrypt_ids A rnd km fs ids rows = map (\<lambda>r. if tr_ID r \<in> ids then reencrypt_row A (rnd (tr_ID r)) km fs r else r) rows"

lemma reencrypt_row_ID [simp]: "tr_ID (reencrypt_row A rnd km fs r) = tr_ID r"
  "tr_Deleted (reencrypt_row A rnd km fs r) = tr_Deleted r"
  by (simp_all add: reencrypt_row_def)

lemma reencrypt_ids_IDs [simp]: "map tr_ID (reencrypt_ids A rnd km fs ids rows) = map tr_ID rows"
  by (simp add: reencrypt_ids_def)

lemma visible_reencrypt_ids:
  "visible_rows (reencrypt_ids A rnd km fs ids rows) = reencrypt_ids A rnd km fs ids (visible_rows rows)"
  unfolding visible_rows_def reencrypt_ids_def by (induction rows) auto

lemma reencrypt_batch_ids:
  assumes "distinct (map tr_ID rows)" "set batch \<subseteq> set rows"
  shows "reencrypt_batch A rnd km fs batch rows = reencrypt_ids A rnd km fs (tr_ID ` set batch) rows"
  unfolding reencrypt_batch_def reencrypt_ids_def
proof (rule map_cong [OF refl])
  fix r assume r: "r \<in> set rows"
  have same: "b = r" if "b \<in> set batch" "tr_ID b = tr_ID r" for b
    using assms that r by (auto simp: distinct_map inj_on_def)
  show "(case find (\<lambda>b. tr_ID b = tr_ID r) batch of None \<Rightarrow> r
      | Some b \<Rightarrow> r\<lparr>tr_Cells := tr_Cells (reencrypt_row A (rnd (tr_ID b)) km fs b)\<rparr>) =
    (if tr_ID r \<in> tr_ID ` set batch then reencrypt_row A (rnd (tr_ID r)) km fs r else r)"
  proof (cases "find (\<lambda>b. tr_ID b = tr_ID r) batch")
    case None
    then have "tr_ID r \<notin> tr_ID ` set batch" by (auto simp: find_None_iff)
    with None show ?thesis by simp
  next
    case (Some b)
    then have b: "b \<in> set batch" "tr_ID b = tr_ID r" by (auto dest: find_SomeD)
    with same Some show ?thesis by (auto simp: reencrypt_row_def)
  qed
qed

lemma reencrypt_ids_twice:
  "I \<inter> J = {} \<Longrightarrow> reencrypt_ids A rnd km fs J (reencrypt_ids A rnd km fs I rows) = reencrypt_ids A rnd km fs (I \<union> J) rows"
  by (auto simp: reencrypt_ids_def)

lemma reencrypt_from_ids:
  "distinct (map tr_ID rows) \<Longrightarrow> reencrypt_from A rnd km fs b offset rows =
    (length (drop offset (visible_rows rows)), reencrypt_ids A rnd km fs (tr_ID ` set (drop offset (visible_rows rows))) rows)"
proof (induction A rnd km fs b offset rows rule: reencrypt_from.induct)
  case (1 A rnd km fs b offset rows)
  let ?vis = "visible_rows rows"
  let ?batch = "take (Suc b) (drop offset ?vis)" and ?rest = "drop (offset + Suc b) ?vis"
  show ?case
  proof (cases "?batch = []")
    case True
    then have "drop offset ?vis = []" by simp
    with True show ?thesis
      by (simp add: reencrypt_from.simps [of A rnd km fs b offset rows] reencrypt_ids_def)
  next
    case False
    let ?rows = "reencrypt_ids A rnd km fs (tr_ID ` set ?batch) rows"
    have "set ?batch \<subseteq> set rows"
      unfolding visible_rows_def by (meson filter_is_subset order_trans set_drop_subset set_take_subset)
    with 1(2) have batch: "reencrypt_batch A rnd km fs ?batch rows = ?rows" by (rule reencrypt_batch_ids)
    have rest: "drop (offset + Suc b) (visible_rows ?rows) = reencrypt_ids A rnd km fs (tr_ID ` set ?batch) ?rest"
      unfolding visible_reencrypt_ids by (simp add: reencrypt_ids_def drop_map)
    have ids: "tr_ID ` set (drop (offset + Suc b) (visible_rows ?rows)) = tr_ID ` set ?rest"
      unfolding rest by (metis reencrypt_ids_IDs list.set_map)
    have split: "drop offset ?vis = ?batch @ ?rest"
      by (metis append_take_drop_id drop_drop add.commute)
    have "distinct (map tr_ID ?vis)" using 1(2) by (simp add: visible_rows_def distinct_map_filter)
    then have "distinct (map tr_ID (drop offset ?vis))" by (simp add: distinct_drop drop_map [symmetric])
    then have "distinct (map tr_ID (?batch @ ?rest))" by (simp only: split [symmetric])
    then have disj: "tr_ID ` set ?batch \<inter> tr_ID ` set ?rest = {}"
      unfolding map_append distinct_append by (metis list.set_map)
    have union: "tr_ID ` set ?batch \<union> tr_ID ` set ?rest = tr_ID ` set (drop offset ?vis)"
      by (simp only: image_Un [symmetric] set_append [symmetric] split [symmetric])
    have "reencrypt_from A rnd km fs b (offset + Suc b) ?rows =
        (length ?rest, reencrypt_ids A rnd km fs (tr_ID ` set ?rest) ?rows)"
      using 1(1) [OF refl False] 1(2) unfolding batch ids
      by (simp add: visible_reencrypt_ids) (simp add: reencrypt_ids_def)
    then have "reencrypt_from A rnd km fs b offset rows =
        (length ?rest + length ?batch, reencrypt_ids A rnd km fs (tr_ID ` set ?rest) ?rows)"
      unfolding reencrypt_from.simps [of A rnd km fs b offset rows] Let_def batch using False by simp
    also have "reencrypt_ids A rnd km fs (tr_ID ` set ?rest) ?rows = reencrypt_ids A rnd km fs (tr_ID ` set (drop offset ?vis)) rows"
      unfolding reencrypt_ids_twice [OF disj] union ..
    also have "length ?rest + length ?batch = length (drop offset ?vis)"
      using split by (metis length_append add.commute)
    finally show ?thesis .
  qed
qed

lemma ReEncryptRows_once:
  assumes "distinct (map tr_ID rows)"
  shows "ReEncryptRows A rnd km fs batchSize rows = (length (visible_rows rows),
    map (\<lambda>r. if tr_Deleted r then r else reencrypt_row A (rnd (tr_ID r)) km fs r) rows)"
proof -
  have "tr_ID r \<in> tr_ID ` set (visible_rows rows) \<longleftrightarrow> \<not> tr_Deleted r" if "r \<in> set rows" for r
    using assms that by (auto simp: visible_rows_def distinct_map inj_on_def)
  then have "reencrypt_ids A rnd km fs (tr_ID ` set (visible_rows rows)) rows =
      map (\<lambda>r. if tr_Deleted r then r else reencrypt_row A (rnd (tr_ID r)) km fs r) rows"
    unfolding reencrypt_ids_def by (intro map_cong) auto
  with reencrypt_from_ids [OF assms] show ?thesis by (simp add: ReEncryptRows_def)
qed

lemma reencrypt_cell_of:
  assumes "aead_ok A" "random_ok rnd" "random_ok rnd'" "reads km' km" "km_EncryptString A rnd km p = Inr c"
    and "km_EncryptString A rnd' km' p = Inr c'"
  shows "reencrypt_cell A rnd' km' c = c'"
  using reads_decrypt [OF assms(1,2,4,5)] assms(6) by (simp add: reencrypt_cell_def long_isEncrypted)

text \<open>Re-encrypting a table after a rotation. Whatever the batch size, \<open>ReEncryptRows\<close> visits every row that
  is not deleted exactly once, counts it, and leaves the deleted ones; and a cell that the manager of an
  earlier stage had encrypted becomes the encryption of the same text under the current key.\<close>

lemma reencrypt_table:
  assumes "aead_ok A" "random_ok rnd0" "\<And>n f. random_ok (rnd n f)" "int (length old + length ks) < 2 ^ 62"
    and "i \<le> j" "j < length (rotations h old ks)"
    and "rotations h old ks ! i = Inr km" "rotations h old ks ! j = Inr km'"
    and "distinct (map tr_ID rows)" "km_EncryptString A rnd0 km p = Inr c"
    and "km_EncryptString A (rnd n f) km' p = Inr c'"
  shows "ReEncryptRows A rnd km' fs batchSize rows = (length (visible_rows rows),
      map (\<lambda>r. if tr_Deleted r then r else reencrypt_row A (rnd (tr_ID r)) km' fs r) rows) \<and>
    reencrypt_cell A (rnd n f) km' c = c'"
  using ReEncryptRows_once [OF assms(9)]
    reencrypt_cell_of [OF assms(1,2,3) rotations_reads [OF assms(4-8)] assms(10,11)] by blast

lemma reencrypt_table_witness:
  "\<exists>km km' c c'. rotations (demo_key CHR ''a'') [] [demo_key CHR ''b''] = [Inr km, Inr km'] \<and>
     km_EncryptString demo_aead demo_random km ''hi'' = Inr c \<and> km_EncryptString demo_aead demo_random km' ''hi'' = Inr c' \<and>
     ReEncryptRows demo_aead (\<lambda>_ _. demo_random) km' [''phone''] 1
       [\<lparr>tr_ID = 1, tr_Deleted = True, tr_Cells = [(''phone'', c)]\<rparr>, \<lparr>tr_ID = 2, tr_Deleted = False, tr_Cells = [(''phone'', c)]\<rparr>] =
     (1, [\<lparr>tr_ID = 1, tr_Deleted = True, tr_Cells = [(''phone'', c)]\<rparr>, \<lparr>tr_ID = 2, tr_Deleted = False, tr_Cells = [(''phone'', c')]\<rparr>])"
proof -
  let ?ks = "[demo_key CHR ''b'']"
  obtain a b where keys: "NewAESGCMFromHex (demo_key CHR ''a'') = Inr a" "NewAESGCMFromHex (demo_key CHR ''b'') = Inr b"
    using demo_key_valid [of "CHR ''a''"] demo_key_valid [of "CHR ''b''"] by (auto simp: hex_val_def Let_def)
  let ?km = "\<lparr>km_current = a, km_versions = [], km_currentVer = 1\<rparr>"
  let ?km' = "\<lparr>km_current = b, km_versions = [(1, a)], km_currentVer = 2\<rparr>"
  have rot: "rotations (demo_key CHR ''a'') [] ?ks = [Inr ?km, Inr ?km']"
    by (simp add: NewKeyManager_def keys free_version.simps demo_key_def [of "CHR ''a''"] demo_key_def [of "CHR ''b''"]
        keys [unfolded demo_key_def])
  have enc: "\<exists>c. km_EncryptString demo_aead demo_random km p = Inr c" for km p
    by (simp add: km_EncryptString_def aes_EncryptString_def aes_Encrypt_def demo_random_def)
  obtain c c' where c: "km_EncryptString demo_aead demo_random ?km ''hi'' = Inr c"
    "km_EncryptString demo_aead demo_random ?km' ''hi'' = Inr c'"
    using enc by blast
  let ?rows = "[\<lparr>tr_ID = 1, tr_Deleted = True, tr_Cells = [(''phone'', c)]\<rparr>, \<lparr>tr_ID = 2, tr_Deleted = False, tr_Cells = [(''phone'', c)]\<rparr>]"
  have "distinct (map tr_ID ?rows)" by simp
  from reencrypt_table [OF demo_aead_ok demo_random_ok, where rnd = "\<lambda>_ _. demo_random", OF demo_random_ok _ _ _ _ _ this c,
      of "[]" ?ks 0 1 "demo_key CHR ''a''" "[''phone'']" 1]
  have "ReEncryptRows demo_aead (\<lambda>_ _. demo_random) ?km' [''phone''] 1 ?rows = (length (visible_rows ?rows),
      map (\<lambda>r. if tr_Deleted r then r else reencrypt_row demo_aead (\<lambda>_. demo_random) ?km' [''phone''] r) ?rows)"
    and "reencrypt_cell demo_aead demo_random ?km' c = c'"
    unfolding rot by simp_all
  with c show ?thesis unfolding rot by (auto simp: visible_rows_def reencrypt_row_def)
qed

end
