(* ===== verification/FileCrypto.thy ===== *)
theory FileCrypto
  imports Ciphers
begin

text \<open>
  src/internal/services/crypto/file.go: the encryption of files and streams in chunks.

  A file system is a map from paths to contents; creating a file empties it, and what was written to
  a \<open>bufio.Writer\<close> is in the file when the function returns, with or without an error. A read from a
  regular file returns as many bytes as were asked for, as long as there are any. A \<open>bufio.Reader\<close>
  answers a read from its buffer while there is something in it, and then, for a read at least as
  large as its buffer, from the file.
\<close>

type_synonym files = "string \<rightharpoonup> bytes"

datatype file_error = NoSuchFile string | Crypto crypto_error | NonceBaseMissing | StreamEnd | GzipFailed

definition fileBufSize :: nat where "fileBufSize = 1024 * 1024"

definition be32 :: "32 word \<Rightarrow> bytes" where
  "be32 w = map (\<lambda>i. ucast (drop_bit i w)) [24, 16, 8, 0]"

text \<open>The base of 8 bytes, then the counter as \<open>uint32\<close>.\<close>

definition buildNonce :: "bytes \<Rightarrow> 64 word \<Rightarrow> bytes" where
  "buildNonce base counter = take 8 (base @ replicate 8 0) @ be32 (ucast counter)"

section \<open>Files\<close>

function seal_chunks :: "aead \<Rightarrow> bytes \<Rightarrow> bytes \<Rightarrow> 64 word \<Rightarrow> bytes \<Rightarrow> bytes" where
  "seal_chunks A key base counter data =
    (if data = [] then []
     else ae_seal A key (buildNonce base counter) (take fileBufSize data)
       @ seal_chunks A key base (counter + 1) (drop fileBufSize data))"
  by auto
termination
  by (relation "measure (\<lambda>(A, key, base, counter, data). length data)") (auto simp: fileBufSize_def)

declare seal_chunks.simps [simp del]

definition EncryptFile :: "aead \<Rightarrow> random \<Rightarrow> string \<Rightarrow> string \<Rightarrow> bytes \<Rightarrow> files \<Rightarrow> file_error option \<times> files" where
  "EncryptFile A rnd srcPath dstPath key fs = (case NewAESGCM key of
     Inl e \<Rightarrow> (Some (Crypto e), fs)
   | Inr _ \<Rightarrow> (case fs srcPath of
       None \<Rightarrow> (Some (NoSuchFile srcPath), fs)
     | Some _ \<Rightarrow>
         let fs = fs(dstPath \<mapsto> [])
         in (case rnd 8 of
           None \<Rightarrow> (Some (Crypto RandFailed), fs)
         | Some base \<Rightarrow> (case fs srcPath of
             None \<Rightarrow> (None, fs)
           | Some data \<Rightarrow> (None, fs(dstPath \<mapsto> base @ seal_chunks A key base 0 data))))))"

text \<open>The chunks that follow the buffered bytes: what was decrypted, and whether all of it was.\<close>

function open_chunks :: "aead \<Rightarrow> bytes \<Rightarrow> bytes \<Rightarrow> 64 word \<Rightarrow> bytes \<Rightarrow> bool \<times> bytes" where
  "open_chunks A key base counter data =
    (if data = [] then (True, [])
     else case ae_open A key (buildNonce base counter) (take (fileBufSize + 16) data) of
       None \<Rightarrow> (False, [])
     | Some pt \<Rightarrow> (case open_chunks A key base (counter + 1) (drop (fileBufSize + 16) data) of
         (ok, pts) \<Rightarrow> (ok, pt @ pts)))"
  by auto
termination
  by (relation "measure (\<lambda>(A, key, base, counter, data). length data)") (auto simp: fileBufSize_def)

declare open_chunks.simps [simp del]

text \<open>
  The reader has filled its buffer when it has read the base: the first chunk it returns is the rest of
  the buffer.
\<close>

definition open_file :: "aead \<Rightarrow> bytes \<Rightarrow> bytes \<Rightarrow> file_error option \<times> bytes" where
  "open_file A key data =
    (let buffer = take fileBufSize data; rest = drop fileBufSize data
     in if length buffer < 8 then (Some NonceBaseMissing, [])
        else
          let base = take 8 buffer; chunk = drop 8 buffer
          in if chunk = [] then (case open_chunks A key base 0 rest of (ok, pts) \<Rightarrow> (if ok then None else Some (Crypto OpenFailed), pts))
             else case ae_open A key (buildNonce base 0) chunk of
               None \<Rightarrow> (Some (Crypto OpenFailed), [])
             | Some pt \<Rightarrow> (case open_chunks A key base 1 rest of
                 (ok, pts) \<Rightarrow> (if ok then None else Some (Crypto OpenFailed), pt @ pts)))"

definition DecryptFile :: "aead \<Rightarrow> string \<Rightarrow> string \<Rightarrow> bytes \<Rightarrow> files \<Rightarrow> file_error option \<times> files" where
  "DecryptFile A srcPath dstPath key fs = (case NewAESGCM key of
     Inl e \<Rightarrow> (Some (Crypto e), fs)
   | Inr _ \<Rightarrow> (case fs srcPath of
       None \<Rightarrow> (Some (NoSuchFile srcPath), fs)
     | Some _ \<Rightarrow>
         let fs = fs(dstPath \<mapsto> [])
         in (case open_file A key (the (fs srcPath)) of (e, pt) \<Rightarrow> (e, fs(dstPath \<mapsto> pt)))))"

text \<open>With compression, over a temporary file; gzip is a pair of functions.\<close>

definition EncryptAndCompressFile ::
  "aead \<Rightarrow> (bytes \<Rightarrow> bytes option) \<Rightarrow> random \<Rightarrow> string \<Rightarrow> string \<Rightarrow> bytes \<Rightarrow> files \<Rightarrow> file_error option \<times> files" where
  "EncryptAndCompressFile A gzip rnd srcPath dstPath key fs = (case fs srcPath of
     None \<Rightarrow> (Some (NoSuchFile srcPath), fs)
   | Some srcData \<Rightarrow> (case gzip srcData of
       None \<Rightarrow> (Some GzipFailed, fs)
     | Some compressed \<Rightarrow>
         let tmpPath = srcPath @ ''.tmp.enc''
         in (case EncryptFile A rnd tmpPath dstPath key (fs(tmpPath \<mapsto> compressed)) of
           (e, fs') \<Rightarrow> (e, fs'(tmpPath := None)))))"

definition DecryptAndDecompressFile ::
  "aead \<Rightarrow> (bytes \<Rightarrow> bytes option) \<Rightarrow> string \<Rightarrow> string \<Rightarrow> bytes \<Rightarrow> files \<Rightarrow> file_error option \<times> files" where
  "DecryptAndDecompressFile A gunzip srcPath dstPath key fs =
    (let tmpPath = srcPath @ ''.tmp.gz''
     in (case DecryptFile A srcPath tmpPath key fs of
       (Some e, fs') \<Rightarrow> (Some e, fs'(tmpPath := None))
     | (None, fs') \<Rightarrow> (case fs' tmpPath of
         None \<Rightarrow> (Some (NoSuchFile tmpPath), fs')
       | Some compressed \<Rightarrow> (case gunzip compressed of
           None \<Rightarrow> (Some GzipFailed, fs'(tmpPath := None))
         | Some decompressed \<Rightarrow> (None, fs'(dstPath \<mapsto> decompressed, tmpPath := None))))))"

definition DecryptWithGCM :: "aead \<Rightarrow> bytes \<Rightarrow> bytes \<Rightarrow> crypto_error + bytes" where
  "DecryptWithGCM A data key = (case NewAESGCM key of
     Inl e \<Rightarrow> Inl e
   | Inr _ \<Rightarrow> if length data < 12 then Inl CipherTooShort
       else (case ae_open A key (take 12 data) (drop 12 data) of None \<Rightarrow> Inl OpenFailed | Some pt \<Rightarrow> Inr pt))"

section \<open>Streams\<close>

record encryptWriter =
  ew_base :: bytes
  ew_counter :: "64 word"
  ew_dst :: bytes

record decryptReader =
  dr_base :: bytes
  dr_counter :: "64 word"
  dr_src :: bytes

definition NewEncryptingWriter :: "random \<Rightarrow> bytes \<Rightarrow> bytes \<Rightarrow> file_error + encryptWriter" where
  "NewEncryptingWriter rnd key dst = (case NewAESGCM key of
     Inl e \<Rightarrow> Inl (Crypto e)
   | Inr _ \<Rightarrow> (case rnd 8 of
       None \<Rightarrow> Inl (Crypto RandFailed)
     | Some base \<Rightarrow> Inr \<lparr>ew_base = base, ew_counter = 0, ew_dst = dst @ base\<rparr>))"

definition NewDecryptingReader :: "bytes \<Rightarrow> bytes \<Rightarrow> file_error + decryptReader" where
  "NewDecryptingReader key src = (case NewAESGCM key of
     Inl e \<Rightarrow> Inl (Crypto e)
   | Inr _ \<Rightarrow> if length src < 8 then Inl NonceBaseMissing
       else Inr \<lparr>dr_base = take 8 src, dr_counter = 0, dr_src = drop 8 src\<rparr>)"

definition stream_Write :: "aead \<Rightarrow> bytes \<Rightarrow> bytes \<Rightarrow> encryptWriter \<Rightarrow> encryptWriter" where
  "stream_Write A key data w = w\<lparr>ew_counter := ew_counter w + 1,
     ew_dst := ew_dst w @ ae_seal A key (buildNonce (ew_base w) (ew_counter w)) data\<rparr>"

text \<open>\<open>Read\<close> into a buffer of \<open>n\<close> bytes.\<close>

definition stream_Read :: "aead \<Rightarrow> bytes \<Rightarrow> nat \<Rightarrow> decryptReader \<Rightarrow> (file_error + bytes) \<times> decryptReader" where
  "stream_Read A key n r =
    (let tmp = take (n + 16) (dr_src r); r' = r\<lparr>dr_src := drop (n + 16) (dr_src r)\<rparr>
     in if tmp = [] then (Inl StreamEnd, r')
        else let nonce = buildNonce (dr_base r) (dr_counter r); r'' = r'\<lparr>dr_counter := dr_counter r + 1\<rparr>
             in (case ae_open A key nonce tmp of
                   None \<Rightarrow> (Inl (Crypto OpenFailed), r'')
                 | Some pt \<Rightarrow> (Inr (take n pt), r'')))"

section \<open>Small files come back\<close>

lemma length_buildNonce: "length (buildNonce base c) = 12"
  by (simp add: buildNonce_def be32_def)

lemma random_8: "random_ok rnd \<Longrightarrow> rnd 8 = Some base \<Longrightarrow> length base = 8"
  by (simp add: random_ok_def)

lemma one_chunk:
  assumes "data \<noteq> []" "length data \<le> fileBufSize"
  shows "seal_chunks A key base c data = ae_seal A key (buildNonce base c) data"
  using assms by (simp add: seal_chunks.simps [of A key base c data] seal_chunks.simps [of A key base "c + 1" "[]"])

lemma open_small_file:
  assumes "aead_ok A" "length base = 8" "length data + 24 \<le> fileBufSize"
  shows "open_file A key (base @ seal_chunks A key base 0 data) = (None, data)"
proof (cases "data = []")
  case True
  have "fileBufSize = Suc (Suc (Suc (Suc (Suc (Suc (Suc (Suc (fileBufSize - 8))))))))" by (simp add: fileBufSize_def)
  then have "take fileBufSize base = base" "drop fileBufSize base = []" using assms(2) by simp_all
  with True assms(2) show ?thesis
    by (simp add: open_file_def Let_def seal_chunks.simps [of A key base 0 "[]"] open_chunks.simps [of A key base 0 "[]"])
next
  case False
  have chunk: "seal_chunks A key base 0 data = ae_seal A key (buildNonce base 0) data"
    using False assms(3) by (intro one_chunk) auto
  have "length (base @ ae_seal A key (buildNonce base 0) data) \<le> fileBufSize"
    using assms by (simp add: aead_okD)
  moreover have "ae_seal A key (buildNonce base 0) data \<noteq> []"
    using aead_okD(1) [OF assms(1), of key "buildNonce base 0" data] by auto
  ultimately show ?thesis
    using assms(1,2) by (simp add: open_file_def Let_def chunk aead_okD open_chunks.simps [of A key base 1 "[]"])
qed

lemma EncryptFile_run:
  assumes "NewAESGCM key = Inr a" "fs src = Some data" "src \<noteq> dst" "rnd 8 = Some base"
  shows "EncryptFile A rnd src dst key fs = (None, fs(dst \<mapsto> base @ seal_chunks A key base 0 data))"
  using assms by (simp add: EncryptFile_def)

lemma DecryptFile_run:
  assumes "NewAESGCM key = Inr a" "fs src = Some data" "src \<noteq> dst"
  shows "DecryptFile A src dst key fs = (case open_file A key data of (e, pt) \<Rightarrow> (e, fs(dst \<mapsto> pt)))"
  using assms by (simp add: DecryptFile_def split: prod.split)

section \<open>Large files do not\<close>

text \<open>No message is the first \<open>m\<close> bytes of the sealed \<open>p\<close>: what \<open>Open\<close> promises about a truncated message.\<close>

definition detects_truncation :: "aead \<Rightarrow> bytes \<Rightarrow> bytes \<Rightarrow> nat \<Rightarrow> bytes \<Rightarrow> bool" where
  "detects_truncation A key nonce m p \<longleftrightarrow> (\<forall>q. ae_seal A key nonce q \<noteq> take m (ae_seal A key nonce p))"

lemma open_large_file:
  assumes A: "aead_ok A" and base: "length base = 8" and large: "fileBufSize < length data + 24"
    and trunc: "detects_truncation A key (buildNonce base 0) (fileBufSize - 8) (take fileBufSize data)"
  shows "open_file A key (base @ seal_chunks A key base 0 data) = (Some (Crypto OpenFailed), [])"
proof -
  let ?first = "ae_seal A key (buildNonce base 0) (take fileBufSize data)"
  let ?rest = "seal_chunks A key base 1 (drop fileBufSize data)"
  have size: "24 \<le> fileBufSize" by (simp add: fileBufSize_def)
  with large have ne: "data \<noteq> []" by auto
  then have chunks: "seal_chunks A key base 0 data = ?first @ ?rest"
    by (simp add: seal_chunks.simps [of A key base 0 data])
  have "length ?first = min (length data) fileBufSize + 16"
    by (simp add: aead_okD(1) [OF A] length_buildNonce)
  with large size have len: "fileBufSize - 8 < length ?first" by linarith
  have chunk: "drop 8 (take fileBufSize (base @ ?first @ ?rest)) = take (fileBufSize - 8) ?first"
    using base size len by (simp add: drop_take)
  have "ae_open A key (buildNonce base 0) (take (fileBufSize - 8) ?first) = None"
  proof (rule ccontr)
    assume "ae_open A key (buildNonce base 0) (take (fileBufSize - 8) ?first) \<noteq> None"
    then obtain q where "ae_open A key (buildNonce base 0) (take (fileBufSize - 8) ?first) = Some q" by blast
    then have "take (fileBufSize - 8) ?first = ae_seal A key (buildNonce base 0) q"
      using A by (simp add: aead_ok_def)
    with trunc show False unfolding detects_truncation_def by metis
  qed
  moreover have "take (fileBufSize - 8) ?first \<noteq> []" using len size by auto
  moreover have "take 8 (take fileBufSize (base @ ?first @ ?rest)) = base" using base size by (simp add: min_def)
  moreover have "8 \<le> length (take fileBufSize (base @ ?first @ ?rest))" using base size by simp
  ultimately show ?thesis
    unfolding open_file_def chunks Let_def chunk by simp
qed

text \<open>C26: A file comes back from \<open>DecryptFile\<close> exactly as it went into \<open>EncryptFile\<close> if it has at most
  1,048,552 bytes. A larger one never does: reading the nonce has filled the buffer of the reader, the
  first chunk that it hands out is cut off before its tag, and the decryption fails with nothing
  written, whatever the key and the nonce.\<close>

theorem file_round_trip:
  assumes "aead_ok A" "random_ok rnd" "rnd 8 = Some base" "NewAESGCM key = Inr a"
    and "fs src = Some data" "src \<noteq> enc" "enc \<noteq> dec"
    and "length data \<le> 1048552 \<or> detects_truncation A key (buildNonce base 0) (fileBufSize - 8) (take fileBufSize data)"
  shows "case EncryptFile A rnd src enc key fs of (e1, fs1) \<Rightarrow> (case DecryptFile A enc dec key fs1 of (e2, fs2) \<Rightarrow>
    e1 = None \<and> (if length data \<le> 1048552 then e2 = None \<and> fs2 dec = Some data
      else e2 = Some (Crypto OpenFailed) \<and> fs2 dec = Some []))"
proof -
  have base: "length base = 8" by (rule random_8 [OF assms(2,3)])
  let ?sealed = "base @ seal_chunks A key base 0 data"
  let ?fs = "fs(enc \<mapsto> ?sealed)"
  have run: "EncryptFile A rnd src enc key fs = (None, ?fs)"
    using assms(3-6) by (rule_tac EncryptFile_run)
  have dec: "DecryptFile A enc dec key ?fs = (case open_file A key ?sealed of (e, pt) \<Rightarrow> (e, ?fs(dec \<mapsto> pt)))"
    using assms(4,7) by (rule_tac DecryptFile_run) simp_all
  show ?thesis
  proof (cases "length data \<le> 1048552")
    case True
    then have "length data + 24 \<le> fileBufSize" by (simp add: fileBufSize_def)
    with True show ?thesis by (simp add: run dec open_small_file [OF assms(1) base])
  next
    case False
    then have "fileBufSize < length data + 24" by (simp add: fileBufSize_def)
    from open_large_file [OF assms(1) base this] False assms(8) show ?thesis by (simp add: run dec)
  qed
qed

lemma demo_truncation:
  assumes "hd key \<noteq> 1" "key \<noteq> []" "fileBufSize \<le> n"
  shows "detects_truncation demo_aead key nonce (fileBufSize - 8) (take fileBufSize (replicate n 1))"
  unfolding detects_truncation_def
proof
  fix q
  have "hd key \<in> set (demo_tag key nonce)" using assms(2) by (cases key) (simp_all add: demo_tag_def)
  then have "hd key \<in> set (ae_seal demo_aead key nonce q)" by (simp add: demo_aead_def)
  moreover have "set (take (fileBufSize - 8) (ae_seal demo_aead key nonce (take fileBufSize (replicate n 1)))) \<subseteq> {1}"
    using assms(3) by (auto simp: demo_aead_def min_def)
  ultimately show "ae_seal demo_aead key nonce q
      \<noteq> take (fileBufSize - 8) (ae_seal demo_aead key nonce (take fileBufSize (replicate n 1)))"
    using assms(1) by (metis empty_iff insert_iff subsetD)
qed

lemma file_round_trip_witness:
  "(\<exists>fs1. EncryptFile demo_aead demo_random ''in'' ''enc'' (replicate 32 5) [''in'' \<mapsto> [1, 2, 3]] = (None, fs1)
      \<and> (\<exists>fs2. DecryptFile demo_aead ''enc'' ''out'' (replicate 32 5) fs1 = (None, fs2) \<and> fs2 ''out'' = Some [1, 2, 3]))
   \<and> (\<exists>fs1. EncryptFile demo_aead demo_random ''in'' ''enc'' (replicate 32 5) [''in'' \<mapsto> replicate fileBufSize 1] = (None, fs1)
      \<and> (\<exists>fs2. DecryptFile demo_aead ''enc'' ''out'' (replicate 32 5) fs1 = (Some (Crypto OpenFailed), fs2)
            \<and> fs2 ''out'' = Some []))"
proof -
  let ?key = "replicate 32 5 :: bytes" and ?base = "replicate 8 7 :: bytes"
  have rnd: "demo_random 8 = Some ?base" by (simp add: demo_random_def)
  obtain a where key: "NewAESGCM ?key = Inr a" by (simp add: NewAESGCM_def)
  have "\<exists>fs1. EncryptFile demo_aead demo_random ''in'' ''enc'' ?key [''in'' \<mapsto> [1, 2, 3]] = (None, fs1)
      \<and> (\<exists>fs2. DecryptFile demo_aead ''enc'' ''out'' ?key fs1 = (None, fs2) \<and> fs2 ''out'' = Some [1, 2, 3])"
    using file_round_trip [OF demo_aead_ok demo_random_ok rnd key, of "[''in'' \<mapsto> [1, 2, 3]]" "''in''" "[1, 2, 3]" "''enc''" "''out''"]
    by (auto split: prod.splits)
  moreover have "\<exists>fs1. EncryptFile demo_aead demo_random ''in'' ''enc'' ?key [''in'' \<mapsto> replicate fileBufSize 1] = (None, fs1)
      \<and> (\<exists>fs2. DecryptFile demo_aead ''enc'' ''out'' ?key fs1 = (Some (Crypto OpenFailed), fs2) \<and> fs2 ''out'' = Some [])"
  proof -
    have "detects_truncation demo_aead ?key (buildNonce ?base 0) (fileBufSize - 8) (take fileBufSize (replicate fileBufSize 1))"
      by (rule demo_truncation) simp_all
    moreover have "\<not> length (replicate fileBufSize (1 :: 8 word)) \<le> 1048552" by (simp add: fileBufSize_def)
    ultimately show ?thesis
      using file_round_trip [OF demo_aead_ok demo_random_ok rnd key,
          of "[''in'' \<mapsto> replicate fileBufSize 1]" "''in''" "replicate fileBufSize 1" "''enc''" "''out''"]
      by (auto split: prod.splits)
  qed
  ultimately show ?thesis by blast
qed

section \<open>A stream comes back when it is read as it was written\<close>

primrec sealed_writes :: "aead \<Rightarrow> bytes \<Rightarrow> bytes \<Rightarrow> 64 word \<Rightarrow> bytes list \<Rightarrow> bytes" where
  "sealed_writes A key base c [] = []"
| "sealed_writes A key base c (d # ds) = ae_seal A key (buildNonce base c) d @ sealed_writes A key base (c + 1) ds"

primrec stream_reads :: "aead \<Rightarrow> bytes \<Rightarrow> nat list \<Rightarrow> decryptReader \<Rightarrow> (file_error + bytes) list" where
  "stream_reads A key [] r = []"
| "stream_reads A key (n # ns) r = (case stream_Read A key n r of (x, r') \<Rightarrow> x # stream_reads A key ns r')"

lemma stream_writes:
  "ew_dst (foldl (\<lambda>w d. stream_Write A key d w) w ds) = ew_dst w @ sealed_writes A key (ew_base w) (ew_counter w) ds"
  by (induction ds arbitrary: w) (simp_all add: stream_Write_def)

lemma stream_reads_sealed:
  assumes "aead_ok A"
  shows "dr_src r = sealed_writes A key (dr_base r) (dr_counter r) ds \<Longrightarrow>
    stream_reads A key (map length ds @ [n]) r = map Inr ds @ [Inl StreamEnd]"
proof (induction ds arbitrary: r)
  case Nil
  then show ?case by (simp add: stream_Read_def)
next
  case (Cons d ds)
  let ?sealed = "ae_seal A key (buildNonce (dr_base r) (dr_counter r)) d"
  let ?r' = "r\<lparr>dr_src := sealed_writes A key (dr_base r) (dr_counter r + 1) ds, dr_counter := dr_counter r + 1\<rparr>"
  have "length ?sealed = length d + 16" by (simp add: aead_okD(1) [OF assms])
  moreover from this have "?sealed \<noteq> []" by auto
  ultimately have "stream_Read A key (length d) r = (Inr d, ?r')"
    using Cons.prems by (simp add: stream_Read_def aead_okD(2) [OF assms])
  then show ?case using Cons.IH [of ?r'] by simp
qed

text \<open>A stream that was written in pieces comes back piece by piece, and then ends, when every read has
  room for exactly the piece that was written: the nonces of the reader and of the writer step together,
  also past the 32 bits that the nonce holds of their counter.\<close>

lemma stream_round_trip:
  assumes "aead_ok A" "random_ok rnd" "NewEncryptingWriter rnd key [] = Inr w"
  shows "\<exists>r. NewDecryptingReader key (ew_dst (foldl (\<lambda>w d. stream_Write A key d w) w ds)) = Inr r
    \<and> stream_reads A key (map length ds @ [n]) r = map Inr ds @ [Inl StreamEnd]"
proof -
  from assms(2,3) obtain a where w: "NewAESGCM key = Inr a" "length (ew_base w) = 8" "ew_counter w = 0" "ew_dst w = ew_base w"
    by (auto simp: NewEncryptingWriter_def random_ok_def split: sum.splits option.splits)
  then show ?thesis
    using stream_reads_sealed [OF assms(1)] by (simp add: NewDecryptingReader_def stream_writes)
qed

lemma stream_round_trip_witness:
  "\<exists>w r. NewEncryptingWriter demo_random (replicate 32 5) [] = Inr w
    \<and> NewDecryptingReader (replicate 32 5) (ew_dst (stream_Write demo_aead (replicate 32 5) [8]
          (stream_Write demo_aead (replicate 32 5) [3, 4] w))) = Inr r
    \<and> stream_reads demo_aead (replicate 32 5) [2, 1, 100] r = [Inr [3, 4], Inr [8], Inl StreamEnd]"
proof -
  obtain w where w: "NewEncryptingWriter demo_random (replicate 32 5) [] = Inr w"
    by (simp add: NewEncryptingWriter_def NewAESGCM_def demo_random_def)
  with stream_round_trip [OF demo_aead_ok demo_random_ok w, of "[[3, 4], [8]]" 100] show ?thesis
    by (auto simp: numeral_2_eq_2)
qed

end
