(* ===== verification/Compression.thy ===== *)
theory Compression
  imports Ciphers "HOL-Library.Signed_Division"
begin

text \<open>
  src/internal/services/crypto/compress.go: the compression methods, their detection, password
  protected archives and the splitting of data into shards; \<open>deriveKey\<close> and
  \<open>NewAESGCMFromPassword\<close> of crypto.go.

  The formats gzip, zlib and zip are parameters (\<open>codecs\<close>): a writer into memory does not fail, a
  reader may. \<open>codecs_ok\<close> states what their documents fix: a reader gives back what a writer got,
  at every level, and the first bytes of the written data. SHA-256 is a function to 32 bytes.
\<close>

section \<open>Keys from passwords\<close>

type_synonym sha256 = "bytes \<Rightarrow> bytes"

definition sha_ok :: "sha256 \<Rightarrow> bool" where
  "sha_ok sha \<longleftrightarrow> (\<forall>b. length (sha b) = 32)"

text \<open>
  The slice \<open>key\<close> is the array \<open>h\<close> itself until it grows for the first time: the first assignment to \<open>h\<close>
  in the loop changes it too.
\<close>

fun derive_rounds :: "sha256 \<Rightarrow> bytes \<Rightarrow> nat \<Rightarrow> bytes \<Rightarrow> bytes \<Rightarrow> bytes" where
  "derive_rounds sha salt 0 h key = key"
| "derive_rounds sha salt (Suc n) h key = (let h' = sha (h @ salt) in derive_rounds sha salt n h' (key @ h'))"

definition deriveKey :: "sha256 \<Rightarrow> string \<Rightarrow> bytes \<Rightarrow> nat \<Rightarrow> bytes" where
  "deriveKey sha password salt keyLen =
    (let h = sha (str_bytes password @ salt)
     in if keyLen \<le> 32 then take keyLen h
        else let h' = sha (h @ salt) in take keyLen (derive_rounds sha salt ((keyLen + 31) div 32 - 2) h' (h' @ h')))"

lemma length_derive_rounds: "sha_ok sha \<Longrightarrow> length (derive_rounds sha salt n h key) = length key + 32 * n"
  by (induction n arbitrary: h key) (simp_all add: sha_ok_def Let_def)

lemma length_deriveKey [simp]:
  assumes "sha_ok sha"
  shows "length (deriveKey sha password salt keyLen) = keyLen"
proof -
  have "\<And>b. length (sha b) = 32" using assms by (simp add: sha_ok_def)
  then show ?thesis by (auto simp: deriveKey_def Let_def length_derive_rounds [OF assms])
qed

text \<open>A missing salt is drawn at random, and kept nowhere.\<close>

definition NewAESGCMFromPassword :: "sha256 \<Rightarrow> random \<Rightarrow> string \<Rightarrow> bytes option \<Rightarrow> crypto_error + AESGCM" where
  "NewAESGCMFromPassword sha rnd password salt =
    (case (case salt of None \<Rightarrow> rnd 16 | Some s \<Rightarrow> Some s) of
       None \<Rightarrow> Inl RandFailed
     | Some s \<Rightarrow> NewAESGCM (deriveKey sha password s 32))"

section \<open>Formats\<close>

record codecs =
  cz_gzip :: "int \<Rightarrow> bytes \<Rightarrow> bytes"
  cz_gunzip :: "bytes \<Rightarrow> bytes option"
  cz_zlib :: "int \<Rightarrow> bytes \<Rightarrow> bytes"
  cz_unzlib :: "bytes \<Rightarrow> bytes option"
  cz_zip :: "bytes \<Rightarrow> bytes"
  cz_unzip :: "bytes \<Rightarrow> bytes list option"

definition codecs_ok :: "codecs \<Rightarrow> bool" where
  "codecs_ok C \<longleftrightarrow>
     (\<forall>l d. - 2 \<le> l \<and> l \<le> 9 \<longrightarrow> cz_gunzip C (cz_gzip C l d) = Some d \<and> take 2 (cz_gzip C l d) = [0x1f, 0x8b]) \<and>
     (\<forall>l d. - 2 \<le> l \<and> l \<le> 9 \<longrightarrow> cz_unzlib C (cz_zlib C l d) = Some d \<and> take 1 (cz_zlib C l d) = [0x78] \<and> 2 \<le> length (cz_zlib C l d)) \<and>
     (\<forall>d. cz_unzip C (cz_zip C d) = Some [d] \<and> take 4 (cz_zip C d) = [0x50, 0x4B, 3, 4] \<and> 4 < length (cz_zip C d))"

datatype compress_error =
    CryptErr crypto_error
  | BadArchive
  | ManifestEmpty
  | ShardMissing string
  | MethodUnsupported string
  | MethodUnknown

datatype compression = Gzip int | Zlib int | Zip string

definition NewGzipCompression :: "int \<Rightarrow> compression" where
  "NewGzipCompression level = Gzip (if level < - 2 \<or> level > 9 then - 1 else level)"

definition NewZlibCompression :: "int \<Rightarrow> compression" where
  "NewZlibCompression level = Zlib (if level < - 2 \<or> level > 9 then - 1 else level)"

definition NewZipCompression :: "string \<Rightarrow> compression" where
  "NewZipCompression password = Zip password"

definition fixedSalt :: bytes where
  "fixedSalt = str_bytes ''GBk_CrypT0_Z!p_S@lt_2024''"

definition encryptBytes :: "aead \<Rightarrow> sha256 \<Rightarrow> random \<Rightarrow> bytes \<Rightarrow> string \<Rightarrow> crypto_error + bytes" where
  "encryptBytes A sha rnd data password = (case NewAESGCM (deriveKey sha password fixedSalt 32) of
     Inl e \<Rightarrow> Inl e | Inr aes \<Rightarrow> aes_Encrypt A rnd aes data)"

definition decryptBytes :: "aead \<Rightarrow> sha256 \<Rightarrow> bytes \<Rightarrow> string \<Rightarrow> crypto_error + bytes" where
  "decryptBytes A sha data password = (case NewAESGCM (deriveKey sha password fixedSalt 32) of
     Inl e \<Rightarrow> Inl e | Inr aes \<Rightarrow> aes_Decrypt A aes data)"

definition zip_Compress :: "codecs \<Rightarrow> aead \<Rightarrow> sha256 \<Rightarrow> random \<Rightarrow> string \<Rightarrow> bytes \<Rightarrow> compress_error + bytes" where
  "zip_Compress C A sha rnd password data =
    (let result = cz_zip C data
     in if password \<noteq> [] then map_sum CryptErr id (encryptBytes A sha rnd result password) else Inr result)"

definition zip_Decompress :: "codecs \<Rightarrow> aead \<Rightarrow> sha256 \<Rightarrow> string \<Rightarrow> bytes \<Rightarrow> compress_error + bytes" where
  "zip_Decompress C A sha password data =
    (case (if password \<noteq> [] then decryptBytes A sha data password else Inr data) of
       Inl e \<Rightarrow> Inl (CryptErr e)
     | Inr raw \<Rightarrow> (case cz_unzip C raw of None \<Rightarrow> Inl BadArchive | Some files \<Rightarrow> Inr (concat files)))"

definition from_reader :: "bytes option \<Rightarrow> compress_error + bytes" where
  "from_reader x = (case x of None \<Rightarrow> Inl BadArchive | Some d \<Rightarrow> Inr d)"

fun Compress :: "codecs \<Rightarrow> aead \<Rightarrow> sha256 \<Rightarrow> random \<Rightarrow> compression \<Rightarrow> bytes \<Rightarrow> compress_error + bytes" where
  "Compress C A sha rnd (Gzip level) data = Inr (cz_gzip C level data)"
| "Compress C A sha rnd (Zlib level) data = Inr (cz_zlib C level data)"
| "Compress C A sha rnd (Zip password) data = zip_Compress C A sha rnd password data"

fun Decompress :: "codecs \<Rightarrow> aead \<Rightarrow> sha256 \<Rightarrow> compression \<Rightarrow> bytes \<Rightarrow> compress_error + bytes" where
  "Decompress C A sha (Gzip level) data = from_reader (cz_gunzip C data)"
| "Decompress C A sha (Zlib level) data = from_reader (cz_unzlib C data)"
| "Decompress C A sha (Zip password) data = zip_Decompress C A sha password data"

text \<open>The cipher is any implementation of the interface: its two operations.\<close>

definition EncryptCompress ::
  "codecs \<Rightarrow> aead \<Rightarrow> sha256 \<Rightarrow> random \<Rightarrow> (bytes \<Rightarrow> crypto_error + bytes) \<Rightarrow> compression \<Rightarrow> bytes \<Rightarrow> compress_error + bytes" where
  "EncryptCompress C A sha rnd enc cm plaintext = (case Compress C A sha rnd cm plaintext of
     Inl e \<Rightarrow> Inl e | Inr compressed \<Rightarrow> map_sum CryptErr id (enc compressed))"

definition DecryptDecompress ::
  "codecs \<Rightarrow> aead \<Rightarrow> sha256 \<Rightarrow> (bytes \<Rightarrow> crypto_error + bytes) \<Rightarrow> compression \<Rightarrow> bytes \<Rightarrow> compress_error + bytes" where
  "DecryptDecompress C A sha dec cm ciphertext = (case dec ciphertext of
     Inl e \<Rightarrow> Inl (CryptErr e) | Inr decrypted \<Rightarrow> Decompress C A sha cm decrypted)"

section \<open>Detection\<close>

definition DetectCompression :: "bytes \<Rightarrow> string" where
  "DetectCompression data =
    (if length data < 2 then ''unknown''
     else if data ! 0 = 0x1f \<and> data ! 1 = 0x8b then ''gzip''
     else if data ! 0 = 0x78 then ''zlib''
     else if length data > 4 \<and> data ! 0 = 0x50 \<and> data ! 1 = 0x4B \<and> data ! 2 = 0x03 \<and> data ! 3 = 0x04 then ''zip''
     else if length data > 2 \<and> data ! 0 = 0x7B then ''shard''
     else ''unknown'')"

definition CompressAuto :: "codecs \<Rightarrow> aead \<Rightarrow> sha256 \<Rightarrow> random \<Rightarrow> bytes \<Rightarrow> string \<Rightarrow> int \<Rightarrow> string \<Rightarrow> compress_error + bytes" where
  "CompressAuto C A sha rnd data method level password =
    (if ascii_lower method = ''gzip'' then Compress C A sha rnd (NewGzipCompression level) data
     else if ascii_lower method = ''zlib'' then Compress C A sha rnd (NewZlibCompression level) data
     else if ascii_lower method = ''zip'' then Compress C A sha rnd (NewZipCompression password) data
     else Inl (MethodUnsupported method))"

definition DecompressAuto :: "codecs \<Rightarrow> aead \<Rightarrow> sha256 \<Rightarrow> bytes \<Rightarrow> string \<Rightarrow> compress_error + bytes" where
  "DecompressAuto C A sha data password =
    (let method = DetectCompression data
     in if method = ''gzip'' then Decompress C A sha (NewGzipCompression (- 1)) data
        else if method = ''zlib'' then Decompress C A sha (NewZlibCompression (- 1)) data
        else if method = ''zip'' then Decompress C A sha (NewZipCompression password) data
        else Inl MethodUnknown)"

section \<open>Shards\<close>

record ShardMeta =
  sm_Version :: int
  sm_TotalSize :: int
  sm_ShardSize :: int
  sm_ShardIDs :: "string list"
  sm_Password :: bool

record SplitCompression =
  sp_shardSize :: int
  sp_password :: string
  sp_prefix :: string

record ShardSet =
  ss_Meta :: ShardMeta
  ss_Shards :: "string \<rightharpoonup> bytes"

definition NewSplitCompression :: "int \<Rightarrow> string \<Rightarrow> string \<Rightarrow> SplitCompression" where
  "NewSplitCompression shardSize password prefix' =
    \<lparr>sp_shardSize = (if shardSize \<le> 0 then 10 * 1024 * 1024 else shardSize), sp_password = password,
     sp_prefix = (if prefix' = [] then ''shard'' else prefix')\<rparr>"

text \<open>\<open>fmt.Sprintf("%s_%03d", prefix, i)\<close>\<close>

definition shard_id :: "string \<Rightarrow> nat \<Rightarrow> string" where
  "shard_id prefix' i = prefix' @ ''_'' @ replicate (3 - length (digits i)) CHR ''0'' @ digits i"

definition shard_data :: "int \<Rightarrow> int \<Rightarrow> bytes \<Rightarrow> nat \<Rightarrow> bytes" where
  "shard_data sz tot encrypted i =
    (let start = i64 (int i * sz); end' = i64 (start + sz); end' = (if end' > tot then tot else end')
     in take (nat end' - nat start) (drop (nat start) encrypted))"

definition numShards :: "int \<Rightarrow> int \<Rightarrow> int" where
  "numShards sz tot = i64 (i64 (tot + sz) - 1) sdiv sz"

definition split_Compress :: "aead \<Rightarrow> sha256 \<Rightarrow> random \<Rightarrow> SplitCompression \<Rightarrow> bytes \<Rightarrow> compress_error + ShardSet" where
  "split_Compress A sha rnd c data =
    (case (if sp_password c \<noteq> [] then encryptBytes A sha rnd data (sp_password c) else Inr data) of
       Inl e \<Rightarrow> Inl (CryptErr e)
     | Inr encrypted \<Rightarrow>
         let tot = int (length encrypted); sz = sp_shardSize c; n = nat (numShards sz tot);
             ids = map (shard_id (sp_prefix c)) [0..<n]
         in Inr \<lparr>ss_Meta = \<lparr>sm_Version = 1, sm_TotalSize = tot, sm_ShardSize = sz, sm_ShardIDs = ids,
                    sm_Password = (sp_password c \<noteq> [])\<rparr>,
                 ss_Shards = foldl (\<lambda>m i. m(shard_id (sp_prefix c) i \<mapsto> shard_data sz tot encrypted i)) Map.empty [0..<n]\<rparr>)"

fun join_shards :: "(string \<rightharpoonup> bytes) \<Rightarrow> string list \<Rightarrow> compress_error + bytes" where
  "join_shards m [] = Inr []"
| "join_shards m (i # ids) = (case m i of
     None \<Rightarrow> Inl (ShardMissing i)
   | Some shard \<Rightarrow> (case join_shards m ids of Inl e \<Rightarrow> Inl e | Inr rest \<Rightarrow> Inr (shard @ rest)))"

definition split_Decompress :: "aead \<Rightarrow> sha256 \<Rightarrow> SplitCompression \<Rightarrow> ShardSet \<Rightarrow> compress_error + bytes" where
  "split_Decompress A sha c st =
    (if sm_ShardIDs (ss_Meta st) = [] then Inl ManifestEmpty
     else case join_shards (ss_Shards st) (sm_ShardIDs (ss_Meta st)) of
       Inl e \<Rightarrow> Inl e
     | Inr encrypted \<Rightarrow>
         if sp_password c \<noteq> [] then map_sum CryptErr id (decryptBytes A sha encrypted (sp_password c)) else Inr encrypted)"

section \<open>Compression comes back\<close>

lemma key_of_password: "sha_ok sha \<Longrightarrow> NewAESGCM (deriveKey sha password salt 32) = Inr \<lparr>ag_key = deriveKey sha password salt 32\<rparr>"
  by (simp add: NewAESGCM_def)

lemma encryptBytes_round_trip:
  assumes "aead_ok A" "random_ok rnd" "sha_ok sha" "encryptBytes A sha rnd data password = Inr d"
  shows "decryptBytes A sha d password = Inr data" "length d = length data + 28"
  using assms aes_round_trip [OF assms(1,2)] by (auto simp: encryptBytes_def decryptBytes_def key_of_password)

text \<open>The levels that the constructors let through.\<close>

definition usable :: "compression \<Rightarrow> bool" where
  "usable c = (case c of Gzip l \<Rightarrow> - 2 \<le> l \<and> l \<le> 9 | Zlib l \<Rightarrow> - 2 \<le> l \<and> l \<le> 9 | Zip _ \<Rightarrow> True)"

lemma usable_new [simp]: "usable (NewGzipCompression l)" "usable (NewZlibCompression l)" "usable (NewZipCompression p)"
  by (simp_all add: usable_def NewGzipCompression_def NewZlibCompression_def NewZipCompression_def)

lemma compress_round_trip:
  assumes ok: "codecs_ok C" "aead_ok A" "random_ok rnd" "sha_ok sha"
    and "usable c" "Compress C A sha rnd c data = Inr z"
  shows "Decompress C A sha c z = Inr data"
proof (cases c)
  case (Zip password)
  show ?thesis
  proof (cases "password = []")
    case True
    with Zip assms show ?thesis by (auto simp: zip_Compress_def zip_Decompress_def codecs_ok_def)
  next
    case False
    with Zip assms(6) have "encryptBytes A sha rnd (cz_zip C data) password = Inr z"
      by (auto simp: zip_Compress_def map_sum_def split: sum.splits)
    from encryptBytes_round_trip(1) [OF ok(2-4) this] False Zip ok(1) show ?thesis
      by (simp add: zip_Decompress_def codecs_ok_def)
  qed
qed (use assms in \<open>auto simp: usable_def from_reader_def codecs_ok_def\<close>)

lemma detect_gzip: "take 2 z = [0x1f, 0x8b] \<Longrightarrow> DetectCompression z = ''gzip''"
  by (cases z; cases "tl z") (auto simp: DetectCompression_def)

lemma detect_zlib: "take 1 z = [0x78] \<Longrightarrow> 2 \<le> length z \<Longrightarrow> DetectCompression z = ''zlib''"
  by (cases z) (auto simp: DetectCompression_def)

lemma detect_zip: "take 4 z = [0x50, 0x4B, 3, 4] \<Longrightarrow> 4 < length z \<Longrightarrow> DetectCompression z = ''zip''"
proof -
  assume z: "take 4 z = [0x50, 0x4B, 3, 4]" "4 < length z"
  have "z ! i = take 4 z ! i" if "i < 4" for i using that by simp
  from this [of 0] this [of 1] this [of 2] this [of 3] z show ?thesis
    by (simp add: DetectCompression_def)
qed

section \<open>Shards come back\<close>

lemma zeros_val: "digits_val 0 (replicate n CHR ''0'' @ s) = digits_val 0 s"
  by (induction n) (simp_all add: digit_val_def)

lemma shard_id_inj: "shard_id p i = shard_id p j \<Longrightarrow> i = j"
proof -
  assume "shard_id p i = shard_id p j"
  then have "digits_val 0 (replicate (3 - length (digits i)) CHR ''0'' @ digits i)
    = digits_val 0 (replicate (3 - length (digits j)) CHR ''0'' @ digits j)"
    by (simp add: shard_id_def)
  then show "i = j" by (simp add: zeros_val digits_val_digits)
qed

lemma stored_shards:
  "foldl (\<lambda>m i. m(shard_id p i \<mapsto> f i)) Map.empty [0..<n] (shard_id p j) = (if j < n then Some (f j) else None)"
  by (induction n) (auto simp: less_Suc_eq dest: shard_id_inj)

lemma stored_range:
  "ran (foldl (\<lambda>m i. m(shard_id p i \<mapsto> f i)) Map.empty [0..<n]) \<subseteq> f ` {0..<n}"
proof (induction n)
  case (Suc n)
  then show ?case by (fastforce simp: ran_def split: if_splits)
qed simp

lemma join_all:
  "(\<And>i. i \<in> set is \<Longrightarrow> m (g i) = Some (f i)) \<Longrightarrow> join_shards m (map g is) = Inr (concat (map f is))"
  by (induction "is") auto

lemma concat_pieces: "concat (map (\<lambda>i. take s (drop (i * s) xs)) [0..<k]) = take (k * s) xs"
proof (induction k)
  case (Suc k)
  have "take (Suc k * s) xs = take (k * s) xs @ take s (drop (k * s) xs)"
    using take_add [of "k * s" s xs] by (simp add: add.commute)
  with Suc show ?case by simp
qed simp

lemma i64_shift: "i64 (i64 x - 1) = i64 (x - 1)"
proof -
  have "i64 (i64 x - 1) = ((x + 2 ^ 63) mod 2 ^ 64 - 1) mod 2 ^ 64 - 2 ^ 63" by (simp add: i64_def)
  also have "\<dots> = i64 (x - 1)" by (simp only: mod_diff_left_eq i64_def) (simp add: algebra_simps)
  finally show ?thesis .
qed

lemma numShards_fits:
  assumes "0 < sz" "0 \<le> tot" "tot + sz \<le> 2 ^ 63"
  shows "numShards sz tot = (tot + sz - 1) div sz"
proof -
  have "i64 (tot + sz - 1) = tot + sz - 1" using assms by (intro i64_small) auto
  moreover have "0 \<le> (tot + sz - 1) div sz" using assms by (simp add: pos_imp_zdiv_nonneg_iff)
  ultimately show ?thesis
    using assms by (cases "tot + sz - 1 = 0") (auto simp: numShards_def i64_shift signed_divide_int_def)
qed

lemma numShards_overflows:
  assumes "0 < sz" "sz < 2 ^ 63" "tot < 2 ^ 63" "2 ^ 63 < tot + sz"
  shows "numShards sz tot \<le> 0"
proof -
  have "i64 (z + 2 ^ 64) = i64 z" for z
  proof -
    have "z + 2 ^ 64 + 2 ^ 63 = z + 2 ^ 63 + (2 ^ 64 :: int)" by simp
    then show ?thesis by (simp only: i64_def mod_add_self2)
  qed
  from this [of "tot + sz - 1 - 2 ^ 64"] have "i64 (tot + sz - 1) = i64 (tot + sz - 1 - 2 ^ 64)" by simp
  also have "\<dots> = tot + sz - 1 - 2 ^ 64" using assms by (intro i64_small) auto
  finally have "i64 (tot + sz - 1) < 0" using assms by simp
  with assms(1) show ?thesis
    by (simp add: numShards_def i64_shift signed_divide_int_def pos_imp_zdiv_nonneg_iff)
qed

lemma shard_data_piece:
  assumes "0 < sz" "int (length xs) + sz \<le> 2 ^ 63" "i < nat (numShards sz (int (length xs)))"
  shows "shard_data sz (int (length xs)) xs i = take (nat sz) (drop (i * nat sz) xs)"
proof -
  let ?n = "int (length xs)"
  have "int i < (?n + sz - 1) div sz"
    using assms numShards_fits [of sz ?n] by simp
  then have "int i + 1 \<le> (?n + sz - 1) div sz" by simp
  then have "(int i + 1) * sz \<le> (?n + sz - 1) div sz * sz"
    using assms(1) by (intro mult_right_mono) auto
  also have "\<dots> \<le> ?n + sz - 1"
    using assms(1) pos_mod_sign [of sz "?n + sz - 1"] div_mult_mod_eq [of "?n + sz - 1" sz] by linarith
  finally have "(int i + 1) * sz \<le> ?n + sz - 1" .
  then have i: "int i * sz < ?n" by (simp add: algebra_simps)
  have "0 \<le> int i * sz" using assms(1) by simp
  moreover have "?n + sz \<le> 9223372036854775808" using assms(2) by simp
  ultimately have lim: "0 \<le> int i * sz" "int i * sz + sz \<le> 9223372036854775807" using i by linarith+
  have start: "i64 (int i * sz) = int i * sz" by (rule i64_small) (use lim assms(1) in linarith)+
  have fin: "i64 (int i * sz + sz) = int i * sz + sz" by (rule i64_small) (use lim assms(1) in linarith)+
  have "nat (int i * sz) = i * nat sz" using assms(1) by (simp add: nat_mult_distrib)
  moreover have "nat (int i * sz + sz) - nat (int i * sz) = nat sz" using assms(1) by (simp add: nat_add_distrib)
  moreover have "length xs \<le> i * nat sz + nat sz" if "?n < int i * sz + sz"
  proof -
    have "int (i * nat sz + nat sz) = int i * sz + sz" using assms(1) by simp
    with that show ?thesis by linarith
  qed
  ultimately show ?thesis by (auto simp: shard_data_def Let_def start fin)
qed

lemma split_stored:
  assumes "split_Compress A sha rnd c data = Inr st"
  obtains enc where
    "(if sp_password c \<noteq> [] then encryptBytes A sha rnd data (sp_password c) else Inr data) = Inr enc"
    "sm_ShardIDs (ss_Meta st) = map (shard_id (sp_prefix c)) [0..<nat (numShards (sp_shardSize c) (int (length enc)))]"
    "ss_Shards st = foldl (\<lambda>m i. m(shard_id (sp_prefix c) i \<mapsto> shard_data (sp_shardSize c) (int (length enc)) enc i)) Map.empty
       [0..<nat (numShards (sp_shardSize c) (int (length enc)))]"
proof -
  obtain enc where enc: "(if sp_password c \<noteq> [] then encryptBytes A sha rnd data (sp_password c) else Inr data) = Inr enc"
    using assms unfolding split_Compress_def by (auto split: sum.splits)
  from assms have "st = \<lparr>ss_Meta = ss_Meta st, ss_Shards = ss_Shards st\<rparr>" by simp
  with assms enc that [OF enc] show ?thesis unfolding split_Compress_def Let_def by auto
qed

lemma joined_shards:
  assumes "0 < sz" "int (length enc) + sz \<le> 2 ^ 63"
    and "n = nat (numShards sz (int (length enc)))"
  shows "join_shards (foldl (\<lambda>m i. m(shard_id p i \<mapsto> shard_data sz (int (length enc)) enc i)) Map.empty [0..<n])
      (map (shard_id p) [0..<n]) = Inr enc"
proof -
  let ?pieces = "map (\<lambda>i. take (nat sz) (drop (i * nat sz) enc)) [0..<n]"
  have "join_shards (foldl (\<lambda>m i. m(shard_id p i \<mapsto> shard_data sz (int (length enc)) enc i)) Map.empty [0..<n])
      (map (shard_id p) [0..<n]) = Inr (concat ?pieces)"
    by (rule join_all) (simp add: stored_shards shard_data_piece [OF assms(1,2)] assms(3))
  moreover have "length enc \<le> n * nat sz"
  proof -
    have n: "int n = (int (length enc) + sz - 1) div sz"
      using assms numShards_fits [of sz "int (length enc)"] by (simp add: pos_imp_zdiv_nonneg_iff)
    have "int (length enc) + sz - 1 < int n * sz + sz"
      using assms(1) pos_mod_bound [of sz "int (length enc) + sz - 1"]
        div_mult_mod_eq [of "int (length enc) + sz - 1" sz] unfolding n by linarith
    then have "int (length enc) \<le> int n * sz" by simp
    also have "\<dots> = int (n * nat sz)" using assms(1) by simp
    finally show ?thesis by (simp only: of_nat_le_iff)
  qed
  ultimately show ?thesis by (simp add: concat_pieces)
qed

lemma no_shards_iff:
  assumes "0 < sz" "sz < 2 ^ 63" "int l < 2 ^ 63"
  shows "nat (numShards sz (int l)) = 0 \<longleftrightarrow> l = 0 \<or> 2 ^ 63 < int l + sz"
proof (cases "2 ^ 63 < int l + sz")
  case True
  then show ?thesis using numShards_overflows [OF assms True] by simp
next
  case False
  then have "numShards sz (int l) = (int l + sz - 1) div sz" using assms by (intro numShards_fits) auto
  moreover have "0 < (int l + sz - 1) div sz \<longleftrightarrow> 0 < l"
    using assms(1) pos_imp_zdiv_pos_iff [of sz "int l + sz - 1"] by auto
  ultimately show ?thesis using False by auto
qed

text \<open>Data that was split comes back. Whatever the shard size, the password and the prefix that the caller
  configures, joining the shards in the order of the manifest gives the data, and no shard is larger
  than the size asked for. The exceptions are exactly two: empty data without a password, which leaves a
  manifest that \<open>Decompress\<close> refuses, and a shard size so large that the number of shards overflows 64
  bits, where nothing is stored.\<close>

lemma split_round_trip:
  assumes "aead_ok A" "random_ok rnd" "sha_ok sha" "in_i64 shardSize" "c = NewSplitCompression shardSize password pfx"
    and "split_Compress A sha rnd c data = Inr st"
    and "n = length data + (if password = [] then 0 else 28)" "int n < 2 ^ 63"
  shows "split_Decompress A sha c st = (if n = 0 \<or> 2 ^ 63 < int n + sp_shardSize c then Inl ManifestEmpty else Inr data)
    \<and> (\<forall>shard \<in> ran (ss_Shards st). length shard \<le> nat (sp_shardSize c))"
proof -
  let ?sz = "sp_shardSize c"
  have c: "0 < ?sz" "?sz < 2 ^ 63" "sp_password c = password"
    using assms(4,5) by (auto simp: NewSplitCompression_def in_i64_def)
  obtain enc where enc: "(if sp_password c \<noteq> [] then encryptBytes A sha rnd data (sp_password c) else Inr data) = Inr enc"
    and ids: "sm_ShardIDs (ss_Meta st) = map (shard_id (sp_prefix c)) [0..<nat (numShards ?sz (int (length enc)))]"
    and shards: "ss_Shards st = foldl (\<lambda>m i. m(shard_id (sp_prefix c) i \<mapsto> shard_data ?sz (int (length enc)) enc i)) Map.empty
       [0..<nat (numShards ?sz (int (length enc)))]"
    by (rule split_stored [OF assms(6)])
  have n: "length enc = n"
    using enc c(3) assms(7) encryptBytes_round_trip(2) [OF assms(1-3)] by (auto split: if_splits)
  note none = no_shards_iff [OF c(1,2) assms(8)]
  have small: "length shard \<le> nat ?sz" if "shard \<in> ran (ss_Shards st)" for shard
  proof (cases "2 ^ 63 < int n + ?sz")
    case True
    with none that shards n show ?thesis by simp
  next
    case False
    from that stored_range [of "sp_prefix c" "shard_data ?sz (int (length enc)) enc"] obtain i
      where "i < nat (numShards ?sz (int (length enc)))" "shard = shard_data ?sz (int (length enc)) enc i"
      unfolding shards by fastforce
    moreover from this False n have "shard_data ?sz (int (length enc)) enc i = take (nat ?sz) (drop (i * nat ?sz) enc)"
      by (intro shard_data_piece [OF c(1)]) simp_all
    ultimately show ?thesis by (metis length_take min.cobounded2)
  qed
  show ?thesis
  proof (cases "n = 0 \<or> 2 ^ 63 < int n + ?sz")
    case True
    with none ids n have "sm_ShardIDs (ss_Meta st) = []" by simp
    with True small show ?thesis by (simp add: split_Decompress_def)
  next
    case False
    with none ids n have "sm_ShardIDs (ss_Meta st) \<noteq> []" by simp
    moreover have "join_shards (ss_Shards st) (sm_ShardIDs (ss_Meta st)) = Inr enc"
      unfolding ids shards using False n by (intro joined_shards [OF c(1)]) auto
    ultimately show ?thesis
      using False small enc c(3) encryptBytes_round_trip(1) [OF assms(1-3)]
      by (auto simp: split_Decompress_def split: if_splits)
  qed
qed

definition demo_sha :: sha256 where
  "demo_sha b = take 32 (b @ replicate 32 0)"

lemma demo_sha_ok: "sha_ok demo_sha"
  by (auto simp: sha_ok_def demo_sha_def)

lemma split_round_trip_witness:
  "\<exists>st. split_Compress demo_aead demo_sha demo_random (NewSplitCompression 2 ''pw'' '''') [1, 2, 3] = Inr st
    \<and> split_Decompress demo_aead demo_sha (NewSplitCompression 2 ''pw'' '''') st = Inr [1, 2, 3]"
proof -
  let ?c = "NewSplitCompression 2 ''pw'' ''''"
  have "encryptBytes demo_aead demo_sha demo_random [1, 2, 3] ''pw''
      = Inr (replicate 12 7 @ ae_seal demo_aead (deriveKey demo_sha ''pw'' fixedSalt 32) (replicate 12 7) [1, 2, 3])"
    by (simp add: encryptBytes_def key_of_password [OF demo_sha_ok] aes_Encrypt_def demo_random_def)
  then obtain st where st: "split_Compress demo_aead demo_sha demo_random ?c [1, 2, 3] = Inr st"
    by (simp add: split_Compress_def NewSplitCompression_def Let_def)
  have "split_Decompress demo_aead demo_sha ?c st = Inr [1, 2, 3]"
    using split_round_trip [OF demo_aead_ok demo_random_ok demo_sha_ok _ refl st refl]
    by (simp add: in_i64_def NewSplitCompression_def)
  with st show ?thesis by blast
qed

section \<open>Automatic detection\<close>

lemma CompressAuto_methods:
  assumes "CompressAuto C A sha rnd data method level password = Inr z"
  obtains (gzip) "ascii_lower method = ''gzip''" "z = cz_gzip C (if level < - 2 \<or> level > 9 then - 1 else level) data"
    | (zlib) "ascii_lower method = ''zlib''" "z = cz_zlib C (if level < - 2 \<or> level > 9 then - 1 else level) data"
    | (zip) "ascii_lower method = ''zip''" "zip_Compress C A sha rnd password data = Inr z"
  using assms
  by (auto simp: CompressAuto_def NewGzipCompression_def NewZlibCompression_def NewZipCompression_def split: if_splits)

text \<open>What \<open>CompressAuto\<close> wrote, \<open>DecompressAuto\<close> reads, for every method that is supported and every level
  and without being told the method, except for archives with a password: their first byte is random,
  and unless it happens to be one of three values the format is not recognised, also with the password.\<close>

lemma auto_round_trip:
  assumes "codecs_ok C" "aead_ok A" "random_ok rnd" "sha_ok sha"
    and "CompressAuto C A sha rnd data method level password = Inr z"
  shows "if ascii_lower method = ''zip'' \<and> password \<noteq> []
    then \<exists>nonce. rnd 12 = Some nonce \<and> (hd nonce \<in> {0x1f, 0x78, 0x50} \<or> DecompressAuto C A sha z password = Inl MethodUnknown)
    else DecompressAuto C A sha z password = Inr data"
proof -
  let ?level = "if level < - 2 \<or> level > 9 then - 1 else level"
  have level: "- 2 \<le> ?level" "?level \<le> 9" by auto
  from assms(5) show ?thesis
  proof (cases rule: CompressAuto_methods)
    case gzip
    with assms(1) level have "cz_gunzip C z = Some data" "take 2 z = [0x1f, 0x8b]" unfolding codecs_ok_def by blast+
    with gzip(1) detect_gzip [of z] show ?thesis
      by (simp add: DecompressAuto_def NewGzipCompression_def from_reader_def)
  next
    case zlib
    with assms(1) level have "cz_unzlib C z = Some data" "take 1 z = [0x78]" "2 \<le> length z" unfolding codecs_ok_def by blast+
    with zlib(1) detect_zlib [of z] show ?thesis
      by (simp add: DecompressAuto_def NewZlibCompression_def from_reader_def)
  next
    case zip
    show ?thesis
    proof (cases "password = []")
      case True
      with zip assms(1) have "cz_unzip C z = Some [data]" "take 4 z = [0x50, 0x4B, 3, 4]" "4 < length z"
        by (auto simp: zip_Compress_def codecs_ok_def)
      with zip(1) True detect_zip [of z] show ?thesis
        by (simp add: DecompressAuto_def NewZipCompression_def zip_Decompress_def)
    next
      case False
      with zip(2) have "encryptBytes A sha rnd (cz_zip C data) password = Inr z"
        by (auto simp: zip_Compress_def map_sum_def split: sum.splits)
      then obtain nonce ct where nonce: "rnd 12 = Some nonce" "z = nonce @ ct"
        using assms(4) by (auto simp: encryptBytes_def key_of_password aes_Encrypt_def split: option.splits)
      moreover have "nonce \<noteq> []" using nonce(1) assms(3) unfolding random_ok_def by fastforce
      moreover from this nonce(2) have "hd nonce = z ! 0" by (cases nonce) auto
      ultimately show ?thesis using zip(1) False by (auto simp: DecompressAuto_def DetectCompression_def)
    qed
  qed
qed

text \<open>Formats that behave like this: a header, the level, and the data.\<close>

definition demo_codecs :: codecs where
  "demo_codecs = \<lparr>cz_gzip = (\<lambda>l d. 0x1f # 0x8b # d), cz_gunzip = (\<lambda>z. Some (drop 2 z)),
     cz_zlib = (\<lambda>l d. 0x78 # 0x9c # d), cz_unzlib = (\<lambda>z. Some (drop 2 z)),
     cz_zip = (\<lambda>d. 0x50 # 0x4B # 3 # 4 # 0 # d), cz_unzip = (\<lambda>z. Some [drop 5 z])\<rparr>"

lemma demo_codecs_ok: "codecs_ok demo_codecs"
  by (simp add: codecs_ok_def demo_codecs_def)

lemma auto_round_trip_witness:
  "DecompressAuto demo_codecs demo_aead demo_sha (0x1f # 0x8b # [1, 2]) '''' = Inr [1, 2]
    \<and> (\<exists>z. CompressAuto demo_codecs demo_aead demo_sha demo_random [1, 2] ''ZIP'' 0 ''pw'' = Inr z
        \<and> DecompressAuto demo_codecs demo_aead demo_sha z ''pw'' = Inl MethodUnknown)"
proof -
  note auto = auto_round_trip [OF demo_codecs_ok demo_aead_ok demo_random_ok demo_sha_ok]
  have "CompressAuto demo_codecs demo_aead demo_sha demo_random [1, 2] ''gzip'' 0 '''' = Inr (0x1f # 0x8b # [1, 2])"
    by (simp add: CompressAuto_def ascii_lower_def NewGzipCompression_def demo_codecs_def)
  from auto [OF this] have one: "DecompressAuto demo_codecs demo_aead demo_sha (0x1f # 0x8b # [1, 2]) '''' = Inr [1, 2]" by simp
  have zip: "ascii_lower ''ZIP'' = ''zip''" by code_simp
  obtain z where z: "CompressAuto demo_codecs demo_aead demo_sha demo_random [1, 2] ''ZIP'' 0 ''pw'' = Inr z"
    by (simp add: CompressAuto_def zip NewZipCompression_def zip_Compress_def encryptBytes_def
      key_of_password [OF demo_sha_ok] aes_Encrypt_def demo_random_def)
  with zip auto [OF z] have "DecompressAuto demo_codecs demo_aead demo_sha z ''pw'' = Inl MethodUnknown"
    by (auto simp: demo_random_def)
  with one z show ?thesis by blast
qed

end
