(* ===== verification/DbAdapter.thy ===== *)
theory DbAdapter
  imports GoStd "HOL-Library.Multiset"
begin

text \<open>
  src/internal/services/migrate/adapter.go and migrate.go: the MySQL and the PostgreSQL adapter, over
  which everything else of the package works.

  A database is a map from table names to tables: the columns in their order and the rows, which hold
  for each column the value that the driver reads. A Go map of a row is an association list in the
  order of its iteration. The engine is a parameter: how it stores a value that is passed for a column
  (or refuses it), which rows its constraints admit, the order of its answers, what a type name means
  to it and what a statement does. Connections do not fail.
\<close>

datatype DBType = MySQL | Postgres

text \<open>The dynamic types of a value of type \<open>any\<close> that the drivers and the JSON decoder produce.\<close>

datatype val =
    ANil
  | AInt int
  | AInt32 int
  | AInt64 int
  | AFloat int
  | ABool bool
  | AString string
  | ABytes string
  | ATime int

type_synonym row = "(string \<times> val) list"

record ColumnInfo =
  co_Name :: string
  co_Type :: string
  co_Nullable :: bool

record TableSchema =
  ts_Name :: string
  ts_Columns :: "ColumnInfo list"

record dbtable =
  tb_Columns :: "ColumnInfo list"
  tb_Rows :: "row list"

type_synonym db = "string \<rightharpoonup> dbtable"

record engine =
  en_kind :: DBType
  en_store :: "ColumnInfo \<Rightarrow> val \<Rightarrow> val option"
  en_admits :: "string \<Rightarrow> row list \<Rightarrow> row \<Rightarrow> bool"
  en_order :: "row list \<Rightarrow> row list"
  en_type :: "string \<Rightarrow> bool"
  en_exec :: "string \<Rightarrow> db \<Rightarrow> db option"
  en_tables :: "db \<Rightarrow> string list"

datatype db_error = NoTable string | BadColumn string | Refused string | BadStatement string | BadType string

section \<open>Names and types\<close>

definition Quote :: "DBType \<Rightarrow> string \<Rightarrow> string" where
  "Quote t name = (case t of MySQL \<Rightarrow> ''`'' @ name @ ''`'' | Postgres \<Rightarrow> CHR 0x22 # name @ [CHR 0x22])"

definition quoteAll :: "DBType \<Rightarrow> string list \<Rightarrow> string list" where
  "quoteAll t names = map (Quote t) names"

definition mysqlTypeToPostgres :: "string \<Rightarrow> string" where
  "mysqlTypeToPostgres mysqlType =
    (let t = ascii_lower mysqlType
     in if t \<in> {''tinyint(1)'', ''bool'', ''boolean''} then ''BOOLEAN''
        else if has_prefix t ''bigint'' then ''BIGINT''
        else if has_prefix t ''int'' \<or> has_prefix t ''mediumint'' \<or> has_prefix t ''smallint'' \<or> has_prefix t ''tinyint'' then ''INTEGER''
        else if has_prefix t ''decimal'' \<or> has_prefix t ''numeric'' \<or> has_prefix t ''float'' \<or> has_prefix t ''double'' then ''NUMERIC''
        else if contains_sub t ''text'' \<or> contains_sub t ''char'' then ''TEXT''
        else if contains_sub t ''blob'' \<or> contains_sub t ''binary'' then ''BYTEA''
        else if contains_sub t ''datetime'' \<or> contains_sub t ''timestamp'' then ''TIMESTAMP''
        else if contains_sub t ''date'' then ''DATE''
        else if contains_sub t ''time'' then ''TIME''
        else if contains_sub t ''json'' then ''JSONB''
        else ''TEXT'')"

definition splitSQL :: "string \<Rightarrow> string list" where
  "splitSQL sql = filter (\<lambda>s. s \<noteq> []) (map trim_space (split_on CHR '';'' sql))"

definition truncateStr :: "string \<Rightarrow> nat \<Rightarrow> string" where
  "truncateStr s n = (if length s \<le> n then s else take n s @ ''...'')"

section \<open>Reading\<close>

definition GetColumns :: "db \<Rightarrow> string \<Rightarrow> db_error + ColumnInfo list" where
  "GetColumns d table = (case d table of None \<Rightarrow> Inl (NoTable table) | Some t \<Rightarrow> Inr (tb_Columns t))"

text \<open>
  The catalogue query of the PostgreSQL adapter has no rows for a table that does not exist, which is
  no error.
\<close>

definition pg_GetColumns :: "db \<Rightarrow> string \<Rightarrow> db_error + ColumnInfo list" where
  "pg_GetColumns d table = (case d table of None \<Rightarrow> Inr [] | Some t \<Rightarrow> Inr (tb_Columns t))"

definition columns_of :: "engine \<Rightarrow> db \<Rightarrow> string \<Rightarrow> db_error + ColumnInfo list" where
  "columns_of E d table = (case en_kind E of MySQL \<Rightarrow> GetColumns d table | Postgres \<Rightarrow> pg_GetColumns d table)"

definition GetTableSchema :: "engine \<Rightarrow> db \<Rightarrow> string \<Rightarrow> db_error + TableSchema" where
  "GetTableSchema E d table = (case columns_of E d table of
     Inl e \<Rightarrow> Inl e | Inr cols \<Rightarrow> Inr \<lparr>ts_Name = table, ts_Columns = cols\<rparr>)"

text \<open>
  One query of \<open>SelectAll\<close>. Every name in \<open>columns\<close> is quoted, so it must be the name of a column. The
  condition of the caller is a predicate on rows.
\<close>

definition select_page :: "engine \<Rightarrow> db \<Rightarrow> string \<Rightarrow> string list \<Rightarrow> (row \<Rightarrow> bool) \<Rightarrow> nat \<Rightarrow> nat \<Rightarrow> db_error + row list" where
  "select_page E d table columns where' batchSize offset = (case d table of
     None \<Rightarrow> Inl (NoTable table)
   | Some t \<Rightarrow> (case find (\<lambda>c. c \<notin> co_Name ` set (tb_Columns t)) columns of
       Some c \<Rightarrow> Inl (BadColumn c)
     | None \<Rightarrow> Inr (take batchSize (drop offset
         (map (\<lambda>r. if columns = [] then r else map (\<lambda>c. (c, the (map_of r c))) columns) (en_order E (filter where' (tb_Rows t))))))))"

text \<open>
  The loop over the pages. The callback gets a page and a state, and may stop the loop; it does not change
  the table that is read. A page that is not full is the last one.
\<close>

definition selected :: "engine \<Rightarrow> db \<Rightarrow> string \<Rightarrow> (row \<Rightarrow> bool) \<Rightarrow> row list" where
  "selected E d table where' = (case d table of None \<Rightarrow> [] | Some t \<Rightarrow> en_order E (filter where' (tb_Rows t)))"

lemma page_nonempty:
  assumes "select_page E d table columns where' b offset = Inr batch" "batch \<noteq> []"
  shows "0 < b \<and> offset < length (selected E d table where')"
  using assms by (auto simp: select_page_def selected_def split: option.splits)

function select_pages :: "engine \<Rightarrow> db \<Rightarrow> string \<Rightarrow> string list \<Rightarrow> (row \<Rightarrow> bool) \<Rightarrow> nat \<Rightarrow> (row list \<Rightarrow> 's \<Rightarrow> 'e option \<times> 's)
    \<Rightarrow> nat \<Rightarrow> 's \<Rightarrow> (db_error + 'e) option \<times> 's" where
  "select_pages E d table columns where' batchSize fn offset s =
    (case select_page E d table columns where' batchSize offset of
       Inl e \<Rightarrow> (Some (Inl e), s)
     | Inr batch \<Rightarrow>
         if batch = [] then (None, s)
         else (case fn batch s of
           (Some e, s') \<Rightarrow> (Some (Inr e), s')
         | (None, s') \<Rightarrow>
             if length batch < batchSize then (None, s')
             else select_pages E d table columns where' batchSize fn (offset + batchSize) s'))"
  by auto
termination
  by (relation "measure (\<lambda>(E, d, table, columns, where', b, fn, offset, s). length (selected E d table where') - offset)")
    (auto dest!: page_nonempty)

declare select_pages.simps [simp del]

definition SelectAll :: "engine \<Rightarrow> db \<Rightarrow> string \<Rightarrow> string list \<Rightarrow> (row \<Rightarrow> bool) \<Rightarrow> int \<Rightarrow> (row list \<Rightarrow> 's \<Rightarrow> 'e option \<times> 's) \<Rightarrow> 's
    \<Rightarrow> (db_error + 'e) option \<times> 's" where
  "SelectAll E d table columns where' batchSize fn s =
     select_pages E d table columns where' (if batchSize \<le> 0 then 1000 else nat batchSize) fn 0 s"

section \<open>Writing\<close>

text \<open>A row as the engine stores it: the values that were passed, and nothing in the other columns.\<close>

fun store_cells :: "engine \<Rightarrow> string list \<Rightarrow> row \<Rightarrow> ColumnInfo list \<Rightarrow> row option" where
  "store_cells E columns r [] = Some []"
| "store_cells E columns r (c # cs) =
    (case (if co_Name c \<in> set columns then en_store E c (case map_of r (co_Name c) of None \<Rightarrow> ANil | Some v \<Rightarrow> v)
           else if co_Nullable c then Some ANil else None) of
       None \<Rightarrow> None
     | Some v \<Rightarrow> (case store_cells E columns r cs of None \<Rightarrow> None | Some cells \<Rightarrow> Some ((co_Name c, v) # cells)))"

definition insert_row :: "engine \<Rightarrow> string \<Rightarrow> string list \<Rightarrow> row \<Rightarrow> dbtable \<Rightarrow> db_error + dbtable" where
  "insert_row E table columns r t =
    (case find (\<lambda>c. c \<notin> co_Name ` set (tb_Columns t)) columns of
       Some c \<Rightarrow> Inl (BadColumn c)
     | None \<Rightarrow> if columns = [] \<or> \<not> distinct columns then Inl (Refused table)
         else (case store_cells E columns r (tb_Columns t) of
           None \<Rightarrow> Inl (Refused table)
         | Some cells \<Rightarrow> if en_admits E table (tb_Rows t) cells then Inr (t\<lparr>tb_Rows := tb_Rows t @ [cells]\<rparr>) else Inl (Refused table)))"

fun insert_rows :: "engine \<Rightarrow> string \<Rightarrow> string list \<Rightarrow> row list \<Rightarrow> dbtable \<Rightarrow> db_error option \<times> dbtable" where
  "insert_rows E table columns [] t = (None, t)"
| "insert_rows E table columns (r # rs) t = (case insert_row E table columns r t of
     Inl e \<Rightarrow> (Some e, t)
   | Inr t' \<Rightarrow> insert_rows E table columns rs t')"

text \<open>
  The MySQL adapter inserts all rows with one statement, which the engine undoes when a row fails; the
  PostgreSQL adapter inserts them one by one, and keeps those before the one that fails.
\<close>

definition mysql_InsertBatch :: "engine \<Rightarrow> string \<Rightarrow> string list \<Rightarrow> row list \<Rightarrow> db \<Rightarrow> db_error option \<times> db" where
  "mysql_InsertBatch E table columns rows d =
    (if rows = [] then (None, d)
     else let columns = (if columns = [] then map fst (hd rows) else columns)
       in (case d table of
         None \<Rightarrow> (Some (NoTable table), d)
       | Some t \<Rightarrow> (case insert_rows E table columns rows t of
           (None, t') \<Rightarrow> (None, d(table \<mapsto> t'))
         | (Some e, t') \<Rightarrow> (Some e, d))))"

definition pg_InsertBatch :: "engine \<Rightarrow> string \<Rightarrow> string list \<Rightarrow> row list \<Rightarrow> db \<Rightarrow> db_error option \<times> db" where
  "pg_InsertBatch E table columns rows d =
    (if rows = [] then (None, d)
     else let columns = (if columns = [] then map fst (hd rows) else columns)
       in (case d table of
         None \<Rightarrow> (Some (NoTable table), d)
       | Some t \<Rightarrow> (case insert_rows E table columns rows t of (e, t') \<Rightarrow> (e, d(table \<mapsto> t')))))"

definition InsertBatch :: "engine \<Rightarrow> string \<Rightarrow> string list \<Rightarrow> row list \<Rightarrow> db \<Rightarrow> db_error option \<times> db" where
  "InsertBatch E table columns rows d = (case en_kind E of
     MySQL \<Rightarrow> mysql_InsertBatch E table columns rows d | Postgres \<Rightarrow> pg_InsertBatch E table columns rows d)"

lemmas InsertBatch_defs = InsertBatch_def mysql_InsertBatch_def pg_InsertBatch_def Let_def

definition Exec :: "engine \<Rightarrow> string \<Rightarrow> db \<Rightarrow> db_error option \<times> db" where
  "Exec E sql d = (case en_exec E sql d of None \<Rightarrow> (Some (BadStatement sql), d) | Some d' \<Rightarrow> (None, d'))"

fun exec_all :: "engine \<Rightarrow> string list \<Rightarrow> db \<Rightarrow> db_error option \<times> db" where
  "exec_all E [] d = (None, d)"
| "exec_all E (sql # sqls) d = (if trim_space sql = [] then exec_all E sqls d
     else case Exec E (trim_space sql) d of
       (Some _, d') \<Rightarrow> (Some (BadStatement (truncateStr (trim_space sql) 80)), d')
     | (None, d') \<Rightarrow> exec_all E sqls d')"

definition ExecRaw :: "engine \<Rightarrow> string \<Rightarrow> db \<Rightarrow> db_error option \<times> db" where
  "ExecRaw E sql d = exec_all E (splitSQL sql) d"

definition Truncate :: "string \<Rightarrow> db \<Rightarrow> db_error option \<times> db" where
  "Truncate table d = (case d table of
     None \<Rightarrow> (Some (NoTable table), d) | Some t \<Rightarrow> (None, d(table \<mapsto> t\<lparr>tb_Rows := []\<rparr>)))"

text \<open>\<open>CREATE TABLE IF NOT EXISTS\<close>.\<close>

definition create_table :: "engine \<Rightarrow> string \<Rightarrow> ColumnInfo list \<Rightarrow> db \<Rightarrow> db_error option \<times> db" where
  "create_table E name cols d =
    (if d name \<noteq> None then (None, d)
     else case find (\<lambda>c. \<not> en_type E (co_Type c)) cols of
       Some c \<Rightarrow> (Some (BadType (co_Type c)), d)
     | None \<Rightarrow> if cols = [] \<or> \<not> distinct (map co_Name cols) then (Some (Refused name), d)
         else (None, d(name \<mapsto> \<lparr>tb_Columns = cols, tb_Rows = []\<rparr>)))"

definition mysql_CreateTable :: "engine \<Rightarrow> TableSchema \<Rightarrow> db \<Rightarrow> db_error option \<times> db" where
  "mysql_CreateTable E schema d = create_table E (ts_Name schema) (ts_Columns schema) d"

definition pg_CreateTable :: "engine \<Rightarrow> TableSchema \<Rightarrow> db \<Rightarrow> db_error option \<times> db" where
  "pg_CreateTable E schema d =
     create_table E (ts_Name schema) (map (\<lambda>c. c\<lparr>co_Type := mysqlTypeToPostgres (co_Type c)\<rparr>) (ts_Columns schema)) d"

definition CreateTableIfNotExists :: "engine \<Rightarrow> TableSchema \<Rightarrow> db \<Rightarrow> db_error option \<times> db" where
  "CreateTableIfNotExists E schema d = (case en_kind E of
     MySQL \<Rightarrow> mysql_CreateTable E schema d | Postgres \<Rightarrow> pg_CreateTable E schema d)"

section \<open>The pages are the table\<close>

text \<open>The order of an answer loses no row, and a page is cut from the same order every time.\<close>

definition engine_ok :: "engine \<Rightarrow> bool" where
  "engine_ok E \<longleftrightarrow> (\<forall>rs. mset (en_order E rs) = mset rs)"

text \<open>A callback that never fails folds over the rows: what it does with a page, it does with its parts.\<close>

definition folds :: "(row list \<Rightarrow> 's \<Rightarrow> 'e option \<times> 's) \<Rightarrow> (row list \<Rightarrow> 's \<Rightarrow> 's) \<Rightarrow> bool" where
  "folds fn f \<longleftrightarrow> (\<forall>batch s. fn batch s = (None, f batch s)) \<and> (\<forall>s. f [] s = s) \<and>
     (\<forall>xs ys s. f (xs @ ys) s = f ys (f xs s))"

lemma select_pages_fold:
  assumes "d table = Some t" "folds fn f" "0 < b"
  shows "select_pages E d table [] where' b fn off s = (None, f (drop off (selected E d table where')) s)"
proof (induction "length (selected E d table where') - off" arbitrary: off s rule: less_induct)
  case less
  let ?xs = "drop off (selected E d table where')"
  have page: "select_page E d table [] where' b off = Inr (take b ?xs)"
    using assms(1) by (simp add: select_page_def selected_def)
  have fn: "fn batch s' = (None, f batch s')" "f [] s' = s'" for batch s' using assms(2) by (simp_all add: folds_def)
  have split: "f ?xs s = f (drop b ?xs) (f (take b ?xs) s)"
    using assms(2) unfolding folds_def by (metis append_take_drop_id)
  consider "?xs = []" | "?xs \<noteq> []" "length ?xs < b" | "?xs \<noteq> []" "b \<le> length ?xs" by linarith
  then show ?case
  proof cases
    case 1
    then show ?thesis by (simp add: select_pages.simps [of E d table] page fn)
  next
    case 2
    then show ?thesis by (simp add: select_pages.simps [of E d table] page fn)
  next
    case 3
    then have "select_pages E d table [] where' b fn (off + b) (f (take b ?xs) s) = (None, f (drop (off + b) (selected E d table where')) (f (take b ?xs) s))"
      using assms(3) by (intro less) auto
    with 3 assms(3) split show ?thesis
      by (simp add: select_pages.simps [of E d table _ _ _ _ off] page fn add.commute)
  qed
qed

lemma SelectAll_fold:
  assumes "d table = Some t" "folds fn f"
  shows "SelectAll E d table [] where' batchSize fn s = (None, f (en_order E (filter where' (tb_Rows t))) s)"
  unfolding SelectAll_def by (subst select_pages_fold [where t = t and f = f]) (use assms in \<open>auto simp: selected_def\<close>)

lemma SelectAll_no_table:
  "d table = None \<Longrightarrow> SelectAll E d table columns where' batchSize fn s = (Some (Inl (NoTable table)), s)"
  by (simp add: SelectAll_def select_pages.simps [of E d table] select_page_def)

lemma SelectAll_bad_column:
  "d table = Some t \<Longrightarrow> c \<notin> co_Name ` set (tb_Columns t) \<Longrightarrow>
   SelectAll E d table [c] where' batchSize fn s = (Some (Inl (BadColumn c)), s)"
  by (simp add: SelectAll_def select_pages.simps [of E d table] select_page_def)

section \<open>Batches of rows\<close>

lemma insert_rows_append:
  "insert_rows E table columns (xs @ ys) t = (case insert_rows E table columns xs t of
     (None, t') \<Rightarrow> insert_rows E table columns ys t' | (Some e, t') \<Rightarrow> (Some e, t'))"
  by (induction xs arbitrary: t) (auto split: sum.split)

text \<open>A statement of the MySQL adapter is all or nothing.\<close>

lemma mysql_batch_atomic:
  "en_kind E = MySQL \<Longrightarrow> InsertBatch E table columns rows d = (Some e, d') \<Longrightarrow> d' = d"
  by (auto simp: InsertBatch_defs split: if_splits option.splits prod.splits)

end
