(* ===== verification/Migrations.thy ===== *)
theory Migrations
  imports DbAdapter "HOL-Library.Char_ord" "HOL-Library.List_Lexorder"
begin

text \<open>
  src/internal/services/migrate/schema.go: the schema migrator, its migration files and the table in
  which it keeps what was applied.

  The directory is the list of its entries; \<open>os.ReadDir\<close> answers them by name. \<open>sort.Slice\<close> on versions is
  taken as stable, which matters for files of the same version only. The digest of a migration and the
  \<open>%v\<close> form of a value are functions; the clock is an argument.
\<close>

record dir_entry =
  de_Name :: string
  de_IsDir :: bool
  de_Content :: string

type_synonym dir = "dir_entry list"

record SchemaEntry =
  se_Version :: int
  se_Name :: string
  se_Description :: string
  se_AppliedAt :: instant
  se_Checksum :: string

record MigrationFile =
  mf_Version :: int
  mf_Filename :: string
  mf_Description :: string
  mf_Content :: string

record MigrationStatus =
  ms_Version :: int
  ms_Filename :: string
  ms_Description :: string
  ms_Applied :: bool
  ms_AppliedAt :: "instant option"
  ms_Checksum :: string

record MigrateStatus =
  st_Total :: int
  st_Applied :: int
  st_Pending :: int
  st_Migrations :: "MigrationStatus list"

record SchemaMigrator =
  sm_adapter :: engine
  sm_checksum :: "string \<Rightarrow> string"
  sm_fmt :: "val \<Rightarrow> string"

datatype mig_error =
    MigDb db_error
  | AlreadyApplied int
  | ApplyFailed string mig_error
  | ApplyAllFailed int string mig_error

definition migrations_table :: string where "migrations_table = ''_migrations''"

text \<open>The text of \<open>CREATE TABLE\<close>, up to white space.\<close>

definition Init :: "SchemaMigrator \<Rightarrow> db \<Rightarrow> db_error option \<times> db" where
  "Init m d =
    (let query = ''CREATE TABLE IF NOT EXISTS '' @ Quote (en_kind (sm_adapter m)) migrations_table @
           '' (version INT NOT NULL, name VARCHAR(255) NOT NULL, description TEXT, '' @
           ''applied_at TIMESTAMP NOT NULL DEFAULT CURRENT_TIMESTAMP, checksum VARCHAR(64) NOT NULL, PRIMARY KEY (version))'';
         query = (if en_kind (sm_adapter m) = MySQL then query @ '' ENGINE=InnoDB DEFAULT CHARSET=utf8mb4'' else query)
     in Exec (sm_adapter m) query d)"

section \<open>What was applied\<close>

definition row_version :: "row \<Rightarrow> int" where
  "row_version r = (case map_of r ''version'' of Some (AInt64 v) \<Rightarrow> v | Some (AFloat v) \<Rightarrow> v | _ \<Rightarrow> 0)"

definition entry_of :: "SchemaMigrator \<Rightarrow> instant \<Rightarrow> row \<Rightarrow> SchemaEntry" where
  "entry_of m now r =
    (let text = (\<lambda>k. case map_of r k of Some v \<Rightarrow> sm_fmt m v | None \<Rightarrow> [])
     in \<lparr>se_Version = row_version r, se_Name = text ''name'', se_Description = text ''description'',
         se_AppliedAt = (case map_of r ''applied_at'' of Some _ \<Rightarrow> now | None \<Rightarrow> 0), se_Checksum = text ''checksum''\<rparr>)"

definition note_entries :: "SchemaMigrator \<Rightarrow> instant \<Rightarrow> row list \<Rightarrow> SchemaEntry list \<Rightarrow> SchemaEntry list" where
  "note_entries m now batch entries = foldl (\<lambda>es r. filter (\<lambda>e. se_Version e \<noteq> row_version r) es @ [entry_of m now r]) entries batch"

definition Applied :: "SchemaMigrator \<Rightarrow> instant \<Rightarrow> db \<Rightarrow> mig_error + SchemaEntry list" where
  "Applied m now d = (case SelectAll (sm_adapter m) d migrations_table [] (\<lambda>_. True) 1000
       (\<lambda>batch es. (None :: unit option, note_entries m now batch es)) [] of
     (Some (Inl e), _) \<Rightarrow> Inl (MigDb e)
   | (_, entries) \<Rightarrow> Inr (sort_key se_Version entries))"

section \<open>Migration files\<close>

text \<open>\<open>fmt.Sscanf(s, "%d", &version)\<close>, which leaves the zero when it fails.\<close>

definition sscanf_d :: "string \<Rightarrow> int" where
  "sscanf_d s = (case scan_d s of None \<Rightarrow> 0 | Some v \<Rightarrow> v)"

definition stringsHasSuffix :: "string \<Rightarrow> string \<Rightarrow> bool" where
  "stringsHasSuffix s suf \<longleftrightarrow> length suf \<le> length s \<and> drop (length s - length suf) s = suf"

definition parseMigrationFilename :: "string \<Rightarrow> int \<times> string" where
  "parseMigrationFilename name =
    (let name = (if stringsHasSuffix name ''.sql'' then take (length name - 4) name else name);
         parts = split_2 CHR ''_'' name
     in (sscanf_d (hd parts), if length parts > 1 then map (\<lambda>c. if c = CHR ''_'' then CHR '' '' else c) (parts ! 1) else []))"

definition loadMigrations :: "dir \<Rightarrow> MigrationFile list" where
  "loadMigrations dir = sort_key mf_Version
     (map (\<lambda>e. case parseMigrationFilename (de_Name e) of (version, desc) \<Rightarrow>
         \<lparr>mf_Version = version, mf_Filename = de_Name e, mf_Description = desc, mf_Content = de_Content e\<rparr>)
       (filter (\<lambda>e. \<not> de_IsDir e \<and> stringsHasSuffix (de_Name e) ''.sql'') (sort_key de_Name dir)))"


section \<open>Applying\<close>






definition Status :: "SchemaMigrator \<Rightarrow> instant \<Rightarrow> dir \<Rightarrow> db \<Rightarrow> mig_error + MigrateStatus" where
  "Status m now dir d = (case Applied m now d of
     Inl e \<Rightarrow> Inl e
   | Inr applied \<Rightarrow>
       let allFiles = loadMigrations dir
       in Inr \<lparr>st_Total = int (length allFiles), st_Applied = int (length applied),
            st_Pending = int (length allFiles) - int (length applied),
            st_Migrations = map (\<lambda>f. let entry = find (\<lambda>e. se_Version e = mf_Version f) applied
              in \<lparr>ms_Version = mf_Version f, ms_Filename = mf_Filename f, ms_Description = mf_Description f,
                  ms_Applied = (entry \<noteq> None), ms_AppliedAt = map_option se_AppliedAt entry,
                  ms_Checksum = (case entry of None \<Rightarrow> [] | Some e \<Rightarrow> se_Checksum e)\<rparr>) allFiles\<rparr>)"

text \<open>\<open>fmt.Sprintf("%03d", v)\<close>; a negative version has more digits than that.\<close>

definition pad_version :: "int \<Rightarrow> string" where
  "pad_version v = (if v < 0 then fmt_int v else replicate (3 - length (fmt_int v)) CHR ''0'' @ fmt_int v)"

definition next_version :: "MigrationFile list \<Rightarrow> int" where
  "next_version files = foldl (\<lambda>v f. if mf_Version f \<ge> v then i64 (mf_Version f + 1) else v) 1 files"

definition CreateMigrationFile :: "(int \<Rightarrow> string \<Rightarrow> string) \<Rightarrow> string \<Rightarrow> dir \<Rightarrow> string \<times> dir" where
  "CreateMigrationFile header name dir =
    (let nextVer = next_version (loadMigrations dir);
         safeName = map (\<lambda>c. if c = CHR '' '' then CHR ''_'' else c) (ascii_lower name);
         filename = pad_version nextVer @ ''_'' @ safeName @ ''.sql''
     in (filename, filter (\<lambda>e. de_Name e \<noteq> filename) dir
          @ [\<lparr>de_Name = filename, de_IsDir = False, de_Content = header nextVer name\<rparr>]))"

definition SchemaDump :: "engine \<Rightarrow> db \<Rightarrow> TableSchema list" where
  "SchemaDump E d = concat (map (\<lambda>t. case GetTableSchema E d t of Inl _ \<Rightarrow> [] | Inr s \<Rightarrow> [s]) (en_tables E d))"

section \<open>The table of versions\<close>












section \<open>MySQL\<close>














definition demo_dir :: dir where
  "demo_dir = [\<lparr>de_Name = ''002_b.sql'', de_IsDir = False, de_Content = ''BAD''\<rparr>,
     \<lparr>de_Name = ''001_a.sql'', de_IsDir = False, de_Content = ''x; y''\<rparr>]"

lemma demo_files: "map mf_Version (loadMigrations demo_dir) = [1, 2]"
  by code_simp



section \<open>PostgreSQL\<close>



section \<open>New migrations\<close>

lemma next_version_above:
  assumes "\<forall>f \<in> set files. mf_Version f < 2 ^ 63 - 1" "1 \<le> v" "in_i64 v"
  shows "v \<le> foldl (\<lambda>v f. if mf_Version f \<ge> v then i64 (mf_Version f + 1) else v) v files
    \<and> in_i64 (foldl (\<lambda>v f. if mf_Version f \<ge> v then i64 (mf_Version f + 1) else v) v files)
    \<and> (\<forall>f \<in> set files. mf_Version f < foldl (\<lambda>v f. if mf_Version f \<ge> v then i64 (mf_Version f + 1) else v) v files)"
  using assms
proof (induction files arbitrary: v)
  case (Cons f files)
  let ?v = "if mf_Version f \<ge> v then i64 (mf_Version f + 1) else v"
  have v: "v \<le> ?v" "mf_Version f < ?v" "in_i64 ?v"
    using Cons.prems i64_small [of "mf_Version f + 1"] by (auto simp: in_i64_def)
  let ?r = "foldl (\<lambda>v f. if mf_Version f \<ge> v then i64 (mf_Version f + 1) else v) ?v files"
  have "?v \<le> ?r \<and> in_i64 ?r \<and> (\<forall>f \<in> set files. mf_Version f < ?r)"
    using Cons.prems v by (intro Cons.IH) auto
  with v have "v \<le> ?r" "in_i64 ?r" "mf_Version f < ?r" "\<forall>f \<in> set files. mf_Version f < ?r" by auto
  then show ?case by (simp only: foldl.simps list.set ball_simps)
qed simp

lemma digits_val_digit: "c \<in> set (digits n) \<Longrightarrow> digit_val c \<noteq> None \<and> c \<noteq> CHR ''_''"
proof -
  assume "c \<in> set (digits n)"
  then have "c \<in> set ''0123456789''" by (rule subsetD [OF digits_set])
  then obtain i where "i < length ''0123456789''" "''0123456789'' ! i = c" by (metis in_set_conv_nth)
  then have "digit_val c = Some i" using digit_val_digit [of i] by (simp add: digit_def)
  moreover have "c \<noteq> CHR ''_''" using \<open>c \<in> set ''0123456789''\<close> by auto
  ultimately show ?thesis by simp
qed

lemma pad_version_digits:
  assumes "0 \<le> v"
  obtains k where "pad_version v = replicate k CHR ''0'' @ digits (nat v)"
  using that assms by (simp add: pad_version_def fmt_int_def)

lemma zeros_digits_val: "digits_val 0 (replicate k CHR ''0'' @ s) = digits_val 0 s"
  by (induction k) (simp_all add: digit_val_def)

lemma sscanf_pad:
  assumes "0 \<le> v" "in_i64 v"
  shows "sscanf_d (pad_version v) = v"
proof -
  obtain k where k: "pad_version v = replicate k CHR ''0'' @ digits (nat v)" by (rule pad_version_digits [OF assms(1)])
  let ?s = "pad_version v"
  have dig: "digit_val c \<noteq> None" if "c \<in> set ?s" for c
    using that digits_val_digit [of c "nat v"] unfolding k by (auto simp: digit_val_def split: if_splits)
  obtain c cs where c: "?s = c # cs" unfolding k by (cases "replicate k CHR ''0'' @ digits (nat v)") auto
  with dig have "digit_val c \<noteq> None" by simp
  then have start: "\<not> is_space c" "c \<noteq> CHR ''-''" "c \<noteq> CHR ''+''"
    by (auto simp: digit_val_def is_space_def split: if_splits)
  have "takeWhile (\<lambda>c. digit_val c \<noteq> None) ?s = ?s" using dig by (simp add: takeWhile_eq_all_conv)
  moreover have "digits_val 0 ?s = Some (nat v)" unfolding k by (simp add: zeros_digits_val digits_val_digits)
  ultimately show ?thesis using start assms unfolding c by (simp add: sscanf_d_def scan_d_def scan_digits_def skip_space_def)
qed

lemma suffix_sql: "stringsHasSuffix (s @ ''.sql'') ''.sql''"
  by (simp add: stringsHasSuffix_def)

lemma parse_created:
  assumes "0 \<le> v" "in_i64 v"
  shows "fst (parseMigrationFilename (pad_version v @ ''_'' @ name @ ''.sql'')) = v"
proof -
  obtain k where k: "pad_version v = replicate k CHR ''0'' @ digits (nat v)" by (rule pad_version_digits [OF assms(1)])
  have no: "CHR ''_'' \<notin> set (pad_version v)" using digits_val_digit [of "CHR ''_''" "nat v"] unfolding k by auto
  have "parseMigrationFilename (pad_version v @ ''_'' @ name @ ''.sql'')
      = (sscanf_d (pad_version v), map (\<lambda>c. if c = CHR ''_'' then CHR '' '' else c) name)"
    using suffix_sql [of "pad_version v @ ''_'' @ name"] split_2_word [OF no, of name]
    by (simp add: parseMigrationFilename_def)
  then show ?thesis by (simp add: sscanf_pad assms)
qed

lemma image_filter_insert: "P a \<Longrightarrow> g ` {e \<in> insert a S. P e} = insert (g a) (g ` {e \<in> S. P e})"
  by auto

lemma last_sort_key: "x \<in> set (sort_key f xs) \<Longrightarrow> f x \<le> f (last (sort_key f xs))"
proof -
  assume x: "x \<in> set (sort_key f xs)"
  then obtain ys y where ys: "sort_key f xs = ys @ [y]" by (metis append_butlast_last_id empty_iff list.set(1))
  then have "sorted (map f (ys @ [y]))" by (metis sorted_sort_key)
  then show "f x \<le> f (last (sort_key f xs))" using x unfolding ys by (auto simp: sorted_append)
qed

text \<open>A migration file that \<open>CreateMigrationFile\<close> creates comes last. Its name, padded or not, is read back
  as the next version, which is above the version of every file of the directory, so that the new file
  is the last one of the migrations and nothing that is there changes its place.\<close>

lemma created_migration_last:
  assumes "\<forall>f \<in> set (loadMigrations dir). mf_Version f < 2 ^ 63 - 1"
    and "CreateMigrationFile header name dir = (filename, dir')"
    and "filename \<notin> de_Name ` set dir"
  shows "\<exists>f. mf_Filename f = filename \<and> (\<forall>g \<in> set (loadMigrations dir). mf_Version g < mf_Version f)
    \<and> set (loadMigrations dir') = insert f (set (loadMigrations dir)) \<and> last (loadMigrations dir') = f"
proof -
  let ?v = "next_version (loadMigrations dir)"
  let ?safe = "map (\<lambda>c. if c = CHR '' '' then CHR ''_'' else c) (ascii_lower name)"
  let ?mig = "\<lambda>e. case parseMigrationFilename (de_Name e) of (version, desc) \<Rightarrow>
    \<lparr>mf_Version = version, mf_Filename = de_Name e, mf_Description = desc, mf_Content = de_Content e\<rparr>"
  let ?new = "\<lparr>de_Name = filename, de_IsDir = False, de_Content = header ?v name\<rparr>"
  from assms(2) have name: "filename = pad_version ?v @ ''_'' @ ?safe @ ''.sql''"
    and dir': "dir' = filter (\<lambda>e. de_Name e \<noteq> filename) dir @ [?new]"
    by (auto simp: CreateMigrationFile_def Let_def)
  from dir' assms(3) have added: "set dir' = insert ?new (set dir)" by (auto intro: rev_image_eqI)
  have v: "1 \<le> ?v" "in_i64 ?v" "\<forall>f \<in> set (loadMigrations dir). mf_Version f < ?v"
    using next_version_above [OF assms(1), of 1] by (auto simp: next_version_def in_i64_def)
  have files: "set (loadMigrations d) = ?mig ` {e \<in> set d. \<not> de_IsDir e \<and> stringsHasSuffix (de_Name e) ''.sql''}" for d
    by (simp add: loadMigrations_def)
  have "stringsHasSuffix filename ''.sql''"
    using suffix_sql [of "pad_version ?v @ ''_'' @ ?safe"] by (simp add: name)
  then have set: "set (loadMigrations dir') = insert (?mig ?new) (set (loadMigrations dir))"
    unfolding files added by (rule_tac image_filter_insert) simp
  have new: "mf_Version (?mig ?new) = ?v" "mf_Filename (?mig ?new) = filename"
    using parse_created [of ?v ?safe] v(1,2) by (auto simp: name split: prod.split)
  let ?l = "loadMigrations dir'"
  have "?l \<noteq> []" using set by auto
  moreover from this have "\<forall>f \<in> set ?l. mf_Version f \<le> mf_Version (last ?l)"
    unfolding loadMigrations_def by (intro ballI last_sort_key)
  ultimately have "last ?l \<in> set ?l" "mf_Version (?mig ?new) \<le> mf_Version (last ?l)" using set by auto
  with set new v(3) have "last ?l = ?mig ?new" by fastforce
  with set new v(3) show ?thesis by (intro exI [of _ "?mig ?new"] conjI) simp_all
qed

lemma created_migration_last_witness:
  "\<exists>filename dir'. CreateMigrationFile (\<lambda>_ n. n) ''Add Users'' demo_dir = (filename, dir')
    \<and> mf_Filename (last (loadMigrations dir')) = filename"
proof -
  obtain filename dir' where run: "CreateMigrationFile (\<lambda>_ n. n) ''Add Users'' demo_dir = (filename, dir')" by fastforce
  have "fst (CreateMigrationFile (\<lambda>_ n. n) ''Add Users'' demo_dir) = ''003_add_users.sql''" by code_simp
  with run have "filename \<notin> de_Name ` set demo_dir" by (simp add: demo_dir_def)
  moreover have "list_all (\<lambda>v. v < 2 ^ 63 - 1) (map mf_Version (loadMigrations demo_dir))" unfolding demo_files by simp
  then have "\<forall>f \<in> set (loadMigrations demo_dir). mf_Version f < 2 ^ 63 - 1" by (simp add: list_all_iff)
  ultimately show ?thesis using created_migration_last [OF _ run] run by blast
qed

end
