(* ===== verification/DumpRestore.thy ===== *)
theory DumpRestore
  imports DbAdapter
begin

text \<open>
  src/internal/services/migrate/dumper.go, restorer.go and transfer.go: dumps as JSON, CSV and SQL, their
  restoration, and the copying of tables from one database to another.

  A JSON document is what the decoder makes of it: a list of tables, in the order in which the decoder's
  map is iterated. What \<open>encoding/json\<close> does to a value is written out, with the rounding of an integer to
  a \<open>float64\<close>, the replacement of invalid UTF-8 and the text of a time as parameters. The CSV reader and
  the \<open>%v\<close> form of a value are parameters.
\<close>

section \<open>Values in JSON\<close>

definition b64_alphabet :: string where
  "b64_alphabet = ''ABCDEFGHIJKLMNOPQRSTUVWXYZabcdefghijklmnopqrstuvwxyz0123456789+/''"

definition b64_char :: "nat \<Rightarrow> char" where
  "b64_char n = b64_alphabet ! (n mod 64)"

text \<open>\<open>base64.StdEncoding\<close>, the form of a \<open>[]byte\<close> in JSON.\<close>

fun b64 :: "string \<Rightarrow> string" where
  "b64 [] = []"
| "b64 [a] = (let n = of_char a * 16 in [b64_char (n div 64), b64_char n, CHR ''='', CHR ''=''])"
| "b64 [a, b] = (let n = (of_char a * 256 + of_char b) * 4
     in [b64_char (n div 4096), b64_char (n div 64), b64_char n, CHR ''=''])"
| "b64 (a # b # c # cs) = (let n = of_char a * 65536 + of_char b * 256 + of_char c
     in [b64_char (n div 262144), b64_char (n div 4096), b64_char (n div 64), b64_char n] @ b64 cs)"

record json =
  js_float :: "int \<Rightarrow> int"
  js_utf8 :: "string \<Rightarrow> string"
  js_time :: "int \<Rightarrow> string"

fun json_value :: "json \<Rightarrow> val \<Rightarrow> val" where
  "json_value J ANil = ANil"
| "json_value J (AInt i) = AFloat (js_float J i)"
| "json_value J (AInt32 i) = AFloat (js_float J i)"
| "json_value J (AInt64 i) = AFloat (js_float J i)"
| "json_value J (AFloat i) = AFloat i"
| "json_value J (ABool b) = ABool b"
| "json_value J (AString s) = AString (js_utf8 J s)"
| "json_value J (ABytes s) = AString (b64 s)"
| "json_value J (ATime t) = AString (js_time J t)"

definition json_row :: "json \<Rightarrow> row \<Rightarrow> row" where
  "json_row J r = map (\<lambda>(k, v). (k, json_value J v)) r"

section \<open>Dumping\<close>

datatype Format = FormatJSON | FormatCSV | FormatSQL | FormatOther string

record DumpOptions =
  do_Tables :: "string list"
  do_Format :: "Format option"
  do_Where :: "string \<Rightarrow> row \<Rightarrow> bool"
  do_BatchSize :: int
  do_NoData :: bool
  do_SchemaOnly :: bool

datatype entry = Schema TableSchema | Rows "row list"

type_synonym doc = "(string \<times> entry) list"

datatype dump = DumpDoc doc | DumpText string

record DumpResult =
  dr_Data :: dump
  dr_Format :: Format
  dr_TableCount :: nat
  dr_RowCount :: int
  dr_Tables :: "string list"

datatype dump_error = DumpDb string db_error | BadFormat string

definition containsString :: "string list \<Rightarrow> string \<Rightarrow> bool" where
  "containsString items s \<longleftrightarrow> s \<in> set items"

fun table_list :: "string list \<Rightarrow> string list \<Rightarrow> string list" where
  "table_list acc [] = acc"
| "table_list acc (t # ts) = table_list (if containsString acc t then acc else acc @ [t]) ts"

definition collect :: "row list \<Rightarrow> row list \<Rightarrow> unit option \<times> row list" where
  "collect batch acc = (None, acc @ batch)"

definition table_rows :: "engine \<Rightarrow> db \<Rightarrow> DumpOptions \<Rightarrow> string \<Rightarrow> dump_error + row list" where
  "table_rows E d opts table = (case SelectAll E d table [] (do_Where opts table) (do_BatchSize opts) collect [] of
     (Some (Inl e), _) \<Rightarrow> Inl (DumpDb table e)
   | (_, rows) \<Rightarrow> Inr rows)"

text \<open>The entries of \<open>result\<close>, one for each table in the order of the first mentions, and the number of rows.\<close>

fun dump_entries :: "engine \<Rightarrow> db \<Rightarrow> DumpOptions \<Rightarrow> string list \<Rightarrow> string list \<Rightarrow> dump_error + doc \<times> int" where
  "dump_entries E d opts dumped [] = Inr ([], 0)"
| "dump_entries E d opts dumped (table # tables) =
    (if table \<in> set dumped then dump_entries E d opts dumped tables
     else if do_SchemaOnly opts \<or> do_NoData opts then
       (case GetTableSchema E d table of
          Inl e \<Rightarrow> Inl (DumpDb table e)
        | Inr schema \<Rightarrow> (case dump_entries E d opts (table # dumped) tables of
            Inl e \<Rightarrow> Inl e | Inr (entries, n) \<Rightarrow> Inr ((table, Schema schema) # entries, n)))
     else (case table_rows E d opts table of
          Inl e \<Rightarrow> Inl e
        | Inr rows \<Rightarrow> (case dump_entries E d opts (table # dumped) tables of
            Inl e \<Rightarrow> Inl e | Inr (entries, n) \<Rightarrow> Inr ((table, Rows rows) # entries, int (length rows) + n))))"

fun json_entry :: "json \<Rightarrow> entry \<Rightarrow> entry" where
  "json_entry J (Schema s) = Schema s"
| "json_entry J (Rows rows) = Rows (map (json_row J) rows)"

definition dumpJSON :: "json \<Rightarrow> engine \<Rightarrow> db \<Rightarrow> string list \<Rightarrow> DumpOptions \<Rightarrow> dump_error + DumpResult" where
  "dumpJSON J E d tables opts = (case dump_entries E d opts [] tables of
     Inl e \<Rightarrow> Inl e
   | Inr (entries, n) \<Rightarrow>
       Inr \<lparr>dr_Data = DumpDoc (map (\<lambda>(t, e). (t, json_entry J e)) entries), dr_Format = FormatJSON,
         dr_TableCount = length (table_list [] tables), dr_RowCount = n, dr_Tables = table_list [] tables\<rparr>)"

definition join :: "string \<Rightarrow> string list \<Rightarrow> string" where
  "join sep xs = (case xs of [] \<Rightarrow> [] | x # xs \<Rightarrow> concat (x # map (\<lambda>y. sep @ y) xs))"

abbreviation nl :: string where "nl \<equiv> [CHR 0x0A]"

definition formatCSVValue :: "(val \<Rightarrow> string) \<Rightarrow> val \<Rightarrow> string" where
  "formatCSVValue fmt v =
    (if v = ANil then []
     else let s = concat (map (\<lambda>c. if c = CHR 0x22 then [CHR 0x22, CHR 0x22] else [c]) (fmt v))
       in if set s \<inter> {CHR '','', CHR 0x22, CHR 0x0A} \<noteq> {} then CHR 0x22 # s @ [CHR 0x22] else s)"

fun dump_csv :: "(val \<Rightarrow> string) \<Rightarrow> engine \<Rightarrow> db \<Rightarrow> DumpOptions \<Rightarrow> string list \<Rightarrow> string list \<Rightarrow> dump_error + string \<times> int" where
  "dump_csv fmt E d opts dumped [] = Inr ([], 0)"
| "dump_csv fmt E d opts dumped (table # tables) =
    (if table \<in> set dumped then dump_csv fmt E d opts dumped tables
     else case columns_of E d table of
       Inl e \<Rightarrow> Inl (DumpDb table e)
     | Inr cols \<Rightarrow>
         let colNames = map co_Name cols;
             head = ''-- TABLE: '' @ table @ nl @ join '','' colNames @ nl
         in (case (if do_SchemaOnly opts \<or> do_NoData opts then Inr [] else table_rows E d opts table) of
              Inl e \<Rightarrow> Inl e
            | Inr rows \<Rightarrow> (case dump_csv fmt E d opts (table # dumped) tables of
                Inl e \<Rightarrow> Inl e
              | Inr (text, n) \<Rightarrow> Inr (head @ concat (map (\<lambda>r. join '',''
                   (map (\<lambda>c. formatCSVValue fmt (case map_of r c of None \<Rightarrow> ANil | Some v \<Rightarrow> v)) colNames) @ nl) rows) @ text,
                   int (length rows) + n))))"

definition dumpCSV :: "(val \<Rightarrow> string) \<Rightarrow> engine \<Rightarrow> db \<Rightarrow> string list \<Rightarrow> DumpOptions \<Rightarrow> dump_error + DumpResult" where
  "dumpCSV fmt E d tables opts = (case dump_csv fmt E d opts [] tables of
     Inl e \<Rightarrow> Inl e
   | Inr (text, n) \<Rightarrow> Inr \<lparr>dr_Data = DumpText text, dr_Format = FormatCSV,
       dr_TableCount = length (table_list [] tables), dr_RowCount = n, dr_Tables = table_list [] tables\<rparr>)"

definition sql_text :: "string \<Rightarrow> string" where
  "sql_text s = CHR 0x27 # concat (map (\<lambda>c. if c = CHR 0x27 then [CHR 0x27, CHR 0x27] else [c]) s) @ [CHR 0x27]"

fun formatSQLValue :: "(val \<Rightarrow> string) \<Rightarrow> val \<Rightarrow> string" where
  "formatSQLValue fmt ANil = ''NULL''"
| "formatSQLValue fmt (AInt i) = fmt_int i"
| "formatSQLValue fmt (AInt32 i) = fmt_int i"
| "formatSQLValue fmt (AInt64 i) = fmt_int i"
| "formatSQLValue fmt (AFloat i) = fmt (AFloat i)"
| "formatSQLValue fmt (ABool b) = (if b then ''1'' else ''0'')"
| "formatSQLValue fmt (AString s) = sql_text s"
| "formatSQLValue fmt (ABytes s) = sql_text s"
| "formatSQLValue fmt (ATime t) = sql_text (fmt (ATime t))"

definition create_text :: "DBType \<Rightarrow> TableSchema \<Rightarrow> string" where
  "create_text k schema =
    (let defs = map (\<lambda>c. Quote k (co_Name c) @ '' '' @ co_Type c @ (if co_Nullable c then [] else '' NOT NULL'')) (ts_Columns schema)
     in ''CREATE TABLE IF NOT EXISTS '' @ Quote k (ts_Name schema) @ '' ('' @ nl @ ''  '' @ join ('','' @ nl @ ''  '') defs @ nl @ '')''
        @ (case k of MySQL \<Rightarrow> '' ENGINE=InnoDB DEFAULT CHARSET=utf8mb4'' | Postgres \<Rightarrow> []))"

definition insert_text :: "(val \<Rightarrow> string) \<Rightarrow> DBType \<Rightarrow> string \<Rightarrow> string list \<Rightarrow> row \<Rightarrow> string" where
  "insert_text fmt k table cols r = ''INSERT INTO '' @ Quote k table @ '' ('' @ join '', '' (map (Quote k) cols) @ '') VALUES ('' @
     join '', '' (map (\<lambda>c. formatSQLValue fmt (case map_of r c of None \<Rightarrow> ANil | Some v \<Rightarrow> v)) cols) @ '')''"

fun dump_sql :: "(val \<Rightarrow> string) \<Rightarrow> engine \<Rightarrow> db \<Rightarrow> DumpOptions \<Rightarrow> string list \<Rightarrow> string list \<Rightarrow> dump_error + string \<times> int" where
  "dump_sql fmt E d opts dumped [] = Inr ([], 0)"
| "dump_sql fmt E d opts dumped (table # tables) =
    (if table \<in> set dumped then dump_sql fmt E d opts dumped tables
     else case GetTableSchema E d table of
       Inl e \<Rightarrow> Inl (DumpDb table e)
     | Inr schema \<Rightarrow>
         let head = create_text (en_kind E) schema @ '';'' @ nl @ nl;
             cols = map co_Name (ts_Columns schema)
         in (case (if do_SchemaOnly opts \<or> do_NoData opts then Inr None else map_sum id Some (table_rows E d opts table)) of
              Inl e \<Rightarrow> Inl e
            | Inr rows \<Rightarrow> (case dump_sql fmt E d opts (table # dumped) tables of
                Inl e \<Rightarrow> Inl e
              | Inr (text, n) \<Rightarrow> (case rows of
                  None \<Rightarrow> Inr (head @ text, n)
                | Some rows \<Rightarrow> Inr (head @ concat (map (\<lambda>r. insert_text fmt (en_kind E) table cols r @ '';'' @ nl) rows) @ nl @ text,
                    int (length rows) + n)))))"

definition dumpSQL :: "(val \<Rightarrow> string) \<Rightarrow> engine \<Rightarrow> db \<Rightarrow> string list \<Rightarrow> DumpOptions \<Rightarrow> dump_error + DumpResult" where
  "dumpSQL fmt E d tables opts = (case dump_sql fmt E d opts [] tables of
     Inl e \<Rightarrow> Inl e
   | Inr (text, n) \<Rightarrow> Inr \<lparr>dr_Data = DumpText (''-- Dump created at now'' @ nl @ ''-- Database: '' @
         (case en_kind E of MySQL \<Rightarrow> ''mysql'' | Postgres \<Rightarrow> ''postgres'') @ nl @ nl @ text), dr_Format = FormatSQL,
       dr_TableCount = length (table_list [] tables), dr_RowCount = n, dr_Tables = table_list [] tables\<rparr>)"

definition Dump :: "json \<Rightarrow> (val \<Rightarrow> string) \<Rightarrow> engine \<Rightarrow> db \<Rightarrow> DumpOptions \<Rightarrow> dump_error + DumpResult" where
  "Dump J fmt E d opts =
    (let tables = (if do_Tables opts = [] then en_tables E d else do_Tables opts);
         opts = opts\<lparr>do_BatchSize := (if do_BatchSize opts \<le> 0 then 1000 else do_BatchSize opts)\<rparr>
     in (case do_Format opts of
          None \<Rightarrow> dumpJSON J E d tables opts
        | Some FormatJSON \<Rightarrow> dumpJSON J E d tables opts
        | Some FormatCSV \<Rightarrow> dumpCSV fmt E d tables opts
        | Some FormatSQL \<Rightarrow> dumpSQL fmt E d tables opts
        | Some (FormatOther f) \<Rightarrow> Inl (BadFormat f)))"

section \<open>Restoring\<close>

record RestoreOptions =
  ro_Format :: "Format option"
  ro_Tables :: "string list"
  ro_Truncate :: bool
  ro_SkipExisting :: bool
  ro_BatchSize :: int

datatype restore_note =
    TruncateFailed string db_error
  | ColumnsFailed string db_error
  | ImportFailed string nat db_error
  | SqlFailed string db_error

record RestoreResult =
  rr_TableCount :: int
  rr_RowCount :: int
  rr_Errors :: "restore_note list"

datatype restore_error = NotJSON | NotCSV | TooFewRecords | UnknownFormat string

definition no_result :: RestoreResult where
  "no_result = \<lparr>rr_TableCount = 0, rr_RowCount = 0, rr_Errors = []\<rparr>"

definition count_table :: "RestoreResult \<Rightarrow> RestoreResult" where
  "count_table res = res\<lparr>rr_TableCount := rr_TableCount res + 1\<rparr>"

definition note_error :: "restore_note \<Rightarrow> RestoreResult \<Rightarrow> RestoreResult" where
  "note_error x res = res\<lparr>rr_Errors := rr_Errors res @ [x]\<rparr>"

text \<open>The loop over the batches, from row \<open>i\<close> on; a batch that fails is noted, and the next one is tried.\<close>

function import_batches :: "engine \<Rightarrow> string \<Rightarrow> string list \<Rightarrow> nat \<Rightarrow> nat \<Rightarrow> row list \<Rightarrow> RestoreResult \<Rightarrow> db \<Rightarrow> RestoreResult \<times> db" where
  "import_batches E table cols batchSize i rows res d =
    (if batchSize = 0 \<or> length rows \<le> i then (res, d)
     else let batch = take batchSize (drop i rows)
       in (case InsertBatch E table cols batch d of
         (Some e, d') \<Rightarrow> import_batches E table cols batchSize (i + batchSize) rows (note_error (ImportFailed table i e) res) d'
       | (None, d') \<Rightarrow> import_batches E table cols batchSize (i + batchSize) rows
           (res\<lparr>rr_RowCount := rr_RowCount res + int (length batch)\<rparr>) d'))"
  by auto
termination
  by (relation "measure (\<lambda>(E, table, cols, b, i, rows, res, d). length rows - i)") auto

declare import_batches.simps [simp del]

text \<open>
  \<open>SkipExisting\<close> asks for a column whose name is \<open>COUNT(*) AS cnt\<close>, since the adapter quotes it, and
  ignores the error.
\<close>

definition has_rows :: "engine \<Rightarrow> db \<Rightarrow> string \<Rightarrow> bool" where
  "has_rows E d table = snd (SelectAll E d table [''COUNT(*) AS cnt''] (\<lambda>_. True) 1
     (\<lambda>batch found. (None :: unit option, found \<or> batch \<noteq> [])) False)"

definition restore_rows :: "engine \<Rightarrow> RestoreOptions \<Rightarrow> string \<Rightarrow> row list \<Rightarrow> RestoreResult \<times> db \<Rightarrow> RestoreResult \<times> db" where
  "restore_rows E opts table rows st =
    (case st of (res, d) \<Rightarrow>
      (case (if ro_Truncate opts then Truncate table d else (None, d)) of
         (Some e, d') \<Rightarrow> (note_error (TruncateFailed table e) res, d')
       | (None, d') \<Rightarrow> (case columns_of E d' table of
           Inl e \<Rightarrow> (note_error (ColumnsFailed table e) res, d')
         | Inr tableCols \<Rightarrow>
             let validCols = filter (\<lambda>c. c \<in> co_Name ` set tableCols) (map fst (hd rows))
             in if ro_SkipExisting opts \<and> has_rows E d' table then (count_table res, d')
                else (case import_batches E table validCols (nat (ro_BatchSize opts)) 0 rows res d' of
                  (res', d'') \<Rightarrow> (count_table res', d'')))))"

definition restore_entry :: "engine \<Rightarrow> RestoreOptions \<Rightarrow> RestoreResult \<times> db \<Rightarrow> string \<times> entry \<Rightarrow> RestoreResult \<times> db" where
  "restore_entry E opts st x =
    (case x of (table, entry) \<Rightarrow>
      if ro_Tables opts \<noteq> [] \<and> \<not> containsString (ro_Tables opts) table then st
      else case entry of
        Schema _ \<Rightarrow> st
      | Rows rows \<Rightarrow>
          if rows = [] then st
          else if length rows = 1 \<and> ''_schema'' \<in> set (map fst (hd rows)) then st
          else restore_rows E opts table rows st)"

definition restoreJSON :: "engine \<Rightarrow> RestoreOptions \<Rightarrow> doc \<Rightarrow> db \<Rightarrow> RestoreResult \<times> db" where
  "restoreJSON E opts tablesData d = foldl (restore_entry E opts) (no_result, d) tablesData"

text \<open>The name of the table is looked for in the fields of the first record.\<close>

definition csv_table :: "string list list \<Rightarrow> string \<times> string list \<times> string list list" where
  "csv_table records = (case find (\<lambda>h. has_prefix h ''TABLE: '') (hd records) of
     Some h \<Rightarrow> (drop 7 h, records ! 1, tl records)
   | None \<Rightarrow> ([], hd records, records))"

definition csv_row :: "string list \<Rightarrow> string list \<Rightarrow> row" where
  "csv_row headers record = map (\<lambda>(h, v). (h, AString v)) (filter (\<lambda>(h, v). \<not> has_prefix h ''--'') (zip headers record))"

definition restoreCSV :: "(string \<Rightarrow> string list list option) \<Rightarrow> engine \<Rightarrow> RestoreOptions \<Rightarrow> string \<Rightarrow> db
    \<Rightarrow> restore_error + RestoreResult \<times> db" where
  "restoreCSV csv E opts data d = (case csv data of
     None \<Rightarrow> Inl NotCSV
   | Some records \<Rightarrow>
       if length records < 2 then Inl TooFewRecords
       else (case csv_table records of (tableName, headers, records) \<Rightarrow>
         let tableName = (if tableName = [] then ''data'' else tableName)
         in if ro_Tables opts \<noteq> [] \<and> \<not> containsString (ro_Tables opts) tableName then Inr (no_result, d)
            else
              let rows = filter (\<lambda>r. r \<noteq> []) (map (csv_row headers)
                    (filter (\<lambda>record. record \<noteq> [] \<and> length record = length headers) (tl records)));
                  d' = (if ro_Truncate opts then snd (Truncate tableName d) else d)
              in (case import_batches E tableName headers (nat (ro_BatchSize opts)) 0 rows no_result d' of
                (res, d'') \<Rightarrow> Inr (count_table res, d''))))"

definition index_of :: "string \<Rightarrow> string \<Rightarrow> nat option" where
  "index_of s sub = find (\<lambda>i. has_prefix (drop i s) sub) [0..<Suc (length s)]"

definition trim_set :: "char set \<Rightarrow> string \<Rightarrow> string" where
  "trim_set cs s = rev (dropWhile (\<lambda>c. c \<in> cs) (rev (dropWhile (\<lambda>c. c \<in> cs) s)))"

definition extractTableFromInsert :: "string \<Rightarrow> string" where
  "extractTableFromInsert stmt = (case index_of (ascii_upper stmt) ''INTO'' of
     None \<Rightarrow> []
   | Some idx \<Rightarrow>
       let rest = trim_space (drop (idx + 4) stmt)
       in trim_set {CHR '' ''} (trim_set {CHR ''`'', CHR 0x22, CHR 0x27} (takeWhile (\<lambda>c. c \<noteq> CHR '' '' \<and> c \<noteq> CHR ''('') rest)))"

fun run_statements :: "engine \<Rightarrow> RestoreOptions \<Rightarrow> string list \<Rightarrow> RestoreResult \<Rightarrow> db \<Rightarrow> RestoreResult \<times> db" where
  "run_statements E opts [] res d = (res, d)"
| "run_statements E opts (stmt # stmts) res d =
    (if ro_SkipExisting opts \<and> has_prefix (ascii_upper stmt) ''INSERT'' \<and> extractTableFromInsert stmt \<noteq> []
        \<and> has_rows E d (extractTableFromInsert stmt) then run_statements E opts stmts res d
     else case Exec E stmt d of
       (Some e, d') \<Rightarrow> run_statements E opts stmts (note_error (SqlFailed (truncateStr stmt 80) e) res) d'
     | (None, d') \<Rightarrow> run_statements E opts stmts (res\<lparr>rr_RowCount := rr_RowCount res + 1\<rparr>) d')"

definition restoreSQL :: "engine \<Rightarrow> RestoreOptions \<Rightarrow> string \<Rightarrow> db \<Rightarrow> RestoreResult \<times> db" where
  "restoreSQL E opts data d =
    (let filtered = filter (\<lambda>stmt. stmt \<noteq> [] \<and> (ro_Tables opts = [] \<or>
           list_ex (\<lambda>table. contains_sub (ascii_upper stmt) (ascii_upper table)) (ro_Tables opts)))
         (map trim_space (splitSQL data))
     in (case run_statements E opts filtered no_result d of
          (res, d') \<Rightarrow> (res\<lparr>rr_TableCount := int (length filtered)\<rparr>, d')))"

definition detectFormat :: "string \<Rightarrow> Format" where
  "detectFormat data =
    (let trimmed = trim_space data
     in if trimmed = [] then FormatJSON
        else if hd trimmed = CHR ''['' \<or> hd trimmed = CHR ''{'' then FormatJSON
        else if has_prefix trimmed ''INSERT INTO'' \<or> has_prefix trimmed ''CREATE TABLE'' \<or> has_prefix trimmed ''-- '' then FormatSQL
        else if CHR '','' \<in> set trimmed \<and> CHR 0x0A \<in> set trimmed then FormatCSV
        else FormatJSON)"

text \<open>\<open>decode\<close> is the JSON decoder.\<close>

definition Restore :: "(string \<Rightarrow> doc option) \<Rightarrow> (string \<Rightarrow> string list list option) \<Rightarrow> engine \<Rightarrow> string \<Rightarrow> RestoreOptions \<Rightarrow> db
    \<Rightarrow> restore_error + RestoreResult \<times> db" where
  "Restore decode csv E data opts d =
    (let format = (case ro_Format opts of None \<Rightarrow> detectFormat data | Some f \<Rightarrow> f);
         opts = opts\<lparr>ro_BatchSize := (if ro_BatchSize opts \<le> 0 then 500 else ro_BatchSize opts)\<rparr>
     in (case format of
          FormatJSON \<Rightarrow> (case decode data of None \<Rightarrow> Inl NotJSON | Some tablesData \<Rightarrow> Inr (restoreJSON E opts tablesData d))
        | FormatCSV \<Rightarrow> restoreCSV csv E opts data d
        | FormatSQL \<Rightarrow> Inr (restoreSQL E opts data d)
        | FormatOther f \<Rightarrow> Inl (UnknownFormat f)))"

section \<open>Transfer\<close>

record TransferOptions =
  to_Tables :: "string list"
  to_BatchSize :: int
  to_CreateTable :: bool
  to_DropTarget :: bool

datatype transfer_note =
    SchemaFailed string db_error
  | CreateFailed string db_error
  | CopyFailed string "db_error + db_error"

record TransferResult =
  tr_TableCount :: int
  tr_RowCount :: int
  tr_Errors :: "transfer_note list"

definition copy_batch :: "engine \<Rightarrow> string \<Rightarrow> string list \<Rightarrow> row list \<Rightarrow> db \<times> int \<Rightarrow> db_error option \<times> db \<times> int" where
  "copy_batch E table colNames batch st = (case st of (d, n) \<Rightarrow>
     (case InsertBatch E table colNames batch d of
        (Some e, d') \<Rightarrow> (Some e, d', n)
      | (None, d') \<Rightarrow> (None, d', n + int (length batch))))"

definition transferTable :: "engine \<Rightarrow> engine \<Rightarrow> db \<Rightarrow> TransferOptions \<Rightarrow> TransferResult \<Rightarrow> string \<Rightarrow> db \<Rightarrow> TransferResult \<times> db" where
  "transferTable S E src opts res table d =
    (let failed = (\<lambda>note d. (res\<lparr>tr_Errors := tr_Errors res @ [note]\<rparr>, d))
     in (case GetTableSchema S src table of
       Inl e \<Rightarrow> failed (SchemaFailed table e) d
     | Inr schema \<Rightarrow>
         let d1 = (if to_DropTarget opts then snd (Exec E (''DROP TABLE IF EXISTS '' @ Quote (en_kind E) table) d) else d)
         in (case (if to_CreateTable opts \<or> to_DropTarget opts then CreateTableIfNotExists E schema d1 else (None, d1)) of
           (Some e, d2) \<Rightarrow> failed (CreateFailed table e) d2
         | (None, d2) \<Rightarrow>
             (case SelectAll S src table [] (\<lambda>_. True) (to_BatchSize opts) (copy_batch E table (map co_Name (ts_Columns schema))) (d2, 0) of
                (Some e, d3, _) \<Rightarrow> failed (CopyFailed table e) d3
              | (None, d3, rowCount) \<Rightarrow>
                  (res\<lparr>tr_TableCount := tr_TableCount res + 1, tr_RowCount := tr_RowCount res + rowCount\<rparr>, d3)))))"

definition Transfer :: "engine \<Rightarrow> engine \<Rightarrow> db \<Rightarrow> TransferOptions \<Rightarrow> db \<Rightarrow> TransferResult \<times> db" where
  "Transfer S E src opts d =
    (let tables = (if to_Tables opts = [] then en_tables S src else to_Tables opts);
         opts = opts\<lparr>to_BatchSize := (if to_BatchSize opts \<le> 0 then 500 else to_BatchSize opts)\<rparr>
     in foldl (\<lambda>(res, d) table. transferTable S E src opts res table d)
          (\<lparr>tr_TableCount = 0, tr_RowCount = 0, tr_Errors = []\<rparr>, d) tables)"

end
