(* ===== verification/Restoring.thy ===== *)
theory Restoring
  imports DumpRestore
begin

text \<open>
  What a dump and its restoration do to the tables of a database: lemmas and properties of the
  operations of DumpRestore.
\<close>

section \<open>What a dump holds\<close>

definition dumped_rows :: "engine \<Rightarrow> db \<Rightarrow> DumpOptions \<Rightarrow> string \<Rightarrow> row list" where
  "dumped_rows S src opts table = (case src table of
     None \<Rightarrow> [] | Some t \<Rightarrow> en_order S (filter (do_Where opts table) (tb_Rows t)))"

lemma collect_folds: "folds collect (\<lambda>batch acc. acc @ batch)"
  by (simp add: folds_def collect_def)

lemma table_rows_all: "src table \<noteq> None \<Longrightarrow> table_rows S src opts table = Inr (dumped_rows S src opts table)"
  by (auto simp: table_rows_def dumped_rows_def SelectAll_fold [OF _ collect_folds])

definition whole_tables :: "DumpOptions \<Rightarrow> bool" where
  "whole_tables opts \<longleftrightarrow> \<not> do_SchemaOnly opts \<and> \<not> do_NoData opts"

lemma dump_entries_all:
  assumes "whole_tables opts"
  shows "distinct (dumped @ tables) \<Longrightarrow> \<forall>t \<in> set tables. src t \<noteq> None \<Longrightarrow>
    dump_entries S src opts dumped tables = Inr (map (\<lambda>t. (t, Rows (dumped_rows S src opts t))) tables,
      sum_list (map (\<lambda>t. int (length (dumped_rows S src opts t))) tables))"
proof (induction tables arbitrary: dumped)
  case (Cons t tables)
  have "dump_entries S src opts (t # dumped) tables = Inr (map (\<lambda>t. (t, Rows (dumped_rows S src opts t))) tables,
      sum_list (map (\<lambda>t. int (length (dumped_rows S src opts t))) tables))"
    using Cons.prems by (intro Cons.IH) auto
  with Cons.prems assms show ?case by (simp add: whole_tables_def table_rows_all)
qed simp

lemma dumpJSON_all:
  assumes "whole_tables opts" "distinct tables" "\<forall>t \<in> set tables. src t \<noteq> None" "dumpJSON J S src tables opts = Inr res"
  shows "dr_Data res = DumpDoc (map (\<lambda>t. (t, Rows (map (json_row J) (dumped_rows S src opts t)))) tables)"
    and "dr_RowCount res = sum_list (map (\<lambda>t. int (length (dumped_rows S src opts t))) tables)"
  using assms dump_entries_all [OF assms(1), of "[]" tables src S] by (auto simp: dumpJSON_def comp_def)

section \<open>What an import does\<close>

lemma InsertBatch_accepted:
  assumes "d table = Some t" "insert_rows E table cols rows t = (None, t')" "cols \<noteq> []" "rows \<noteq> []"
  shows "InsertBatch E table cols rows d = (None, d(table \<mapsto> t'))"
  using assms by (auto simp: InsertBatch_defs split: DBType.split)

lemma insert_row_stored:
  "insert_row E table cols r t = Inr t' \<Longrightarrow> t' = t\<lparr>tb_Rows := tb_Rows t @ [the (store_cells E cols r (tb_Columns t))]\<rparr>"
  by (auto simp: insert_row_def split: option.splits if_splits)

lemma insert_rows_stored:
  "insert_rows E table cols rows t = (None, t') \<Longrightarrow>
   t' = t\<lparr>tb_Rows := tb_Rows t @ map (\<lambda>r. the (store_cells E cols r (tb_Columns t))) rows\<rparr>"
proof (induction rows arbitrary: t)
  case (Cons r rows)
  then obtain t1 where t1: "insert_row E table cols r t = Inr t1" "insert_rows E table cols rows t1 = (None, t')"
    by (auto split: sum.splits)
  from insert_row_stored [OF t1(1)] Cons.IH [OF t1(2)] show ?case by simp
qed simp

lemma import_accepted:
  assumes "0 < b" "cols \<noteq> []"
  shows "\<lbrakk>d table = Some t; insert_rows E table cols (drop i rows) t = (None, t')\<rbrakk> \<Longrightarrow>
    import_batches E table cols b i rows res d
      = (res\<lparr>rr_RowCount := rr_RowCount res + int (length (drop i rows))\<rparr>, d(table \<mapsto> t'))"
proof (induction "length rows - i" arbitrary: i res d t rule: less_induct)
  case less
  show ?case
  proof (cases "length rows \<le> i")
    case True
    then have "import_batches E table cols b i rows res d = (res, d)" by (simp add: import_batches.simps [of E table cols b i])
    with True less.prems show ?thesis by (simp add: fun_upd_idem)
  next
    case False
    let ?batch = "take b (drop i rows)"
    have ne: "?batch \<noteq> []" using False assms(1) by simp
    have "insert_rows E table cols (?batch @ drop (i + b) rows) t = (None, t')"
      using less.prems(2) by (metis append_take_drop_id drop_drop add.commute)
    then obtain t1 where t1: "insert_rows E table cols ?batch t = (None, t1)" "insert_rows E table cols (drop (i + b) rows) t1 = (None, t')"
      unfolding insert_rows_append by (auto split: prod.splits option.splits)
    have ins: "InsertBatch E table cols ?batch d = (None, d(table \<mapsto> t1))"
      by (rule InsertBatch_accepted [where t = t]) (use less.prems(1) t1(1) assms(2) ne in simp_all)
    let ?res = "res\<lparr>rr_RowCount := rr_RowCount res + int (length ?batch)\<rparr>"
    have "import_batches E table cols b i rows res d = import_batches E table cols b (i + b) rows ?res (d(table \<mapsto> t1))"
      using False assms(1) ins
      by (simp add: import_batches.simps [of E table cols b i])
    also have "\<dots> = (?res\<lparr>rr_RowCount := rr_RowCount ?res + int (length (drop (i + b) rows))\<rparr>, d(table \<mapsto> t1, table \<mapsto> t'))"
      using False assms(1) t1(2) by (intro less.hyps) auto
    finally show ?thesis using False by (auto simp: min_def)
  qed
qed

text \<open>\<open>SkipExisting\<close> never skips a table.\<close>

lemma has_rows_never:
  assumes "d table = Some t" "''COUNT(*) AS cnt'' \<notin> co_Name ` set (tb_Columns t)"
  shows "\<not> has_rows E d table"
  unfolding has_rows_def by (subst SelectAll_bad_column [where t = t]) (use assms in simp_all)

section \<open>JSON\<close>

text \<open>
  A table of the source whose rows the table of the same name in the destination accepts: it has the
  columns, and stores the decoded values one after the other.
\<close>

definition receives :: "json \<Rightarrow> engine \<Rightarrow> engine \<Rightarrow> db \<Rightarrow> DumpOptions \<Rightarrow> db \<Rightarrow> string \<Rightarrow> bool" where
  "receives J S E src opts dst table = (case (src table, dst table) of
     (Some st, Some dt) \<Rightarrow>
       let names = map co_Name (tb_Columns st); rows = dumped_rows S src opts table
       in names \<noteq> [] \<and> (\<forall>r \<in> set rows. map fst r = names) \<and> set names \<subseteq> co_Name ` set (tb_Columns dt) \<and>
          {''_schema'', ''COUNT(*) AS cnt''} \<inter> co_Name ` set (tb_Columns dt) = {} \<and>
          fst (insert_rows E table names (map (json_row J) rows) dt) = None
   | _ \<Rightarrow> False)"

text \<open>The rows that the destination gains.\<close>

definition restored_rows :: "json \<Rightarrow> engine \<Rightarrow> engine \<Rightarrow> db \<Rightarrow> DumpOptions \<Rightarrow> db \<Rightarrow> string \<Rightarrow> row list" where
  "restored_rows J S E src opts dst table =
     map (\<lambda>r. the (store_cells E (map co_Name (tb_Columns (the (src table)))) (json_row J r) (tb_Columns (the (dst table)))))
       (dumped_rows S src opts table)"

lemma json_row_names [simp]: "map fst (json_row J r) = map fst r"
  by (simp add: json_row_def split_beta comp_def)

lemma restore_one:
  assumes rec: "receives J S E src opts dst table" and same: "d table = dst table"
    and ro: "ro_Tables ro = []" "\<not> ro_Truncate ro" "0 < ro_BatchSize ro"
    and run: "restore_entry E ro (res, d) (table, Rows (map (json_row J) (dumped_rows S src opts table))) = (res', d')"
  shows "rr_Errors res' = rr_Errors res \<and> rr_RowCount res' = rr_RowCount res + int (length (dumped_rows S src opts table))
    \<and> d' = d(table \<mapsto> (the (dst table))\<lparr>tb_Rows := tb_Rows (the (dst table)) @ restored_rows J S E src opts dst table\<rparr>)"
proof -
  let ?rows = "dumped_rows S src opts table"
  from rec obtain st dt where st: "src table = Some st" and dt: "dst table = Some dt"
    by (auto simp: receives_def split: option.splits)
  let ?names = "map co_Name (tb_Columns st)"
  from rec have r: "?names \<noteq> []" "\<forall>r \<in> set ?rows. map fst r = ?names" "set ?names \<subseteq> co_Name ` set (tb_Columns dt)"
      "''_schema'' \<notin> co_Name ` set (tb_Columns dt)" "''COUNT(*) AS cnt'' \<notin> co_Name ` set (tb_Columns dt)"
      "fst (insert_rows E table ?names (map (json_row J) ?rows) dt) = None"
    unfolding receives_def by (simp_all add: st dt Let_def)
  from r(6) obtain t' where ins: "insert_rows E table ?names (map (json_row J) ?rows) dt = (None, t')" by (metis prod.collapse)
  from insert_rows_stored [OF ins] have t': "t' = dt\<lparr>tb_Rows := tb_Rows dt @ restored_rows J S E src opts dst table\<rparr>"
    by (simp add: restored_rows_def st dt comp_def)
  show ?thesis
  proof (cases "?rows = []")
    case True
    with run ro(1) dt same show ?thesis by (simp add: restore_entry_def restored_rows_def fun_upd_idem)
  next
    case False
    then have hd: "map fst (json_row J (hd ?rows)) = ?names" using r(2) by (simp del: list.map)
    have valid: "filter (\<lambda>c. c \<in> co_Name ` set (tb_Columns dt)) ?names = ?names" using r(3) by (intro filter_True) auto
    have cols: "columns_of E d table = Inr (tb_Columns dt)"
      using dt same by (simp add: columns_of_def GetColumns_def pg_GetColumns_def split: DBType.split)
    have "''_schema'' \<notin> set (map fst (hd ?rows))" using r(3,4) hd by (metis json_row_names subsetD)
    then have "(res', d') = restore_rows E ro table (map (json_row J) ?rows) (res, d)"
      using run ro(1) False by (simp add: restore_entry_def hd_map)
    also have "\<dots> = (count_table (res\<lparr>rr_RowCount := rr_RowCount res + int (length ?rows)\<rparr>), d(table \<mapsto> t'))"
      using import_accepted [of "nat (ro_BatchSize ro)" ?names d table dt E 0 "map (json_row J) ?rows" t' res]
        ro(2,3) dt same ins cols valid hd has_rows_never [of d table dt] r(1,5) False
      by (simp add: restore_rows_def Let_def hd_map del: list.map)
    finally show ?thesis using dt t' by (simp add: count_table_def)
  qed
qed

text \<open>The tables in any order: the map of the decoder.\<close>

lemma restore_all:
  assumes "ro_Tables ro = []" "\<not> ro_Truncate ro" "0 < ro_BatchSize ro"
  shows "\<lbrakk>distinct tables; \<forall>t \<in> set tables. receives J S E src opts dst t; \<forall>t \<in> set tables. d t = dst t;
    foldl (restore_entry E ro) (res, d) (map (\<lambda>t. (t, Rows (map (json_row J) (dumped_rows S src opts t)))) tables) = (res', d')\<rbrakk> \<Longrightarrow>
    rr_Errors res' = rr_Errors res \<and>
    rr_RowCount res' = rr_RowCount res + sum_list (map (\<lambda>t. int (length (dumped_rows S src opts t))) tables) \<and>
    (\<forall>t. d' t = (if t \<in> set tables then Some ((the (dst t))\<lparr>tb_Rows := tb_Rows (the (dst t)) @ restored_rows J S E src opts dst t\<rparr>) else d t))"
proof (induction tables arbitrary: res d)
  case (Cons t tables)
  obtain res1 d1 where one: "restore_entry E ro (res, d) (t, Rows (map (json_row J) (dumped_rows S src opts t))) = (res1, d1)" by fastforce
  have r: "receives J S E src opts dst t" "d t = dst t" using Cons.prems(2,3) by simp_all
  from restore_one [OF r assms one]
  have res1: "rr_Errors res1 = rr_Errors res" "rr_RowCount res1 = rr_RowCount res + int (length (dumped_rows S src opts t))"
    and d1: "d1 = d(t \<mapsto> (the (dst t))\<lparr>tb_Rows := tb_Rows (the (dst t)) @ restored_rows J S E src opts dst t\<rparr>)" by blast+
  have "\<forall>u \<in> set tables. d1 u = dst u" using Cons.prems(1,3) d1 by auto
  from Cons.IH [OF _ _ this] Cons.prems(1,2,4) one
  have "rr_Errors res' = rr_Errors res1 \<and>
    rr_RowCount res' = rr_RowCount res1 + sum_list (map (\<lambda>t. int (length (dumped_rows S src opts t))) tables) \<and>
    (\<forall>t. d' t = (if t \<in> set tables then Some ((the (dst t))\<lparr>tb_Rows := tb_Rows (the (dst t)) @ restored_rows J S E src opts dst t\<rparr>) else d1 t))"
    by simp
  with res1 d1 Cons.prems(1) show ?case by auto
qed simp

lemma dump_restore_run:
  assumes "whole_tables opts" "distinct tables" "\<forall>t \<in> set tables. receives J S E src opts dst t"
    and "dumpJSON J S src tables opts = Inr dump" "dr_Data dump = DumpDoc doc" "mset doc' = mset doc"
    and "ro_Tables ro = []" "\<not> ro_Truncate ro" "0 < ro_BatchSize ro" "restoreJSON E ro doc' dst = (res, d')"
  shows "rr_Errors res = [] \<and> rr_RowCount res = dr_RowCount dump \<and>
    (\<forall>t. d' t = (if t \<in> set tables then Some ((the (dst t))\<lparr>tb_Rows := tb_Rows (the (dst t)) @ restored_rows J S E src opts dst t\<rparr>) else dst t))"
proof -
  have "\<forall>t \<in> set tables. src t \<noteq> None" using assms(3) by (auto simp: receives_def split: option.splits)
  from dumpJSON_all [OF assms(1,2) this assms(4)] assms(5)
  have doc: "doc = map (\<lambda>t. (t, Rows (map (json_row J) (dumped_rows S src opts t)))) tables"
    and count: "dr_RowCount dump = sum_list (map (\<lambda>t. int (length (dumped_rows S src opts t))) tables)" by simp_all
  let ?g = "\<lambda>t. (t, Rows (map (json_row J) (dumped_rows S src opts t)))"
  let ?tables' = "map fst doc'"
  have "set doc' = set doc" using assms(6) by (metis set_mset_mset)
  then have "map (\<lambda>x. ?g (fst x)) doc' = doc'" unfolding doc by (intro map_idI) auto
  moreover have "mset ?tables' = mset tables"
    using arg_cong [OF assms(6), of "image_mset fst"] unfolding doc by (simp add: comp_def flip: mset_map)
  ultimately have tables': "doc' = map ?g ?tables'" "mset ?tables' = mset tables" by (simp_all add: comp_def)
  note perm = mset_eq_setD [OF tables'(2)] mset_eq_imp_distinct_iff [OF tables'(2)]
  have total: "sum_list (map f ?tables') = sum_list (map f tables)" for f :: "string \<Rightarrow> int"
    using arg_cong [OF tables'(2), of "\<lambda>m. sum_mset (image_mset f m)"] by (simp add: multiset.map_comp flip: sum_mset_sum_list)
  have run: "foldl (restore_entry E ro) (no_result, dst) (map ?g ?tables') = (res, d')"
    using assms(10) unfolding restoreJSON_def by (simp only: tables'(1) [symmetric])
  have "distinct ?tables'" "\<forall>t \<in> set ?tables'. receives J S E src opts dst t" using perm assms(2,3) by blast+
  from restore_all [OF assms(7-9) this _ run] show ?thesis
    using perm(1) total count by (simp only: no_result_def RestoreResult.simps) simp
qed

text \<open>A JSON dump is restored table by table. If every dumped table exists in the destination and accepts the
  values as JSON carries them, then whatever the order of the decoder's map and the batch sizes, the
  restoration reports no error and as many rows as were dumped, appends to each table exactly the dumped
  rows with their values taken through JSON, and changes no other table, also with \<open>SkipExisting\<close>, which
  skips nothing.\<close>

lemma json_dump_restore:
  assumes "whole_tables opts" "distinct tables" "\<forall>t \<in> set tables. receives J S E src opts dst t"
    and "dumpJSON J S src tables opts = Inr dump" "dr_Data dump = DumpDoc doc" "mset doc' = mset doc"
    and "ro_Tables ro = []" "\<not> ro_Truncate ro" "0 < ro_BatchSize ro" "restoreJSON E ro doc' dst = (res, d')"
  shows "rr_Errors res = [] \<and> rr_RowCount res = dr_RowCount dump \<and>
    (\<forall>t. d' t = (if t \<in> set tables then Some ((the (dst t))\<lparr>tb_Rows := tb_Rows (the (dst t)) @ restored_rows J S E src opts dst t\<rparr>) else dst t))"
  by (rule dump_restore_run [OF assms])

section \<open>Texts of MySQL\<close>

lemma b64_longer: "s \<noteq> [] \<Longrightarrow> length s < length (b64 s)"
proof (induction s rule: b64.induct)
  case (4 a b c cs)
  then show ?case by (cases "cs = []") (auto simp: Let_def)
qed (simp_all add: Let_def)

lemma store_cells_lookup:
  assumes "store_cells E names r cols = Some cells" "distinct (map co_Name cols)" "c \<in> set cols" "co_Name c \<in> set names"
  shows "map_of cells (co_Name c) = en_store E c (case map_of r (co_Name c) of None \<Rightarrow> ANil | Some v \<Rightarrow> v)"
  using assms
proof (induction cols arbitrary: cells)
  case (Cons d cols)
  then obtain v cells' where cells: "cells = (co_Name d, v) # cells'" "store_cells E names r cols = Some cells'"
    and v: "co_Name d \<in> set names \<longrightarrow> en_store E d (case map_of r (co_Name d) of None \<Rightarrow> ANil | Some v \<Rightarrow> v) = Some v"
    by (auto split: option.splits if_splits)
  show ?case
  proof (cases "c = d")
    case True
    with cells v Cons.prems(4) show ?thesis by simp
  next
    case False
    with Cons.prems(2,3) have "c \<in> set cols" "co_Name c \<noteq> co_Name d" by (auto simp: image_iff)
    with Cons.IH [OF cells(2)] Cons.prems(2,4) cells(1) show ?thesis by simp
  qed
qed simp

lemma json_row_lookup: "map_of (json_row J r) k = map_option (json_value J) (map_of r k)"
  by (induction r) (auto simp: json_row_def)

lemma insert_rows_cells:
  "insert_rows E table names rows t = (None, t') \<Longrightarrow> r \<in> set rows \<Longrightarrow> store_cells E names r (tb_Columns t) \<noteq> None"
proof (induction rows arbitrary: t)
  case (Cons r' rows)
  then obtain t1 where t1: "insert_row E table names r' t = Inr t1" "insert_rows E table names rows t1 = (None, t')"
    by (auto split: sum.splits)
  then have "store_cells E names r' (tb_Columns t) \<noteq> None" by (auto simp: insert_row_def split: option.splits if_splits)
  moreover have "tb_Columns t1 = tb_Columns t" using insert_row_stored [OF t1(1)] by simp
  ultimately show ?case using Cons.IH [OF t1(2)] Cons.prems(2) by auto
qed simp

text \<open>A backup of MySQL loses its texts. The driver reads a text as bytes, JSON writes bytes as base64, and
  the restoration stores that base64: every text that is not empty comes back as a different, longer
  text, and no error is reported.\<close>

lemma mysql_texts_lost:
  assumes "whole_tables opts" "distinct tables" "\<forall>t \<in> set tables. receives J S E src opts dst t"
    and "dumpJSON J S src tables opts = Inr dump" "dr_Data dump = DumpDoc doc" "mset doc' = mset doc"
    and "ro_Tables ro = []" "\<not> ro_Truncate ro" "0 < ro_BatchSize ro" "restoreJSON E ro doc' dst = (res, d')"
    and "table \<in> set tables" "r \<in> set (dumped_rows S src opts table)" "map_of r (co_Name c) = Some (ABytes s)" "s \<noteq> []"
    and "c \<in> set (tb_Columns (the (dst table)))" "distinct (map co_Name (tb_Columns (the (dst table))))"
    and "\<forall>x. en_store E c (AString x) = Some (ABytes x)"
  shows "rr_Errors res = [] \<and> (\<exists>r' \<in> set (tb_Rows (the (d' table))). map_of r' (co_Name c) = Some (ABytes (b64 s))) \<and> b64 s \<noteq> s"
proof -
  let ?names = "map co_Name (tb_Columns (the (src table)))" and ?dt = "the (dst table)"
  note run = dump_restore_run [OF assms(1-10)]
  from assms(3,11) obtain t' where names: "\<forall>r \<in> set (dumped_rows S src opts table). map fst r = ?names"
    and ins: "insert_rows E table ?names (map (json_row J) (dumped_rows S src opts table)) ?dt = (None, t')"
    by (fastforce simp: receives_def Let_def split: option.splits intro: prod_eqI)
  from insert_rows_cells [OF ins, of "json_row J r"] assms(12)
  obtain cells where cells: "store_cells E ?names (json_row J r) (tb_Columns ?dt) = Some cells" by auto
  have "co_Name c \<in> set ?names" using names assms(12,13) by (metis map_of_SomeD fst_conv image_eqI list.set_map)
  from store_cells_lookup [OF cells assms(16,15) this] assms(13,17)
  have "map_of cells (co_Name c) = Some (ABytes (b64 s))" by (simp add: json_row_lookup)
  moreover have "cells \<in> set (tb_Rows (the (d' table)))"
    using run assms(11,12) cells by (auto simp: restored_rows_def intro!: image_eqI [where x = r])
  ultimately show ?thesis using run b64_longer [OF assms(14)] by auto
qed

text \<open>A MySQL server with a table of numbers and texts, and an empty copy of it.\<close>

definition demo_mysql :: engine where
  "demo_mysql = \<lparr>en_kind = MySQL,
     en_store = (\<lambda>c v. Some (case v of AString s \<Rightarrow> ABytes s | AFloat i \<Rightarrow> AInt64 i | AInt i \<Rightarrow> AInt64 i | _ \<Rightarrow> v)),
     en_admits = (\<lambda>_ _ _. True), en_order = (\<lambda>rs. rs), en_type = (\<lambda>_. True), en_exec = (\<lambda>_ d. Some d), en_tables = (\<lambda>_. [])\<rparr>"

definition demo_json :: json where
  "demo_json = \<lparr>js_float = (\<lambda>i. i), js_utf8 = (\<lambda>s. s), js_time = (\<lambda>_. ''now'')\<rparr>"

definition demo_columns :: "ColumnInfo list" where
  "demo_columns = [\<lparr>co_Name = ''id'', co_Type = ''int'', co_Nullable = False\<rparr>,
     \<lparr>co_Name = ''name'', co_Type = ''text'', co_Nullable = True\<rparr>]"

definition demo_source :: "row list \<Rightarrow> db" where
  "demo_source rows = [''t'' \<mapsto> \<lparr>tb_Columns = demo_columns, tb_Rows = rows\<rparr>]"

definition demo_row :: row where
  "demo_row = [(''id'', AInt64 1), (''name'', ABytes ''ab'')]"

definition demo_dump :: DumpOptions where
  "demo_dump = \<lparr>do_Tables = [''t''], do_Format = None, do_Where = (\<lambda>_ _. True), do_BatchSize = 10, do_NoData = False, do_SchemaOnly = False\<rparr>"

definition demo_restore :: RestoreOptions where
  "demo_restore = \<lparr>ro_Format = None, ro_Tables = [], ro_Truncate = False, ro_SkipExisting = True, ro_BatchSize = 10\<rparr>"

lemmas demo_defs = demo_mysql_def demo_json_def demo_columns_def demo_source_def demo_row_def demo_dump_def demo_restore_def

lemma demo_dumped: "dumped_rows demo_mysql (demo_source [demo_row]) demo_dump ''t'' = [demo_row]"
  by (simp add: dumped_rows_def demo_defs)

lemma demo_receives: "receives demo_json demo_mysql demo_mysql (demo_source [demo_row]) demo_dump (demo_source []) ''t''"
  by (simp add: receives_def demo_dumped [unfolded demo_defs] Let_def insert_row_def json_row_def demo_defs)

lemma demo_options: "whole_tables demo_dump" "distinct [''t'']" "ro_Tables demo_restore = []" "\<not> ro_Truncate demo_restore" "0 < ro_BatchSize demo_restore"
  by (simp_all add: whole_tables_def demo_defs)

lemma demo_doc:
  obtains dump where "dumpJSON demo_json demo_mysql (demo_source [demo_row]) [''t''] demo_dump = Inr dump"
    "dr_Data dump = DumpDoc [(''t'', Rows [json_row demo_json demo_row])]"
proof -
  have "table_rows demo_mysql (demo_source [demo_row]) demo_dump ''t'' = Inr [demo_row]"
    using table_rows_all [of "demo_source [demo_row]" "''t''"] demo_dumped by (simp add: demo_source_def)
  then show ?thesis using that by (simp add: dumpJSON_def demo_dump_def)
qed

lemma json_dump_restore_witness:
  "\<exists>dump doc res d'. dumpJSON demo_json demo_mysql (demo_source [demo_row]) [''t''] demo_dump = Inr dump \<and> dr_Data dump = DumpDoc doc
    \<and> restoreJSON demo_mysql demo_restore doc (demo_source []) = (res, d') \<and> rr_Errors res = []
    \<and> tb_Rows (the (d' ''t'')) = [[(''id'', AInt64 1), (''name'', ABytes ''YWI='')]]"
proof -
  obtain dump where dump: "dumpJSON demo_json demo_mysql (demo_source [demo_row]) [''t''] demo_dump = Inr dump"
    "dr_Data dump = DumpDoc [(''t'', Rows [json_row demo_json demo_row])]" by (rule demo_doc)
  obtain res d' where run: "restoreJSON demo_mysql demo_restore [(''t'', Rows [json_row demo_json demo_row])] (demo_source []) = (res, d')"
    by (rule prod.exhaust)
  have "b64 ''ab'' = ''YWI=''" by (simp add: b64_char_def b64_alphabet_def)
  then have "restored_rows demo_json demo_mysql demo_mysql (demo_source [demo_row]) demo_dump (demo_source []) ''t''
      = [[(''id'', AInt64 1), (''name'', ABytes ''YWI='')]]"
    unfolding restored_rows_def demo_dumped by (simp add: json_row_def demo_defs)
  then have "rr_Errors res = [] \<and> tb_Rows (the (d' ''t'')) = [[(''id'', AInt64 1), (''name'', ABytes ''YWI='')]]"
    using json_dump_restore [OF demo_options(1,2) _ dump refl demo_options(3-5) run] demo_receives by (simp add: demo_source_def)
  with dump run show ?thesis by blast
qed

lemma mysql_texts_lost_witness:
  "\<exists>dump doc res d'. dumpJSON demo_json demo_mysql (demo_source [demo_row]) [''t''] demo_dump = Inr dump \<and> dr_Data dump = DumpDoc doc
    \<and> restoreJSON demo_mysql demo_restore doc (demo_source []) = (res, d') \<and> rr_Errors res = []
    \<and> (\<exists>r' \<in> set (tb_Rows (the (d' ''t''))). map_of r' ''name'' \<noteq> Some (ABytes ''ab''))"
proof -
  let ?c = "\<lparr>co_Name = ''name'', co_Type = ''text'', co_Nullable = True\<rparr>"
  obtain dump where dump: "dumpJSON demo_json demo_mysql (demo_source [demo_row]) [''t''] demo_dump = Inr dump"
    "dr_Data dump = DumpDoc [(''t'', Rows [json_row demo_json demo_row])]" by (rule demo_doc)
  obtain res d' where run: "restoreJSON demo_mysql demo_restore [(''t'', Rows [json_row demo_json demo_row])] (demo_source []) = (res, d')"
    by (rule prod.exhaust)
  have "map_of demo_row (co_Name ?c) = Some (ABytes ''ab'')" by (simp add: demo_row_def)
  moreover have "?c \<in> set (tb_Columns (the (demo_source [] ''t'')))" "distinct (map co_Name (tb_Columns (the (demo_source [] ''t''))))"
    by (simp_all add: demo_source_def demo_columns_def)
  moreover have "\<forall>x. en_store demo_mysql ?c (AString x) = Some (ABytes x)" by (simp add: demo_mysql_def)
  ultimately have "rr_Errors res = [] \<and> (\<exists>r' \<in> set (tb_Rows (the (d' ''t''))). map_of r' (co_Name ?c) = Some (ABytes (b64 ''ab''))) \<and> b64 ''ab'' \<noteq> ''ab''"
    using mysql_texts_lost [OF demo_options(1,2) _ dump refl demo_options(3-5) run, of "''t''" demo_row ?c "''ab''"] demo_receives demo_dumped
    by (simp del: b64.simps)
  then obtain r' where "rr_Errors res = []" "r' \<in> set (tb_Rows (the (d' ''t'')))" "map_of r' ''name'' = Some (ABytes (b64 ''ab''))" "b64 ''ab'' \<noteq> ''ab''" by auto
  with dump run show ?thesis by (metis option.inject val.inject(7))
qed

section \<open>CSV\<close>

text \<open>
  \<open>encoding/csv\<close>, as far as it is needed: all records have as many fields as the first one, and a first line
  and a second line without quotes and carriage returns are split at the commas.
\<close>

definition plain_line :: "string \<Rightarrow> bool" where
  "plain_line s \<longleftrightarrow> s \<noteq> [] \<and> set s \<inter> {CHR 0x22, CHR 0x0A, CHR 0x0D} = {}"

definition csv_ok :: "(string \<Rightarrow> string list list option) \<Rightarrow> bool" where
  "csv_ok csv \<longleftrightarrow> (\<forall>data records. csv data = Some records \<longrightarrow> list_all (\<lambda>r. length r = length (hd records)) records) \<and>
     (\<forall>a b rest records. plain_line a \<longrightarrow> plain_line b \<longrightarrow> csv (a @ nl @ b @ nl @ rest) = Some records \<longrightarrow>
        (\<exists>more. records = split_on CHR '','' a # split_on CHR '','' b # more))"

lemma import_none: "import_batches E table cols b 0 [] res d = (res, d)"
  by (simp add: import_batches.simps [of E table cols b 0])

lemma dropWhile_append_keeps: "\<exists>x \<in> set xs. \<not> P x \<Longrightarrow> dropWhile P (xs @ ys) = dropWhile P xs @ ys"
  by (induction xs) auto

lemma trim_end: "\<exists>x \<in> set s. \<not> is_space x \<Longrightarrow> \<exists>u. rev (dropWhile is_space (rev (p @ s))) = p @ u"
  using dropWhile_append_keeps [of "rev s" is_space "rev p"] by auto

text \<open>A CSV dump never comes back. The dump names the table in a line that the restoration does not
  recognise: whatever the table, its columns and its rows, reading the dump either fails or ends with the
  report of one table, of no row and of no error, with the database as it was. If the format is detected,
  the dump is taken for SQL.\<close>

lemma csv_never_restores:
  assumes "csv_ok csv" "columns_of S src table = Inr cols" "dumpCSV fmt S src [table] opts = Inr dump" "dr_Data dump = DumpText text"
    and "plain_line table" "CHR '','' \<notin> set table" "plain_line (join '','' (map co_Name cols))"
    and "\<not> ro_Truncate ro" "ro_Tables ro = []"
  shows "(restoreCSV csv E ro text d = Inl NotCSV \<or>
      restoreCSV csv E ro text d = Inr (\<lparr>rr_TableCount = 1, rr_RowCount = 0, rr_Errors = []\<rparr>, d)) \<and> detectFormat text = FormatSQL"
proof -
  let ?head = "''-- TABLE: '' @ table" and ?names = "join '','' (map co_Name cols)"
  from assms(2-4) obtain rest where body: "text = ?head @ nl @ ?names @ nl @ rest"
    by (auto simp: dumpCSV_def Let_def split: sum.splits if_splits)
  have plain: "plain_line ?head" using assms(5) by (auto simp: plain_line_def)
  have field: "split_on CHR '','' ?head = [?head]" using assms(6) by (intro split_on_word(2)) auto
  have "restoreCSV csv E ro text d = Inl NotCSV \<or>
      restoreCSV csv E ro text d = Inr (\<lparr>rr_TableCount = 1, rr_RowCount = 0, rr_Errors = []\<rparr>, d)"
  proof (cases "csv text")
    case (Some records)
    with assms(1) plain assms(7) body field obtain b more where records: "records = [?head] # b # more"
      unfolding csv_ok_def by metis
    have "\<not> has_prefix ?head ''TABLE: ''" "has_prefix ?head ''--''" by (simp_all add: has_prefix_def)
    then have tbl: "csv_table records = ([], [?head], records)" and row: "csv_row [?head] rc = []" for rc
      by (simp_all add: csv_table_def csv_row_def records zip_Cons1 split: list.split)
    show ?thesis
      using Some assms(8,9) tbl row by (simp add: restoreCSV_def records import_none count_table_def no_result_def Let_def)
  qed (simp add: restoreCSV_def)
  moreover have "detectFormat text = FormatSQL"
  proof -
    have "dropWhile is_space text = ''--'' @ '' TABLE: '' @ table @ nl @ ?names @ nl @ rest" using body by (simp add: is_space_def)
    moreover have "\<not> is_space CHR ''T''" by (simp add: is_space_def)
    ultimately obtain u where "trim_space text = ''-- '' @ u"
      using trim_end [of "''TABLE: '' @ table @ nl @ ?names @ nl @ rest" "''-- ''"] by (auto simp: trim_space_def)
    then show ?thesis by (simp add: detectFormat_def has_prefix_def)
  qed
  ultimately show ?thesis by blast
qed

text \<open>A reader of plain lines.\<close>

definition demo_csv :: "string \<Rightarrow> string list list option" where
  "demo_csv data = (let records = map (split_on CHR '','') (filter (\<lambda>l. l \<noteq> []) (split_on CHR 0x0A data))
     in if list_all (\<lambda>r. length r = length (hd records)) records then Some records else None)"

lemma demo_csv_ok: "csv_ok demo_csv"
  unfolding csv_ok_def
proof (intro conjI allI impI)
  fix a b rest records
  assume "plain_line a" "plain_line b" "demo_csv (a @ nl @ b @ nl @ rest) = Some records"
  moreover from this have "split_on CHR 0x0A (a @ nl @ b @ nl @ rest) = a # b # split_on CHR 0x0A rest"
    using split_on_word(1) [of "CHR 0x0A" a "b @ nl @ rest"] split_on_word(1) [of "CHR 0x0A" b rest] by (simp add: plain_line_def)
  ultimately show "\<exists>more. records = split_on CHR '','' a # split_on CHR '','' b # more"
    by (auto simp: demo_csv_def plain_line_def Let_def split: if_splits)
qed (auto simp: demo_csv_def Let_def split: if_splits)

lemma csv_never_restores_witness:
  "\<exists>dump text. dumpCSV (\<lambda>_. ''x'') demo_mysql (demo_source [demo_row]) [''t''] demo_dump = Inr dump \<and> dr_Data dump = DumpText text
    \<and> (restoreCSV demo_csv demo_mysql demo_restore text (demo_source []) = Inl NotCSV
      \<or> restoreCSV demo_csv demo_mysql demo_restore text (demo_source []) = Inr (\<lparr>rr_TableCount = 1, rr_RowCount = 0, rr_Errors = []\<rparr>, demo_source []))"
proof -
  have cols: "columns_of demo_mysql (demo_source [demo_row]) ''t'' = Inr demo_columns"
    by (simp add: columns_of_def GetColumns_def demo_mysql_def demo_source_def)
  have "table_rows demo_mysql (demo_source [demo_row]) demo_dump ''t'' = Inr [demo_row]"
    using table_rows_all [of "demo_source [demo_row]" "''t''"] demo_dumped by (simp add: demo_source_def)
  then obtain dump body where dump: "dumpCSV (\<lambda>_. ''x'') demo_mysql (demo_source [demo_row]) [''t''] demo_dump = Inr dump" "dr_Data dump = DumpText body"
    using cols by (simp add: dumpCSV_def Let_def demo_dump_def)
  have "plain_line (join '','' (map co_Name demo_columns))" by (simp add: plain_line_def join_def demo_columns_def)
  then have "restoreCSV demo_csv demo_mysql demo_restore body (demo_source []) = Inl NotCSV
      \<or> restoreCSV demo_csv demo_mysql demo_restore body (demo_source []) = Inr (\<lparr>rr_TableCount = 1, rr_RowCount = 0, rr_Errors = []\<rparr>, demo_source [])"
    using csv_never_restores [OF demo_csv_ok cols dump, of demo_restore demo_mysql "demo_source []"] demo_options
    by (simp add: plain_line_def)
  with dump show ?thesis by blast
qed

section \<open>Transfer\<close>

definition stored_row :: "engine \<Rightarrow> string list \<Rightarrow> ColumnInfo list \<Rightarrow> row \<Rightarrow> row" where
  "stored_row E names cols r = the (store_cells E names r cols)"

lemma insert_rows_partial:
  "insert_rows E table names rows t = (e, t') \<Longrightarrow>
   \<exists>j \<le> length rows. t' = t\<lparr>tb_Rows := tb_Rows t @ map (stored_row E names (tb_Columns t)) (take j rows)\<rparr> \<and> (e = None \<longleftrightarrow> j = length rows)"
proof (induction rows arbitrary: t)
  case (Cons r rows)
  show ?case
  proof (cases "insert_row E table names r t")
    case (Inl x)
    with Cons.prems show ?thesis by (intro exI [of _ 0]) auto
  next
    case (Inr t1)
    from insert_row_stored [OF Inr] have t1: "tb_Columns t1 = tb_Columns t" "tb_Rows t1 = tb_Rows t @ [stored_row E names (tb_Columns t) r]"
      "t1\<lparr>tb_Rows := x\<rparr> = t\<lparr>tb_Rows := x\<rparr>" for x
      by (simp_all add: stored_row_def)
    from Cons.IH [of t1] Cons.prems Inr obtain j where "j \<le> length rows" "e = None \<longleftrightarrow> j = length rows"
      "t' = t1\<lparr>tb_Rows := tb_Rows t1 @ map (stored_row E names (tb_Columns t1)) (take j rows)\<rparr>" by auto
    with t1 show ?thesis by (intro exI [of _ "Suc j"]) simp
  qed
qed simp

text \<open>The destination after the first \<open>k\<close> rows.\<close>

definition copied :: "engine \<Rightarrow> string list \<Rightarrow> dbtable \<Rightarrow> row list \<Rightarrow> nat \<Rightarrow> dbtable" where
  "copied E names dt rows k = dt\<lparr>tb_Rows := tb_Rows dt @ map (stored_row E names (tb_Columns dt)) (take k rows)\<rparr>"

lemma copy_batch_outcome:
  assumes "d table = Some (copied E names dt rows off)" "names \<noteq> []" "take b (drop off rows) \<noteq> []"
    and "copy_batch E table names (take b (drop off rows)) (d, n) = (e, d', n')"
  shows "if e = None then d' = d(table \<mapsto> copied E names dt rows (min (length rows) (off + b))) \<and> n' = n + int (length (take b (drop off rows)))
    else n' = n \<and> (\<exists>k. off \<le> k \<and> k < length rows \<and> d' = d(table \<mapsto> copied E names dt rows k) \<and> (en_kind E = MySQL \<longrightarrow> k = off))"
proof -
  let ?batch = "take b (drop off rows)" and ?t = "copied E names dt rows off"
  obtain e1 t1 where ins: "insert_rows E table names ?batch ?t = (e1, t1)" by fastforce
  from insert_rows_partial [OF this] obtain j where j: "j \<le> length ?batch" "e1 = None \<longleftrightarrow> j = length ?batch"
    "t1 = ?t\<lparr>tb_Rows := tb_Rows ?t @ map (stored_row E names (tb_Columns ?t)) (take j ?batch)\<rparr>" by blast
  have "take off rows @ take j ?batch = take (off + j) rows" using j(1) by (simp add: take_add min_absorb1)
  then have t1: "t1 = copied E names dt rows (off + j)"
    using j(3) by (simp add: copied_def flip: map_append)
  have off: "off < length rows" "0 < b" using assms(3) by auto
  show ?thesis
  proof (cases e1)
    case None
    then have "InsertBatch E table names ?batch d = (None, d(table \<mapsto> t1))"
      using InsertBatch_accepted [where t = ?t and t' = t1 and d = d and table = table] assms(1-3) ins by simp
    moreover have "copied E names dt rows (off + j) = copied E names dt rows (min (length rows) (off + b))"
      using j None off by (auto simp: copied_def min_def)
    ultimately show ?thesis using assms(4) t1 by (auto simp: copy_batch_def)
  next
    case (Some x)
    let ?k = "if en_kind E = MySQL then off else off + j"
    from Some have "InsertBatch E table names ?batch d = (Some x, case en_kind E of MySQL \<Rightarrow> d | Postgres \<Rightarrow> d(table \<mapsto> t1))"
      using assms(1-3) ins by (simp add: InsertBatch_defs split: DBType.split)
    moreover have "d = d(table \<mapsto> copied E names dt rows off)" using assms(1) by (simp add: fun_upd_idem)
    moreover have "off + j < length rows" using Some j off by auto
    ultimately have "e = Some x" "n' = n" "?k < length rows" "d' = d(table \<mapsto> copied E names dt rows ?k)"
      using assms(4) t1 off by (auto simp: copy_batch_def split: DBType.splits)
    then show ?thesis by (auto intro!: exI [of _ ?k])
  qed
qed

lemma copy_pages:
  assumes "src table = Some st" "names \<noteq> []" "0 < b" "rows = selected S src table (\<lambda>_. True)"
  shows "\<lbrakk>d table = Some (copied E names dt rows off); off \<le> length rows; b dvd off;
    select_pages S src table [] (\<lambda>_. True) b (copy_batch E table names) off (d, int off) = (e, d', n')\<rbrakk> \<Longrightarrow>
    \<exists>k \<le> length rows. d' = d(table \<mapsto> copied E names dt rows k) \<and> (e = None \<longleftrightarrow> k = length rows) \<and>
      (if e = None then n' = int (length rows) else en_kind E = MySQL \<longrightarrow> b dvd k)"
proof (induction "length rows - off" arbitrary: off d rule: less_induct)
  case less
  let ?batch = "take b (drop off rows)"
  have page: "select_page S src table [] (\<lambda>_. True) b off = Inr ?batch"
    using assms(1,4) by (simp add: select_page_def selected_def)
  note step = less.prems(4) [unfolded select_pages.simps [of S src table _ _ _ _ off] page sum.case]
  show ?case
  proof (cases "?batch = []")
    case True
    with less.prems(2) assms(3) have "off = length rows" by simp
    with True step less.prems(1) show ?thesis by (auto simp: fun_upd_idem)
  next
    case False
    then have off: "off < length rows" by simp
    obtain e1 d1 n1 where one: "copy_batch E table names ?batch (d, int off) = (e1, d1, n1)" by (metis prod_cases3)
    note out = copy_batch_outcome [OF less.prems(1) assms(2) False one]
    show ?thesis
    proof (cases e1)
      case (Some x)
      with out obtain k where k: "off \<le> k" "k < length rows" "d1 = d(table \<mapsto> copied E names dt rows k)" "en_kind E = MySQL \<longrightarrow> k = off" by auto
      from step False one Some have "e = Some (Inr x)" "d' = d1" by auto
      with k less.prems(3) show ?thesis by (intro exI [of _ k]) auto
    next
      case None
      with out have d1: "d1 = d(table \<mapsto> copied E names dt rows (min (length rows) (off + b)))" and n1: "n1 = int off + int (length ?batch)" by simp_all
      show ?thesis
      proof (cases "length ?batch < b")
        case True
        then have len: "length rows < off + b" by auto
        with step False one None True have "e = None" "d' = d1" "n' = n1" by auto
        with d1 n1 len off show ?thesis by (intro exI [of _ "length rows"]) auto
      next
        case full: False
        then have "b \<le> length ?batch" by simp
        then have "b \<le> length rows - off" by simp
        with off have len: "off + b \<le> length rows" by linarith
        have "select_pages S src table [] (\<lambda>_. True) b (copy_batch E table names) (off + b) (d1, int (off + b)) = (e, d', n')"
          using step False one None full n1 len by (simp add: min_def split: if_splits)
        moreover have "d1 table = Some (copied E names dt rows (off + b))" "b dvd off + b" "length rows - (off + b) < length rows - off"
          using d1 len less.prems(3) off assms(3) by (auto simp: min_def)
        ultimately show ?thesis using less.hyps [of "off + b" d1] len d1 by fastforce
      qed
    qed
  qed
qed

text \<open>A transfer copies a table, or a part of it and says so. Into a table that exists and is not dropped,
  \<open>transferTable\<close> appends the first rows of the source, in the order in which the source hands them out, and
  touches nothing else. All of them are copied exactly when the table is counted, with the number of its
  rows; otherwise one error is noted and the counts stay, and the rows that were copied remain: on MySQL
  whole batches, on PostgreSQL any number.\<close>

lemma transfer_copies:
  assumes "src table = Some st" "tb_Columns st \<noteq> []" "d table = Some dt" "\<not> to_DropTarget opts"
    and "transferTable S E src opts res table d = (res', d')"
    and "rows = en_order S (tb_Rows st)" "b = (if to_BatchSize opts \<le> 0 then 1000 else nat (to_BatchSize opts))"
  shows "\<exists>k \<le> length rows. d' = d(table \<mapsto> copied E (map co_Name (tb_Columns st)) dt rows k) \<and>
    (if k = length rows then res' = res\<lparr>tr_TableCount := tr_TableCount res + 1, tr_RowCount := tr_RowCount res + int (length rows)\<rparr>
     else (\<exists>note. res' = res\<lparr>tr_Errors := tr_Errors res @ [note]\<rparr>) \<and> (en_kind E = MySQL \<longrightarrow> b dvd k))"
proof -
  let ?names = "map co_Name (tb_Columns st)"
  have schema: "GetTableSchema S src table = Inr \<lparr>ts_Name = table, ts_Columns = tb_Columns st\<rparr>"
    using assms(1) by (simp add: GetTableSchema_def columns_of_def GetColumns_def pg_GetColumns_def split: DBType.split)
  have create: "CreateTableIfNotExists E \<lparr>ts_Name = table, ts_Columns = tb_Columns st\<rparr> d = (None, d)"
    using assms(3) by (simp add: CreateTableIfNotExists_def mysql_CreateTable_def pg_CreateTable_def create_table_def split: DBType.split)
  then have made: "(if to_CreateTable opts then CreateTableIfNotExists E \<lparr>ts_Name = table, ts_Columns = tb_Columns st\<rparr> d else (None, d)) = (None, d)"
    by simp
  have rows: "rows = selected S src table (\<lambda>_. True)" using assms(1,6) by (simp add: selected_def)
  have start: "d table = Some (copied E ?names dt rows 0)" using assms(3) by (simp add: copied_def)
  obtain e d1 n1 where run: "select_pages S src table [] (\<lambda>_. True) b (copy_batch E table ?names) 0 (d, int 0) = (e, d1, n1)"
    by (metis prod_cases3)
  have out: "d' = d1 \<and> (if e = None then res' = res\<lparr>tr_TableCount := tr_TableCount res + 1, tr_RowCount := tr_RowCount res + n1\<rparr>
      else \<exists>note. res' = res\<lparr>tr_Errors := tr_Errors res @ [note]\<rparr>)"
    using assms(4,5) run unfolding assms(7)
    by (auto simp: transferTable_def schema made SelectAll_def Let_def split: option.splits)
  have "0 < b" "?names \<noteq> []" using assms(2,7) by auto
  from copy_pages [OF assms(1) this(2,1) rows start _ _ run] obtain k where k: "k \<le> length rows"
    "d1 = d(table \<mapsto> copied E ?names dt rows k)" "e = None \<longleftrightarrow> k = length rows"
    "if e = None then n1 = int (length rows) else en_kind E = MySQL \<longrightarrow> b dvd k" by auto
  show ?thesis using k out by (intro exI [of _ k]) auto
qed

lemma transfer_copies_witness:
  "\<exists>res' d'. transferTable demo_mysql demo_mysql (demo_source [demo_row, demo_row])
      \<lparr>to_Tables = [], to_BatchSize = 1, to_CreateTable = True, to_DropTarget = False\<rparr>
      \<lparr>tr_TableCount = 0, tr_RowCount = 0, tr_Errors = []\<rparr> ''t'' (demo_source []) = (res', d')
    \<and> (\<exists>k \<le> 2. length (tb_Rows (the (d' ''t''))) = k)"
proof -
  let ?opts = "\<lparr>to_Tables = [], to_BatchSize = 1, to_CreateTable = True, to_DropTarget = False\<rparr>"
  obtain res' d' where run: "transferTable demo_mysql demo_mysql (demo_source [demo_row, demo_row]) ?opts
      \<lparr>tr_TableCount = 0, tr_RowCount = 0, tr_Errors = []\<rparr> ''t'' (demo_source []) = (res', d')"
    by (rule prod.exhaust)
  have src: "demo_source rows ''t'' = Some \<lparr>tb_Columns = demo_columns, tb_Rows = rows\<rparr>" for rows by (simp add: demo_source_def)
  have "en_order demo_mysql [demo_row, demo_row] = [demo_row, demo_row]" by (simp add: demo_mysql_def)
  moreover have "tb_Columns \<lparr>tb_Columns = demo_columns, tb_Rows = [demo_row, demo_row]\<rparr> \<noteq> []" by (simp add: demo_columns_def)
  ultimately obtain k where "k \<le> length [demo_row, demo_row]" "d' = (demo_source [])(''t'' \<mapsto> copied demo_mysql (map co_Name demo_columns)
      \<lparr>tb_Columns = demo_columns, tb_Rows = []\<rparr> [demo_row, demo_row] k)"
    using transfer_copies [where src = "demo_source [demo_row, demo_row]" and table = "''t''" and opts = ?opts, OF src _ src _ run refl refl]
    by auto
  then have "length (tb_Rows (the (d' ''t''))) = k" by (simp add: copied_def)
  with run \<open>k \<le> length [demo_row, demo_row]\<close> show ?thesis by (auto simp: numeral_2_eq_2)
qed

end
