(* ===== verification/Backup.thy ===== *)
theory Backup
  imports Compression Migrations Restoring
begin

text \<open>
  src/internal/services/migrate/backup.go: backups of a database in files, and their restoration.

  JSON documents, of a dump and of the metadata, are written and read by pairs of functions. The random numbers of a call are its draws in their order, the text of the time is a
  function. Directories exist and files can be written.
\<close>

record BackupOptions =
  bo_Tables :: "string list"
  bo_CompressAlgo :: string
  bo_EncryptKey :: string
  bo_OutputDir :: string
  bo_Filename :: string

record BackupMeta =
  bm_Version :: string
  bm_CreatedAt :: instant
  bm_DBType :: DBType
  bm_Tables :: "string list"
  bm_Format :: string
  bm_CompressAlgo :: string
  bm_Encrypted :: bool
  bm_RowCount :: int
  bm_FileSize :: int
  bm_Checksum :: string

type_synonym disk = "string \<rightharpoonup> bytes"

record env =
  ev_codecs :: codecs
  ev_aead :: aead
  ev_sha :: sha256
  ev_encode :: "doc \<Rightarrow> bytes"
  ev_decode :: "bytes \<Rightarrow> doc option"
  ev_meta :: "BackupMeta \<Rightarrow> bytes"
  ev_unmeta :: "bytes \<Rightarrow> BackupMeta option"
  ev_json :: json
  ev_fmt :: "val \<Rightarrow> string"
  ev_stamp :: "instant \<Rightarrow> string"

datatype backup_error =
    ExportFailed dump_error
  | CompressFailed compress_error
  | KeyFailed crypto_error
  | EncryptFailed crypto_error
  | NoBackupFile
  | PasswordNeeded
  | DecryptFailed crypto_error
  | DecompressFailed compress_error
  | RestoreFailed restore_error
  | NoDirectory

definition path_join :: "string \<Rightarrow> string \<Rightarrow> string" where
  "path_join dir name = dir @ ''/'' @ name"

definition meta_name :: "string \<Rightarrow> string" where
  "meta_name name = name @ ''.meta.json''"

definition backup_data :: "env \<Rightarrow> random \<Rightarrow> random \<Rightarrow> random \<Rightarrow> BackupOptions \<Rightarrow> bytes \<Rightarrow> backup_error + bytes" where
  "backup_data V rnd0 rnd1 rnd2 opts data =
    (case (if bo_CompressAlgo opts \<noteq> [] then CompressAuto (ev_codecs V) (ev_aead V) (ev_sha V) rnd0 data (bo_CompressAlgo opts) (- 1) [] else Inr data) of
       Inl e \<Rightarrow> Inl (CompressFailed e)
     | Inr data \<Rightarrow>
         if bo_EncryptKey opts \<noteq> [] then
           (case NewAESGCMFromPassword (ev_sha V) rnd1 (bo_EncryptKey opts) None of
              Inl e \<Rightarrow> Inl (KeyFailed e)
            | Inr aes \<Rightarrow> map_sum EncryptFailed id (aes_Encrypt (ev_aead V) rnd2 aes data))
         else Inr data)"

definition backup_filename :: "env \<Rightarrow> instant \<Rightarrow> engine \<Rightarrow> BackupOptions \<Rightarrow> string" where
  "backup_filename V now E opts =
    (let ext = (if bo_CompressAlgo opts \<noteq> [] then bo_CompressAlgo opts else ''json'')
     in if bo_Filename opts = [] then ''backup_'' @ (case en_kind E of MySQL \<Rightarrow> ''mysql'' | Postgres \<Rightarrow> ''postgres'')
          @ ''_'' @ ev_stamp V now @ ''.'' @ ext else bo_Filename opts)"

definition output_path :: "BackupOptions \<Rightarrow> string" where
  "output_path opts = (if bo_OutputDir opts = [] then ''.'' else bo_OutputDir opts)"

definition CreateBackup :: "env \<Rightarrow> random \<Rightarrow> random \<Rightarrow> random \<Rightarrow> instant \<Rightarrow> engine \<Rightarrow> db \<Rightarrow> BackupOptions \<Rightarrow> disk
    \<Rightarrow> (backup_error + BackupMeta) \<times> disk" where
  "CreateBackup V rnd0 rnd1 rnd2 now E d opts fs =
    (let tables = (if bo_Tables opts = [] then en_tables E d else bo_Tables opts)
     in (case Dump (ev_json V) (ev_fmt V) E d \<lparr>do_Tables = tables, do_Format = Some FormatJSON, do_Where = (\<lambda>_ _. True),
              do_BatchSize = 5000, do_NoData = False, do_SchemaOnly = False\<rparr> of
       Inl e \<Rightarrow> (Inl (ExportFailed e), fs)
     | Inr dumpResult \<Rightarrow>
         (case backup_data V rnd0 rnd1 rnd2 opts (case dr_Data dumpResult of DumpDoc doc \<Rightarrow> ev_encode V doc | DumpText s \<Rightarrow> str_bytes s) of
           Inl e \<Rightarrow> (Inl e, fs)
         | Inr data \<Rightarrow>
             let filename = backup_filename V now E opts;
                 meta = \<lparr>bm_Version = ''1'', bm_CreatedAt = now, bm_DBType = en_kind E, bm_Tables = tables, bm_Format = ''json'',
                   bm_CompressAlgo = bo_CompressAlgo opts, bm_Encrypted = (bo_EncryptKey opts \<noteq> []),
                   bm_RowCount = dr_RowCount dumpResult, bm_FileSize = int (length data), bm_Checksum = hex_encode (ev_sha V data)\<rparr>
             in (Inr meta, fs(path_join (output_path opts) (meta_name filename) \<mapsto> ev_meta V meta, path_join (output_path opts) filename \<mapsto> data)))))"

definition isCompressed :: "bytes \<Rightarrow> bool" where
  "isCompressed data \<longleftrightarrow> 2 \<le> length data \<and> (data ! 0 = 0x1f \<and> data ! 1 = 0x8b \<or> data ! 0 = 0x78)"

definition restore_options :: RestoreOptions where
  "restore_options = \<lparr>ro_Format = Some FormatJSON, ro_Tables = [], ro_Truncate = False, ro_SkipExisting = False, ro_BatchSize = 1000\<rparr>"

definition RestoreBackup :: "env \<Rightarrow> random \<Rightarrow> engine \<Rightarrow> string \<Rightarrow> string \<Rightarrow> disk \<Rightarrow> db \<Rightarrow> (backup_error + RestoreResult) \<times> db" where
  "RestoreBackup V rnd E backupPath password fs d =
    (case fs backupPath of
       None \<Rightarrow> (Inl NoBackupFile, d)
     | Some data \<Rightarrow>
         if (case Option.bind (fs (meta_name backupPath)) (ev_unmeta V) of Some meta \<Rightarrow> bm_Encrypted meta \<and> password = [] | None \<Rightarrow> False)
         then (Inl PasswordNeeded, d)
         else
           (case (if password \<noteq> [] then
                    (case NewAESGCMFromPassword (ev_sha V) rnd password None of
                       Inl e \<Rightarrow> Inl (KeyFailed e)
                     | Inr aes \<Rightarrow> map_sum DecryptFailed id (aes_Decrypt (ev_aead V) aes data))
                  else Inr data) of
              Inl e \<Rightarrow> (Inl e, d)
            | Inr data \<Rightarrow>
                (case (if isCompressed data then map_sum DecompressFailed id (DecompressAuto (ev_codecs V) (ev_aead V) (ev_sha V) data []) else Inr data) of
                   Inl e \<Rightarrow> (Inl e, d)
                 | Inr data \<Rightarrow> (case ev_decode V data of
                     None \<Rightarrow> (Inl (RestoreFailed NotJSON), d)
                   | Some doc \<Rightarrow> (case restoreJSON E restore_options doc d of (res, d') \<Rightarrow> (Inr res, d'))))))"

text \<open>The entries of the directory: their names, whether they are directories, their contents.\<close>

definition ListBackups :: "env \<Rightarrow> (string \<times> bool \<times> bytes) list \<Rightarrow> BackupMeta list" where
  "ListBackups V entries = List.map_filter (\<lambda>(name, isdir, data).
     if isdir \<or> \<not> stringsHasSuffix name ''.meta.json'' then None else ev_unmeta V data) entries"

definition DeleteBackup :: "string \<Rightarrow> string \<Rightarrow> disk \<Rightarrow> bool \<times> disk" where
  "DeleteBackup dir name fs =
    (let fs' = fs(path_join dir (meta_name name) := None)
     in (fs' (path_join dir name) \<noteq> None, fs'(path_join dir name := None)))"

section \<open>Plain and compressed backups\<close>

text \<open>
  What the JSON encoder and decoder promise for a dump and its metadata: a document starts with a brace
  and has at least two bytes, it is decoded to its tables in some order, and what starts like a zip
  archive is not JSON.
\<close>

definition json_ok :: "env \<Rightarrow> doc \<Rightarrow> BackupMeta \<Rightarrow> bool" where
  "json_ok V doc meta \<longleftrightarrow> 2 \<le> length (ev_encode V doc) \<and> ev_encode V doc ! 0 = 0x7B \<and>
     (\<exists>doc'. ev_decode V (ev_encode V doc) = Some doc' \<and> mset doc' = mset doc) \<and>
     ev_unmeta V (ev_meta V meta) = Some meta \<and>
     (\<forall>data. take 4 data = [0x50, 0x4B, 3, 4] \<longrightarrow> ev_decode V data = None)"

definition backup_path :: "env \<Rightarrow> instant \<Rightarrow> engine \<Rightarrow> BackupOptions \<Rightarrow> string" where
  "backup_path V now E opts = path_join (output_path opts) (backup_filename V now E opts)"

definition backup_tables :: "engine \<Rightarrow> db \<Rightarrow> BackupOptions \<Rightarrow> string list" where
  "backup_tables E d opts = (if bo_Tables opts = [] then en_tables E d else bo_Tables opts)"

abbreviation backup_dump :: "string list \<Rightarrow> DumpOptions" where
  "backup_dump tables \<equiv> \<lparr>do_Tables = tables, do_Format = Some FormatJSON, do_Where = (\<lambda>_ _. True),
     do_BatchSize = 5000, do_NoData = False, do_SchemaOnly = False\<rparr>"

lemma dump_of_backup:
  assumes "CreateBackup V rnd0 rnd1 rnd2 now E d opts fs = (Inr meta, fs')" "tables = backup_tables E d opts"
  obtains dump doc data where "dumpJSON (ev_json V) E d tables (backup_dump tables) = Inr dump"
    "dr_Data dump = DumpDoc doc" "backup_data V rnd0 rnd1 rnd2 opts (ev_encode V doc) = Inr data"
    "fs' (backup_path V now E opts) = Some data" "fs' (meta_name (backup_path V now E opts)) = Some (ev_meta V meta)"
    "bm_Encrypted meta = (bo_EncryptKey opts \<noteq> [])" "bm_RowCount meta = dr_RowCount dump"
proof -
  have "(if tables = [] then en_tables E d else tables) = tables" using assms(2) by (auto simp: backup_tables_def)
  then have "Dump (ev_json V) (ev_fmt V) E d (backup_dump tables) = dumpJSON (ev_json V) E d tables (backup_dump tables)"
    by (cases "tables = []") (simp_all add: Dump_def)
  with assms that show ?thesis
    by (auto simp: CreateBackup_def dumpJSON_def Let_def meta_name_def path_join_def backup_path_def
        backup_tables_def [symmetric] split: sum.splits)
qed

lemma plain_archive:
  assumes "codecs_ok C" "CompressAuto C A sha rnd data method (- 1) [] = Inr z"
  shows "if ascii_lower method = ''zip'' then take 4 z = [0x50, 0x4B, 3, 4] \<and> \<not> isCompressed z
    else isCompressed z \<and> DecompressAuto C A sha z [] = Inr data"
  using assms(2)
proof (cases rule: CompressAuto_methods)
  case gzip
  with assms(1) have z: "cz_gunzip C z = Some data" "take 2 z = [0x1f, 0x8b]" unfolding codecs_ok_def by simp_all
  from z(2) have "isCompressed z" by (cases z; cases "tl z") (auto simp: isCompressed_def)
  with z gzip(1) detect_gzip [of z] show ?thesis
    by (simp add: DecompressAuto_def NewGzipCompression_def from_reader_def)
next
  case zlib
  with assms(1) have z: "cz_unzlib C z = Some data" "take 1 z = [0x78]" "2 \<le> length z" unfolding codecs_ok_def by simp_all
  from z(2,3) have "isCompressed z" by (cases z) (auto simp: isCompressed_def)
  with z zlib(1) detect_zlib [of z] show ?thesis
    by (simp add: DecompressAuto_def NewZlibCompression_def from_reader_def)
next
  case zip
  with assms(1) have z: "take 4 z = [0x50, 0x4B, 3, 4]" by (auto simp: zip_Compress_def codecs_ok_def)
  then have "z ! 0 = 0x50" by (cases z) auto
  with z have "\<not> isCompressed z" by (simp add: isCompressed_def)
  with z zip(1) show ?thesis by simp
qed

lemma unpack_plain:
  assumes "json_ok V doc meta" "codecs_ok (ev_codecs V)" "bo_EncryptKey opts = []"
    and "backup_data V rnd0 rnd1 rnd2 opts (ev_encode V doc) = Inr data"
  shows "(if isCompressed data then map_sum DecompressFailed id (DecompressAuto (ev_codecs V) (ev_aead V) (ev_sha V) data []) else Inr data)
      = Inr (if ascii_lower (bo_CompressAlgo opts) = ''zip'' then data else ev_encode V doc)
    \<and> (ascii_lower (bo_CompressAlgo opts) = ''zip'' \<longrightarrow> ev_decode V data = None)"
proof (cases "bo_CompressAlgo opts = []")
  case True
  then have "data = ev_encode V doc" using assms(3,4) by (simp add: backup_data_def)
  moreover from this have "\<not> isCompressed data" using assms(1) by (simp add: isCompressed_def json_ok_def)
  ultimately show ?thesis using True by (simp add: ascii_lower_def)
next
  case False
  then have "CompressAuto (ev_codecs V) (ev_aead V) (ev_sha V) rnd0 (ev_encode V doc) (bo_CompressAlgo opts) (- 1) [] = Inr data"
    using assms(3,4) by (simp add: backup_data_def split: sum.splits)
  from plain_archive [OF assms(2) this] assms(1) show ?thesis by (auto simp: json_ok_def split: if_splits)
qed

text \<open>The destination with the rows of a backup behind its own.\<close>

definition restored_db :: "env \<Rightarrow> engine \<Rightarrow> engine \<Rightarrow> db \<Rightarrow> string list \<Rightarrow> db \<Rightarrow> db" where
  "restored_db V S E src tables dst = (\<lambda>t. if t \<in> set tables
     then Some ((the (dst t))\<lparr>tb_Rows := tb_Rows (the (dst t)) @ restored_rows (ev_json V) S E src (backup_dump tables) dst t\<rparr>)
     else dst t)"

text \<open>A backup without a key can be restored, unless it is a zip archive. For no compression, gzip and zlib
  \<open>RestoreBackup\<close> finds out how the data was compressed and restores the dump: no errors, the number of rows
  that the metadata has, and in every table the dumped rows as they come through JSON. A zip archive is
  not recognised and is taken for JSON, which fails with nothing restored.\<close>

lemma backup_restores:
  assumes "dumpJSON (ev_json V) S src tables (backup_dump tables) = Inr dump" "dr_Data dump = DumpDoc doc"
    and json: "json_ok V doc meta" and codecs: "codecs_ok (ev_codecs V)"
    and created: "CreateBackup V rnd0 rnd1 rnd2 now S src opts fs = (Inr meta, fs')" and plain: "bo_EncryptKey opts = []"
    and tables: "tables = backup_tables S src opts"
    and rec: "distinct tables" "\<forall>t \<in> set tables. receives (ev_json V) S E src (backup_dump tables) dst t"
  shows "if ascii_lower (bo_CompressAlgo opts) = ''zip''
    then RestoreBackup V rnd E (backup_path V now S opts) [] fs' dst = (Inl (RestoreFailed NotJSON), dst)
    else \<exists>res. RestoreBackup V rnd E (backup_path V now S opts) [] fs' dst = (Inr res, restored_db V S E src tables dst)
      \<and> rr_Errors res = [] \<and> rr_RowCount res = bm_RowCount meta"
proof -
  obtain dump1 doc1 data where dump1: "dumpJSON (ev_json V) S src tables (backup_dump tables) = Inr dump1" "dr_Data dump1 = DumpDoc doc1"
    and data1: "backup_data V rnd0 rnd1 rnd2 opts (ev_encode V doc1) = Inr data"
    and files: "fs' (backup_path V now S opts) = Some data" "fs' (meta_name (backup_path V now S opts)) = Some (ev_meta V meta)"
    and meta1: "bm_Encrypted meta = (bo_EncryptKey opts \<noteq> [])" "bm_RowCount meta = dr_RowCount dump1"
    by (rule dump_of_backup [OF created tables])
  with assms(1,2) have data: "backup_data V rnd0 rnd1 rnd2 opts (ev_encode V doc) = Inr data" and count: "bm_RowCount meta = dr_RowCount dump" by simp_all
  from json obtain doc' where doc': "ev_decode V (ev_encode V doc) = Some doc'" "mset doc' = mset doc" unfolding json_ok_def by blast
  obtain res d' where run: "restoreJSON E restore_options doc' dst = (res, d')" by (rule prod.exhaust)
  have "whole_tables (backup_dump tables)" "ro_Tables restore_options = []" "\<not> ro_Truncate restore_options" "0 < ro_BatchSize restore_options"
    by (simp_all add: whole_tables_def restore_options_def)
  note restored = dump_restore_run [OF this(1) rec assms(1,2) doc'(2) this(2-4) run]
  have "ev_unmeta V (ev_meta V meta) = Some meta" using json by (simp add: json_ok_def)
  with files meta1(1) plain unpack_plain [OF json codecs plain data] doc'(1) run
  have "RestoreBackup V rnd E (backup_path V now S opts) [] fs' dst
      = (if ascii_lower (bo_CompressAlgo opts) = ''zip'' then (Inl (RestoreFailed NotJSON), dst) else (Inr res, d'))"
    by (simp add: RestoreBackup_def split: if_splits)
  moreover have "d' = restored_db V S E src tables dst" using restored by (auto simp: restored_db_def)
  ultimately show ?thesis using restored count by simp
qed

section \<open>Encrypted backups\<close>

text \<open>Opening a message with another key fails.\<close>

definition rejects_key :: "aead \<Rightarrow> bytes \<Rightarrow> bytes \<Rightarrow> bool" where
  "rejects_key A k k' \<longleftrightarrow> (\<forall>n p. ae_open A k' n (ae_seal A k n p) = None)"

text \<open>An encrypted backup is lost. The key is derived from the password and a random salt that is written
  nowhere, and \<open>RestoreBackup\<close> draws another one. Without a password it asks for one; with any password,
  the right one included, the keys differ as soon as the salts give different digests, and the
  decryption fails with nothing restored.\<close>

lemma encrypted_backup_lost:
  assumes "ev_unmeta V (ev_meta V meta) = Some meta" "aead_ok (ev_aead V)" "sha_ok (ev_sha V)" "random_ok rnd2"
    and "CreateBackup V rnd0 rnd1 rnd2 now S src opts fs = (Inr meta, fs')" "bo_EncryptKey opts \<noteq> []"
    and "rnd1 16 = Some salt" "rnd 16 = Some salt'"
    and "rejects_key (ev_aead V) (deriveKey (ev_sha V) (bo_EncryptKey opts) salt 32) (deriveKey (ev_sha V) password salt' 32)"
  shows "RestoreBackup V rnd E (backup_path V now S opts) password fs' dst =
    (Inl (if password = [] then PasswordNeeded else DecryptFailed OpenFailed), dst)"
proof -
  obtain dump doc data where data: "backup_data V rnd0 rnd1 rnd2 opts (ev_encode V doc) = Inr data"
    and files: "fs' (backup_path V now S opts) = Some data"
      "fs' (meta_name (backup_path V now S opts)) = Some (ev_meta V meta)"
    and meta: "bm_Encrypted meta = (bo_EncryptKey opts \<noteq> [])"
    by (rule dump_of_backup [OF assms(5) refl])
  let ?k = "deriveKey (ev_sha V) (bo_EncryptKey opts) salt 32" and ?k' = "deriveKey (ev_sha V) password salt' 32"
  have key: "NewAESGCMFromPassword (ev_sha V) rnd1 (bo_EncryptKey opts) None = Inr \<lparr>ag_key = ?k\<rparr>"
    using assms(3,7) by (simp add: NewAESGCMFromPassword_def NewAESGCM_def)
  from data key assms(6) obtain plain where "aes_Encrypt (ev_aead V) rnd2 \<lparr>ag_key = ?k\<rparr> plain = Inr data"
    by (auto simp: backup_data_def map_sum_def split: sum.splits)
  then obtain nonce where "data = nonce @ ae_seal (ev_aead V) ?k nonce plain" "length nonce = 12"
    using assms(4) by (auto simp: aes_Encrypt_def random_ok_def split: option.splits)
  then have "aes_Decrypt (ev_aead V) \<lparr>ag_key = ?k'\<rparr> data = Inl OpenFailed"
    using assms(9) by (simp add: aes_Decrypt_def rejects_key_def)
  moreover have "NewAESGCMFromPassword (ev_sha V) rnd password None = Inr \<lparr>ag_key = ?k'\<rparr>"
    using assms(3,8) by (simp add: NewAESGCMFromPassword_def NewAESGCM_def)
  ultimately show ?thesis using files assms(1) meta assms(6) by (simp add: RestoreBackup_def)
qed

section \<open>Examples\<close>

definition demo_env :: "BackupMeta \<Rightarrow> env" where
  "demo_env meta = \<lparr>ev_codecs = demo_codecs, ev_aead = demo_aead, ev_sha = demo_sha, ev_encode = (\<lambda>_. [0x7B, 0x7D]),
     ev_decode = (\<lambda>b. if take 1 b = [0x7B] then Some [(''t'', Rows [json_row demo_json demo_row])] else None),
     ev_meta = (\<lambda>_. []), ev_unmeta = (\<lambda>_. Some meta), ev_json = demo_json, ev_fmt = (\<lambda>_. []), ev_stamp = (\<lambda>_. [])\<rparr>"

definition demo_backup :: "string \<Rightarrow> string \<Rightarrow> BackupOptions" where
  "demo_backup key name = \<lparr>bo_Tables = [''t''], bo_CompressAlgo = ''gzip'', bo_EncryptKey = key, bo_OutputDir = ''out'', bo_Filename = name\<rparr>"

lemma demo_backup_doc:
  obtains dump where "dumpJSON demo_json demo_mysql (demo_source [demo_row]) [''t''] (backup_dump [''t'']) = Inr dump"
    "dr_Data dump = DumpDoc [(''t'', Rows [json_row demo_json demo_row])]"
    "receives demo_json demo_mysql demo_mysql (demo_source [demo_row]) (backup_dump [''t'']) (demo_source []) ''t''"
proof -
  have rows: "dumped_rows demo_mysql (demo_source [demo_row]) (backup_dump [''t'']) ''t'' = [demo_row]"
    by (simp add: dumped_rows_def demo_mysql_def demo_source_def)
  moreover from this have "table_rows demo_mysql (demo_source [demo_row]) (backup_dump [''t'']) ''t'' = Inr [demo_row]"
    using table_rows_all [of "demo_source [demo_row]" "''t''"] by (simp add: demo_source_def)
  moreover have "receives demo_json demo_mysql demo_mysql (demo_source [demo_row]) (backup_dump [''t'']) (demo_source []) ''t''"
    using demo_receives rows demo_dumped by (simp add: receives_def demo_source_def)
  ultimately show ?thesis using that by (simp add: dumpJSON_def)
qed

lemma demo_backup_run:
  obtains meta fs' where "\<And>m. CreateBackup (demo_env m) demo_random (\<lambda>n. Some (replicate n 1)) demo_random 0 demo_mysql
    (demo_source [demo_row]) (demo_backup key name) Map.empty = (Inr meta, fs')"
proof -
  obtain dump where dump: "dumpJSON demo_json demo_mysql (demo_source [demo_row]) [''t''] (backup_dump [''t'']) = Inr dump"
    "dr_Data dump = DumpDoc [(''t'', Rows [json_row demo_json demo_row])]" by (rule demo_backup_doc)
  then have "Dump demo_json (\<lambda>_. []) demo_mysql (demo_source [demo_row]) (backup_dump [''t'']) = Inr dump" by (simp add: Dump_def)
  moreover have "\<exists>data. \<forall>m. backup_data (demo_env m) demo_random (\<lambda>n. Some (replicate n 1)) demo_random (demo_backup key name) [0x7B, 0x7D] = Inr data"
    by (cases "key = []") (simp_all add: backup_data_def demo_env_def demo_backup_def CompressAuto_def ascii_lower_def NewGzipCompression_def
      NewAESGCMFromPassword_def key_of_password [OF demo_sha_ok] aes_Encrypt_def demo_random_def)
  moreover have "backup_filename (demo_env m) 0 demo_mysql (demo_backup key name) = backup_filename (demo_env m') 0 demo_mysql (demo_backup key name)"
    for m m' by (simp add: backup_filename_def demo_env_def)
  then obtain F where "backup_filename (demo_env m) 0 demo_mysql (demo_backup key name) = F" for m by metis
  moreover have "ev_json (demo_env m) = demo_json" "ev_fmt (demo_env m) = (\<lambda>_. [])" "ev_encode (demo_env m) doc = [0x7B, 0x7D]"
    "ev_meta (demo_env m) meta = []" "ev_sha (demo_env m) = demo_sha" "bo_Tables (demo_backup key name) = [''t'']" for m meta doc
    by (simp_all add: demo_env_def demo_backup_def)
  ultimately show ?thesis using that dump(2) by (auto simp: CreateBackup_def)
qed

lemma demo_keys_differ:
  "rejects_key demo_aead (deriveKey demo_sha ''pw'' (replicate 16 1) 32) (deriveKey demo_sha ''pw'' (replicate 16 2) 32)"
proof -
  have "demo_tag (deriveKey demo_sha ''pw'' (replicate 16 1) 32) n \<noteq> demo_tag (deriveKey demo_sha ''pw'' (replicate 16 2) 32) n" for n
    by (simp add: demo_tag_def deriveKey_def demo_sha_def str_bytes_def)
  then show ?thesis by (auto simp: rejects_key_def demo_aead_def)
qed

lemma encrypted_backup_lost_witness:
  "\<exists>V meta fs'. CreateBackup V demo_random (\<lambda>n. Some (replicate n 1)) demo_random 0 demo_mysql (demo_source [demo_row])
      (demo_backup ''pw'' ''b'') Map.empty = (Inr meta, fs')
    \<and> RestoreBackup V (\<lambda>n. Some (replicate n 2)) demo_mysql (path_join ''out'' ''b'') ''pw'' fs' (demo_source [])
      = (Inl (DecryptFailed OpenFailed), demo_source [])"
proof -
  obtain meta fs' where run: "CreateBackup (demo_env m) demo_random (\<lambda>n. Some (replicate n 1)) demo_random 0 demo_mysql
      (demo_source [demo_row]) (demo_backup ''pw'' ''b'') Map.empty = (Inr meta, fs')" for m by (rule demo_backup_run [where key = "''pw''" and name = "''b''"]) blast
  have V: "ev_unmeta (demo_env meta) (ev_meta (demo_env meta) meta) = Some meta" "aead_ok (ev_aead (demo_env meta))" "sha_ok (ev_sha (demo_env meta))"
    by (simp_all add: demo_env_def demo_aead_ok demo_sha_ok)
  have opts: "bo_EncryptKey (demo_backup ''pw'' ''b'') = ''pw''" "backup_path V now E (demo_backup ''pw'' ''b'') = path_join ''out'' ''b''" for V now E
    by (simp_all add: demo_backup_def backup_path_def output_path_def backup_filename_def)
  have "RestoreBackup (demo_env meta) (\<lambda>n. Some (replicate n 2)) demo_mysql (path_join ''out'' ''b'') ''pw'' fs' (demo_source [])
      = (Inl (DecryptFailed OpenFailed), demo_source [])"
    using encrypted_backup_lost [where rnd = "\<lambda>n. Some (replicate n 2)" and password = "''pw''" and E = demo_mysql and dst = "demo_source []",
        OF V demo_random_ok run _ refl refl] opts demo_keys_differ
    by (simp add: demo_env_def)
  with run show ?thesis by blast
qed

end
