(* ===== verification/WsHub.thy ===== *)
theory WsHub
  imports Prelude "HOL-Library.AList"
begin

text \<open>
  src/internal/services/ws/hub.go and handler.go: the hub of WebSocket and SSE connections.

  Clients are pointers: they live in a heap and are named by addresses, so two clients can carry the same
  identifier. A map is an association list in the order in which it is iterated, and the set \<open>Rooms\<close> of a client the
  list of its keys. The channel \<open>Send\<close> is the list of the messages in its buffer. Every method of the
  hub is one step (the code holds the mutex); handlers of messages are named by numbers.
\<close>

type_synonym addr = nat

record Client =
  wc_ID :: string
  wc_UserID :: string
  wc_Rooms :: "string list"
  wc_Send :: "string list"
  wc_cap :: nat
  wc_closed :: nat

record Message =
  ms_Room :: string
  ms_UserID :: string
  ms_Type :: string
  ms_Payload :: string

record Hub =
  hb_heap :: "addr \<Rightarrow> Client"
  hb_clients :: "(string \<times> addr) list"
  hb_rooms :: "(string \<times> (string \<times> addr) list) list"
  hb_handlers :: "(string \<times> nat) list"
  hb_history :: "Message list"

definition NewHub :: "(addr \<Rightarrow> Client) \<Rightarrow> Hub" where
  "NewHub heap = \<lparr>hb_heap = heap, hb_clients = [], hb_rooms = [], hb_handlers = [], hb_history = []\<rparr>"

definition client_id :: "Hub \<Rightarrow> addr \<Rightarrow> string" where
  "client_id h a = wc_ID (hb_heap h a)"

definition on_client :: "addr \<Rightarrow> (Client \<Rightarrow> Client) \<Rightarrow> Hub \<Rightarrow> Hub" where
  "on_client a f h = h\<lparr>hb_heap := (hb_heap h)(a := f (hb_heap h a))\<rparr>"

section \<open>Registration and rooms\<close>

definition Register :: "addr \<Rightarrow> Hub \<Rightarrow> Hub" where
  "Register a h = h\<lparr>hb_clients := AList.update (client_id h a) a (hb_clients h)\<rparr>"

definition drop_member :: "string \<Rightarrow> string \<Rightarrow> (string \<times> (string \<times> addr) list) list \<Rightarrow> (string \<times> (string \<times> addr) list) list" where
  "drop_member room i rooms =
    (case map_of rooms room of
       None \<Rightarrow> rooms
     | Some members \<Rightarrow>
         let members = AList.delete i members
         in if members = [] then AList.delete room rooms else AList.update room members rooms)"

definition Unregister :: "addr \<Rightarrow> Hub \<Rightarrow> Hub" where
  "Unregister a h =
    (let i = client_id h a
     in on_client a (\<lambda>c. c\<lparr>wc_closed := wc_closed c + 1\<rparr>)
          (h\<lparr>hb_clients := AList.delete i (hb_clients h),
             hb_rooms := fold (\<lambda>room. drop_member room i) (wc_Rooms (hb_heap h a)) (hb_rooms h)\<rparr>))"

definition members :: "Hub \<Rightarrow> string \<Rightarrow> (string \<times> addr) list" where
  "members h room = (case map_of (hb_rooms h) room of None \<Rightarrow> [] | Some ms \<Rightarrow> ms)"

definition JoinRoom :: "string \<Rightarrow> addr \<Rightarrow> Hub \<Rightarrow> Hub" where
  "JoinRoom room a h =
    on_client a (\<lambda>c. c\<lparr>wc_Rooms := List.insert room (wc_Rooms c)\<rparr>)
      (h\<lparr>hb_rooms := AList.update room (AList.update (client_id h a) a (members h room)) (hb_rooms h)\<rparr>)"

definition LeaveRoom :: "string \<Rightarrow> addr \<Rightarrow> Hub \<Rightarrow> Hub" where
  "LeaveRoom room a h =
    on_client a (\<lambda>c. c\<lparr>wc_Rooms := removeAll room (wc_Rooms c)\<rparr>)
      (h\<lparr>hb_rooms := drop_member room (client_id h a) (hb_rooms h)\<rparr>)"

section \<open>Sending\<close>

text \<open>\<open>select { case client.Send <- payload: default: }\<close>: the message is dropped when the buffer is full.\<close>

definition has_space :: "Client \<Rightarrow> bool" where
  "has_space c \<longleftrightarrow> length (wc_Send c) < wc_cap c"

definition push :: "string \<Rightarrow> Client \<Rightarrow> Client" where
  "push payload c = (if has_space c then c\<lparr>wc_Send := wc_Send c @ [payload]\<rparr> else c)"

definition BroadcastToRoom :: "string \<Rightarrow> Message \<Rightarrow> string list \<Rightarrow> Hub \<Rightarrow> Hub" where
  "BroadcastToRoom room msg exclude h =
    fold (\<lambda>(i, a) h. if client_id h a \<in> set exclude then h else on_client a (push (ms_Payload msg)) h) (members h room) h"

definition BroadcastAll :: "Message \<Rightarrow> Hub \<Rightarrow> Hub" where
  "BroadcastAll msg h = fold (\<lambda>(i, a). on_client a (push (ms_Payload msg))) (hb_clients h) h"

definition SendToClient :: "string \<Rightarrow> Message \<Rightarrow> Hub \<Rightarrow> bool \<times> Hub" where
  "SendToClient i msg h =
    (case map_of (hb_clients h) i of
       None \<Rightarrow> (False, h)
     | Some a \<Rightarrow> (has_space (hb_heap h a), on_client a (push (ms_Payload msg)) h))"

definition SendToUser :: "string \<Rightarrow> Message \<Rightarrow> Hub \<Rightarrow> bool \<times> Hub" where
  "SendToUser userID msg h =
    fold (\<lambda>(i, a) (sent, h). if wc_UserID (hb_heap h a) = userID
        then (sent \<or> has_space (hb_heap h a), on_client a (push (ms_Payload msg)) h) else (sent, h)) (hb_clients h) (False, h)"

section \<open>Messages and counts\<close>

definition HandleMessageType :: "string \<Rightarrow> nat \<Rightarrow> Hub \<Rightarrow> Hub" where
  "HandleMessageType msgType handler h = h\<lparr>hb_handlers := AList.update msgType handler (hb_handlers h)\<rparr>"

text \<open>The handler that runs, if there is one.\<close>

definition OnMessage :: "Message \<Rightarrow> Hub \<Rightarrow> nat option" where
  "OnMessage msg h = map_of (hb_handlers h) (ms_Type msg)"

definition ClientCount :: "Hub \<Rightarrow> nat" where "ClientCount h = length (hb_clients h)"
definition RoomCount :: "Hub \<Rightarrow> nat" where "RoomCount h = length (hb_rooms h)"
definition RoomMemberCount :: "string \<Rightarrow> Hub \<Rightarrow> nat" where "RoomMemberCount room h = length (members h room)"

definition AddHistory :: "Message \<Rightarrow> Hub \<Rightarrow> Hub" where
  "AddHistory msg h =
    (let history = hb_history h @ [msg]
     in h\<lparr>hb_history := (if 1000 < length history then drop (length history - 1000) history else history)\<rparr>)"

lemma history_bounded: "length (hb_history h) \<le> 1000 \<Longrightarrow> length (hb_history (AddHistory msg h)) \<le> 1000"
  by (simp add: AddHistory_def Let_def)

text \<open>The message that \<open>readPump\<close> makes of what it read: it always has the type \<open>message\<close> and no room.\<close>

definition read_message :: "Client \<Rightarrow> string \<Rightarrow> Message" where
  "read_message c payload = \<lparr>ms_Room = [], ms_UserID = wc_UserID c, ms_Type = ''message'', ms_Payload = payload\<rparr>"

lemma other_handlers_never_run: "t \<noteq> ''message'' \<Longrightarrow> OnMessage (read_message c p) (HandleMessageType t n h) = OnMessage (read_message c p) h"
  by (simp add: OnMessage_def HandleMessageType_def read_message_def update_conv')

section \<open>Who is in a room\<close>

datatype hub_op =
    OpRegister addr
  | OpUnregister addr
  | OpJoin string addr
  | OpLeave string addr
  | OpRoom string Message "string list"
  | OpAll Message
  | OpClient string Message
  | OpUser string Message

fun hub_step :: "hub_op \<Rightarrow> Hub \<Rightarrow> Hub" where
  "hub_step (OpRegister a) h = Register a h"
| "hub_step (OpUnregister a) h = Unregister a h"
| "hub_step (OpJoin room a) h = JoinRoom room a h"
| "hub_step (OpLeave room a) h = LeaveRoom room a h"
| "hub_step (OpRoom room msg exclude) h = BroadcastToRoom room msg exclude h"
| "hub_step (OpAll msg) h = BroadcastAll msg h"
| "hub_step (OpClient i msg) h = snd (SendToClient i msg h)"
| "hub_step (OpUser u msg) h = snd (SendToUser u msg h)"

text \<open>The specification: a relation between rooms and clients.\<close>

fun spec_step :: "hub_op \<Rightarrow> (string \<times> addr) set \<Rightarrow> (string \<times> addr) set" where
  "spec_step (OpUnregister a) S = {(r, b) \<in> S. b \<noteq> a}"
| "spec_step (OpJoin room a) S = insert (room, a) S"
| "spec_step (OpLeave room a) S = S - {(room, a)}"
| "spec_step _ S = S"

fun op_addr :: "hub_op \<Rightarrow> addr option" where
  "op_addr (OpRegister a) = Some a"
| "op_addr (OpUnregister a) = Some a"
| "op_addr (OpJoin room a) = Some a"
| "op_addr (OpLeave room a) = Some a"
| "op_addr _ = None"

definition in_rooms :: "Hub \<Rightarrow> (string \<times> addr) set" where
  "in_rooms h = {(r, a). (client_id h a, a) \<in> set (members h r)}"

definition hub_ok :: "Hub \<Rightarrow> bool" where
  "hub_ok h \<longleftrightarrow> (\<forall>r. distinct (map fst (members h r)) \<and>
     (\<forall>i a. (i, a) \<in> set (members h r) \<longrightarrow> i = client_id h a \<and> r \<in> set (wc_Rooms (hb_heap h a))))"

lemma hub_ok_new: "hub_ok (NewHub heap)"
  by (simp add: hub_ok_def NewHub_def members_def)

lemma on_client_simps [simp]:
  "hb_clients (on_client a f h) = hb_clients h" "hb_rooms (on_client a f h) = hb_rooms h" "members (on_client a f h) r = members h r"
  "hb_heap (on_client a f h) b = (if b = a then f (hb_heap h a) else hb_heap h b)"
  by (simp_all add: on_client_def members_def)

lemma client_id_on_client: "(\<And>c. wc_ID (f c) = wc_ID c) \<Longrightarrow> client_id (on_client a f h) = client_id h"
  by (auto simp: client_id_def fun_eq_iff)

lemma client_id_rooms [simp]: "client_id (h\<lparr>hb_rooms := rs\<rparr>) = client_id h" "client_id (h\<lparr>hb_clients := cs\<rparr>) = client_id h"
  by (simp_all add: client_id_def fun_eq_iff)

lemma push_keeps [simp]: "wc_ID (push p c) = wc_ID c" "wc_Rooms (push p c) = wc_Rooms c" "wc_UserID (push p c) = wc_UserID c"
  by (simp_all add: push_def)

text \<open>What sending leaves alone.\<close>

definition frame :: "Hub \<Rightarrow> (string \<times> addr) list \<times> (string \<times> (string \<times> addr) list) list \<times> (addr \<Rightarrow> string) \<times> (addr \<Rightarrow> string list)" where
  "frame h = (hb_clients h, hb_rooms h, client_id h, \<lambda>a. wc_Rooms (hb_heap h a))"

lemma frame_push [simp]: "frame (on_client a (push p) h) = frame h"
  by (auto simp: frame_def client_id_on_client fun_eq_iff)

lemma frame_fold: "(\<And>x h. frame (f x h) = frame h) \<Longrightarrow> frame (fold f xs h) = frame h"
  by (induction xs arbitrary: h) auto

lemma frame_user_fold:
  "frame (snd (fold (\<lambda>(i, a) (sent, h). if wc_UserID (hb_heap h a) = u then (sent \<or> has_space (hb_heap h a), on_client a (push p) h) else (sent, h))
     xs sh)) = frame (snd sh)"
  by (induction xs arbitrary: sh) (auto split: prod.split)

lemma frame_send:
  "frame (BroadcastToRoom room msg exclude h) = frame h" "frame (BroadcastAll msg h) = frame h"
  "frame (snd (SendToClient i msg h)) = frame h" "frame (snd (SendToUser u msg h)) = frame h"
proof -
  show "frame (BroadcastToRoom room msg exclude h) = frame h" "frame (BroadcastAll msg h) = frame h"
    unfolding BroadcastToRoom_def BroadcastAll_def by (rule frame_fold; auto split: prod.split)+
  show "frame (snd (SendToClient i msg h)) = frame h" by (simp add: SendToClient_def split: option.split)
  show "frame (snd (SendToUser u msg h)) = frame h" by (simp add: SendToUser_def frame_user_fold)
qed

lemma frame_rooms: "frame h' = frame h \<Longrightarrow> in_rooms h' = in_rooms h \<and> hub_ok h' = hub_ok h \<and> client_id h' = client_id h"
  by (auto simp: frame_def in_rooms_def hub_ok_def members_def fun_eq_iff)

lemma in_AList_update:
  assumes "distinct (map fst al)"
  shows "(i, a) \<in> set (AList.update k v al) \<longleftrightarrow> (if i = k then a = v else (i, a) \<in> set al)"
proof -
  have "(i, a) \<in> set (AList.update k v al) \<longleftrightarrow> map_of (AList.update k v al) i = Some a"
    by (rule map_of_eq_Some_iff [symmetric]) (rule distinct_update [OF assms])
  then show ?thesis using map_of_eq_Some_iff [OF assms, of i a] by (auto simp: update_conv')
qed

lemma in_AList_delete: "(i, a) \<in> set (AList.delete k al) \<longleftrightarrow> i \<noteq> k \<and> (i, a) \<in> set al"
  by (auto simp: AList.delete_eq)

lemma members_update: "members (h\<lparr>hb_rooms := AList.update room ms (hb_rooms h)\<rparr>) r = (if r = room then ms else members h r)"
  by (simp add: members_def update_conv')

lemma members_drop:
  "members (h\<lparr>hb_rooms := drop_member room i rs\<rparr>) r =
    (if r = room then AList.delete i (members (h\<lparr>hb_rooms := rs\<rparr>) r) else members (h\<lparr>hb_rooms := rs\<rparr>) r)"
  by (auto simp: members_def drop_member_def Let_def update_conv' delete_conv' split: option.split)

lemma members_drops:
  "members (h\<lparr>hb_rooms := fold (\<lambda>room. drop_member room i) rooms rs\<rparr>) r =
    (if r \<in> set rooms then AList.delete i (members (h\<lparr>hb_rooms := rs\<rparr>) r) else members (h\<lparr>hb_rooms := rs\<rparr>) r)"
  by (induction rooms arbitrary: rs) (auto simp: members_drop AList.delete_eq)

lemma members_Unregister:
  "members (Unregister a h) r = (if r \<in> set (wc_Rooms (hb_heap h a)) then AList.delete (client_id h a) (members h r) else members h r)"
proof -
  have "members (h\<lparr>hb_clients := cs, hb_rooms := rs\<rparr>) r = members (h\<lparr>hb_rooms := rs\<rparr>) r" for cs rs by (simp add: members_def)
  then show ?thesis using members_drops [where h = h and i = "client_id h a" and rooms = "wc_Rooms (hb_heap h a)" and rs = "hb_rooms h" and r = r] by (simp add: Unregister_def Let_def)
qed

lemma members_Join:
  "members (JoinRoom room a h) r = (if r = room then AList.update (client_id h a) a (members h room) else members h r)"
  by (simp add: JoinRoom_def members_update)

lemma members_Leave:
  "members (LeaveRoom room a h) r = (if r = room then AList.delete (client_id h a) (members h r) else members h r)"
  using members_drop [where h = h and room = room and i = "client_id h a" and rs = "hb_rooms h" and r = r] by (simp add: LeaveRoom_def)

lemma members_Register [simp]: "members (Register a h) r = members h r"
  by (simp add: Register_def members_def)

lemma client_id_step: "client_id (hub_step op h) = client_id h"
  using frame_send(1-4) [THEN frame_rooms]
  by (cases op) (simp_all add: Register_def Unregister_def JoinRoom_def LeaveRoom_def Let_def client_id_on_client)

lemma hub_ok_step: "hub_ok h \<Longrightarrow> hub_ok (hub_step op h)"
proof (cases op)
  case (OpRegister a)
  moreover assume "hub_ok h"
  ultimately show ?thesis using client_id_step [of op h] by (simp add: hub_ok_def) (simp add: Register_def)
next
  case (OpUnregister a)
  moreover assume "hub_ok h"
  ultimately show ?thesis using client_id_step [of op h]
    by (auto simp: hub_ok_def members_Unregister in_AList_delete distinct_delete) (auto simp: Unregister_def Let_def)
next
  case (OpJoin room a)
  moreover assume "hub_ok h"
  ultimately show ?thesis using client_id_step [of op h]
    by (auto simp: hub_ok_def members_Join in_AList_update distinct_update split: if_splits) (auto simp: JoinRoom_def)
next
  case (OpLeave room a)
  moreover assume "hub_ok h"
  ultimately show ?thesis using client_id_step [of op h]
    by (auto simp: hub_ok_def members_Leave in_AList_delete distinct_delete) (auto simp: LeaveRoom_def)
qed (use frame_send [THEN frame_rooms] in simp_all)

text \<open>
  The hub implements the relation, as long as the clients of the history have different identifiers.
\<close>

lemma in_rooms_step:
  assumes ok: "hub_ok h" and inj: "inj_on (client_id h) A" and A: "snd ` in_rooms h \<subseteq> A" "\<And>a. op_addr op = Some a \<Longrightarrow> a \<in> A"
  shows "in_rooms (hub_step op h) = spec_step op (in_rooms h)"
proof -
  have same: "client_id h b = client_id h a \<longleftrightarrow> b = a" if "op_addr op = Some a" "(r, b) \<in> in_rooms h" for a b r
    using inj A that by (force dest: inj_onD)
  have rooms: "r \<in> set (wc_Rooms (hb_heap h a))" if "(r, a) \<in> in_rooms h" for r a
    using ok that by (auto simp: hub_ok_def in_rooms_def)
  have dist: "distinct (map fst (members h r))" for r using ok by (simp add: hub_ok_def)
  note id = client_id_step [of op h]
  show ?thesis
  proof (cases op)
    case (OpRegister a)
    then show ?thesis using id by (simp add: in_rooms_def)
  next
    case (OpUnregister a)
    have "(r, b) \<in> in_rooms (hub_step op h) \<longleftrightarrow> (r, b) \<in> in_rooms h \<and> b \<noteq> a" for r b
      using id same [of a r b] rooms [of r b] OpUnregister
      by (auto simp: in_rooms_def members_Unregister in_AList_delete)
    with OpUnregister show ?thesis by auto
  next
    case (OpJoin room a)
    have "(r, b) \<in> in_rooms (hub_step op h) \<longleftrightarrow> (r, b) \<in> in_rooms h \<or> (r = room \<and> b = a)" for r b
      using id same [of a r b] OpJoin dist by (auto simp: in_rooms_def members_Join in_AList_update)
    with OpJoin show ?thesis by auto
  next
    case (OpLeave room a)
    have "(r, b) \<in> in_rooms (hub_step op h) \<longleftrightarrow> (r, b) \<in> in_rooms h \<and> (r, b) \<noteq> (room, a)" for r b
      using id same [of a r b] OpLeave by (auto simp: in_rooms_def members_Leave in_AList_delete)
    with OpLeave show ?thesis by auto
  qed (use frame_send [THEN frame_rooms] in simp_all)
qed

lemma spec_step_range: "(\<And>a. op_addr op = Some a \<Longrightarrow> a \<in> A) \<Longrightarrow> snd ` S \<subseteq> A \<Longrightarrow> snd ` spec_step op S \<subseteq> A"
  by (cases op) auto

lemma in_rooms_run:
  assumes "hub_ok h" "inj_on (client_id h) A" "snd ` in_rooms h \<subseteq> A" "\<forall>op \<in> set ops. \<forall>a. op_addr op = Some a \<longrightarrow> a \<in> A"
  shows "in_rooms (fold hub_step ops h) = fold spec_step ops (in_rooms h) \<and> hub_ok (fold hub_step ops h) \<and>
    client_id (fold hub_step ops h) = client_id h"
  using assms
proof (induction ops arbitrary: h)
  case (Cons op ops)
  have s: "in_rooms (hub_step op h) = spec_step op (in_rooms h)" by (rule in_rooms_step) (use Cons.prems in auto)
  have "snd ` in_rooms (hub_step op h) \<subseteq> A" unfolding s by (rule spec_step_range) (use Cons.prems in auto)
  with Cons.IH [of "hub_step op h"] Cons.prems show ?case by (simp add: s hub_ok_step client_id_step)
qed simp

section \<open>Who receives a broadcast\<close>

lemma push_all:
  assumes "distinct (map snd xs)"
  shows "hb_heap (fold (\<lambda>(i, a) h. if client_id h a \<in> X then h else on_client a (push p) h) xs h) b =
    (if b \<in> snd ` set xs \<and> client_id h b \<notin> X then push p (hb_heap h b) else hb_heap h b)"
  using assms
proof (induction xs arbitrary: h)
  case (Cons x xs)
  obtain i a where x: "x = (i, a)" by (cases x)
  let ?h = "if client_id h a \<in> X then h else on_client a (push p) h"
  have "client_id ?h = client_id h" "hb_heap ?h b = (if b = a \<and> client_id h a \<notin> X then push p (hb_heap h a) else hb_heap h b)"
    by (simp_all add: client_id_on_client)
  moreover have "a \<notin> snd ` set xs" "distinct (map snd xs)" using Cons.prems x by auto
  ultimately show ?case using Cons.IH [of ?h] by (cases "b = a") (simp_all add: x)
qed simp

lemma members_addresses: "hub_ok h \<Longrightarrow> distinct (map snd (members h r))"
  unfolding distinct_map by (auto simp: hub_ok_def distinct_map inj_on_def) (metis fst_conv)

text \<open>C35: A broadcast reaches exactly the members of the room. After any history of registrations, joins, departures and messages
  of clients with different identifiers, \<open>BroadcastToRoom\<close> puts the payload, once, into the buffer of each client that
  has joined the room and has neither left it nor been unregistered since, that is not excluded and that
  has room in its buffer; every other buffer stays as it is.\<close>

theorem broadcast_reaches_members:
  assumes "inj_on (\<lambda>a. wc_ID (heap a)) A" "\<forall>op \<in> set ops. \<forall>a. op_addr op = Some a \<longrightarrow> a \<in> A"
    and "h = fold hub_step ops (NewHub heap)"
  shows "wc_Send (hb_heap (BroadcastToRoom room msg exclude h) a) =
    wc_Send (hb_heap h a) @
      (if (room, a) \<in> fold spec_step ops {} \<and> wc_ID (heap a) \<notin> set exclude \<and> length (wc_Send (hb_heap h a)) < wc_cap (hb_heap h a)
       then [ms_Payload msg] else [])"
proof -
  have new: "client_id (NewHub heap) = (\<lambda>a. wc_ID (heap a))" "in_rooms (NewHub heap) = {}"
    by (simp_all add: client_id_def NewHub_def in_rooms_def members_def fun_eq_iff)
  from in_rooms_run [where h = "NewHub heap" and A = A and ops = ops] assms(1,2) new
  have h: "in_rooms h = fold spec_step ops {}" "hub_ok h" "client_id h a = wc_ID (heap a)"
    by (simp_all add: assms(3) hub_ok_new)
  have "a \<in> snd ` set (members h room) \<longleftrightarrow> (room, a) \<in> in_rooms h"
    using h(2) by (force simp: in_rooms_def hub_ok_def)
  with h push_all [OF members_addresses [OF h(2)], where X = "set exclude" and p = "ms_Payload msg" and h = h and b = a] show ?thesis
    by (auto simp: BroadcastToRoom_def push_def has_space_def)
qed

text \<open>
  With one identifier for two clients, unregistering the first takes the second out of the hub too: a client that
  reconnects under its old identifier before the old connection is cleaned up is lost.
\<close>

lemma unregister_drops_namesake:
  assumes "client_id h a = client_id h b"
  shows "map_of (hb_clients (Unregister a (Register b (Register a h)))) (client_id h b) = None \<and>
    fst (SendToClient (client_id h b) msg (Unregister a (Register b (Register a h)))) = False"
  using assms by (simp add: Unregister_def Let_def delete_conv' SendToClient_def Register_def client_id_def)

definition demo_heap :: "addr \<Rightarrow> Client" where
  "demo_heap a = \<lparr>wc_ID = replicate a CHR ''x'', wc_UserID = ''u'', wc_Rooms = [], wc_Send = [], wc_cap = 2, wc_closed = 0\<rparr>"

definition demo_ops :: "hub_op list" where
  "demo_ops = [OpRegister 1, OpRegister 2, OpJoin ''r'' 1, OpJoin ''r'' 2, OpJoin ''r'' 3, OpLeave ''r'' 2, OpUnregister 3]"

lemma broadcast_reaches_members_witness:
  "wc_Send (hb_heap (BroadcastToRoom ''r'' (read_message (demo_heap 2) ''hi'') [] (fold hub_step demo_ops (NewHub demo_heap))) 1) =
   wc_Send (hb_heap (fold hub_step demo_ops (NewHub demo_heap)) 1) @
     (if (''r'', 1) \<in> fold spec_step demo_ops {} \<and> wc_ID (demo_heap 1) \<notin> set [] \<and>
        length (wc_Send (hb_heap (fold hub_step demo_ops (NewHub demo_heap)) 1)) < wc_cap (hb_heap (fold hub_step demo_ops (NewHub demo_heap)) 1)
      then [ms_Payload (read_message (demo_heap 2) ''hi'')] else []) \<and> (''r'', 1) \<in> fold spec_step demo_ops {}"
proof (rule conjI [OF broadcast_reaches_members [where A = UNIV]])
  show "inj_on (\<lambda>a. wc_ID (demo_heap a)) UNIV" by (auto simp: demo_heap_def inj_on_def)
qed (simp_all add: demo_ops_def)

end
