(* ===== verification/Discovery.thy ===== *)
theory Discovery
  imports Prelude "HOL-Library.AList"
begin

text \<open>
  src/internal/services/discovery/discovery.go: the in-memory registry of service instances and its watches.

  Maps are association lists in the order in which they are iterated. A channel is a cell of \<open>mr_chans\<close>, named by its
  index; \<open>mr_waiting\<close> are the goroutines that \<open>Watch\<close> has started and whose context is not done, each with the name and the
  channel of its closure. An operation returns the new registry, or \<^const>\<open>None\<close> when it panics; a goroutine that
  panics ends the process.
\<close>

record Instance =
  in_ID :: string
  in_Name :: string
  in_Address :: string
  in_Port :: int
  in_Tags :: "string list"
  in_Metadata :: "(string \<times> string) list"
  in_Status :: string
  in_LastSeen :: instant

record chan =
  ch_buf :: "Instance list list"
  ch_closed :: bool

record MemoryRegistry =
  mr_instances :: "(string \<times> Instance) list"
  mr_watchers :: "(string \<times> nat list) list"
  mr_chans :: "chan list"
  mr_waiting :: "(string \<times> nat) list"

definition NewMemoryRegistry :: MemoryRegistry where
  "NewMemoryRegistry = \<lparr>mr_instances = [], mr_watchers = [], mr_chans = [], mr_waiting = []\<rparr>"

definition snapshot :: "string \<Rightarrow> MemoryRegistry \<Rightarrow> Instance list" where
  "snapshot name r = filter (\<lambda>i. in_Name i = name) (map snd (mr_instances r))"

definition watchers_of :: "string \<Rightarrow> MemoryRegistry \<Rightarrow> nat list" where
  "watchers_of name r = (case map_of (mr_watchers r) name of None \<Rightarrow> [] | Some ws \<Rightarrow> ws)"

text \<open>\<open>select { case ch <- s: default: }\<close> on a buffer of 16; a send on a closed channel panics.\<close>

definition offer :: "Instance list \<Rightarrow> nat \<Rightarrow> MemoryRegistry \<Rightarrow> MemoryRegistry option" where
  "offer s c r =
    (let ch = mr_chans r ! c
     in if ch_closed ch then None
        else if length (ch_buf ch) < 16 then Some (r\<lparr>mr_chans := (mr_chans r)[c := ch\<lparr>ch_buf := ch_buf ch @ [s]\<rparr>]\<rparr>)
        else Some r)"

fun offer_all :: "Instance list \<Rightarrow> nat list \<Rightarrow> MemoryRegistry \<Rightarrow> MemoryRegistry option" where
  "offer_all s [] r = Some r"
| "offer_all s (c # cs) r = (case offer s c r of None \<Rightarrow> None | Some r' \<Rightarrow> offer_all s cs r')"

definition notifyWatchers :: "string \<Rightarrow> MemoryRegistry \<Rightarrow> MemoryRegistry option" where
  "notifyWatchers name r = offer_all (snapshot name r) (watchers_of name r) r"

definition Register :: "instant \<Rightarrow> Instance \<Rightarrow> duration \<Rightarrow> MemoryRegistry \<Rightarrow> MemoryRegistry option" where
  "Register now inst ttl r =
    (let inst = inst\<lparr>in_Status := ''up'', in_LastSeen := now\<rparr>
     in notifyWatchers (in_Name inst) (r\<lparr>mr_instances := AList.update (in_ID inst) inst (mr_instances r)\<rparr>))"

datatype registry_error = InstanceNotFound string

definition Deregister :: "string \<Rightarrow> MemoryRegistry \<Rightarrow> (registry_error + MemoryRegistry) option" where
  "Deregister i r =
    (case map_of (mr_instances r) i of
       None \<Rightarrow> Some (Inl (InstanceNotFound i))
     | Some inst \<Rightarrow> map_option Inr (notifyWatchers (in_Name inst) (r\<lparr>mr_instances := AList.delete i (mr_instances r)\<rparr>)))"

definition Renew :: "instant \<Rightarrow> string \<Rightarrow> MemoryRegistry \<Rightarrow> registry_error + MemoryRegistry" where
  "Renew now i r =
    (case map_of (mr_instances r) i of
       None \<Rightarrow> Inl (InstanceNotFound i)
     | Some inst \<Rightarrow> Inr (r\<lparr>mr_instances := AList.update i (inst\<lparr>in_LastSeen := now, in_Status := ''up''\<rparr>) (mr_instances r)\<rparr>))"

definition Discover :: "string \<Rightarrow> MemoryRegistry \<Rightarrow> Instance list" where
  "Discover name r = filter (\<lambda>i. in_Name i = name \<and> in_Status i = ''up'') (map snd (mr_instances r))"

definition List_all :: "MemoryRegistry \<Rightarrow> Instance list" where
  "List_all r = map snd (mr_instances r)"

definition Watch :: "string \<Rightarrow> MemoryRegistry \<Rightarrow> nat \<times> MemoryRegistry" where
  "Watch name r =
    (let c = length (mr_chans r)
     in (c, r\<lparr>mr_chans := mr_chans r @ [\<lparr>ch_buf = [], ch_closed = False\<rparr>],
              mr_watchers := AList.update name (watchers_of name r @ [c]) (mr_watchers r),
              mr_waiting := mr_waiting r @ [(name, c)]\<rparr>))"

text \<open>\<open>close(ch)\<close>, which panics on a closed channel.\<close>

definition close_chan :: "nat \<Rightarrow> MemoryRegistry \<Rightarrow> MemoryRegistry option" where
  "close_chan c r =
    (if ch_closed (mr_chans r ! c) then None
     else Some (r\<lparr>mr_chans := (mr_chans r)[c := (mr_chans r ! c)\<lparr>ch_closed := True\<rparr>]\<rparr>))"

text \<open>The goroutine of a watch, once its context is done.\<close>

definition watch_done :: "string \<times> nat \<Rightarrow> MemoryRegistry \<Rightarrow> MemoryRegistry option" where
  "watch_done w r =
    (case w of (name, c) \<Rightarrow>
       let ws = watchers_of name r;
           r = (if c \<in> set ws then r\<lparr>mr_watchers := AList.update name (delete_first (\<lambda>w. w = c) ws) (mr_watchers r)\<rparr> else r)
       in close_chan c (r\<lparr>mr_waiting := removeAll w (mr_waiting r)\<rparr>))"

fun close_all :: "nat list \<Rightarrow> MemoryRegistry \<Rightarrow> MemoryRegistry option" where
  "close_all [] r = Some r"
| "close_all (c # cs) r = (case close_chan c r of None \<Rightarrow> None | Some r' \<Rightarrow> close_all cs r')"

definition Close :: "MemoryRegistry \<Rightarrow> MemoryRegistry option" where
  "Close r = (case close_all (concat (map snd (mr_watchers r))) r of
     None \<Rightarrow> None
   | Some r' \<Rightarrow> Some (r'\<lparr>mr_instances := [], mr_watchers := []\<rparr>))"

text \<open>The time to live is not used: an instance that is never renewed stays up.\<close>

lemma ttl_ignored: "Register now inst ttl r = Register now inst ttl' r"
  by (simp add: Register_def)

section \<open>Histories\<close>

datatype reg_op =
    RRegister instant Instance duration
  | RDeregister string
  | RRenew instant string
  | RWatch string
  | RCancel "string \<times> nat"
  | RClose

text \<open>A cancellation is one of a context that a goroutine waits for.\<close>

definition reg_step :: "reg_op \<Rightarrow> MemoryRegistry \<Rightarrow> MemoryRegistry option" where
  "reg_step op r = (case op of
     RRegister now inst ttl \<Rightarrow> Register now inst ttl r
   | RDeregister i \<Rightarrow> (case Deregister i r of None \<Rightarrow> None | Some (Inl e) \<Rightarrow> Some r | Some (Inr r') \<Rightarrow> Some r')
   | RRenew now i \<Rightarrow> (case Renew now i r of Inl e \<Rightarrow> Some r | Inr r' \<Rightarrow> Some r')
   | RWatch name \<Rightarrow> Some (snd (Watch name r))
   | RCancel w \<Rightarrow> if w \<in> set (mr_waiting r) then watch_done w r else Some r
   | RClose \<Rightarrow> Close r)"

fun reg_run :: "reg_op list \<Rightarrow> MemoryRegistry \<Rightarrow> MemoryRegistry option" where
  "reg_run [] r = Some r"
| "reg_run (op # ops) r = (case reg_step op r of None \<Rightarrow> None | Some r' \<Rightarrow> reg_run ops r')"

definition reg_ok :: "MemoryRegistry \<Rightarrow> bool" where
  "reg_ok r \<longleftrightarrow> distinct (map fst (mr_watchers r)) \<and>
     (\<forall>name. distinct (watchers_of name r) \<and> (\<forall>c. c \<in> set (watchers_of name r) \<longleftrightarrow> (name, c) \<in> set (mr_waiting r))) \<and>
     (\<forall>(name, c) \<in> set (mr_waiting r). c < length (mr_chans r) \<and> \<not> ch_closed (mr_chans r ! c)) \<and>
     inj_on snd (set (mr_waiting r))"

text \<open>Notifications change buffers only.\<close>

definition shape :: "MemoryRegistry \<Rightarrow> (string \<times> Instance) list \<times> (string \<times> nat list) list \<times> (string \<times> nat) list \<times> bool list" where
  "shape r = (mr_instances r, mr_watchers r, mr_waiting r, map ch_closed (mr_chans r))"

lemma closed_update: "map ch_closed (xs[c := (xs ! c)\<lparr>ch_buf := b\<rparr>]) = map ch_closed xs"
  by (cases "c < length xs") (auto intro!: nth_equalityI simp: nth_list_update split: if_splits)

lemma offer_shape: "offer s c r = Some r' \<Longrightarrow> shape r' = shape r"
  by (auto simp: offer_def Let_def shape_def closed_update split: if_splits)

lemma offer_open: "c < length (mr_chans r) \<Longrightarrow> \<not> ch_closed (mr_chans r ! c) \<Longrightarrow> offer s c r \<noteq> None"
  by (simp add: offer_def Let_def)

lemma shape_closed:
  assumes "shape r' = shape r"
  shows "length (mr_chans r') = length (mr_chans r)" "c < length (mr_chans r) \<Longrightarrow> ch_closed (mr_chans r' ! c) = ch_closed (mr_chans r ! c)"
proof -
  have m: "map ch_closed (mr_chans r') = map ch_closed (mr_chans r)" using assms by (simp add: shape_def)
  then show len: "length (mr_chans r') = length (mr_chans r)" by (rule map_eq_imp_length_eq)
  show "c < length (mr_chans r) \<Longrightarrow> ch_closed (mr_chans r' ! c) = ch_closed (mr_chans r ! c)"
    using arg_cong [OF m, of "\<lambda>xs. xs ! c"] len by simp
qed

lemma offer_all_open:
  assumes "\<forall>c \<in> set cs. c < length (mr_chans r) \<and> \<not> ch_closed (mr_chans r ! c)"
  obtains r' where "offer_all s cs r = Some r'" "shape r' = shape r"
proof -
  have "\<exists>r'. offer_all s cs r = Some r' \<and> shape r' = shape r"
    using assms
  proof (induction cs arbitrary: r)
    case (Cons c cs)
    then obtain r1 where r1: "offer s c r = Some r1" using offer_open [of c r s] by auto
    note sh = offer_shape [OF r1]
    have "\<forall>c \<in> set cs. c < length (mr_chans r1) \<and> \<not> ch_closed (mr_chans r1 ! c)"
      using Cons.prems shape_closed [OF sh] by simp
    with Cons.IH r1 sh show ?case by fastforce
  qed simp
  then show ?thesis using that by blast
qed

lemma reg_ok_shape:
  assumes "mr_watchers r' = mr_watchers r" "mr_waiting r' = mr_waiting r" "map ch_closed (mr_chans r') = map ch_closed (mr_chans r)"
  shows "reg_ok r' \<longleftrightarrow> reg_ok r"
proof -
  have len: "length (mr_chans r') = length (mr_chans r)" using assms(3) by (rule map_eq_imp_length_eq)
  then have "c < length (mr_chans r) \<Longrightarrow> ch_closed (mr_chans r' ! c) = ch_closed (mr_chans r ! c)" for c
    using arg_cong [OF assms(3), of "\<lambda>xs. xs ! c"] by simp
  with assms len show ?thesis by (auto simp: reg_ok_def watchers_of_def)
qed

lemma notify_ok:
  assumes "reg_ok r"
  obtains r' where "notifyWatchers name (r\<lparr>mr_instances := is\<rparr>) = Some r'" "reg_ok r'"
proof -
  let ?r = "r\<lparr>mr_instances := is\<rparr>"
  have ok: "reg_ok ?r" using assms by (subst reg_ok_shape [of _ r]) simp_all
  then have "\<forall>c \<in> set (watchers_of name ?r). c < length (mr_chans ?r) \<and> \<not> ch_closed (mr_chans ?r ! c)"
    by (auto simp: reg_ok_def)
  then obtain r' where "offer_all (snapshot name ?r) (watchers_of name ?r) ?r = Some r'" "shape r' = shape ?r"
    by (rule offer_all_open)
  with ok show ?thesis by (intro that [of r']) (auto simp: notifyWatchers_def shape_def reg_ok_shape [of r' ?r])
qed

lemma watchers_of_update [simp]:
  "watchers_of name (r\<lparr>mr_watchers := AList.update n ws (mr_watchers r)\<rparr>) = (if name = n then ws else watchers_of name r)"
  by (simp add: watchers_of_def update_conv')

lemma Watch_ok:
  assumes "reg_ok r"
  shows "reg_ok (snd (Watch name r))"
proof -
  let ?c = "length (mr_chans r)"
  have small: "c < ?c" if "(n, c) \<in> set (mr_waiting r)" for n c using assms that by (auto simp: reg_ok_def)
  have "watchers_of n (snd (Watch name r)) = (if n = name then watchers_of name r @ [?c] else watchers_of n r)" for n
    by (simp add: Watch_def Let_def watchers_of_def update_conv')
  moreover have "?c \<notin> set (watchers_of n r)" for n using assms small by (auto simp: reg_ok_def)
  moreover have "inj_on snd (set (mr_waiting (snd (Watch name r))))"
    using assms small by (auto simp: reg_ok_def Watch_def Let_def inj_on_def)
  ultimately show ?thesis
    using assms small by (auto simp: reg_ok_def Watch_def Let_def distinct_update nth_append)
qed

lemma delete_first_distinct: "distinct xs \<Longrightarrow> set (delete_first (\<lambda>w. w = c) xs) = set xs - {c} \<and> distinct (delete_first (\<lambda>w. w = c) xs)"
  by (induction xs) auto

lemma cancel_ok:
  assumes "reg_ok r" "(name, c) \<in> set (mr_waiting r)"
  shows "\<exists>r'. watch_done (name, c) r = Some r' \<and> reg_ok r'"
proof -
  have c: "c \<in> set (watchers_of name r)" "\<not> ch_closed (mr_chans r ! c)" "c < length (mr_chans r)"
    using assms by (auto simp: reg_ok_def)
  let ?r = "r\<lparr>mr_watchers := AList.update name (delete_first (\<lambda>w. w = c) (watchers_of name r)) (mr_watchers r),
    mr_waiting := removeAll (name, c) (mr_waiting r), mr_chans := (mr_chans r)[c := (mr_chans r ! c)\<lparr>ch_closed := True\<rparr>]\<rparr>"
  have ws: "watchers_of n ?r = (if n = name then delete_first (\<lambda>w. w = c) (watchers_of name r) else watchers_of n r)" for n
    by (simp add: watchers_of_def update_conv')
  have other: "d \<noteq> c" if "(n, d) \<in> set (mr_waiting r)" "(n, d) \<noteq> (name, c)" for n d
    using assms that inj_onD [of snd "set (mr_waiting r)" "(n, d)" "(name, c)"] by (auto simp: reg_ok_def)
  have old: "distinct (watchers_of n r)" "d \<in> set (watchers_of n r) \<longleftrightarrow> (n, d) \<in> set (mr_waiting r)" for n d
    using assms(1) by (auto simp: reg_ok_def)
  have "distinct (map fst (mr_watchers ?r))" using assms(1) by (simp add: reg_ok_def distinct_update)
  moreover have "distinct (watchers_of n ?r) \<and> (\<forall>d. d \<in> set (watchers_of n ?r) \<longleftrightarrow> (n, d) \<in> set (mr_waiting ?r))" for n
    unfolding ws using delete_first_distinct [OF old(1) [of name], of c] old(1) [of n] old(2) [of _ n] by auto
  moreover have "d < length (mr_chans ?r) \<and> \<not> ch_closed (mr_chans ?r ! d)" if "(n, d) \<in> set (mr_waiting ?r)" for n d
    using other [of n d] that assms(1) by (auto simp: reg_ok_def)
  moreover have "inj_on snd (set (mr_waiting ?r))"
    using assms(1) by (auto simp: reg_ok_def intro: inj_on_subset)
  ultimately have "reg_ok ?r" unfolding reg_ok_def by blast
  moreover have "watch_done (name, c) r = Some ?r" using c by (simp add: watch_done_def close_chan_def Let_def)
  ultimately show ?thesis by blast
qed

lemma reg_step_ok:
  assumes "reg_ok r" "op \<noteq> RClose"
  shows "\<exists>r'. reg_step op r = Some r' \<and> reg_ok r'"
proof (cases op)
  case (RRegister now inst ttl)
  let ?inst = "inst\<lparr>in_Status := ''up'', in_LastSeen := now\<rparr>"
  obtain r' where "notifyWatchers (in_Name ?inst) (r\<lparr>mr_instances := AList.update (in_ID ?inst) ?inst (mr_instances r)\<rparr>) = Some r'" "reg_ok r'"
    by (rule notify_ok [OF assms(1)])
  with RRegister show ?thesis by (simp add: reg_step_def Register_def)
next
  case (RDeregister i)
  show ?thesis
  proof (cases "map_of (mr_instances r) i")
    case (Some inst)
    obtain r' where "notifyWatchers (in_Name inst) (r\<lparr>mr_instances := AList.delete i (mr_instances r)\<rparr>) = Some r'" "reg_ok r'"
      by (rule notify_ok [OF assms(1)])
    with RDeregister Some show ?thesis by (simp add: reg_step_def Deregister_def)
  qed (use RDeregister assms in \<open>simp add: reg_step_def Deregister_def\<close>)
next
  case (RRenew now i)
  have "reg_ok (r\<lparr>mr_instances := is\<rparr>)" for "is" using assms(1) by (subst reg_ok_shape [of _ r]) simp_all
  with RRenew assms(1) show ?thesis by (simp add: reg_step_def Renew_def split: option.split)
next
  case (RWatch name)
  then show ?thesis using Watch_ok [OF assms(1)] by (simp add: reg_step_def)
next
  case (RCancel w)
  then show ?thesis using cancel_ok [OF assms(1)] assms(1) by (cases w) (auto simp: reg_step_def)
qed (use assms in simp)

lemma reg_run_ok: "reg_ok r \<Longrightarrow> RClose \<notin> set ops \<Longrightarrow> \<exists>r'. reg_run ops r = Some r' \<and> reg_ok r'"
proof (induction ops arbitrary: r)
  case (Cons op ops)
  then obtain r1 where "reg_step op r = Some r1" "reg_ok r1" using reg_step_ok [of r op] by auto
  with Cons show ?case by simp
qed simp

lemma close_all_open:
  assumes "distinct cs" "\<forall>c \<in> set cs. c < length (mr_chans r) \<and> \<not> ch_closed (mr_chans r ! c)"
  shows "\<exists>r'. close_all cs r = Some r' \<and> mr_waiting r' = mr_waiting r \<and> (\<forall>c \<in> set cs. ch_closed (mr_chans r' ! c)) \<and>
    (\<forall>c. c \<notin> set cs \<longrightarrow> mr_chans r' ! c = mr_chans r ! c) \<and> length (mr_chans r') = length (mr_chans r)"
  using assms
proof (induction cs arbitrary: r)
  case (Cons c cs)
  let ?r = "r\<lparr>mr_chans := (mr_chans r)[c := (mr_chans r ! c)\<lparr>ch_closed := True\<rparr>]\<rparr>"
  have "close_chan c r = Some ?r" using Cons.prems by (simp add: close_chan_def)
  moreover have "\<forall>d \<in> set cs. d < length (mr_chans ?r) \<and> \<not> ch_closed (mr_chans ?r ! d)"
    using Cons.prems by (auto simp: nth_list_update)
  ultimately show ?case using Cons.IH [of ?r] Cons.prems by (fastforce simp: nth_list_update)
qed simp

lemma distinct_concat_snd:
  assumes "distinct (map fst al)" "\<And>n ws. (n, ws) \<in> set al \<Longrightarrow> distinct ws"
    and "\<And>n ws m vs c. (n, ws) \<in> set al \<Longrightarrow> (m, vs) \<in> set al \<Longrightarrow> c \<in> set ws \<Longrightarrow> c \<in> set vs \<Longrightarrow> n = m"
  shows "distinct (concat (map snd al))"
  using assms
proof (induction al)
  case (Cons p al)
  obtain n ws where p: "p = (n, ws)" by (cases p)
  have "distinct (concat (map snd al))"
  proof (rule Cons.IH)
    show "distinct (map fst al)" using Cons.prems(1) by simp
    show "distinct vs" if "(m, vs) \<in> set al" for m vs using Cons.prems(2) [of m vs] that by simp
    show "k = m" if "(k, us) \<in> set al" "(m, vs) \<in> set al" "c \<in> set us" "c \<in> set vs" for k us m vs c
      using Cons.prems(3) [of k us m vs c] that by simp
  qed
  moreover have "c \<notin> set vs" if "(m, vs) \<in> set al" "c \<in> set ws" for m vs c
    using Cons.prems(1) Cons.prems(3) [of n ws m vs c] that p by force
  moreover have "distinct ws" using Cons.prems(2) [of n ws] p by simp
  ultimately show ?case by (fastforce simp: p)
qed simp

lemma concat_watchers:
  assumes "reg_ok r"
  shows "distinct (concat (map snd (mr_watchers r))) \<and> set (concat (map snd (mr_watchers r))) = snd ` set (mr_waiting r)"
proof -
  have ws: "watchers_of n r = ws" if "(n, ws) \<in> set (mr_watchers r)" for n ws
    using assms that by (simp add: reg_ok_def watchers_of_def)
  have wait: "(n, c) \<in> set (mr_waiting r) \<longleftrightarrow> c \<in> set (watchers_of n r)" for n c using assms by (simp add: reg_ok_def)
  have "distinct (concat (map snd (mr_watchers r)))"
  proof (rule distinct_concat_snd)
    fix n ws m vs c assume "(n, ws) \<in> set (mr_watchers r)" "(m, vs) \<in> set (mr_watchers r)" "c \<in> set ws" "c \<in> set vs"
    then have "(n, c) \<in> set (mr_waiting r)" "(m, c) \<in> set (mr_waiting r)" using ws wait by simp_all
    then show "n = m" using assms inj_onD [of snd "set (mr_waiting r)" "(n, c)" "(m, c)"] by (simp add: reg_ok_def)
  qed (use assms ws in \<open>auto simp: reg_ok_def\<close>)
  moreover have "\<exists>ws. (n, ws) \<in> set (mr_watchers r) \<and> c \<in> set ws" if "(n, c) \<in> set (mr_waiting r)" for n c
    using that wait by (cases "map_of (mr_watchers r) n") (auto simp: watchers_of_def dest: map_of_SomeD)
  moreover have "(n, c) \<in> set (mr_waiting r)" if "(n, ws) \<in> set (mr_watchers r)" "c \<in> set ws" for n ws c
    using that ws wait by simp
  ultimately show ?thesis by (force simp: image_iff)
qed

text \<open>C39: Watches do not panic before \<open>Close\<close>, and do after it. Registrations, deregistrations, renewals, watches and cancelled
  contexts in any order run without a panic (no send goes to a closed channel, no channel is closed twice), and so does a \<open>Close\<close> after
  them. But \<open>Close\<close> closes the channels of the watches whose contexts are not done yet, and when such a context is done
  later its goroutine closes the channel again and panics.\<close>

theorem close_then_cancel_panics:
  assumes "RClose \<notin> set ops"
  shows "\<exists>r r'. reg_run ops NewMemoryRegistry = Some r \<and> reg_step RClose r = Some r' \<and> mr_waiting r' = mr_waiting r \<and>
    (\<forall>w \<in> set (mr_waiting r). reg_step (RCancel w) r' = None)"
proof -
  have "reg_ok NewMemoryRegistry" by (simp add: reg_ok_def NewMemoryRegistry_def watchers_of_def)
  then obtain r where r: "reg_run ops NewMemoryRegistry = Some r" "reg_ok r" using reg_run_ok assms by blast
  have "distinct (concat (map snd (mr_watchers r))) \<and> set (concat (map snd (mr_watchers r))) = snd ` set (mr_waiting r)"
    by (rule concat_watchers [OF r(2)])
  then obtain cs where cs: "cs = concat (map snd (mr_watchers r))" "distinct cs" "set cs = snd ` set (mr_waiting r)" by blast
  have "\<forall>c \<in> set cs. c < length (mr_chans r) \<and> \<not> ch_closed (mr_chans r ! c)"
    using r(2) cs(3) by (force simp: reg_ok_def)
  then obtain r' where c: "close_all (concat (map snd (mr_watchers r))) r = Some r'" "mr_waiting r' = mr_waiting r"
    "\<forall>c \<in> snd ` set (mr_waiting r). ch_closed (mr_chans r' ! c)"
    using close_all_open [OF cs(2), of r] cs(1,3) by metis
  let ?r = "r'\<lparr>mr_instances := [], mr_watchers := []\<rparr>"
  have "reg_step (RCancel w) ?r = None" if "w \<in> set (mr_waiting r)" for w
  proof -
    obtain name d where w: "w = (name, d)" by (cases w)
    with that have "d \<in> snd ` set (mr_waiting r)" by force
    with c(3) have "ch_closed (mr_chans r' ! d)" by blast
    then show ?thesis using that c(2) w by (simp add: reg_step_def watch_done_def watchers_of_def close_chan_def)
  qed
  moreover have "reg_step RClose r = Some ?r" using c(1) by (simp add: reg_step_def Close_def)
  ultimately show ?thesis using r(1) c(2) by auto
qed

lemma close_then_cancel_panics_witness:
  "\<exists>r r'. reg_run [RWatch ''api''] NewMemoryRegistry = Some r \<and> mr_waiting r = [(''api'', 0)] \<and> reg_step RClose r = Some r' \<and>
     reg_step (RCancel (''api'', 0)) r' = None"
proof -
  obtain r r' where r: "reg_run [RWatch ''api''] NewMemoryRegistry = Some r" "reg_step RClose r = Some r'"
    "\<forall>w \<in> set (mr_waiting r). reg_step (RCancel w) r' = None"
    using close_then_cancel_panics [of "[RWatch ''api'']"] by auto
  moreover from r(1) have "mr_waiting r = [(''api'', 0)]" by (auto simp: reg_step_def Watch_def NewMemoryRegistry_def Let_def)
  ultimately show ?thesis by auto
qed

end
