(* ===== verification/Health.thy ===== *)
theory Health
  imports Prelude "HOL-Library.AList"
begin

text \<open>
  src/internal/services/monitor/health.go: health checks, their polling and the reports of status changes.

  A check is a function of the instant at which it runs; the checks of a round run concurrently and their results
  are collected in the order of the map. What the handlers of status changes are called with is recorded in
  \<open>hc_calls\<close>. A polling goroutine and the channel it stops on are a step relation: \<open>hc_stop\<close> is the
  channel of the field \<open>stopCh\<close>, \<open>hc_closed\<close> the channels that are closed, \<open>hc_once\<close> whether the \<open>sync.Once\<close> has fired.
\<close>

datatype Status = StatusUp | StatusDown | StatusOther string

record CheckResult =
  cr_Name :: string
  cr_Status :: Status
  cr_Latency :: duration
  cr_Error :: string

record HealthChecker =
  hc_checks :: "(string \<times> (instant \<Rightarrow> CheckResult)) list"
  hc_cached :: "(string \<times> CheckResult) list option"
  hc_previous :: "(string \<times> Status) list option"
  hc_onChange :: nat
  hc_calls :: "(nat \<times> string \<times> Status \<times> Status) list"
  hc_polling :: bool
  hc_stop :: "nat option"
  hc_closed :: "nat set"
  hc_once :: bool
  hc_next :: nat

definition NewHealthChecker :: HealthChecker where
  "NewHealthChecker = \<lparr>hc_checks = [], hc_cached = None, hc_previous = None, hc_onChange = 0, hc_calls = [], hc_polling = False,
     hc_stop = None, hc_closed = {}, hc_once = False, hc_next = 0\<rparr>"

definition Register :: "string \<Rightarrow> (instant \<Rightarrow> CheckResult) \<Rightarrow> HealthChecker \<Rightarrow> HealthChecker" where
  "Register name fn h = h\<lparr>hc_checks := AList.update name fn (hc_checks h)\<rparr>"

definition Remove :: "string \<Rightarrow> HealthChecker \<Rightarrow> HealthChecker" where
  "Remove name h = h\<lparr>hc_checks := AList.delete name (hc_checks h), hc_cached := map_option (AList.delete name) (hc_cached h)\<rparr>"

text \<open>\<open>latency\<close>: how long each check takes.\<close>

definition Check :: "(string \<Rightarrow> duration) \<Rightarrow> instant \<Rightarrow> HealthChecker \<Rightarrow> (string \<times> CheckResult) list" where
  "Check latency now h = map (\<lambda>(name, fn). (name, (fn now)\<lparr>cr_Name := name, cr_Latency := latency name\<rparr>)) (hc_checks h)"

definition IsHealthy :: "(string \<Rightarrow> duration) \<Rightarrow> instant \<Rightarrow> HealthChecker \<Rightarrow> bool" where
  "IsHealthy latency now h = (\<not> list_ex (\<lambda>(name, r). cr_Status r = StatusDown) (Check latency now h))"

definition LastResult :: "HealthChecker \<Rightarrow> (string \<times> CheckResult) list option" where
  "LastResult h = hc_cached h"

definition OnStatusChange :: "HealthChecker \<Rightarrow> HealthChecker" where
  "OnStatusChange h = h\<lparr>hc_onChange := hc_onChange h + 1\<rparr>"

definition note_status :: "nat \<Rightarrow> string \<times> CheckResult \<Rightarrow>
    (string \<times> Status) list \<times> (nat \<times> string \<times> Status \<times> Status) list \<Rightarrow> (string \<times> Status) list \<times> (nat \<times> string \<times> Status \<times> Status) list" where
  "note_status handlers nr pc =
    (case nr of (name, result) \<Rightarrow> (case pc of (previous, calls) \<Rightarrow>
       (AList.update name (cr_Status result) previous,
        (case map_of previous name of
           None \<Rightarrow> calls
         | Some prev \<Rightarrow> if prev \<noteq> cr_Status result then calls @ map (\<lambda>k. (k, name, prev, cr_Status result)) [0..<handlers] else calls))))"

definition pollOnce :: "(string \<Rightarrow> duration) \<Rightarrow> instant \<Rightarrow> HealthChecker \<Rightarrow> HealthChecker" where
  "pollOnce latency now h =
    (let results = Check latency now h;
         previous = (case hc_previous h of None \<Rightarrow> [] | Some p \<Rightarrow> p)
     in (case fold (note_status (hc_onChange h)) results (previous, hc_calls h) of
           (previous, calls) \<Rightarrow> h\<lparr>hc_cached := Some results, hc_previous := Some previous, hc_calls := calls\<rparr>))"

section \<open>Polling and stopping\<close>

text \<open>\<open>StartPolling\<close> makes a channel, unless polling runs already; the goroutine starts with a round of checks.\<close>

definition StartPolling :: "(string \<Rightarrow> duration) \<Rightarrow> instant \<Rightarrow> bool \<Rightarrow> HealthChecker \<Rightarrow> HealthChecker" where
  "StartPolling latency now enabled h =
    (if \<not> enabled then h
     else if hc_polling h then h
     else pollOnce latency now (h\<lparr>hc_polling := True, hc_stop := Some (hc_next h), hc_next := hc_next h + 1\<rparr>))"

definition Stop :: "HealthChecker \<Rightarrow> HealthChecker" where
  "Stop h = (case hc_stop h of
     None \<Rightarrow> h
   | Some c \<Rightarrow> if hc_once h then h else h\<lparr>hc_once := True, hc_closed := insert c (hc_closed h)\<rparr>)"

text \<open>What a polling goroutine does next: a round at a tick, or its end when the channel of the field is closed or the
  context is done.\<close>

definition stoppable :: "HealthChecker \<Rightarrow> bool" where
  "stoppable h \<longleftrightarrow> (case hc_stop h of None \<Rightarrow> False | Some c \<Rightarrow> c \<in> hc_closed h)"

inductive poll_step :: "(string \<Rightarrow> duration) \<Rightarrow> HealthChecker \<Rightarrow> HealthChecker \<Rightarrow> bool" for latency where
  tick: "hc_polling h \<Longrightarrow> poll_step latency h (pollOnce latency now h)"
| stopped: "hc_polling h \<Longrightarrow> stoppable h \<Longrightarrow> poll_step latency h (h\<lparr>hc_polling := False\<rparr>)"
| stop: "poll_step latency h (Stop h)"
| start: "poll_step latency h (StartPolling latency now enabled h)"

inductive_cases poll_step_cases: "poll_step latency h h'"

section \<open>Reports\<close>

fun transitions :: "'a option \<Rightarrow> 'a list \<Rightarrow> ('a \<times> 'a) list" where
  "transitions p [] = []"
| "transitions None (s # ss) = transitions (Some s) ss"
| "transitions (Some p) (s # ss) = (if p \<noteq> s then [(p, s)] else []) @ transitions (Some s) ss"

lemma transitions_Some: "transitions (Some p) ss = zip (remdups_adj (p # ss)) (tl (remdups_adj (p # ss)))"
proof (induction ss arbitrary: p)
  case (Cons s ss)
  have "remdups_adj (s # ss) = s # tl (remdups_adj (s # ss))" by (cases "remdups_adj (s # ss)") (auto dest: arg_cong [of _ _ hd])
  with Cons.IH [of s] show ?case by (cases "p = s") (auto simp: remdups_adj_Cons split: list.splits)
qed simp

lemma transitions_None: "transitions None ss = zip (remdups_adj ss) (tl (remdups_adj ss))"
  by (cases ss) (simp_all add: transitions_Some del: remdups_adj.simps(3))

text \<open>What handler \<open>k\<close> has been told of a check.\<close>

definition told :: "nat \<Rightarrow> string \<Rightarrow> (nat \<times> string \<times> Status \<times> Status) list \<Rightarrow> (Status \<times> Status) list" where
  "told k name calls = map (\<lambda>(k, n, change). change) (filter (\<lambda>(k', n, change). k' = k \<and> n = name) calls)"

lemma told_append [simp]: "told k name (xs @ ys) = told k name xs @ told k name ys"
  by (simp add: told_def)

lemma told_handlers:
  "told k name (map (\<lambda>i. (i, n, p, s)) [0..<m]) = (if k < m \<and> n = name then [(p, s)] else [])"
proof (induction m)
  case (Suc m)
  then show ?case by (auto simp: told_def)
qed (simp add: told_def)

lemma note_status_told:
  assumes "note_status m (n, r) (prev, calls) = (prev', calls')" "k < m"
  shows "told k name calls' = told k name calls @
      (if n = name then transitions (map_of prev name) [cr_Status r] else []) \<and>
    map_of prev' name = (if n = name then Some (cr_Status r) else map_of prev name)"
  using assms by (auto simp: note_status_def update_conv' told_handlers split: option.splits if_splits)

lemma notes_told:
  assumes "fold (note_status m) results (prev, calls) = (prev', calls')" "k < m" "distinct (map fst results)"
  shows "told k name calls' = told k name calls @
      (case map_of results name of None \<Rightarrow> [] | Some r \<Rightarrow> transitions (map_of prev name) [cr_Status r]) \<and>
    map_of prev' name = (case map_of results name of None \<Rightarrow> map_of prev name | Some r \<Rightarrow> Some (cr_Status r))"
  using assms
proof (induction results arbitrary: prev calls)
  case (Cons nr results)
  obtain n r where nr: "nr = (n, r)" by (cases nr)
  obtain p1 c1 where step: "note_status m (n, r) (prev, calls) = (p1, c1)" by (rule prod.exhaust)
  have rest: "fold (note_status m) results (p1, c1) = (prev', calls')" using Cons.prems(1) step nr by simp
  have "map_of results n = None" using Cons.prems(3) nr by (simp add: map_of_eq_None_iff)
  with Cons.IH [OF rest Cons.prems(2)] Cons.prems(3) note_status_told [OF step Cons.prems(2), of name] nr show ?case
    by (auto split: option.splits)
qed simp

lemma Check_names: "map fst (Check latency now h) = map fst (hc_checks h)"
  by (simp add: Check_def split_beta comp_def)

lemma Check_status: "map_option cr_Status (map_of (Check latency now h) name) = map_option (\<lambda>fn. cr_Status (fn now)) (map_of (hc_checks h) name)"
proof -
  have "map_option cr_Status (map_of (map (\<lambda>(name, fn). (name, (fn now)\<lparr>cr_Name := name, cr_Latency := latency name\<rparr>)) cs) name) =
      map_option (\<lambda>fn. cr_Status (fn now)) (map_of cs name)" for cs
    by (induction cs) auto
  then show ?thesis by (simp add: Check_def)
qed

lemma poll_told:
  assumes "distinct (map fst (hc_checks h))" "map_of (hc_checks h) name = Some fn" "k < hc_onChange h"
  shows "told k name (hc_calls (pollOnce latency now h)) = told k name (hc_calls h) @
      transitions (map_of (case hc_previous h of None \<Rightarrow> [] | Some p \<Rightarrow> p) name) [cr_Status (fn now)]"
    and "map_of (case hc_previous (pollOnce latency now h) of None \<Rightarrow> [] | Some p \<Rightarrow> p) name = Some (cr_Status (fn now))"
    and "hc_checks (pollOnce latency now h) = hc_checks h" "hc_onChange (pollOnce latency now h) = hc_onChange h"
proof -
  let ?prev = "case hc_previous h of None \<Rightarrow> [] | Some p \<Rightarrow> p"
  obtain p c where f: "fold (note_status (hc_onChange h)) (Check latency now h) (?prev, hc_calls h) = (p, c)" by (rule prod.exhaust)
  obtain r where "map_of (Check latency now h) name = Some r" "cr_Status r = cr_Status (fn now)"
    using Check_status [of latency now h name] assms(2) by auto
  with notes_told [OF f assms(3), of name] assms(1) f
  show "told k name (hc_calls (pollOnce latency now h)) = told k name (hc_calls h) @ transitions (map_of ?prev name) [cr_Status (fn now)]"
    "map_of (case hc_previous (pollOnce latency now h) of None \<Rightarrow> [] | Some p \<Rightarrow> p) name = Some (cr_Status (fn now))"
    by (simp_all add: Check_names pollOnce_def Let_def)
  from f show "hc_checks (pollOnce latency now h) = hc_checks h" "hc_onChange (pollOnce latency now h) = hc_onChange h"
    by (simp_all add: pollOnce_def Let_def)
qed

lemma transitions_split: "transitions p (s # ss) = transitions p [s] @ transitions (Some s) ss"
  by (cases p) auto

lemma polls_told:
  assumes "distinct (map fst (hc_checks h))" "map_of (hc_checks h) name = Some fn" "k < hc_onChange h"
  shows "told k name (hc_calls (fold (pollOnce latency) ts h)) = told k name (hc_calls h) @
    transitions (map_of (case hc_previous h of None \<Rightarrow> [] | Some p \<Rightarrow> p) name) (map (\<lambda>t. cr_Status (fn t)) ts)"
  using assms
proof (induction ts arbitrary: h)
  case (Cons t ts)
  note poll = poll_told [OF Cons.prems, of latency t]
  from Cons.IH [of "pollOnce latency t h"] Cons.prems poll show ?case
    by (simp add: transitions_split [of _ _ "map (\<lambda>t. cr_Status (fn t)) ts"])
qed simp

text \<open>C36: Every status change is reported once, and nothing else. When a check is polled for the first time at \<open>ts ! 0\<close> and then at the other
  instants of \<open>ts\<close>, each handler is told exactly the steps of the sequence of the check's statuses with repetitions left out: it
  learns of no first status, of every later change, in order.\<close>

theorem changes_reported:
  assumes "distinct (map fst (hc_checks h))" "map_of (hc_checks h) name = Some fn" "k < hc_onChange h"
    and "hc_previous h = None" "hc_calls h = []"
  shows "told k name (hc_calls (fold (pollOnce latency) ts h)) =
    (let ss = remdups_adj (map (\<lambda>t. cr_Status (fn t)) ts) in zip ss (tl ss))"
  using polls_told [OF assms(1-3), of latency ts] assms(4,5) by (simp add: transitions_None told_def Let_def)

definition demo_check :: "instant \<Rightarrow> CheckResult" where
  "demo_check t = \<lparr>cr_Name = [], cr_Status = (if t < 2 then StatusUp else StatusDown), cr_Latency = 0, cr_Error = []\<rparr>"

lemma changes_reported_witness:
  "told 0 ''db'' (hc_calls (fold (pollOnce (\<lambda>_. 0)) [0, 1, 2, 3] (OnStatusChange (Register ''db'' demo_check NewHealthChecker)))) =
     [(StatusUp, StatusDown)]"
  using changes_reported [of "OnStatusChange (Register ''db'' demo_check NewHealthChecker)" "''db''" demo_check 0 "\<lambda>_. 0" "[0, 1, 2, 3]"]
  by (simp add: OnStatusChange_def Register_def NewHealthChecker_def demo_check_def)

section \<open>Stopping twice\<close>

definition poll_ok :: "HealthChecker \<Rightarrow> bool" where
  "poll_ok h \<longleftrightarrow> (\<forall>c \<in> hc_closed h. c < hc_next h) \<and> (\<forall>c. hc_stop h = Some c \<longrightarrow> c < hc_next h)"

lemma pollOnce_keeps [simp]:
  "hc_polling (pollOnce latency now h) = hc_polling h" "hc_stop (pollOnce latency now h) = hc_stop h"
  "hc_closed (pollOnce latency now h) = hc_closed h" "hc_once (pollOnce latency now h) = hc_once h" "hc_next (pollOnce latency now h) = hc_next h"
  by (simp_all add: pollOnce_def Let_def split: prod.split)

lemma poll_ok_step: "poll_step latency h h' \<Longrightarrow> poll_ok h \<Longrightarrow> poll_ok h'"
  by (erule poll_step_cases) (auto simp: poll_ok_def Stop_def StartPolling_def less_Suc_eq split: option.splits)

lemma poll_ok_steps: "(poll_step latency)\<^sup>*\<^sup>* h h' \<Longrightarrow> poll_ok h \<Longrightarrow> poll_ok h'"
  by (induction rule: rtranclp_induct) (auto intro: poll_ok_step)

lemma unstoppable_step:
  assumes "poll_step latency h h'" "hc_polling h \<and> hc_once h \<and> \<not> stoppable h"
  shows "hc_polling h' \<and> hc_once h' \<and> \<not> stoppable h'"
  using assms by (cases rule: poll_step_cases) (auto simp: Stop_def StartPolling_def stoppable_def split: option.splits if_splits)

lemma unstoppable_steps:
  assumes "(poll_step latency)\<^sup>*\<^sup>* h h'" "hc_polling h \<and> hc_once h \<and> \<not> stoppable h"
  shows "hc_polling h'"
proof -
  from assms have "hc_polling h' \<and> hc_once h' \<and> \<not> stoppable h'"
    by (induction rule: rtranclp_induct) (auto dest: unstoppable_step)
  then show ?thesis by blast
qed

text \<open>A second polling cannot be stopped. The \<open>sync.Once\<close> of \<open>Stop\<close> belongs to the checker and not to a run of the
  polling: when polling has been stopped and has ended, and is started again, no sequence of steps ends it, whatever the number of
  calls of \<open>Stop\<close>; only the context does.\<close>

lemma second_polling_never_stops:
  assumes "(poll_step latency)\<^sup>*\<^sup>* NewHealthChecker h" "hc_once h" "\<not> hc_polling h"
    and "(poll_step latency)\<^sup>*\<^sup>* (StartPolling latency now True h) h'"
  shows "hc_polling h' \<and> Stop h' = h'"
proof -
  have "poll_ok h" by (rule poll_ok_steps [OF assms(1)]) (simp add: poll_ok_def NewHealthChecker_def)
  then have "hc_polling (StartPolling latency now True h) \<and> hc_once (StartPolling latency now True h) \<and> \<not> stoppable (StartPolling latency now True h)"
    using assms(2,3) by (auto simp: StartPolling_def stoppable_def poll_ok_def)
  note inv = this
  have "hc_once h'" using assms(4) inv
    by (induction rule: rtranclp_induct) (auto simp: Stop_def StartPolling_def elim!: poll_step_cases split: option.splits)
  with unstoppable_steps [OF assms(4) inv] show ?thesis by (simp add: Stop_def split: option.split)
qed

lemma second_polling_never_stops_witness:
  "\<exists>h. (poll_step (\<lambda>_. 0))\<^sup>*\<^sup>* NewHealthChecker h \<and> hc_once h \<and> \<not> hc_polling h \<and>
     hc_polling (Stop (StartPolling (\<lambda>_. 0) 7 True h)) \<and> Stop (Stop (StartPolling (\<lambda>_. 0) 7 True h)) = Stop (StartPolling (\<lambda>_. 0) 7 True h)"
proof -
  let ?l = "\<lambda>_ :: string. 0 :: duration"
  let ?h1 = "StartPolling ?l 0 True NewHealthChecker"
  let ?h = "(Stop ?h1)\<lparr>hc_polling := False\<rparr>"
  have "hc_polling (Stop ?h1)" "stoppable (Stop ?h1)"
    by (simp_all add: StartPolling_def NewHealthChecker_def Stop_def stoppable_def)
  then have "(poll_step ?l)\<^sup>*\<^sup>* NewHealthChecker ?h"
    using poll_step.start [of ?l NewHealthChecker 0 True] poll_step.stop [of ?l ?h1] poll_step.stopped [of "Stop ?h1" ?l]
    by (meson converse_rtranclp_into_rtranclp rtranclp.rtrancl_refl)
  moreover have "hc_once ?h" "\<not> hc_polling ?h" by (simp_all add: StartPolling_def NewHealthChecker_def Stop_def)
  moreover have "(poll_step ?l)\<^sup>*\<^sup>* (StartPolling ?l 7 True ?h) (Stop (StartPolling ?l 7 True ?h))" by (auto intro: poll_step.stop)
  ultimately show ?thesis using second_polling_never_stops [of ?l ?h 7] by blast
qed

end
