(* ===== verification/Hashing.thy ===== *)
theory Hashing
  imports Ciphers
begin

text \<open>
  src/internal/services/crypto/hash.go: digests in hexadecimal and Argon2id password hashes in their encoded form.

  The digests and Argon2 are parameters. \<open>argon\<close> takes the password, the salt, the time, the memory (KiB), the threads and the
  length of the key, and is \<^const>\<open>None\<close> where the library panics (a time or a number of threads that is 0). The parameters keep the
  widths of the source: \<open>uint32\<close> and \<open>uint8\<close>.
\<close>

section \<open>encoding/base64: RawStdEncoding\<close>

text \<open>The alphabet: the letters \<open>A\<close> to \<open>Z\<close>, \<open>a\<close> to \<open>z\<close>, the digits, \<open>+\<close> and \<open>/\<close>.\<close>

definition enc6 :: "nat \<Rightarrow> char" where
  "enc6 n = char_of
    (if n < 26 then n + 65 else if n < 52 then n - 26 + 97 else if n < 62 then n - 52 + 48 else if n = 62 then 43 else 47)"

definition dec6 :: "char \<Rightarrow> nat option" where
  "dec6 c = (let n = of_char c in
     if 65 \<le> n \<and> n \<le> 90 then Some (n - 65)
     else if 97 \<le> n \<and> n \<le> 122 then Some (n - 71)
     else if 48 \<le> n \<and> n \<le> 57 then Some (n + 4)
     else if n = 43 then Some 62
     else if n = 47 then Some 63
     else None)"

fun raw_encode :: "bytes \<Rightarrow> string" where
  "raw_encode [] = []"
| "raw_encode [a] = [enc6 (unat a div 4), enc6 (unat a mod 4 * 16)]"
| "raw_encode [a, b] = [enc6 (unat a div 4), enc6 (unat a mod 4 * 16 + unat b div 16), enc6 (unat b mod 16 * 4)]"
| "raw_encode (a # b # c # bs) =
     [enc6 (unat a div 4), enc6 (unat a mod 4 * 16 + unat b div 16), enc6 (unat b mod 16 * 4 + unat c div 64), enc6 (unat c mod 64)]
       @ raw_encode bs"

fun sextets :: "nat list \<Rightarrow> bytes option" where
  "sextets [] = Some []"
| "sextets [a] = None"
| "sextets [a, b] = Some [of_nat (a * 4 + b div 16)]"
| "sextets [a, b, c] = Some [of_nat (a * 4 + b div 16), of_nat (b mod 16 * 16 + c div 4)]"
| "sextets (a # b # c # d # xs) =
     map_option (\<lambda>bs. of_nat (a * 4 + b div 16) # of_nat (b mod 16 * 16 + c div 4) # of_nat (c mod 4 * 64 + d) # bs) (sextets xs)"

text \<open>Line feeds and carriage returns are skipped; bits that are left over are not looked at.\<close>

definition raw_decode :: "string \<Rightarrow> bytes option" where
  "raw_decode s = (case those (map dec6 (filter (\<lambda>c. c \<noteq> CHR 0x0A \<and> c \<noteq> CHR 0x0D) s)) of
     None \<Rightarrow> None
   | Some xs \<Rightarrow> sextets xs)"

lemma enc6_facts:
  assumes "n < 64"
  shows "dec6 (enc6 n) = Some n" "enc6 n \<noteq> CHR 0x0A" "enc6 n \<noteq> CHR 0x0D" "enc6 n \<noteq> CHR ''$''"
proof -
  have "of_char (enc6 n) = (if n < 26 then n + 65 else if n < 52 then n - 26 + 97 else if n < 62 then n - 52 + 48 else if n = 62 then 43 else 47)"
    unfolding enc6_def using assms by simp
  with assms show "dec6 (enc6 n) = Some n" by (auto simp: dec6_def Let_def)
  moreover have "dec6 CHR 0x0A = None" "dec6 CHR 0x0D = None" "dec6 CHR ''$'' = None" by (simp_all add: dec6_def)
  ultimately show "enc6 n \<noteq> CHR 0x0A" "enc6 n \<noteq> CHR 0x0D" "enc6 n \<noteq> CHR ''$''" by auto
qed

lemma byte_less: "unat (b :: 8 word) < 256"
  using unsigned_less [of b] by simp

lemma byte_sextets:
  "unat (a :: 8 word) div 4 < 64" "unat a mod 4 * 16 < 64" "unat a mod 16 * 4 < 64" "unat a mod 64 < 64"
  "unat a mod 4 * 16 + unat (b :: 8 word) div 16 < 64" "unat a mod 16 * 4 + unat b div 64 < 64"
  using byte_less [of a] byte_less [of b] by simp_all

lemma byte_parts [simp]:
  "unat (b :: 8 word) div 16 div 16 = 0" "unat b div 16 mod 16 = unat b div 16" "unat b div 64 div 4 = 0" "unat b div 64 mod 4 = unat b div 64"
  using byte_less [of b] by simp_all

lemma raw_decode_encode [simp]: "raw_decode (raw_encode bs) = Some bs"
proof -
  have "filter (\<lambda>c. c \<noteq> CHR 0x0A \<and> c \<noteq> CHR 0x0D) (raw_encode bs) = raw_encode bs"
    by (induction bs rule: raw_encode.induct) (simp_all add: enc6_facts byte_sextets)
  moreover have "\<exists>xs. those (map dec6 (raw_encode bs)) = Some xs \<and> sextets xs = Some bs"
    by (induction bs rule: raw_encode.induct) (auto simp: enc6_facts byte_sextets simp del: of_nat_add of_nat_mult)
  ultimately show ?thesis by (auto simp: raw_decode_def)
qed

lemma raw_encode_no_dollar: "CHR ''$'' \<notin> set (raw_encode bs)"
  by (induction bs rule: raw_encode.induct) (auto simp: enc6_facts(4) [THEN not_sym] byte_sextets)

section \<open>Digests\<close>

record digests =
  dg_sha256 :: "bytes \<Rightarrow> bytes"
  dg_sha512 :: "bytes \<Rightarrow> bytes"
  dg_blake3 :: "bytes \<Rightarrow> bytes"

datatype HashAlgo = HashSHA256 | HashSHA512 | HashBLAKE3 | HashOther string

definition SHA256Hash :: "digests \<Rightarrow> bytes \<Rightarrow> string" where
  "SHA256Hash D data = hex_encode (dg_sha256 D data)"

definition SHA512Hash :: "digests \<Rightarrow> bytes \<Rightarrow> string" where
  "SHA512Hash D data = hex_encode (dg_sha512 D data)"

definition BLAKE3Hash :: "digests \<Rightarrow> bytes \<Rightarrow> string" where
  "BLAKE3Hash D data = hex_encode (dg_blake3 D data)"

datatype hash_error =
    AlgoUnsupported string
  | SaltFailed
  | BadFormat
  | BadSegments
  | BadParams
  | BadSaltText
  | BadHashText
  | Panicked

fun Hash :: "digests \<Rightarrow> bytes \<Rightarrow> HashAlgo \<Rightarrow> hash_error + string" where
  "Hash D data HashSHA256 = Inr (SHA256Hash D data)"
| "Hash D data HashSHA512 = Inr (SHA512Hash D data)"
| "Hash D data HashBLAKE3 = Inr (BLAKE3Hash D data)"
| "Hash D data (HashOther a) = Inl (AlgoUnsupported a)"

section \<open>Argon2id\<close>

type_synonym argon2 = "string \<Rightarrow> bytes \<Rightarrow> 32 word \<Rightarrow> 32 word \<Rightarrow> 8 word \<Rightarrow> 32 word \<Rightarrow> bytes option"

record Argon2Params =
  ap_Time :: "32 word"
  ap_Memory :: "32 word"
  ap_Threads :: "8 word"
  ap_KeyLen :: "32 word"
  ap_SaltLen :: "32 word"

definition DefaultArgon2Params :: Argon2Params where
  "DefaultArgon2Params = \<lparr>ap_Time = 3, ap_Memory = 64 * 1024, ap_Threads = 4, ap_KeyLen = 32, ap_SaltLen = 16\<rparr>"

definition argon2Prefix :: string where
  "argon2Prefix = ''$argon2id$''"

text \<open>\<open>Sprintf("%sv=%d,m=%d,t=%d,p=%d$%s$%s", ...)\<close>; the products are those of \<open>uint32\<close>.\<close>

definition encode_argon :: "Argon2Params \<Rightarrow> bytes \<Rightarrow> bytes \<Rightarrow> string" where
  "encode_argon params salt h =
    argon2Prefix @ ''v='' @ digits (unat (ap_KeyLen params * 8)) @ '',m='' @ digits (unat (ap_Memory params * 1024)) @
      '',t='' @ digits (unat (ap_Time params)) @ '',p='' @ digits (unat (ap_Threads params)) @
      CHR ''$'' # raw_encode salt @ CHR ''$'' # raw_encode h"

definition HashPasswordWithParams :: "argon2 \<Rightarrow> random \<Rightarrow> string \<Rightarrow> Argon2Params \<Rightarrow> hash_error + string" where
  "HashPasswordWithParams argon rnd password params =
    (case rnd (unat (ap_SaltLen params)) of
       None \<Rightarrow> Inl SaltFailed
     | Some salt \<Rightarrow>
         (case argon password salt (ap_Time params) (ap_Memory params) (ap_Threads params) (ap_KeyLen params) of
            None \<Rightarrow> Inl Panicked
          | Some h \<Rightarrow> Inr (encode_argon params salt h)))"

definition HashPassword :: "argon2 \<Rightarrow> random \<Rightarrow> string \<Rightarrow> hash_error + string" where
  "HashPassword argon rnd password = HashPasswordWithParams argon rnd password DefaultArgon2Params"

text \<open>\<open>Sscanf\<close> for an unsigned verb \<open>%d\<close> of so many bits, and for a format in which every verb follows a literal. Input behind the
  last verb is ignored.\<close>

definition scan_uint :: "nat \<Rightarrow> string \<Rightarrow> (nat \<times> string) option" where
  "scan_uint bits s =
    (let s = skip_space s; ds = takeWhile (\<lambda>c. digit_val c \<noteq> None) s
     in if ds = [] then None
        else case digits_val 0 ds of
          None \<Rightarrow> None
        | Some n \<Rightarrow> if n < 2 ^ bits then Some (n, drop (length ds) s) else None)"

fun scan_fields :: "(string \<times> nat) list \<Rightarrow> string \<Rightarrow> nat list option" where
  "scan_fields [] s = Some []"
| "scan_fields ((lit, bits) # fs) s =
     (if has_prefix s lit
      then case scan_uint bits (drop (length lit) s) of
        None \<Rightarrow> None
      | Some (n, rest) \<Rightarrow> map_option (\<lambda>ns. n # ns) (scan_fields fs rest)
      else None)"

definition decodeArgon2Hash :: "string \<Rightarrow> hash_error + Argon2Params \<times> bytes \<times> bytes" where
  "decodeArgon2Hash encoded =
    (if \<not> has_prefix encoded argon2Prefix then Inl BadFormat
     else case split_on CHR ''$'' (drop (length argon2Prefix) encoded) of
       [p0, p1, p2] \<Rightarrow>
         (case scan_fields [(''v='', 32), ('',m='', 32), ('',t='', 32), ('',p='', 8)] p0 of
            Some [keyLenBits, memoryKiB, t, p] \<Rightarrow>
              (case raw_decode p1 of
                 None \<Rightarrow> Inl BadSaltText
               | Some salt \<Rightarrow>
                   (case raw_decode p2 of
                      None \<Rightarrow> Inl BadHashText
                    | Some h \<Rightarrow> Inr (\<lparr>ap_Time = of_nat t, ap_Memory = of_nat memoryKiB div 1024, ap_Threads = of_nat p,
                        ap_KeyLen = of_nat keyLenBits div 8, ap_SaltLen = of_nat (length salt)\<rparr>, salt, h)))
          | _ \<Rightarrow> Inl BadParams)
     | _ \<Rightarrow> Inl BadSegments)"

definition VerifyPassword :: "argon2 \<Rightarrow> string \<Rightarrow> string \<Rightarrow> hash_error + bool" where
  "VerifyPassword argon password encodedHash =
    (case decodeArgon2Hash encodedHash of
       Inl e \<Rightarrow> Inl e
     | Inr (params, salt, h) \<Rightarrow>
         (case argon password salt (ap_Time params) (ap_Memory params) (ap_Threads params) (ap_KeyLen params) of
            None \<Rightarrow> Inl Panicked
          | Some computed \<Rightarrow>
              if length computed \<noteq> length h then Inr False
              else Inr (list_all (\<lambda>i. computed ! i = h ! i) [0..<length computed])))"

section \<open>What a hash is verified against\<close>

lemma same_bytes: "length a = length b \<Longrightarrow> list_all (\<lambda>i. a ! i = b ! i) [0..<length b] \<longleftrightarrow> a = b"
  by (auto simp: list_all_iff intro: nth_equalityI)

lemma digits_digit: "x \<in> set (digits n) \<Longrightarrow> digit_val x \<noteq> None \<and> \<not> is_space x \<and> x \<noteq> CHR ''$''"
proof -
  assume "x \<in> set (digits n)"
  then have "x \<in> set ''0123456789''" using digits_set by blast
  moreover have "list_all (\<lambda>x. digit_val x \<noteq> None \<and> \<not> is_space x \<and> x \<noteq> CHR ''$'') ''0123456789''" by code_simp
  ultimately show ?thesis by (simp only: list_all_iff) blast
qed

lemma scan_uint_digits:
  assumes "n < 2 ^ bits" "s = [] \<or> digit_val (hd s) = None"
  shows "scan_uint bits (digits n @ s) = Some (n, s)"
proof -
  have "skip_space (digits n @ s) = digits n @ s"
    using digits_digit [of "hd (digits n)" n] by (cases "digits n") (auto simp: skip_space_def)
  moreover have "takeWhile (\<lambda>c. digit_val c \<noteq> None) (digits n @ s) = digits n"
    using assms(2) by (subst takeWhile_append2) (auto dest: digits_digit simp: takeWhile_eq_Nil_iff)
  ultimately show ?thesis using assms(1) by (simp add: scan_uint_def digits_val_digits)
qed

lemma word_mult_div:
  "(M :: 32 word) * 1024 div 1024 = take_bit 22 M" "(K :: 32 word) * 8 div 8 = take_bit 29 K"
proof -
  have "unat (M * 1024 div 1024) = unat (take_bit 22 M)"
    using mod_mult_mult2 [where a = "unat M" and b = 4194304 and c = 1024] by (simp add: unat_div unat_mod unat_word_ariths(2) take_bit_eq_mod)
  then show "M * 1024 div 1024 = take_bit 22 M" by (rule word_unat_eq_iff [THEN iffD2])
  have "unat (K * 8 div 8) = unat (take_bit 29 K)"
    using mod_mult_mult2 [where a = "unat K" and b = 536870912 and c = 8] by (simp add: unat_div unat_mod unat_word_ariths(2) take_bit_eq_mod)
  then show "K * 8 div 8 = take_bit 29 K" by (rule word_unat_eq_iff [THEN iffD2])
qed

lemma decode_encode_argon:
  "decodeArgon2Hash (encode_argon P salt h) =
    Inr (P\<lparr>ap_Memory := take_bit 22 (ap_Memory P), ap_KeyLen := take_bit 29 (ap_KeyLen P), ap_SaltLen := of_nat (length salt)\<rparr>, salt, h)"
proof -
  let ?fields = "''v='' @ digits (unat (ap_KeyLen P * 8)) @ '',m='' @ digits (unat (ap_Memory P * 1024)) @
      '',t='' @ digits (unat (ap_Time P)) @ '',p='' @ digits (unat (ap_Threads P))"
  have less: "unat (w :: 32 word) < 2 ^ 32" "unat (b :: 8 word) < 2 ^ 8" for w b
    using unsigned_less [of w] unsigned_less [of b] by simp_all
  have comma: "digit_val CHR '','' = None" by code_simp
  have "scan_fields [(''v='', 32), ('',m='', 32), ('',t='', 32), ('',p='', 8)] ?fields =
      Some [unat (ap_KeyLen P * 8), unat (ap_Memory P * 1024), unat (ap_Time P), unat (ap_Threads P)]"
    using scan_uint_digits [OF less(2) [of "ap_Threads P"], of "[]"]
    by (simp add: has_prefix_def scan_uint_digits [OF less(1)] comma)
  moreover have "CHR ''$'' \<notin> set ?fields" by (auto dest: digits_digit)
  then have "split_on CHR ''$'' (?fields @ CHR ''$'' # raw_encode salt @ CHR ''$'' # raw_encode h) = [?fields, raw_encode salt, raw_encode h]"
    by (simp only: split_on_word raw_encode_no_dollar not_False_eq_True)
  ultimately show ?thesis
    by (simp add: decodeArgon2Hash_def encode_argon_def argon2Prefix_def has_prefix_def word_mult_div)
qed

lemma small_word: "(w :: 32 word) < 2 ^ 22 \<Longrightarrow> take_bit 22 w = w" "w < 2 ^ 29 \<Longrightarrow> take_bit 29 w = w"
  by (simp_all add: word_unat_eq_iff word_less_nat_alt unat_mod take_bit_eq_mod)

text \<open>C24: What a password hash is verified against. A hash made with the parameters \<open>P\<close> is accepted for the password \<open>q\<close> exactly when Argon2
  gives the stored key for \<open>q\<close> and the stored salt with the time and the threads of \<open>P\<close>, but with the memory modulo \<open>2^22\<close> and the
  key length modulo \<open>2^29\<close>: the encoding multiplies them by 1024 and by 8 in 32 bits. So the password itself is accepted
  as long as the memory is below 4 GiB and the key below 512 MiB.\<close>

theorem argon_hash_verifies:
  assumes "HashPasswordWithParams argon rnd p P = Inr enc"
  shows "\<exists>salt h. rnd (unat (ap_SaltLen P)) = Some salt \<and>
      argon p salt (ap_Time P) (ap_Memory P) (ap_Threads P) (ap_KeyLen P) = Some h \<and>
      (\<forall>q. VerifyPassword argon q enc =
        (case argon q salt (ap_Time P) (take_bit 22 (ap_Memory P)) (ap_Threads P) (take_bit 29 (ap_KeyLen P)) of
           None \<Rightarrow> Inl Panicked
         | Some k \<Rightarrow> Inr (k = h))) \<and>
      (ap_Memory P < 2 ^ 22 \<and> ap_KeyLen P < 2 ^ 29 \<longrightarrow> VerifyPassword argon p enc = Inr True)"
proof -
  from assms obtain salt h where sh: "rnd (unat (ap_SaltLen P)) = Some salt"
    "argon p salt (ap_Time P) (ap_Memory P) (ap_Threads P) (ap_KeyLen P) = Some h" "enc = encode_argon P salt h"
    by (auto simp: HashPasswordWithParams_def split: option.splits)
  have v: "VerifyPassword argon q enc =
      (case argon q salt (ap_Time P) (take_bit 22 (ap_Memory P)) (ap_Threads P) (take_bit 29 (ap_KeyLen P)) of
         None \<Rightarrow> Inl Panicked | Some k \<Rightarrow> Inr (k = h))" for q
    unfolding VerifyPassword_def sh(3) decode_encode_argon by (auto simp: same_bytes list.pred_True split: option.split)
  have "take_bit 22 (ap_Memory P) = ap_Memory P \<and> take_bit 29 (ap_KeyLen P) = ap_KeyLen P"
    if "ap_Memory P < 2 ^ 22 \<and> ap_KeyLen P < 2 ^ 29" using that small_word by blast
  with v [of p] sh(2) have "ap_Memory P < 2 ^ 22 \<and> ap_KeyLen P < 2 ^ 29 \<longrightarrow> VerifyPassword argon p enc = Inr True" by auto
  with v sh(1,2) show ?thesis by blast
qed

text \<open>A function with the type of Argon2, to evaluate the statement on.\<close>

definition demo_argon :: argon2 where
  "demo_argon password salt t m p n =
    (if t = 0 \<or> p = 0 then None else Some (take (unat n) (str_bytes password @ salt @ replicate (unat n) (ucast m))))"

lemma argon_hash_verifies_witness:
  "\<exists>enc. HashPassword demo_argon demo_random ''pw'' = Inr enc \<and> VerifyPassword demo_argon ''pw'' enc = Inr True \<and>
     VerifyPassword demo_argon ''pv'' enc = Inr False"
proof -
  let ?D = DefaultArgon2Params
  have d: "ap_SaltLen ?D = 16" "ap_Time ?D = 3" "ap_Threads ?D = 4" "ap_KeyLen ?D = 32" "ap_Memory ?D = 65536"
    by (simp_all add: DefaultArgon2Params_def)
  obtain enc where enc: "HashPasswordWithParams demo_argon demo_random ''pw'' ?D = Inr enc"
    by (simp add: HashPasswordWithParams_def d demo_random_def demo_argon_def)
  obtain salt h where s: "demo_random 16 = Some salt" "demo_argon ''pw'' salt 3 65536 4 32 = Some h"
    "VerifyPassword demo_argon ''pv'' enc = (case demo_argon ''pv'' salt 3 (take_bit 22 65536) 4 (take_bit 29 32) of None \<Rightarrow> Inl Panicked | Some k \<Rightarrow> Inr (k = h))"
    "VerifyPassword demo_argon ''pw'' enc = Inr True"
    using argon_hash_verifies [OF enc] unfolding d by auto
  have "take 32 (str_bytes ''pv'' @ xs) \<noteq> take 32 (str_bytes ''pw'' @ ys)" for xs ys
    by (simp add: str_bytes_def)
  with s(2,3) have "VerifyPassword demo_argon ''pv'' enc = Inr False" by (auto simp: demo_argon_def)
  with enc s(4) show ?thesis by (auto simp: HashPassword_def)
qed

end
