(* ===== verification/CryptoApi.thy ===== *)
theory CryptoApi
  imports Compression Hashing
begin

text \<open>
  src/internal/services/crypto/module.go: the module that serves encryption, compression and hashes over HTTP.

  A handler takes the decoded body (\<^const>\<open>None\<close> where it is no JSON of the expected shape; the fields marked
  \<open>required\<close> must not be empty) and answers with a status and either an error or a body. The algorithms
  are the parameters of the theories this one imports, gathered in one record: AES-GCM, ChaCha20-Poly1305, SHA-256 of the key derivation, the
  compressed formats, the digests and the source of randomness.
\<close>

record suite =
  st_aes :: aead
  st_chacha :: aead
  st_sha :: sha256
  st_codecs :: codecs
  st_digests :: digests
  st_rnd :: random

definition suite_ok :: "suite \<Rightarrow> bool" where
  "suite_ok S \<longleftrightarrow> aead_ok (st_aes S) \<and> aead_ok (st_chacha S) \<and> sha_ok (st_sha S) \<and> codecs_ok (st_codecs S) \<and> random_ok (st_rnd S)"

record CryptoModule =
  cm_km :: "KeyManager option"

definition NewModule :: CryptoModule where
  "NewModule = \<lparr>cm_km = None\<rparr>"

text \<open>The configuration: enabled, \<open>master_key_hex\<close>, \<open>old_keys\<close>.\<close>

definition Init :: "bool \<Rightarrow> string \<Rightarrow> (int \<times> string) list \<Rightarrow> CryptoModule \<Rightarrow> crypto_error + CryptoModule" where
  "Init enabled masterHex oldKeys m =
    (if \<not> enabled then Inr m
     else if masterHex \<noteq> [] then
       (case NewKeyManager masterHex oldKeys of Inl e \<Rightarrow> Inl e | Inr km \<Rightarrow> Inr (m\<lparr>cm_km := Some km\<rparr>))
     else Inr m)"

datatype api_error =
    BadBody
  | KeyRequired
  | ChachaKeyRequired
  | AlgoUnknown string
  | BadHexData
  | FromCrypto crypto_error
  | FromCompress compress_error

datatype api_body =
    CryptoResp string string
  | CompressResp string string

type_synonym response = "nat \<times> (api_error + api_body)"

definition failed :: "nat \<Rightarrow> api_error \<Rightarrow> response" where
  "failed status e = (status, Inl e)"

section \<open>Encryption\<close>

record encryptReq =
  eq_Data :: string
  eq_KeyHex :: string
  eq_Algo :: string

definition bound :: "encryptReq option \<Rightarrow> encryptReq option" where
  "bound body = (case body of None \<Rightarrow> None | Some req \<Rightarrow> if eq_Data req = [] then None else Some req)"

definition algo_of :: "encryptReq \<Rightarrow> string" where
  "algo_of req = (if eq_Algo req = [] then ''aes-gcm'' else eq_Algo req)"

definition answer :: "string \<Rightarrow> crypto_error + string \<Rightarrow> response" where
  "answer algo r = (case r of Inl e \<Rightarrow> failed 500 (FromCrypto e) | Inr out \<Rightarrow> (200, Inr (CryptoResp out algo)))"

definition handleEncrypt :: "suite \<Rightarrow> CryptoModule \<Rightarrow> encryptReq option \<Rightarrow> response" where
  "handleEncrypt S m body =
    (case bound body of
       None \<Rightarrow> failed 400 BadBody
     | Some req \<Rightarrow>
         (let algo = algo_of req
          in if algo = ''aes-gcm'' then
               (case cm_km m of
                  Some km \<Rightarrow> answer algo (km_EncryptString (st_aes S) (st_rnd S) km (eq_Data req))
                | None \<Rightarrow>
                    if eq_KeyHex req \<noteq> [] then
                      (case NewAESGCMFromHex (eq_KeyHex req) of
                         Inl e \<Rightarrow> failed 400 (FromCrypto e)
                       | Inr aes \<Rightarrow> answer algo (aes_EncryptString (st_aes S) (st_rnd S) aes (eq_Data req)))
                    else failed 400 KeyRequired)
             else if algo = ''chacha20-poly1305'' then
               if eq_KeyHex req = [] then failed 400 ChachaKeyRequired
               else (case NewChaCha20Poly1305FromHex (eq_KeyHex req) of
                  Inl e \<Rightarrow> failed 400 (FromCrypto e)
                | Inr chacha \<Rightarrow> answer algo (cha_EncryptString (st_chacha S) (st_rnd S) chacha (eq_Data req)))
             else failed 400 (AlgoUnknown algo)))"

definition handleDecrypt :: "suite \<Rightarrow> CryptoModule \<Rightarrow> encryptReq option \<Rightarrow> response" where
  "handleDecrypt S m body =
    (case bound body of
       None \<Rightarrow> failed 400 BadBody
     | Some req \<Rightarrow>
         (let algo = algo_of req
          in if algo = ''aes-gcm'' then
               (case cm_km m of
                  Some km \<Rightarrow> answer algo (km_DecryptString (st_aes S) km (eq_Data req))
                | None \<Rightarrow>
                    if eq_KeyHex req \<noteq> [] then
                      (case NewAESGCMFromHex (eq_KeyHex req) of
                         Inl e \<Rightarrow> failed 400 (FromCrypto e)
                       | Inr aes \<Rightarrow> answer algo (aes_DecryptString (st_aes S) aes (eq_Data req)))
                    else failed 400 KeyRequired)
             else if algo = ''chacha20-poly1305'' then
               if eq_KeyHex req = [] then failed 400 ChachaKeyRequired
               else (case NewChaCha20Poly1305FromHex (eq_KeyHex req) of
                  Inl e \<Rightarrow> failed 400 (FromCrypto e)
                | Inr chacha \<Rightarrow> answer algo (cha_DecryptString (st_chacha S) chacha (eq_Data req)))
             else failed 400 (AlgoUnknown algo)))"

section \<open>Compression\<close>

record compressReq =
  pq_Data :: string
  pq_Method :: string
  pq_Level :: int
  pq_Password :: string

definition handleCompress :: "suite \<Rightarrow> compressReq option \<Rightarrow> response" where
  "handleCompress S body =
    (case body of
       None \<Rightarrow> failed 400 BadBody
     | Some req \<Rightarrow>
         if pq_Data req = [] then failed 400 BadBody
         else let method = (if pq_Method req = [] then ''gzip'' else pq_Method req)
              in case CompressAuto (st_codecs S) (st_aes S) (st_sha S) (st_rnd S) (str_bytes (pq_Data req)) method (pq_Level req) (pq_Password req) of
                   Inl e \<Rightarrow> failed 500 (FromCompress e)
                 | Inr compressed \<Rightarrow> (200, Inr (CompressResp (hex_encode compressed) method)))"

record decompressReq =
  dq_Data :: string
  dq_Password :: string

definition handleDecompress :: "suite \<Rightarrow> decompressReq option \<Rightarrow> response" where
  "handleDecompress S body =
    (case body of
       None \<Rightarrow> failed 400 BadBody
     | Some req \<Rightarrow>
         if dq_Data req = [] then failed 400 BadBody
         else case hex_decode (dq_Data req) of
           None \<Rightarrow> failed 400 BadHexData
         | Some raw \<Rightarrow>
             (case DecompressAuto (st_codecs S) (st_aes S) (st_sha S) raw (dq_Password req) of
                Inl e \<Rightarrow> failed 500 (FromCompress e)
              | Inr decompressed \<Rightarrow> (200, Inr (CompressResp (bytes_str decompressed) (DetectCompression raw)))))"

section \<open>Digests\<close>

record hashReq =
  hq_Data :: string
  hq_Algo :: string

definition handleHash :: "suite \<Rightarrow> hashReq option \<Rightarrow> response" where
  "handleHash S body =
    (case body of
       None \<Rightarrow> failed 400 BadBody
     | Some req \<Rightarrow>
         if hq_Data req = [] then failed 400 BadBody
         else let algo = (if hq_Algo req = [] then ''sha256'' else hq_Algo req); data = str_bytes (hq_Data req)
              in if algo = ''sha256'' then (200, Inr (CryptoResp (SHA256Hash (st_digests S) data) algo))
                 else if algo = ''sha512'' then (200, Inr (CryptoResp (SHA512Hash (st_digests S) data) algo))
                 else if algo = ''blake3'' then (200, Inr (CryptoResp (BLAKE3Hash (st_digests S) data) algo))
                 else failed 400 (AlgoUnknown algo))"

section \<open>Round trips through the routes\<close>

lemma cha_string_round_trip:
  assumes "aead_ok A" "random_ok rnd" "cha_EncryptString A rnd c p = Inr s"
  shows "cha_DecryptString A c s = Inr p" "s \<noteq> []"
proof -
  from assms(3) obtain nonce where n: "rnd 12 = Some nonce" "s = hex_encode (nonce @ ae_seal A (cc_key c) nonce (str_bytes p))"
    by (auto simp: cha_EncryptString_def cha_Encrypt_def split: sum.splits option.splits)
  moreover have "length nonce = 12" using n(1) assms(2) unfolding random_ok_def by blast
  ultimately show "cha_DecryptString A c s = Inr p"
    by (simp add: cha_DecryptString_def cha_Decrypt_def aead_okD [OF assms(1)])
  have "length s \<noteq> 0" using n(2) \<open>length nonce = 12\<close> by simp
  then show "s \<noteq> []" by simp
qed

lemma answer_200: "answer algo r = (200, Inr (CryptoResp out a)) \<longleftrightarrow> r = Inr out \<and> a = algo"
  by (auto simp: answer_def failed_def split: sum.split)

lemma failed_not_200: "status \<noteq> 200 \<Longrightarrow> failed status e \<noteq> (200, r)"
  by (simp add: failed_def)

lemma init_km:
  assumes "Init enabled h old NewModule = Inr m" "h \<noteq> []"
  shows "cm_km m = None \<and> \<not> enabled \<or> enabled \<and> (\<exists>km. cm_km m = Some km \<and> NewKeyManager h old = Inr km)"
  using assms by (auto simp: Init_def NewModule_def split: if_splits sum.splits)

text \<open>A manager reads what it writes, and so does the manager that retires its key.\<close>

lemma reads_next:
  assumes "NewKeyManager h old = Inr km" "int (length old) < 2 ^ 62"
  shows "reads km km" and "NewKeyManager h' ((km_currentVer km, h) # old) = Inr km' \<Longrightarrow> reads km' km"
proof -
  note N = NewKeyManager_Inr [OF assms(1)]
  have self: "KeyForVersion km (km_currentVer km) = Inr (km_current km)" by (simp add: KeyForVersion_def)
  have v: "1 \<le> km_currentVer km \<and> in_i64 (km_currentVer km)" using N(4,5) assms(2) by (simp add: in_i64_def)
  with self show "reads km km" by (simp add: reads_def)
  assume "NewKeyManager h' ((km_currentVer km, h) # old) = Inr km'"
  from retired_key [OF assms(1) this self] v show "reads km' km" by (simp add: reads_def)
qed

text \<open>The two handlers agree when the second module reads what the first one writes.\<close>

definition same_keys :: "CryptoModule \<Rightarrow> CryptoModule \<Rightarrow> bool" where
  "same_keys m' m \<longleftrightarrow> (case cm_km m of
     None \<Rightarrow> cm_km m' = None
   | Some km \<Rightarrow> (case cm_km m' of None \<Rightarrow> False | Some km' \<Rightarrow> reads km' km))"

lemma encrypt_decrypt_same_keys:
  assumes S: "suite_ok S" and keys: "same_keys m' m"
    and enc: "handleEncrypt S m (Some req) = (200, Inr (CryptoResp out algo))"
  shows "handleDecrypt S m' (Some (req\<lparr>eq_Data := out\<rparr>)) = (200, Inr (CryptoResp (eq_Data req) algo))"
proof -
  note ok = S [unfolded suite_ok_def]
  have b: "bound (Some req) = Some req" using enc by (auto simp: handleEncrypt_def failed_def bound_def split: if_splits)
  have a: "algo_of (req\<lparr>eq_Data := out\<rparr>) = algo_of req" by (simp add: algo_of_def)
  note enc' = enc [unfolded handleEncrypt_def b option.case Let_def]
  consider (km) km km' where "algo_of req = ''aes-gcm''" "cm_km m = Some km" "cm_km m' = Some km'" "reads km' km"
    | (aes) "algo_of req = ''aes-gcm''" "cm_km m = None" "cm_km m' = None"
    | (chacha) "algo_of req = ''chacha20-poly1305''"
    using enc' keys by (auto simp: failed_def same_keys_def split: if_splits option.splits)
  then show ?thesis
  proof cases
    case km
    with enc' have e: "km_EncryptString (st_aes S) (st_rnd S) km (eq_Data req) = Inr out" "algo = ''aes-gcm''"
      by (auto simp: answer_200)
    from reads_decrypt [OF _ _ km(4) e(1)] ok e(2) km(1,3) show ?thesis
      by (simp add: handleDecrypt_def bound_def a answer_def)
  next
    case aes
    with enc' obtain c where e: "eq_KeyHex req \<noteq> []" "NewAESGCMFromHex (eq_KeyHex req) = Inr c"
      "aes_EncryptString (st_aes S) (st_rnd S) c (eq_Data req) = Inr out" "algo = ''aes-gcm''"
      by (auto simp: answer_200 failed_def split: if_splits sum.splits)
    from aes_string_round_trip [OF _ _ e(3)] ok have "aes_DecryptString (st_aes S) c out = Inr (eq_Data req)" "length out \<noteq> 0" by simp_all
    with e aes(1,3) show ?thesis by (simp add: handleDecrypt_def bound_def a answer_def)
  next
    case chacha
    with enc' obtain c where e: "eq_KeyHex req \<noteq> []" "NewChaCha20Poly1305FromHex (eq_KeyHex req) = Inr c"
      "cha_EncryptString (st_chacha S) (st_rnd S) c (eq_Data req) = Inr out" "algo = ''chacha20-poly1305''"
      by (auto simp: answer_200 failed_def split: if_splits sum.splits)
    from cha_string_round_trip [OF _ _ e(3)] ok have "cha_DecryptString (st_chacha S) c out = Inr (eq_Data req)" "out \<noteq> []" by simp_all
    with e chacha show ?thesis by (simp add: handleDecrypt_def bound_def a answer_def)
  qed
qed

text \<open>C23: What \<open>/encrypt\<close> answers, \<open>/decrypt\<close> turns back, with the algorithm and the key that the client sent, also when the server
  has been restarted with the next master key in between (the old one retired under its version): a success of the first
  leads to a success of the second with the data of the first.\<close>

theorem encrypt_then_decrypt:
  assumes "suite_ok S" "NewKeyManager h old = Inr km" "int (length old) < 2 ^ 62"
    and "Init enabled h old NewModule = Inr m"
    and "m' = m \<or> h' \<noteq> [] \<and> Init enabled h' ((km_currentVer km, h) # old) NewModule = Inr m'"
    and "handleEncrypt S m (Some req) = (200, Inr (CryptoResp out algo))"
  shows "handleDecrypt S m' (Some (req\<lparr>eq_Data := out\<rparr>)) = (200, Inr (CryptoResp (eq_Data req) algo))"
proof (rule encrypt_decrypt_same_keys [OF assms(1) _ assms(6)])
  have "h \<noteq> []" using assms(2) by (auto simp: NewKeyManager_def)
  note first = init_km [OF assms(4) this]
  from assms(5) show "same_keys m' m"
  proof
    assume "m' = m"
    with first reads_next(1) [OF assms(2,3)] assms(2) show ?thesis by (auto simp: same_keys_def)
  next
    assume r: "h' \<noteq> [] \<and> Init enabled h' ((km_currentVer km, h) # old) NewModule = Inr m'"
    with init_km [of enabled h' "(km_currentVer km, h) # old" m']
    have "cm_km m' = None \<and> \<not> enabled \<or> enabled \<and> (\<exists>km'. cm_km m' = Some km' \<and> reads km' km)"
      using reads_next(2) [OF assms(2,3)] by blast
    with first assms(2) show ?thesis by (auto simp: same_keys_def)
  qed
qed

definition demo_suite :: suite where
  "demo_suite = \<lparr>st_aes = demo_aead, st_chacha = demo_aead, st_sha = demo_sha, st_codecs = demo_codecs,
     st_digests = \<lparr>dg_sha256 = id, dg_sha512 = id, dg_blake3 = id\<rparr>, st_rnd = demo_random\<rparr>"

lemma demo_suite_simps [simp]:
  "st_aes demo_suite = demo_aead" "st_chacha demo_suite = demo_aead" "st_sha demo_suite = demo_sha" "st_codecs demo_suite = demo_codecs"
  "st_rnd demo_suite = demo_random"
  by (simp_all add: demo_suite_def)

lemma demo_suite_ok: "suite_ok demo_suite"
  by (simp add: suite_ok_def demo_aead_ok demo_sha_ok demo_codecs_ok demo_random_ok)

lemma encrypt_then_decrypt_witness:
  "\<exists>m m' out. handleEncrypt demo_suite m (Some \<lparr>eq_Data = ''hello'', eq_KeyHex = [], eq_Algo = []\<rparr>) = (200, Inr (CryptoResp out ''aes-gcm'')) \<and>
     m \<noteq> m' \<and>
     handleDecrypt demo_suite m' (Some \<lparr>eq_Data = out, eq_KeyHex = [], eq_Algo = []\<rparr>) = (200, Inr (CryptoResp ''hello'' ''aes-gcm''))"
proof -
  let ?a = "demo_key CHR ''a''" and ?b = "demo_key CHR ''b''" and ?req = "\<lparr>eq_Data = ''hello'', eq_KeyHex = [], eq_Algo = []\<rparr>"
  obtain a b where keys: "NewAESGCMFromHex ?a = Inr a" "NewAESGCMFromHex ?b = Inr b"
    using demo_key_valid [of "CHR ''a''"] demo_key_valid [of "CHR ''b''"] by (auto simp: hex_val_def Let_def)
  have ne: "demo_key c \<noteq> []" for c by (simp add: demo_key_def)
  let ?km = "\<lparr>km_current = a, km_versions = [], km_currentVer = 1\<rparr>"
  let ?km' = "\<lparr>km_current = b, km_versions = [(1, a)], km_currentVer = 2\<rparr>"
  have km: "NewKeyManager ?a [] = Inr ?km" "NewKeyManager ?b [(1, ?a)] = Inr ?km'"
    by (simp_all add: NewKeyManager_def keys ne free_version.simps)
  let ?m = "\<lparr>cm_km = Some ?km\<rparr>" and ?m' = "\<lparr>cm_km = Some ?km'\<rparr>"
  have init: "Init True ?a [] NewModule = Inr ?m" "Init True ?b [(1, ?a)] NewModule = Inr ?m'"
    by (simp_all add: Init_def km ne NewModule_def)
  obtain out where e: "handleEncrypt demo_suite ?m (Some ?req) = (200, Inr (CryptoResp out ''aes-gcm''))"
    by (simp add: handleEncrypt_def bound_def algo_of_def answer_def km_EncryptString_def aes_EncryptString_def aes_Encrypt_def demo_random_def)
  have "handleDecrypt demo_suite ?m' (Some (?req\<lparr>eq_Data := out\<rparr>)) = (200, Inr (CryptoResp (eq_Data ?req) ''aes-gcm''))"
    by (rule encrypt_then_decrypt [OF demo_suite_ok km(1) _ init(1) _ e, of _ ?b]) (use init(2) ne in simp_all)
  with e show ?thesis by force
qed

lemma compressed_form:
  assumes "suite_ok S" "CompressAuto (st_codecs S) (st_aes S) (st_sha S) (st_rnd S) data method level password = Inr z"
  shows "z \<noteq> []" "\<not> (ascii_lower method = ''zip'' \<and> password \<noteq> []) \<Longrightarrow> DetectCompression z = ascii_lower method"
proof -
  note ok = assms(1) [unfolded suite_ok_def]
  let ?level = "if level < - 2 \<or> level > 9 then - 1 else level"
  have level: "- 2 \<le> ?level" "?level \<le> 9" by auto
  have "z \<noteq> [] \<and> (\<not> (ascii_lower method = ''zip'' \<and> password \<noteq> []) \<longrightarrow> DetectCompression z = ascii_lower method)"
    using assms(2)
  proof (cases rule: CompressAuto_methods)
    case gzip
    with ok level have "take 2 z = [0x1f, 0x8b]" unfolding codecs_ok_def by blast
    with gzip(1) detect_gzip [of z] show ?thesis by auto
  next
    case zlib
    with ok level have "take 1 z = [0x78]" "2 \<le> length z" unfolding codecs_ok_def by blast+
    with zlib(1) detect_zlib [of z] show ?thesis by auto
  next
    case zip
    show ?thesis
    proof (cases "password = []")
      case True
      with zip ok have "take 4 z = [0x50, 0x4B, 3, 4]" "4 < length z" by (auto simp: zip_Compress_def codecs_ok_def)
      with zip(1) True detect_zip [of z] show ?thesis by auto
    next
      case False
      with zip(2) have "encryptBytes (st_aes S) (st_sha S) (st_rnd S) (cz_zip (st_codecs S) data) password = Inr z"
        by (auto simp: zip_Compress_def map_sum_def split: sum.splits)
      then obtain nonce ct where "st_rnd S 12 = Some nonce" "z = nonce @ ct"
        using ok by (auto simp: encryptBytes_def key_of_password aes_Encrypt_def split: option.splits)
      moreover from this ok have "nonce \<noteq> []" unfolding random_ok_def by fastforce
      ultimately show ?thesis using False zip(1) by simp
    qed
  qed
  then show "z \<noteq> []" "\<not> (ascii_lower method = ''zip'' \<and> password \<noteq> []) \<Longrightarrow> DetectCompression z = ascii_lower method" by blast+
qed

text \<open>What \<open>/compress\<close> answers, \<open>/decompress\<close> turns back, with every method, level and password, and reports the method; except
  for archives with a password, which are recognised only if the random nonce begins with one of three bytes.\<close>

lemma compress_then_decompress:
  assumes "suite_ok S" "handleCompress S (Some req) = (200, Inr (CompressResp out method))"
  shows "if ascii_lower method = ''zip'' \<and> pq_Password req \<noteq> []
    then \<exists>nonce. st_rnd S 12 = Some nonce \<and>
      (hd nonce \<in> {0x1f, 0x78, 0x50} \<or>
       handleDecompress S (Some \<lparr>dq_Data = out, dq_Password = pq_Password req\<rparr>) = (500, Inl (FromCompress MethodUnknown)))
    else handleDecompress S (Some \<lparr>dq_Data = out, dq_Password = pq_Password req\<rparr>) = (200, Inr (CompressResp (pq_Data req) (ascii_lower method)))"
proof -
  note ok = assms(1) [unfolded suite_ok_def]
  obtain z where z: "CompressAuto (st_codecs S) (st_aes S) (st_sha S) (st_rnd S) (str_bytes (pq_Data req)) method (pq_Level req) (pq_Password req) = Inr z"
    "out = hex_encode z"
    using assms(2) by (auto simp: handleCompress_def failed_def Let_def split: if_splits sum.splits)
  note form = compressed_form [OF assms(1) z(1)]
  have round: "if ascii_lower method = ''zip'' \<and> pq_Password req \<noteq> []
    then \<exists>nonce. st_rnd S 12 = Some nonce \<and> (hd nonce \<in> {0x1f, 0x78, 0x50} \<or> DecompressAuto (st_codecs S) (st_aes S) (st_sha S) z (pq_Password req) = Inl MethodUnknown)
    else DecompressAuto (st_codecs S) (st_aes S) (st_sha S) z (pq_Password req) = Inr (str_bytes (pq_Data req))"
    by (rule auto_round_trip [OF _ _ _ _ z(1)]) (use ok in simp_all)
  have "out \<noteq> []" using form(1) z(2) by (cases z) auto
  with round form(2) z(2) show ?thesis by (auto simp: handleDecompress_def failed_def)
qed

lemma compress_then_decompress_witness:
  "handleCompress demo_suite (Some \<lparr>pq_Data = ''hi'', pq_Method = [], pq_Level = 0, pq_Password = []\<rparr>) =
      (200, Inr (CompressResp ''1f8b6869'' ''gzip'')) \<and>
    handleDecompress demo_suite (Some \<lparr>dq_Data = ''1f8b6869'', dq_Password = []\<rparr>) = (200, Inr (CompressResp ''hi'' ''gzip''))"
proof -
  let ?req = "\<lparr>pq_Data = ''hi'', pq_Method = [], pq_Level = 0, pq_Password = []\<rparr>"
  have "ascii_lower ''gzip'' = ''gzip''" by code_simp
  moreover from this have c: "handleCompress demo_suite (Some ?req) = (200, Inr (CompressResp ''1f8b6869'' ''gzip''))"
    by (simp add: handleCompress_def CompressAuto_def NewGzipCompression_def demo_codecs_def str_bytes_def hex_digit_def)
  ultimately show ?thesis using compress_then_decompress [OF demo_suite_ok c] by simp
qed

end
