(* ===== verification/GoodsApi.thy ===== *)
theory GoodsApi
  imports GoodsBooks ApiCodes
begin

text \<open>
  The HTTP handlers of the goods module, src/zzz/goodser/handler.go, and its routes, \<open>RegisterRoutes\<close> of module.go.

  A request has the parameter \<open>:id\<close> of its path and a body. \<open>ShouldBindJSON\<close> decodes a body into the struct that the handler declares; the
  body is therefore given by what it decodes to for each struct, \<^const>\<open>None\<close> where that is an error. A handler answers with the HTTP
  status, the code and the data of \<open>response.Response\<close>; messages and details are left out. The image store is an S3 client: a pair of functions,
  and \<^const>\<open>None\<close> when it is not configured. All calls of \<open>time.Now\<close> in one request return the same instant.
\<close>

section \<open>Requests and answers\<close>

record body =
  bd_inventory_id :: "string option"
  bd_query :: "(string \<times> string) option"
  bd_id :: "string option"
  bd_CreateInventoryReq :: "string option"
  bd_UpdateInventoryReq :: "UpdateInventoryReq option"
  bd_CreateProductReq :: "CreateProductReq option"
  bd_UpdateProductReq :: "UpdateProductReq option"
  bd_AllocateSeqReq :: "AllocateSeqReq option"
  bd_InboundSingleReq :: "InboundSingleReq option"
  bd_InboundBatchReq :: "InboundBatchReq option"
  bd_InboundSearchImportReq :: "InboundSearchImportReq option"
  bd_CreateOutboundReq :: "CreateOutboundReq option"
  bd_ReserveToOutboundReq :: "ReserveToOutboundReq option"
  bd_CreateInboundLogReq :: "CreateInboundLogReq option"
  bd_UpdateInboundLogReq :: "UpdateInboundLogReq option"
  bd_CreateTagReq :: "CreateTagReq option"
  bd_UpdateTagReq :: "UpdateTagReq option"
  bd_AddStatusCodeReq :: "AddStatusCodeReq option"
  bd_UpdateStatusCodeReq :: "UpdateStatusCodeReq option"
  bd_image :: "string option"

record image_store =
  im_Upload :: "string \<Rightarrow> bool"
  im_SignedURL :: "string \<Rightarrow> string option"

record request =
  rq_now :: instant
  rq_id :: string
  rq_body :: body

datatype data =
    NoData
  | Inventories "Inventory list"
  | AnInventory Inventory
  | Products "Product list"
  | AProduct Product
  | SeqNumber int
  | Imported "Product list \<times> nat"
  | Orders "OutboundOrder list"
  | AnOrder OutboundOrder
  | Logs "InboundLog list"
  | ALog InboundLog
  | Tags "Tag list"
  | ATag Tag
  | StatusCodes "StatusCode list"
  | AStatusCode StatusCode
  | Url string

record answer =
  an_Status :: int
  an_Code :: int
  an_Data :: data

definition Success :: "data \<Rightarrow> answer" where
  "Success d = \<lparr>an_Status = 200, an_Code = CodeSuccess, an_Data = d\<rparr>"

definition Fail :: "int \<Rightarrow> answer" where
  "Fail code = \<lparr>an_Status = CodeHTTPStatus code, an_Code = code, an_Data = NoData\<rparr>"

definition ParamErr :: answer where
  "ParamErr = Fail CodeParamErr"

fun handleError :: "goods_error \<Rightarrow> answer" where
  "handleError (GoodserError code) = Fail code"
| "handleError ErrNoRows = Fail CodeNotFound"
| "handleError DbError = Fail CodeSystemErr"

text \<open>What every handler does with the result of the service, and with a body that does not decode.\<close>

definition respond :: "('a \<Rightarrow> data) \<Rightarrow> 'a stmt \<Rightarrow> conn \<Rightarrow> answer \<times> conn" where
  "respond f m c = (case m c of (Inl e, c') \<Rightarrow> (handleError e, c') | (Inr x, c') \<Rightarrow> (Success (f x), c'))"

definition bound :: "'a option \<Rightarrow> ('a \<Rightarrow> conn \<Rightarrow> answer \<times> conn) \<Rightarrow> conn \<Rightarrow> answer \<times> conn" where
  "bound req h c = (case req of None \<Rightarrow> (ParamErr, c) | Some r \<Rightarrow> h r c)"

type_synonym handler = "request \<Rightarrow> conn \<Rightarrow> answer \<times> conn"

section \<open>Inventories\<close>

definition LoadInventories :: handler where
  "LoadInventories rq = respond Inventories svc_ListInventories"

definition GetInventoryREST :: handler where
  "GetInventoryREST rq = respond AnInventory (svc_GetInventory (rq_id rq))"

definition CreateInventory :: handler where
  "CreateInventory rq = bound (bd_CreateInventoryReq (rq_body rq)) (\<lambda>name. respond AnInventory (svc_CreateInventory (rq_now rq) name))"

definition UpdateInventory :: handler where
  "UpdateInventory rq = bound (bd_UpdateInventoryReq (rq_body rq)) (\<lambda>req. respond AnInventory (svc_UpdateInventory (rq_now rq) req))"

definition UpdateInventoryREST :: handler where
  "UpdateInventoryREST rq = bound (bd_UpdateInventoryReq (rq_body rq))
     (\<lambda>req. respond AnInventory (svc_UpdateInventory (rq_now rq) (req\<lparr>ui_ID := rq_id rq\<rparr>)))"

definition DeleteInventory :: handler where
  "DeleteInventory rq = bound (bd_id (rq_body rq)) (\<lambda>i. respond (\<lambda>_. NoData) (svc_DeleteInventory i))"

definition DeleteInventoryREST :: handler where
  "DeleteInventoryREST rq = respond (\<lambda>_. NoData) (svc_DeleteInventory (rq_id rq))"

definition ListInventoriesREST :: handler where "ListInventoriesREST = LoadInventories"
definition CreateInventoryREST :: handler where "CreateInventoryREST = CreateInventory"

section \<open>Products\<close>

definition LoadProducts :: handler where
  "LoadProducts rq = bound (bd_inventory_id (rq_body rq)) (\<lambda>i. respond Products (svc_ListProducts i))"

definition ListProductsREST :: handler where
  "ListProductsREST rq = respond Products (svc_ListProducts (rq_id rq))"

definition QueryProducts :: handler where
  "QueryProducts rq = bound (bd_query (rq_body rq)) (\<lambda>(i, keyword). respond Products (svc_SearchProducts i keyword))"

definition CreateProductHandler :: handler where
  "CreateProductHandler rq = bound (bd_CreateProductReq (rq_body rq)) (\<lambda>req. respond AProduct (svc_CreateProduct (rq_now rq) req))"

definition UpdateProductLegacy :: handler where
  "UpdateProductLegacy rq = bound (bd_UpdateProductReq (rq_body rq)) (\<lambda>req. respond AProduct (svc_UpdateProduct (rq_now rq) req))"

definition UpdateProductREST :: handler where
  "UpdateProductREST rq = bound (bd_UpdateProductReq (rq_body rq))
     (\<lambda>req. respond AProduct (svc_UpdateProduct (rq_now rq) (req\<lparr>up_ID := rq_id rq\<rparr>)))"

definition DeleteProductHandler :: handler where
  "DeleteProductHandler rq = bound (bd_id (rq_body rq)) (\<lambda>i. respond (\<lambda>_. NoData) (svc_DeleteProduct i))"

definition DeleteProductREST :: handler where
  "DeleteProductREST rq = respond (\<lambda>_. NoData) (svc_DeleteProduct (rq_id rq))"

definition AllocateSeqHandler :: handler where
  "AllocateSeqHandler rq = bound (bd_AllocateSeqReq (rq_body rq)) (\<lambda>req. respond SeqNumber (svc_AllocateSeq req))"

section \<open>Goods in\<close>

definition InboundSingleHandler :: handler where
  "InboundSingleHandler rq = bound (bd_InboundSingleReq (rq_body rq)) (\<lambda>req. respond AProduct (svc_InboundSingle (rq_now rq) req))"

definition InboundBatchHandler :: handler where
  "InboundBatchHandler rq = bound (bd_InboundBatchReq (rq_body rq)) (\<lambda>req. respond Imported (svc_InboundBatch (rq_now rq) req))"

definition InboundSearchImportHandler :: handler where
  "InboundSearchImportHandler rq = bound (bd_InboundSearchImportReq (rq_body rq))
     (\<lambda>req. respond Imported (svc_InboundSearchImport (rq_now rq) req))"

definition LoadInboundLogs :: handler where
  "LoadInboundLogs rq = bound (bd_inventory_id (rq_body rq)) (\<lambda>i. respond Logs (svc_ListInboundLogs i))"

definition CreateInboundLogHandler :: handler where
  "CreateInboundLogHandler rq = bound (bd_CreateInboundLogReq (rq_body rq)) (\<lambda>req. respond ALog (svc_CreateInboundLog (rq_now rq) req))"

definition UpdateInboundLogHandler :: handler where
  "UpdateInboundLogHandler rq = bound (bd_UpdateInboundLogReq (rq_body rq)) (\<lambda>req. respond ALog (svc_UpdateInboundLog req))"

definition DeleteInboundLogHandler :: handler where
  "DeleteInboundLogHandler rq = bound (bd_id (rq_body rq)) (\<lambda>i. respond (\<lambda>_. NoData) (svc_DeleteInboundLog i))"

section \<open>Goods out\<close>

definition LoadOutboundOrders :: handler where
  "LoadOutboundOrders rq = bound (bd_inventory_id (rq_body rq)) (\<lambda>i. respond Orders (svc_ListOutboundOrders i))"

definition CreateOutbound :: handler where
  "CreateOutbound rq = bound (bd_CreateOutboundReq (rq_body rq)) (\<lambda>req. respond AnOrder (svc_CreateOutboundOrder (rq_now rq) req))"

definition ConfirmOutboundLegacy :: handler where
  "ConfirmOutboundLegacy rq = bound (bd_id (rq_body rq)) (\<lambda>i. respond AnOrder (svc_ConfirmOutbound (rq_now rq) i))"

definition CancelOutboundLegacy :: handler where
  "CancelOutboundLegacy rq = bound (bd_id (rq_body rq)) (\<lambda>i. respond AnOrder (svc_CancelOutbound (rq_now rq) i))"

definition CancelReserveHandler :: handler where
  "CancelReserveHandler rq = bound (bd_id (rq_body rq)) (\<lambda>i. respond AnOrder (svc_CancelReserve (rq_now rq) i))"

definition ReserveToOutboundHandler :: handler where
  "ReserveToOutboundHandler rq = bound (bd_ReserveToOutboundReq (rq_body rq)) (\<lambda>req. respond AnOrder (svc_ReserveToOutbound (rq_now rq) req))"

section \<open>Tags and status codes\<close>

definition LoadTags :: handler where
  "LoadTags rq = respond Tags svc_ListTags"

definition CreateTag :: handler where
  "CreateTag rq = bound (bd_CreateTagReq (rq_body rq)) (\<lambda>req. respond ATag (svc_CreateTag (rq_now rq) req))"

definition UpdateTagLegacy :: handler where
  "UpdateTagLegacy rq = bound (bd_UpdateTagReq (rq_body rq)) (\<lambda>req. respond ATag (svc_UpdateTag req))"

definition DeleteTagLegacy :: handler where
  "DeleteTagLegacy rq = bound (bd_id (rq_body rq)) (\<lambda>i. respond (\<lambda>_. NoData) (svc_DeleteTag i))"

definition LoadStatusCodes :: handler where
  "LoadStatusCodes rq = respond StatusCodes svc_ListStatusCodes"

definition AddStatusCode :: handler where
  "AddStatusCode rq = bound (bd_AddStatusCodeReq (rq_body rq)) (\<lambda>req. respond AStatusCode (svc_CreateStatusCode (rq_now rq) req))"

definition UpdateStatusCode :: handler where
  "UpdateStatusCode rq = bound (bd_UpdateStatusCodeReq (rq_body rq)) (\<lambda>req. respond AStatusCode (svc_UpdateStatusCode req))"

definition RemoveStatusCode :: handler where
  "RemoveStatusCode rq = bound (bd_id (rq_body rq)) (\<lambda>i. respond (\<lambda>_. NoData) (svc_DeleteStatusCode i))"

section \<open>Images\<close>

text \<open>\<open>path.Ext\<close>: from the last dot behind the last slash.\<close>

definition path_Ext :: "string \<Rightarrow> string" where
  "path_Ext p =
    (let r = rev p; e = takeWhile (\<lambda>c. c \<noteq> CHR ''.'' \<and> c \<noteq> CHR ''/'') r; rest = drop (length e) r
     in if rest \<noteq> [] \<and> hd rest = CHR ''.'' then CHR ''.'' # rev e else [])"

definition image_key :: "string \<Rightarrow> string \<Rightarrow> string" where
  "image_key uuid filename =
    (let ext = ascii_lower (path_Ext filename)
     in ''goodser/images/'' @ uuid @ (if ext = [] then ''.jpg'' else ext))"

definition UploadImage :: "image_store option \<Rightarrow> handler" where
  "UploadImage store rq c =
    (case store of
       None \<Rightarrow> (Fail CodeSystemErr, c)
     | Some st \<Rightarrow>
         (case bd_image (rq_body rq) of
            None \<Rightarrow> (ParamErr, c)
          | Some filename \<Rightarrow>
              (case new_uuid c of
                 (Inl e, c) \<Rightarrow> (handleError e, c)
               | (Inr uuid, c) \<Rightarrow>
                   let key = image_key uuid filename
                   in if \<not> im_Upload st key then (Fail CodeSystemErr, c)
                      else (case im_SignedURL st key of None \<Rightarrow> (Fail CodeSystemErr, c) | Some url \<Rightarrow> (Success (Url url), c)))))"

section \<open>Routes\<close>

text \<open>The routes: the method, the segments of the path below the group of the module, the handler.\<close>

definition legacy_routes :: "image_store option \<Rightarrow> (string \<times> handler) list" where
  "legacy_routes store =
    [(''loadInventories'', LoadInventories), (''loadProducts'', LoadProducts), (''queryProducts'', QueryProducts),
     (''loadOutboundOrders'', LoadOutboundOrders), (''loadInboundLogs'', LoadInboundLogs), (''loadTags'', LoadTags),
     (''loadStatusCodes'', LoadStatusCodes), (''createInventory'', CreateInventory), (''updateInventory'', UpdateInventory),
     (''deleteInventory'', DeleteInventory), (''createProduct'', CreateProductHandler), (''deleteProduct'', DeleteProductHandler),
     (''allocateSeq'', AllocateSeqHandler), (''inboundSingle'', InboundSingleHandler), (''inboundBatch'', InboundBatchHandler),
     (''inboundSearchImport'', InboundSearchImportHandler), (''createOutbound'', CreateOutbound), (''confirmOutbound'', ConfirmOutboundLegacy),
     (''cancelOutbound'', CancelOutboundLegacy), (''createTag'', CreateTag), (''updateTag'', UpdateTagLegacy), (''deleteTag'', DeleteTagLegacy),
     (''updateProduct'', UpdateProductLegacy), (''addStatusCode'', AddStatusCode), (''updateStatusCode'', UpdateStatusCode),
     (''removeStatusCode'', RemoveStatusCode), (''createInboundLog'', CreateInboundLogHandler), (''updateInboundLog'', UpdateInboundLogHandler),
     (''deleteInboundLog'', DeleteInboundLogHandler), (''cancelReserve'', CancelReserveHandler), (''reserveToOutbound'', ReserveToOutboundHandler),
     (''uploadImage'', UploadImage store)]"

definition rest_routes :: "(string \<times> string list \<times> handler) list" where
  "rest_routes =
    [(''GET'', [''inventories''], ListInventoriesREST), (''POST'', [''inventories''], CreateInventoryREST),
     (''GET'', [''inventories'', '':id''], GetInventoryREST), (''PUT'', [''inventories'', '':id''], UpdateInventoryREST),
     (''DELETE'', [''inventories'', '':id''], DeleteInventoryREST), (''GET'', [''inventories'', '':id'', ''products''], ListProductsREST),
     (''POST'', [''inventories'', '':id'', ''products''], CreateProductHandler),
     (''POST'', [''inventories'', '':id'', ''allocate-seq''], AllocateSeqHandler),
     (''POST'', [''inventories'', '':id'', ''inbound'', ''single''], InboundSingleHandler),
     (''POST'', [''inventories'', '':id'', ''inbound'', ''batch''], InboundBatchHandler),
     (''POST'', [''inventories'', '':id'', ''inbound'', ''search-import''], InboundSearchImportHandler),
     (''POST'', [''inventories'', '':id'', ''outbound-orders''], CreateOutbound),
     (''GET'', [''inventories'', '':id'', ''outbound-orders''], LoadOutboundOrders),
     (''GET'', [''inventories'', '':id'', ''inbound-logs''], LoadInboundLogs),
     (''PUT'', [''products'', '':id''], UpdateProductREST), (''DELETE'', [''products'', '':id''], DeleteProductREST),
     (''GET'', [''settings'', ''tags''], LoadTags), (''GET'', [''settings'', ''status-codes''], LoadStatusCodes)]"

definition routes :: "image_store option \<Rightarrow> (string \<times> string list \<times> handler) list" where
  "routes store = map (\<lambda>(name, h). (''POST'', [''legacy'', name], h)) (legacy_routes store) @ rest_routes"

definition matches :: "string list \<Rightarrow> string list \<Rightarrow> bool" where
  "matches pattern path \<longleftrightarrow> list_all2 (\<lambda>p s. if p = '':id'' then s \<noteq> [] else p = s) pattern path"

fun path_id :: "string list \<Rightarrow> string list \<Rightarrow> string" where
  "path_id (p # ps) (s # ss) = (if p = '':id'' then s else path_id ps ss)"
| "path_id _ _ = []"

text \<open>The answer of the router; \<open>None\<close> where no route matches.\<close>

definition serve :: "image_store option \<Rightarrow> string \<Rightarrow> string list \<Rightarrow> instant \<Rightarrow> body \<Rightarrow> conn \<Rightarrow> (answer \<times> conn) option" where
  "serve store meth path now b c =
    (case find (\<lambda>(m, pattern, h). m = meth \<and> matches pattern path) (routes store) of
       None \<Rightarrow> None
     | Some (m, pattern, h) \<Rightarrow> Some (h \<lparr>rq_now = now, rq_id = path_id pattern path, rq_body = b\<rparr> c))"

text \<open>A request over the API: method, path, instant, body, and which statements the database answers.\<close>

type_synonym api_request = "string \<times> string list \<times> instant \<times> body \<times> bool list"

definition api_step :: "image_store option \<Rightarrow> api_request \<Rightarrow> conn \<Rightarrow> conn" where
  "api_step store r c = (case r of (meth, path, now, b, up) \<Rightarrow>
     (case serve store meth path now b (c\<lparr>cn_up := up\<rparr>) of None \<Rightarrow> c | Some (a, c') \<Rightarrow> c'))"

definition api_run :: "image_store option \<Rightarrow> api_request list \<Rightarrow> conn \<Rightarrow> conn" where
  "api_run store rs c = fold (api_step store) rs c"

text \<open>Whatever struct a body is decoded into, what it asks of the stock is allowed (\<open>op_ok\<close>).\<close>

definition allowed :: "('a \<Rightarrow> goods_op) \<Rightarrow> 'a option \<Rightarrow> bool" where
  "allowed f r = (case r of None \<Rightarrow> True | Some x \<Rightarrow> op_ok (f x))"

definition body_ok :: "body \<Rightarrow> bool" where
  "body_ok b \<longleftrightarrow> allowed CreateProduct (bd_CreateProductReq b) \<and> allowed UpdateProduct (bd_UpdateProductReq b) \<and>
     allowed InboundSingle (bd_InboundSingleReq b) \<and> allowed InboundBatch (bd_InboundBatchReq b) \<and>
     allowed InboundSearchImport (bd_InboundSearchImportReq b) \<and> allowed CreateOutboundOrder (bd_CreateOutboundReq b) \<and>
     allowed ReserveToOutbound (bd_ReserveToOutboundReq b)"

section \<open>Every route keeps the books\<close>

definition keeps :: "handler \<Rightarrow> bool" where
  "keeps h \<longleftrightarrow> (\<forall>rq c. body_ok (rq_body rq) \<longrightarrow> balanced c \<longrightarrow> balanced (snd (h rq c)))"

lemma snd_respond: "snd (respond f m c) = snd (m c)"
  by (simp add: respond_def split: prod.split sum.split)

lemma keepsI:
  assumes "\<And>rq. body_ok (rq_body rq) \<Longrightarrow> preserves balanced (m rq)" "\<And>rq c. snd (h rq c) = snd (m rq c)"
  shows "keeps h"
  using assms by (simp add: keeps_def preserves_def)

lemma keeps_respond: "(\<And>rq. preserves balanced (m rq)) \<Longrightarrow> keeps (\<lambda>rq. respond f (m rq))"
  by (simp add: keeps_def preserves_def snd_respond)

lemma keeps_bound: "(\<And>rq x. preserves balanced (m rq x)) \<Longrightarrow> keeps (\<lambda>rq. bound (g rq) (\<lambda>x. respond f (m rq x)))"
  by (simp add: keeps_def preserves_def bound_def snd_respond split: option.split)

lemma keeps_allowed:
  assumes "\<And>rq x. body_ok (rq_body rq) \<Longrightarrow> g rq = Some x \<Longrightarrow> preserves balanced (m rq x)"
  shows "keeps (\<lambda>rq. bound (g rq) (\<lambda>x. respond f (m rq x)))"
  using assms by (simp add: keeps_def preserves_def bound_def snd_respond split: option.split)

named_theorems keeps_rules

lemma preserves_insert [keeps_rules]:
  "preserves balanced (exec (\<lambda>d. map_option (\<lambda>t. d\<lparr>gd_inventories := t\<rparr>) (i d)))"
  "preserves balanced (exec (\<lambda>d. map_option (\<lambda>t. d\<lparr>gd_logs := t\<rparr>) (l d)))"
  "preserves balanced (exec (\<lambda>d. if p d then None else map_option (\<lambda>t. d\<lparr>gd_tags := t\<rparr>) (tg d)))"
  "preserves balanced (exec (\<lambda>d. if p d then None else map_option (\<lambda>t. d\<lparr>gd_status_codes := t\<rparr>) (sc d)))"
  by (rule yields_frame(2), auto split: if_splits)+

lemma preserves_set [keeps_rules]:
  "preserves balanced (exec (\<lambda>d. Some (d\<lparr>gd_inventories := iv d\<rparr>)))"
  "preserves balanced (exec (\<lambda>d. Some (d\<lparr>gd_logs := lg d\<rparr>)))"
  "preserves balanced (exec (\<lambda>d. Some (d\<lparr>gd_tags := t d\<rparr>)))"
  "preserves balanced (exec (\<lambda>d. if p d then None else Some (d\<lparr>gd_tags := t d\<rparr>)))"
  "preserves balanced (exec (\<lambda>d. Some (d\<lparr>gd_status_codes := sc d\<rparr>)))"
  by (rule yields_frame(2), auto split: if_splits)+

lemmas [keeps_rules] = preserves_query [OF balanced_blind] preserves_product_query [OF balanced_blind] preserves_balanced_uuid
  preserves_bind preserves_ret preserves_fail preserves_or_not_found

lemma preserves_call:
  "op_ok (CreateProduct cp) \<Longrightarrow> preserves balanced (svc_CreateProduct now cp)"
  "op_ok (UpdateProduct up) \<Longrightarrow> preserves balanced (svc_UpdateProduct now up)"
  "preserves balanced (svc_DeleteProduct i)" "preserves balanced (svc_AllocateSeq aq)"
  "op_ok (InboundSingle is1) \<Longrightarrow> preserves balanced (svc_InboundSingle now is1)"
  "op_ok (InboundBatch ib) \<Longrightarrow> preserves balanced (svc_InboundBatch now ib)"
  "op_ok (InboundSearchImport ir) \<Longrightarrow> preserves balanced (svc_InboundSearchImport now ir)"
  "op_ok (CreateOutboundOrder co) \<Longrightarrow> preserves balanced (svc_CreateOutboundOrder now co)"
  "preserves balanced (svc_ConfirmOutbound now i)" "preserves balanced (svc_CancelOutbound now i)" "preserves balanced (svc_CancelReserve now i)"
  "op_ok (ReserveToOutbound ro) \<Longrightarrow> preserves balanced (svc_ReserveToOutbound now ro)"
  unfolding preserves_def using balanced_call
  by (metis goods_call.simps(1), metis goods_call.simps(2), metis goods_call.simps(3) op_ok.simps(3), metis goods_call.simps(4) op_ok.simps(4),
      metis goods_call.simps(5), metis goods_call.simps(6), metis goods_call.simps(7), metis goods_call.simps(8),
      metis goods_call.simps(9) op_ok.simps(9), metis goods_call.simps(10) op_ok.simps(10), metis goods_call.simps(11) op_ok.simps(11),
      metis goods_call.simps(12))

lemmas plain_svc_defs = svc_ListInventories_def svc_GetInventory_def svc_CreateInventory_def svc_UpdateInventory_def svc_DeleteInventory_def
  svc_ListProducts_def svc_SearchProducts_def svc_ListOutboundOrders_def svc_ListInboundLogs_def svc_ListTags_def svc_CreateTag_def
  svc_UpdateTag_def svc_DeleteTag_def svc_ListStatusCodes_def svc_CreateStatusCode_def svc_UpdateStatusCode_def svc_DeleteStatusCode_def
  svc_CreateInboundLog_def svc_UpdateInboundLog_def svc_DeleteInboundLog_def

lemmas plain_repo_defs = repo_ListInventories_def repo_GetInventory_def repo_CreateInventory_def repo_UpdateInventory_def repo_DeleteInventory_def
  repo_ListProducts_def repo_SearchProducts_def repo_ListOutboundOrders_def repo_ListInboundLogs_def repo_GetInboundLog_def
  repo_CreateInboundLog_def repo_UpdateInboundLog_def repo_DeleteInboundLog_def add_log_def repo_ListTags_def repo_GetTag_def repo_CreateTag_def
  repo_UpdateTag_def repo_DeleteTag_def repo_ListStatusCodes_def repo_GetStatusCode_def repo_CreateStatusCode_def repo_UpdateStatusCode_def
  repo_DeleteStatusCode_def

lemma preserves_reads:
  "preserves balanced svc_ListInventories" "preserves balanced (svc_GetInventory i)" "preserves balanced (svc_ListProducts i)"
  "preserves balanced (svc_SearchProducts i k)" "preserves balanced (svc_ListOutboundOrders i)" "preserves balanced (svc_ListInboundLogs i)"
  "preserves balanced svc_ListTags" "preserves balanced svc_ListStatusCodes"
  unfolding plain_svc_defs plain_repo_defs by (intro keeps_rules)+

lemma preserves_writes:
  "preserves balanced (svc_CreateInventory now n)" "preserves balanced (svc_UpdateInventory now ui)" "preserves balanced (svc_DeleteInventory i)"
  "preserves balanced (svc_CreateTag now ct)" "preserves balanced (svc_UpdateTag ut)" "preserves balanced (svc_DeleteTag i)"
  "preserves balanced (svc_CreateStatusCode now ac)" "preserves balanced (svc_UpdateStatusCode us)" "preserves balanced (svc_DeleteStatusCode i)"
  "preserves balanced (svc_CreateInboundLog now cl)" "preserves balanced (svc_UpdateInboundLog ul)" "preserves balanced (svc_DeleteInboundLog i)"
  unfolding plain_svc_defs plain_repo_defs Let_def by (intro keeps_rules)+

lemma keeps_plain:
  "keeps LoadInventories" "keeps GetInventoryREST" "keeps DeleteInventoryREST" "keeps ListProductsREST" "keeps LoadTags" "keeps LoadStatusCodes"
  "keeps DeleteProductREST" "keeps ListInventoriesREST"
  unfolding LoadInventories_def [abs_def] GetInventoryREST_def [abs_def] DeleteInventoryREST_def [abs_def] ListProductsREST_def [abs_def]
    LoadTags_def [abs_def] LoadStatusCodes_def [abs_def] DeleteProductREST_def [abs_def] ListInventoriesREST_def
  by (intro keeps_respond preserves_reads preserves_writes preserves_call)+

lemma keeps_bodies:
  "keeps CreateInventory" "keeps UpdateInventory" "keeps UpdateInventoryREST" "keeps DeleteInventory" "keeps CreateInventoryREST" "keeps LoadProducts"
  "keeps DeleteProductHandler" "keeps AllocateSeqHandler" "keeps LoadInboundLogs" "keeps CreateInboundLogHandler" "keeps UpdateInboundLogHandler"
  "keeps DeleteInboundLogHandler" "keeps LoadOutboundOrders" "keeps ConfirmOutboundLegacy" "keeps CancelOutboundLegacy" "keeps CancelReserveHandler"
  "keeps CreateTag" "keeps UpdateTagLegacy" "keeps DeleteTagLegacy" "keeps AddStatusCode" "keeps UpdateStatusCode" "keeps RemoveStatusCode"
  unfolding CreateInventory_def [abs_def] UpdateInventory_def [abs_def] UpdateInventoryREST_def [abs_def] DeleteInventory_def [abs_def]
    CreateInventoryREST_def LoadProducts_def [abs_def] DeleteProductHandler_def [abs_def] AllocateSeqHandler_def [abs_def] LoadInboundLogs_def [abs_def]
    CreateInboundLogHandler_def [abs_def] UpdateInboundLogHandler_def [abs_def] DeleteInboundLogHandler_def [abs_def] LoadOutboundOrders_def [abs_def]
    ConfirmOutboundLegacy_def [abs_def] CancelOutboundLegacy_def [abs_def] CancelReserveHandler_def [abs_def] CreateTag_def [abs_def]
    UpdateTagLegacy_def [abs_def] DeleteTagLegacy_def [abs_def] AddStatusCode_def [abs_def] UpdateStatusCode_def [abs_def] RemoveStatusCode_def [abs_def]
  by (intro keeps_bound preserves_reads preserves_writes preserves_call)+

lemma keeps_stock:
  "keeps CreateProductHandler" "keeps UpdateProductLegacy" "keeps UpdateProductREST" "keeps InboundSingleHandler" "keeps InboundBatchHandler"
  "keeps InboundSearchImportHandler" "keeps CreateOutbound" "keeps ReserveToOutboundHandler"
  unfolding CreateProductHandler_def [abs_def] UpdateProductLegacy_def [abs_def] UpdateProductREST_def [abs_def] InboundSingleHandler_def [abs_def]
    InboundBatchHandler_def [abs_def] InboundSearchImportHandler_def [abs_def] CreateOutbound_def [abs_def] ReserveToOutboundHandler_def [abs_def]
  by (rule keeps_allowed, rule preserves_call, simp add: body_ok_def allowed_def)+

lemma keeps_QueryProducts: "keeps QueryProducts"
  using preserves_reads(4) by (auto simp: keeps_def QueryProducts_def bound_def snd_respond preserves_def split: option.split)

lemma keeps_UploadImage: "keeps (UploadImage store)"
  using preserves_balanced_uuid
  by (auto simp: keeps_def UploadImage_def preserves_def new_uuid_def Let_def split: option.split)

lemma routes_keep: "list_all (\<lambda>(m, pattern, h). keeps h) (routes store)"
  by (simp add: routes_def legacy_routes_def rest_routes_def keeps_plain keeps_bodies keeps_stock keeps_QueryProducts keeps_UploadImage)

lemma serve_keeps:
  assumes "serve store meth path now b c = Some (a, c')" "body_ok b" "balanced c"
  shows "balanced c'"
proof -
  obtain m pattern h where f: "find (\<lambda>(m, pattern, h). m = meth \<and> matches pattern path) (routes store) = Some (m, pattern, h)"
    "(a, c') = h \<lparr>rq_now = now, rq_id = path_id pattern path, rq_body = b\<rparr> c"
    using assms(1) by (auto simp: serve_def split: option.splits)
  have "keeps h" using find_SomeD [OF f(1)] routes_keep [of store] by (auto simp: list_all_iff)
  with assms(2,3) have "balanced (snd (h \<lparr>rq_now = now, rq_id = path_id pattern path, rq_body = b\<rparr> c))"
    by (simp add: keeps_def)
  with f(2) show ?thesis by (metis snd_conv)
qed

lemma api_run_balanced:
  "balanced c \<Longrightarrow> list_all (\<lambda>(meth, path, now, b, up). body_ok b) rs \<Longrightarrow> balanced (api_run store rs c)"
proof (induction rs arbitrary: c)
  case (Cons r rs)
  obtain meth path now b up where r: "r = (meth, path, now, b, up)" by (rule prod_cases5)
  have "balanced (c\<lparr>cn_up := up\<rparr>)" using Cons.prems(1) balanced_blind by (simp add: blind_def)
  then have "balanced (api_step store r c)"
    using serve_keeps [of store meth path now b] Cons.prems r by (auto simp: api_step_def split: option.split)
  with Cons show ?case by (simp add: api_run_def)
qed (simp add: api_run_def)

text \<open>C21: The API never oversells. Send any requests to any of the routes, starting from the tables of \<open>initTables\<close>, with the database refusing
  statements and commits wherever it likes. As long as no body asks for a negative quantity, creates an order that is not
  open or overwrites the stock of a product by hand, what is reserved of every product is what the pending and reserved
  orders ask for, not negative and not more than the stock.\<close>

theorem api_never_oversells:
  assumes "inj uuid" "list_all (\<lambda>(meth, path, now, b, up). body_ok b) rs"
    and "p \<in> set (gd_products (cn_db (api_run store rs (goods_start img uuid))))"
  shows "pd_ReservedQuantity p = open_total (pd_ID p) (gd_orders (cn_db (api_run store rs (goods_start img uuid)))) \<and>
    0 \<le> pd_ReservedQuantity p \<and> pd_ReservedQuantity p \<le> pd_Quantity p"
  using balanced_product [OF api_run_balanced [OF start_balanced [OF assms(1)] assms(2)] assms(3)] by simp

definition no_body :: body where
  "no_body = \<lparr>bd_inventory_id = None, bd_query = None, bd_id = None, bd_CreateInventoryReq = None, bd_UpdateInventoryReq = None,
     bd_CreateProductReq = None, bd_UpdateProductReq = None, bd_AllocateSeqReq = None, bd_InboundSingleReq = None, bd_InboundBatchReq = None,
     bd_InboundSearchImportReq = None, bd_CreateOutboundReq = None, bd_ReserveToOutboundReq = None, bd_CreateInboundLogReq = None,
     bd_UpdateInboundLogReq = None, bd_CreateTagReq = None, bd_UpdateTagReq = None, bd_AddStatusCodeReq = None, bd_UpdateStatusCodeReq = None,
     bd_image = None\<rparr>"

lemma serve_createProduct:
  "serve store ''POST'' [''legacy'', ''createProduct''] now b c = Some (CreateProductHandler \<lparr>rq_now = now, rq_id = [], rq_body = b\<rparr> c)"
  by (simp add: serve_def routes_def legacy_routes_def rest_routes_def matches_def)

lemma serve_outbound:
  "i \<noteq> [] \<Longrightarrow> serve store ''POST'' [''inventories'', i, ''outbound-orders''] now b c =
    Some (CreateOutbound \<lparr>rq_now = now, rq_id = i, rq_body = b\<rparr> c)"
  by (simp add: serve_def routes_def legacy_routes_def rest_routes_def matches_def)

text \<open>The inventory in the path is not looked at: the order goes into the inventory that the body names.\<close>

lemma path_inventory_ignored:
  "i \<noteq> [] \<Longrightarrow> j \<noteq> [] \<Longrightarrow> serve store ''POST'' [''inventories'', i, ''outbound-orders''] now b c = serve store ''POST'' [''inventories'', j, ''outbound-orders''] now b c"
  by (simp add: serve_outbound CreateOutbound_def)

definition demo_requests :: "api_request list" where
  "demo_requests = [(''POST'', [''legacy'', ''createProduct''], 1, no_body\<lparr>bd_CreateProductReq := Some demo_product\<rparr>, []),
     (''POST'', [''inventories'', ''i'', ''outbound-orders''], 2, no_body\<lparr>bd_CreateOutboundReq := Some (demo_order 3)\<rparr>, []),
     (''POST'', [''inventories'', ''i'', ''outbound-orders''], 3, no_body\<lparr>bd_CreateOutboundReq := Some (demo_order 3)\<rparr>, [])]"

lemma demo_requests_ok: "list_all (\<lambda>(meth, path, now, b, up). body_ok b) demo_requests"
  by (simp add: demo_requests_def body_ok_def allowed_def no_body_def quantity_ok_def demo_product_def demo_order_def order_request_ok_def over_def
      open_status_def order_constants)

lemma api_never_oversells_witness:
  "let c = api_run None demo_requests (goods_start True demo_uuid); p = hd (gd_products (cn_db c)) in
   pd_ReservedQuantity p = 3 \<and> pd_Quantity p = 5 \<and> 0 \<le> pd_ReservedQuantity p \<and> pd_ReservedQuantity p \<le> pd_Quantity p"
proof -
  let ?c = "api_run None demo_requests (goods_start True demo_uuid)"
  have "map (\<lambda>p. (pd_ReservedQuantity p, pd_Quantity p)) (gd_products (cn_db ?c)) = [(3, 5)]"
    by (simp add: api_run_def api_step_def demo_requests_def serve_createProduct serve_outbound CreateProductHandler_def CreateOutbound_def
        bound_def no_body_def respond_def goods_eval demo_product_def demo_order_def)
  then obtain p where p: "gd_products (cn_db ?c) = [p]" "pd_ReservedQuantity p = 3" "pd_Quantity p = 5" by auto
  from api_never_oversells [OF inj_demo_uuid demo_requests_ok, of p None True] p show ?thesis by (simp add: Let_def)
qed

section \<open>Orders beyond the stock\<close>

lemma lock_items_free:
  assumes "lock_items now its c = (Inr u, c')" "p \<in> set (gd_products (cn_db c))" "distinct (map pd_ID (gd_products (cn_db c)))"
  shows "item_total (pd_ID p) its \<le> pd_Quantity p - pd_ReservedQuantity p \<or> (\<forall>it \<in> set its. oi_ProductID it \<noteq> pd_ID p)"
  using assms
proof (induction its arbitrary: c p)
  case (Cons item its)
  obtain q c1 where q: "repo_GetProductForUpdateTx (oi_ProductID item) c = (Inr q, c1)" "oi_Quantity item \<le> pd_Quantity q - pd_ReservedQuantity q"
    and rest: "bind (repo_UpdateProductReservedTx now (oi_ProductID item) 0 (oi_Quantity item)) (\<lambda>_. lock_items now its) c1 = (Inr u, c')"
    using Cons.prems(1) by (auto simp: bind_def fail_def split: prod.splits sum.splits if_splits)
  obtain b us where a: "answered c = (b, c\<lparr>cn_up := us\<rparr>)" using answered_cases by blast
  have c1: "c1 = c\<lparr>cn_up := us\<rparr>" and row: "row (\<lambda>p. pd_ID p = oi_ProductID item) (gd_products (cn_db c)) = Inr q"
    using q(1) a by (auto simp: repo_GetProductForUpdateTx_def product_query_def query_def split: if_splits)
  obtain c2 where c2: "repo_UpdateProductReservedTx now (oi_ProductID item) 0 (oi_Quantity item) c1 = (Inr (), c2)" "lock_items now its c2 = (Inr u, c')"
    using rest by (auto simp: bind_def split: prod.splits sum.splits)
  let ?f = "\<lambda>p. p\<lparr>pd_Quantity := pd_Quantity p + 0, pd_ReservedQuantity := pd_ReservedQuantity p + oi_Quantity item, pd_UpdatedAt := now\<rparr>"
  have prods: "gd_products (cn_db c2) = set_rows (\<lambda>p. pd_ID p = oi_ProductID item) ?f (gd_products (cn_db c))"
    using c2(1) c1 by (auto simp: repo_UpdateProductReservedTx_def exec_def add_stock_def answered_def split: if_splits list.splits)
  have ids: "map pd_ID (gd_products (cn_db c2)) = map pd_ID (gd_products (cn_db c))" by (simp add: prods map_set_rows)
  let ?p = "if pd_ID p = oi_ProductID item then ?f p else p"
  have "?p \<in> set (gd_products (cn_db c2))" using Cons.prems(2) by (auto simp: prods set_rows_iff)
  from Cons.IH [OF c2(2) this] Cons.prems(3) ids
  have IH: "item_total (pd_ID p) its \<le> pd_Quantity ?p - pd_ReservedQuantity ?p \<or> (\<forall>it \<in> set its. oi_ProductID it \<noteq> pd_ID p)" by auto
  have "q = p" if "pd_ID p = oi_ProductID item"
    using that row_Inr [OF row] Cons.prems(2,3) by (metis distinct_map inj_onD)
  then show ?case using IH q(2) by (auto simp: item_total_Cons item_total_zero)
qed simp

lemma lock_items_errors:
  "lock_items now its c = (Inl e, c') \<Longrightarrow> e \<in> {ErrNoRows, DbError, GoodserError ErrInsufficientStock}"
proof (induction its arbitrary: c)
  case (Cons item its)
  have "e' \<in> {ErrNoRows, DbError}" if "repo_GetProductForUpdateTx i c = (Inl e', c1)" for e' i c c1
    using that by (auto simp: repo_GetProductForUpdateTx_def product_query_def query_def answered_def row_def split: list.splits option.splits if_splits)
  moreover have "e' = DbError" if "repo_UpdateProductReservedTx now i x y c = (Inl e', c1)" for e' i x y c c1
    using that by (auto simp: repo_UpdateProductReservedTx_def exec_def answered_def split: list.splits option.splits if_splits)
  ultimately show ?case using Cons
    by (fastforce simp: bind_def fail_def split: prod.splits sum.splits if_splits)
qed (simp add: ret_def)

text \<open>An order beyond the stock is refused. When the items of an order ask together for more of a product than is free, the answer is an error and the
  tables are as before, whichever statements the database answers. The refusal itself is answered with the status 500, as a failure
  of the server: the table of statuses does not know the codes of the module.\<close>

lemma order_beyond_stock_refused:
  assumes "distinct (map pd_ID (gd_products (cn_db c)))" "p \<in> set (gd_products (cn_db c))"
    and "bd_CreateOutboundReq b = Some req" "\<exists>it \<in> set (co_Items req). oi_ProductID it = pd_ID p"
    and "pd_Quantity p - pd_ReservedQuantity p < item_total (pd_ID p) (co_Items req)" "i \<noteq> []"
    and "serve store ''POST'' [''inventories'', i, ''outbound-orders''] now b c = Some (a, c')"
  shows "cn_db c' = cn_db c \<and> an_Code a \<in> {CodeSystemErr, CodeNotFound, ErrInsufficientStock} \<and>
    an_Status a = (if an_Code a = CodeNotFound then 404 else 500)"
proof -
  have run: "respond AnOrder (svc_CreateOutboundOrder now req) c = (a, c')"
    using assms(3,6,7) by (simp add: serve_outbound CreateOutbound_def bound_def)
  let ?body = "bind (lock_items now (co_Items req)) (\<lambda>_. repo_CreateOutboundOrderTx now req)"
  have fails: "\<exists>e c2. ?body c1 = (Inl e, c2) \<and> e \<in> {ErrNoRows, DbError, GoodserError ErrInsufficientStock}" if "cn_db c1 = cn_db c" for c1
  proof -
    obtain r c2 where l: "lock_items now (co_Items req) c1 = (r, c2)" by (rule prod.exhaust)
    show ?thesis
    proof (cases r)
      case (Inl e)
      with l lock_items_errors [of now "co_Items req" c1 e c2] show ?thesis by (simp add: bind_def)
    next
      case (Inr u)
      with l lock_items_free [of now "co_Items req" c1 u c2 p] assms(1,2,4,5) that show ?thesis by auto
    qed
  qed
  obtain up us where ans: "answered c = (up, c\<lparr>cn_up := us\<rparr>)" using answered_cases by blast
  obtain e c2 where e: "svc_CreateOutboundOrder now req c = (Inl e, c2)" "cn_db c2 = cn_db c" "e \<in> {ErrNoRows, DbError, GoodserError ErrInsufficientStock}"
  proof (cases up)
    case False
    then show ?thesis using ans
      by (intro that [of DbError "c\<lparr>cn_up := us\<rparr>"]) (auto simp: svc_CreateOutboundOrder_def with_tx_def begin_tx_def query_def bind_def)
  next
    case True
    obtain e c2 where f: "?body (c\<lparr>cn_up := us\<rparr>) = (Inl e, c2)" "e \<in> {ErrNoRows, DbError, GoodserError ErrInsufficientStock}"
      using fails [of "c\<lparr>cn_up := us\<rparr>"] by auto
    have "svc_CreateOutboundOrder now req c = (Inl e, c2\<lparr>cn_db := cn_db c\<rparr>)"
      using ans True f(1) by (simp add: svc_CreateOutboundOrder_def with_tx_def begin_tx_def query_def bind_def [of "\<lambda>c. _ c"] tx_body_def)
    then show ?thesis using f(2) by (intro that [of e "c2\<lparr>cn_db := cn_db c\<rparr>"]) simp_all
  qed
  have "a = handleError e" "c' = c2" using run e(1) by (simp_all add: respond_def)
  with e(2,3) show ?thesis
    by (auto simp: Fail_def CodeHTTPStatus_def CodeSystemErr_def CodeNotFound_def ErrInsufficientStock_def)
qed

lemma order_beyond_stock_refused_witness:
  "let c = api_run None (take 1 demo_requests) (goods_start True demo_uuid) in
   \<exists>a c'. serve None ''POST'' [''inventories'', ''i'', ''outbound-orders''] 2 (no_body\<lparr>bd_CreateOutboundReq := Some (demo_order 6)\<rparr>) c = Some (a, c') \<and>
     cn_db c' = cn_db c \<and> an_Status a = (if an_Code a = CodeNotFound then 404 else 500)"
proof -
  let ?b = "no_body\<lparr>bd_CreateOutboundReq := Some (demo_order 6)\<rparr>"
  obtain c where c_def: "c = api_run None (take 1 demo_requests) (goods_start True demo_uuid)" by simp
  have "map (\<lambda>p. (pd_ID p, pd_ReservedQuantity p, pd_Quantity p)) (gd_products (cn_db c)) = [([], 0, 5)]"
    by (simp add: c_def api_run_def api_step_def demo_requests_def serve_createProduct CreateProductHandler_def
        bound_def no_body_def respond_def goods_eval demo_product_def)
  then obtain p where p: "gd_products (cn_db c) = [p]" "pd_ID p = []" "pd_ReservedQuantity p = 0" "pd_Quantity p = 5" by auto
  obtain a c' where s: "serve None ''POST'' [''inventories'', ''i'', ''outbound-orders''] 2 ?b c = Some (a, c')"
    by (simp add: serve_outbound)  (metis prod.exhaust)
  have req: "bd_CreateOutboundReq ?b = Some (demo_order 6)" by (simp add: no_body_def)
  have items: "\<exists>it \<in> set (co_Items (demo_order 6)). oi_ProductID it = pd_ID p" "pd_Quantity p - pd_ReservedQuantity p < item_total (pd_ID p) (co_Items (demo_order 6))"
    by (simp_all add: demo_order_def p item_total_def)
  have "cn_db c' = cn_db c \<and> an_Code a \<in> {CodeSystemErr, CodeNotFound, ErrInsufficientStock} \<and> an_Status a = (if an_Code a = CodeNotFound then 404 else 500)"
    by (rule order_beyond_stock_refused [OF _ _ req items _ s]) (simp_all add: p)
  with s show ?thesis unfolding Let_def c_def [symmetric] by blast
qed

end
