(* ===== verification/LogRotate.thy ===== *)
theory LogRotate
  imports GoStd
begin

text \<open>
  src/internal/pkg/logger/rotate.go: the writer of the log files, which starts a file per day and further ones when a file is full.

  A file system maps paths to contents and times of modification; an open descriptor is a path in \<open>os_open\<close>. The text of the date is what
  \<open>time.Now().Format\<close> gives; \<open>ok\<close> tells which paths can be opened, \<open>lim\<close> how much a write takes when the disk is full. The
  directory is a clean path.
\<close>

record RotateConfig =
  rt_Dir :: string
  rt_Prefix :: string
  rt_MaxSize :: int
  rt_MaxAge :: int
  rt_MaxBackup :: int

text \<open>\<open>dw_file\<close>: the path and whether the descriptor is open; \<open>None\<close> is the nil pointer.\<close>

record dailyWriter =
  dw_cfg :: RotateConfig
  dw_file :: "(string \<times> bool) option"
  dw_date :: string
  dw_size :: int
  dw_index :: int
  dw_closed :: bool

record os =
  os_files :: "string \<rightharpoonup> string \<times> instant"
  os_open :: "string list"

datatype write_error = WriterClosed | InvalidFile | WriteFailed nat

definition i32 :: "int \<Rightarrow> int" where
  "i32 x = (x + 2 ^ 31) mod 2 ^ 32 - 2 ^ 31"

definition day_path :: "RotateConfig \<Rightarrow> string \<Rightarrow> string" where
  "day_path cfg date = rt_Dir cfg @ ''/'' @ rt_Prefix cfg @ ''-'' @ date @ ''.log''"

definition part_path :: "RotateConfig \<Rightarrow> string \<Rightarrow> int \<Rightarrow> string" where
  "part_path cfg date i = rt_Dir cfg @ ''/'' @ rt_Prefix cfg @ ''-'' @ date @ ''.'' @ fmt_int i @ ''.log''"

text \<open>\<open>OpenFile\<close> with \<open>O_CREATE | O_APPEND\<close>, and \<open>Close\<close>.\<close>

definition open_append :: "instant \<Rightarrow> string \<Rightarrow> os \<Rightarrow> os" where
  "open_append now path s =
    s\<lparr>os_files := (case os_files s path of None \<Rightarrow> (os_files s)(path \<mapsto> ([], now)) | Some _ \<Rightarrow> os_files s),
      os_open := path # os_open s\<rparr>"

definition close_file :: "(string \<times> bool) option \<Rightarrow> os \<Rightarrow> os" where
  "close_file f s = (case f of Some (path, True) \<Rightarrow> s\<lparr>os_open := remove1 path (os_open s)\<rparr> | _ \<Rightarrow> s)"

definition content :: "os \<Rightarrow> string \<Rightarrow> string" where
  "content s path = (case os_files s path of None \<Rightarrow> [] | Some (c, t) \<Rightarrow> c)"

definition append_file :: "instant \<Rightarrow> string \<Rightarrow> string \<Rightarrow> os \<Rightarrow> os" where
  "append_file now path p s = s\<lparr>os_files := (os_files s)(path \<mapsto> (content s path @ p, now))\<rparr>"

definition openLocked :: "(string \<Rightarrow> bool) \<Rightarrow> instant \<Rightarrow> string \<Rightarrow> dailyWriter \<times> os \<Rightarrow> dailyWriter \<times> os" where
  "openLocked ok now date ws =
    (case ws of (w, s) \<Rightarrow>
       let path = day_path (dw_cfg w) date
       in if \<not> ok path then (w, s)
          else let s = open_append now path s
               in (w\<lparr>dw_file := Some (path, True), dw_date := date, dw_size := int (length (content s path)), dw_index := 0\<rparr>, s))"

definition rotateLocked :: "(string \<Rightarrow> bool) \<Rightarrow> instant \<Rightarrow> string \<Rightarrow> dailyWriter \<times> os \<Rightarrow> dailyWriter \<times> os" where
  "rotateLocked ok now date ws =
    (case ws of (w, s) \<Rightarrow>
       let s = close_file (dw_file w) s;
           w = w\<lparr>dw_file := map_option (\<lambda>(path, _). (path, False)) (dw_file w), dw_index := i32 (dw_index w + 1)\<rparr>;
           path = part_path (dw_cfg w) date (dw_index w)
       in if \<not> ok path then openLocked ok now date (w, s)
          else (w\<lparr>dw_file := Some (path, True), dw_size := 0\<rparr>, open_append now path s))"

definition norm_config :: "RotateConfig \<Rightarrow> RotateConfig" where
  "norm_config cfg =
    cfg\<lparr>rt_MaxSize := (if rt_MaxSize cfg \<le> 0 then 100 * 1024 * 1024 else rt_MaxSize cfg),
        rt_MaxAge := (if rt_MaxAge cfg \<le> 0 then 30 else rt_MaxAge cfg),
        rt_MaxBackup := (if rt_MaxBackup cfg \<le> 0 then 10 else rt_MaxBackup cfg),
        rt_Dir := (if rt_Dir cfg = [] then ''logs'' else rt_Dir cfg)\<rparr>"

definition NewRotateWriter :: "(string \<Rightarrow> bool) \<Rightarrow> instant \<Rightarrow> string \<Rightarrow> RotateConfig \<Rightarrow> os \<Rightarrow> dailyWriter \<times> os" where
  "NewRotateWriter ok now date cfg s =
    openLocked ok now date
      (\<lparr>dw_cfg = norm_config cfg, dw_file = None, dw_date = [], dw_size = 0, dw_index = 0, dw_closed = False\<rparr>, s)"

definition Write ::
  "(string \<Rightarrow> bool) \<Rightarrow> nat option \<Rightarrow> instant \<Rightarrow> string \<Rightarrow> string \<Rightarrow> dailyWriter \<times> os \<Rightarrow> (write_error + nat) \<times> dailyWriter \<times> os" where
  "Write ok lim now today p ws =
    (if dw_closed (fst ws) then (Inl WriterClosed, ws)
     else case (if today \<noteq> dw_date (fst ws) then openLocked ok now today ws else ws) of (w, s) \<Rightarrow>
       (case dw_file w of
          None \<Rightarrow> (Inl InvalidFile, w, s)
        | Some (path, opened) \<Rightarrow>
            if \<not> opened then (Inl InvalidFile, w, s)
            else (case lim of
                Some n \<Rightarrow> (Inl (WriteFailed n), w, append_file now path (take n p) s)
              | None \<Rightarrow>
                  let s = append_file now path p s;
                      w = w\<lparr>dw_size := dw_size w + int (length p)\<rparr>
                  in (Inr (length p),
                      if rt_MaxSize (dw_cfg w) \<le> dw_size w \<and> dw_index w < i32 (rt_MaxBackup (dw_cfg w))
                      then rotateLocked ok now today (w, s) else (w, s)))))"

definition Close :: "dailyWriter \<times> os \<Rightarrow> dailyWriter \<times> os" where
  "Close ws =
    (if dw_closed (fst ws) then ws
     else case ws of (w, s) \<Rightarrow> (w\<lparr>dw_closed := True, dw_file := None\<rparr>, close_file (dw_file w) s))"

text \<open>
  \<open>cleanup\<close>: the names in the directory that begin with the prefix and were not modified since the cutoff; \<open>days\<close> is \<open>AddDate\<close>. The loop
  looks at each file, so the order in which it sorts them has no effect.
\<close>

definition in_dir :: "string \<Rightarrow> string \<Rightarrow> string \<Rightarrow> bool" where
  "in_dir dir pre path \<longleftrightarrow> has_prefix path (dir @ ''/'' @ pre) \<and> CHR ''/'' \<notin> set (drop (length dir + 1) path)"

definition cleanup :: "(instant \<Rightarrow> int \<Rightarrow> instant) \<Rightarrow> instant \<Rightarrow> dailyWriter \<Rightarrow> os \<Rightarrow> os" where
  "cleanup days now w s =
    (let cutoff = days now (- rt_MaxAge (dw_cfg w))
     in s\<lparr>os_files := (\<lambda>path. case os_files s path of
            None \<Rightarrow> None
          | Some (c, t) \<Rightarrow> if in_dir (rt_Dir (dw_cfg w)) (rt_Prefix (dw_cfg w)) path \<and> t < cutoff then None else Some (c, t))\<rparr>)"

section \<open>Nothing that is logged is lost\<close>

text \<open>The files of a day in the order in which they are written.\<close>

definition part :: "RotateConfig \<Rightarrow> string \<Rightarrow> nat \<Rightarrow> string" where
  "part cfg date j = (if j = 0 then day_path cfg date else part_path cfg date (int j))"

text \<open>
  The files of a day hold \<open>txt\<close>: there are at most \<open>MaxBackup + 1\<close>; all but the last have reached the size at which the writer turns to the next
  one and exceed it by less than the longest write \<open>B\<close>; the last one has not reached it, unless it is the last that
  is allowed.
\<close>

definition parts_ok :: "RotateConfig \<Rightarrow> nat \<Rightarrow> os \<Rightarrow> string \<Rightarrow> nat \<Rightarrow> string \<Rightarrow> bool" where
  "parts_ok cfg B s d k txt \<longleftrightarrow>
    int k \<le> rt_MaxBackup cfg \<and>
    concat (map (\<lambda>j. content s (part cfg d j)) [0..<Suc k]) = txt \<and>
    (\<forall>j < k. rt_MaxSize cfg \<le> int (length (content s (part cfg d j))) \<and> int (length (content s (part cfg d j))) < rt_MaxSize cfg + int B) \<and>
    (int k < rt_MaxBackup cfg \<longrightarrow> int (length (content s (part cfg d k))) < rt_MaxSize cfg) \<and>
    (\<forall>j > k. os_files s (part cfg d j) = None)"

definition day_ok :: "RotateConfig \<Rightarrow> nat \<Rightarrow> os \<Rightarrow> string \<Rightarrow> string \<Rightarrow> bool" where
  "day_ok cfg B s d txt \<longleftrightarrow> (\<exists>k. parts_ok cfg B s d k txt)"

text \<open>The writer stands in file \<open>k\<close> of day \<open>d\<close>.\<close>

definition stands :: "RotateConfig \<Rightarrow> string \<Rightarrow> nat \<Rightarrow> dailyWriter \<Rightarrow> os \<Rightarrow> bool" where
  "stands cfg d k w s \<longleftrightarrow> dw_cfg w = cfg \<and> \<not> dw_closed w \<and> dw_file w = Some (part cfg d k, True) \<and> dw_date w = d \<and>
     dw_index w = int k \<and> dw_size w = int (length (content s (part cfg d k))) \<and> part cfg d k \<in> set (os_open s)"

definition sane :: "RotateConfig \<Rightarrow> bool" where
  "sane cfg \<longleftrightarrow> 0 < rt_MaxSize cfg \<and> 0 < rt_MaxBackup cfg \<and> rt_MaxBackup cfg < 2 ^ 31"

lemma part_inj:
  assumes "part cfg d i = part cfg e j" "length d = length e"
  shows "d = e \<and> i = j"
proof -
  have e: "(d @ (if i = 0 then [] else CHR ''.'' # fmt_int (int i))) @ ''.log'' = (e @ (if j = 0 then [] else CHR ''.'' # fmt_int (int j))) @ ''.log''"
    using assms(1) by (auto simp: part_def day_path_def part_path_def split: if_splits)
  then have "d @ (if i = 0 then [] else CHR ''.'' # fmt_int (int i)) = e @ (if j = 0 then [] else CHR ''.'' # fmt_int (int j))"
    by (simp only: append_same_eq)
  with assms(2) have de: "d = e" "(if i = 0 then [] else CHR ''.'' # fmt_int (int i)) = (if j = 0 then [] else CHR ''.'' # fmt_int (int j))"
    using append_eq_append_conv [of d e] by blast+
  from de(2) have "i = j" by (auto split: if_splits dest: fmt_int_inj)
  with de(1) show ?thesis by blast
qed

lemma content_append: "content (append_file now q p s) r = (if r = q then content s q @ p else content s r)"
  by (simp add: content_def append_file_def)

lemma content_open [simp]: "content (open_append now q s) r = content s r"
  by (auto simp: content_def open_append_def split: option.splits)

lemma files_open: "os_files (open_append now q s) r = (if r = q \<and> os_files s q = None then Some ([], now) else os_files s r)"
  by (auto simp: open_append_def split: option.splits)

lemma os_open_simps [simp]:
  "os_open (append_file now q p s) = os_open s" "os_open (open_append now q s) = q # os_open s"
  "os_files (close_file f s) = os_files s" "content (close_file f s) r = content s r"
  by (auto simp: append_file_def open_append_def close_file_def content_def split: option.splits bool.splits)

lemma absent_empty: "os_files s q = None \<Longrightarrow> content s q = []"
  by (simp add: content_def)

lemma i32_id: "- (2 ^ 31) \<le> x \<Longrightarrow> x < 2 ^ 31 \<Longrightarrow> i32 x = x"
  by (simp add: i32_def)

lemma rotate_stands:
  assumes "stands cfg d k w s" "sane cfg" "int k < rt_MaxBackup cfg" "os_files s (part cfg d (Suc k)) = None"
  obtains w' s' where "rotateLocked (\<lambda>_. True) now d (w, s) = (w', s')" "stands cfg d (Suc k) w' s'"
    "\<And>q. content s' q = content s q" "\<And>q. q \<noteq> part cfg d (Suc k) \<Longrightarrow> os_files s' q = os_files s q"
    "length (os_open s') = length (os_open s)"
proof -
  have i: "i32 (int k + 1) = int (Suc k)" using assms(2,3) by (simp add: sane_def i32_id)
  let ?s = "open_append now (part cfg d (Suc k)) (close_file (Some (part cfg d k, True)) s)"
  let ?w = "w\<lparr>dw_file := Some (part cfg d (Suc k), True), dw_index := int (Suc k), dw_size := 0\<rparr>"
  have p: "part_path cfg d (int (Suc k)) = part cfg d (Suc k)" by (simp add: part_def)
  have run: "rotateLocked (\<lambda>_. True) now d (w, s) = (?w, ?s)"
    using assms(1) i p by (simp add: rotateLocked_def stands_def Let_def del: of_nat_Suc)
  have "length (os_open ?s) = length (os_open s)"
    using assms(1) length_pos_if_in_set [of "part cfg d k" "os_open s"] by (simp add: close_file_def stands_def length_remove1)
  moreover have "stands cfg d (Suc k) ?w ?s" using assms(1,4) by (simp add: stands_def absent_empty)
  ultimately show ?thesis by (intro that [OF run]) (simp_all add: files_open)
qed

lemma concat_parts_append:
  assumes "\<And>j. j < k \<Longrightarrow> f' j = f j" "f' k = f k @ p"
  shows "concat (map f' [0..<Suc k]) = concat (map f [0..<Suc k]) @ p"
proof -
  have "concat (map f' [0..<k]) = concat (map f [0..<k])" using assms(1) by (intro arg_cong [where f = concat] map_cong) auto
  with assms(2) show ?thesis by simp
qed

lemma write_day:
  assumes "stands cfg d k w s" "parts_ok cfg B s d k txt" "sane cfg" "length p \<le> B"
    and "Write (\<lambda>_. True) None now d p (w, s) = (r, w', s')"
  shows "r = Inr (length p) \<and> (\<exists>k'. stands cfg d k' w' s' \<and> parts_ok cfg B s' d k' (txt @ p)) \<and> length (os_open s') = length (os_open s) \<and>
    (\<forall>e j. length e = length d \<longrightarrow> e \<noteq> d \<longrightarrow> os_files s' (part cfg e j) = os_files s (part cfg e j))"
proof -
  note st = assms(1) [unfolded stands_def]
  let ?s = "append_file now (part cfg d k) p s" and ?w = "w\<lparr>dw_size := dw_size w + int (length p)\<rparr>"
  have mb: "i32 (rt_MaxBackup cfg) = rt_MaxBackup cfg" using assms(3) by (simp add: sane_def i32_id)
  have c: "content ?s (part cfg d j) = (if j = k then content s (part cfg d k) @ p else content s (part cfg d j))" for j
    by (auto simp: content_append dest: part_inj)
  have f: "os_files ?s (part cfg e j) = os_files s (part cfg e j)" if "length e = length d" "e \<noteq> d \<or> j \<noteq> k" for e j
    using that part_inj [of cfg e j d k] by (auto simp: append_file_def)
  have cat: "concat (map (\<lambda>j. content ?s (part cfg d j)) [0..<Suc k]) = txt @ p"
    using concat_parts_append [of k "\<lambda>j. content ?s (part cfg d j)" "\<lambda>j. content s (part cfg d j)" p] assms(2) c by (simp add: parts_ok_def)
  have stands: "stands cfg d k ?w ?s" using st by (simp add: stands_def c)
  have run: "(Inr (length p), if rt_MaxSize cfg \<le> dw_size ?w \<and> int k < rt_MaxBackup cfg then rotateLocked (\<lambda>_. True) now d (?w, ?s) else (?w, ?s)) = (r, w', s')"
    using assms(5) st mb by (auto simp: Write_def Let_def split: if_splits)
  show ?thesis
  proof (cases "rt_MaxSize cfg \<le> dw_size ?w \<and> int k < rt_MaxBackup cfg")
    case False
    moreover have "parts_ok cfg B ?s d k (txt @ p)"
      using assms(2) cat False st c f by (auto simp: parts_ok_def simp del: upt_Suc)
    ultimately show ?thesis using run stands f by auto
  next
    case True
    have "os_files ?s (part cfg d (Suc k)) = None" using assms(2) f [of d "Suc k"] by (simp add: parts_ok_def)
    then obtain w2 s2 where rot: "rotateLocked (\<lambda>_. True) now d (?w, ?s) = (w2, s2)" "stands cfg d (Suc k) w2 s2"
      "\<And>q. content s2 q = content ?s q" "\<And>q. q \<noteq> part cfg d (Suc k) \<Longrightarrow> os_files s2 q = os_files ?s q" "length (os_open s2) = length (os_open ?s)"
      using rotate_stands [OF stands assms(3)] True by blast
    have new: "content ?s (part cfg d (Suc k)) = []" using \<open>os_files ?s _ = None\<close> by (rule absent_empty)
    have part: "part cfg d j \<noteq> part cfg d (Suc k)" if "j \<noteq> Suc k" for j using that by (auto dest: part_inj)
    have "parts_ok cfg B s2 d (Suc k) (txt @ p)"
    proof -
      have "concat (map (\<lambda>j. content s2 (part cfg d j)) [0..<Suc (Suc k)]) = txt @ p"
        using cat new by (simp add: rot(3) del: upt_Suc add: upt_Suc_append)
      moreover have "rt_MaxSize cfg \<le> int (length (content s2 (part cfg d j))) \<and> int (length (content s2 (part cfg d j))) < rt_MaxSize cfg + int B"
        if "j < Suc k" for j
      proof (cases "j = k")
        case True
        with st c [of k] assms(2,4) \<open>rt_MaxSize cfg \<le> dw_size ?w \<and> int k < rt_MaxBackup cfg\<close> show ?thesis
          by (simp add: rot(3) parts_ok_def)
      next
        case False
        with that assms(2) c [of j] show ?thesis by (simp add: rot(3) parts_ok_def)
      qed
      moreover have "os_files s2 (part cfg d j) = None" if "Suc k < j" for j
        using that assms(2) f [of d j] rot(4) [OF part] by (simp add: parts_ok_def)
      ultimately show ?thesis using True assms(3) new by (auto simp: parts_ok_def rot(3) sane_def simp del: upt_Suc)
    qed
    moreover have "os_files s2 (part cfg e j) = os_files s (part cfg e j)" if "length e = length d" "e \<noteq> d" for e j
      using that rot(4) [of "part cfg e j"] f [of e j] part_inj [of cfg e j d "Suc k"] by metis
    ultimately show ?thesis using run True rot(1,2,5) by auto
  qed
qed

section \<open>Days\<close>

lemma parts_ok_frame:
  assumes "\<And>j. os_files s' (part cfg d j) = os_files s (part cfg d j)"
  shows "parts_ok cfg B s' d k txt = parts_ok cfg B s d k txt"
proof -
  have "content s' (part cfg d j) = content s (part cfg d j)" for j using assms by (simp add: content_def)
  then show ?thesis using assms by (simp add: parts_ok_def del: upt_Suc)
qed

lemma open_stands:
  assumes "dw_cfg w = cfg" "\<not> dw_closed w" "\<And>j. os_files s (part cfg d j) = None" "sane cfg"
    and "openLocked (\<lambda>_. True) now d (w, s) = (w', s')"
  shows "stands cfg d 0 w' s'" "parts_ok cfg B s' d 0 []" "length (os_open s') = Suc (length (os_open s))"
    "length e = length d \<Longrightarrow> e \<noteq> d \<Longrightarrow> os_files s' (part cfg e j) = os_files s (part cfg e j)"
proof -
  have p: "day_path cfg d = part cfg d 0" by (simp add: part_def)
  have w: "w' = w\<lparr>dw_file := Some (part cfg d 0, True), dw_date := d, dw_size := 0, dw_index := 0\<rparr>"
    and s: "s' = open_append now (part cfg d 0) s"
    using assms(1,3,5) p absent_empty [OF assms(3) [of 0]] by (auto simp: openLocked_def Let_def)
  show "stands cfg d 0 w' s'" using assms(1,2) absent_empty [OF assms(3) [of 0]] by (simp add: w s stands_def)
  have "part cfg d j \<noteq> part cfg d 0" if "0 < j" for j using that by (auto dest: part_inj)
  then show "parts_ok cfg B s' d 0 []"
    using assms(3,4) absent_empty [OF assms(3) [of 0]] by (simp add: parts_ok_def s files_open sane_def)
  show "length (os_open s') = Suc (length (os_open s))" by (simp add: s)
  show "length e = length d \<Longrightarrow> e \<noteq> d \<Longrightarrow> os_files s' (part cfg e j) = os_files s (part cfg e j)"
    using part_inj [of cfg e j d 0] by (auto simp: s files_open)
qed

text \<open>A write: the instant, the date and the text. What was logged on a day.\<close>

type_synonym event = "instant \<times> string \<times> string"

definition log_event :: "event \<Rightarrow> dailyWriter \<times> os \<Rightarrow> dailyWriter \<times> os" where
  "log_event ev ws = (case ev of (now, d, p) \<Rightarrow> snd (Write (\<lambda>_. True) None now d p ws))"

definition date_of :: "event \<Rightarrow> string" where
  "date_of ev = fst (snd ev)"

definition logged :: "string \<Rightarrow> event list \<Rightarrow> string" where
  "logged d es = concat (map (\<lambda>ev. snd (snd ev)) (filter (\<lambda>ev. date_of ev = d) es))"

definition log_inv :: "RotateConfig \<Rightarrow> nat \<Rightarrow> string list \<Rightarrow> event list \<Rightarrow> dailyWriter \<Rightarrow> os \<Rightarrow> bool" where
  "log_inv cfg B ds es w s \<longleftrightarrow>
    (\<exists>k. stands cfg (last ds) k w s \<and> parts_ok cfg B s (last ds) k (logged (last ds) es)) \<and>
    (\<forall>d \<in> set ds. day_ok cfg B s d (logged d es)) \<and>
    (\<forall>d j. length d = 10 \<longrightarrow> d \<notin> set ds \<longrightarrow> os_files s (part cfg d j) = None) \<and>
    length (os_open s) = length (remdups_adj ds)"

lemma logged_snoc: "logged d (es @ [(now, e, p)]) = (if d = e then logged d es @ p else logged d es)"
  by (simp add: logged_def date_of_def)

lemma logged_none: "d \<notin> set (map date_of es) \<Longrightarrow> logged d es = []"
  by (auto simp: logged_def filter_empty_conv)

lemma write_new_day:
  "\<not> dw_closed w \<Longrightarrow> d \<noteq> dw_date w \<Longrightarrow> openLocked (\<lambda>_. True) now d (w, s) = (w1, s1) \<Longrightarrow> dw_date w1 = d \<Longrightarrow> \<not> dw_closed w1 \<Longrightarrow>
    Write (\<lambda>_. True) None now d p (w, s) = Write (\<lambda>_. True) None now d p (w1, s1)"
  by (simp add: Write_def)

text \<open>One more write, on the day of the writer or on a new day.\<close>

lemma log_step:
  assumes inv: "log_inv cfg B ds es w s" and cfg: "sane cfg" and ds: "ds \<noteq> []" "\<forall>e \<in> set ds. length e = 10" "set (map date_of es) \<subseteq> set ds"
    and ev: "length d = 10" "length p \<le> B" "d = last ds \<or> d \<notin> set ds"
    and run: "log_event (now, d, p) (w, s) = (w', s')"
  shows "log_inv cfg B (ds @ [d]) (es @ [(now, d, p)]) w' s'"
proof -
  obtain k where k: "stands cfg (last ds) k w s" "parts_ok cfg B s (last ds) k (logged (last ds) es)"
    using inv by (auto simp: log_inv_def)
  note k' = k(1) [unfolded stands_def]
  obtain w1 s1 k1 where start: "stands cfg d k1 w1 s1" "parts_ok cfg B s1 d k1 (logged d es)"
    "Write (\<lambda>_. True) None now d p (w, s) = Write (\<lambda>_. True) None now d p (w1, s1)"
    "\<And>e j. length e = 10 \<Longrightarrow> e \<noteq> d \<Longrightarrow> os_files s1 (part cfg e j) = os_files s (part cfg e j)"
    "length (os_open s1) = (if d = last ds then length (os_open s) else Suc (length (os_open s)))"
  proof (cases "d = last ds")
    case True
    show ?thesis by (rule that [of k w s]) (use k True in simp_all)
  next
    case False
    obtain w1 s1 where o: "openLocked (\<lambda>_. True) now d (w, s) = (w1, s1)" by (rule prod.exhaust)
    have new: "d \<notin> set ds" using ev(3) False by blast
    then have absent: "\<And>j. os_files s (part cfg d j) = None" using inv ev(1) by (simp add: log_inv_def)
    have "logged d es = []" using new ds(3) by (intro logged_none) blast
    with open_stands(2) [OF _ _ absent cfg o] have ok: "parts_ok cfg B s1 d 0 (logged d es)" using k' by simp
    have st: "stands cfg d 0 w1 s1" by (rule open_stands(1) [OF _ _ absent cfg o]) (use k' in simp_all)
    show ?thesis
      by (rule that [OF st ok write_new_day [OF _ _ o]])
        (use k' False st ev(1) open_stands(3,4) [OF _ _ absent cfg o] in \<open>simp_all add: stands_def\<close>)
  qed
  obtain r where w: "Write (\<lambda>_. True) None now d p (w1, s1) = (r, w', s')"
    using run start(3) by (cases "Write (\<lambda>_. True) None now d p (w1, s1)") (simp add: log_event_def)
  note W = write_day [OF start(1,2) cfg ev(2) w]
  have other: "os_files s' (part cfg e j) = os_files s (part cfg e j)" if "length e = 10" "e \<noteq> d" for e j
    using that W start(4) [OF that] ev(1) by auto
  have "\<exists>k. stands cfg d k w' s' \<and> parts_ok cfg B s' d k (logged d es @ p)" using W by blast
  moreover have "day_ok cfg B s' e (logged e es)" if "e \<in> set ds" "e \<noteq> d" for e
    using that inv ds(2) parts_ok_frame [OF other [of e]] by (simp add: log_inv_def day_ok_def)
  moreover have "length (os_open s') = length (remdups_adj (ds @ [d]))"
  proof -
    obtain xs x where x: "ds = xs @ [x]" using ds(1) by (cases ds rule: rev_cases) auto
    show ?thesis using W start(5) inv by (auto simp: x log_inv_def remdups_adj_append_two)
  qed
  moreover have "os_files s' (part cfg e j) = None" if "length e = 10" "e \<notin> set (ds @ [d])" for e j
    using that other [of e j] inv by (simp add: log_inv_def)
  ultimately show ?thesis by (auto simp: log_inv_def logged_snoc day_ok_def)
qed

lemma distinct_days_snoc:
  assumes "distinct (remdups_adj (ds @ [d]))" "ds \<noteq> []"
  shows "distinct (remdups_adj ds) \<and> (d = last ds \<or> d \<notin> set ds)"
proof -
  obtain xs x where x: "ds = xs @ [x]" using assms(2) by (cases ds rule: rev_cases) auto
  have "set (remdups_adj (xs @ [x])) = set ds" by (simp add: x)
  with assms(1) show ?thesis by (auto simp: x remdups_adj_append_two split: if_splits)
qed

lemma log_run:
  assumes "log_inv cfg B [d0] [] w s" "sane cfg" "length d0 = 10" "\<forall>ev \<in> set es. length (date_of ev) = 10 \<and> length (snd (snd ev)) \<le> B"
    and "distinct (remdups_adj (d0 # map date_of es))"
  shows "\<exists>w' s'. fold log_event es (w, s) = (w', s') \<and> log_inv cfg B (d0 # map date_of es) es w' s'"
  using assms(4,5)
proof (induction es rule: rev_induct)
  case (snoc ev es)
  obtain now d p where ev: "ev = (now, d, p)" by (rule prod_cases3)
  have d: "date_of ev = d" by (simp add: ev date_of_def)
  have days: "distinct (remdups_adj (d0 # map date_of es))" "d = last (d0 # map date_of es) \<or> d \<notin> set (d0 # map date_of es)"
    using distinct_days_snoc [of "d0 # map date_of es" d] snoc.prems(2) d by simp_all
  with snoc obtain w1 s1 where run: "fold log_event es (w, s) = (w1, s1)" "log_inv cfg B (d0 # map date_of es) es w1 s1" by auto
  obtain w' s' where step: "log_event (now, d, p) (w1, s1) = (w', s')" by (rule prod.exhaust)
  have "log_inv cfg B ((d0 # map date_of es) @ [d]) (es @ [(now, d, p)]) w' s'"
    by (rule log_step [OF run(2) assms(2) _ _ _ _ _ days(2) step]) (use snoc.prems(1) assms(3) ev d in auto)
  with run(1) step ev d show ?case by simp
qed (use assms(1) in simp)

lemma start_inv:
  assumes "rt_MaxBackup cfg < 2 ^ 31" "\<And>d j. length d = 10 \<Longrightarrow> os_files s (part (norm_config cfg) d j) = None" "os_open s = []" "length d0 = 10"
    and "NewRotateWriter (\<lambda>_. True) now d0 cfg s = (w, s')"
  shows "log_inv (norm_config cfg) B [d0] [] w s'" "sane (norm_config cfg)"
proof -
  show sane: "sane (norm_config cfg)" using assms(1) by (simp add: sane_def norm_config_def)
  have o: "openLocked (\<lambda>_. True) now d0
      (\<lparr>dw_cfg = norm_config cfg, dw_file = None, dw_date = [], dw_size = 0, dw_index = 0, dw_closed = False\<rparr>, s) = (w, s')"
    using assms(5) by (simp add: NewRotateWriter_def)
  note O = open_stands [OF _ _ assms(2) [OF assms(4)] sane o, simplified]
  have "os_files s' (part (norm_config cfg) d j) = None" if "length d = 10" "d \<noteq> d0" for d j
    using O(4) [of d j] that assms(2,4) by simp
  then show "log_inv (norm_config cfg) B [d0] [] w s'"
    using O(1) O(2) [of B] O(3) assms(3) by (auto simp: log_inv_def day_ok_def logged_def)
qed


text \<open>The descriptor of a day is never closed when the next day begins: after \<open>Close\<close> those of all the days but the last are still
  open.\<close>

lemma descriptors_leak:
  assumes "rt_MaxBackup cfg < 2 ^ 31" "\<And>d j. length d = 10 \<Longrightarrow> os_files s (part (norm_config cfg) d j) = None" "os_open s = []" "length d0 = 10"
    and "\<forall>ev \<in> set es. length (date_of ev) = 10" "distinct (remdups_adj (d0 # map date_of es))"
  shows "length (os_open (snd (Close (fold log_event es (NewRotateWriter (\<lambda>_. True) now d0 cfg s))))) =
    length (remdups_adj (d0 # map date_of es)) - 1"
proof -
  obtain w0 s0 where new: "NewRotateWriter (\<lambda>_. True) now d0 cfg s = (w0, s0)" by (rule prod.exhaust)
  obtain B where B: "\<forall>ev \<in> set es. length (snd (snd ev)) \<le> B"
    using finite_imageI [of "set es" "\<lambda>ev. length (snd (snd ev))"] by (meson Max_ge finite_set image_eqI)
  obtain w1 s1 where run: "fold log_event es (w0, s0) = (w1, s1)" "log_inv (norm_config cfg) B (d0 # map date_of es) es w1 s1"
    using log_run [OF start_inv [OF assms(1-4) new] assms(4) _ assms(6)] assms(5) B by blast
  then obtain k where k: "stands (norm_config cfg) (last (d0 # map date_of es)) k w1 s1" "length (os_open s1) = length (remdups_adj (d0 # map date_of es))"
    by (auto simp: log_inv_def)
  then show ?thesis using run(1) new by (simp add: Close_def close_file_def stands_def length_remove1)
qed

text \<open>A writer that starts again counts its files from the first: a full first file sends it on to the second, which it takes
  for empty.\<close>

lemma restart_appends:
  assumes "sane cfg" "norm_config cfg = cfg" "os_files s (part cfg d 0) = Some (c, t)" "rt_MaxSize cfg \<le> int (length c)"
    and "os_files s (part cfg d 1) = Some (c', t')"
    and "log_event (now, d, p) (NewRotateWriter (\<lambda>_. True) now d cfg s) = (w, s')"
  shows "dw_file w = Some (part cfg d 1, True) \<and> dw_size w = 0 \<and> content s' (part cfg d 1) = c'"
proof -
  have p: "day_path cfg d = part cfg d 0" "part_path cfg d 1 = part cfg d 1" by (simp_all add: part_def)
  have mb: "i32 (rt_MaxBackup cfg) = rt_MaxBackup cfg" "i32 1 = 1" using assms(1) by (simp_all add: sane_def i32_id)
  have ne: "part cfg d 1 \<noteq> part cfg d 0" by (auto dest: part_inj)
  have "content s (part cfg d 0) = c" "content s (part cfg d 1) = c'" using assms(3,5) by (simp_all add: content_def)
  with assms ne mb p show ?thesis
    by (auto simp: log_event_def NewRotateWriter_def openLocked_def Write_def rotateLocked_def Let_def content_append sane_def)
qed




end
