(* ===== verification/MigrateApi.thy ===== *)
theory MigrateApi
  imports Backup ApiCodes
begin

text \<open>
  The migration module, src/internal/modules/migrate/module.go: its initialisation from the connected databases and the handlers
  of its routes over the adapters, the schema migrator, dumps, transfers and backups.

  The world is what the handlers change: the databases of the two pools \<open>main\<close>, the files, the directories of migrations. A body is given by
  what \<open>ShouldBindJSON\<close> makes of it, \<^const>\<open>None\<close> where that is an error. A condition of a dump is SQL text; the engine says what it means,
  \<^const>\<open>None\<close> where it refuses it. Which entries a directory has is asked of the operating system, a function of the files. Messages are left out of
  the answers. A handler that never answers has the value \<^const>\<open>None\<close>.
\<close>

section \<open>The module and its world\<close>

record pools =
  pl_MySQL :: "engine option"
  pl_Postgres :: "engine option"

record Module =
  md_adapter :: "engine option"
  md_migrator :: "SchemaMigrator option"
  md_migrateDir :: string

record world =
  wd_mysql :: db
  wd_postgres :: db
  wd_disk :: disk
  wd_dirs :: "string \<Rightarrow> dir"

record api_env =
  ae_env :: env
  ae_where :: "string \<Rightarrow> (row \<Rightarrow> bool) option"
  ae_csv :: "string \<Rightarrow> string list list option"
  ae_ls :: "disk \<Rightarrow> string \<Rightarrow> (string \<times> bool \<times> bytes) list option"
  ae_header :: "int \<Rightarrow> string \<Rightarrow> string"
  ae_checksum :: "string \<Rightarrow> string"

definition NewMySQLAdapter :: "engine \<Rightarrow> engine" where "NewMySQLAdapter E = E\<lparr>en_kind := MySQL\<rparr>"
definition NewPostgresAdapter :: "engine \<Rightarrow> engine" where "NewPostgresAdapter E = E\<lparr>en_kind := Postgres\<rparr>"

definition database_of :: "DBType \<Rightarrow> world \<Rightarrow> db" where
  "database_of k w = (case k of MySQL \<Rightarrow> wd_mysql w | Postgres \<Rightarrow> wd_postgres w)"

definition set_database :: "DBType \<Rightarrow> db \<Rightarrow> world \<Rightarrow> world" where
  "set_database k d w = (case k of MySQL \<Rightarrow> w\<lparr>wd_mysql := d\<rparr> | Postgres \<Rightarrow> w\<lparr>wd_postgres := d\<rparr>)"

text \<open>The error of \<open>migrator.Init\<close> is ignored.\<close>

definition module_Init :: "api_env \<Rightarrow> pools \<Rightarrow> world \<Rightarrow> Module \<times> world" where
  "module_Init A p w =
    (let (adapter, dir) = (case (pl_MySQL p, pl_Postgres p) of
           (Some E, _) \<Rightarrow> (Some (NewMySQLAdapter E), ''migrations/mysql'')
         | (None, Some E) \<Rightarrow> (Some (NewPostgresAdapter E), ''migrations/postgres'')
         | (None, None) \<Rightarrow> (None, []))
     in (case adapter of
           None \<Rightarrow> (\<lparr>md_adapter = None, md_migrator = None, md_migrateDir = dir\<rparr>, w)
         | Some E \<Rightarrow>
             let m = \<lparr>sm_adapter = E, sm_checksum = ae_checksum A, sm_fmt = ev_fmt (ae_env A)\<rparr>
             in (\<lparr>md_adapter = Some E, md_migrator = Some m, md_migrateDir = dir\<rparr>,
                 set_database (en_kind E) (snd (Init m (database_of (en_kind E) w))) w)))"

section \<open>Requests and answers\<close>




record BackupReq =
  bq_Tables :: "string list"
  bq_CompressAlgo :: string
  bq_EncryptKey :: string
  bq_OutputDir :: string











section \<open>Tables, dumps and uploads\<close>







section \<open>Transfers\<close>







section \<open>Backups\<close>

definition backup_options :: "BackupReq \<Rightarrow> BackupOptions" where
  "backup_options req = \<lparr>bo_Tables = bq_Tables req, bo_CompressAlgo = bq_CompressAlgo req, bo_EncryptKey = bq_EncryptKey req,
     bo_OutputDir = bq_OutputDir req, bo_Filename = []\<rparr>"






section \<open>Schema migrations\<close>





section \<open>Routes\<close>





section \<open>A transfer of a database to itself\<close>



























section \<open>What the routes change\<close>

lemma database_of_set [simp]:
  "database_of k (set_database j d w) = (if k = j then d else database_of k w)"
  "wd_disk (set_database j d w) = wd_disk w" "wd_dirs (set_database j d w) = wd_dirs w"
  by (cases k; cases j; simp add: database_of_def set_database_def)+

lemma database_of_other [simp]:
  "database_of k (w\<lparr>wd_disk := fs\<rparr>) = database_of k w" "database_of k (w\<lparr>wd_dirs := ds\<rparr>) = database_of k w"
  by (cases k; simp add: database_of_def)+








section \<open>Backups over the routes\<close>

text \<open>The file of a backup has the second of its creation in its name: a second backup of the same second, in the same directory with the same
  compression, replaces the first one, and both are answered as successes.\<close>

lemma same_second_same_file:
  assumes "ev_stamp V now = ev_stamp V now'" "bq_CompressAlgo req = bq_CompressAlgo req'" "bq_OutputDir req = bq_OutputDir req'"
  shows "backup_path V now E (backup_options req) = backup_path V now' E (backup_options req')"
  using assms by (simp add: backup_path_def backup_filename_def output_path_def backup_options_def)









end
