(* ===== verification/SchedulerApi.thy ===== *)
theory SchedulerApi
  imports Scheduler GoStd ApiCodes
begin

text \<open>
  The scheduler module, src/internal/services/scheduler/module.go, with the registry of handlers of task.go and builtin.go: initialisation without a
  database, and the handlers of the routes over the scheduler.

  The registered handlers are a list of names in the order in which the map is iterated. A body is given by the task that it decodes to,
  \<^const>\<open>None\<close> where that is an error. Messages are left out of the answers. Goroutines that a request starts are runs of the history.
\<close>

section \<open>Handlers\<close>

definition RegisterHandler :: "string \<Rightarrow> string list \<Rightarrow> string list" where
  "RegisterHandler name hs = (if name \<in> set hs then hs else hs @ [name])"

definition GetHandler :: "string list \<Rightarrow> string \<Rightarrow> bool" where
  "GetHandler hs name \<longleftrightarrow> name \<in> set hs"

definition RegisterBuiltins :: "string list \<Rightarrow> string list" where
  "RegisterBuiltins hs = RegisterHandler ''cleanup_log'' (RegisterHandler ''health_check'' hs)"

text \<open>The clean-up of the logs computes the instant before which they would go, and prints it. It has no access to the store.\<close>

definition CleanupLog_Execute :: "bool \<Rightarrow> int option option \<Rightarrow> (int \<Rightarrow> instant) \<Rightarrow> string option \<times> instant option" where
  "CleanupLog_Execute ctx_done cfg days_ago =
    (if ctx_done then (Some ''context done'', None)
     else
       let retentionDays = (case cfg of Some (Some n) \<Rightarrow> if n > 0 then n else 30 | _ \<Rightarrow> 30)
       in (None, Some (days_ago retentionDays)))"

definition HealthCheck_Execute :: "bool \<Rightarrow> string option" where
  "HealthCheck_Execute ctx_done = (if ctx_done then Some ''context done'' else None)"

section \<open>The module\<close>

record SchedulerCfg =
  sg_Enabled :: bool
  sg_WorkerConcurrency :: int
  sg_DefaultTimeout :: int
  sg_DefaultMaxRetries :: int
  sg_LogRetentionDays :: int

text \<open>Without the MySQL pool \<open>main\<close> the tasks are kept in memory and there is no queue. \<open>Enabled\<close> is not looked at.\<close>

definition module_Init :: "env \<Rightarrow> instant \<Rightarrow> SchedulerCfg \<Rightarrow> Scheduler" where
  "module_Init E now sc = snd (Start E True now (NewScheduler NewInMemoryStore (sg_DefaultTimeout sc) (sg_DefaultMaxRetries sc) False))"

definition module_Close :: "Scheduler \<Rightarrow> Scheduler" where
  "module_Close s = Stop s"

section \<open>Requests and answers\<close>

datatype data = NoData | ATask "Task option" | Tasks "Task list" | Logs "TaskLog list" | Handlers "string list"

record answer =
  an_Status :: int
  an_Code :: int
  an_Data :: data

definition Success :: "data \<Rightarrow> answer" where
  "Success d = \<lparr>an_Status = 200, an_Code = CodeSuccess, an_Data = d\<rparr>"

definition Fail :: "int \<Rightarrow> answer" where
  "Fail code = \<lparr>an_Status = CodeHTTPStatus code, an_Code = code, an_Data = NoData\<rparr>"

record request =
  rq_now :: instant
  rq_env :: env
  rq_handlers :: "string list"
  rq_id :: string
  rq_task :: "Task option"

type_synonym handler = "request \<Rightarrow> Scheduler \<Rightarrow> answer \<times> Scheduler"

text \<open>The scheduler asks the same registry of handlers.\<close>

definition env_of :: "request \<Rightarrow> env" where
  "env_of rq = (rq_env rq)\<lparr>env_handler := GetHandler (rq_handlers rq)\<rparr>"

text \<open>\<open>strconv.ParseUint(s, 10, 64)\<close>.\<close>

definition ParseUint :: "string \<Rightarrow> nat option" where
  "ParseUint s = (if s = [] then None
     else case digits_val 0 s of None \<Rightarrow> None | Some n \<Rightarrow> if n < 2 ^ 64 then Some n else None)"

definition with_id :: "(nat \<Rightarrow> handler) \<Rightarrow> handler" where
  "with_id h rq s = (case ParseUint (rq_id rq) of None \<Rightarrow> (Fail CodeParamErr, s) | Some i \<Rightarrow> h i rq s)"

definition get_task :: "nat \<Rightarrow> Scheduler \<Rightarrow> Task option" where
  "get_task i s = (case store_GetTask i (sc_store s) of Inl e \<Rightarrow> None | Inr t \<Rightarrow> Some t)"

section \<open>The handlers of the routes\<close>

definition listTasks :: handler where
  "listTasks rq s = (Success (Tasks (store_ListTasks (sc_store s))), s)"

text \<open>The identifier of the task is the number that the store has given last.\<close>

definition createTask :: handler where
  "createTask rq s =
    (case rq_task rq of
       None \<Rightarrow> (Fail CodeParamErr, s)
     | Some t \<Rightarrow>
         if tk_Name t = [] then (Fail CodeParamErr, s)
         else if tk_Handler t = [] then (Fail CodeParamErr, s)
         else if \<not> GetHandler (rq_handlers rq) (tk_Handler t) then (Fail CodeParamErr, s)
         else (case AddTask (env_of rq) (rq_now rq) t s of
           (Some e, s') \<Rightarrow> (Fail CodeConflict, s')
         | (None, s') \<Rightarrow> (Success (ATask (get_task (ts_taskSeq (sc_store s')) s')), s')))"

definition getTask :: handler where
  "getTask = with_id (\<lambda>i rq s. (case get_task i s of None \<Rightarrow> Fail CodeNotFound | Some t \<Rightarrow> Success (ATask (Some t)), s))"

definition updateTask :: handler where
  "updateTask = with_id (\<lambda>i rq s.
    (case rq_task rq of
       None \<Rightarrow> (Fail CodeParamErr, s)
     | Some t \<Rightarrow> (case UpdateTask (env_of rq) (rq_now rq) (t\<lparr>tk_ID := i\<rparr>) s of
         (Some e, s') \<Rightarrow> (Fail CodeNotFound, s')
       | (None, s') \<Rightarrow> (Success (ATask (get_task i s')), s'))))"

definition deleteTask :: handler where
  "deleteTask = with_id (\<lambda>i rq s. (case DeleteTask i s of
     (Some e, s') \<Rightarrow> (Fail CodeNotFound, s') | (None, s') \<Rightarrow> (Success NoData, s')))"

definition pauseTask :: handler where
  "pauseTask = with_id (\<lambda>i rq s. (case PauseTask (rq_now rq) i s of
     (Some e, s') \<Rightarrow> (Fail CodeNotFound, s') | (None, s') \<Rightarrow> (Success (ATask (get_task i s')), s')))"

definition resumeTask :: handler where
  "resumeTask = with_id (\<lambda>i rq s. (case ResumeTask (env_of rq) (rq_now rq) i s of
     (Some e, s') \<Rightarrow> (Fail CodeNotFound, s') | (None, s') \<Rightarrow> (Success (ATask (get_task i s')), s')))"

definition runTaskNow :: handler where
  "runTaskNow = with_id (\<lambda>i rq s. (case RunTaskNow (env_of rq) (rq_now rq) i s of
     (Some e, l, s') \<Rightarrow> (Fail CodeNotFound, s') | (None, l, s') \<Rightarrow> (Success NoData, s')))"

definition taskLogs :: handler where
  "taskLogs = with_id (\<lambda>i rq s. (Success (Logs (store_TaskLogs i (sc_store s))), s))"

definition listHandlers :: handler where
  "listHandlers rq s = (Success (Handlers (rq_handlers rq)), s)"

section \<open>Routes and histories\<close>

definition routes :: "(string \<times> string list \<times> handler) list" where
  "routes =
    [(''GET'', [''tasks''], listTasks), (''POST'', [''tasks''], createTask), (''GET'', [''tasks'', '':id''], getTask),
     (''PUT'', [''tasks'', '':id''], updateTask), (''DELETE'', [''tasks'', '':id''], deleteTask),
     (''POST'', [''tasks'', '':id'', ''pause''], pauseTask), (''POST'', [''tasks'', '':id'', ''resume''], resumeTask),
     (''POST'', [''tasks'', '':id'', ''run''], runTaskNow), (''GET'', [''tasks'', '':id'', ''logs''], taskLogs),
     (''GET'', [''handlers''], listHandlers)]"

definition matches :: "string list \<Rightarrow> string list \<Rightarrow> bool" where
  "matches pattern path \<longleftrightarrow> list_all2 (\<lambda>p s. if p = '':id'' then s \<noteq> [] else p = s) pattern path"

definition path_id :: "string list \<Rightarrow> string" where
  "path_id path = (case path of p # s # ss \<Rightarrow> s | _ \<Rightarrow> [])"

definition serve :: "string \<Rightarrow> string list \<Rightarrow> request \<Rightarrow> Scheduler \<Rightarrow> (answer \<times> Scheduler) option" where
  "serve meth path rq s =
    (case find (\<lambda>(m, pattern, h). m = meth \<and> matches pattern path) routes of
       None \<Rightarrow> None
     | Some (m, pattern, h) \<Rightarrow> Some (h (rq\<lparr>rq_id := path_id path\<rparr>) s))"

text \<open>What happens to the module: requests, and the two halves of the runs of tasks.\<close>

datatype event =
    Request string "string list" request
  | RunBegins env instant Task
  | RunEnds instant "string option" TaskLog

fun api_step :: "event \<Rightarrow> Scheduler \<Rightarrow> Scheduler" where
  "api_step (Request meth path rq) s = (case serve meth path rq s of None \<Rightarrow> s | Some (a, s') \<Rightarrow> s')"
| "api_step (RunBegins E now t) s = snd (execute_begin E now t s)"
| "api_step (RunEnds now err l) s = execute_end now err l s"

definition api_run :: "event list \<Rightarrow> Scheduler \<Rightarrow> Scheduler" where
  "api_run es s = fold api_step es s"

text \<open>A request to pause or to resume.\<close>

fun pauses :: "event \<Rightarrow> bool" where
  "pauses (Request meth path rq) \<longleftrightarrow> (\<exists>i. path \<in> {[''tasks'', i, ''pause''], [''tasks'', i, ''resume'']})"
| "pauses e \<longleftrightarrow> False"

section \<open>The schedule follows the store\<close>

lemma route_simps:
  "matches [] path \<longleftrightarrow> path = []"
  "matches (p # ps) path \<longleftrightarrow> (\<exists>s ss. path = s # ss \<and> (if p = '':id'' then s \<noteq> [] else p = s) \<and> matches ps ss)"
  by (auto simp: matches_def list_all2_Cons1)

lemma route_cases:
  assumes "serve meth path rq s = Some r"
  obtains
    (plain) h where "h \<in> {listTasks, createTask, getTask, updateTask, deleteTask, runTaskNow, taskLogs, listHandlers}"
      "r = h (rq\<lparr>rq_id := path_id path\<rparr>) s"
  | (pause) i where "path = [''tasks'', i, ''pause'']"
  | (resume) i where "path = [''tasks'', i, ''resume'']"
  using assms unfolding serve_def routes_def
  by (auto simp: route_simps path_id_def split: if_splits intro: that)

lemma RunTaskNow_current: "current s \<Longrightarrow> current (snd (snd (RunTaskNow E now i s)))"
  using begin_current by (auto simp: RunTaskNow_def split: sum.split)

definition keeps_handler :: "handler \<Rightarrow> bool" where
  "keeps_handler h \<longleftrightarrow> (\<forall>rq s. current s \<longrightarrow> current (snd (h rq s)))"

lemma keeps_with_id: "(\<And>i. keeps_handler (h i)) \<Longrightarrow> keeps_handler (with_id h)"
  by (simp add: keeps_handler_def with_id_def split: option.split)

lemma keeps_reads: "keeps_handler listTasks" "keeps_handler getTask" "keeps_handler taskLogs" "keeps_handler listHandlers"
  by (simp_all add: keeps_handler_def listTasks_def getTask_def taskLogs_def listHandlers_def with_id_def split: option.split)

lemma keeps_case:
  "current (snd r) \<Longrightarrow> current (snd (case r of (Some e, s') \<Rightarrow> (a e s', s') | (None, s') \<Rightarrow> (b s', s')))"
  by (cases r) (simp split: option.split)

lemma keeps_case3:
  "current (snd (snd r)) \<Longrightarrow> current (snd (case r of (Some e, l, s') \<Rightarrow> (a e l s', s') | (None, l, s') \<Rightarrow> (b l s', s')))"
  by (cases r) (simp split: option.split)

lemma keeps_createTask: "keeps_handler createTask"
  by (auto simp: keeps_handler_def createTask_def intro!: keeps_case AddTask_current split: option.split)

lemma keeps_writes: "keeps_handler updateTask" "keeps_handler deleteTask" "keeps_handler runTaskNow"
  unfolding updateTask_def deleteTask_def runTaskNow_def
  by (intro keeps_with_id; auto simp: keeps_handler_def intro!: keeps_case keeps_case3 UpdateTask_current DeleteTask_current
      RunTaskNow_current split: option.split)+

lemma plain_current:
  assumes "h \<in> {listTasks, createTask, getTask, updateTask, deleteTask, runTaskNow, taskLogs, listHandlers}" "current s"
  shows "current (snd (h rq s))"
proof -
  have "keeps_handler h" using assms(1) keeps_reads keeps_createTask keeps_writes by blast
  with assms(2) show ?thesis by (simp add: keeps_handler_def)
qed

lemma api_step_current: "current s \<Longrightarrow> \<not> pauses e \<Longrightarrow> current (api_step e s)"
proof (cases e)
  case (Request meth path rq)
  assume s: "current s" "\<not> pauses e"
  show ?thesis
  proof (cases "serve meth path rq s")
    case (Some r)
    then show ?thesis
    proof (cases rule: route_cases)
      case (plain h)
      from plain_current [OF plain(1) s(1)] have "current (snd r)" unfolding plain(2) .
      with Some Request show ?thesis by (cases r) simp
    qed (use s Request in auto)
  qed (use s Request in simp)
qed (simp_all add: begin_current end_current)

lemma api_run_current: "current s \<Longrightarrow> \<forall>e \<in> set es. \<not> pauses e \<Longrightarrow> current (api_run es s)"
  unfolding api_run_def by (induction es arbitrary: s) (simp_all add: api_step_current)

lemma module_Init_current: "current (module_Init E now sc)"
proof -
  let ?s = "NewScheduler NewInMemoryStore (sg_DefaultTimeout sc) (sg_DefaultMaxRetries sc) False"
  have "Start E True now ?s = (True, module_Init E now sc)" by (simp add: module_Init_def Start_def NewScheduler_def)
  with Start_current [of ?s E True now] show ?thesis by (simp add: NewScheduler_def NewInMemoryStore_def tasks.ids_ok_def)
qed

text \<open>C10: The schedule follows the store. From the start of the module, whatever requests come (valid or not, with any handlers and expressions)
  and whatever tasks run, as long as nothing is paused or resumed: every cron entry belongs to a task that the store
  holds now and that is active, the closure of the entry holds that very record (up to its own next-run field), \<open>cronJobs\<close> knows the
  entry, and no task has two entries.\<close>

theorem api_schedule_follows_store:
  assumes "\<forall>e \<in> set es. \<not> pauses e" "s = api_run es (module_Init E0 now sc)" "e \<in> set (entries s)"
  shows "(\<exists>t \<in> set (ts_tasks (sc_store s)). tk_Status t = TaskStatusActive \<and> ce_task e = t\<lparr>tk_NextRunAt := tk_NextRunAt (ce_task e)\<rparr>)
    \<and> sc_cronJobs s (tk_ID (ce_task e)) = Some (ce_id e)
    \<and> (\<forall>e' \<in> set (entries s). tk_ID (ce_task e') = tk_ID (ce_task e) \<longrightarrow> e' = e)"
proof -
  have c: "current s" using api_run_current [OF module_Init_current assms(1)] assms(2) by simp
  then have d: "distinct (map ce_id (entries s))" by (simp add: current_def jobs_ok_def)
  from c assms(3) show ?thesis by (auto simp: current_def stored_def) (metis d distinct_map_eq option.inject)
qed

section \<open>Refused and stored\<close>

text \<open>C11: A task that is refused is stored all the same. \<open>POST /tasks\<close> with a new name, a registered handler and an expression or a type that the scheduler
  does not accept is answered with 409, but the task is in the store, active and without an entry. Every later attempt with the same name
  and a better expression is answered with 409 too, and changes nothing.\<close>

theorem refused_task_is_stored:
  assumes "rq_task rq = Some t" "tk_Name t \<noteq> []" "tk_Handler t \<noteq> []" "tk_Handler t \<in> set (rq_handlers rq)"
    and new: "tk_Name t \<notin> tk_Name ` set (ts_tasks (sc_store s))" "tk_Status t \<in> {[], TaskStatusActive}"
    and running: "current s" "sc_cron s \<noteq> None"
    and bad: "\<not> (tk_Type t = TaskTypeCron \<and> env_cron_ok (rq_env rq) (tk_Expression t))"
      "\<not> (tk_Type t = TaskTypeInterval \<and> env_duration (rq_env rq) (tk_Expression t) \<noteq> None)" "tk_Type t \<noteq> TaskTypeOnce"
    and again: "rq_task rq' = Some t'" "tk_Name t' = tk_Name t" "tk_Handler t' \<in> set (rq_handlers rq')" "tk_Handler t' \<noteq> []"
  shows "\<exists>s1 t1. serve ''POST'' [''tasks''] rq s = Some (Fail CodeConflict, s1) \<and> an_Status (Fail CodeConflict) = 409
    \<and> ts_tasks (sc_store s1) = ts_tasks (sc_store s) @ [t1] \<and> tk_Name t1 = tk_Name t \<and> tk_Status t1 = TaskStatusActive
    \<and> \<not> has_entry s1 (tk_ID t1) \<and> serve ''POST'' [''tasks''] rq' s1 = Some (Fail CodeConflict, s1)"
proof -
  have find: "find (\<lambda>e. tk_Name e = tk_Name t) (ts_tasks (sc_store s)) = None" using new(1) by (force simp: find_None_iff image_iff)
  then obtain t1 st where st: "store_CreateTask (rq_now rq) t (sc_store s) = Inr (t1, st)" "ts_tasks st = ts_tasks (sc_store s) @ [t1]"
    and t1: "tk_Name t1 = tk_Name t" "tk_Status t1 = TaskStatusActive" "tk_Handler t1 = tk_Handler t" "tk_Type t1 = tk_Type t"
      "tk_Expression t1 = tk_Expression t" "tk_ID t1 = Suc (ts_taskSeq (sc_store s))"
    using new(2) by (auto simp: store_CreateTask_def Let_def)
  let ?s1 = "s\<lparr>sc_store := st\<rparr>"
  have "fst (scheduleTask (env_of rq) (rq_now rq) t1 ?s1) \<noteq> None" "snd (scheduleTask (env_of rq) (rq_now rq) t1 ?s1) = ?s1"
    using bad t1 by (auto simp: scheduleTask_def env_of_def split: option.split)
  then obtain e where "AddTask (env_of rq) (rq_now rq) t s = (Some e, ?s1)"
    using st(1) t1(2) running(2) by (cases "scheduleTask (env_of rq) (rq_now rq) t1 ?s1") (auto simp: AddTask_def schedule_if_running_def)
  moreover have "env_of (rq\<lparr>rq_id := i\<rparr>) = env_of rq" for i by (simp add: env_of_def)
  moreover have serve: "serve ''POST'' [''tasks''] r x = Some (createTask (r\<lparr>rq_id := []\<rparr>) x)" for r x
    by (simp add: serve_def routes_def matches_def path_id_def)
  ultimately have "serve ''POST'' [''tasks''] rq s = Some (Fail CodeConflict, ?s1)"
    using assms(1-4) by (simp add: createTask_def GetHandler_def)
  moreover have "AddTask E now t' ?s1 = (Some (TaskExists (tk_Name t')), ?s1)" for E now
    using find st(2) t1(1) again(2) by (simp add: AddTask_def store_CreateTask_def find_append)
  then have "serve ''POST'' [''tasks''] rq' ?s1 = Some (Fail CodeConflict, ?s1)"
    using again assms(2) by (simp add: serve createTask_def GetHandler_def)
  moreover have "Suc (ts_taskSeq (sc_store s)) \<notin> tk_ID ` set (ts_tasks (sc_store s))"
    using running(1) by (fastforce simp: current_def tasks.ids_ok_def)
  then have "\<not> has_entry ?s1 (tk_ID t1)" using has_entry_stored [OF running(1), of "tk_ID t1"] t1(6) by (auto simp: has_entry_def)
  ultimately show ?thesis using st(2) t1 by (auto simp: Fail_def CodeHTTPStatus_def CodeConflict_def)
qed

text \<open>A \<open>PUT\<close> with an expression or a type that the scheduler does not accept is answered with 404. The task is there, with the new values and active,
  and has lost its entry.\<close>

lemma refused_update_unschedules:
  assumes "current s" "sc_cron s \<noteq> None" "store_GetTask i (sc_store s) = Inr t0" "ParseUint (rq_id rq) = Some i" "rq_task rq = Some t"
    and "tk_Type t \<noteq> []" "tk_Type t \<notin> {TaskTypeCron, TaskTypeInterval, TaskTypeOnce}" "tk_Status t = TaskStatusActive"
  shows "\<exists>s1 t1. updateTask rq s = (Fail CodeNotFound, s1) \<and> store_GetTask i (sc_store s1) = Inr t1
    \<and> tk_Type t1 = tk_Type t \<and> tk_Status t1 = TaskStatusActive \<and> \<not> has_entry s1 i"
proof -
  let ?s = "unschedule i s" and ?m = "merge_fields (t\<lparr>tk_ID := i\<rparr>) t0"
  have i: "find (\<lambda>e. tk_ID e = i) (ts_tasks (sc_store s)) = Some t0" "tk_ID t0 = i"
    using assms(3) GetTask_in [OF assms(3)] by (auto simp: store_GetTask_def split: option.splits)
  let ?t1 = "merge_stored (rq_now rq) ?m t0"
  let ?st = "(sc_store s)\<lparr>ts_tasks := update_first (\<lambda>e. tk_ID e = i) (merge_stored (rq_now rq) ?m) (ts_tasks (sc_store s))\<rparr>"
  have m: "tk_ID ?m = i" using i(2) by (simp add: merge_fields_def)
  have t1: "tk_ID ?t1 = i" "tk_Type ?t1 = tk_Type t" "tk_Status ?t1 = TaskStatusActive"
    using assms(6,8) i(2) by (simp_all add: merge_stored_def merge_fields_def over_string_def TaskStatusActive_def)
  have "store_UpdateTask (rq_now rq) ?m (sc_store ?s) = Inr (?t1, ?st)" using i m by (simp add: store_UpdateTask_def)
  moreover have "sc_cron (?s\<lparr>sc_store := ?st\<rparr>) \<noteq> None" using assms(2) by (auto simp: unschedule_def split: option.split)
  moreover have "fst (scheduleTask (env_of rq) (rq_now rq) ?t1 (?s\<lparr>sc_store := ?st\<rparr>)) \<noteq> None"
    "snd (scheduleTask (env_of rq) (rq_now rq) ?t1 (?s\<lparr>sc_store := ?st\<rparr>)) = ?s\<lparr>sc_store := ?st\<rparr>"
    using assms(7) t1(2) by (auto simp: scheduleTask_def)
  ultimately obtain e where "UpdateTask (env_of rq) (rq_now rq) (t\<lparr>tk_ID := i\<rparr>) s = (Some e, ?s\<lparr>sc_store := ?st\<rparr>)"
    using assms(3) t1(3) by (cases "scheduleTask (env_of rq) (rq_now rq) ?t1 (?s\<lparr>sc_store := ?st\<rparr>)")
      (auto simp: UpdateTask_def schedule_if_running_def Let_def)
  then have "updateTask rq s = (Fail CodeNotFound, ?s\<lparr>sc_store := ?st\<rparr>)" using assms(4,5) by (simp add: updateTask_def with_id_def)
  moreover have "find (\<lambda>e. tk_ID e = i) (ts_tasks ?st) = Some ?t1" using i(1) t1(1) by (simp add: find_update_first_same)
  moreover have "\<not> has_entry (?s\<lparr>sc_store := ?st\<rparr>) i" using unschedule_current(2) [OF assms(1)] by (simp add: has_entry_def)
  ultimately show ?thesis using t1 by (auto simp: store_GetTask_def)
qed

section \<open>Examples\<close>

definition demo_cfg :: SchedulerCfg where
  "demo_cfg = \<lparr>sg_Enabled = False, sg_WorkerConcurrency = 0, sg_DefaultTimeout = 0, sg_DefaultMaxRetries = 0, sg_LogRetentionDays = 0\<rparr>"

definition demo_post :: "bool \<Rightarrow> request" where
  "demo_post ok = \<lparr>rq_now = 2, rq_env = demo_env\<lparr>env_cron_ok := (\<lambda>_. ok)\<rparr>, rq_handlers = RegisterBuiltins [''h''], rq_id = [],
     rq_task = Some demo_task\<rparr>"

lemma demo_api_entry:
  "map (\<lambda>e. tk_Name (ce_task e)) (entries (api_run [Request ''POST'' [''tasks''] (demo_post True)] (module_Init demo_env 1 demo_cfg))) = [''t'']"
  by code_simp

lemma api_schedule_follows_store_witness:
  "\<exists>e \<in> set (entries (api_run [Request ''POST'' [''tasks''] (demo_post True)] (module_Init demo_env 1 demo_cfg))).
    \<exists>t \<in> set (ts_tasks (sc_store (api_run [Request ''POST'' [''tasks''] (demo_post True)] (module_Init demo_env 1 demo_cfg)))).
      ce_task e = t\<lparr>tk_NextRunAt := tk_NextRunAt (ce_task e)\<rparr>"
proof -
  let ?es = "[Request ''POST'' [''tasks''] (demo_post True)]"
  obtain e where e: "e \<in> set (entries (api_run ?es (module_Init demo_env 1 demo_cfg)))" using demo_api_entry by (auto simp: map_eq_Cons_conv)
  from api_schedule_follows_store [of ?es, OF _ refl e] e show ?thesis by auto
qed

lemma refused_task_is_stored_witness:
  "\<exists>s1 t1. serve ''POST'' [''tasks''] (demo_post False) (module_Init demo_env 1 demo_cfg) = Some (Fail CodeConflict, s1)
    \<and> ts_tasks (sc_store s1) = [t1] \<and> tk_Name t1 = ''t'' \<and> serve ''POST'' [''tasks''] (demo_post True) s1 = Some (Fail CodeConflict, s1)"
proof -
  let ?s = "module_Init demo_env 1 demo_cfg"
  have s: "ts_tasks (sc_store ?s) = []" "sc_cron ?s \<noteq> None"
    by (simp_all add: module_Init_def Start_def NewScheduler_def NewInMemoryStore_def schedule_all_def store_ListActiveTasks_def)
  have t: "tk_Name demo_task = ''t''" "tk_Handler demo_task = ''h''" "tk_Status demo_task = []" "tk_Type demo_task = TaskTypeCron"
    by (simp_all add: demo_task_def TaskTypeCron_def)
  have h: "''h'' \<in> set (rq_handlers (demo_post ok))" "rq_task (demo_post ok) = Some demo_task" "env_cron_ok (rq_env (demo_post ok)) x = ok" for ok x
    by (simp_all add: demo_post_def RegisterBuiltins_def RegisterHandler_def)
  have c: "TaskTypeCron \<noteq> TaskTypeOnce" "TaskTypeCron \<noteq> TaskTypeInterval" by (simp_all add: task_consts)
  show ?thesis
    using refused_task_is_stored [where s = ?s and rq = "demo_post False" and rq' = "demo_post True" and t = demo_task and t' = demo_task]
      module_Init_current [of demo_env 1 demo_cfg] s t h c by auto
qed

end
