(* ===== verification/TaskQueue.thy ===== *)
theory TaskQueue
  imports Scheduler
begin

text \<open>
  The task queue, src/internal/services/scheduler/asynq_handler.go: with Redis the scheduler hands a task over to the library asynq, whose server
  calls \<open>ProcessTask\<close>.

  The library is seen through its broker, a list of tasks with the names of their queues, and through the queues that a server
  takes tasks from, a function of its configuration. JSON of a payload is read back as it was written. \<open>ProcessTask\<close> is its two halves around
  \<open>handler.Execute\<close>.
\<close>

section \<open>Payloads and options\<close>

record asynqPayload =
  ap_TaskID :: nat
  ap_HandlerName :: string
  ap_Payload :: "string option"

record asynqTask =
  at_Type :: string
  at_Payload :: asynqPayload
  at_Queue :: string
  at_MaxRetry :: int
  at_Timeout :: duration

record asynqConfig =
  as_Concurrency :: int
  as_Queues :: "(string \<times> int) list"
  as_RetryDelay :: "nat \<Rightarrow> duration"

definition taskQueue :: string where "taskQueue = ''scheduler:tasks''"

text \<open>The shift of \<open>1 << uint(n)\<close> drops what does not fit into 64 bits, and so does the product.\<close>

definition RetryDelayFunc :: "nat \<Rightarrow> duration" where
  "RetryDelayFunc n = i64 (i64 (2 ^ n) * 100000000)"

definition newAsynqServer :: "int \<Rightarrow> asynqConfig" where
  "newAsynqServer concurrency = \<lparr>as_Concurrency = concurrency, as_Queues = [], as_RetryDelay = RetryDelayFunc\<rparr>"

definition enqueueTask :: "Task \<Rightarrow> int \<Rightarrow> asynqTask" where
  "enqueueTask t timeout =
    \<lparr>at_Type = ''scheduler:execute'', at_Payload = \<lparr>ap_TaskID = tk_ID t, ap_HandlerName = tk_Handler t, ap_Payload = tk_Payload t\<rparr>,
     at_Queue = taskQueue, at_MaxRetry = tk_MaxRetries t, at_Timeout = i64 (timeout * 1000000000)\<rparr>"

section \<open>Processing\<close>

text \<open>Without a registered handler the task is not tried again.\<close>

definition process_begin :: "(string \<Rightarrow> bool) \<Rightarrow> instant \<Rightarrow> asynqPayload \<Rightarrow> InMemoryStore \<Rightarrow> TaskLog option \<times> InMemoryStore" where
  "process_begin handler now p st =
    (if \<not> handler (ap_HandlerName p) then (None, st)
     else case store_CreateTaskLog now
            \<lparr>tl_ID = 0, tl_TaskID = ap_TaskID p, tl_TaskName = ap_HandlerName p, tl_Status = TaskLogRunning,
             tl_StartedAt = now, tl_EndedAt = None, tl_Result = None, tl_Error = [], tl_CreatedAt = 0\<rparr> st of
            (l, st') \<Rightarrow> (Some l, st'))"

definition process_end :: "instant \<Rightarrow> string option \<Rightarrow> TaskLog \<Rightarrow> InMemoryStore \<Rightarrow> InMemoryStore" where
  "process_end now err l st = store_UpdateTaskLog (end_log now err l) st"

definition SetupAsynqMux :: "string \<Rightarrow> bool" where
  "SetupAsynqMux type \<longleftrightarrow> type = ''scheduler:execute''"

section \<open>The broker\<close>

record queue =
  qu_broker :: "asynqTask list"
  qu_store :: InMemoryStore
  qu_running :: "TaskLog list"

text \<open>
  A task is handed over by a cron entry or by \<open>RunTaskNow\<close>; the server takes a task of one of its queues and begins with it; a task that was
  begun comes to its end.
\<close>

datatype queue_event =
    HandOver Task
  | Take "string \<Rightarrow> bool" instant nat
  | Finish instant "string option" TaskLog

definition take_task :: "string list \<Rightarrow> (string \<Rightarrow> bool) \<Rightarrow> instant \<Rightarrow> nat \<Rightarrow> queue \<Rightarrow> queue" where
  "take_task served handler now i q =
    (if i < length (qu_broker q) \<and> at_Queue (qu_broker q ! i) \<in> set served then
       let a = qu_broker q ! i; q' = q\<lparr>qu_broker := take i (qu_broker q) @ drop (Suc i) (qu_broker q)\<rparr>
       in if \<not> SetupAsynqMux (at_Type a) then q'
          else (case process_begin handler now (at_Payload a) (qu_store q) of
            (None, st) \<Rightarrow> q'\<lparr>qu_store := st\<rparr>
          | (Some l, st) \<Rightarrow> q'\<lparr>qu_store := st, qu_running := qu_running q @ [l]\<rparr>)
     else q)"

fun queue_step :: "string list \<Rightarrow> queue_event \<Rightarrow> queue \<Rightarrow> queue" where
  "queue_step served (HandOver t) q = q\<lparr>qu_broker := qu_broker q @ [enqueueTask t (tk_Timeout t)]\<rparr>"
| "queue_step served (Take handler now i) q = take_task served handler now i q"
| "queue_step served (Finish now err l) q =
    (if l \<in> set (qu_running q) then q\<lparr>qu_store := process_end now err l (qu_store q), qu_running := filter (\<lambda>x. x \<noteq> l) (qu_running q)\<rparr> else q)"

definition queue_run :: "string list \<Rightarrow> queue_event list \<Rightarrow> queue \<Rightarrow> queue" where
  "queue_run served es q = fold (queue_step served) es q"

fun handed :: "queue_event list \<Rightarrow> asynqTask list" where
  "handed [] = []"
| "handed (HandOver t # es) = enqueueTask t (tk_Timeout t) # handed es"
| "handed (e # es) = handed es"

section \<open>A queue that nobody serves\<close>

lemma take_unserved:
  assumes "taskQueue \<notin> set served" "\<forall>a \<in> set (qu_broker q). at_Queue a = taskQueue"
  shows "take_task served handler now i q = q"
  using assms by (auto simp: take_task_def)

lemma queue_run_unserved:
  assumes "taskQueue \<notin> set served"
  shows "\<lbrakk>\<forall>a \<in> set (qu_broker q). at_Queue a = taskQueue; qu_running q = []\<rbrakk> \<Longrightarrow>
    queue_run served es q = q\<lparr>qu_broker := qu_broker q @ handed es\<rparr>"
proof (induction es arbitrary: q)
  case (Cons e es)
  show ?case
  proof (cases e)
    case (HandOver t)
    have "queue_run served es (queue_step served e q) = (queue_step served e q)\<lparr>qu_broker := qu_broker (queue_step served e q) @ handed es\<rparr>"
      using Cons.prems HandOver by (intro Cons.IH) (auto simp: enqueueTask_def)
    with HandOver show ?thesis by (simp add: queue_run_def)
  next
    case (Take handler now i)
    with Cons take_unserved [OF assms Cons.prems(1)] show ?thesis by (simp add: queue_run_def)
  qed (use Cons in \<open>simp add: queue_run_def\<close>)
qed (simp add: queue_run_def)

text \<open>C12: No task of the queue is ever run. The tasks are put into a queue of their own, and the server is configured without queues. A server
  of the library takes tasks only from the queue \<open>default\<close> then. So every task that is handed over stays in the broker, in the order in which
  they came, and nothing is ever written to the store: no run, no log, whatever handlers are registered.\<close>

theorem queued_tasks_never_run:
  assumes "\<forall>cfg. as_Queues cfg = [] \<longrightarrow> served cfg = [''default'']"
  shows "queue_run (served (newAsynqServer n)) es \<lparr>qu_broker = [], qu_store = st, qu_running = []\<rparr>
    = \<lparr>qu_broker = handed es, qu_store = st, qu_running = []\<rparr>"
proof -
  have "taskQueue \<notin> set (served (newAsynqServer n))" using assms by (simp add: newAsynqServer_def taskQueue_def)
  from queue_run_unserved [OF this] show ?thesis by simp
qed

lemma queued_tasks_never_run_witness:
  "qu_broker (queue_run (map fst (if as_Queues (newAsynqServer 4) = [] then [(''default'', 1::int)] else as_Queues (newAsynqServer 4)))
      [HandOver demo_task, Take (\<lambda>_. True) 1 0] \<lparr>qu_broker = [], qu_store = NewInMemoryStore, qu_running = []\<rparr>)
    = [enqueueTask demo_task (tk_Timeout demo_task)]"
  using queued_tasks_never_run [where served = "\<lambda>cfg. map fst (if as_Queues cfg = [] then [(''default'', 1)] else as_Queues cfg)" and n = 4
      and es = "[HandOver demo_task, Take (\<lambda>_. True) 1 0]" and st = NewInMemoryStore]
  by simp

text \<open>With the queue among those of the server the same history begins with the task.\<close>

lemma served_task_runs:
  "queue_run [taskQueue] [HandOver t, Take (\<lambda>_. True) now 0] \<lparr>qu_broker = [], qu_store = st, qu_running = []\<rparr>
    = (case store_CreateTaskLog now
            \<lparr>tl_ID = 0, tl_TaskID = tk_ID t, tl_TaskName = tk_Handler t, tl_Status = TaskLogRunning,
             tl_StartedAt = now, tl_EndedAt = None, tl_Result = None, tl_Error = [], tl_CreatedAt = 0\<rparr> st of
        (l, st') \<Rightarrow> \<lparr>qu_broker = [], qu_store = st', qu_running = [l]\<rparr>)"
  by (simp add: queue_run_def take_task_def enqueueTask_def SetupAsynqMux_def process_begin_def split: prod.split)

end
