(* ===== verification/Databases.thy ===== *)
theory Databases
  imports Breakers GoStd
begin

text \<open>
  The connections of the process: src/internal/database/manager.go over the sections of the configuration that describe them
  (src/internal/config/config.go).

  A pool is a number that is given to it when it is opened; \<open>mg_closed\<close> has the numbers of those that were closed. Whether a server can be
  reached when a pool is opened or asked for its health is what the drivers answer, an argument. A map of the configuration is an association list in the
  order of its iteration. The clients of object storage do nothing when they are closed.
\<close>

section \<open>Configuration\<close>

record ServerConfig =
  sv_Name :: string
  sv_Version :: string
  sv_Port :: int
  sv_DebugPort :: int
  sv_Mode :: string

record SQLConfig =
  sq_Enabled :: bool
  sq_Host :: string
  sq_Port :: int
  sq_User :: string
  sq_Password :: string
  sq_DBName :: string
  sq_MaxOpen :: int
  sq_MaxIdle :: int
  sq_ConnMaxLifetime :: string

record S3Config =
  s3_Enabled :: bool
  s3_Endpoint :: string
  s3_AccessKey :: string
  s3_SecretKey :: string
  s3_UseSSL :: bool
  s3_Bucket :: string
  s3_Region :: string

record DatabaseConfig =
  dc_MySQL :: "(string \<times> SQLConfig) list"
  dc_Postgres :: "(string \<times> SQLConfig) list"
  dc_S3 :: "(string \<times> S3Config) list"

record RedisInstance =
  ri_Enabled :: bool
  ri_Addr :: string
  ri_Username :: string
  ri_Password :: string
  ri_DB :: int
  ri_PoolSize :: int

record RedisConfig =
  rc_Main :: RedisInstance
  rc_Extra :: "(string \<times> RedisInstance) list"

record ConfigOpts =
  co_Watch :: bool
  co_WatchInterval :: string

text \<open>The other sections of the configuration are not used here.\<close>

record Config =
  cf_Server :: ServerConfig
  cf_Database :: DatabaseConfig
  cf_Redis :: RedisConfig
  cf_Config :: ConfigOpts

section \<open>The manager\<close>

record DBManager =
  mg_MySQL :: "string \<rightharpoonup> nat"
  mg_Postgres :: "string \<rightharpoonup> nat"
  mg_Redis :: "string \<rightharpoonup> nat"
  mg_S3 :: "string \<rightharpoonup> nat"
  mg_RustFS :: "string \<rightharpoonup> nat"
  mg_breakers :: "string \<rightharpoonup> DbBreaker"
  mg_next :: nat
  mg_closed :: "nat set"

record drivers =
  dr_mysql :: "SQLConfig \<Rightarrow> bool \<Rightarrow> bool"
  dr_postgres :: "SQLConfig \<Rightarrow> bool \<Rightarrow> bool"
  dr_redis :: "RedisInstance \<Rightarrow> bool \<Rightarrow> bool"
  dr_minio :: "S3Config \<Rightarrow> bool"
  dr_rustfs :: "S3Config \<Rightarrow> bool"

definition with_breaker :: "string \<Rightarrow> DBManager \<Rightarrow> DBManager" where
  "with_breaker key m = m\<lparr>mg_breakers := (mg_breakers m)(key \<mapsto> NewDbBreaker 5 30000000000), mg_next := mg_next m + 1\<rparr>"

text \<open>The body of each loop, and the loop.\<close>

definition mysql_step :: "drivers \<Rightarrow> bool \<Rightarrow> string \<times> SQLConfig \<Rightarrow> DBManager \<Rightarrow> DBManager" where
  "mysql_step D skipPing nc m =
    (case nc of (name, c) \<Rightarrow>
      if \<not> sq_Enabled c then m
      else if \<not> dr_mysql D c skipPing then m
      else (with_breaker (''mysql:'' @ name) m)\<lparr>mg_MySQL := (mg_MySQL m)(name \<mapsto> mg_next m)\<rparr>)"

definition initMySQL :: "drivers \<Rightarrow> bool \<Rightarrow> (string \<times> SQLConfig) list \<Rightarrow> DBManager \<Rightarrow> DBManager" where
  "initMySQL D skipPing cs = fold (mysql_step D skipPing) cs"

definition postgres_step :: "drivers \<Rightarrow> bool \<Rightarrow> string \<times> SQLConfig \<Rightarrow> DBManager \<Rightarrow> DBManager" where
  "postgres_step D skipPing nc m =
    (case nc of (name, c) \<Rightarrow>
      if \<not> sq_Enabled c then m
      else if \<not> dr_postgres D c skipPing then m
      else (with_breaker (''postgres:'' @ name) m)\<lparr>mg_Postgres := (mg_Postgres m)(name \<mapsto> mg_next m)\<rparr>)"

definition initPostgres :: "drivers \<Rightarrow> bool \<Rightarrow> (string \<times> SQLConfig) list \<Rightarrow> DBManager \<Rightarrow> DBManager" where
  "initPostgres D skipPing cs = fold (postgres_step D skipPing) cs"

definition s3_step :: "drivers \<Rightarrow> string \<times> S3Config \<Rightarrow> DBManager \<Rightarrow> DBManager" where
  "s3_step D nc m =
    (case nc of (name, c) \<Rightarrow>
      if \<not> s3_Enabled c then m
      else if name = ''minio'' then
        (if \<not> dr_minio D c then m else (with_breaker (''s3:'' @ name) m)\<lparr>mg_S3 := (mg_S3 m)(name \<mapsto> mg_next m)\<rparr>)
      else if name = ''rustfs'' then
        (if \<not> dr_rustfs D c then m else (with_breaker (''rustfs:'' @ name) m)\<lparr>mg_RustFS := (mg_RustFS m)(name \<mapsto> mg_next m)\<rparr>)
      else m)"

definition initS3 :: "drivers \<Rightarrow> (string \<times> S3Config) list \<Rightarrow> DBManager \<Rightarrow> DBManager" where
  "initS3 D cs = fold (s3_step D) cs"

definition add_redis :: "string \<Rightarrow> DBManager \<Rightarrow> DBManager" where
  "add_redis name m = (with_breaker (''redis:'' @ name) m)\<lparr>mg_Redis := (mg_Redis m)(name \<mapsto> mg_next m)\<rparr>"

definition redis_step :: "drivers \<Rightarrow> bool \<Rightarrow> string \<times> RedisInstance \<Rightarrow> DBManager \<Rightarrow> DBManager" where
  "redis_step D skipPing nc m =
    (case nc of (name, c) \<Rightarrow>
      if \<not> ri_Enabled c then m
      else if \<not> dr_redis D c skipPing then m
      else add_redis name m)"

definition initRedis :: "drivers \<Rightarrow> bool \<Rightarrow> RedisConfig \<Rightarrow> DBManager \<Rightarrow> DBManager" where
  "initRedis D skipPing rc m =
    fold (redis_step D skipPing) (rc_Extra rc)
      (if ri_Enabled (rc_Main rc) \<and> ri_Addr (rc_Main rc) \<noteq> [] \<and> dr_redis D (rc_Main rc) skipPing then add_redis ''main'' m else m)"

definition init_pools :: "drivers \<Rightarrow> Config \<Rightarrow> DBManager \<Rightarrow> DBManager" where
  "init_pools D cfg m =
    (let skipPing = has_prefix (sv_Version (cf_Server cfg)) ''release''
     in initRedis D skipPing (cf_Redis cfg) (initS3 D (dc_S3 (cf_Database cfg))
          (initPostgres D skipPing (dc_Postgres (cf_Database cfg)) (initMySQL D skipPing (dc_MySQL (cf_Database cfg)) m))))"

definition no_pools :: "DBManager \<Rightarrow> DBManager" where
  "no_pools m = m\<lparr>mg_MySQL := Map.empty, mg_Postgres := Map.empty, mg_Redis := Map.empty, mg_S3 := Map.empty, mg_RustFS := Map.empty\<rparr>"

definition InitAll :: "drivers \<Rightarrow> Config \<Rightarrow> DBManager" where
  "InitAll D cfg = init_pools D cfg \<lparr>mg_MySQL = Map.empty, mg_Postgres = Map.empty, mg_Redis = Map.empty, mg_S3 = Map.empty,
     mg_RustFS = Map.empty, mg_breakers = Map.empty, mg_next = 0, mg_closed = {}\<rparr>"

text \<open>The pools that are closed with the manager's maps.\<close>

definition held :: "DBManager \<Rightarrow> nat set" where
  "held m = ran (mg_MySQL m) \<union> ran (mg_Postgres m) \<union> ran (mg_Redis m)"

text \<open>\<open>Reload\<close> never reports an error.\<close>

definition Reload :: "drivers \<Rightarrow> Config \<Rightarrow> DBManager \<Rightarrow> string option \<times> DBManager" where
  "Reload D cfg m = (let m' = init_pools D cfg (no_pools m) in (None, m'\<lparr>mg_closed := mg_closed m' \<union> held m\<rparr>))"

definition CloseAll :: "DBManager \<Rightarrow> DBManager" where
  "CloseAll m = m\<lparr>mg_closed := mg_closed m \<union> held m\<rparr>"

definition GetRedis :: "string \<Rightarrow> DBManager option \<Rightarrow> nat option" where
  "GetRedis name db = Option.bind db (\<lambda>m. mg_Redis m name)"

text \<open>The health of a pool: closed, it cannot be asked; otherwise the driver answers.\<close>

definition DBHealth :: "(nat \<Rightarrow> bool) \<Rightarrow> DBManager option \<Rightarrow> string \<Rightarrow> bool option" where
  "DBHealth ping db key =
    (case db of
       None \<Rightarrow> if key = ''database'' then Some False else None
     | Some m \<Rightarrow>
         (let healthy = (\<lambda>i. i \<notin> mg_closed m \<and> ping i);
              look = (\<lambda>prefix f. if has_prefix key prefix then map_option healthy (f (drop (length prefix) key)) else None)
          in (case look ''mysql:'' (mg_MySQL m) of Some b \<Rightarrow> Some b | None \<Rightarrow>
             (case look ''postgres:'' (mg_Postgres m) of Some b \<Rightarrow> Some b | None \<Rightarrow>
             (case look ''redis:'' (mg_Redis m) of Some b \<Rightarrow> Some b | None \<Rightarrow>
             (case look ''s3:'' (mg_S3 m) of Some b \<Rightarrow> Some b | None \<Rightarrow> look ''rustfs:'' (mg_RustFS m)))))))"

datatype 'e guard_error = NotInitialised | Guarded "'e run_error"

definition RunWithBreaker :: "string \<Rightarrow> instant \<Rightarrow> instant \<times> 'e option \<Rightarrow> DBManager option \<Rightarrow> 'e guard_error option \<times> DBManager option" where
  "RunWithBreaker name now fn db =
    (case db of
       None \<Rightarrow> (Some NotInitialised, None)
     | Some m \<Rightarrow>
         (case mg_breakers m name of
            None \<Rightarrow> (map_option (\<lambda>e. Guarded (FnError e)) (snd fn), Some m)
          | Some cb \<Rightarrow> (case Run now fn cb of
              (e, cb') \<Rightarrow> (map_option Guarded e, Some (m\<lparr>mg_breakers := (mg_breakers m)(name \<mapsto> cb')\<rparr>)))))"

section \<open>Reloading closes every pool that was taken\<close>

definition mgr_ok :: "DBManager \<Rightarrow> bool" where
  "mgr_ok m \<longleftrightarrow> (\<forall>i \<in> held m \<union> mg_closed m. i < mg_next m) \<and> held m \<inter> mg_closed m = {}"

text \<open>Opening pools gives new numbers to what is there and closes nothing.\<close>

definition grows :: "DBManager \<Rightarrow> DBManager \<Rightarrow> bool" where
  "grows m m' \<longleftrightarrow> mg_closed m' = mg_closed m \<and> mg_next m \<le> mg_next m' \<and> (\<forall>i \<in> held m'. i \<in> held m \<or> mg_next m \<le> i \<and> i < mg_next m')"

lemma grows_refl [simp]: "grows m m"
  by (simp add: grows_def)

lemma grows_trans: "grows m m' \<Longrightarrow> grows m' m'' \<Longrightarrow> grows m m''"
  unfolding grows_def by (metis le_trans less_le_trans)

lemma grows_fold: "(\<And>x m. grows m (f x m)) \<Longrightarrow> grows m (fold f xs m)"
  by (induction xs arbitrary: m) (auto intro: grows_trans)

lemma in_ran_upd: "i \<in> ran (f(k \<mapsto> v)) \<Longrightarrow> i = v \<or> i \<in> ran f"
  by (auto simp: ran_def split: if_splits)

lemma grows_mysql: "grows m (mysql_step D p x m)"
  by (auto simp: grows_def held_def with_breaker_def mysql_step_def split: prod.split dest: in_ran_upd)

lemma grows_postgres: "grows m (postgres_step D p x m)"
  by (auto simp: grows_def held_def with_breaker_def postgres_step_def split: prod.split dest: in_ran_upd)

lemma grows_s3: "grows m (s3_step D x m)"
  by (auto simp: grows_def held_def with_breaker_def s3_step_def split: prod.split)

lemma grows_redis: "grows m (add_redis name m)" "grows m (redis_step D p x m)"
  by (auto simp: grows_def held_def with_breaker_def add_redis_def redis_step_def split: prod.split dest: in_ran_upd)

lemma grows_inits:
  "grows m (initMySQL D p cs m)" "grows m (initPostgres D p cs m)" "grows m (initS3 D ss m)"
  unfolding initMySQL_def initPostgres_def initS3_def
  by (rule grows_fold, rule grows_mysql grows_postgres grows_s3)+

lemma grows_initRedis: "grows m (initRedis D p rc m)"
proof -
  have "grows m' (fold (redis_step D p) (rc_Extra rc) m')" for m' by (rule grows_fold) (rule grows_redis(2))
  moreover have "grows m (if c then add_redis ''main'' m else m)" for c by (simp add: grows_redis(1))
  ultimately show ?thesis unfolding initRedis_def by (blast intro: grows_trans)
qed

lemma grows_init: "grows m (init_pools D cfg m)"
  unfolding init_pools_def Let_def by (rule grows_trans, rule grows_trans, rule grows_trans, rule grows_inits(1), rule grows_inits(2),
      rule grows_inits(3), rule grows_initRedis)

lemma held_none [simp]: "held (no_pools m) = {}" "mg_next (no_pools m) = mg_next m" "mg_closed (no_pools m) = mg_closed m"
  by (simp_all add: held_def no_pools_def)

lemma held_closed [simp]: "held (m\<lparr>mg_closed := c\<rparr>) = held m"
  by (simp add: held_def)

lemma Reload_step:
  assumes "mgr_ok m" "Reload D cfg m = (e, m')"
  shows "mgr_ok m'" "held m \<union> mg_closed m \<subseteq> mg_closed m'" "e = None"
proof -
  have "grows (no_pools m) (init_pools D cfg (no_pools m))" by (rule grows_init)
  then have new: "mg_closed (init_pools D cfg (no_pools m)) = mg_closed m" "mg_next m \<le> mg_next (init_pools D cfg (no_pools m))"
    "i \<in> held (init_pools D cfg (no_pools m)) \<Longrightarrow> mg_next m \<le> i \<and> i < mg_next (init_pools D cfg (no_pools m))" for i
    by (auto simp: grows_def)
  have old: "i \<in> held m \<union> mg_closed m \<Longrightarrow> i < mg_next m" for i using assms(1) by (simp add: mgr_ok_def)
  have m': "held m' = held (init_pools D cfg (no_pools m))" "mg_closed m' = mg_closed m \<union> held m" "mg_next m' = mg_next (init_pools D cfg (no_pools m))"
    "e = None"
  proof -
    have "m' = (init_pools D cfg (no_pools m))\<lparr>mg_closed := mg_closed (init_pools D cfg (no_pools m)) \<union> held m\<rparr>" "e = None"
      using assms(2) by (simp_all add: Reload_def Let_def)
    then show "held m' = held (init_pools D cfg (no_pools m))" "mg_closed m' = mg_closed m \<union> held m"
      "mg_next m' = mg_next (init_pools D cfg (no_pools m))" "e = None" using new(1) by simp_all
  qed
  have "i < mg_next m'" if "i \<in> held m' \<union> mg_closed m'" for i
  proof (cases "i \<in> held m'")
    case False
    with that m' have "i < mg_next m" by (intro old) auto
    with m'(3) new(2) show ?thesis by simp
  qed (use m' new(3) in simp)
  moreover have "i \<notin> mg_closed m'" if "i \<in> held m'" for i
  proof
    assume "i \<in> mg_closed m'"
    with m'(2) have "i < mg_next m" by (intro old) auto
    moreover have "mg_next m \<le> i" using that m'(1) new(3) by simp
    ultimately show False by simp
  qed
  ultimately show "mgr_ok m'" unfolding mgr_ok_def by blast
  show "held m \<union> mg_closed m \<subseteq> mg_closed m'" "e = None" using m'(2,4) by auto
qed

lemma InitAll_ok: "mgr_ok (InitAll D cfg)"
proof -
  have "grows m (init_pools D cfg m)" for m by (rule grows_init)
  then show ?thesis by (force simp: InitAll_def mgr_ok_def grows_def held_def)
qed

definition reloads :: "(drivers \<times> Config) list \<Rightarrow> DBManager \<Rightarrow> DBManager" where
  "reloads rs m = fold (\<lambda>(D, cfg) m. snd (Reload D cfg m)) rs m"

lemma reloads_ok: "mgr_ok m \<Longrightarrow> mgr_ok (reloads rs m) \<and> mg_closed m \<subseteq> mg_closed (reloads rs m)"
proof (induction rs arbitrary: m)
  case (Cons r rs)
  obtain D cfg where r: "r = (D, cfg)" by (cases r)
  obtain e m' where run: "Reload D cfg m = (e, m')" by (rule prod.exhaust)
  from Reload_step [OF Cons.prems run] Cons.IH [of m'] r run show ?case by (auto simp: reloads_def)
qed (simp add: reloads_def)

end
