(* ===== verification/ConfigReload.thy ===== *)
theory ConfigReload
  imports Databases EventBus Health
begin

text \<open>
  The configuration and its changes at run time: src/internal/config/config.go, the hooks that src/cmd/server/main.go registers, the reloading of
  the database connections, and the module src/internal/modules/s0/module.go, which listens to the changes over the event bus.

  A reloader is a function of the new configuration and the state of the process, a hook too. What a file holds and whether it decodes are
  arguments. The state of the process is what reloaders and hooks change: the connections, the health checker, the bus; beside it the clock and
  what the drivers answer now. A handler of the bus is a name. Logging is left out.
\<close>

section \<open>The configuration of the process\<close>

record ('c, 's) globals =
  gl_globalCfg :: "'c option"
  gl_prevCfg :: "'c option"
  gl_rls :: "('c \<Rightarrow> 's \<Rightarrow> string option \<times> 's) list"
  gl_validators :: "('c \<Rightarrow> string option) list"
  gl_changeHooks :: "('c \<Rightarrow> 's \<Rightarrow> 's) list"

datatype config_error =
    EnvFailed
  | ReadFailed string
  | UnmarshalFailed
  | Invalid "string list"
  | RolledBack "string list"

definition resolveConfigPath :: "string \<Rightarrow> string" where
  "resolveConfigPath env =
    (let env = (if env = [] then ''local'' else env)
     in if env = ''local'' then ''config.local.yaml''
        else if env = ''test'' then ''config.test.yaml''
        else if env = ''prod'' then ''config.prod.yaml''
        else ''config.local.yaml'')"

definition Validate :: "('c, 's) globals \<Rightarrow> 'c \<Rightarrow> string list option" where
  "Validate g cfg = (let errs = List.map_filter (\<lambda>v. v cfg) (gl_validators g) in if errs \<noteq> [] then Some errs else None)"

text \<open>\<open>dotenv\<close>: whether the file \<open>.env\<close> exists and loads. \<open>read\<close>: what a file holds, and what that decodes to.\<close>

definition Load :: "bool option \<Rightarrow> string \<Rightarrow> (string \<Rightarrow> 'c option option) \<Rightarrow> string \<Rightarrow> ('c, 's) globals \<Rightarrow> (config_error + 'c) \<times> ('c, 's) globals" where
  "Load dotenv env read path g =
    (if dotenv = Some False then (Inl EnvFailed, g)
     else
       let path = (if path = [] then resolveConfigPath env else path)
       in (case read path of
            None \<Rightarrow> (Inl (ReadFailed path), g)
          | Some None \<Rightarrow> (Inl UnmarshalFailed, g)
          | Some (Some cfg) \<Rightarrow> (case Validate g cfg of
              Some errs \<Rightarrow> (Inl (Invalid errs), g)
            | None \<Rightarrow> (Inr cfg, g\<lparr>gl_globalCfg := Some cfg\<rparr>))))"

fun run_reloaders :: "('c \<Rightarrow> 's \<Rightarrow> string option \<times> 's) list \<Rightarrow> 'c \<Rightarrow> 's \<Rightarrow> string list \<times> 's" where
  "run_reloaders [] cfg s = ([], s)"
| "run_reloaders (r # rs) cfg s = (case r cfg s of (e, s') \<Rightarrow>
     (case run_reloaders rs cfg s' of (errs, s'') \<Rightarrow> ((case e of None \<Rightarrow> errs | Some e \<Rightarrow> e # errs), s'')))"

definition reloadConfig :: "'c option \<Rightarrow> ('c, 's) globals \<Rightarrow> 's \<Rightarrow> config_error option \<times> ('c, 's) globals \<times> 's" where
  "reloadConfig decoded g s =
    (case decoded of
       None \<Rightarrow> (Some UnmarshalFailed, g, s)
     | Some newCfg \<Rightarrow> (case Validate g newCfg of
         Some errs \<Rightarrow> (Some (Invalid errs), g, s)
       | None \<Rightarrow>
           let prev = gl_globalCfg g; g' = g\<lparr>gl_prevCfg := prev, gl_globalCfg := Some newCfg\<rparr>
           in (case run_reloaders (gl_rls g) newCfg s of
                (errs, s') \<Rightarrow>
                  if errs \<noteq> [] then (Some (RolledBack errs), g'\<lparr>gl_globalCfg := prev, gl_prevCfg := None\<rparr>, s')
                  else (None, g', fold (\<lambda>hook s. hook newCfg s) (gl_changeHooks g) s'))))"

definition Get :: "('c, 's) globals \<Rightarrow> 'c option" where
  "Get g = gl_globalCfg g"

definition RegisterReloader :: "('c \<Rightarrow> 's \<Rightarrow> string option \<times> 's) \<Rightarrow> ('c, 's) globals \<Rightarrow> ('c, 's) globals" where
  "RegisterReloader r g = g\<lparr>gl_rls := gl_rls g @ [r]\<rparr>"

definition RegisterValidator :: "('c \<Rightarrow> string option) \<Rightarrow> ('c, 's) globals \<Rightarrow> ('c, 's) globals" where
  "RegisterValidator v g = g\<lparr>gl_validators := gl_validators g @ [v]\<rparr>"

definition OnChange :: "('c \<Rightarrow> 's \<Rightarrow> 's) \<Rightarrow> ('c, 's) globals \<Rightarrow> ('c, 's) globals" where
  "OnChange fn g = g\<lparr>gl_changeHooks := gl_changeHooks g @ [fn]\<rparr>"

text \<open>A rollback gives back the old configuration, and only that: the reloaders have all run with the new one, and what they did stays.\<close>

lemma rollback_keeps_effects:
  assumes "Validate g new = None" "run_reloaders (gl_rls g) new s = (e # errs, s')"
  shows "reloadConfig (Some new) g s = (Some (RolledBack (e # errs)), g\<lparr>gl_prevCfg := None\<rparr>, s')"
  using assms by (simp add: reloadConfig_def Let_def)

section \<open>The module s0\<close>

record process =
  pr_db :: DBManager
  pr_checker :: HealthChecker
  pr_bus :: "string localBus"
  pr_watch :: bool
  pr_sub :: "string Subscription option"
  pr_drivers :: drivers
  pr_now :: instant



definition onConfigChanged :: "bool \<Rightarrow> (string \<Rightarrow> duration) \<Rightarrow> instant \<Rightarrow> HealthChecker \<Rightarrow> HealthChecker" where
  "onConfigChanged watch latency now h = (if watch then StartPolling latency now True (Stop h) else h)"


text \<open>The route \<open>/health\<close>: one check that is down degrades the whole.\<close>

definition s0_Health :: "(string \<Rightarrow> duration) \<Rightarrow> instant \<Rightarrow> process \<Rightarrow> string \<times> (string \<times> CheckResult) list" where
  "s0_Health latency now p =
    (let results = Check latency now (pr_checker p)
     in (if list_ex (\<lambda>(name, r). cr_Status r = StatusDown) results then ''degraded'' else ''ok'', results))"

section \<open>The wiring of the process\<close>

text \<open>What the handlers of the bus do: only the one of s0 changes the process.\<close>

definition run_handler :: "(string \<Rightarrow> duration) \<Rightarrow> instant \<Rightarrow> string \<Rightarrow> (string \<times> string) list Event \<Rightarrow> process \<Rightarrow> string option \<times> process" where
  "run_handler latency now name ev p =
    (if name = ''s0.onConfigChanged'' then (None, p\<lparr>pr_checker := onConfigChanged (pr_watch p) latency now (pr_checker p)\<rparr>) else (None, p))"

definition db_reloader :: "Config \<Rightarrow> process \<Rightarrow> string option \<times> process" where
  "db_reloader cfg p = (case Reload (pr_drivers p) cfg (pr_db p) of (e, m) \<Rightarrow> (e, p\<lparr>pr_db := m\<rparr>))"

text \<open>The hook of main.go publishes the change; \<open>order\<close> is the order in which the topics of the bus are iterated.\<close>

definition publish_change :: "(string \<Rightarrow> duration) \<Rightarrow> string list \<Rightarrow> Config \<Rightarrow> process \<Rightarrow> process" where
  "publish_change latency order cfg p =
    (case Publish (run_handler latency (pr_now p)) order (pr_now p) ''config.changed''
        \<lparr>ev_ID = [], ev_Topic = [], ev_Source = ''config'', ev_Timestamp = 0,
         ev_Payload = [(''server.port'', fmt_int (sv_Port (cf_Server cfg)))]\<rparr> (pr_bus p) p of
       (e, called, p') \<Rightarrow> p')"

definition wired :: "(string \<Rightarrow> duration) \<Rightarrow> string list \<Rightarrow> (Config, process) globals \<Rightarrow> (Config, process) globals" where
  "wired latency order g = OnChange (publish_change latency order) (RegisterReloader db_reloader g)"

text \<open>The process starts with no reloaders, hooks or validators; main.go registers those above. A change comes with the answers of the drivers
  and the time it happens at.\<close>

definition main_globals :: "(string \<Rightarrow> duration) \<Rightarrow> string list \<Rightarrow> Config \<Rightarrow> (Config, process) globals" where
  "main_globals latency order cfg =
     wired latency order \<lparr>gl_globalCfg = Some cfg, gl_prevCfg = None, gl_rls = [], gl_validators = [], gl_changeHooks = []\<rparr>"

definition change :: "drivers \<times> instant \<times> Config option \<Rightarrow> (Config, process) globals \<times> process \<Rightarrow> (Config, process) globals \<times> process" where
  "change c gp = (case c of (D, now, decoded) \<Rightarrow> (case gp of (g, p) \<Rightarrow>
     snd (reloadConfig decoded g (p\<lparr>pr_drivers := D, pr_now := now\<rparr>))))"

section \<open>Connections after a change\<close>

definition main_wired :: "(string \<Rightarrow> duration) \<Rightarrow> string list \<Rightarrow> (Config, process) globals \<Rightarrow> bool" where
  "main_wired latency order g \<longleftrightarrow> gl_rls g = [db_reloader] \<and> gl_validators g = [] \<and> gl_changeHooks g = [publish_change latency order]"

lemma main_globals_wired: "main_wired latency order (main_globals latency order cfg)"
  by (simp add: main_wired_def main_globals_def wired_def OnChange_def RegisterReloader_def)

lemma run_handlers_db: "pr_db (snd (snd (run_handlers (run_handler latency now) ev subs p))) = pr_db p"
proof (induction subs arbitrary: p)
  case (Cons sub subs)
  obtain p1 where "run_handler latency now (sub_Handler sub) ev p = (None, p1)" "pr_db p1 = pr_db p"
    by (cases "sub_Handler sub = ''s0.onConfigChanged''") (simp_all add: run_handler_def)
  with Cons [of p1] show ?case by (cases "run_handlers (run_handler latency now) ev subs p1") simp
qed simp

lemma publish_db: "pr_db (publish_change latency order cfg p) = pr_db p"
  using run_handlers_db [of latency "pr_now p"] by (simp add: publish_change_def Publish_def split: prod.split) (metis snd_conv)

lemma reload_main:
  assumes "main_wired latency order g"
  shows "reloadConfig (Some new) g p = (None, g\<lparr>gl_prevCfg := gl_globalCfg g, gl_globalCfg := Some new\<rparr>,
    publish_change latency order new (p\<lparr>pr_db := snd (Reload (pr_drivers p) new (pr_db p))\<rparr>))"
  using assms by (simp add: main_wired_def reloadConfig_def Validate_def db_reloader_def Reload_def Let_def map_filter_simps)

lemma change_ok:
  assumes "main_wired latency order g" "mgr_ok (pr_db p)" "change c (g, p) = (g', p')"
  shows "main_wired latency order g'" "mgr_ok (pr_db p')" "mg_closed (pr_db p) \<subseteq> mg_closed (pr_db p')"
proof -
  obtain D now decoded where c: "c = (D, now, decoded)" by (rule prod_cases3)
  have "main_wired latency order g' \<and> mgr_ok (pr_db p') \<and> mg_closed (pr_db p) \<subseteq> mg_closed (pr_db p')"
  proof (cases decoded)
    case None
    with assms c show ?thesis by (auto simp: change_def reloadConfig_def)
  next
    case (Some new)
    obtain e m where run: "Reload D new (pr_db p) = (e, m)" by (rule prod.exhaust)
    have "pr_db p' = m" "main_wired latency order g'"
      using assms(1,3) c Some run by (auto simp: change_def reload_main publish_db main_wired_def)
    with Reload_step [OF assms(2) run] show ?thesis by simp
  qed
  then show "main_wired latency order g'" "mgr_ok (pr_db p')" "mg_closed (pr_db p) \<subseteq> mg_closed (pr_db p')" by blast+
qed

lemma changes_ok:
  assumes "main_wired latency order g" "mgr_ok (pr_db p)" "fold change cs (g, p) = (g', p')"
  shows "main_wired latency order g' \<and> mgr_ok (pr_db p') \<and> mg_closed (pr_db p) \<subseteq> mg_closed (pr_db p')"
  using assms
proof (induction cs arbitrary: g p)
  case (Cons c cs)
  obtain g1 p1 where step: "change c (g, p) = (g1, p1)" by (rule prod.exhaust)
  note ok = change_ok [OF Cons.prems(1,2) step]
  from Cons.IH [OF ok(1,2)] Cons.prems(3) step ok(3) show ?case by auto
qed simp

text \<open>A pool that is not opened anew is not in the maps.\<close>

lemma fold_keeps: "(\<And>x m. f (s x m) = f m) \<Longrightarrow> f (fold s xs m) = f m"
  by (induction xs arbitrary: m) simp_all

lemma mysql_unreachable:
  assumes "\<forall>c. (name, c) \<in> set cs \<longrightarrow> \<not> dr_mysql D c skipPing" "mg_MySQL m name = None"
  shows "mg_MySQL (initMySQL D skipPing cs m) name = None"
  using assms unfolding initMySQL_def
  by (induction cs arbitrary: m) (auto simp: mysql_step_def with_breaker_def split: prod.split)

lemma others_keep_mysql:
  "mg_MySQL (initPostgres D p cs m) = mg_MySQL m" "mg_MySQL (initS3 D ss m) = mg_MySQL m" "mg_MySQL (initRedis D p rc m) = mg_MySQL m"
proof -
  show "mg_MySQL (initPostgres D p cs m) = mg_MySQL m"
    unfolding initPostgres_def by (rule fold_keeps) (auto simp: postgres_step_def with_breaker_def split: prod.split)
  show "mg_MySQL (initS3 D ss m) = mg_MySQL m"
    unfolding initS3_def by (rule fold_keeps) (auto simp: s3_step_def with_breaker_def split: prod.split)
  have "mg_MySQL (fold (redis_step D p) xs m') = mg_MySQL m'" for xs m'
    by (rule fold_keeps) (auto simp: redis_step_def add_redis_def with_breaker_def split: prod.split)
  then show "mg_MySQL (initRedis D p rc m) = mg_MySQL m" by (simp add: initRedis_def add_redis_def with_breaker_def)
qed

lemma Reload_unreachable:
  assumes "\<forall>c. (name, c) \<in> set (dc_MySQL (cf_Database cfg)) \<longrightarrow> \<not> dr_mysql D c (has_prefix (sv_Version (cf_Server cfg)) ''release'')"
  shows "mg_MySQL (snd (Reload D cfg m)) name = None"
  using mysql_unreachable [OF assms] by (simp add: Reload_def init_pools_def Let_def others_keep_mysql no_pools_def)

text \<open>C37: What a change of the configuration does to the connections. The reload reports no error whatever the servers answer, so the new configuration
  is never rolled back. Every MySQL, PostgreSQL and Redis pool of the manager is closed and stays closed through all later changes: a module that took
  its pool at the start, as they all do, works on a closed one from then on. A MySQL server of the new configuration that cannot be
  reached at that moment is gone from the manager, also if its settings have not changed and its old pool was good.\<close>

theorem config_change_closes_pools:
  assumes "main_wired latency order g" "mgr_ok (pr_db p)"
    and "reloadConfig (Some new) g p = (e, g', p')" "fold change cs (g', p') = (g'', p'')"
    and "\<forall>c. (name, c) \<in> set (dc_MySQL (cf_Database new)) \<longrightarrow> \<not> dr_mysql (pr_drivers p) c (has_prefix (sv_Version (cf_Server new)) ''release'')"
  shows "e = None \<and> Get g' = Some new \<and> held (pr_db p) \<subseteq> mg_closed (pr_db p'') \<and> held (pr_db p'') \<inter> mg_closed (pr_db p'') = {}
    \<and> mg_MySQL (pr_db p') name = None"
proof -
  obtain e1 m where run: "Reload (pr_drivers p) new (pr_db p) = (e1, m)" by (rule prod.exhaust)
  have g': "e = None" "g' = g\<lparr>gl_prevCfg := gl_globalCfg g, gl_globalCfg := Some new\<rparr>" and db: "pr_db p' = m"
    using assms(3) run by (auto simp: reload_main [OF assms(1)] publish_db)
  note step = Reload_step [OF assms(2) run]
  have "main_wired latency order g'" using assms(1) g' by (simp add: main_wired_def)
  from changes_ok [OF this _ assms(4)] step(1) db have later: "mgr_ok (pr_db p'')" "mg_closed m \<subseteq> mg_closed (pr_db p'')" by simp_all
  moreover have "mg_MySQL m name = None" using Reload_unreachable [OF assms(5), of "pr_db p"] run by simp
  ultimately show ?thesis using g' db step(2) by (auto simp: Get_def mgr_ok_def)
qed

section \<open>Polling after a change\<close>









section \<open>Examples\<close>

definition demo_sql :: SQLConfig where
  "demo_sql = \<lparr>sq_Enabled = True, sq_Host = ''db'', sq_Port = 3306, sq_User = ''u'', sq_Password = ''p'', sq_DBName = ''app'',
     sq_MaxOpen = 0, sq_MaxIdle = 0, sq_ConnMaxLifetime = []\<rparr>"

definition demo_config :: Config where
  "demo_config = \<lparr>cf_Server = \<lparr>sv_Name = ''s'', sv_Version = ''1'', sv_Port = 80, sv_DebugPort = 81, sv_Mode = []\<rparr>,
     cf_Database = \<lparr>dc_MySQL = [(''main'', demo_sql)], dc_Postgres = [], dc_S3 = []\<rparr>,
     cf_Redis = \<lparr>rc_Main = \<lparr>ri_Enabled = False, ri_Addr = [], ri_Username = [], ri_Password = [], ri_DB = 0, ri_PoolSize = 0\<rparr>, rc_Extra = []\<rparr>,
     cf_Config = \<lparr>co_Watch = True, co_WatchInterval = []\<rparr>\<rparr>"

definition demo_drivers :: "bool \<Rightarrow> drivers" where
  "demo_drivers up = \<lparr>dr_mysql = (\<lambda>_ _. up), dr_postgres = (\<lambda>_ _. up), dr_redis = (\<lambda>_ _. up), dr_minio = (\<lambda>_. up), dr_rustfs = (\<lambda>_. up)\<rparr>"

definition demo_process :: process where
  "demo_process = \<lparr>pr_db = InitAll (demo_drivers True) demo_config, pr_checker = NewHealthChecker, pr_bus = NewLocal, pr_watch = False,
     pr_sub = None, pr_drivers = demo_drivers False, pr_now = 5\<rparr>"

lemma demo_held: "mg_MySQL (pr_db demo_process) ''main'' = Some 0"
  by (simp add: demo_process_def InitAll_def init_pools_def Let_def demo_config_def initMySQL_def mysql_step_def demo_sql_def demo_drivers_def
      with_breaker_def initPostgres_def initS3_def initRedis_def)

lemma config_change_closes_pools_witness:
  "\<exists>g' p'. reloadConfig (Some demo_config) (main_globals (\<lambda>_. 0) [] demo_config) demo_process = (None, g', p')
    \<and> mg_MySQL (pr_db demo_process) ''main'' = Some 0 \<and> 0 \<in> mg_closed (pr_db p') \<and> mg_MySQL (pr_db p') ''main'' = None"
proof -
  let ?g = "main_globals (\<lambda>_. 0) [] demo_config"
  obtain e g' p' where run: "reloadConfig (Some demo_config) ?g demo_process = (e, g', p')" by (rule prod_cases3)
  have "mgr_ok (pr_db demo_process)" by (simp add: demo_process_def InitAll_ok)
  moreover have "\<not> dr_mysql (pr_drivers demo_process) c b" for c b by (simp add: demo_process_def demo_drivers_def)
  ultimately have "e = None \<and> held (pr_db demo_process) \<subseteq> mg_closed (pr_db p') \<and> mg_MySQL (pr_db p') ''main'' = None"
    using config_change_closes_pools [OF main_globals_wired _ run, of "[]" g' p' "''main''"] by simp
  moreover have "0 \<in> held (pr_db demo_process)" using demo_held by (auto simp: held_def ran_def)
  ultimately show ?thesis using run demo_held by blast
qed


end
