(* ===== verification/Spec2Isabelle.thy ===== *)
theory Spec2Isabelle
  imports Prelude IdStore GoStd Users ApiKeys Rbac Tokens Social AuthModule AuthPolicy AuthSafety TaskStore Scheduler RedisClient Cache EventBus
    DeadLetter StreamBus Feature AuditLog Breakers HttpClient GoodsModel GoodsRepo GoodsService
    GoodsStock GoodsBooks GoodsOrders GoodsEdges RateLimit Pagination Ciphers FieldCrypto FileCrypto Compression DbAdapter Migrations
    DumpRestore Restoring Backup WsHub Discovery Health Hashing CryptoApi ApiCodes GoodsApi LogRotate
    MigrateApi SchedulerApi TaskQueue Databases ConfigReload
begin

text \<open>
  Go-Backend-Core: the verification development of the server's core.

  The program. A Go process (src/cmd/server) opens the configured databases, starts modules and serves their routes. The
  modules (src/internal/modules) are thin: they bind requests and call the services of src/internal/services, which keep
  the state; src/internal/middleware stands before the handlers; src/pkg holds what does not depend on the server (network
  clients, circuit breaker, pagination); src/zzz/goodser is an inventory of goods over SQL with transactions. The services talk
  to each other through Go interfaces (stores, the event bus, the dead letters), and to databases, Redis and
  libraries, which are not part of the repository.

  Conventions (\<open>Prelude\<close>, \<open>GoStd\<close>, \<open>IdStore\<close>, \<open>RedisClient\<close>). A struct is a record, an operation a function from the state to a result and
  the new state; a mutex makes an operation one step. Errors are values of a datatype per component, a panic is an error value or
  \<open>None\<close>. The clock, random numbers and the answers of what is not in the repository (Redis, SQL engines, JWT, bcrypt, AEAD
  ciphers, compression, digests, Argon2) are arguments; what a theorem relies on them for is a hypothesis that states their documented
  behaviour, and each such theorem has a witness at an instance. A Go map is a function or, where its order of
  iteration matters, an association list in that order. Go's \<open>int\<close> is \<open>int\<close> with the wrap-around \<open>i64\<close> written
  out where the code does not bound it; the atomic counters of the breaker, byte strings and the parameters of Argon2 keep their width as
  words. Durations and instants are nanoseconds. Laws that several components share are locales: \<open>id_store\<close> (a slice of records with a
  counter; seven stores), \<open>token_blacklist\<close>, \<open>rbac_store\<close> (memory and SQL), \<open>dead_letter_store\<close>, \<open>flag_store\<close>, \<open>circuit_breaker\<close> (both
  breakers), \<open>limiter\<close> (both limiters), \<open>cipher\<close> (both ciphers).

  Accounts and authentication.
  \<^item> \<open>Users\<close>, \<open>ApiKeys\<close>, \<open>Rbac\<close>, \<open>Social\<close>, \<open>Tokens\<close>: src/internal/services/auth (store.go, user.go, apikey.go, rbac.go, provider.go, auth.go,
    blacklist.go) and the middlewares auth.go, apikey.go, rbac.go. Identifiers and names stay unique and deleted accounts stay
    out; deleted keys are rejected; the two role stores give the same permissions; token types are not confused; logout
    revokes.
  \<^item> \<open>AuthModule\<close>: src/internal/modules/auth/module.go with all its routes, middlewares and handlers over these stores. \<open>AuthPolicy\<close> is the abstract
    specification (who may change what) and the proof that every request respects it; \<open>AuthSafety\<close> draws the consequences over histories of requests.

  Background work and messaging.
  \<^item> \<open>TaskStore\<close>, \<open>Scheduler\<close>: the tasks and their logs, the cron entries. The schedule follows the store, except where pausing breaks it.
    \<open>SchedulerApi\<close> has the routes of src/internal/services/scheduler/module.go: the same over sequences of requests, and what a refused task leaves
    behind. \<open>TaskQueue\<close> is asynq_handler.go over a broker: no task that goes through the queue is ever run.
  \<^item> \<open>EventBus\<close>, \<open>DeadLetter\<close>, \<open>StreamBus\<close>: the local bus, both dead-letter queues, the consumer loop over Redis streams as a function of
    the answers it receives (a run ends with the list of answers, so no fuel is needed).
  \<^item> \<open>WsHub\<close>: rooms and clients of WebSocket connections, against a relation between rooms and clients.
  \<^item> \<open>Health\<close>, \<open>Discovery\<close>: health polling as a step relation with its channels; the registry of instances and its watches.

  The process.
  \<^item> \<open>Databases\<close>: src/internal/database/manager.go, the pools of a configuration. \<open>ConfigReload\<close>: src/internal/config/config.go with the wiring of
    src/cmd/server/main.go and the module s0, so that a change of the configuration goes through the reloaders, the hooks, the event bus and the health
    checker: what it does to the pools and to the polling.

  Data services.
  \<^item> \<open>Cache\<close>: both levels of src/internal/services/cache with codecs, eviction and invalidation. \<open>Feature\<close>: flags in memory and in MySQL.
    \<open>AuditLog\<close>: the indexed store against a scan of the log.
  \<^item> \<open>Ciphers\<close>, \<open>FieldCrypto\<close>, \<open>FileCrypto\<close>, \<open>Compression\<close>, \<open>Hashing\<close>, \<open>CryptoApi\<close>: src/internal/services/crypto; round trips through key
    rotation, structs, files, shards, password hashes and the HTTP routes, with the inputs for which they fail.
  \<^item> \<open>DbAdapter\<close>, \<open>Migrations\<close>, \<open>DumpRestore\<close>, \<open>Restoring\<close>, \<open>Backup\<close>: src/internal/services/migrate over a database of typed tables whose engine
    is a parameter: schema migrations, dumps in three formats, transfers, backups. \<open>MigrateApi\<close> is the module
    src/internal/modules/migrate/module.go: what each route may change, backups through the routes, and transfers of a database to itself
    (a loop that may not end, hence \<open>partial_function\<close>).

  Traffic.
  \<^item> \<open>RateLimit\<close>, \<open>Breakers\<close>, \<open>HttpClient\<close>, \<open>Pagination\<close>: src/internal/middleware/ratelimit.go, src/pkg/net (breaker.go, http.go, retry.go),
    src/internal/database/breaker.go, src/pkg/pagination. The loops of retries are bounded by the configured number of attempts, which is what their
    recursion counts down.

  The inventory.
  \<^item> \<open>GoodsModel\<close>, \<open>GoodsRepo\<close>, \<open>GoodsService\<close>: src/zzz/goodser. A statement is a function on a connection: the tables that the
    transaction sees, and the list of the answers (up or down) that the server gives to the statements to come, so every
    failure of a statement or of a commit is a case. \<open>GoodsStock\<close>, \<open>GoodsBooks\<close>, \<open>GoodsOrders\<close>, \<open>GoodsEdges\<close>: the books balance and nothing is oversold, closed
    orders stay closed, and what fresh tables and failing statements do. \<open>GoodsApi\<close> has every handler and route of handler.go and module.go, so that the
    balance of the books is a statement about sequences of requests; \<open>ApiCodes\<close> the codes and statuses of answers.

  Logs.
  \<^item> \<open>LogRotate\<close>: src/internal/pkg/logger/rotate.go over a file system with descriptors; the files in their order are what was written.

  Many theorems say that the code does what it should; some say exactly where it does not (a paused task keeps running, an
  encrypted backup cannot be restored, no CSV dump can, migrations run twice over PostgreSQL, a second health polling
  cannot be stopped). Those are statements about the code as it is written.

  Not modelled: sockets, files and connections as such (the packages of src/internal/database below the manager, the pumps of ws/handler.go, src/pkg/net tcp, udp,
  dns, grpc); the set-up of logging, tracing and metrics; clients of outside services (third-party logins, language models, mail, S3, the search
  library); the file of the configuration; the GORM stores of users, keys and tasks; the data race of the hub, since an operation is one step here.
\<close>

end
